(* ===== verification/Prelude.thy ===== *)
theory Prelude
  imports Main "HOL-Library.Word"
begin

text \<open>
  Shared vocabulary of the development: exceptions as values of a sum type, the
  sequencing combinators that the operations are written with, monadic loops over
  containers, the integer widths of the C++ code, and the interface of the
  overflow-checked integers of the \<open>fc\<close> library.
\<close>

named_theorems res_simps \<open>success and failure of the sequencing combinators\<close>

section \<open>Exceptions as values\<close>

text \<open>
  \<open>assert_exception\<close> is what \<open>FC_ASSERT\<close> throws; the other constructors are the
  exception classes the modelled code distinguishes. \<open>undefined_behaviour\<close> is not an
  exception: it marks an execution that dereferences a past-the-end iterator or a
  null pointer, which C++ leaves undefined. \<open>out_of_fuel\<close> marks a loop that did not end
  within the bound the model gives it; the theorems show that it does not occur.
\<close>

datatype fc_exception =
    assert_exception
  | overflow_exception
  | unlinkable_block_exception
  | undo_database_exception
  | out_of_range_exception
  | key_not_found_exception
  | pop_empty_chain
  | invalid_committee_approval
  | tx_missing_active_auth
  | tx_missing_owner_auth
  | tx_missing_other_auth
  | tx_irrelevant_sig
  | tx_duplicate_sig
  | other_exception
  | undefined_behaviour
  | out_of_fuel

type_synonym 'a result = "fc_exception + 'a"

definition rbind :: "'a result \<Rightarrow> ('a \<Rightarrow> 'b result) \<Rightarrow> 'b result" where
  "rbind m f = (case m of Inl e \<Rightarrow> Inl e | Inr x \<Rightarrow> f x)"

definition fc_assert :: "bool \<Rightarrow> 'a result \<Rightarrow> 'a result" where
  "fc_assert b k = (if b then k else Inl assert_exception)"

definition deref :: "'a option \<Rightarrow> 'a result" where
  "deref x = (case x of None \<Rightarrow> Inl undefined_behaviour | Some y \<Rightarrow> Inr y)"

definition get_or_throw :: "'a option \<Rightarrow> 'a result" where
  "get_or_throw x = (case x of None \<Rightarrow> Inl assert_exception | Some y \<Rightarrow> Inr y)"

definition succeeds :: "'a result \<Rightarrow> bool" where
  "succeeds m = (case m of Inl _ \<Rightarrow> False | Inr _ \<Rightarrow> True)"

fun fold_res :: "('a \<Rightarrow> 's \<Rightarrow> 's result) \<Rightarrow> 'a list \<Rightarrow> 's \<Rightarrow> 's result" where
  "fold_res f [] s = Inr s"
| "fold_res f (x # xs) s = rbind (f x s) (fold_res f xs)"

lemma rbind_Inr [simp]: "rbind (Inr x) f = f x"
  by (simp add: rbind_def)

lemma rbind_Inl [simp]: "rbind (Inl e) f = Inl e"
  by (simp add: rbind_def)

lemma rbind_eq_Inr [res_simps]: "rbind m f = Inr y \<longleftrightarrow> (\<exists>x. m = Inr x \<and> f x = Inr y)"
  by (cases m) simp_all

lemma rbind_eq_Inl [res_simps]:
  "rbind m f = Inl e \<longleftrightarrow> m = Inl e \<or> (\<exists>x. m = Inr x \<and> f x = Inl e)"
  by (cases m) simp_all

lemma rbind_assoc: "rbind (rbind m f) g = rbind m (\<lambda>x. rbind (f x) g)"
  by (cases m) simp_all

lemma rbind_cong [fundef_cong]:
  "m = m' \<Longrightarrow> (\<And>x. m' = Inr x \<Longrightarrow> f x = f' x) \<Longrightarrow> rbind m f = rbind m' f'"
  by (cases m') simp_all

lemma fc_assert_True [simp]: "fc_assert True k = k"
  by (simp add: fc_assert_def)

lemma fc_assert_False [simp]: "fc_assert False k = Inl assert_exception"
  by (simp add: fc_assert_def)

lemma fc_assert_eq_Inr [res_simps]: "fc_assert b k = Inr y \<longleftrightarrow> b \<and> k = Inr y"
  by (simp add: fc_assert_def)

lemma fc_assert_eq_Inl [res_simps]:
  "fc_assert b k = Inl e \<longleftrightarrow> (\<not> b \<and> e = assert_exception) \<or> (b \<and> k = Inl e)"
  by (auto simp: fc_assert_def)

lemma deref_eq_Inr [res_simps]: "deref x = Inr y \<longleftrightarrow> x = Some y"
  by (cases x) (simp_all add: deref_def)

lemma deref_Some [simp]: "deref (Some y) = Inr y"
  by (simp add: deref_def)

lemma deref_None [simp]: "deref None = Inl undefined_behaviour"
  by (simp add: deref_def)

lemma get_or_throw_eq_Inr [res_simps]: "get_or_throw x = Inr y \<longleftrightarrow> x = Some y"
  by (cases x) (simp_all add: get_or_throw_def)

lemma get_or_throw_Some [simp]: "get_or_throw (Some y) = Inr y"
  by (simp add: get_or_throw_def)

lemma get_or_throw_None [simp]: "get_or_throw None = Inl assert_exception"
  by (simp add: get_or_throw_def)

lemma succeeds_iff: "succeeds m \<longleftrightarrow> (\<exists>x. m = Inr x)"
  by (cases m) (simp_all add: succeeds_def)

section \<open>Loops over containers\<close>

lemma fold_res_append:
  "fold_res f (xs @ ys) s = rbind (fold_res f xs s) (fold_res f ys)"
  by (induction xs arbitrary: s) (simp_all add: rbind_assoc cong: rbind_cong)

lemma fold_res_invariant:
  assumes "fold_res f xs s = Inr s'" and "P s"
    and "\<And>x s s'. x \<in> set xs \<Longrightarrow> P s \<Longrightarrow> f x s = Inr s' \<Longrightarrow> P s'"
  shows "P s'"
  using assms
proof (induction xs arbitrary: s)
  case Nil
  then show ?case by simp
next
  case (Cons x xs)
  from Cons.prems(1) obtain t where t: "f x s = Inr t" "fold_res f xs t = Inr s'"
    by (auto simp: res_simps)
  have "P t"
    by (rule Cons.prems(3) [OF _ Cons.prems(2) t(1)]) simp
  then show ?case
    by (rule Cons.IH [OF t(2)]) (meson Cons.prems(3) list.set_intros(2))
qed

text \<open>A loop whose steps add up: each step changes a measure by a known amount.\<close>

lemma fold_res_sum:
  fixes m :: "'s \<Rightarrow> int" and d :: "'a \<Rightarrow> int"
  assumes "fold_res f xs s = Inr s'"
    and "\<And>x s s'. x \<in> set xs \<Longrightarrow> f x s = Inr s' \<Longrightarrow> m s' = m s + d x"
  shows "m s' = m s + (\<Sum>x\<leftarrow>xs. d x)"
  using assms
proof (induction xs arbitrary: s)
  case Nil
  then show ?case by simp
next
  case (Cons x xs)
  from Cons.prems(1) obtain t where t: "f x s = Inr t" "fold_res f xs t = Inr s'"
    by (auto simp: res_simps)
  from t(1) Cons.prems(2) have "m t = m s + d x" by simp
  moreover have "m s' = m t + (\<Sum>x\<leftarrow>xs. d x)"
    by (rule Cons.IH [OF t(2)]) (simp add: Cons.prems(2))
  ultimately show ?case by simp
qed

text \<open>A loop all of whose steps succeed under an invariant succeeds.\<close>

lemma fold_res_total:
  assumes "P s"
    and "\<And>x s. x \<in> set xs \<Longrightarrow> P s \<Longrightarrow> \<exists>s'. f x s = Inr s' \<and> P s'"
  shows "\<exists>s'. fold_res f xs s = Inr s' \<and> P s'"
  using assms
proof (induction xs arbitrary: s)
  case Nil
  then show ?case by simp
next
  case (Cons x xs)
  from Cons.prems obtain t where "f x s = Inr t" "P t" by auto
  moreover have "\<exists>s'. fold_res f xs t = Inr s' \<and> P s'"
    using Cons.IH [OF \<open>P t\<close>] Cons.prems(2) by simp
  ultimately show ?case by simp
qed

section \<open>Integer widths\<close>

text \<open>
  Unsigned integers are kept as \<open>int\<close> with the reduction written out, so that the
  points where the code can wrap around are visible. Signed division and remainder
  truncate towards zero.
\<close>

definition u16 :: "int \<Rightarrow> int" where "u16 x = x mod 2 ^ 16"
definition u32 :: "int \<Rightarrow> int" where "u32 x = x mod 2 ^ 32"
definition u64 :: "int \<Rightarrow> int" where "u64 x = x mod 2 ^ 64"
definition u128 :: "int \<Rightarrow> int" where "u128 x = x mod 2 ^ 128"

definition to_int64 :: "int \<Rightarrow> int" where
  "to_int64 x = (let y = x mod 2 ^ 64 in if y < 2 ^ 63 then y else y - 2 ^ 64)"

definition in_int64 :: "int \<Rightarrow> bool" where
  "in_int64 x \<longleftrightarrow> - (2 ^ 63) \<le> x \<and> x < 2 ^ 63"

definition trunc_div :: "int \<Rightarrow> int \<Rightarrow> int" where
  "trunc_div a b = sgn a * sgn b * (\<bar>a\<bar> div \<bar>b\<bar>)"

definition trunc_mod :: "int \<Rightarrow> int \<Rightarrow> int" where
  "trunc_mod a b = a - trunc_div a b * b"

lemma u32_id [simp]: "0 \<le> x \<Longrightarrow> x < 4294967296 \<Longrightarrow> u32 x = x"
  by (simp add: u32_def)

lemma u64_id [simp]: "0 \<le> x \<Longrightarrow> x < 18446744073709551616 \<Longrightarrow> u64 x = x"
  by (simp add: u64_def)

lemma u128_id [simp]: "0 \<le> x \<Longrightarrow> x < 340282366920938463463374607431768211456 \<Longrightarrow> u128 x = x"
  by (simp add: u128_def)

lemma u32_range [simp]: "0 \<le> u32 x" "u32 x < 4294967296"
  by (simp_all add: u32_def)

lemma u64_range [simp]: "0 \<le> u64 x" "u64 x < 18446744073709551616"
  by (simp_all add: u64_def)

lemma u128_range [simp]: "0 \<le> u128 x" "u128 x < 340282366920938463463374607431768211456"
  by (simp_all add: u128_def)

lemma to_int64_id: "in_int64 x \<Longrightarrow> to_int64 x = x"
proof (cases "0 \<le> x")
  case True
  assume "in_int64 x"
  with True show ?thesis by (simp add: in_int64_def to_int64_def)
next
  case False
  assume "in_int64 x"
  with False have "x mod 2 ^ 64 = (x + 2 ^ 64) mod 2 ^ 64"
    and "0 \<le> x + 2 ^ 64" and "x + 2 ^ 64 < 2 ^ 64"
    by (simp_all add: in_int64_def)
  then have "x mod 2 ^ 64 = x + 2 ^ 64" by (metis mod_pos_pos_trivial)
  with \<open>in_int64 x\<close> False show ?thesis by (simp add: in_int64_def to_int64_def)
qed

lemma trunc_div_nonneg [simp]: "0 \<le> a \<Longrightarrow> 0 < b \<Longrightarrow> trunc_div a b = a div b"
  by (cases "a = 0") (simp_all add: trunc_div_def)

lemma trunc_mod_nonneg [simp]: "0 \<le> a \<Longrightarrow> 0 < b \<Longrightarrow> trunc_mod a b = a mod b"
  by (simp add: trunc_mod_def minus_div_mult_eq_mod)

section \<open>Overflow-checked integers\<close>

text \<open>
  \<open>share_type\<close> is \<open>fc::safe<int64_t>\<close> of the \<open>fc\<close> library. The library is a parameter
  of the model: a function \<open>S\<close> that narrows the exact result of an arithmetic
  operation to 64 bits, returning it or throwing. What the code relies on is stated
  by three predicates: a returned result is the exact one and fits (\<open>safe_exact\<close>), a
  result that fits is returned (\<open>safe_total\<close>), and what it throws is the overflow
  exception (\<open>safe_overflow\<close>).
\<close>

type_synonym safe = "int \<Rightarrow> int result"

definition safe_exact :: "safe \<Rightarrow> bool" where
  "safe_exact S \<longleftrightarrow> (\<forall>x y. S x = Inr y \<longrightarrow> y = x \<and> in_int64 x)"

definition safe_total :: "safe \<Rightarrow> bool" where
  "safe_total S \<longleftrightarrow> (\<forall>x. in_int64 x \<longrightarrow> S x = Inr x)"

definition safe_overflow :: "safe \<Rightarrow> bool" where
  "safe_overflow S \<longleftrightarrow> (\<forall>x e. S x = Inl e \<longrightarrow> e = overflow_exception)"

definition safe_int64 :: safe where
  "safe_int64 x = (if in_int64 x then Inr x else Inl overflow_exception)"

lemma safe_exactD: "safe_exact S \<Longrightarrow> S x = Inr y \<Longrightarrow> y = x"
  by (simp add: safe_exact_def)

lemma safe_exact_range: "safe_exact S \<Longrightarrow> S x = Inr y \<Longrightarrow> in_int64 y"
  by (auto simp: safe_exact_def)

lemma safe_totalD: "safe_total S \<Longrightarrow> in_int64 x \<Longrightarrow> S x = Inr x"
  by (simp add: safe_total_def)

lemma safe_int64_exact: "safe_exact safe_int64"
  by (simp add: safe_exact_def safe_int64_def)

lemma safe_overflowD: "safe_overflow S \<Longrightarrow> S x = Inl e \<Longrightarrow> e = overflow_exception"
  by (simp add: safe_overflow_def)

lemma safe_int64_overflow: "safe_overflow safe_int64"
  by (simp add: safe_overflow_def safe_int64_def)

lemma safe_int64_total: "safe_total safe_int64"
  by (simp add: safe_total_def safe_int64_def)

end
