(* ===== verification/Object_Index.thy ===== *)
theory Object_Index
  imports Prelude
begin

text \<open>
  The object index of \<open>libraries/db\<close>: \<open>generic_index\<close>, a \<open>multi_index\<close> container
  whose first key is the object id, under \<open>primary_index\<close>, which hands out ids in
  sequence. An index is a list of rows ordered by instance number (the iteration
  order of \<open>by_id\<close>) and the next instance. The further unique keys of the container
  are a parameter \<open>clash\<close>: two objects with different ids clash when they agree on a
  unique key. The locale \<open>object_table\<close> is what the clients rely on: lookups after each
  operation, and how the sum of a quantity over all objects changes.
\<close>

named_theorems idx_simps \<open>lookups after an update of an index\<close>

section \<open>The container\<close>

record 'a index =
  next_id :: nat
  rows :: "(nat \<times> 'a) list"

definition empty_index :: "'a index" where
  "empty_index = \<lparr>next_id = 0, rows = []\<rparr>"

definition wf_index :: "'a index \<Rightarrow> bool" where
  "wf_index t \<longleftrightarrow>
     sorted_wrt (<) (map fst (rows t)) \<and> list_all (\<lambda>i. i < next_id t) (map fst (rows t))"

fun ins_row :: "nat \<Rightarrow> 'a \<Rightarrow> (nat \<times> 'a) list \<Rightarrow> (nat \<times> 'a) list" where
  "ins_row i x [] = [(i, x)]"
| "ins_row i x ((j, y) # rs) = (if i < j then (i, x) # (j, y) # rs else (j, y) # ins_row i x rs)"

definition upd_row :: "nat \<Rightarrow> 'a \<Rightarrow> (nat \<times> 'a) list \<Rightarrow> (nat \<times> 'a) list" where
  "upd_row i x rs = map (\<lambda>(j, y). (j, if j = i then x else y)) rs"

definition del_row :: "nat \<Rightarrow> (nat \<times> 'a) list \<Rightarrow> (nat \<times> 'a) list" where
  "del_row i rs = filter (\<lambda>r. fst r \<noteq> i) rs"

definition conflicts :: "('a \<Rightarrow> 'a \<Rightarrow> bool) \<Rightarrow> nat \<Rightarrow> 'a \<Rightarrow> (nat \<times> 'a) list \<Rightarrow> bool" where
  "conflicts clash i x rs = list_ex (\<lambda>(j, y). j \<noteq> i \<and> clash x y) rs"

section \<open>Operations\<close>

definition idx_find :: "'a index \<Rightarrow> nat \<Rightarrow> 'a option" where
  "idx_find t i = map_of (rows t) i"

definition idx_get :: "'a index \<Rightarrow> nat \<Rightarrow> 'a result" where
  "idx_get t i = get_or_throw (idx_find t i)"

definition idx_insert :: "('a \<Rightarrow> 'a \<Rightarrow> bool) \<Rightarrow> 'a index \<Rightarrow> nat \<Rightarrow> 'a \<Rightarrow> 'a index result" where
  "idx_insert clash t i x =
     fc_assert (idx_find t i = None \<and> \<not> conflicts clash i x (rows t))
       (Inr (t\<lparr>rows := ins_row i x (rows t)\<rparr>))"

definition idx_create :: "('a \<Rightarrow> 'a \<Rightarrow> bool) \<Rightarrow> 'a index \<Rightarrow> (nat \<Rightarrow> 'a) \<Rightarrow> (nat \<times> 'a index) result" where
  "idx_create clash t constructor =
     (let i = next_id t; item = constructor i in
      fc_assert (idx_find t i = None \<and> \<not> conflicts clash i item (rows t))
        (Inr (i, t\<lparr>rows := ins_row i item (rows t), next_id := Suc i\<rparr>)))"

text \<open>
  \<open>modify\<close> and \<open>remove\<close> take a reference to a stored object; here it is given by the
  object's id, and an id that is not stored stands for a dangling reference. An exception is a value here and
  carries no index. In the code \<open>modify\<close> of the container erases the object whose new value collides with another one before the
  assertion fails, so an index is not what it was when such an exception is caught; the theorems say nothing of
  the objects after it.
\<close>

definition idx_modify :: "('a \<Rightarrow> 'a \<Rightarrow> bool) \<Rightarrow> 'a index \<Rightarrow> nat \<Rightarrow> ('a \<Rightarrow> 'a) \<Rightarrow> 'a index result" where
  "idx_modify clash t i m =
     (case idx_find t i of
        None \<Rightarrow> Inl undefined_behaviour
      | Some x \<Rightarrow> fc_assert (\<not> conflicts clash i (m x) (rows t))
                   (Inr (t\<lparr>rows := upd_row i (m x) (rows t)\<rparr>)))"

text \<open>A modification whose body may throw.\<close>

definition idx_update :: "('a \<Rightarrow> 'a \<Rightarrow> bool) \<Rightarrow> 'a index \<Rightarrow> nat \<Rightarrow> ('a \<Rightarrow> 'a result) \<Rightarrow> 'a index result" where
  "idx_update clash t i m =
     (case idx_find t i of
        None \<Rightarrow> Inl undefined_behaviour
      | Some x \<Rightarrow> rbind (m x) (\<lambda>y. idx_modify clash t i (\<lambda>_. y)))"

definition idx_remove :: "'a index \<Rightarrow> nat \<Rightarrow> 'a index result" where
  "idx_remove t i =
     (case idx_find t i of
        None \<Rightarrow> Inl undefined_behaviour
      | Some _ \<Rightarrow> Inr (t\<lparr>rows := del_row i (rows t)\<rparr>))"

definition idx_set_next_id :: "'a index \<Rightarrow> nat \<Rightarrow> 'a index" where
  "idx_set_next_id t i = t\<lparr>next_id := i\<rparr>"

text \<open>Lookup by a secondary key: the first row in id order that satisfies a predicate.\<close>

definition idx_find_by :: "('a \<Rightarrow> bool) \<Rightarrow> 'a index \<Rightarrow> (nat \<times> 'a) option" where
  "idx_find_by p t = List.find (\<lambda>r. p (snd r)) (rows t)"

definition idx_objects :: "'a index \<Rightarrow> 'a list" where
  "idx_objects t = map snd (rows t)"

section \<open>Rows\<close>

lemma set_ins_row [simp]: "set (ins_row i x rs) = insert (i, x) (set rs)"
  by (induction i x rs rule: ins_row.induct) auto

lemma map_of_ins_row [idx_simps]:
  "sorted_wrt (<) (map fst rs) \<Longrightarrow> map_of rs i = None \<Longrightarrow> map_of (ins_row i x rs) = (map_of rs)(i \<mapsto> x)"
  by (induction i x rs rule: ins_row.induct) (auto split: if_splits)

lemma sorted_ins_row:
  "sorted_wrt (<) (map fst rs) \<Longrightarrow> i \<notin> fst ` set rs \<Longrightarrow> sorted_wrt (<) (map fst (ins_row i x rs))"
  by (induction i x rs rule: ins_row.induct) (auto simp: image_iff)

lemma map_fst_upd_row [simp]: "map fst (upd_row i x rs) = map fst rs"
  by (simp add: upd_row_def case_prod_beta comp_def)

lemma map_of_upd_row [idx_simps]:
  "map_of (upd_row i x rs) = (\<lambda>j. if j = i \<and> map_of rs i \<noteq> None then Some x else map_of rs j)"
  by (induction rs) (auto simp: upd_row_def fun_eq_iff)

lemma map_of_del_row [idx_simps]: "map_of (del_row i rs) = (map_of rs)(i := None)"
  by (induction rs) (auto simp: del_row_def fun_eq_iff)

lemma fst_del_row: "fst ` set (del_row i rs) = fst ` set rs - {i}"
  by (auto simp: del_row_def image_iff)

lemma sorted_del_row:
  "sorted_wrt (<) (map fst rs) \<Longrightarrow> sorted_wrt (<) (map fst (del_row i rs))"
  by (induction rs) (auto simp: del_row_def)

lemma sorted_imp_distinct_rows: "sorted_wrt (<) (map fst rs) \<Longrightarrow> distinct (map fst rs)"
  for rs :: "(nat \<times> 'a) list"
  by (simp add: strict_sorted_iff)

text \<open>Ordered rows are determined by their lookups.\<close>

lemma sorted_rows_unique:
  fixes rs :: "(nat \<times> 'a) list"
  assumes "sorted_wrt (<) (map fst rs)" "sorted_wrt (<) (map fst ss)" "map_of rs = map_of ss"
  shows "rs = ss"
proof -
  have d: "distinct (map fst rs)" "distinct (map fst ss)"
    using assms by (simp_all add: strict_sorted_iff)
  then have "set rs = set ss"
    by (metis assms(3) map_of_eqI map_of_eq_Some_iff order_refl set_eqI surj_pair)
  moreover have "fst ` set rs = fst ` set ss" using calculation by simp
  then have "map fst rs = map fst ss"
    using assms(1,2) by (intro strict_sorted_equal) auto
  ultimately show ?thesis
    using d by (metis map_eq_imp_length_eq map_of_eq_Some_iff nth_equalityI nth_map nth_mem
        prod.collapse assms(3) option.inject)
qed

section \<open>Well-formedness and lookups\<close>

lemma wf_empty_index [simp]: "wf_index empty_index"
  by (simp add: wf_index_def empty_index_def)

lemma idx_find_eq: "idx_find t = map_of (rows t)"
  by (simp add: fun_eq_iff idx_find_def)

lemma wf_index_alt:
  "wf_index t \<longleftrightarrow> sorted_wrt (<) (map fst (rows t)) \<and> (\<forall>i \<in> fst ` set (rows t). i < next_id t)"
  by (simp add: wf_index_def list_all_iff)

lemma idx_find_None: "idx_find t i = None \<longleftrightarrow> i \<notin> fst ` set (rows t)"
  by (simp add: idx_find_def map_of_eq_None_iff)

lemma wf_index_find_less: "wf_index t \<Longrightarrow> idx_find t i = Some x \<Longrightarrow> i < next_id t"
  by (metis wf_index_alt idx_find_None option.simps(3))

lemma idx_insert_Inr:
  assumes "idx_insert clash t i x = Inr t'" and "wf_index t" and "i < next_id t"
  shows "wf_index t'" "next_id t' = next_id t" "idx_find t i = None"
    "idx_find t' = (idx_find t)(i \<mapsto> x)"
proof -
  from assms(1) have f: "idx_find t i = None"
    and t': "t' = t\<lparr>rows := ins_row i x (rows t)\<rparr>"
    by (auto simp: idx_insert_def res_simps)
  show "next_id t' = next_id t" "idx_find t i = None" using f t' by simp_all
  from f have n: "i \<notin> fst ` set (rows t)" by (simp add: idx_find_None)
  with assms(2,3) show "wf_index t'"
    by (simp add: t' wf_index_alt sorted_ins_row)
  show "idx_find t' = (idx_find t)(i \<mapsto> x)"
    using assms(2) f by (simp add: t' idx_find_eq map_of_ins_row wf_index_def)
qed

lemma idx_create_Inr:
  assumes "idx_create clash t c = Inr (i, t')" and "wf_index t"
  shows "wf_index t'" "i = next_id t" "next_id t' = Suc i" "idx_find t i = None"
    "idx_find t' = (idx_find t)(i \<mapsto> c i)"
proof -
  from assms(1) have f: "idx_find t i = None" and i: "i = next_id t"
    and t': "t' = t\<lparr>rows := ins_row i (c i) (rows t), next_id := Suc i\<rparr>"
    by (auto simp: idx_create_def Let_def res_simps)
  show "i = next_id t" "next_id t' = Suc i" "idx_find t i = None" using f i t' by simp_all
  from f have n: "i \<notin> fst ` set (rows t)" by (simp add: idx_find_None)
  with assms(2) i show "wf_index t'"
    by (auto simp: t' wf_index_alt sorted_ins_row less_Suc_eq)
  show "idx_find t' = (idx_find t)(i \<mapsto> c i)"
    using assms(2) f by (simp add: t' idx_find_eq map_of_ins_row wf_index_def)
qed

lemma idx_modify_Inr:
  assumes "idx_modify clash t i m = Inr t'"
  shows "next_id t' = next_id t" "wf_index t' = wf_index t"
    "\<exists>x. idx_find t i = Some x \<and> idx_find t' = (idx_find t)(i \<mapsto> m x)"
proof -
  from assms obtain x where x: "idx_find t i = Some x"
    and t': "t' = t\<lparr>rows := upd_row i (m x) (rows t)\<rparr>"
    by (auto simp: idx_modify_def res_simps split: option.splits)
  show "next_id t' = next_id t" using t' by simp
  show "wf_index t' = wf_index t" by (simp add: t' wf_index_def)
  show "\<exists>x. idx_find t i = Some x \<and> idx_find t' = (idx_find t)(i \<mapsto> m x)"
    using x by (auto simp: t' idx_find_eq map_of_upd_row fun_eq_iff)
qed

lemma idx_remove_Inr:
  assumes "idx_remove t i = Inr t'"
  shows "next_id t' = next_id t" "wf_index t \<Longrightarrow> wf_index t'"
    "idx_find t i \<noteq> None" "idx_find t' = (idx_find t)(i := None)"
proof -
  from assms have i: "idx_find t i \<noteq> None" and t': "t' = t\<lparr>rows := del_row i (rows t)\<rparr>"
    by (auto simp: idx_remove_def split: option.splits)
  show "next_id t' = next_id t" "idx_find t i \<noteq> None" using t' i by simp_all
  show "idx_find t' = (idx_find t)(i := None)"
    by (simp add: t' idx_find_eq map_of_del_row)
  show "wf_index t \<Longrightarrow> wf_index t'"
    unfolding wf_index_alt t' by (simp add: sorted_del_row fst_del_row del: image_iff ball_simps)
qed

lemma wf_index_eqI:
  fixes t u :: "'a index"
  assumes "wf_index t" "wf_index u" "next_id t = next_id u" "idx_find t = idx_find u"
  shows "t = u"
proof -
  have "rows t = rows u"
    using assms by (intro sorted_rows_unique) (auto simp: wf_index_def idx_find_def fun_eq_iff)
  with assms(3) show ?thesis by simp
qed

lemma idx_update_Inr:
  assumes "idx_update clash t i m = Inr t'"
  shows "\<exists>x y. idx_find t i = Some x \<and> m x = Inr y \<and> idx_find t' = (idx_find t)(i \<mapsto> y)"
    "wf_index t' = wf_index t" "next_id t' = next_id t"
proof -
  from assms obtain x y where x: "idx_find t i = Some x" "m x = Inr y"
    and u: "idx_modify clash t i (\<lambda>_. y) = Inr t'"
    by (auto simp: idx_update_def res_simps split: option.splits)
  from idx_modify_Inr [OF u] x
  show "\<exists>x y. idx_find t i = Some x \<and> m x = Inr y \<and> idx_find t' = (idx_find t)(i \<mapsto> y)"
    "wf_index t' = wf_index t" "next_id t' = next_id t"
    by auto
qed

section \<open>The contract of a table\<close>

locale object_table =
  fixes wf :: "'t \<Rightarrow> bool" and lookup :: "'t \<Rightarrow> nat \<Rightarrow> 'a option"
    and create :: "'t \<Rightarrow> (nat \<Rightarrow> 'a) \<Rightarrow> (nat \<times> 't) result"
    and update :: "'t \<Rightarrow> nat \<Rightarrow> ('a \<Rightarrow> 'a result) \<Rightarrow> 't result"
    and remove :: "'t \<Rightarrow> nat \<Rightarrow> 't result"
  assumes finite_table: "finite (dom (lookup t))"
    and create_law: "wf t \<Longrightarrow> create t c = Inr (i, t') \<Longrightarrow>
      wf t' \<and> lookup t i = None \<and> lookup t' = (lookup t)(i \<mapsto> c i)"
    and update_law: "wf t \<Longrightarrow> update t i m = Inr t' \<Longrightarrow>
      wf t' \<and> (\<exists>x y. lookup t i = Some x \<and> m x = Inr y \<and> lookup t' = (lookup t)(i \<mapsto> y))"
    and remove_law: "wf t \<Longrightarrow> remove t i = Inr t' \<Longrightarrow>
      wf t' \<and> lookup t i \<noteq> None \<and> lookup t' = (lookup t)(i := None)"
begin

definition total :: "('a \<Rightarrow> int) \<Rightarrow> 't \<Rightarrow> int" where
  "total w t = (\<Sum>i \<in> dom (lookup t). w (the (lookup t i)))"

lemma total_upd:
  assumes "lookup t' = (lookup t)(i \<mapsto> y)"
  shows "total w t' = total w t + w y - (case lookup t i of None \<Rightarrow> 0 | Some x \<Rightarrow> w x)"
proof -
  have d: "dom (lookup t') = insert i (dom (lookup t) - {i})" using assms by auto
  have "total w t' = w y + (\<Sum>j \<in> dom (lookup t) - {i}. w (the (lookup t' j)))"
    unfolding total_def d using finite_table [of t] assms by (simp add: sum.insert_remove)
  also have "(\<Sum>j \<in> dom (lookup t) - {i}. w (the (lookup t' j))) = (\<Sum>j \<in> dom (lookup t) - {i}. w (the (lookup t j)))"
    using assms by (intro sum.cong) auto
  also have "\<dots> = total w t - (case lookup t i of None \<Rightarrow> 0 | Some x \<Rightarrow> w x)"
    unfolding total_def using finite_table [of t]
    by (cases "lookup t i") (simp_all add: sum_diff1 domIff insert_absorb domI)
  finally show ?thesis by simp
qed

lemma total_create: "wf t \<Longrightarrow> create t c = Inr (i, t') \<Longrightarrow> total w t' = total w t + w (c i)"
  using create_law [of t c i t'] total_upd [of t' t i "c i" w] by simp

lemma total_update:
  assumes "wf t" "update t i m = Inr t'"
  obtains x y where "lookup t i = Some x" "m x = Inr y" "total w t' = total w t - w x + w y"
    "wf t'" "lookup t' = (lookup t)(i \<mapsto> y)"
  using update_law [OF assms] total_upd [of t' t i _ w] by (metis add.commute add_diff_eq diff_add_eq option.simps(5))

lemma total_remove:
  assumes "wf t" "remove t i = Inr t'" "lookup t i = Some x"
  shows "total w t' = total w t - w x"
proof -
  have "lookup t' = (lookup t)(i := None)" using remove_law [OF assms(1,2)] by simp
  moreover from this have "lookup t = (lookup t')(i \<mapsto> x)" using assms(3) by (auto simp: fun_eq_iff)
  moreover have "lookup t' i = None" using calculation(1) by simp
  ultimately show ?thesis using total_upd [of t t' i x w] by simp
qed

end

interpretation table: object_table wf_index idx_find "idx_create clash" "idx_update clash" idx_remove
  for clash :: "'a \<Rightarrow> 'a \<Rightarrow> bool"
proof
  fix t :: "'a index"
  show "finite (dom (idx_find t))" by (simp add: idx_find_eq finite_dom_map_of)
next
  fix t :: "'a index" and c i t'
  assume "wf_index t" "idx_create clash t c = Inr (i, t')"
  from idx_create_Inr [OF this(2,1)]
  show "wf_index t' \<and> idx_find t i = None \<and> idx_find t' = (idx_find t)(i \<mapsto> c i)" by simp
next
  fix t :: "'a index" and i m t'
  assume "wf_index t" "idx_update clash t i m = Inr t'"
  from idx_update_Inr [OF this(2)] this(1)
  show "wf_index t' \<and> (\<exists>x y. idx_find t i = Some x \<and> m x = Inr y \<and> idx_find t' = (idx_find t)(i \<mapsto> y))"
    by simp
next
  fix t :: "'a index" and i t'
  assume "wf_index t" "idx_remove t i = Inr t'"
  from idx_remove_Inr [OF this(2)] this(1)
  show "wf_index t' \<and> idx_find t i \<noteq> None \<and> idx_find t' = (idx_find t)(i := None)" by simp
qed

lemma find_Some_set: "List.find P xs = Some x \<Longrightarrow> x \<in> set xs \<and> P x"
  by (induction xs) (auto split: if_splits)

lemma idx_find_by_Some:
  assumes "wf_index t" "idx_find_by p t = Some (i, x)"
  shows "idx_find t i = Some x" "p x"
  using assms find_Some_set [of "\<lambda>r. p (snd r)" "rows t" "(i, x)"]
  by (simp_all add: idx_find_by_def idx_find_def wf_index_def sorted_imp_distinct_rows)

section \<open>Sums over an index\<close>

definition idx_total :: "('a \<Rightarrow> int) \<Rightarrow> 'a index \<Rightarrow> int" where
  "idx_total w t = (\<Sum>r\<leftarrow>rows t. w (snd r))"

lemma idx_total_table: "wf_index t \<Longrightarrow> idx_total w t = table.total w t"
proof -
  assume "wf_index t"
  then have d: "distinct (map fst (rows t))" by (simp add: wf_index_def strict_sorted_iff)
  have "idx_total w t = (\<Sum>r \<in> set (rows t). w (snd r))"
    unfolding idx_total_def using d by (simp add: sum_list_distinct_conv_sum_set distinct_map)
  also have "\<dots> = (\<Sum>r \<in> set (rows t). w (the (idx_find t (fst r))))"
    using d by (intro sum.cong) (auto simp: idx_find_def)
  also have "\<dots> = (\<Sum>i \<in> fst ` set (rows t). w (the (idx_find t i)))"
    using d by (simp add: sum.reindex distinct_map)
  also have "fst ` set (rows t) = dom (idx_find t)" by (simp add: idx_find_eq dom_map_of_conv_image_fst)
  finally show ?thesis by (simp add: table.total_def)
qed

lemma idx_total_create:
  assumes "wf_index t" "idx_create clash t c = Inr (i, t')"
  shows "idx_total w t' = idx_total w t + w (c i)" "wf_index t'" "i = next_id t" "idx_find t i = None"
    "idx_find t' = (idx_find t)(i \<mapsto> c i)"
  using table.total_create [OF assms, of w] idx_create_Inr [OF assms(2,1)] assms(1)
  by (simp_all add: idx_total_table)

lemma idx_total_update:
  assumes "wf_index t" "idx_update clash t i m = Inr t'"
  obtains x y where "idx_find t i = Some x" "m x = Inr y" "idx_total w t' = idx_total w t - w x + w y"
    "wf_index t'" "idx_find t' = (idx_find t)(i \<mapsto> y)"
  by (rule table.total_update [OF assms, of w]) (metis idx_total_table assms(1) that)

lemma idx_total_nonneg: "list_all (\<lambda>r. 0 \<le> w (snd r)) (rows t) \<Longrightarrow> 0 \<le> idx_total w t"
  unfolding idx_total_def by (intro sum_list_nonneg) (auto simp: list_all_iff)

end
