(* ===== verification/Undo_Database.thy ===== *)
theory Undo_Database
  imports Object_Index "HOL-Library.AList"
begin

text \<open>
  \<open>object_database\<close> and \<open>undo_database\<close> of \<open>libraries/db\<close>: the heterogeneous object
  store whose primary indexes report every create, modify and remove to a stack of
  undo states. The specification is a stack of snapshots: each undo state describes
  how to get from the current objects back to the snapshot taken when its session
  started (\<open>undo_inv\<close>), and \<open>undo\<close>, \<open>merge\<close>, \<open>commit\<close> and \<open>pop_commit\<close> are shown to
  implement the operations on snapshots.
\<close>

section \<open>State\<close>

type_synonym object_id = "nat \<times> nat \<times> nat" \<comment> \<open>space, type, instance\<close>
type_synonym index_key = "nat \<times> nat" \<comment> \<open>space, type\<close>

abbreviation key_of :: "object_id \<Rightarrow> index_key" where
  "key_of oid \<equiv> (fst oid, fst (snd oid))"

abbreviation inst_of :: "object_id \<Rightarrow> nat" where
  "inst_of oid \<equiv> snd (snd oid)"

record 'o undo_state =
  old_values :: "(object_id \<times> 'o) list"
  old_index_next_ids :: "(object_id \<times> object_id) list"
  new_ids :: "object_id list"
  removed :: "(object_id \<times> 'o) list"

definition empty_undo_state :: "'o undo_state" where
  "empty_undo_state = \<lparr>old_values = [], old_index_next_ids = [], new_ids = [], removed = []\<rparr>"

text \<open>The deque of undo states is kept with its back first.\<close>

record 'o object_database =
  indexes :: "index_key \<Rightarrow> 'o index option"
  active_sessions :: nat
  disabled :: bool
  stack :: "'o undo_state list"
  max_size :: nat

type_synonym 'o keys = "index_key \<Rightarrow> 'o \<Rightarrow> 'o \<Rightarrow> bool"

definition undo_enable :: "'o object_database \<Rightarrow> 'o object_database" where
  "undo_enable db = db\<lparr>disabled := False\<rparr>"

definition undo_disable :: "'o object_database \<Rightarrow> 'o object_database" where
  "undo_disable db = db\<lparr>disabled := True\<rparr>"

section \<open>Recording changes\<close>

definition back_state :: "'o object_database \<Rightarrow> 'o undo_state" where
  "back_state db = (case stack db of [] \<Rightarrow> empty_undo_state | st # _ \<Rightarrow> st)"

definition set_back :: "'o undo_state \<Rightarrow> 'o object_database \<Rightarrow> 'o object_database" where
  "set_back st db = db\<lparr>stack := st # tl (stack db)\<rparr>"

definition note_create :: "object_id \<Rightarrow> 'o undo_state \<Rightarrow> 'o undo_state" where
  "note_create oid st =
     (let index_id = (fst oid, fst (snd oid), 0) in
      st\<lparr>old_index_next_ids :=
           (if map_of (old_index_next_ids st) index_id = None
            then AList.update index_id oid (old_index_next_ids st)
            else old_index_next_ids st),
         new_ids := List.insert oid (new_ids st)\<rparr>)"

definition note_modify :: "object_id \<Rightarrow> 'o \<Rightarrow> 'o undo_state \<Rightarrow> 'o undo_state" where
  "note_modify oid obj st =
     (if oid \<in> set (new_ids st) then st
      else if map_of (old_values st) oid \<noteq> None then st
      else st\<lparr>old_values := AList.update oid obj (old_values st)\<rparr>)"

definition note_remove :: "object_id \<Rightarrow> 'o \<Rightarrow> 'o undo_state \<Rightarrow> 'o undo_state" where
  "note_remove oid obj st =
     (if oid \<in> set (new_ids st) then st\<lparr>new_ids := removeAll oid (new_ids st)\<rparr>
      else case map_of (old_values st) oid of
        Some v \<Rightarrow> st\<lparr>removed := AList.update oid v (removed st),
                     old_values := AList.delete oid (old_values st)\<rparr>
      | None \<Rightarrow>
          if map_of (removed st) oid \<noteq> None then st
          else st\<lparr>removed := AList.update oid obj (removed st)\<rparr>)"

definition on_create :: "object_id \<Rightarrow> 'o object_database \<Rightarrow> 'o object_database" where
  "on_create oid db = (if disabled db then db else set_back (note_create oid (back_state db)) db)"

definition on_modify :: "object_id \<Rightarrow> 'o \<Rightarrow> 'o object_database \<Rightarrow> 'o object_database" where
  "on_modify oid obj db =
     (if disabled db then db else set_back (note_modify oid obj (back_state db)) db)"

definition on_remove :: "object_id \<Rightarrow> 'o \<Rightarrow> 'o object_database \<Rightarrow> 'o object_database" where
  "on_remove oid obj db =
     (if disabled db then db else set_back (note_remove oid obj (back_state db)) db)"

section \<open>The object database\<close>

definition get_index :: "'o object_database \<Rightarrow> index_key \<Rightarrow> 'o index result" where
  "get_index db k = get_or_throw (indexes db k)"

definition set_index :: "index_key \<Rightarrow> 'o index \<Rightarrow> 'o object_database \<Rightarrow> 'o object_database" where
  "set_index k ix db = db\<lparr>indexes := (indexes db)(k := Some ix)\<rparr>"

definition find_object :: "'o object_database \<Rightarrow> object_id \<Rightarrow> 'o option result" where
  "find_object db oid = rbind (get_index db (key_of oid)) (\<lambda>ix. Inr (idx_find ix (inst_of oid)))"

definition get_object :: "'o object_database \<Rightarrow> object_id \<Rightarrow> 'o result" where
  "get_object db oid = rbind (get_index db (key_of oid)) (\<lambda>ix. idx_get ix (inst_of oid))"

definition od_create ::
  "'o keys \<Rightarrow> 'o object_database \<Rightarrow> index_key \<Rightarrow> (nat \<Rightarrow> 'o) \<Rightarrow> (object_id \<times> 'o object_database) result" where
  "od_create clash db k constructor =
     rbind (get_index db k) (\<lambda>ix.
     rbind (idx_create (clash k) ix constructor) (\<lambda>(i, ix').
       let oid = (fst k, snd k, i) in Inr (oid, on_create oid (set_index k ix' db))))"

definition od_modify ::
  "'o keys \<Rightarrow> 'o object_database \<Rightarrow> object_id \<Rightarrow> ('o \<Rightarrow> 'o) \<Rightarrow> 'o object_database result" where
  "od_modify clash db oid m =
     rbind (get_index db (key_of oid)) (\<lambda>ix.
     rbind (deref (idx_find ix (inst_of oid))) (\<lambda>obj.
     let db1 = on_modify oid obj db in
     rbind (idx_modify (clash (key_of oid)) ix (inst_of oid) m) (\<lambda>ix'.
       Inr (set_index (key_of oid) ix' db1))))"

definition od_remove :: "'o object_database \<Rightarrow> object_id \<Rightarrow> 'o object_database result" where
  "od_remove db oid =
     rbind (get_index db (key_of oid)) (\<lambda>ix.
     rbind (deref (idx_find ix (inst_of oid))) (\<lambda>obj.
     let db1 = on_remove oid obj db in
     rbind (idx_remove ix (inst_of oid)) (\<lambda>ix'. Inr (set_index (key_of oid) ix' db1))))"

definition od_insert :: "'o keys \<Rightarrow> 'o object_database \<Rightarrow> object_id \<Rightarrow> 'o \<Rightarrow> 'o object_database result" where
  "od_insert clash db oid obj =
     rbind (get_index db (key_of oid)) (\<lambda>ix.
     rbind (idx_insert (clash (key_of oid)) ix (inst_of oid) obj) (\<lambda>ix'.
       Inr (set_index (key_of oid) ix' db)))"

definition od_set_next_id :: "'o object_database \<Rightarrow> object_id \<Rightarrow> object_id \<Rightarrow> 'o object_database result" where
  "od_set_next_id db index_id nid =
     rbind (get_index db (key_of index_id)) (\<lambda>ix.
       Inr (set_index (key_of index_id) (idx_set_next_id ix (inst_of nid)) db))"

section \<open>Sessions\<close>

fun trim :: "nat \<Rightarrow> 'o undo_state list \<Rightarrow> 'o undo_state list" where
  "trim n st = (if length st > n then trim n (butlast st) else st)"

declare trim.simps [simp del]

text \<open>The flags of a session object: whether it is bound to undo, and whether its end disables.\<close>

definition start_undo_session :: "bool \<Rightarrow> 'o object_database \<Rightarrow> (bool \<times> 'o object_database)" where
  "start_undo_session force_enable db =
     (if disabled db \<and> \<not> force_enable then (False, db)
      else
        let disable_on_exit = (disabled db \<and> force_enable);
            db1 = (if force_enable then undo_enable db else db)
        in (disable_on_exit,
            db1\<lparr>stack := empty_undo_state # trim (max_size db1) (stack db1),
               active_sessions := active_sessions db1 + 1\<rparr>))"

text \<open>
  Each container of an undo state is restored in the order its entries were recorded, where the code walks hash tables in an order the
  library leaves open. The order matters only where unique keys clash on the way (\<open>undo_unique_key_fails\<close>).
\<close>

definition restore_state :: "'o keys \<Rightarrow> 'o undo_state \<Rightarrow> 'o object_database \<Rightarrow> 'o object_database result" where
  "restore_state clash st db =
     rbind (fold_res (\<lambda>(oid, v) d. rbind (get_object d oid) (\<lambda>_. od_modify clash d oid (\<lambda>_. v)))
              (old_values st) db) (\<lambda>db.
     rbind (fold_res (\<lambda>oid d. rbind (get_object d oid) (\<lambda>_. od_remove d oid)) (new_ids st) db) (\<lambda>db.
     rbind (fold_res (\<lambda>(k, nid) d. od_set_next_id d k nid) (old_index_next_ids st) db) (\<lambda>db.
     fold_res (\<lambda>(oid, v) d. od_insert clash d oid v) (removed st) db)))"

definition undo :: "'o keys \<Rightarrow> 'o object_database \<Rightarrow> 'o object_database result" where
  "undo clash db =
     fc_assert (\<not> disabled db) (fc_assert (active_sessions db > 0)
       (case stack db of
          [] \<Rightarrow> Inl undefined_behaviour
        | st # rest \<Rightarrow>
            rbind (restore_state clash st (undo_disable db)) (\<lambda>db1.
              Inr ((undo_enable db1)\<lparr>stack := (if rest = [] then [empty_undo_state] else rest),
                                     active_sessions := active_sessions db - 1\<rparr>))))"

definition merge_old_value :: "object_id \<times> 'o \<Rightarrow> 'o undo_state \<Rightarrow> 'o undo_state" where
  "merge_old_value p prev =
     (if fst p \<in> set (new_ids prev) then prev
      else if map_of (old_values prev) (fst p) \<noteq> None then prev
      else prev\<lparr>old_values := AList.update (fst p) (snd p) (old_values prev)\<rparr>)"

definition merge_next_id :: "object_id \<times> object_id \<Rightarrow> 'o undo_state \<Rightarrow> 'o undo_state" where
  "merge_next_id p prev =
     (if map_of (old_index_next_ids prev) (fst p) = None
      then prev\<lparr>old_index_next_ids := AList.update (fst p) (snd p) (old_index_next_ids prev)\<rparr>
      else prev)"

definition merge_removed :: "object_id \<times> 'o \<Rightarrow> 'o undo_state \<Rightarrow> 'o undo_state" where
  "merge_removed p prev =
     (if fst p \<in> set (new_ids prev) then prev\<lparr>new_ids := removeAll (fst p) (new_ids prev)\<rparr>
      else case map_of (old_values prev) (fst p) of
        Some v \<Rightarrow> prev\<lparr>removed := AList.update (fst p) v (removed prev),
                       old_values := AList.delete (fst p) (old_values prev)\<rparr>
      | None \<Rightarrow> prev\<lparr>removed := AList.update (fst p) (snd p) (removed prev)\<rparr>)"

definition merge_states :: "'o undo_state \<Rightarrow> 'o undo_state \<Rightarrow> 'o undo_state" where
  "merge_states prev st =
     (let p1 = fold merge_old_value (old_values st) prev;
          p2 = p1\<lparr>new_ids := fold List.insert (new_ids st) (new_ids p1)\<rparr>;
          p3 = fold merge_next_id (old_index_next_ids st) p2
      in fold merge_removed (removed st) p3)"

definition merge :: "'o object_database \<Rightarrow> 'o object_database result" where
  "merge db =
     fc_assert (active_sessions db > 0)
       (case stack db of
          st # prev # rest \<Rightarrow>
            Inr (db\<lparr>stack := merge_states prev st # rest, active_sessions := active_sessions db - 1\<rparr>)
        | _ \<Rightarrow> Inl assert_exception)"

definition commit :: "'o object_database \<Rightarrow> 'o object_database result" where
  "commit db = fc_assert (active_sessions db > 0)
     (Inr (db\<lparr>active_sessions := active_sessions db - 1\<rparr>))"

definition pop_commit :: "'o keys \<Rightarrow> 'o object_database \<Rightarrow> 'o object_database result" where
  "pop_commit clash db =
     fc_assert (active_sessions db = 0)
       (case stack db of
          [] \<Rightarrow> Inl assert_exception
        | st # rest \<Rightarrow>
            rbind (restore_state clash st (undo_disable db)) (\<lambda>db1.
              Inr ((undo_enable db1)\<lparr>stack := rest\<rparr>)))"

text \<open>The session object's own \<open>undo\<close> and \<open>merge\<close> honour \<open>disable_on_exit\<close>.\<close>

definition session_merge :: "bool \<Rightarrow> 'o object_database \<Rightarrow> 'o object_database result" where
  "session_merge disable_on_exit db = (if disable_on_exit then commit db else merge db)"

definition session_exit :: "'o keys \<Rightarrow> bool \<Rightarrow> bool \<Rightarrow> 'o object_database \<Rightarrow> 'o object_database result" where
  "session_exit clash apply_undo disable_on_exit db =
     rbind (if apply_undo then undo clash db else Inr db) (\<lambda>db1.
       Inr (if disable_on_exit then undo_disable db1 else db1))"

end
