(* ===== verification/Undo_Correctness.thy ===== *)
theory Undo_Correctness
  imports Undo_Database
begin

text \<open>
  Correctness of the undo database against its snapshot specification. The relation of
  an object to an undo state is the one the comment in \<open>undo_database::merge\<close> names:
  new, updated with its old value, deleted with its old value, or untouched.
\<close>

text \<open>Object ids are triples that the proofs keep whole.\<close>

declare split_paired_All [simp del] split_paired_Ex [simp del]

section \<open>The relation of an object to an undo state\<close>

datatype 'o obj_status = New | Upd 'o | Del 'o | Nop

definition status :: "'o undo_state \<Rightarrow> object_id \<Rightarrow> 'o obj_status" where
  "status st oid =
     (if oid \<in> set (new_ids st) then New
      else case map_of (old_values st) oid of
        Some v \<Rightarrow> Upd v
      | None \<Rightarrow> (case map_of (removed st) oid of Some v \<Rightarrow> Del v | None \<Rightarrow> Nop))"

fun compose :: "'o obj_status \<Rightarrow> 'o obj_status \<Rightarrow> 'o obj_status option" where
  "compose a Nop = Some a"
| "compose Nop b = Some b"
| "compose New (Upd y) = Some New"
| "compose New (Del y) = Some Nop"
| "compose (Upd x) (Upd y) = Some (Upd x)"
| "compose (Upd x) (Del y) = Some (Del x)"
| "compose _ _ = None"

definition wf_state :: "'o undo_state \<Rightarrow> bool" where
  "wf_state st \<longleftrightarrow>
     distinct (map fst (old_values st)) \<and> distinct (map fst (removed st)) \<and> distinct (new_ids st) \<and>
     distinct (map fst (old_index_next_ids st)) \<and>
     set (new_ids st) \<inter> fst ` set (old_values st) = {} \<and>
     set (new_ids st) \<inter> fst ` set (removed st) = {} \<and>
     fst ` set (old_values st) \<inter> fst ` set (removed st) = {}"

lemma wf_empty_state [simp]: "wf_state empty_undo_state"
  by (simp add: wf_state_def empty_undo_state_def)

lemma status_empty [simp]: "status empty_undo_state oid = Nop"
  by (simp add: status_def empty_undo_state_def)

lemma status_New: "status st oid = New \<longleftrightarrow> oid \<in> set (new_ids st)"
  by (auto simp: status_def split: option.splits)

lemma wf_state_disjoint:
  assumes "wf_state st"
  shows "oid \<in> set (new_ids st) \<Longrightarrow> map_of (old_values st) oid = None"
    "oid \<in> set (new_ids st) \<Longrightarrow> map_of (removed st) oid = None"
    "map_of (old_values st) oid = Some v \<Longrightarrow> map_of (removed st) oid = None"
proof -
  show "oid \<in> set (new_ids st) \<Longrightarrow> map_of (old_values st) oid = None"
    "oid \<in> set (new_ids st) \<Longrightarrow> map_of (removed st) oid = None"
    using assms by (auto simp: wf_state_def map_of_eq_None_iff)
  assume "map_of (old_values st) oid = Some v"
  then have "oid \<in> fst ` set (old_values st)" by (metis map_of_eq_None_iff option.simps(3))
  with assms show "map_of (removed st) oid = None"
    by (auto simp: wf_state_def map_of_eq_None_iff)
qed

lemma status_Upd:
  "wf_state st \<Longrightarrow> status st oid = Upd v \<longleftrightarrow> map_of (old_values st) oid = Some v"
  by (auto simp: status_def wf_state_disjoint split: option.splits)

lemma status_Del:
  "wf_state st \<Longrightarrow> status st oid = Del v \<longleftrightarrow> map_of (removed st) oid = Some v"
  by (auto simp: status_def wf_state_disjoint split: option.splits)

lemma old_of_status:
  "wf_state st \<Longrightarrow> map_of (old_values st) oid = (case status st oid of Upd v \<Rightarrow> Some v | _ \<Rightarrow> None)"
  by (simp add: status_def wf_state_disjoint split: option.split)

lemma removed_of_status:
  "wf_state st \<Longrightarrow> map_of (removed st) oid = (case status st oid of Del v \<Rightarrow> Some v | _ \<Rightarrow> None)"
  by (simp add: status_def wf_state_disjoint split: option.split)

lemma dom_AList_update: "fst ` set (AList.update k v al) = insert k (fst ` set al)"
  by (simp add: dom_update)

lemma dom_AList_delete: "fst ` set (AList.delete k al) = fst ` set al - {k}"
  by (auto simp: AList.delete_eq image_iff)

lemmas alist_simps = update_conv' delete_conv' distinct_update distinct_delete
  dom_AList_update dom_AList_delete

section \<open>Recording one change\<close>

lemma note_create_status:
  assumes "wf_state st" and "status st oid = Nop"
  shows "wf_state (note_create oid st)" "status (note_create oid st) = (status st)(oid := New)"
proof -
  from assms have n: "oid \<notin> set (new_ids st)" "map_of (old_values st) oid = None"
    "map_of (removed st) oid = None"
    by (auto simp: status_def split: if_splits option.splits)
  with assms(1) show "wf_state (note_create oid st)"
    by (auto simp: wf_state_def note_create_def Let_def alist_simps map_of_eq_None_iff)
  from n show "status (note_create oid st) = (status st)(oid := New)"
    by (intro ext) (simp add: status_def note_create_def Let_def split: option.split)
qed

lemma status_cases_fields:
  assumes "wf_state st"
  shows "status st oid = Nop \<longleftrightarrow>
      oid \<notin> set (new_ids st) \<and> map_of (old_values st) oid = None \<and> map_of (removed st) oid = None"
    "status st oid = New \<Longrightarrow> map_of (old_values st) oid = None \<and> map_of (removed st) oid = None"
    "status st oid = Upd x \<Longrightarrow> oid \<notin> set (new_ids st) \<and> map_of (removed st) oid = None"
  using assms
  by (auto simp: status_def wf_state_disjoint split: option.splits if_splits)

lemma note_modify_status:
  assumes "wf_state st" and "\<nexists>w. status st oid = Del w"
  shows "wf_state (note_modify oid v st) \<and>
    status (note_modify oid v st) = (status st)(oid := (case status st oid of Nop \<Rightarrow> Upd v | s \<Rightarrow> s))"
proof (cases "status st oid")
  case Nop
  with assms(1) have f: "oid \<notin> set (new_ids st)" "map_of (old_values st) oid = None"
    "map_of (removed st) oid = None" by (simp_all add: status_cases_fields)
  then have "note_modify oid v st = st\<lparr>old_values := AList.update oid v (old_values st)\<rparr>"
    by (simp add: note_modify_def)
  moreover have "status (st\<lparr>old_values := AList.update oid v (old_values st)\<rparr>) = (status st)(oid := Upd v)"
    using f by (intro ext) (simp add: status_def update_conv' split: option.split)
  moreover have "wf_state (st\<lparr>old_values := AList.update oid v (old_values st)\<rparr>)"
    using assms(1) f by (simp add: wf_state_def alist_simps map_of_eq_None_iff)
  ultimately show ?thesis using Nop by simp
next
  case New
  then have "note_modify oid v st = st" by (simp add: note_modify_def status_New)
  with New assms(1) show ?thesis by (simp add: fun_upd_idem)
next
  case (Upd x)
  then have "note_modify oid v st = st" using assms(1) by (simp add: note_modify_def status_Upd)
  with Upd assms(1) show ?thesis by (simp add: fun_upd_idem)
next
  case (Del x)
  with assms(2) show ?thesis by simp
qed

lemma note_remove_status:
  assumes "wf_state st" and "\<nexists>w. status st oid = Del w"
  shows "wf_state (note_remove oid v st) \<and>
    status (note_remove oid v st) =
      (status st)(oid := (case status st oid of New \<Rightarrow> Nop | Upd x \<Rightarrow> Del x | _ \<Rightarrow> Del v))"
proof (cases "status st oid")
  case Nop
  with assms(1) have f: "oid \<notin> set (new_ids st)" "map_of (old_values st) oid = None"
    "map_of (removed st) oid = None" by (simp_all add: status_cases_fields)
  then have "note_remove oid v st = st\<lparr>removed := AList.update oid v (removed st)\<rparr>"
    by (simp add: note_remove_def)
  moreover have "status (st\<lparr>removed := AList.update oid v (removed st)\<rparr>) = (status st)(oid := Del v)"
    using f by (intro ext) (simp add: status_def update_conv' split: option.split)
  moreover have "wf_state (st\<lparr>removed := AList.update oid v (removed st)\<rparr>)"
    using assms(1) f by (simp add: wf_state_def alist_simps map_of_eq_None_iff)
  ultimately show ?thesis using Nop by simp
next
  case New
  with assms(1) have f: "oid \<in> set (new_ids st)" "map_of (old_values st) oid = None"
    "map_of (removed st) oid = None" by (simp_all add: status_New status_cases_fields)
  then have "note_remove oid v st = st\<lparr>new_ids := removeAll oid (new_ids st)\<rparr>"
    by (simp add: note_remove_def)
  moreover have "status (st\<lparr>new_ids := removeAll oid (new_ids st)\<rparr>) = (status st)(oid := Nop)"
    using f by (intro ext) (simp add: status_def split: option.split)
  moreover have "wf_state (st\<lparr>new_ids := removeAll oid (new_ids st)\<rparr>)"
    using assms(1) by (auto simp: wf_state_def distinct_removeAll)
  ultimately show ?thesis using New by simp
next
  case (Upd x)
  with assms(1) have f: "oid \<notin> set (new_ids st)" "map_of (old_values st) oid = Some x"
    "map_of (removed st) oid = None" by (simp_all add: status_Upd status_cases_fields)
  let ?st = "st\<lparr>removed := AList.update oid x (removed st), old_values := AList.delete oid (old_values st)\<rparr>"
  from f have "note_remove oid v st = ?st" by (simp add: note_remove_def)
  moreover have "status ?st = (status st)(oid := Del x)"
    using f by (intro ext) (simp add: status_def update_conv' delete_conv' split: option.split)
  moreover have "wf_state ?st"
    using assms(1) f by (auto simp: wf_state_def alist_simps map_of_eq_None_iff)
  ultimately show ?thesis using Upd by simp
next
  case (Del x)
  with assms(2) show ?thesis by simp
qed

section \<open>Merging two states\<close>

lemma fold_status:
  assumes step: "\<And>k v st. wf_state st \<Longrightarrow> C (status st k) \<Longrightarrow>
      wf_state (f (k, v) st) \<and> status (f (k, v) st) = (status st)(k := g v (status st k))"
  shows "distinct (map fst l) \<Longrightarrow> wf_state st \<Longrightarrow> \<forall>k \<in> fst ` set l. C (status st k) \<Longrightarrow>
    wf_state (fold f l st) \<and>
    (\<forall>oid. status (fold f l st) oid =
       (case map_of l oid of None \<Rightarrow> status st oid | Some v \<Rightarrow> g v (status st oid)))"
proof (induction l arbitrary: st)
  case Nil
  then show ?case by simp
next
  case (Cons p l)
  obtain k v where p: "p = (k, v)" by fastforce
  from Cons.prems have w: "wf_state (f p st)"
    and s: "status (f p st) = (status st)(k := g v (status st k))"
    using step [of st k v] by (auto simp: p)
  have "\<forall>k' \<in> fst ` set l. C (status (f p st) k')"
    using Cons.prems s by (auto simp: p image_iff)
  with Cons.IH [OF _ w] Cons.prems(1)
  have "wf_state (fold f l (f p st))" and
    "\<forall>oid. status (fold f l (f p st)) oid =
       (case map_of l oid of None \<Rightarrow> status (f p st) oid | Some v \<Rightarrow> g v (status (f p st) oid))"
    by simp_all
  moreover have "map_of l k = None"
    using Cons.prems(1) by (auto simp: p map_of_eq_None_iff)
  ultimately show ?case using s unfolding p by (simp split: option.split)
qed

lemma merge_old_value_note: "merge_old_value p = note_modify (fst p) (snd p)"
  by (simp add: fun_eq_iff merge_old_value_def note_modify_def)

lemma merge_removed_note:
  "\<nexists>w. status prev (fst p) = Del w \<Longrightarrow> wf_state prev \<Longrightarrow>
   merge_removed p prev = note_remove (fst p) (snd p) prev"
  by (auto simp: merge_removed_def note_remove_def status_def split: option.splits)

lemma fold_merge_old_value:
  assumes "distinct (map fst l)" "wf_state st" "\<And>k. k \<in> fst ` set l \<Longrightarrow> \<nexists>w. status st k = Del w"
  shows "wf_state (fold merge_old_value l st)"
    "status (fold merge_old_value l st) oid = (case map_of l oid of
       None \<Rightarrow> status st oid
     | Some v \<Rightarrow> (case status st oid of Nop \<Rightarrow> Upd v | s \<Rightarrow> s))"
  using fold_status [where C = "\<lambda>s. \<nexists>w. s = Del w" and f = merge_old_value
      and g = "\<lambda>v s. case s of Nop \<Rightarrow> Upd v | s \<Rightarrow> s", OF _ assms(1,2)] assms(3)
  by (simp_all add: merge_old_value_note note_modify_status)

lemma fold_merge_removed:
  assumes "distinct (map fst l)" "wf_state st" "\<And>k. k \<in> fst ` set l \<Longrightarrow> \<nexists>w. status st k = Del w"
  shows "wf_state (fold merge_removed l st)"
    "status (fold merge_removed l st) oid = (case map_of l oid of
       None \<Rightarrow> status st oid
     | Some v \<Rightarrow> (case status st oid of New \<Rightarrow> Nop | Upd x \<Rightarrow> Del x | _ \<Rightarrow> Del v))"
  using fold_status [where C = "\<lambda>s. \<nexists>w. s = Del w" and f = merge_removed
      and g = "\<lambda>v s. case s of New \<Rightarrow> Nop | Upd x \<Rightarrow> Del x | _ \<Rightarrow> Del v", OF _ assms(1,2)] assms(3)
  by (simp_all add: merge_removed_note note_remove_status)

lemma next_ids_note [simp]:
  "old_index_next_ids (note_modify oid v st) = old_index_next_ids st"
  "old_index_next_ids (note_remove oid v st) = old_index_next_ids st"
  "old_index_next_ids (merge_removed p st) = old_index_next_ids st"
  by (auto simp: note_modify_def note_remove_def merge_removed_def split: option.splits)

lemma next_ids_fold [simp]:
  "old_index_next_ids (fold merge_old_value l st) = old_index_next_ids st"
  "old_index_next_ids (fold merge_removed r st) = old_index_next_ids st"
  by (induction l arbitrary: st) (simp_all add: merge_old_value_note,
      induction r arbitrary: st, simp_all)

lemma set_fold_insert [simp]: "set (fold List.insert xs ys) = set xs \<union> set ys"
  by (induction xs arbitrary: ys) auto

lemma distinct_fold_insert [simp]: "distinct ys \<Longrightarrow> distinct (fold List.insert xs ys)"
  by (induction xs arbitrary: ys) auto

lemma add_new_status:
  assumes "wf_state p" and "\<forall>oid \<in> set ids. status p oid = Nop"
  shows "wf_state (p\<lparr>new_ids := fold List.insert ids (new_ids p)\<rparr>)"
    "status (p\<lparr>new_ids := fold List.insert ids (new_ids p)\<rparr>) =
       (\<lambda>oid. if oid \<in> set ids then New else status p oid)"
proof -
  have "set ids \<inter> fst ` set (old_values p) = {}" "set ids \<inter> fst ` set (removed p) = {}"
    using assms by (fastforce simp: status_cases_fields map_of_eq_None_iff)+
  with assms(1) show "wf_state (p\<lparr>new_ids := fold List.insert ids (new_ids p)\<rparr>)"
    by (auto simp: wf_state_def)
  show "status (p\<lparr>new_ids := fold List.insert ids (new_ids p)\<rparr>) =
       (\<lambda>oid. if oid \<in> set ids then New else status p oid)"
    by (intro ext) (simp add: status_def split: option.split)
qed

lemma fold_merge_next_id:
  "distinct (map fst (old_index_next_ids p)) \<Longrightarrow>
   old_values (fold merge_next_id l p) = old_values p \<and>
   removed (fold merge_next_id l p) = removed p \<and> new_ids (fold merge_next_id l p) = new_ids p \<and>
   distinct (map fst (old_index_next_ids (fold merge_next_id l p))) \<and>
   map_of (old_index_next_ids (fold merge_next_id l p)) = map_of l ++ map_of (old_index_next_ids p)"
proof (induction l arbitrary: p)
  case Nil
  then show ?case by simp
next
  case (Cons x l)
  have "distinct (map fst (old_index_next_ids (merge_next_id x p)))"
    using Cons.prems by (simp add: merge_next_id_def distinct_update)
  from Cons.IH [OF this] show ?case
    by (cases x) (auto simp: merge_next_id_def update_conv' fun_eq_iff map_add_def split: option.splits)
qed

section \<open>Object databases as functions\<close>

type_synonym 'o indexes = "index_key \<Rightarrow> 'o index option"

definition look :: "'o indexes \<Rightarrow> object_id \<Rightarrow> 'o option" where
  "look ixs oid = (case ixs (key_of oid) of None \<Rightarrow> None | Some ix \<Rightarrow> idx_find ix (inst_of oid))"

definition nxt :: "'o indexes \<Rightarrow> index_key \<Rightarrow> nat option" where
  "nxt ixs k = map_option next_id (ixs k)"

definition wf_indexes :: "'o indexes \<Rightarrow> bool" where
  "wf_indexes ixs \<longleftrightarrow> (\<forall>k ix. ixs k = Some ix \<longrightarrow> wf_index ix)"

lemma look_less:
  "wf_indexes ixs \<Longrightarrow> look ixs oid = Some v \<Longrightarrow> \<exists>n. nxt ixs (key_of oid) = Some n \<and> inst_of oid < n"
  by (auto simp: look_def nxt_def wf_indexes_def split: option.splits dest: wf_index_find_less)

text \<open>Databases with the same lookups and the same next ids are equal.\<close>

lemma indexes_eqI:
  assumes "wf_indexes a" "wf_indexes b" "look a = look b" "nxt a = nxt b"
  shows "a = b"
proof (rule ext)
  fix k
  have n: "map_option next_id (a k) = map_option next_id (b k)"
    using assms(4) by (metis nxt_def)
  show "a k = b k"
  proof (cases "a k")
    case None
    with n show ?thesis by (cases "b k") auto
  next
    case (Some x)
    with n obtain y where y: "b k = Some y" "next_id x = next_id y" by (cases "b k") auto
    have "idx_find x i = idx_find y i" for i
      using fun_cong [OF assms(3), of "(fst k, snd k, i)"] Some y by (simp add: look_def)
    with assms(1,2) Some y have "x = y"
      by (intro wf_index_eqI) (auto simp: wf_indexes_def)
    with Some y show ?thesis by simp
  qed
qed

section \<open>An undo state leads back to its snapshot\<close>

fun status_rel :: "'o obj_status \<Rightarrow> 'o option \<Rightarrow> 'o option \<Rightarrow> bool" where
  "status_rel New a b \<longleftrightarrow> a = None \<and> b \<noteq> None"
| "status_rel (Upd v) a b \<longleftrightarrow> a = Some v \<and> b \<noteq> None"
| "status_rel (Del v) a b \<longleftrightarrow> a = Some v \<and> b = None"
| "status_rel Nop a b \<longleftrightarrow> a = b"

definition next_rel :: "'o undo_state \<Rightarrow> 'o indexes \<Rightarrow> 'o indexes \<Rightarrow> bool" where
  "next_rel st base cur \<longleftrightarrow>
     (\<forall>k. nxt base k =
        (case map_of (old_index_next_ids st) (fst k, snd k, 0) of
           Some nid \<Rightarrow> Some (inst_of nid) | None \<Rightarrow> nxt cur k)) \<and>
     (\<forall>k. nxt base k = None \<longleftrightarrow> nxt cur k = None) \<and>
     (\<forall>k m n. nxt base k = Some m \<longrightarrow> nxt cur k = Some n \<longrightarrow> m \<le> n) \<and>
     (\<forall>oid \<in> fst ` set (old_index_next_ids st). inst_of oid = 0)"

definition undo_inv :: "'o undo_state \<Rightarrow> 'o indexes \<Rightarrow> 'o indexes \<Rightarrow> bool" where
  "undo_inv st base cur \<longleftrightarrow>
     wf_state st \<and> wf_indexes base \<and> wf_indexes cur \<and> next_rel st base cur \<and>
     (\<forall>oid. status_rel (status st oid) (look base oid) (look cur oid)) \<and>
     (\<forall>oid n. status st oid = New \<longrightarrow> nxt base (key_of oid) = Some n \<longrightarrow> n \<le> inst_of oid)"

lemma undo_inv_refl: "wf_indexes ixs \<Longrightarrow> undo_inv empty_undo_state ixs ixs"
  by (simp add: undo_inv_def next_rel_def) (simp add: empty_undo_state_def)

lemma next_relD:
  assumes "next_rel st base cur"
  shows "nxt base k =
        (case map_of (old_index_next_ids st) (fst k, snd k, 0) of
           Some nid \<Rightarrow> Some (inst_of nid) | None \<Rightarrow> nxt cur k)"
    "nxt base k = None \<longleftrightarrow> nxt cur k = None"
    "nxt base k = Some m \<Longrightarrow> nxt cur k = Some n \<Longrightarrow> m \<le> n"
    "oid \<in> fst ` set (old_index_next_ids st) \<Longrightarrow> inst_of oid = 0"
proof -
  note c = assms [unfolded next_rel_def]
  show "nxt base k =
        (case map_of (old_index_next_ids st) (fst k, snd k, 0) of
           Some nid \<Rightarrow> Some (inst_of nid) | None \<Rightarrow> nxt cur k)"
    by (rule spec [OF c [THEN conjunct1]])
  show "nxt base k = None \<longleftrightarrow> nxt cur k = None"
    by (rule spec [OF c [THEN conjunct2, THEN conjunct1]])
  show "nxt base k = Some m \<Longrightarrow> nxt cur k = Some n \<Longrightarrow> m \<le> n"
    using c [THEN conjunct2, THEN conjunct2, THEN conjunct1] by blast
  show "oid \<in> fst ` set (old_index_next_ids st) \<Longrightarrow> inst_of oid = 0"
    by (rule bspec [OF c [THEN conjunct2, THEN conjunct2, THEN conjunct2]])
qed

lemma next_relI:
  assumes "\<And>k. nxt base k =
        (case map_of (old_index_next_ids st) (fst k, snd k, 0) of
           Some nid \<Rightarrow> Some (inst_of nid) | None \<Rightarrow> nxt cur k)"
    and "\<And>k. nxt base k = None \<longleftrightarrow> nxt cur k = None"
    and "\<And>k m n. nxt base k = Some m \<Longrightarrow> nxt cur k = Some n \<Longrightarrow> m \<le> n"
    and "\<And>oid. oid \<in> fst ` set (old_index_next_ids st) \<Longrightarrow> inst_of oid = 0"
  shows "next_rel st base cur"
  unfolding next_rel_def by (intro conjI allI ballI impI) (rule assms; assumption)+

lemma next_rel_ge:
  assumes "next_rel st base cur" and "nxt base k = Some m"
  shows "\<exists>n. nxt cur k = Some n \<and> m \<le> n"
  using next_relD(2,3) [OF assms(1), of k] assms(2) by (metis not_None_eq)

lemma next_rel_cong:
  "old_index_next_ids st' = old_index_next_ids st \<Longrightarrow> nxt cur' = nxt cur \<Longrightarrow>
   next_rel st' base cur' = next_rel st base cur"
  by (simp only: next_rel_def)

lemma undo_invI:
  assumes "wf_state st" "wf_indexes base" "wf_indexes cur" "next_rel st base cur"
    and "\<And>oid. status_rel (status st oid) (look base oid) (look cur oid)"
    and "\<And>oid n. status st oid = New \<Longrightarrow> nxt base (key_of oid) = Some n \<Longrightarrow> n \<le> inst_of oid"
  shows "undo_inv st base cur"
  using assms by (simp add: undo_inv_def)

lemma undo_invD:
  assumes "undo_inv st base cur"
  shows "wf_state st" "wf_indexes base" "wf_indexes cur" "next_rel st base cur"
    "status st oid = New \<Longrightarrow> nxt base (key_of oid) = Some n \<Longrightarrow> n \<le> inst_of oid"
  using assms by (simp_all add: undo_inv_def)

lemma undo_inv_look: "undo_inv st base cur \<Longrightarrow> status_rel (status st oid) (look base oid) (look cur oid)"
  by (simp add: undo_inv_def)

text \<open>One recorded change keeps the relation.\<close>

lemma undo_inv_modify:
  assumes inv: "undo_inv st base cur" and "look cur oid = Some v"
    and cur': "wf_indexes cur'" "look cur' = (look cur)(oid \<mapsto> w)" "nxt cur' = nxt cur"
  shows "undo_inv (note_modify oid v st) base cur'"
proof -
  have nd: "\<nexists>x. status st oid = Del x"
    using undo_inv_look [OF inv, of oid] assms(2) by auto
  note s = note_modify_status [OF undo_invD(1) [OF inv] nd, of v]
  have new: "status (note_modify oid v st) x = New \<Longrightarrow> status st x = New" for x
    using s by (cases "status st oid"; cases "x = oid") auto
  show ?thesis
  proof (rule undo_invI)
    show "next_rel (note_modify oid v st) base cur'"
      using undo_invD(4) [OF inv] cur'(3) by (simp cong: next_rel_cong)
    fix x
    show "status_rel (status (note_modify oid v st) x) (look base x) (look cur' x)"
      using undo_inv_look [OF inv, of x] s cur'(2) assms(2) by (cases "status st oid") auto
    fix n
    assume "status (note_modify oid v st) x = New" "nxt base (key_of x) = Some n"
    then show "n \<le> inst_of x" using new undo_invD(5) [OF inv] by blast
  qed (use s cur' undo_invD [OF inv] in auto)
qed

lemma undo_inv_remove:
  assumes inv: "undo_inv st base cur" and "look cur oid = Some v"
    and cur': "wf_indexes cur'" "look cur' = (look cur)(oid := None)" "nxt cur' = nxt cur"
  shows "undo_inv (note_remove oid v st) base cur'"
proof -
  have nd: "\<nexists>x. status st oid = Del x"
    using undo_inv_look [OF inv, of oid] assms(2) by auto
  note s = note_remove_status [OF undo_invD(1) [OF inv] nd, of v]
  have new: "status (note_remove oid v st) x = New \<Longrightarrow> status st x = New" for x
    using s by (cases "status st oid"; cases "x = oid") auto
  show ?thesis
  proof (rule undo_invI)
    show "next_rel (note_remove oid v st) base cur'"
      using undo_invD(4) [OF inv] cur'(3) by (simp cong: next_rel_cong)
    fix x
    show "status_rel (status (note_remove oid v st) x) (look base x) (look cur' x)"
      using undo_inv_look [OF inv, of x] s cur'(2) assms(2) by (cases "status st oid") auto
    fix n
    assume "status (note_remove oid v st) x = New" "nxt base (key_of x) = Some n"
    then show "n \<le> inst_of x" using new undo_invD(5) [OF inv] by blast
  qed (use s cur' undo_invD [OF inv] in auto)
qed

lemma next_rel_create:
  assumes nr: "next_rel st base cur" and i: "nxt cur k = Some i"
    and cur': "nxt cur' = (nxt cur)(k \<mapsto> Suc i)"
  shows "next_rel (note_create (fst k, snd k, i) st) base cur'"
proof -
  let ?key = "(fst k, snd k, 0) :: object_id"
  let ?l = "old_index_next_ids st" and ?l' = "old_index_next_ids (note_create (fst k, snd k, i) st)"
  have l': "map_of ?l' = (if map_of ?l ?key = None then (map_of ?l)(?key \<mapsto> (fst k, snd k, i)) else map_of ?l)"
    by (simp add: note_create_def Let_def update_conv')
  have key: "(fst k', snd k', 0) = ?key \<longleftrightarrow> k' = k" for k'
    by (auto simp: prod_eq_iff)
  from next_relD(2,3) [OF nr, of k] i obtain m where m: "nxt base k = Some m" "m \<le> i"
    by (metis not_None_eq)
  show ?thesis
  proof (rule next_relI)
    fix k'
    show "nxt base k' = (case map_of ?l' (fst k', snd k', 0) of
           Some nid \<Rightarrow> Some (inst_of nid) | None \<Rightarrow> nxt cur' k')"
      using next_relD(1) [OF nr, of k'] i cur' l'
      by (cases "k' = k") (auto simp: key split: option.splits dest: prod_eqI)
    show "nxt base k' = None \<longleftrightarrow> nxt cur' k' = None"
      using next_relD(2) [OF nr, of k'] i cur' by (cases "k' = k") auto
    fix m' n
    assume "nxt base k' = Some m'" "nxt cur' k' = Some n"
    then show "m' \<le> n"
      using next_relD(3) [OF nr, of k'] m cur' by (cases "k' = k") auto
  next
    fix oid
    assume "oid \<in> fst ` set ?l'"
    then have "oid = ?key \<or> oid \<in> fst ` set ?l"
      by (simp add: note_create_def Let_def dom_AList_update split: if_splits)
    then show "inst_of oid = 0" using next_relD(4) [OF nr, of oid] by fastforce
  qed
qed

lemma undo_inv_create:
  assumes inv: "undo_inv st base cur" and i: "nxt cur k = Some i" and "oid = (fst k, snd k, i)"
    and cur': "wf_indexes cur'" "look cur' = (look cur)(oid \<mapsto> w)" "nxt cur' = (nxt cur)(k \<mapsto> Suc i)"
  shows "undo_inv (note_create oid st) base cur'"
proof -
  have k: "key_of oid = k" "inst_of oid = i" using assms(3) by simp_all
  have wf: "wf_state st" "wf_indexes base" "wf_indexes cur" and nr: "next_rel st base cur"
    using inv by (simp_all add: undo_inv_def)
  have "look cur oid = None" using look_less [OF wf(3), of oid] i k by (cases "look cur oid") auto
  moreover from nr i obtain m where m: "nxt base k = Some m" "m \<le> i"
    unfolding next_rel_def by (metis not_None_eq)
  have "look base oid = None" using look_less [OF wf(2), of oid] m k by (cases "look base oid") auto
  ultimately have nop: "status st oid = Nop"
    using undo_inv_look [OF inv, of oid] by (cases "status st oid") auto
  note s = note_create_status [OF wf(1) nop]
  show ?thesis
  proof (rule undo_invI)
    show "next_rel (note_create oid st) base cur'"
      using next_rel_create [OF nr i cur'(3)] assms(3) by simp
    fix x
    show "status_rel (status (note_create oid st) x) (look base x) (look cur' x)"
      using undo_inv_look [OF inv, of x] s cur'(2) \<open>look base oid = None\<close> by auto
    fix n
    assume "status (note_create oid st) x = New" "nxt base (key_of x) = Some n"
    then show "n \<le> inst_of x"
      using s m k undo_invD(5) [OF inv, of x n] by (cases "x = oid") auto
  qed (use s cur' wf in auto)
qed

section \<open>Merging composes\<close>

lemma next_rel_merge:
  assumes A: "next_rel A base mid" and B: "next_rel B mid cur" and "wf_state A"
    and M: "map_of (old_index_next_ids M) = map_of (old_index_next_ids B) ++ map_of (old_index_next_ids A)"
  shows "next_rel M base cur"
proof -
  have d: "fst ` set (old_index_next_ids M) \<subseteq>
      fst ` set (old_index_next_ids A) \<union> fst ` set (old_index_next_ids B)"
    using arg_cong [OF M, of dom] by (simp add: dom_map_of_conv_image_fst)
  show ?thesis
  proof (rule next_relI)
    fix k
    show "nxt base k = (case map_of (old_index_next_ids M) (fst k, snd k, 0) of
        Some nid \<Rightarrow> Some (inst_of nid) | None \<Rightarrow> nxt cur k)"
      using next_relD(1) [OF A, of k] next_relD(1) [OF B, of k] M
      by (simp add: map_add_def split: option.splits)
    show "nxt base k = None \<longleftrightarrow> nxt cur k = None"
      using next_relD(2) [OF A, of k] next_relD(2) [OF B, of k] by simp
    fix m n
    assume "nxt base k = Some m" "nxt cur k = Some n"
    then show "m \<le> n" using next_rel_ge [OF A, of k m] next_rel_ge [OF B, of k] by fastforce
  next
    fix oid
    assume "oid \<in> fst ` set (old_index_next_ids M)"
    with d have "oid \<in> fst ` set (old_index_next_ids A) \<or> oid \<in> fst ` set (old_index_next_ids B)"
      by (rule in_mono [THEN mp, THEN UnE]) simp_all
    then show "inst_of oid = 0"
      by (elim disjE) (erule next_relD(4) [OF A], erule next_relD(4) [OF B])
  qed
qed

text \<open>The status of an object after the merge is the entry of the matrix in the source.\<close>

lemma merge_states_status:
  assumes wf: "wf_state A" "wf_state B"
    and ok: "\<And>oid. compose (status A oid) (status B oid) \<noteq> None"
  shows "wf_state (merge_states A B) \<and>
    (\<forall>oid. compose (status A oid) (status B oid) = Some (status (merge_states A B) oid)) \<and>
    map_of (old_index_next_ids (merge_states A B)) =
      map_of (old_index_next_ids B) ++ map_of (old_index_next_ids A)"
proof -
  define p1 where "p1 = fold merge_old_value (old_values B) A"
  define p2 where "p2 = p1\<lparr>new_ids := fold List.insert (new_ids B) (new_ids p1)\<rparr>"
  define p3 where "p3 = fold merge_next_id (old_index_next_ids B) p2"
  have M: "merge_states A B = fold merge_removed (removed B) p3"
    by (simp add: merge_states_def Let_def p1_def p2_def p3_def)
  have bU: "status B oid = Upd v \<longleftrightarrow> map_of (old_values B) oid = Some v" for oid v
    using wf(2) by (rule status_Upd)
  have bD: "status B oid = Del v \<longleftrightarrow> map_of (removed B) oid = Some v" for oid v
    using wf(2) by (rule status_Del)
  have dB: "distinct (map fst (old_values B))" "distinct (map fst (removed B))"
    using wf(2) by (simp_all add: wf_state_def)
  have "\<nexists>w. status A k = Del w" if "k \<in> fst ` set (old_values B)" for k
  proof -
    from that obtain v where "status B k = Upd v" using bU by (metis map_of_eq_None_iff not_None_eq)
    with ok [of k] show ?thesis by auto
  qed
  note p1 = fold_merge_old_value [OF dB(1) wf(1) this, folded p1_def]
  have "\<forall>oid \<in> set (new_ids B). status p1 oid = Nop"
  proof
    fix oid assume n: "oid \<in> set (new_ids B)"
    then have "status B oid = New" by (simp add: status_New)
    with ok [of oid] have "status A oid = Nop" by (cases "status A oid") auto
    with p1(2) [of oid] wf_state_disjoint(1) [OF wf(2) n] show "status p1 oid = Nop" by simp
  qed
  from add_new_status [OF p1(1) this]
  have p2: "wf_state p2" "status p2 oid = (if status B oid = New then New else status p1 oid)" for oid
    by (simp_all add: p2_def status_New)
  have "distinct (map fst (old_index_next_ids p2))" using p2(1) by (simp add: wf_state_def)
  note n3 = fold_merge_next_id [OF this, of "old_index_next_ids B", folded p3_def]
  have p3: "wf_state p3" "status p3 = status p2"
    using p2(1) n3 by (simp_all only: wf_state_def status_def [abs_def])
  have "\<nexists>w. status p3 k = Del w" if "k \<in> fst ` set (removed B)" for k
  proof -
    from that obtain v where v: "status B k = Del v" using bD by (metis map_of_eq_None_iff not_None_eq)
    then have "map_of (old_values B) k = None" using bU [of k] by (cases "map_of (old_values B) k") auto
    with ok [of k] v p1(2) [of k] p2(2) [of k] p3(2) show ?thesis by auto
  qed
  from fold_merge_removed [OF dB(2) p3(1) this]
  have p4: "wf_state (merge_states A B)"
    "status (merge_states A B) oid = (case map_of (removed B) oid of
       None \<Rightarrow> status p3 oid
     | Some v \<Rightarrow> (case status p3 oid of New \<Rightarrow> Nop | Upd x \<Rightarrow> Del x | _ \<Rightarrow> Del v))" for oid
    unfolding M by blast+
  note oldB = old_of_status [OF wf(2)] and remB = removed_of_status [OF wf(2)]
  have "compose (status A oid) (status B oid) = Some (status (merge_states A B) oid)" for oid
    using ok [of oid]
    by (cases "status A oid"; cases "status B oid") (simp_all add: p4(2) p3(2) p2(2) p1(2) oldB remB)
  moreover have "map_of (old_index_next_ids (merge_states A B)) =
      map_of (old_index_next_ids B) ++ map_of (old_index_next_ids A)"
    using n3 by (simp add: M p2_def p1_def)
  ultimately show ?thesis using p4(1) by blast
qed

lemma undo_inv_compose:
  assumes A: "undo_inv A base mid" and B: "undo_inv B mid cur"
  shows "compose (status A oid) (status B oid) \<noteq> None"
proof (cases "status B oid")
  case New
  have "look base oid = None"
  proof (rule ccontr)
    assume "look base oid \<noteq> None"
    then obtain n where n: "nxt base (key_of oid) = Some n" "inst_of oid < n"
      using look_less [OF undo_invD(2) [OF A], of oid] by auto
    from next_rel_ge [OF undo_invD(4) [OF A] n(1)]
    obtain m where m: "nxt mid (key_of oid) = Some m" "n \<le> m" by blast
    from undo_invD(5) [OF B New m(1)] n(2) m(2) show False by simp
  qed
  with undo_inv_look [OF A, of oid] undo_inv_look [OF B, of oid] New
  have "status A oid = Nop" by (cases "status A oid") auto
  with New show ?thesis by simp
next
  case Nop
  then show ?thesis by simp
next
  case (Upd v)
  with undo_inv_look [OF A, of oid] undo_inv_look [OF B, of oid]
  show ?thesis by (cases "status A oid") auto
next
  case (Del v)
  with undo_inv_look [OF A, of oid] undo_inv_look [OF B, of oid]
  show ?thesis by (cases "status A oid") auto
qed

lemma undo_inv_merge:
  assumes A: "undo_inv A base mid" and B: "undo_inv B mid cur"
  shows "undo_inv (merge_states A B) base cur"
proof -
  note ms = merge_states_status [OF undo_invD(1) [OF A] undo_invD(1) [OF B] undo_inv_compose [OF A B]]
  then have c: "compose (status A oid) (status B oid) = Some (status (merge_states A B) oid)" for oid
    by blast
  show ?thesis
  proof (rule undo_invI)
    show "next_rel (merge_states A B) base cur"
      using next_rel_merge [OF undo_invD(4) [OF A] undo_invD(4) [OF B] undo_invD(1) [OF A]] ms by blast
    fix x
    show "status_rel (status (merge_states A B) x) (look base x) (look cur x)"
      using c [of x, symmetric] undo_inv_look [OF A, of x] undo_inv_look [OF B, of x]
      by (cases "status A x"; cases "status B x") auto
    fix n
    assume new: "status (merge_states A B) x = New" and n: "nxt base (key_of x) = Some n"
    show "n \<le> inst_of x"
    proof (cases "status A x = New")
      case True
      then show ?thesis using undo_invD(5) [OF A] n by blast
    next
      case False
      with c [of x] new have b: "status B x = New" by (cases "status A x"; cases "status B x") auto
      from next_rel_ge [OF undo_invD(4) [OF A] n]
      obtain m where "nxt mid (key_of x) = Some m" "n \<le> m" by blast
      with undo_invD(5) [OF B b] show ?thesis by fastforce
    qed
  qed (use ms undo_invD [OF A] undo_invD [OF B] in auto)
qed

section \<open>The operations on the stored objects\<close>

lemma look_upd:
  "look (ixs(k \<mapsto> ix)) oid = (if key_of oid = k then idx_find ix (inst_of oid) else look ixs oid)"
  by (simp add: look_def)

lemma nxt_upd: "nxt (ixs(k \<mapsto> ix)) = (nxt ixs)(k \<mapsto> next_id ix)"
  by (simp add: nxt_def fun_eq_iff)

lemma look_upd_point:
  assumes "ixs (key_of oid) = Some ix" and "idx_find ix' = (idx_find ix)(inst_of oid := x)"
  shows "look (ixs(key_of oid \<mapsto> ix')) = (look ixs)(oid := x)"
proof (rule ext)
  fix y
  show "look (ixs(key_of oid \<mapsto> ix')) y = ((look ixs)(oid := x)) y"
  proof (cases "y = oid")
    case True
    with assms show ?thesis by (simp add: look_upd)
  next
    case False
    then have "key_of y = key_of oid \<Longrightarrow> inst_of y \<noteq> inst_of oid" by (auto simp: prod_eq_iff)
    with False assms show ?thesis by (auto simp: look_upd look_def)
  qed
qed

lemma wf_indexes_upd: "wf_indexes ixs \<Longrightarrow> wf_index ix \<Longrightarrow> wf_indexes (ixs(k \<mapsto> ix))"
  by (simp add: wf_indexes_def)

lemma on_change_fields [simp]:
  "indexes (on_create oid db) = indexes db" "indexes (on_modify oid v db) = indexes db"
  "indexes (on_remove oid v db) = indexes db"
  "disabled (on_create oid db) = disabled db" "disabled (on_modify oid v db) = disabled db"
  "disabled (on_remove oid v db) = disabled db"
  "active_sessions (on_create oid db) = active_sessions db"
  "active_sessions (on_modify oid v db) = active_sessions db"
  "active_sessions (on_remove oid v db) = active_sessions db"
  by (simp_all add: on_create_def on_modify_def on_remove_def set_back_def)

lemma on_change_disabled [simp]:
  "disabled db \<Longrightarrow> on_create oid db = db" "disabled db \<Longrightarrow> on_modify oid v db = db"
  "disabled db \<Longrightarrow> on_remove oid v db = db"
  by (simp_all add: on_create_def on_modify_def on_remove_def)

lemma od_create_Inr:
  assumes "od_create clash db k c = Inr (oid, db')" and wf: "wf_indexes (indexes db)"
  shows "\<exists>i ixs. nxt (indexes db) k = Some i \<and> oid = (fst k, snd k, i) \<and> wf_indexes ixs \<and>
    look ixs = (look (indexes db))(oid \<mapsto> c i) \<and> nxt ixs = (nxt (indexes db))(k \<mapsto> Suc i) \<and>
    db' = on_create oid (db\<lparr>indexes := ixs\<rparr>)"
proof -
  from assms obtain ix i ix' where ix: "indexes db k = Some ix"
    and cr: "idx_create (clash k) ix c = Inr (i, ix')" and oid: "oid = (fst k, snd k, i)"
    and db': "db' = on_create oid (set_index k ix' db)"
    by (auto simp: od_create_def get_index_def res_simps Let_def split: prod.splits)
  have wix: "wf_index ix" using wf ix by (simp add: wf_indexes_def)
  note c = idx_create_Inr [OF cr wix]
  have "look ((indexes db)(k \<mapsto> ix')) = (look (indexes db))(oid \<mapsto> c i)"
    using look_upd_point [of "indexes db" oid ix ix' "Some (c i)"] ix c oid by simp
  moreover have "nxt (indexes db) k = Some i" using ix c by (simp add: nxt_def)
  ultimately show ?thesis
    using oid db' c wf
    by (intro exI [of _ i] exI [of _ "(indexes db)(k \<mapsto> ix')"])
      (simp add: nxt_upd wf_indexes_upd set_index_def)
qed

lemma od_modify_Inr:
  assumes "od_modify clash db oid m = Inr db'" and wf: "wf_indexes (indexes db)"
  shows "\<exists>v ixs. look (indexes db) oid = Some v \<and> wf_indexes ixs \<and>
    look ixs = (look (indexes db))(oid \<mapsto> m v) \<and> nxt ixs = nxt (indexes db) \<and>
    db' = (on_modify oid v db)\<lparr>indexes := ixs\<rparr>"
proof -
  from assms obtain ix v ix' where ix: "indexes db (key_of oid) = Some ix"
    and v: "idx_find ix (inst_of oid) = Some v"
    and md: "idx_modify (clash (key_of oid)) ix (inst_of oid) m = Inr ix'"
    and db': "db' = set_index (key_of oid) ix' (on_modify oid v db)"
    by (auto simp: od_modify_def get_index_def res_simps Let_def)
  note c = idx_modify_Inr [OF md]
  have "look ((indexes db)(key_of oid \<mapsto> ix')) = (look (indexes db))(oid \<mapsto> m v)"
    using look_upd_point [of "indexes db" oid ix ix' "Some (m v)"] ix c(3) v by auto
  moreover have "nxt ((indexes db)(key_of oid \<mapsto> ix')) = nxt (indexes db)"
    using ix c(1) by (auto simp: nxt_upd nxt_def)
  ultimately show ?thesis
    using ix v db' c(2) wf
    by (intro exI [of _ v] exI [of _ "(indexes db)(key_of oid \<mapsto> ix')"])
      (auto simp: look_def wf_indexes_def set_index_def)
qed

lemma od_remove_Inr:
  assumes "od_remove db oid = Inr db'" and wf: "wf_indexes (indexes db)"
  shows "\<exists>v ixs. look (indexes db) oid = Some v \<and> wf_indexes ixs \<and>
    look ixs = (look (indexes db))(oid := None) \<and> nxt ixs = nxt (indexes db) \<and>
    db' = (on_remove oid v db)\<lparr>indexes := ixs\<rparr>"
proof -
  from assms obtain ix v ix' where ix: "indexes db (key_of oid) = Some ix"
    and v: "idx_find ix (inst_of oid) = Some v"
    and rm: "idx_remove ix (inst_of oid) = Inr ix'"
    and db': "db' = set_index (key_of oid) ix' (on_remove oid v db)"
    by (auto simp: od_remove_def get_index_def res_simps Let_def)
  note c = idx_remove_Inr [OF rm]
  have "look ((indexes db)(key_of oid \<mapsto> ix')) = (look (indexes db))(oid := None)"
    using look_upd_point [of "indexes db" oid ix ix' None] ix c(4) by auto
  moreover have "nxt ((indexes db)(key_of oid \<mapsto> ix')) = nxt (indexes db)"
    using ix c(1) by (auto simp: nxt_upd nxt_def)
  ultimately show ?thesis
    using ix v db' c(2) wf
    by (intro exI [of _ v] exI [of _ "(indexes db)(key_of oid \<mapsto> ix')"])
      (auto simp: look_def wf_indexes_def set_index_def)
qed

lemma od_insert_Inr:
  assumes "od_insert clash db oid v = Inr db'" and wf: "wf_indexes (indexes db)"
    and n: "nxt (indexes db) (key_of oid) = Some n" "inst_of oid < n"
  shows "\<exists>ixs. look (indexes db) oid = None \<and> wf_indexes ixs \<and>
    look ixs = (look (indexes db))(oid \<mapsto> v) \<and> nxt ixs = nxt (indexes db) \<and>
    db' = db\<lparr>indexes := ixs\<rparr>"
proof -
  from assms obtain ix ix' where ix: "indexes db (key_of oid) = Some ix"
    and ins: "idx_insert (clash (key_of oid)) ix (inst_of oid) v = Inr ix'"
    and db': "db' = set_index (key_of oid) ix' db"
    by (auto simp: od_insert_def get_index_def res_simps)
  have wix: "wf_index ix" "inst_of oid < next_id ix"
    using wf ix n by (auto simp: wf_indexes_def nxt_def)
  note c = idx_insert_Inr [OF ins wix]
  have "look ((indexes db)(key_of oid \<mapsto> ix')) = (look (indexes db))(oid \<mapsto> v)"
    using look_upd_point [of "indexes db" oid ix ix' "Some v"] ix c(4) by auto
  moreover have "nxt ((indexes db)(key_of oid \<mapsto> ix')) = nxt (indexes db)"
    using ix c(2) by (auto simp: nxt_upd nxt_def)
  ultimately show ?thesis
    using ix db' c(1,3) wf
    by (intro exI [of _ "(indexes db)(key_of oid \<mapsto> ix')"])
      (auto simp: look_def wf_indexes_def set_index_def)
qed

section \<open>Restoring a snapshot\<close>

definition same_rest :: "'o object_database \<Rightarrow> 'o object_database \<Rightarrow> bool" where
  "same_rest db db' \<longleftrightarrow> db' = db\<lparr>indexes := indexes db'\<rparr>"

lemma same_rest_refl: "same_rest db db"
  by (simp add: same_rest_def)

lemma same_rest_trans: "same_rest a b \<Longrightarrow> same_rest b c \<Longrightarrow> same_rest a c"
  unfolding same_rest_def by (metis object_database.update_convs(1) object_database.surjective)

lemma same_rest_disabled: "same_rest a b \<Longrightarrow> disabled b = disabled a"
  unfolding same_rest_def by (metis object_database.select_convs(3) object_database.surjective object_database.update_convs(1))

abbreviation restore_old :: "'o keys \<Rightarrow> (object_id \<times> 'o) list \<Rightarrow> 'o object_database \<Rightarrow> 'o object_database result" where
  "restore_old clash \<equiv>
     fold_res (\<lambda>(oid, v) d. rbind (get_object d oid) (\<lambda>_. od_modify clash d oid (\<lambda>_. v)))"

abbreviation remove_new :: "object_id list \<Rightarrow> 'o object_database \<Rightarrow> 'o object_database result" where
  "remove_new \<equiv> fold_res (\<lambda>oid d. rbind (get_object d oid) (\<lambda>_. od_remove d oid))"

abbreviation reset_next :: "(object_id \<times> object_id) list \<Rightarrow> 'o object_database \<Rightarrow> 'o object_database result" where
  "reset_next \<equiv> fold_res (\<lambda>(k, nid) d. od_set_next_id d k nid)"

abbreviation insert_removed :: "'o keys \<Rightarrow> (object_id \<times> 'o) list \<Rightarrow> 'o object_database \<Rightarrow> 'o object_database result" where
  "insert_removed clash \<equiv> fold_res (\<lambda>(oid, v) d. od_insert clash d oid v)"

lemma map_add_upd_disjoint:
  "n k = None \<Longrightarrow> m(k \<mapsto> v) ++ n = (m ++ n)(k \<mapsto> v)"
  by (rule ext) (simp add: map_add_def split: option.split)

lemma restore_old_Inr:
  assumes "restore_old clash l db = Inr db'" "disabled db" "wf_indexes (indexes db)" "distinct (map fst l)"
  shows "same_rest db db' \<and> wf_indexes (indexes db') \<and> nxt (indexes db') = nxt (indexes db) \<and>
    look (indexes db') = look (indexes db) ++ map_of l"
  using assms
proof (induction l arbitrary: db)
  case Nil
  then show ?case by (simp add: same_rest_refl)
next
  case (Cons p l)
  obtain oid v where p: "p = (oid, v)" by fastforce
  from Cons.prems(1) p obtain d where d: "od_modify clash db oid (\<lambda>_. v) = Inr d" "restore_old clash l d = Inr db'"
    by (auto simp: res_simps)
  from od_modify_Inr [OF d(1) Cons.prems(3)] Cons.prems(2) obtain ixs where ixs: "wf_indexes ixs"
    "look ixs = (look (indexes db))(oid \<mapsto> v)" "nxt ixs = nxt (indexes db)" "d = db\<lparr>indexes := ixs\<rparr>"
    by auto
  have "map_of l oid = None" using Cons.prems(4) p by (simp add: map_of_eq_None_iff)
  then have "(look (indexes db))(oid \<mapsto> v) ++ map_of l = look (indexes db) ++ map_of (p # l)"
    using p by (simp add: map_add_upd_disjoint)
  moreover have IH: "same_rest d db' \<and> wf_indexes (indexes db') \<and> nxt (indexes db') = nxt (indexes d) \<and>
    look (indexes db') = look (indexes d) ++ map_of l"
    using Cons.prems ixs by (intro Cons.IH [OF d(2)]) auto
  ultimately have "look (indexes db') = look (indexes db) ++ map_of (p # l)"
    using ixs(2,4) by (metis object_database.select_convs(1) object_database.surjective object_database.update_convs(1))
  moreover have "same_rest db db'"
    using IH ixs(4) same_rest_trans [of db d db'] by (simp add: same_rest_def)
  moreover have "nxt (indexes db') = nxt (indexes db)" using IH ixs(3,4) by simp
  ultimately show ?case using IH by blast
qed

lemma remove_new_Inr:
  assumes "remove_new l db = Inr db'" "disabled db" "wf_indexes (indexes db)"
  shows "same_rest db db' \<and> wf_indexes (indexes db') \<and> nxt (indexes db') = nxt (indexes db) \<and>
    look (indexes db') = (\<lambda>oid. if oid \<in> set l then None else look (indexes db) oid)"
  using assms
proof (induction l arbitrary: db)
  case Nil
  then show ?case by (simp add: same_rest_refl)
next
  case (Cons oid l)
  from Cons.prems(1) obtain d where d: "od_remove db oid = Inr d" "remove_new l d = Inr db'"
    by (auto simp: res_simps)
  from od_remove_Inr [OF d(1) Cons.prems(3)] Cons.prems(2) obtain ixs where ixs: "wf_indexes ixs"
    "look ixs = (look (indexes db))(oid := None)" "nxt ixs = nxt (indexes db)" "d = db\<lparr>indexes := ixs\<rparr>"
    by auto
  with Cons.IH [OF d(2)] Cons.prems show ?case
    by (auto intro: same_rest_trans [of db d] simp: same_rest_def fun_eq_iff)
qed

lemma reset_next_Inr:
  assumes "reset_next l db = Inr db'" "distinct (map fst l)" "\<forall>oid \<in> fst ` set l. inst_of oid = 0"
  shows "same_rest db db' \<and> look (indexes db') = look (indexes db) \<and>
    (\<forall>k. indexes db' k = (case map_of l (fst k, snd k, 0) of
       None \<Rightarrow> indexes db k
     | Some nid \<Rightarrow> map_option (\<lambda>ix. ix\<lparr>next_id := inst_of nid\<rparr>) (indexes db k)))"
  using assms
proof (induction l arbitrary: db)
  case Nil
  then show ?case by (simp add: same_rest_refl)
next
  case (Cons p l)
  obtain oid nid where p: "p = (oid, nid)" by fastforce
  from Cons.prems(1) p obtain ix d where ix: "indexes db (key_of oid) = Some ix"
    and d: "d = set_index (key_of oid) (ix\<lparr>next_id := inst_of nid\<rparr>) db" "reset_next l d = Inr db'"
    by (auto simp: res_simps od_set_next_id_def get_index_def idx_set_next_id_def)
  have "inst_of oid = 0" using Cons.prems(3) p by simp
  then have oid: "oid = (fst oid, fst (snd oid), 0)" by (metis prod.collapse)
  have ml: "map_of l oid = None" using Cons.prems(2) p by (simp add: map_of_eq_None_iff)
  have di: "indexes d = (indexes db)(key_of oid \<mapsto> ix\<lparr>next_id := inst_of nid\<rparr>)" "same_rest db d"
    using d by (simp_all add: set_index_def same_rest_def)
  have lk: "look (indexes d) = look (indexes db)"
    using ix by (intro ext) (simp add: di look_upd, simp add: look_def idx_find_def)
  have key: "(fst k, snd k, 0) = oid \<longleftrightarrow> k = key_of oid" for k
    using oid by (metis fst_conv prod.collapse snd_conv)
  from Cons.IH [OF d(2)] Cons.prems have IH: "same_rest d db'" "look (indexes db') = look (indexes d)"
    "indexes db' k = (case map_of l (fst k, snd k, 0) of
       None \<Rightarrow> indexes d k
     | Some nid \<Rightarrow> map_option (\<lambda>ix. ix\<lparr>next_id := inst_of nid\<rparr>) (indexes d k))" for k
    by simp_all
  have "indexes db' k = (case map_of (p # l) (fst k, snd k, 0) of
       None \<Rightarrow> indexes db k
     | Some nid \<Rightarrow> map_option (\<lambda>ix. ix\<lparr>next_id := inst_of nid\<rparr>) (indexes db k))" for k
  proof (cases "k = key_of oid")
    case True
    then have "(fst k, snd k, 0) = oid" using key by blast
    then show ?thesis using IH(3) [of k] ml ix p True by (simp add: di)
  next
    case False
    then have "(fst k, snd k, 0) \<noteq> oid" using key by blast
    then show ?thesis using IH(3) [of k] p False by (simp add: di cong: option.case_cong)
  qed
  moreover have "same_rest db db'" using di(2) IH(1) by (rule same_rest_trans)
  moreover have "look (indexes db') = look (indexes db)" using IH(2) lk by simp
  ultimately show ?case by blast
qed

lemma insert_removed_Inr:
  assumes "insert_removed clash l db = Inr db'" "wf_indexes (indexes db)" "distinct (map fst l)"
    and "\<And>oid. oid \<in> fst ` set l \<Longrightarrow> \<exists>n. nxt (indexes db) (key_of oid) = Some n \<and> inst_of oid < n"
  shows "same_rest db db' \<and> wf_indexes (indexes db') \<and> nxt (indexes db') = nxt (indexes db) \<and>
    look (indexes db') = look (indexes db) ++ map_of l"
  using assms
proof (induction l arbitrary: db)
  case Nil
  then show ?case by (simp add: same_rest_refl)
next
  case (Cons p l)
  obtain oid v where p: "p = (oid, v)" by fastforce
  from Cons.prems(1) p obtain d where d: "od_insert clash db oid v = Inr d" "insert_removed clash l d = Inr db'"
    by (auto simp: res_simps)
  from Cons.prems(4) [of oid] p obtain n where "nxt (indexes db) (key_of oid) = Some n" "inst_of oid < n"
    by auto
  from od_insert_Inr [OF d(1) Cons.prems(2) this] obtain ixs where ixs: "wf_indexes ixs"
    "look ixs = (look (indexes db))(oid \<mapsto> v)" "nxt ixs = nxt (indexes db)" "d = db\<lparr>indexes := ixs\<rparr>"
    by auto
  have "map_of l oid = None" using Cons.prems(3) p by (simp add: map_of_eq_None_iff)
  then have "(look (indexes db))(oid \<mapsto> v) ++ map_of l = look (indexes db) ++ map_of (p # l)"
    using p by (simp add: map_add_upd_disjoint)
  moreover have IH: "same_rest d db' \<and> wf_indexes (indexes db') \<and> nxt (indexes db') = nxt (indexes d) \<and>
    look (indexes db') = look (indexes d) ++ map_of l"
    using Cons.prems ixs by (intro Cons.IH [OF d(2)]) auto
  ultimately have "look (indexes db') = look (indexes db) ++ map_of (p # l)"
    using ixs(2,4) by (metis object_database.select_convs(1) object_database.surjective object_database.update_convs(1))
  moreover have "same_rest db db'"
    using IH ixs(4) same_rest_trans [of db d db'] by (simp add: same_rest_def)
  moreover have "nxt (indexes db') = nxt (indexes db)" using IH ixs(3,4) by simp
  ultimately show ?case using IH by blast
qed

lemma rewound_indexes:
  assumes inv: "undo_inv st base cur"
    and lk: "look ixs = (\<lambda>oid. if oid \<in> set (new_ids st) then None else (look cur ++ map_of (old_values st)) oid)"
    and wf: "wf_indexes ixs" and nx: "nxt ixs = nxt cur"
    and lk': "look ixs' = look ixs"
    and nx': "\<And>k. ixs' k = (case map_of (old_index_next_ids st) (fst k, snd k, 0) of
       None \<Rightarrow> ixs k | Some nid \<Rightarrow> map_option (\<lambda>ix. ix\<lparr>next_id := inst_of nid\<rparr>) (ixs k))"
  shows "look ixs' oid = (case status st oid of New \<Rightarrow> None | Upd v \<Rightarrow> Some v | Del v \<Rightarrow> None | Nop \<Rightarrow> look base oid)"
    "nxt ixs' = nxt base" "wf_indexes ixs'"
proof -
  note wfst = undo_invD(1) [OF inv]
  show look': "look ixs' oid = (case status st oid of New \<Rightarrow> None | Upd v \<Rightarrow> Some v | Del v \<Rightarrow> None | Nop \<Rightarrow> look base oid)" for oid
    using undo_inv_look [OF inv, of oid] old_of_status [OF wfst, of oid]
    by (simp add: lk' lk status_New [symmetric] map_add_def split: obj_status.splits)
  have nxk: "nxt ixs' k = nxt base k" for k
  proof (cases "map_of (old_index_next_ids st) (fst k, snd k, 0)")
    case None
    then show ?thesis
      using nx' [of k] fun_cong [OF nx, of k] next_relD(1) [OF undo_invD(4) [OF inv], of k] by (simp add: nxt_def)
  next
    case (Some nid)
    then have b: "nxt base k = Some (inst_of nid)"
      using next_relD(1) [OF undo_invD(4) [OF inv], of k] by simp
    with next_relD(2) [OF undo_invD(4) [OF inv], of k] fun_cong [OF nx, of k]
    have "ixs k \<noteq> None" by (auto simp: nxt_def)
    then show ?thesis using nx' [of k] Some b by (auto simp: nxt_def)
  qed
  then show "nxt ixs' = nxt base" by (rule ext)
  show "wf_indexes ixs'"
    unfolding wf_indexes_def
  proof (intro allI impI)
    fix k ix
    assume ix: "ixs' k = Some ix"
    then obtain ix2 where ix2: "ixs k = Some ix2" "rows ix = rows ix2"
      using nx' [of k] by (auto split: option.splits)
    have "i < next_id ix" if "i \<in> fst ` set (rows ix)" for i
    proof -
      let ?oid = "(fst k, snd k, i)"
      have "look ixs' ?oid \<noteq> None"
        using that ix by (simp add: look_def idx_find_None)
      with look' [of ?oid] undo_inv_look [OF inv, of ?oid] have "look base ?oid \<noteq> None"
        by (auto split: obj_status.splits)
      with look_less [OF undo_invD(2) [OF inv], of ?oid] nxk [of k] ix show ?thesis
        by (auto simp: nxt_def)
    qed
    moreover have "sorted_wrt (<) (map fst (rows ix))"
      using wf ix2 by (auto simp: wf_indexes_def wf_index_def)
    ultimately show "wf_index ix" by (simp add: wf_index_alt)
  qed
qed

lemma restore_state_Inr:
  assumes inv: "undo_inv st base (indexes db)" and dis: "disabled db"
    and res: "restore_state clash st db = Inr db'"
  shows "db' = db\<lparr>indexes := base\<rparr>"
proof -
  from res obtain d1 d2 d3 where d1: "restore_old clash (old_values st) db = Inr d1"
    and d2: "remove_new (new_ids st) d1 = Inr d2" and d3: "reset_next (old_index_next_ids st) d2 = Inr d3"
    and d4: "insert_removed clash (removed st) d3 = Inr db'"
    by (auto simp: restore_state_def res_simps)
  note wfst = undo_invD(1) [OF inv]
  from wfst have dist: "distinct (map fst (old_values st))" "distinct (map fst (removed st))"
    "distinct (map fst (old_index_next_ids st))" by (simp_all add: wf_state_def)
  note r1 = restore_old_Inr [OF d1 dis undo_invD(3) [OF inv] dist(1)]
  then have dis1: "disabled d1" using same_rest_disabled dis by blast
  note r2 = remove_new_Inr [OF d2 dis1 conjunct1 [OF conjunct2 [OF r1]]]
  have k0: "\<forall>oid \<in> fst ` set (old_index_next_ids st). inst_of oid = 0"
    by (intro ballI) (rule next_relD(4) [OF undo_invD(4) [OF inv]])
  note r3 = reset_next_Inr [OF d3 dist(3) k0]
  have l1: "look (indexes d1) = look (indexes db) ++ map_of (old_values st)" using r1 by blast
  have l2: "look (indexes d2) = (\<lambda>oid. if oid \<in> set (new_ids st) then None
      else (look (indexes db) ++ map_of (old_values st)) oid)"
    using r2 unfolding l1 by blast
  have n2: "nxt (indexes d2) = nxt (indexes db)" using r1 r2 by metis
  note rw = rewound_indexes [OF inv l2 conjunct1 [OF conjunct2 [OF r2]] n2
      conjunct1 [OF conjunct2 [OF r3]] spec [OF conjunct2 [OF conjunct2 [OF r3]]]]
  have pre: "\<exists>n. nxt (indexes d3) (key_of oid) = Some n \<and> inst_of oid < n"
    if "oid \<in> fst ` set (removed st)" for oid
  proof -
    from that obtain v where "status st oid = Del v"
      using status_Del [OF wfst] by (metis map_of_eq_None_iff not_None_eq)
    with undo_inv_look [OF inv, of oid] have "look base oid = Some v" by simp
    then show ?thesis unfolding rw(2) by (rule look_less [OF undo_invD(2) [OF inv]])
  qed
  note r4 = insert_removed_Inr [OF d4 rw(3) dist(2) pre]
  have "look (indexes db') oid = look base oid" for oid
    using r4 undo_inv_look [OF inv, of oid] removed_of_status [OF wfst, of oid] rw(1) [of oid]
    by (simp add: map_add_def split: obj_status.splits)
  then have "indexes db' = base"
    using r4 rw(2) undo_invD(2) [OF inv] by (intro indexes_eqI) (auto simp: fun_eq_iff)
  moreover have "same_rest db db'"
    using r1 r2 r3 r4 same_rest_trans by blast
  ultimately show ?thesis unfolding same_rest_def by simp
qed

declare split_paired_All [simp] split_paired_Ex [simp]

end
