(* ===== verification/Undo_Sessions.thy ===== *)
theory Undo_Sessions
  imports Undo_Correctness
begin

text \<open>
  Sessions of the undo database as operations on snapshots. \<open>chain\<close> relates the stack
  of undo states to the list of snapshots they lead back to; every operation keeps it
  and acts on the snapshots as \<open>snap_step\<close> says. Restoring a state is total when no
  index has a unique key besides the id, and can fail when one has.
\<close>

declare split_paired_All [simp del] split_paired_Ex [simp del]

section \<open>Restoring is total without further unique keys\<close>

definition no_keys :: "'o keys \<Rightarrow> bool" where
  "no_keys clash \<longleftrightarrow> (\<forall>k a b. \<not> clash k a b)"

lemma no_conflicts: "no_keys clash \<Longrightarrow> \<not> conflicts (clash k) i x rs"
  by (induction rs) (auto simp: no_keys_def conflicts_def)

lemma look_index: "look ixs oid = Some v \<Longrightarrow> \<exists>ix. ixs (key_of oid) = Some ix \<and> idx_find ix (inst_of oid) = Some v"
  by (auto simp: look_def split: option.splits)

lemma get_object_total: "look (indexes db) oid = Some v \<Longrightarrow> get_object db oid = Inr v"
  using look_index [of "indexes db" oid v] by (auto simp: get_object_def get_index_def idx_get_def)

lemma od_modify_total:
  "no_keys clash \<Longrightarrow> look (indexes db) oid \<noteq> None \<Longrightarrow> \<exists>db'. od_modify clash db oid m = Inr db'"
  using look_index [of "indexes db" oid]
  by (fastforce simp: od_modify_def get_index_def idx_modify_def no_conflicts Let_def)

lemma od_remove_total: "look (indexes db) oid \<noteq> None \<Longrightarrow> \<exists>db'. od_remove db oid = Inr db'"
  using look_index [of "indexes db" oid]
  by (fastforce simp: od_remove_def get_index_def idx_remove_def Let_def)

lemma od_insert_total:
  "no_keys clash \<Longrightarrow> nxt (indexes db) (key_of oid) \<noteq> None \<Longrightarrow> look (indexes db) oid = None \<Longrightarrow>
   \<exists>db'. od_insert clash db oid v = Inr db'"
  by (auto simp: od_insert_def get_index_def idx_insert_def no_conflicts nxt_def look_def)

lemma restore_old_total:
  assumes "no_keys clash" "wf_indexes (indexes db)" "disabled db" "\<forall>oid \<in> fst ` set l. look (indexes db) oid \<noteq> None"
  shows "\<exists>db'. restore_old clash l db = Inr db'"
  using assms
proof (induction l arbitrary: db)
  case Nil
  then show ?case by simp
next
  case (Cons p l)
  obtain oid v where p: "p = (oid, v)" by fastforce
  with Cons.prems(4) have lk: "look (indexes db) oid \<noteq> None" by simp
  then obtain d where d: "od_modify clash db oid (\<lambda>_. v) = Inr d"
    using od_modify_total Cons.prems(1) by blast
  from od_modify_Inr [OF d Cons.prems(2)] Cons.prems(3) obtain ixs where ixs: "wf_indexes ixs"
    "look ixs = (look (indexes db))(oid \<mapsto> v)" "d = db\<lparr>indexes := ixs\<rparr>" by auto
  with Cons.prems have "\<exists>db'. restore_old clash l d = Inr db'" by (intro Cons.IH) auto
  then show ?case using p d lk by (auto simp: get_object_total)
qed

lemma remove_new_total:
  assumes "wf_indexes (indexes db)" "disabled db" "distinct l" "\<forall>oid \<in> set l. look (indexes db) oid \<noteq> None"
  shows "\<exists>db'. remove_new l db = Inr db'"
  using assms
proof (induction l arbitrary: db)
  case Nil
  then show ?case by simp
next
  case (Cons oid l)
  then have lk: "look (indexes db) oid \<noteq> None" by simp
  from od_remove_total [OF this] obtain d where d: "od_remove db oid = Inr d" ..
  from od_remove_Inr [OF d Cons.prems(1)] obtain v ixs where ixs: "wf_indexes ixs"
    "look ixs = (look (indexes db))(oid := None)" "d = (on_remove oid v db)\<lparr>indexes := ixs\<rparr>" by blast
  have "\<forall>y \<in> set l. look (indexes d) y \<noteq> None"
  proof
    fix y assume "y \<in> set l"
    moreover from this have "y \<noteq> oid" using Cons.prems(3) by auto
    ultimately show "look (indexes d) y \<noteq> None" using Cons.prems(4) ixs(2,3) by simp
  qed
  then have "\<exists>db'. remove_new l d = Inr db'" using Cons.prems ixs by (intro Cons.IH) simp_all
  then show ?case using d lk by (auto simp: get_object_total)
qed

lemma reset_next_total:
  assumes "\<forall>oid \<in> fst ` set l. nxt (indexes db) (key_of oid) \<noteq> None"
  shows "\<exists>db'. reset_next l db = Inr db'"
  using assms
proof (induction l arbitrary: db)
  case Nil
  then show ?case by simp
next
  case (Cons p l)
  obtain oid nid where p: "p = (oid, nid)" by fastforce
  with Cons.prems obtain ix where ix: "indexes db (key_of oid) = Some ix" by (auto simp: nxt_def)
  let ?d = "set_index (key_of oid) (idx_set_next_id ix (inst_of nid)) db"
  have "\<exists>db'. reset_next l ?d = Inr db'"
    using Cons.prems by (intro Cons.IH) (auto simp: nxt_def set_index_def)
  then show ?case using p ix by (simp add: od_set_next_id_def get_index_def)
qed

lemma insert_removed_total:
  assumes "no_keys clash" "wf_indexes (indexes db)" "distinct (map fst l)"
    and "\<And>oid. oid \<in> fst ` set l \<Longrightarrow> \<exists>n. nxt (indexes db) (key_of oid) = Some n \<and> inst_of oid < n"
    and "\<And>oid. oid \<in> fst ` set l \<Longrightarrow> look (indexes db) oid = None"
  shows "\<exists>db'. insert_removed clash l db = Inr db'"
  using assms
proof (induction l arbitrary: db)
  case Nil
  then show ?case by simp
next
  case (Cons p l)
  obtain oid v where p: "p = (oid, v)" by fastforce
  from Cons.prems(4) [of oid] p obtain n where n: "nxt (indexes db) (key_of oid) = Some n" "inst_of oid < n"
    by auto
  from p Cons.prems(5) [of oid] n obtain d where d: "od_insert clash db oid v = Inr d"
    using od_insert_total [OF Cons.prems(1), of db oid v] by auto
  from od_insert_Inr [OF d Cons.prems(2) n] obtain ixs where ixs: "wf_indexes ixs"
    "look ixs = (look (indexes db))(oid \<mapsto> v)" "nxt ixs = nxt (indexes db)" "d = db\<lparr>indexes := ixs\<rparr>" by auto
  have "\<exists>db'. insert_removed clash l d = Inr db'"
    using Cons.prems ixs p by (intro Cons.IH) auto
  then show ?case using p d by simp
qed

lemma restore_state_total:
  assumes nk: "no_keys clash" and inv: "undo_inv st base (indexes db)" and dis: "disabled db"
  shows "restore_state clash st db = Inr (db\<lparr>indexes := base\<rparr>)"
proof -
  note wfst = undo_invD(1) [OF inv]
  from wfst have dist: "distinct (map fst (old_values st))" "distinct (map fst (removed st))"
    "distinct (map fst (old_index_next_ids st))" "distinct (new_ids st)" by (simp_all add: wf_state_def)
  have present: "look (indexes db) oid \<noteq> None"
    if "oid \<in> fst ` set (old_values st) \<or> oid \<in> set (new_ids st)" for oid
  proof -
    from that have "map_of (old_values st) oid \<noteq> None \<or> status st oid = New"
      by (simp add: map_of_eq_None_iff status_New)
    then show ?thesis
      using undo_inv_look [OF inv, of oid] old_of_status [OF wfst, of oid]
      by (cases "status st oid") simp_all
  qed
  obtain d1 where d1: "restore_old clash (old_values st) db = Inr d1"
    using restore_old_total [OF nk undo_invD(3) [OF inv] dis] present by blast
  note r1 = restore_old_Inr [OF d1 dis undo_invD(3) [OF inv] dist(1)]
  then have dis1: "disabled d1" using same_rest_disabled dis by blast
  have "\<forall>oid \<in> set (new_ids st). look (indexes d1) oid \<noteq> None"
    using r1 present by (metis map_add_None)
  then obtain d2 where d2: "remove_new (new_ids st) d1 = Inr d2"
    using remove_new_total [OF _ dis1 dist(4)] r1 by blast
  note r2 = remove_new_Inr [OF d2 dis1 conjunct1 [OF conjunct2 [OF r1]]]
  have k0: "\<forall>oid \<in> fst ` set (old_index_next_ids st). inst_of oid = 0"
    by (intro ballI) (rule next_relD(4) [OF undo_invD(4) [OF inv]])
  have n2: "nxt (indexes d2) = nxt (indexes db)" using r1 r2 by metis
  have "nxt (indexes d2) (key_of oid) \<noteq> None" if "oid \<in> fst ` set (old_index_next_ids st)" for oid
  proof -
    have "oid = (fst oid, fst (snd oid), 0)" using k0 that by (metis prod.collapse)
    then have "nxt base (key_of oid) \<noteq> None"
      using next_relD(1) [OF undo_invD(4) [OF inv], of "key_of oid"] that
      by (cases "map_of (old_index_next_ids st) oid") (auto simp: map_of_eq_None_iff)
    then show ?thesis using n2 next_relD(2) [OF undo_invD(4) [OF inv], of "key_of oid"] by simp
  qed
  then obtain d3 where d3: "reset_next (old_index_next_ids st) d2 = Inr d3"
    using reset_next_total [of "old_index_next_ids st" d2] by blast
  note r3 = reset_next_Inr [OF d3 dist(3) k0]
  have l2: "look (indexes d2) = (\<lambda>oid. if oid \<in> set (new_ids st) then None
      else (look (indexes db) ++ map_of (old_values st)) oid)"
    using r2 r1 by metis
  note rw = rewound_indexes [OF inv l2 conjunct1 [OF conjunct2 [OF r2]] n2
      conjunct1 [OF conjunct2 [OF r3]] spec [OF conjunct2 [OF conjunct2 [OF r3]]]]
  have del: "\<exists>v. status st oid = Del v" if "oid \<in> fst ` set (removed st)" for oid
    using that status_Del [OF wfst] by (metis map_of_eq_None_iff not_None_eq)
  have "\<exists>db'. insert_removed clash (removed st) d3 = Inr db'"
  proof (rule insert_removed_total [OF nk rw(3) dist(2)])
    fix oid assume oid: "oid \<in> fst ` set (removed st)"
    then obtain v where v: "status st oid = Del v" using del by blast
    then show "look (indexes d3) oid = None" using rw(1) [of oid] by simp
    from v undo_inv_look [OF inv, of oid] have "look base oid = Some v" by simp
    then show "\<exists>n. nxt (indexes d3) (key_of oid) = Some n \<and> inst_of oid < n"
      unfolding rw(2) by (rule look_less [OF undo_invD(2) [OF inv]])
  qed
  then obtain db' where "restore_state clash st db = Inr db'"
    using d1 d2 d3 by (auto simp: restore_state_def)
  with restore_state_Inr [OF inv dis] show ?thesis by blast
qed

section \<open>Operations on the database\<close>

datatype 'o db_op =
    Create index_key "nat \<Rightarrow> 'o"
  | Modify object_id "'o \<Rightarrow> 'o"
  | Remove object_id
  | Start_session
  | Undo
  | Merge
  | Commit
  | Pop_commit

fun is_edit :: "'o db_op \<Rightarrow> bool" where
  "is_edit (Create _ _) = True"
| "is_edit (Modify _ _) = True"
| "is_edit (Remove _) = True"
| "is_edit _ = False"

fun exec_op :: "'o keys \<Rightarrow> 'o db_op \<Rightarrow> 'o object_database \<Rightarrow> 'o object_database result" where
  "exec_op clash (Create k c) db = rbind (od_create clash db k c) (\<lambda>(oid, db'). Inr db')"
| "exec_op clash (Modify oid m) db = od_modify clash db oid m"
| "exec_op clash (Remove oid) db = od_remove db oid"
| "exec_op clash Start_session db = Inr (snd (start_undo_session False db))"
| "exec_op clash Undo db = undo clash db"
| "exec_op clash Merge db = merge db"
| "exec_op clash Commit db = commit db"
| "exec_op clash Pop_commit db = pop_commit clash db"

section \<open>The specification: a stack of snapshots\<close>

inductive snap_step :: "'o db_op \<Rightarrow> 'o indexes \<times> 'o indexes list \<Rightarrow> 'o indexes \<times> 'o indexes list \<Rightarrow> bool" where
  edit: "is_edit op \<Longrightarrow> snap_step op (cur, snaps) (cur', if snaps = [] then [cur] else snaps)"
| start: "snap_step Start_session (cur, snaps) (cur, cur # take n snaps)"
| undo: "snap_step Undo (cur, b # bs) (b, if bs = [] then [b] else bs)"
| merge: "snap_step Merge (cur, b # b' # bs) (cur, b' # bs)"
| commit: "snap_step Commit (cur, snaps) (cur, snaps)"
| pop: "snap_step Pop_commit (cur, b # bs) (b, bs)"

fun chain :: "'o indexes \<Rightarrow> 'o undo_state list \<Rightarrow> 'o indexes list \<Rightarrow> bool" where
  "chain cur [] [] \<longleftrightarrow> wf_indexes cur"
| "chain cur (st # sts) (b # bs) \<longleftrightarrow> undo_inv st b cur \<and> chain b sts bs"
| "chain cur _ _ \<longleftrightarrow> False"

definition undo_refines :: "'o object_database \<Rightarrow> 'o indexes list \<Rightarrow> bool" where
  "undo_refines db snaps \<longleftrightarrow> \<not> disabled db \<and> chain (indexes db) (stack db) snaps"

lemma chain_length: "chain cur sts bs \<Longrightarrow> length sts = length bs"
  by (induction cur sts bs rule: chain.induct) auto

lemma chain_wf: "chain cur sts bs \<Longrightarrow> wf_indexes cur"
  by (cases "(cur, sts, bs)" rule: chain.cases) (auto dest: undo_invD)

lemma chain_take: "chain cur sts bs \<Longrightarrow> chain cur (take n sts) (take n bs)"
proof (induction cur sts bs arbitrary: n rule: chain.induct)
  case (2 cur st sts b bs)
  then show ?case by (cases n) (auto dest: undo_invD)
qed auto

lemma trim_take: "trim n l = take n l"
proof (induction n l rule: trim.induct)
  case (1 n l)
  then show ?case
    by (subst trim.simps) (auto simp: butlast_conv_take min_def)
qed

text \<open>The state an edit is recorded in, and the snapshot it belongs to.\<close>

lemma chain_back:
  assumes "chain (indexes db) (stack db) snaps"
  obtains b bs where "undo_inv (back_state db) b (indexes db)" "chain b (tl (stack db)) bs"
    "(if snaps = [] then [indexes db] else snaps) = b # bs"
  using assms chain_wf [OF assms]
  by (cases "stack db"; cases snaps) (auto simp: back_state_def undo_inv_refl)

lemma exec_edit_refines:
  assumes e: "is_edit op" and r: "undo_refines db snaps" and ex: "exec_op clash op db = Inr db'"
  shows "undo_refines db' (if snaps = [] then [indexes db] else snaps)"
proof -
  from r have en: "\<not> disabled db" and ch: "chain (indexes db) (stack db) snaps"
    by (simp_all add: undo_refines_def)
  from chain_back [OF ch] obtain b bs where b: "undo_inv (back_state db) b (indexes db)"
    "chain b (tl (stack db)) bs" "(if snaps = [] then [indexes db] else snaps) = b # bs" .
  have concl: "undo_refines db' (b # bs)"
    if "db' = (set_back st db)\<lparr>indexes := ixs\<rparr>" "undo_inv st b ixs" for st ixs
    using that b(2) en by (simp add: undo_refines_def set_back_def)
  note wf = chain_wf [OF ch]
  show ?thesis
  proof (cases op)
    case (Create k c)
    with ex obtain oid where "od_create clash db k c = Inr (oid, db')"
      by (auto simp: res_simps split: prod.splits)
    from od_create_Inr [OF this wf] obtain i ixs where i: "nxt (indexes db) k = Some i"
      "oid = (fst k, snd k, i)" "wf_indexes ixs" "look ixs = (look (indexes db))(oid \<mapsto> c i)"
      "nxt ixs = (nxt (indexes db))(k \<mapsto> Suc i)" "db' = on_create oid (db\<lparr>indexes := ixs\<rparr>)" by blast
    show ?thesis unfolding b(3)
      using i(6) en undo_inv_create [OF b(1) i(1-5)]
      by (intro concl) (auto simp: on_create_def set_back_def back_state_def)
  next
    case (Modify oid m)
    with ex have "od_modify clash db oid m = Inr db'" by simp
    from od_modify_Inr [OF this wf] obtain v ixs where i: "look (indexes db) oid = Some v"
      "wf_indexes ixs" "look ixs = (look (indexes db))(oid \<mapsto> m v)" "nxt ixs = nxt (indexes db)"
      "db' = (on_modify oid v db)\<lparr>indexes := ixs\<rparr>" by blast
    show ?thesis unfolding b(3)
      using i(5) en undo_inv_modify [OF b(1) i(1-4)] by (intro concl) (auto simp: on_modify_def)
  next
    case (Remove oid)
    with ex have "od_remove db oid = Inr db'" by simp
    from od_remove_Inr [OF this wf] obtain v ixs where i: "look (indexes db) oid = Some v"
      "wf_indexes ixs" "look ixs = (look (indexes db))(oid := None)" "nxt ixs = nxt (indexes db)"
      "db' = (on_remove oid v db)\<lparr>indexes := ixs\<rparr>" by blast
    show ?thesis unfolding b(3)
      using i(5) en undo_inv_remove [OF b(1) i(1-4)] by (intro concl) (auto simp: on_remove_def)
  qed (use e in auto)
qed

lemma start_refines:
  assumes "undo_refines db snaps"
  shows "undo_refines (snd (start_undo_session False db)) (indexes db # take (max_size db) snaps)"
    "indexes (snd (start_undo_session False db)) = indexes db"
    "active_sessions (snd (start_undo_session False db)) = active_sessions db + 1"
    "stack (snd (start_undo_session False db)) = empty_undo_state # take (max_size db) (stack db)"
  using assms chain_wf [of "indexes db" "stack db" snaps]
  by (simp_all add: undo_refines_def start_undo_session_def Let_def trim_take undo_inv_refl chain_take)

lemma restored_refines:
  assumes r: "undo_refines db snaps" and st: "stack db = st # rest"
    and res: "restore_state clash st (undo_disable db) = Inr d"
  obtains b bs where "snaps = b # bs" "d = (undo_disable db)\<lparr>indexes := b\<rparr>" "chain b rest bs"
proof -
  from r st obtain b bs where b: "snaps = b # bs" "undo_inv st b (indexes db)" "chain b rest bs"
    by (cases snaps) (auto simp: undo_refines_def)
  have "d = (undo_disable db)\<lparr>indexes := b\<rparr>"
    using restore_state_Inr [OF _ _ res, of b] b(2) by (simp add: undo_disable_def)
  with b that show ?thesis by blast
qed

text \<open>The operations on sessions; a session that starts keeps as many snapshots as \<open>max_size\<close> allows.\<close>

lemma exec_session_refines:
  assumes e: "\<not> is_edit op" and r: "undo_refines db snaps" and ex: "exec_op clash op db = Inr db'"
  shows "\<exists>snaps'. snap_step op (indexes db, snaps) (indexes db', snaps') \<and> undo_refines db' snaps' \<and> max_size db' = max_size db \<and>
    (op = Start_session \<longrightarrow> snaps' = indexes db # take (max_size db) snaps)"
proof (cases op)
  case Start_session
  then show ?thesis using ex start_refines [OF r] snap_step.start by (fastforce simp: start_undo_session_def Let_def)
next
  case Undo
  with ex obtain st rest d where st: "stack db = st # rest"
    "restore_state clash st (undo_disable db) = Inr d"
    "db' = (undo_enable d)\<lparr>stack := (if rest = [] then [empty_undo_state] else rest),
                           active_sessions := active_sessions db - 1\<rparr>"
    by (auto simp: undo_def res_simps split: list.splits)
  from restored_refines [OF r st(1,2)] obtain b bs where b: "snaps = b # bs"
    "d = (undo_disable db)\<lparr>indexes := b\<rparr>" "chain b rest bs" .
  have "undo_refines db' (if bs = [] then [b] else bs)"
    using b chain_wf [OF b(3)] chain_length [OF b(3)] st(3)
    by (auto simp: undo_refines_def undo_enable_def undo_inv_refl)
  moreover have "indexes db' = b" "max_size db' = max_size db" using b st(3) by (simp_all add: undo_enable_def undo_disable_def)
  ultimately show ?thesis using Undo b(1) snap_step.undo by (metis db_op.distinct)
next
  case Merge
  with ex obtain st prev rest where st: "stack db = st # prev # rest"
    "db' = db\<lparr>stack := merge_states prev st # rest, active_sessions := active_sessions db - 1\<rparr>"
    by (auto simp: merge_def res_simps split: list.splits)
  with r obtain b b' bs where b: "snaps = b # b' # bs" "undo_inv st b (indexes db)"
    "undo_inv prev b' b" "chain b' rest bs"
    by (cases snaps; cases "tl snaps") (auto simp: undo_refines_def)
  have "undo_refines db' (b' # bs)"
    using st b undo_inv_merge [OF b(3,2)] r by (simp add: undo_refines_def)
  then show ?thesis using Merge st(2) b(1) snap_step.merge by fastforce
next
  case Commit
  with ex r show ?thesis
    by (auto simp: commit_def res_simps undo_refines_def intro!: exI [of _ snaps] snap_step.commit)
next
  case Pop_commit
  with ex obtain st rest d where st: "stack db = st # rest"
    "restore_state clash st (undo_disable db) = Inr d" "db' = (undo_enable d)\<lparr>stack := rest\<rparr>"
    by (auto simp: pop_commit_def res_simps split: list.splits)
  from restored_refines [OF r st(1,2)] obtain b bs where b: "snaps = b # bs"
    "d = (undo_disable db)\<lparr>indexes := b\<rparr>" "chain b rest bs" .
  have "undo_refines db' bs" "indexes db' = b" "max_size db' = max_size db"
    using b st(3) by (simp_all add: undo_refines_def undo_enable_def undo_disable_def)
  then show ?thesis using Pop_commit b(1) snap_step.pop by (metis db_op.distinct)
qed (use e in auto)

section \<open>Properties\<close>

text \<open>
  C4: Every operation of the undo database implements an operation on a stack of
  snapshots: an edit changes the current objects only, starting a session pushes a
  snapshot of them, undo and pop-commit return to the last snapshot, merge forgets it,
  commit keeps everything.
\<close>

theorem undo_refines_snapshots:
  assumes r: "undo_refines db snaps" and ex: "exec_op clash op db = Inr db'"
  shows "\<exists>snaps'. snap_step op (indexes db, snaps) (indexes db', snaps') \<and> undo_refines db' snaps'"
  using exec_edit_refines [OF _ r ex] exec_session_refines [OF _ r ex] snap_step.edit by blast

definition example_db :: "nat object_database" where
  "example_db = \<lparr>indexes = (\<lambda>k. if k = (1, 2) then Some \<lparr>next_id = 1, rows = [(0, 5)]\<rparr> else None),
     active_sessions = 0, disabled = False, stack = [], max_size = 256\<rparr>"

lemma example_db_refines: "undo_refines example_db []"
  by (simp add: undo_refines_def example_db_def wf_indexes_def wf_index_def)

theorem undo_refines_snapshots_witness:
  "\<exists>db' snaps'. exec_op (\<lambda>_ _ _. False) (Modify (1, 2, 0) (\<lambda>x. x + 1)) example_db = Inr db' \<and>
     snap_step (Modify (1, 2, 0) (\<lambda>x. x + 1)) (indexes example_db, []) (indexes db', snaps') \<and>
     undo_refines db' snaps'"
proof -
  have "succeeds (exec_op (\<lambda>_ _ _. False) (Modify (1, 2, 0) (\<lambda>x. x + 1)) example_db)"
    by (simp add: od_modify_def get_index_def idx_modify_def example_db_def succeeds_def
        idx_find_def conflicts_def Let_def)
  then obtain db' where "exec_op (\<lambda>_ _ _. False) (Modify (1, 2, 0) (\<lambda>x. x + 1)) example_db = Inr db'"
    unfolding succeeds_iff ..
  with undo_refines_snapshots [OF example_db_refines this] show ?thesis by blast
qed

text \<open>
  Undoing a session returns to the objects and next ids at its start, whatever
  sequence of creations, modifications and removals ran in it; and when no index has a
  unique key besides the id the undo cannot throw.
\<close>

theorem session_undo_restores:
  assumes r: "undo_refines db snaps" and e: "list_all is_edit ops"
    and ex: "fold_res (exec_op clash) ops (snd (start_undo_session False db)) = Inr db1"
  shows "(\<forall>db2. undo clash db1 = Inr db2 \<longrightarrow>
            indexes db2 = indexes db \<and> active_sessions db2 = active_sessions db) \<and>
         (no_keys clash \<longrightarrow> (\<exists>db2. undo clash db1 = Inr db2))"
proof -
  let ?db0 = "snd (start_undo_session False db)"
  let ?snaps = "indexes db # take (max_size db) snaps"
  let ?P = "\<lambda>d. undo_refines d ?snaps \<and> active_sessions d = active_sessions db + 1"
  have step: "?P d'" if "op \<in> set ops" "?P d" "exec_op clash op d = Inr d'" for op d d'
  proof -
    have "is_edit op" using e that(1) by (auto simp: list_all_iff)
    then have "active_sessions d' = active_sessions d"
      using that(3) by (cases op) (auto simp: res_simps od_create_def od_modify_def od_remove_def
          set_index_def Let_def split: prod.splits)
    then show ?thesis using exec_edit_refines [OF \<open>is_edit op\<close> _ that(3), of ?snaps] that(2) by simp
  qed
  have "?P db1"
    using start_refines [OF r] by (intro fold_res_invariant [OF ex, of ?P]) (auto dest: step)
  then have p: "undo_refines db1 ?snaps" "active_sessions db1 = active_sessions db + 1" by simp_all
  then obtain st rest where st: "stack db1 = st # rest" "undo_inv st (indexes db) (indexes db1)"
    "chain (indexes db) rest (take (max_size db) snaps)" "\<not> disabled db1"
    by (cases "stack db1") (auto simp: undo_refines_def)
  have inv: "undo_inv st (indexes db) (indexes (undo_disable db1))" "disabled (undo_disable db1)"
    using st(2) by (simp_all add: undo_disable_def)
  have "indexes db2 = indexes db \<and> active_sessions db2 = active_sessions db"
    if "undo clash db1 = Inr db2" for db2
    using that st p(2) by (auto simp: undo_def res_simps undo_enable_def dest!: restore_state_Inr [OF inv])
  moreover have "\<exists>db2. undo clash db1 = Inr db2" if "no_keys clash"
    using st p(2) restore_state_total [OF that inv] by (simp add: undo_def)
  ultimately show ?thesis by blast
qed

definition example_edits :: "nat db_op list" where
  "example_edits = [Modify (1, 2, 0) (\<lambda>_. 6), Create (1, 2) (\<lambda>_. 5), Remove (1, 2, 0)]"

lemmas exec_simps = od_create_def od_modify_def od_remove_def od_insert_def get_index_def get_object_def
  idx_get_def idx_modify_def idx_create_def idx_remove_def idx_find_def conflicts_def Let_def
  set_index_def on_modify_def on_create_def on_remove_def set_back_def back_state_def
  note_create_def note_modify_def note_remove_def empty_undo_state_def upd_row_def del_row_def
  start_undo_session_def trim_take undo_def restore_state_def undo_disable_def undo_enable_def

theorem session_undo_restores_witness:
  "\<exists>db1 db2. fold_res (exec_op (\<lambda>_ _ _. False)) example_edits (snd (start_undo_session False example_db)) = Inr db1 \<and>
     undo (\<lambda>_ _ _. False) db1 = Inr db2 \<and> indexes db2 = indexes example_db"
proof -
  have "succeeds (fold_res (exec_op (\<lambda>_ _ _. False)) example_edits (snd (start_undo_session False example_db)))"
    by (simp add: example_edits_def example_db_def succeeds_def exec_simps)
  then obtain db1 where
    d1: "fold_res (exec_op (\<lambda>_ _ _. False)) example_edits (snd (start_undo_session False example_db)) = Inr db1"
    unfolding succeeds_iff ..
  have e: "list_all is_edit example_edits" by (simp add: example_edits_def)
  have nk: "no_keys (\<lambda>_ _ _. False)" by (simp add: no_keys_def)
  from session_undo_restores [OF example_db_refines e d1] nk d1 show ?thesis by blast
qed

text \<open>
  Merging two consecutive undo states gives each object the entry of the four-by-four
  matrix in the source's comment (the entries marked not applicable do not occur), and the
  merged state leads back from the current objects to the older snapshot.
\<close>

theorem merge_composes:
  assumes "undo_inv A base mid" and "undo_inv B mid cur"
  shows "(\<forall>oid. compose (status A oid) (status B oid) = Some (status (merge_states A B) oid)) \<and>
    undo_inv (merge_states A B) base cur"
  using merge_states_status [OF undo_invD(1) [OF assms(1)] undo_invD(1) [OF assms(2)]
      undo_inv_compose [OF assms]] undo_inv_merge [OF assms] by blast

theorem merge_composes_witness:
  "undo_inv (merge_states (empty_undo_state :: nat undo_state) empty_undo_state)
     (indexes example_db) (indexes example_db)"
proof -
  have "wf_indexes (indexes example_db)"
    by (simp add: example_db_def wf_indexes_def wf_index_def)
  from undo_inv_refl [OF this] merge_composes [OF undo_inv_refl [OF this] undo_inv_refl [OF this]]
  show ?thesis by blast
qed

text \<open>
  With a unique key besides the id, a session that runs without error may be
  impossible to undo: one object's key is changed, a new object takes the freed key, and
  restoring the old value is refused because the new object is removed only afterwards.
\<close>

theorem undo_unique_key_fails:
  "\<exists>db1. fold_res (exec_op (\<lambda>_. (=))) [Modify (1, 2, 0) (\<lambda>_. 6), Create (1, 2) (\<lambda>_. 5)]
            (snd (start_undo_session False example_db)) = Inr db1 \<and>
         undo (\<lambda>_. (=)) db1 = Inl assert_exception"
  by (simp add: example_db_def exec_simps)

declare split_paired_All [simp] split_paired_Ex [simp]

end
