(* ===== verification/Asset.thy ===== *)
theory Asset
  imports Complex_Main Prelude
begin

text \<open>
  Amounts and prices (\<open>protocol/asset.hpp\<close>, \<open>protocol/asset.cpp\<close>). An amount is an
  overflow-checked 64-bit integer; comparing and applying prices goes through unsigned
  128-bit products. The theorems show that on valid prices nothing wraps around, that the
  order is the order of the exchange rates, and that converting an amount back and forth
  never gains.
\<close>

section \<open>Amounts\<close>

definition GRAPHENE_MAX_SHARE_SUPPLY :: int where
  "GRAPHENE_MAX_SHARE_SUPPLY = 7319777577456890"

record asset =
  amount :: int
  asset_id :: nat

definition mk_asset :: "int \<Rightarrow> nat \<Rightarrow> asset" where
  "mk_asset a i = \<lparr>amount = a, asset_id = i\<rparr>"

definition asset_add :: "safe \<Rightarrow> asset \<Rightarrow> asset \<Rightarrow> asset result" where
  "asset_add S a b =
     fc_assert (asset_id a = asset_id b)
       (rbind (S (amount a + amount b)) (\<lambda>x. Inr (mk_asset x (asset_id a))))"

definition asset_sub :: "safe \<Rightarrow> asset \<Rightarrow> asset \<Rightarrow> asset result" where
  "asset_sub S a b =
     fc_assert (asset_id a = asset_id b)
       (rbind (S (amount a - amount b)) (\<lambda>x. Inr (mk_asset x (asset_id a))))"

definition asset_neg :: "safe \<Rightarrow> asset \<Rightarrow> asset result" where
  "asset_neg S a = rbind (S (- amount a)) (\<lambda>x. Inr (mk_asset x (asset_id a)))"

definition asset_scale :: "safe \<Rightarrow> int \<Rightarrow> asset \<Rightarrow> asset result" where
  "asset_scale S n a = rbind (S (amount a * n)) (\<lambda>x. Inr (mk_asset x (asset_id a)))"

definition asset_less :: "asset \<Rightarrow> asset \<Rightarrow> bool result" where
  "asset_less a b = fc_assert (asset_id a = asset_id b) (Inr (amount a < amount b))"

definition asset_le :: "asset \<Rightarrow> asset \<Rightarrow> bool result" where
  "asset_le a b = (if a = b then Inr True else asset_less a b)"

definition scaled_precision :: "nat \<Rightarrow> int result" where
  "scaled_precision p = fc_assert (p < 19) (Inr (10 ^ p))"

section \<open>Prices\<close>

record price =
  base :: asset
  quote :: asset

definition null_price :: price where
  "null_price = \<lparr>base = mk_asset 0 0, quote = mk_asset 0 0\<rparr>"

text \<open>
  \<open>cross a b\<close> is \<open>uint128_t(b.quote.amount.value) * a.base.amount.value\<close>: both factors are
  reduced to 128 bits and so is the product.
\<close>

definition cross :: "price \<Rightarrow> price \<Rightarrow> int" where
  "cross a b = u128 (u128 (amount (quote b)) * u128 (amount (base a)))"

definition price_eq :: "price \<Rightarrow> price \<Rightarrow> bool" where
  "price_eq a b =
     (if (asset_id (base a), asset_id (quote a)) \<noteq> (asset_id (base b), asset_id (quote b)) then False
      else cross a b = cross b a)"

definition price_less :: "price \<Rightarrow> price \<Rightarrow> bool" where
  "price_less a b =
     (if asset_id (base a) < asset_id (base b) then True
      else if asset_id (base a) > asset_id (base b) then False
      else if asset_id (quote a) < asset_id (quote b) then True
      else if asset_id (quote a) > asset_id (quote b) then False
      else cross a b < cross b a)"

definition price_le :: "price \<Rightarrow> price \<Rightarrow> bool" where
  "price_le a b = (price_eq a b \<or> price_less a b)"

definition is_null :: "price \<Rightarrow> bool" where
  "is_null p = price_eq p null_price"

definition asset_div :: "asset \<Rightarrow> asset \<Rightarrow> price result" where
  "asset_div b q = fc_assert (asset_id b \<noteq> asset_id q) (Inr \<lparr>base = b, quote = q\<rparr>)"

definition price_inv :: "price \<Rightarrow> price" where
  "price_inv p = \<lparr>base = quote p, quote = base p\<rparr>"

definition price_max :: "nat \<Rightarrow> nat \<Rightarrow> price result" where
  "price_max b q = asset_div (mk_asset GRAPHENE_MAX_SHARE_SUPPLY b) (mk_asset 1 q)"

definition price_min :: "nat \<Rightarrow> nat \<Rightarrow> price result" where
  "price_min b q = asset_div (mk_asset 1 b) (mk_asset GRAPHENE_MAX_SHARE_SUPPLY q)"

definition price_validate :: "price \<Rightarrow> unit result" where
  "price_validate p =
     fc_assert (amount (base p) > 0)
    (fc_assert (amount (quote p) > 0)
    (fc_assert (asset_id (base p) \<noteq> asset_id (quote p)) (Inr ())))"

text \<open>One branch of \<open>asset * price\<close>: \<open>x * n / d\<close> in 128 bits, refused above the maximal supply.\<close>

definition scale_amount :: "int \<Rightarrow> int \<Rightarrow> int \<Rightarrow> nat \<Rightarrow> asset result" where
  "scale_amount x n d i =
     fc_assert (d > 0)
       (let r = u128 (u128 x * u128 n) div d in
        fc_assert (r \<le> GRAPHENE_MAX_SHARE_SUPPLY) (Inr (mk_asset (to_int64 r) i)))"

definition asset_times_price :: "asset \<Rightarrow> price \<Rightarrow> asset result" where
  "asset_times_price a p =
     (if asset_id a = asset_id (base p)
      then scale_amount (amount a) (amount (quote p)) (amount (base p)) (asset_id (quote p))
      else if asset_id a = asset_id (quote p)
      then scale_amount (amount a) (amount (base p)) (amount (quote p)) (asset_id (base p))
      else Inl assert_exception)"

record price_feed =
  core_exchange_rate :: price

definition price_feed_validate :: "price_feed \<Rightarrow> unit result" where
  "price_feed_validate f = fc_assert (asset_id (quote (core_exchange_rate f)) = 0) (Inr ())"

definition is_for :: "price_feed \<Rightarrow> nat \<Rightarrow> bool" where
  "is_for f i =
     (if \<not> is_null (core_exchange_rate f) then asset_id (base (core_exchange_rate f)) = i else True)"

section \<open>Prices in range\<close>

definition valid_price :: "price \<Rightarrow> bool" where
  "valid_price p \<longleftrightarrow> 0 < amount (base p) \<and> in_int64 (amount (base p)) \<and>
     0 < amount (quote p) \<and> in_int64 (amount (quote p))"

lemma product_fits:
  assumes "0 \<le> x" "x < 2 ^ 63" "0 \<le> y" "y < 2 ^ 63"
  shows "0 \<le> x * y" "x * y < 2 ^ 128" "u128 (u128 x * u128 y) = x * y"
proof -
  show p: "0 \<le> x * y" using assms by simp
  have "x * y \<le> 2 ^ 63 * 2 ^ 63" using assms by (intro mult_mono) simp_all
  then show q: "x * y < 2 ^ 128" by simp
  have "u128 x = x" "u128 y = y" using assms by simp_all
  with p q show "u128 (u128 x * u128 y) = x * y" by simp
qed

lemma cross_exact:
  assumes "valid_price a" "valid_price b"
  shows "cross a b = amount (quote b) * amount (base a)"
  using assms product_fits(3) [of "amount (quote b)" "amount (base a)"]
  unfolding cross_def valid_price_def in_int64_def by simp

definition rate :: "price \<Rightarrow> rat" where
  "rate p = of_int (amount (base p)) / of_int (amount (quote p))"

lemma cross_rate:
  assumes "valid_price a" "valid_price b"
  shows "cross a b < cross b a \<longleftrightarrow> rate a < rate b" "cross a b = cross b a \<longleftrightarrow> rate a = rate b"
proof -
  have q: "0 < rat_of_int (amount (quote a))" "0 < rat_of_int (amount (quote b))"
    using assms by (simp_all add: valid_price_def)
  have c: "rat_of_int (cross a b) = rat_of_int (amount (base a)) * rat_of_int (amount (quote b))"
    "rat_of_int (cross b a) = rat_of_int (amount (base b)) * rat_of_int (amount (quote a))"
    using assms by (simp_all add: cross_exact mult.commute)
  have "cross a b < cross b a \<longleftrightarrow> rat_of_int (cross a b) < rat_of_int (cross b a)" by simp
  then show "cross a b < cross b a \<longleftrightarrow> rate a < rate b"
    unfolding c rate_def using q by (simp add: divide_less_eq less_divide_eq field_simps)
  have "cross a b = cross b a \<longleftrightarrow> rat_of_int (cross a b) = rat_of_int (cross b a)" by simp
  then show "cross a b = cross b a \<longleftrightarrow> rate a = rate b"
    unfolding c rate_def using q by (simp add: field_simps)
qed

text \<open>
  On valid prices the 128-bit products never wrap around, and the comparison operators
  are the lexicographic order of the two asset ids and the rational exchange rate.
\<close>

theorem price_order_is_rate_order:
  assumes "valid_price a" and "valid_price b"
  shows "(price_less a b \<longleftrightarrow>
      asset_id (base a) < asset_id (base b) \<or>
      asset_id (base a) = asset_id (base b) \<and>
        (asset_id (quote a) < asset_id (quote b) \<or>
         asset_id (quote a) = asset_id (quote b) \<and> rate a < rate b)) \<and>
    (price_eq a b \<longleftrightarrow> asset_id (base a) = asset_id (base b) \<and>
      asset_id (quote a) = asset_id (quote b) \<and> rate a = rate b)"
  using cross_rate [OF assms] by (auto simp: price_less_def price_eq_def)

theorem price_order_is_rate_order_witness:
  "price_less \<lparr>base = mk_asset 2 1, quote = mk_asset 3 0\<rparr> \<lparr>base = mk_asset 3 1, quote = mk_asset 4 0\<rparr>"
  using price_order_is_rate_order
    [of "\<lparr>base = mk_asset 2 1, quote = mk_asset 3 0\<rparr>" "\<lparr>base = mk_asset 3 1, quote = mk_asset 4 0\<rparr>"]
  by (simp add: valid_price_def in_int64_def mk_asset_def rate_def)

section \<open>Conversion\<close>

lemma scale_amount_exact:
  assumes "0 \<le> x" "in_int64 x" "0 \<le> n" "in_int64 n" "0 < d"
  shows "scale_amount x n d i =
    fc_assert (x * n div d \<le> GRAPHENE_MAX_SHARE_SUPPLY) (Inr (mk_asset (x * n div d) i))"
proof -
  have e: "u128 (u128 x * u128 n) = x * n"
    using assms product_fits(3) [of x n] by (simp add: in_int64_def)
  have "0 \<le> x * n div d" using assms by (simp add: pos_imp_zdiv_nonneg_iff)
  then have "in_int64 (x * n div d)" if "x * n div d \<le> GRAPHENE_MAX_SHARE_SUPPLY"
    using that by (simp add: in_int64_def GRAPHENE_MAX_SHARE_SUPPLY_def)
  with assms(5) show ?thesis
    by (simp add: scale_amount_def e to_int64_id fc_assert_def)
qed

lemma asset_times_price_Inr:
  assumes p: "valid_price p" and a: "0 \<le> amount a" "in_int64 (amount a)"
    and t: "asset_times_price a p = Inr b"
  obtains n d where "0 < n" "in_int64 n" "0 < d" "in_int64 d" "amount b = amount a * n div d"
    "amount b \<le> GRAPHENE_MAX_SHARE_SUPPLY"
    "(asset_id a = asset_id (base p) \<and> asset_id b = asset_id (quote p) \<and>
       n = amount (quote p) \<and> d = amount (base p)) \<or>
     (asset_id a \<noteq> asset_id (base p) \<and> asset_id a = asset_id (quote p) \<and> asset_id b = asset_id (base p) \<and>
       n = amount (base p) \<and> d = amount (quote p))"
  using p t scale_amount_exact [OF a] that
  by (auto simp: asset_times_price_def valid_price_def res_simps mk_asset_def split: if_splits)

lemma div_mult_div_le:
  fixes x n d :: int
  assumes "0 \<le> x" "0 < n" "0 < d"
  shows "x * n div d * d div n \<le> x"
proof -
  have "x * n div d * d \<le> x * n" using assms by (metis div_mult_mod_eq le_add_same_cancel1 pos_mod_sign)
  then have "x * n div d * d div n \<le> x * n div n" using assms by (intro zdiv_mono1) simp_all
  with assms show ?thesis by simp
qed

text \<open>
  C34: Applying a valid price to an amount of at most the maximal supply gives a
  non-negative amount, at most the maximal supply; converting it back at the same price
  succeeds, returns to the first asset and never yields more than was put in.
\<close>

theorem conversion_no_gain:
  assumes p: "valid_price p" "asset_id (base p) \<noteq> asset_id (quote p)"
    and a: "0 \<le> amount a" "amount a \<le> GRAPHENE_MAX_SHARE_SUPPLY"
    and t: "asset_times_price a p = Inr b"
  shows "0 \<le> amount b \<and> amount b \<le> GRAPHENE_MAX_SHARE_SUPPLY \<and>
    (\<exists>c. asset_times_price b p = Inr c \<and> asset_id c = asset_id a \<and> 0 \<le> amount c \<and> amount c \<le> amount a)"
proof -
  have range: "in_int64 x" if "0 \<le> x" "x \<le> GRAPHENE_MAX_SHARE_SUPPLY" for x
    using that by (simp add: in_int64_def GRAPHENE_MAX_SHARE_SUPPLY_def)
  obtain n d where nd: "0 < n" "in_int64 n" "0 < d" "in_int64 d" "amount b = amount a * n div d"
    "amount b \<le> GRAPHENE_MAX_SHARE_SUPPLY"
    "(asset_id a = asset_id (base p) \<and> asset_id b = asset_id (quote p) \<and>
       n = amount (quote p) \<and> d = amount (base p)) \<or>
     (asset_id a \<noteq> asset_id (base p) \<and> asset_id a = asset_id (quote p) \<and> asset_id b = asset_id (base p) \<and>
       n = amount (base p) \<and> d = amount (quote p))"
    using asset_times_price_Inr [OF p(1) a(1) range [OF a] t] by metis
  have b: "0 \<le> amount b" using nd a(1) by (simp add: pos_imp_zdiv_nonneg_iff)
  let ?c = "amount b * d div n"
  have c: "0 \<le> ?c" "?c \<le> amount a"
    using b nd div_mult_div_le [OF a(1) nd(1,3)] by (simp_all add: pos_imp_zdiv_nonneg_iff)
  have "scale_amount (amount b) d n i = Inr (mk_asset ?c i)" for i
    using scale_amount_exact [OF b range [OF b nd(6)], of d n i] nd c a(2) by simp
  then have "asset_times_price b p = Inr (mk_asset ?c (asset_id a))"
    using nd(7) p(2) by (auto simp: asset_times_price_def)
  with b nd(6) c show ?thesis by (auto simp: mk_asset_def)
qed

theorem conversion_no_gain_witness:
  "\<exists>c. asset_times_price (mk_asset 33 0) \<lparr>base = mk_asset 2 1, quote = mk_asset 3 0\<rparr> = Inr (mk_asset 22 1) \<and>
     asset_times_price (mk_asset 22 1) \<lparr>base = mk_asset 2 1, quote = mk_asset 3 0\<rparr> = Inr c \<and> amount c \<le> 33"
proof -
  have t: "asset_times_price (mk_asset 33 0) \<lparr>base = mk_asset 2 1, quote = mk_asset 3 0\<rparr> = Inr (mk_asset 22 1)"
    by (simp add: asset_times_price_def scale_amount_def GRAPHENE_MAX_SHARE_SUPPLY_def to_int64_def mk_asset_def)
  from conversion_no_gain [OF _ _ _ _ t] t show ?thesis
    by (auto simp: valid_price_def in_int64_def GRAPHENE_MAX_SHARE_SUPPLY_def mk_asset_def)
qed

end
