(* ===== verification/Vesting.thy ===== *)
theory Vesting
  imports Asset
begin

text \<open>
  Vesting balances (\<open>vesting_balance_object.hpp\<close>, \<open>vesting_balance_object.cpp\<close>): the
  linear policy, the coin-days-destroyed policy and the object that dispatches to them.
  Times are seconds. The C \<open>assert\<close>s of the source are not executed in a release build;
  the theorems show that the ones about withdrawals hold.
\<close>

section \<open>Policies\<close>

record vesting_policy_context =
  ctx_balance :: asset
  now :: int
  ctx_amount :: asset

record linear_vesting_policy =
  begin_timestamp :: int
  vesting_cliff_seconds :: int
  vesting_duration_seconds :: int
  begin_balance :: int

record cdd_vesting_policy =
  vesting_seconds :: int
  coin_seconds_earned :: int
  start_claim :: int
  coin_seconds_earned_last_update :: int

datatype vesting_policy = Linear linear_vesting_policy | Cdd cdd_vesting_policy

definition sum_below_max_shares :: "safe \<Rightarrow> asset \<Rightarrow> asset \<Rightarrow> bool result" where
  "sum_below_max_shares S a b =
     (if amount a \<le> GRAPHENE_MAX_SHARE_SUPPLY \<and> amount b \<le> GRAPHENE_MAX_SHARE_SUPPLY
      then rbind (S (amount a + amount b)) (\<lambda>s. Inr (s \<le> GRAPHENE_MAX_SHARE_SUPPLY))
      else Inr False)"

definition linear_get_allowed_withdraw ::
  "safe \<Rightarrow> linear_vesting_policy \<Rightarrow> vesting_policy_context \<Rightarrow> asset result" where
  "linear_get_allowed_withdraw S p ctx =
     rbind
       (if now ctx > begin_timestamp p then
          let elapsed_seconds = now ctx - begin_timestamp p in
          if elapsed_seconds \<ge> vesting_cliff_seconds p then
            let total_vested =
              (if elapsed_seconds < vesting_duration_seconds p
               then to_int64 (u64 (u128 (u128 (begin_balance p) * elapsed_seconds) div vesting_duration_seconds p))
               else begin_balance p)
            in rbind (S (begin_balance p - amount (ctx_balance ctx))) (\<lambda>withdrawn_already.
               S (total_vested - withdrawn_already))
          else Inr 0
        else Inr 0)
       (\<lambda>allowed. Inr (mk_asset allowed (asset_id (ctx_amount ctx))))"

definition linear_is_deposit_allowed :: "safe \<Rightarrow> linear_vesting_policy \<Rightarrow> vesting_policy_context \<Rightarrow> bool result" where
  "linear_is_deposit_allowed S p ctx =
     (if asset_id (ctx_amount ctx) = asset_id (ctx_balance ctx)
      then sum_below_max_shares S (ctx_amount ctx) (ctx_balance ctx) else Inr False)"

definition linear_is_withdraw_allowed :: "safe \<Rightarrow> linear_vesting_policy \<Rightarrow> vesting_policy_context \<Rightarrow> bool result" where
  "linear_is_withdraw_allowed S p ctx =
     (if asset_id (ctx_amount ctx) = asset_id (ctx_balance ctx)
      then rbind (linear_get_allowed_withdraw S p ctx) (asset_le (ctx_amount ctx)) else Inr False)"

definition compute_coin_seconds_earned :: "cdd_vesting_policy \<Rightarrow> vesting_policy_context \<Rightarrow> int" where
  "compute_coin_seconds_earned p ctx =
     (let delta_seconds = now ctx - coin_seconds_earned_last_update p;
          delta_coin_seconds = u128 (u128 (amount (ctx_balance ctx)) * delta_seconds);
          coin_seconds_earned_cap = u128 (u128 (amount (ctx_balance ctx)) * max (vesting_seconds p) 1)
      in min (u128 (coin_seconds_earned p + delta_coin_seconds)) coin_seconds_earned_cap)"

definition update_coin_seconds_earned :: "vesting_policy_context \<Rightarrow> cdd_vesting_policy \<Rightarrow> cdd_vesting_policy" where
  "update_coin_seconds_earned ctx p =
     p\<lparr>coin_seconds_earned := compute_coin_seconds_earned p ctx, coin_seconds_earned_last_update := now ctx\<rparr>"

definition cdd_get_allowed_withdraw :: "cdd_vesting_policy \<Rightarrow> vesting_policy_context \<Rightarrow> asset" where
  "cdd_get_allowed_withdraw p ctx =
     (if now ctx \<le> start_claim p then mk_asset 0 (asset_id (ctx_balance ctx))
      else let withdraw_available = compute_coin_seconds_earned p ctx div max (vesting_seconds p) 1
           in mk_asset (to_int64 (u64 withdraw_available)) (asset_id (ctx_balance ctx)))"

definition cdd_on_deposit :: "vesting_policy_context \<Rightarrow> cdd_vesting_policy \<Rightarrow> cdd_vesting_policy" where
  "cdd_on_deposit ctx p = update_coin_seconds_earned ctx p"

text \<open>The product is computed in \<open>int64_t\<close>, where an overflow is undefined.\<close>

definition cdd_on_deposit_vested :: "vesting_policy_context \<Rightarrow> cdd_vesting_policy \<Rightarrow> cdd_vesting_policy result" where
  "cdd_on_deposit_vested ctx p =
     (let p1 = cdd_on_deposit ctx p;
          added = amount (ctx_amount ctx) * max (vesting_seconds p1) 1
      in if in_int64 added
         then Inr (p1\<lparr>coin_seconds_earned := u128 (coin_seconds_earned p1 + added)\<rparr>)
         else Inl undefined_behaviour)"

definition cdd_on_withdraw :: "vesting_policy_context \<Rightarrow> cdd_vesting_policy \<Rightarrow> cdd_vesting_policy" where
  "cdd_on_withdraw ctx p =
     (let p1 = update_coin_seconds_earned ctx p;
          coin_seconds_needed = u128 (u128 (amount (ctx_amount ctx)) * max (vesting_seconds p1) 1)
      in p1\<lparr>coin_seconds_earned := u128 (coin_seconds_earned p1 - coin_seconds_needed)\<rparr>)"

definition cdd_is_deposit_allowed :: "safe \<Rightarrow> cdd_vesting_policy \<Rightarrow> vesting_policy_context \<Rightarrow> bool result" where
  "cdd_is_deposit_allowed S p ctx =
     (if asset_id (ctx_amount ctx) = asset_id (ctx_balance ctx)
      then sum_below_max_shares S (ctx_amount ctx) (ctx_balance ctx) else Inr False)"

definition cdd_is_withdraw_allowed :: "cdd_vesting_policy \<Rightarrow> vesting_policy_context \<Rightarrow> bool result" where
  "cdd_is_withdraw_allowed p ctx = asset_le (ctx_amount ctx) (cdd_get_allowed_withdraw p ctx)"

section \<open>The vesting balance object\<close>

record vesting_balance_object =
  vb_owner :: nat
  balance :: asset
  policy :: vesting_policy

definition context_of :: "vesting_balance_object \<Rightarrow> int \<Rightarrow> asset \<Rightarrow> vesting_policy_context" where
  "context_of v t x = \<lparr>ctx_balance = balance v, now = t, ctx_amount = x\<rparr>"

definition is_deposit_allowed :: "safe \<Rightarrow> vesting_balance_object \<Rightarrow> int \<Rightarrow> asset \<Rightarrow> bool result" where
  "is_deposit_allowed S v t x =
     (case policy v of
        Linear p \<Rightarrow> linear_is_deposit_allowed S p (context_of v t x)
      | Cdd p \<Rightarrow> cdd_is_deposit_allowed S p (context_of v t x))"

definition is_deposit_vested_allowed :: "safe \<Rightarrow> vesting_balance_object \<Rightarrow> int \<Rightarrow> asset \<Rightarrow> bool result" where
  "is_deposit_vested_allowed S v t x =
     (case policy v of
        Linear p \<Rightarrow> Inr False
      | Cdd p \<Rightarrow> cdd_is_deposit_allowed S p (context_of v t x))"

definition is_withdraw_allowed :: "safe \<Rightarrow> vesting_balance_object \<Rightarrow> int \<Rightarrow> asset \<Rightarrow> bool result" where
  "is_withdraw_allowed S v t x =
     (case policy v of
        Linear p \<Rightarrow> linear_is_withdraw_allowed S p (context_of v t x)
      | Cdd p \<Rightarrow> cdd_is_withdraw_allowed p (context_of v t x))"

definition deposit :: "safe \<Rightarrow> int \<Rightarrow> asset \<Rightarrow> vesting_balance_object \<Rightarrow> vesting_balance_object result" where
  "deposit S t x v =
     (let pol = (case policy v of Linear p \<Rightarrow> Linear p | Cdd p \<Rightarrow> Cdd (cdd_on_deposit (context_of v t x) p))
      in rbind (asset_add S (balance v) x) (\<lambda>b. Inr (v\<lparr>policy := pol, balance := b\<rparr>)))"

definition deposit_vested :: "safe \<Rightarrow> int \<Rightarrow> asset \<Rightarrow> vesting_balance_object \<Rightarrow> vesting_balance_object result" where
  "deposit_vested S t x v =
     rbind (case policy v of
              Linear p \<Rightarrow> Inl other_exception
            | Cdd p \<Rightarrow> rbind (cdd_on_deposit_vested (context_of v t x) p) (\<lambda>q. Inr (Cdd q)))
       (\<lambda>pol. rbind (asset_add S (balance v) x) (\<lambda>b. Inr (v\<lparr>policy := pol, balance := b\<rparr>)))"

definition withdraw :: "safe \<Rightarrow> int \<Rightarrow> asset \<Rightarrow> vesting_balance_object \<Rightarrow> vesting_balance_object result" where
  "withdraw S t x v =
     (let pol = (case policy v of Linear p \<Rightarrow> Linear p | Cdd p \<Rightarrow> Cdd (cdd_on_withdraw (context_of v t x) p))
      in rbind (asset_sub S (balance v) x) (\<lambda>b. Inr (v\<lparr>policy := pol, balance := b\<rparr>)))"

definition get_allowed_withdraw :: "safe \<Rightarrow> vesting_balance_object \<Rightarrow> int \<Rightarrow> asset result" where
  "get_allowed_withdraw S v t =
     (case policy v of
        Linear p \<Rightarrow> linear_get_allowed_withdraw S p (context_of v t (mk_asset 0 0))
      | Cdd p \<Rightarrow> Inr (cdd_get_allowed_withdraw p (context_of v t (mk_asset 0 0))))"

section \<open>Invariant\<close>

text \<open>What a linear policy has vested at a time.\<close>

definition vested :: "linear_vesting_policy \<Rightarrow> int \<Rightarrow> int" where
  "vested p t =
     (let e = t - begin_timestamp p in
      if e \<le> 0 \<or> e < vesting_cliff_seconds p then 0
      else if e < vesting_duration_seconds p then begin_balance p * e div vesting_duration_seconds p
      else begin_balance p)"

definition share_range :: "int \<Rightarrow> bool" where
  "share_range x \<longleftrightarrow> 0 \<le> x \<and> x \<le> GRAPHENE_MAX_SHARE_SUPPLY"

definition is_time :: "int \<Rightarrow> bool" where
  "is_time t \<longleftrightarrow> 0 \<le> t \<and> t < 2 ^ 32"

text \<open>
  \<open>vesting_inv v t\<close> holds of an object last changed at time \<open>t\<close>: the balance is a share
  amount; a linear policy has paid out no more than has vested; a coin-days policy has
  earned no more than its cap.
\<close>

fun policy_inv :: "vesting_policy \<Rightarrow> int \<Rightarrow> int \<Rightarrow> bool" where
  "policy_inv (Linear p) b t \<longleftrightarrow>
     is_time (begin_timestamp p) \<and> is_time (vesting_duration_seconds p) \<and> share_range (begin_balance p) \<and>
     begin_balance p - b \<le> vested p t"
| "policy_inv (Cdd p) b t \<longleftrightarrow>
     is_time (vesting_seconds p) \<and> is_time (coin_seconds_earned_last_update p) \<and>
     coin_seconds_earned_last_update p \<le> t \<and>
     0 \<le> coin_seconds_earned p \<and> coin_seconds_earned p \<le> b * max (vesting_seconds p) 1"

definition vesting_inv :: "vesting_balance_object \<Rightarrow> int \<Rightarrow> bool" where
  "vesting_inv v t \<longleftrightarrow> is_time t \<and> share_range (amount (balance v)) \<and> policy_inv (policy v) (amount (balance v)) t"

lemma share_range_int64: "share_range x \<Longrightarrow> in_int64 x"
  by (simp add: share_range_def in_int64_def GRAPHENE_MAX_SHARE_SUPPLY_def)

lemma share_times_time:
  assumes "share_range x" "is_time t"
  shows "0 \<le> x * t" "x * t < 2 ^ 85" "u128 (u128 x * t) = x * t"
proof -
  show p: "0 \<le> x * t" using assms by (simp add: share_range_def is_time_def)
  have "x * t \<le> 2 ^ 53 * 2 ^ 32"
    using assms by (intro mult_mono) (simp_all add: share_range_def is_time_def GRAPHENE_MAX_SHARE_SUPPLY_def)
  then have "x * t \<le> 2 ^ 85" by (simp flip: power_add)
  moreover have "x * t \<le> 7319777577456890 * 2 ^ 32"
    using assms by (intro mult_mono) (simp_all add: share_range_def is_time_def GRAPHENE_MAX_SHARE_SUPPLY_def)
  ultimately show q: "x * t < 2 ^ 85" by simp
  have "u128 x = x" using assms by (simp add: share_range_def GRAPHENE_MAX_SHARE_SUPPLY_def)
  with p q show "u128 (u128 x * t) = x * t" by simp
qed

lemma is_time_max1: "is_time t \<Longrightarrow> is_time (max t 1)"
  by (simp add: is_time_def)

lemma div_fraction_le:
  fixes b e d :: int
  assumes "0 \<le> b" "0 \<le> e" "e \<le> d" "0 < d"
  shows "0 \<le> b * e div d" "b * e div d \<le> b"
proof -
  show "0 \<le> b * e div d" using assms by (simp add: pos_imp_zdiv_nonneg_iff)
  have "b * e div d \<le> b * d div d" using assms by (intro zdiv_mono1 mult_left_mono) simp_all
  with assms show "b * e div d \<le> b" by simp
qed

lemma vested_bounds:
  assumes "share_range (begin_balance p)"
  shows "0 \<le> vested p t" "vested p t \<le> begin_balance p"
  using assms div_fraction_le [of "begin_balance p" "t - begin_timestamp p" "vesting_duration_seconds p"]
  by (auto simp: vested_def Let_def share_range_def)

lemma vested_mono:
  assumes "share_range (begin_balance p)" "t \<le> u"
  shows "vested p t \<le> vested p u"
proof (cases "u - begin_timestamp p < vesting_duration_seconds p \<and> 0 < t - begin_timestamp p \<and>
    vesting_cliff_seconds p \<le> t - begin_timestamp p")
  case True
  then have "begin_balance p * (t - begin_timestamp p) div vesting_duration_seconds p
      \<le> begin_balance p * (u - begin_timestamp p) div vesting_duration_seconds p"
    using assms by (intro zdiv_mono1 mult_left_mono) (simp_all add: share_range_def)
  with True assms(2) show ?thesis by (simp add: vested_def Let_def)
next
  case False
  show ?thesis
    using vested_bounds [OF assms(1), of u] vested_bounds [OF assms(1), of t] False assms(2)
    by (auto simp: vested_def Let_def split: if_splits)
qed

lemma linear_allowed:
  assumes S: "safe_exact S" and inv: "vesting_inv v t0" "policy v = Linear p" and t: "is_time t"
    and a: "linear_get_allowed_withdraw S p (context_of v t x) = Inr a"
  shows "asset_id a = asset_id x"
    "amount a = (if t \<le> begin_timestamp p \<or> t - begin_timestamp p < vesting_cliff_seconds p then 0
                 else vested p t - (begin_balance p - amount (balance v)))"
proof -
  let ?e = "t - begin_timestamp p"
  have r: "share_range (begin_balance p)" "is_time (begin_timestamp p)"
    using inv by (simp_all add: vesting_inv_def)
  show "asset_id a = asset_id x"
    using a by (auto simp: linear_get_allowed_withdraw_def res_simps context_of_def mk_asset_def)
  have "to_int64 (u64 (u128 (u128 (begin_balance p) * ?e) div vesting_duration_seconds p)) =
      begin_balance p * ?e div vesting_duration_seconds p"
    if "0 < ?e" "?e < vesting_duration_seconds p"
  proof -
    have "is_time ?e" using that r t by (simp add: is_time_def)
    then have "u128 (u128 (begin_balance p) * ?e) = begin_balance p * ?e"
      by (rule share_times_time(3) [OF r(1)])
    moreover have "share_range (begin_balance p * ?e div vesting_duration_seconds p)"
      using div_fraction_le [of "begin_balance p" ?e "vesting_duration_seconds p"] that r(1)
      by (simp add: share_range_def)
    ultimately show ?thesis
      by (simp add: share_range_int64 to_int64_id share_range_def GRAPHENE_MAX_SHARE_SUPPLY_def)
  qed
  with a show "amount a = (if t \<le> begin_timestamp p \<or> ?e < vesting_cliff_seconds p then 0
      else vested p t - (begin_balance p - amount (balance v)))"
    by (auto simp: linear_get_allowed_withdraw_def context_of_def Let_def res_simps mk_asset_def vested_def
        dest!: safe_exactD [OF S] split: if_splits)
qed

lemma compute_exact:
  assumes inv: "vesting_inv v t0" "policy v = Cdd p" and t: "is_time t" "t0 \<le> t"
  shows "compute_coin_seconds_earned p (context_of v t x) =
    min (coin_seconds_earned p + amount (balance v) * (t - coin_seconds_earned_last_update p))
      (amount (balance v) * max (vesting_seconds p) 1)"
proof -
  let ?b = "amount (balance v)" and ?d = "t - coin_seconds_earned_last_update p"
  have i: "share_range ?b" "is_time (vesting_seconds p)" "is_time ?d" "0 \<le> coin_seconds_earned p"
    "coin_seconds_earned p \<le> ?b * max (vesting_seconds p) 1"
    using inv t by (simp_all add: vesting_inv_def is_time_def)
  note cap = share_times_time [OF i(1) is_time_max1 [OF i(2)]] and delta = share_times_time [OF i(1,3)]
  have "coin_seconds_earned p + ?b * ?d < 2 ^ 128" using i(5) cap(2) delta(2) by simp
  moreover have "0 \<le> coin_seconds_earned p + ?b * ?d" using i(4) delta(1) by simp
  ultimately show ?thesis
    using cap(3) delta(3) by (simp add: compute_coin_seconds_earned_def Let_def context_of_def)
qed

lemma compute_bounds:
  assumes inv: "vesting_inv v t0" "policy v = Cdd p" and t: "is_time t" "t0 \<le> t"
  shows "0 \<le> compute_coin_seconds_earned p (context_of v t x)"
    "compute_coin_seconds_earned p (context_of v t x) \<le> amount (balance v) * max (vesting_seconds p) 1"
  using assms by (auto simp: compute_exact [OF assms] vesting_inv_def share_range_def is_time_def)

lemma cdd_allowed:
  assumes inv: "vesting_inv v t0" "policy v = Cdd p" and t: "is_time t" "t0 \<le> t"
  shows "asset_id (cdd_get_allowed_withdraw p (context_of v t x)) = asset_id (balance v)"
    "0 \<le> amount (cdd_get_allowed_withdraw p (context_of v t x))"
    "amount (cdd_get_allowed_withdraw p (context_of v t x)) \<le> amount (balance v)"
    "amount (cdd_get_allowed_withdraw p (context_of v t x)) * max (vesting_seconds p) 1
      \<le> compute_coin_seconds_earned p (context_of v t x)"
proof -
  let ?m = "max (vesting_seconds p) 1" and ?c = "compute_coin_seconds_earned p (context_of v t x)"
  note cb = compute_bounds [OF assms, of x]
  have "?c div ?m \<le> amount (balance v) * ?m div ?m" by (intro zdiv_mono1 cb(2)) simp
  then have le: "?c div ?m \<le> amount (balance v)" by simp
  have r: "share_range (?c div ?m)"
    using le cb(1) inv(1) by (simp add: share_range_def vesting_inv_def pos_imp_zdiv_nonneg_iff)
  then have e: "to_int64 (u64 (?c div ?m)) = ?c div ?m"
    by (simp add: share_range_int64 to_int64_id share_range_def GRAPHENE_MAX_SHARE_SUPPLY_def)
  have "?c div ?m * ?m \<le> ?c" by (metis div_mult_mod_eq le_add_same_cancel1 pos_mod_sign max_less_iff_conj zero_less_one less_max_iff_disj)
  with e r le cb show "amount (cdd_get_allowed_withdraw p (context_of v t x)) * ?m \<le> ?c"
    "0 \<le> amount (cdd_get_allowed_withdraw p (context_of v t x))"
    "amount (cdd_get_allowed_withdraw p (context_of v t x)) \<le> amount (balance v)"
    using inv(1) by (auto simp: cdd_get_allowed_withdraw_def Let_def mk_asset_def share_range_def vesting_inv_def)
  show "asset_id (cdd_get_allowed_withdraw p (context_of v t x)) = asset_id (balance v)"
    by (simp add: cdd_get_allowed_withdraw_def Let_def mk_asset_def context_of_def)
qed

section \<open>Operations keep the invariant\<close>

lemma asset_le_True: "asset_le a b = Inr True \<Longrightarrow> asset_id a = asset_id b \<and> amount a \<le> amount b"
  by (auto simp: asset_le_def asset_less_def res_simps split: if_splits)

lemma policy_inv_later: "policy_inv q b t \<Longrightarrow> t \<le> u \<Longrightarrow> policy_inv q b u"
proof (cases q)
  case (Linear p)
  assume "policy_inv q b t" "t \<le> u"
  with Linear vested_mono [of p t u] show ?thesis by auto
qed auto

lemma asset_sub_total:
  assumes "safe_total S" "asset_id a = asset_id b" "in_int64 (amount a - amount b)"
  shows "asset_sub S a b = Inr (mk_asset (amount a - amount b) (asset_id a))"
  using assms safe_totalD [OF assms(1,3)] by (simp add: asset_sub_def)

lemma asset_add_total:
  assumes "safe_total S" "asset_id a = asset_id b" "in_int64 (amount a + amount b)"
  shows "asset_add S a b = Inr (mk_asset (amount a + amount b) (asset_id a))"
  using assms safe_totalD [OF assms(1,3)] by (simp add: asset_add_def)

lemma withdraw_allowed_bound:
  assumes S: "safe_exact S" and inv: "vesting_inv v t0" and t: "t0 \<le> t" "is_time t"
    and ok: "is_withdraw_allowed S v t x = Inr True"
  shows "asset_id x = asset_id (balance v)" "amount x \<le> amount (balance v)"
proof -
  have "asset_id x = asset_id (balance v) \<and> amount x \<le> amount (balance v)"
  proof (cases "policy v")
    case (Linear p)
    with ok obtain a where a: "linear_get_allowed_withdraw S p (context_of v t x) = Inr a"
      "asset_le x a = Inr True" "asset_id x = asset_id (balance v)"
      by (auto simp: is_withdraw_allowed_def linear_is_withdraw_allowed_def res_simps context_of_def split: if_splits)
    note la = linear_allowed [OF S inv Linear t(2) a(1)] and le = asset_le_True [OF a(2)]
    have r: "share_range (begin_balance p)" "0 \<le> amount (balance v)"
      using inv Linear by (simp_all add: vesting_inv_def share_range_def)
    with la(2) vested_bounds(2) [OF r(1), of t] le a(3) show ?thesis by (auto split: if_splits)
  next
    case (Cdd p)
    with ok have "asset_le x (cdd_get_allowed_withdraw p (context_of v t x)) = Inr True"
      by (simp add: is_withdraw_allowed_def cdd_is_withdraw_allowed_def context_of_def)
    from asset_le_True [OF this] cdd_allowed [OF inv Cdd t(2,1), of x] show ?thesis by auto
  qed
  then show "asset_id x = asset_id (balance v)" "amount x \<le> amount (balance v)" by simp_all
qed

lemma cdd_withdrawn:
  assumes inv: "vesting_inv v t0" and Cdd: "policy v = Cdd p" and t: "t0 \<le> t" "is_time t"
    and ok: "is_withdraw_allowed S v t x = Inr True" and x: "0 \<le> amount x"
  shows "amount x * max (vesting_seconds p) 1 \<le> compute_coin_seconds_earned p (context_of v t x)"
    "coin_seconds_earned (cdd_on_withdraw (context_of v t x) p) = compute_coin_seconds_earned p (context_of v t x) - amount x * max (vesting_seconds p) 1"
    "vesting_seconds (cdd_on_withdraw (context_of v t x) p) = vesting_seconds p"
    "coin_seconds_earned_last_update (cdd_on_withdraw (context_of v t x) p) = t"
proof -
  let ?m = "max (vesting_seconds p) 1" and ?c = "compute_coin_seconds_earned p (context_of v t x)"
  from Cdd ok have "asset_le x (cdd_get_allowed_withdraw p (context_of v t x)) = Inr True"
    by (simp add: is_withdraw_allowed_def cdd_is_withdraw_allowed_def context_of_def)
  from asset_le_True [OF this] cdd_allowed [OF inv Cdd t(2,1), of x]
  have ax: "amount x \<le> amount (cdd_get_allowed_withdraw p (context_of v t x))"
    "amount x \<le> amount (balance v)" by simp_all
  have vi: "share_range (amount (balance v))" "is_time (vesting_seconds p)"
    using inv Cdd by (simp_all add: vesting_inv_def)
  have "share_range (amount x)" using x ax(2) vi(1) by (simp add: share_range_def)
  note need = share_times_time [OF this is_time_max1 [OF vi(2)]]
  have "amount x * ?m \<le> amount (cdd_get_allowed_withdraw p (context_of v t x)) * ?m"
    by (intro mult_right_mono ax(1)) simp
  with cdd_allowed(4) [OF inv Cdd t(2,1), of x] show le: "amount x * ?m \<le> ?c" by simp
  note cb = compute_bounds [OF inv Cdd t(2,1), of x]
  have small: "?c - amount x * ?m < 2 ^ 128"
    using cb(2) share_times_time(2) [OF vi(1) is_time_max1 [OF vi(2)]] need(1) by simp
  show "coin_seconds_earned (cdd_on_withdraw (context_of v t x) p) = ?c - amount x * ?m"
    using need(3) le small
    by (simp add: cdd_on_withdraw_def update_coin_seconds_earned_def Let_def context_of_def)
  show "vesting_seconds (cdd_on_withdraw (context_of v t x) p) = vesting_seconds p"
    "coin_seconds_earned_last_update (cdd_on_withdraw (context_of v t x) p) = t"
    by (simp_all add: cdd_on_withdraw_def update_coin_seconds_earned_def Let_def context_of_def)
qed

lemma withdraw_policy_inv:
  assumes S: "safe_exact S" and inv: "vesting_inv v t0" and t: "t0 \<le> t" "is_time t"
    and ok: "is_withdraw_allowed S v t x = Inr True" and x: "0 \<le> amount x"
  shows "policy_inv (case policy v of Linear p \<Rightarrow> Linear p | Cdd p \<Rightarrow> Cdd (cdd_on_withdraw (context_of v t x) p))
    (amount (balance v) - amount x) t"
proof (cases "policy v")
  case (Linear p)
  with ok obtain a where a: "linear_get_allowed_withdraw S p (context_of v t x) = Inr a" "asset_le x a = Inr True"
    by (auto simp: is_withdraw_allowed_def linear_is_withdraw_allowed_def res_simps context_of_def split: if_splits)
  have r: "policy_inv (Linear p) (amount (balance v)) t"
    using policy_inv_later [OF _ t(1), of "Linear p" "amount (balance v)"] inv Linear
    unfolding vesting_inv_def by simp
  from linear_allowed(2) [OF S inv Linear t(2) a(1)] asset_le_True [OF a(2)] x r Linear show ?thesis
    by (auto split: if_splits)
next
  case (Cdd p)
  let ?m = "max (vesting_seconds p) 1" and ?c = "compute_coin_seconds_earned p (context_of v t x)"
  note c = cdd_withdrawn [OF inv Cdd t ok x]
  have "?c - amount x * ?m \<le> (amount (balance v) - amount x) * ?m"
    using compute_bounds(2) [OF inv Cdd t(2,1), of x] by (simp add: left_diff_distrib)
  moreover have "is_time (vesting_seconds p)" using inv Cdd by (simp add: vesting_inv_def)
  ultimately show ?thesis using Cdd c t(2) by simp
qed

lemma withdraw_keeps:
  assumes S: "safe_exact S" "safe_total S" and inv: "vesting_inv v t0" and t: "t0 \<le> t" "is_time t"
    and x: "0 \<le> amount x" and ok: "is_withdraw_allowed S v t x = Inr True"
  shows "\<exists>v'. withdraw S t x v = Inr v' \<and> vesting_inv v' t \<and>
    balance v' = mk_asset (amount (balance v) - amount x) (asset_id (balance v)) \<and> vb_owner v' = vb_owner v"
proof -
  note b = withdraw_allowed_bound [OF S(1) inv t ok]
  have r: "share_range (amount (balance v) - amount x)"
    using inv b x by (simp add: vesting_inv_def share_range_def)
  have "asset_sub S (balance v) x = Inr (mk_asset (amount (balance v) - amount x) (asset_id (balance v)))"
    using asset_sub_total [OF S(2) b(1) [symmetric] share_range_int64 [OF r]] .
  then show ?thesis
    using withdraw_policy_inv [OF S(1) inv t ok x] r t(2)
    by (simp add: withdraw_def vesting_inv_def Let_def mk_asset_def)
qed

lemma deposit_keeps:
  assumes S: "safe_exact S" "safe_total S" and inv: "vesting_inv v t0" and t: "t0 \<le> t" "is_time t"
    and x: "0 \<le> amount x" and ok: "is_deposit_allowed S v t x = Inr True"
  shows "\<exists>v'. deposit S t x v = Inr v' \<and> vesting_inv v' t \<and>
    balance v' = mk_asset (amount (balance v) + amount x) (asset_id (balance v)) \<and> vb_owner v' = vb_owner v"
proof -
  have ok': "asset_id x = asset_id (balance v)" "sum_below_max_shares S x (balance v) = Inr True"
    using ok by (auto simp: is_deposit_allowed_def linear_is_deposit_allowed_def cdd_is_deposit_allowed_def
        context_of_def split: vesting_policy.splits if_splits)
  then have r: "share_range (amount (balance v) + amount x)"
    using x inv by (auto simp: sum_below_max_shares_def res_simps vesting_inv_def share_range_def
        dest!: safe_exactD [OF S(1)] split: if_splits)
  have a: "asset_add S (balance v) x = Inr (mk_asset (amount (balance v) + amount x) (asset_id (balance v)))"
    using asset_add_total [OF S(2) ok'(1) [symmetric] share_range_int64 [OF r]] .
  have "policy_inv (case policy v of Linear p \<Rightarrow> Linear p | Cdd p \<Rightarrow> Cdd (cdd_on_deposit (context_of v t x) p))
      (amount (balance v) + amount x) t"
  proof (cases "policy v")
    case (Linear p)
    then show ?thesis
      using policy_inv_later [OF _ t(1), of "policy v" "amount (balance v)"] inv x
      by (simp add: vesting_inv_def)
  next
    case (Cdd p)
    have "amount (balance v) * max (vesting_seconds p) 1 \<le> (amount (balance v) + amount x) * max (vesting_seconds p) 1"
      using x by (intro mult_right_mono) simp_all
    with Cdd compute_bounds [OF inv Cdd t(2,1), of x] inv t(2) show ?thesis
      by (simp add: cdd_on_deposit_def update_coin_seconds_earned_def context_of_def vesting_inv_def)
  qed
  with a r t(2) show ?thesis by (simp add: deposit_def vesting_inv_def Let_def mk_asset_def)
qed

section \<open>The contract of a vesting balance\<close>

text \<open>
  What the evaluators rely on: a permitted withdrawal succeeds, takes exactly its amount
  and keeps the invariant. The client's lemma: a schedule of withdrawals never takes more
  than was there.
\<close>

locale vesting_contract =
  fixes inv :: "'v \<Rightarrow> int \<Rightarrow> bool" and bal :: "'v \<Rightarrow> int"
    and allowed :: "'v \<Rightarrow> int \<Rightarrow> asset \<Rightarrow> bool result" and take_out :: "int \<Rightarrow> asset \<Rightarrow> 'v \<Rightarrow> 'v result"
  assumes inv_balance: "inv v t \<Longrightarrow> 0 \<le> bal v"
    and take_out_ok: "inv v t0 \<Longrightarrow> t0 \<le> t \<Longrightarrow> is_time t \<Longrightarrow> 0 \<le> amount x \<Longrightarrow> allowed v t x = Inr True \<Longrightarrow>
      \<exists>v'. take_out t x v = Inr v' \<and> inv v' t \<and> bal v' = bal v - amount x"
begin

fun run :: "(int \<times> asset) list \<Rightarrow> 'v \<Rightarrow> 'v result" where
  "run [] v = Inr v"
| "run ((t, x) # ws) v = rbind (allowed v t x) (\<lambda>ok. fc_assert ok (rbind (take_out t x v) (run ws)))"

lemma run_sum:
  "inv v t0 \<Longrightarrow> sorted (t0 # map fst ws) \<Longrightarrow> list_all (\<lambda>(t, x). is_time t \<and> 0 \<le> amount x) ws \<Longrightarrow>
    run ws v = Inr v' \<Longrightarrow>
    bal v' = bal v - (\<Sum>(t, x)\<leftarrow>ws. amount x) \<and> inv v' (last (t0 # map fst ws)) \<and>
    (\<Sum>(t, x)\<leftarrow>ws. amount x) \<le> bal v"
proof (induction ws arbitrary: v t0)
  case Nil
  then show ?case using inv_balance by auto
next
  case (Cons w ws)
  obtain t x where w: "w = (t, x)" by (cases w)
  from Cons.prems(4) w have "allowed v t x = Inr True" by (auto simp: res_simps)
  with take_out_ok [OF Cons.prems(1), of t x] Cons.prems(2,3) w obtain v1 where
    v1: "take_out t x v = Inr v1" "inv v1 t" "bal v1 = bal v - amount x"
    by auto
  with Cons.prems(4) w have r: "run ws v1 = Inr v'" by (auto simp: res_simps)
  from Cons.IH [OF v1(2) _ _ r] Cons.prems(2,3) w v1(3) show ?case by auto
qed

end

definition vesting_balance :: "vesting_balance_object \<Rightarrow> int" where
  "vesting_balance v = amount (balance v)"

lemma vesting_object_contract:
  assumes "safe_exact S" "safe_total S"
  shows "vesting_contract vesting_inv vesting_balance (is_withdraw_allowed S) (withdraw S)"
proof
  fix v t assume "vesting_inv v t"
  then show "0 \<le> vesting_balance v" by (simp add: vesting_inv_def share_range_def vesting_balance_def)
next
  fix v t0 t x
  assume "vesting_inv v t0" "t0 \<le> t" "is_time t" "0 \<le> amount x" "is_withdraw_allowed S v t x = Inr True"
  from withdraw_keeps [OF assms this] show "\<exists>v'. withdraw S t x v = Inr v' \<and> vesting_inv v' t \<and>
      vesting_balance v' = vesting_balance v - amount x"
    by (auto simp: vesting_balance_def mk_asset_def)
qed

interpretation vbo: vesting_contract vesting_inv vesting_balance "is_withdraw_allowed safe_int64" "withdraw safe_int64"
  by (rule vesting_object_contract [OF safe_int64_exact safe_int64_total])

section \<open>Properties\<close>

text \<open>The check and the withdrawal of \<open>vesting_balance_withdraw_evaluator\<close>, one after the other.\<close>

fun withdraw_all :: "safe \<Rightarrow> (int \<times> asset) list \<Rightarrow> vesting_balance_object \<Rightarrow> vesting_balance_object result" where
  "withdraw_all S [] v = Inr v"
| "withdraw_all S ((t, x) # ws) v =
     rbind (is_withdraw_allowed S v t x) (\<lambda>ok. fc_assert ok (rbind (withdraw S t x v) (withdraw_all S ws)))"

lemma withdraw_all_run:
  assumes "safe_exact S" "safe_total S"
  shows "withdraw_all S ws v = vesting_contract.run (is_withdraw_allowed S) (withdraw S) ws v"
proof (induction ws arbitrary: v)
  case Nil
  then show ?case by (simp add: vesting_contract.run.simps [OF vesting_object_contract [OF assms]])
next
  case (Cons w ws)
  then show ?case
    by (cases w) (simp add: vesting_contract.run.simps [OF vesting_object_contract [OF assms]] fc_assert_def cong: rbind_cong)
qed

text \<open>
  What an object entitles to in all until a time: with the linear policy what has vested of the initial balance, less what has
  been paid and with what has been deposited since; with coin days what the coin-seconds pay for that it has and can still earn.
\<close>

definition entitled :: "vesting_balance_object \<Rightarrow> int \<Rightarrow> int" where
  "entitled v t =
     (case policy v of
        Linear p \<Rightarrow> vested p t + (amount (balance v) - begin_balance p)
      | Cdd p \<Rightarrow> (coin_seconds_earned p + amount (balance v) * (t - coin_seconds_earned_last_update p)) div max (vesting_seconds p) 1)"

lemma entitled_nonneg: "vesting_inv v t \<Longrightarrow> 0 \<le> entitled v t"
  by (auto simp: entitled_def vesting_inv_def share_range_def pos_imp_zdiv_nonneg_iff split: vesting_policy.splits)

lemma withdraw_entitled:
  assumes inv: "vesting_inv v t0" and t: "t0 \<le> t" "is_time t" "t \<le> u" and x: "0 \<le> amount x"
    and ok: "is_withdraw_allowed S v t x = Inr True" and w: "withdraw S t x v = Inr v'"
    and b: "amount (balance v') = amount (balance v) - amount x"
  shows "entitled v' u + amount x \<le> entitled v u"
proof (cases "policy v")
  case (Linear p)
  with w have "policy v' = Linear p" by (auto simp: withdraw_def Let_def res_simps)
  with Linear b show ?thesis by (simp add: entitled_def)
next
  case (Cdd p)
  let ?m = "max (vesting_seconds p) 1" and ?b = "amount (balance v)"
  let ?e = "coin_seconds_earned p + ?b * (u - coin_seconds_earned_last_update p)"
  from w Cdd have p: "policy v' = Cdd (cdd_on_withdraw (context_of v t x) p)" by (auto simp: withdraw_def Let_def res_simps)
  note c = cdd_withdrawn [OF inv Cdd t(1,2) ok x]
  have "compute_coin_seconds_earned p (context_of v t x) \<le> coin_seconds_earned p + ?b * (t - coin_seconds_earned_last_update p)"
    using compute_exact [OF inv Cdd t(2,1), of x] by simp
  moreover have "(?b - amount x) * (u - t) \<le> ?b * (u - t)" using x t(3) by (intro mult_right_mono) simp_all
  moreover have "?b * (t - coin_seconds_earned_last_update p) + ?b * (u - t) = ?b * (u - coin_seconds_earned_last_update p)"
    by (simp add: algebra_simps)
  ultimately have "coin_seconds_earned (cdd_on_withdraw (context_of v t x) p) + (?b - amount x) * (u - t) \<le> ?e + - amount x * ?m"
    using c(2) by simp
  then have "(coin_seconds_earned (cdd_on_withdraw (context_of v t x) p) + (?b - amount x) * (u - t)) div ?m \<le> (?e + - amount x * ?m) div ?m"
    by (intro zdiv_mono1) simp_all
  also have "(?e + - amount x * ?m) div ?m = ?e div ?m - amount x"
    using div_mult_self1 [of ?m ?e "- amount x"] by simp
  finally show ?thesis using c(3,4) by (simp add: entitled_def p Cdd b)
qed

lemma withdrawals_entitled:
  assumes S: "safe_exact S" "safe_total S"
  shows "vesting_inv v t0 \<Longrightarrow> sorted (t0 # map fst ws) \<Longrightarrow> list_all (\<lambda>(t, x). is_time t \<and> 0 \<le> amount x) ws \<Longrightarrow>
    withdraw_all S ws v = Inr v' \<Longrightarrow> (\<Sum>(t, x)\<leftarrow>ws. amount x) \<le> entitled v (last (t0 # map fst ws))"
proof (induction ws arbitrary: v t0)
  case Nil
  then show ?case by (simp add: entitled_nonneg)
next
  case (Cons w ws)
  obtain t x where w: "w = (t, x)" by (cases w)
  from Cons.prems(4) w have ok: "is_withdraw_allowed S v t x = Inr True" by (auto simp: res_simps)
  have t: "t0 \<le> t" "is_time t" "0 \<le> amount x" "sorted (t # map fst ws)" using Cons.prems(2,3) w by auto
  from withdraw_keeps [OF S Cons.prems(1) t(1-3) ok] obtain v1 where
    v1: "withdraw S t x v = Inr v1" "vesting_inv v1 t" "amount (balance v1) = amount (balance v) - amount x" by (auto simp: mk_asset_def)
  with Cons.prems(4) w have "withdraw_all S ws v1 = Inr v'" by (auto simp: res_simps)
  from Cons.IH [OF v1(2) t(4) _ this] Cons.prems(3) have i: "(\<Sum>(t, x)\<leftarrow>ws. amount x) \<le> entitled v1 (last (t # map fst ws))" by simp
  have "last (t # map fst ws) \<in> set (t # map fst ws)" by (rule last_in_set) simp
  with t(4) have "t \<le> last (t # map fst ws)" by (auto simp del: last.simps)
  from withdraw_entitled [OF Cons.prems(1) t(1,2) this t(3) ok v1(1,3)] i show ?case by (simp add: w)
qed

text \<open>
  C21: Withdrawals are bounded by what has vested. Whatever withdrawals a vesting balance permits over time, each checked by
  \<open>is_withdraw_allowed\<close>, together they take no more than it entitles to by the time of the last: with a linear policy what has vested of
  the initial balance by then, with deposits made since it was set up and less what was paid before; with coin days what the coin-seconds
  pay for that were there and that the balance earned. Nor do they take more than the balance, and nothing wraps around.
\<close>

theorem vesting_withdrawals_bounded:
  assumes "safe_exact S" and "safe_total S" and "vesting_inv v t0"
    and "sorted (t0 # map fst ws)" and "list_all (\<lambda>(t, x). is_time t \<and> 0 \<le> amount x) ws"
    and "withdraw_all S ws v = Inr v'"
  shows "amount (balance v') = amount (balance v) - (\<Sum>(t, x)\<leftarrow>ws. amount x) \<and>
    (\<Sum>(t, x)\<leftarrow>ws. amount x) \<le> entitled v (last (t0 # map fst ws)) \<and>
    (\<Sum>(t, x)\<leftarrow>ws. amount x) \<le> amount (balance v) \<and> vesting_inv v' (last (t0 # map fst ws))"
  using vesting_contract.run_sum [OF vesting_object_contract [OF assms(1,2)] assms(3-5)] withdrawals_entitled [OF assms] assms(6)
  by (simp add: withdraw_all_run [OF assms(1,2)] vesting_balance_def)

definition vesting_example :: vesting_balance_object where
  "vesting_example = \<lparr>vb_owner = 7, balance = mk_asset 1000 0,
     policy = Linear \<lparr>begin_timestamp = 100, vesting_cliff_seconds = 10, vesting_duration_seconds = 40,
       begin_balance = 1000\<rparr>\<rparr>"

theorem vesting_withdrawals_bounded_witness:
  "\<exists>v'. withdraw_all safe_int64 [(110, mk_asset 250 0), (150, mk_asset 700 0)] vesting_example = Inr v' \<and>
     amount (balance v') = 50"
proof -
  have "succeeds (withdraw_all safe_int64 [(110, mk_asset 250 0), (150, mk_asset 700 0)] vesting_example)"
    by (simp add: vesting_example_def is_withdraw_allowed_def linear_is_withdraw_allowed_def
        linear_get_allowed_withdraw_def context_of_def withdraw_def asset_sub_def asset_le_def asset_less_def
        mk_asset_def Let_def safe_int64_def in_int64_def to_int64_def succeeds_def)
  then obtain v' where v': "withdraw_all safe_int64 [(110, mk_asset 250 0), (150, mk_asset 700 0)] vesting_example = Inr v'"
    unfolding succeeds_iff ..
  have "vesting_inv vesting_example 100"
    by (simp add: vesting_example_def vesting_inv_def is_time_def share_range_def mk_asset_def
        GRAPHENE_MAX_SHARE_SUPPLY_def vested_def)
  from vesting_withdrawals_bounded [OF safe_int64_exact safe_int64_total this _ _ v'] v' show ?thesis
    by (simp add: is_time_def mk_asset_def vesting_example_def)
qed

text \<open>
  A permitted deposit succeeds, adds exactly its amount and keeps the invariant. This
  includes the linear policy, whose comment says that new funds may not be added to it.
\<close>

theorem vesting_deposit_ok:
  assumes "safe_exact S" and "safe_total S" and "vesting_inv v t0" and "t0 \<le> t" and "is_time t"
    and "0 \<le> amount x" and "is_deposit_allowed S v t x = Inr True"
  shows "\<exists>v'. deposit S t x v = Inr v' \<and> vesting_inv v' t \<and>
    balance v' = mk_asset (amount (balance v) + amount x) (asset_id (balance v))"
  using deposit_keeps [OF assms] by blast

theorem vesting_deposit_ok_witness:
  "\<exists>v'. is_deposit_allowed safe_int64 vesting_example 105 (mk_asset 20 0) = Inr True \<and>
     deposit safe_int64 105 (mk_asset 20 0) vesting_example = Inr v' \<and> balance v' = mk_asset 1020 0"
proof -
  have i: "vesting_inv vesting_example 100"
    by (simp add: vesting_example_def vesting_inv_def is_time_def share_range_def mk_asset_def
        GRAPHENE_MAX_SHARE_SUPPLY_def vested_def)
  have a: "is_deposit_allowed safe_int64 vesting_example 105 (mk_asset 20 0) = Inr True"
    by (simp add: vesting_example_def is_deposit_allowed_def linear_is_deposit_allowed_def context_of_def
        mk_asset_def sum_below_max_shares_def safe_int64_def in_int64_def GRAPHENE_MAX_SHARE_SUPPLY_def)
  from vesting_deposit_ok [OF safe_int64_exact safe_int64_total i _ _ _ a] a show ?thesis
    by (auto simp: is_time_def mk_asset_def vesting_example_def)
qed

end
