(* ===== verification/Block.thy ===== *)
theory Block
  imports Prelude "HOL-Library.Countable"
begin

text \<open>
  Blocks of \<open>libraries/chain/protocol\<close> (\<open>block.hpp\<close>, \<open>block.cpp\<close>): the header and its
  transactions, the id with the block number stored in its first word, and the Merkle
  root of the transactions. A block id is the pair of that number and the rest of the
  hash; the hash functions are parameters.
\<close>

section \<open>Blocks and their ids\<close>

type_synonym block_id = "nat \<times> nat"

record 't signed_block =
  previous :: block_id
  timestamp :: nat
  miner :: nat
  transaction_merkle_root :: nat
  miner_signature :: nat
  transactions :: "'t list"

definition null_block_id :: block_id where
  "null_block_id = (0, 0)"

definition num_from_id :: "block_id \<Rightarrow> nat" where
  "num_from_id i = fst i"

definition block_num :: "'t signed_block \<Rightarrow> nat" where
  "block_num b = (num_from_id (previous b) + 1) mod 2 ^ 32"

definition id_of :: "('t signed_block \<Rightarrow> nat) \<Rightarrow> 't signed_block \<Rightarrow> block_id" where
  "id_of H b = (block_num b, H b)"

section \<open>The Merkle root\<close>

text \<open>
  The inner loop overwrites the front of the array while it reads pairs further back;
  \<open>i\<close> is where it reads and \<open>k\<close> where it writes. \<open>hash_pair\<close> is the digest of a pair.
\<close>

function merkle_pairs :: "('d \<Rightarrow> 'd \<Rightarrow> 'd) \<Rightarrow> nat \<Rightarrow> nat \<Rightarrow> nat \<Rightarrow> 'd list \<Rightarrow> nat \<times> 'd list" where
  "merkle_pairs hash_pair i_max i k ids =
     (if i < i_max
      then merkle_pairs hash_pair i_max (i + 2) (k + 1) (ids[k := hash_pair (ids ! i) (ids ! (i + 1))])
      else (k, ids))"
  by pat_completeness auto
termination
  by (relation "measure (\<lambda>(h, i_max, i, k, ids). i_max - i)") auto

declare merkle_pairs.simps [simp del]

lemma merkle_pairs_count: "fst (merkle_pairs h i_max i k ids) = k + (i_max - i + 1) div 2"
proof (induction h i_max i k ids rule: merkle_pairs.induct)
  case (1 h i_max i k ids)
  show ?case
  proof (cases "i < i_max")
    case True
    moreover from True have "k + 1 + (i_max - (i + 2) + 1) div 2 = k + (i_max - i + 1) div 2"
      by presburger
    ultimately show ?thesis using 1 [OF True] by (simp add: merkle_pairs.simps [of h i_max i])
  next
    case False
    then show ?thesis by (subst merkle_pairs.simps) simp
  qed
qed

function merkle_loop :: "('d \<Rightarrow> 'd \<Rightarrow> 'd) \<Rightarrow> nat \<Rightarrow> 'd list \<Rightarrow> 'd list" where
  "merkle_loop hash_pair n ids =
     (if n > 1 then
        let i_max = (n - n mod 2) mod 2 ^ 32;
            (k, ids1) = merkle_pairs hash_pair i_max 0 0 ids
        in if n mod 2 = 1 then merkle_loop hash_pair (k + 1) (ids1[k := ids1 ! i_max])
           else merkle_loop hash_pair k ids1
      else ids)"
  by pat_completeness auto
termination
proof (relation "measure (\<lambda>(h, n, ids). n)", goal_cases)
  case 1
  then show ?case by simp
next
  case (2 h n ids i_max p k ids1)
  then have "k = (i_max + 1) div 2" using merkle_pairs_count [of h i_max 0 0 ids] by (metis fst_conv add_0 diff_zero)
  moreover have "i_max \<le> n - 1" using 2 by (metis mod_less_eq_dividend)
  moreover have "even i_max"
    using 2(2) by (metis dvd_mod even_numeral even_power dvd_minus_mod zero_less_numeral)
  ultimately have "k \<le> (n - 1) div 2" by (auto elim!: evenE)
  moreover from 2(1) have "(n - 1) div 2 + 1 < n + n mod 2" by presburger
  ultimately show ?case using 2(1,5) by simp
next
  case (3 h n ids i_max p k ids1)
  then have "k = (i_max + 1) div 2" using merkle_pairs_count [of h i_max 0 0 ids] by (metis fst_conv add_0 diff_zero)
  moreover have "i_max \<le> n" using 3(2) by (metis mod_less_eq_dividend diff_le_self le_trans)
  ultimately have "k \<le> (n + 1) div 2" by (simp add: div_le_mono)
  then have "k < n" using 3(1,5) by presburger
  then show ?case by simp
qed

declare merkle_loop.simps [simp del]

definition calculate_merkle_root ::
  "('t \<Rightarrow> 'd) \<Rightarrow> ('d \<Rightarrow> 'd \<Rightarrow> 'd) \<Rightarrow> ('d \<Rightarrow> nat) \<Rightarrow> 't signed_block \<Rightarrow> nat" where
  "calculate_merkle_root merkle_digest hash_pair checksum b =
     (if length (transactions b) = 0 then 0
      else let ids = map merkle_digest (transactions b)
           in checksum (merkle_loop hash_pair (length ids) ids ! 0))"

section \<open>The root as a tree\<close>

fun pair_up :: "('d \<Rightarrow> 'd \<Rightarrow> 'd) \<Rightarrow> 'd list \<Rightarrow> 'd list" where
  "pair_up h (x # y # zs) = h x y # pair_up h zs"
| "pair_up h [x] = [x]"
| "pair_up h [] = []"

lemma length_pair_up: "length (pair_up h xs) = (length xs + 1) div 2"
  by (induction h xs rule: pair_up.induct) auto

function tree_root :: "('d \<Rightarrow> 'd \<Rightarrow> 'd) \<Rightarrow> 'd list \<Rightarrow> 'd" where
  "tree_root h xs = (if length xs \<le> 1 then hd xs else tree_root h (pair_up h xs))"
  by pat_completeness auto
termination
  by (relation "measure (\<lambda>(h, xs). length xs)") (auto simp: length_pair_up)

declare tree_root.simps [simp del]

text \<open>Writing stays behind reading: after the inner loop the front holds the paired digests.\<close>

lemma merkle_pairs_spec:
  assumes "k \<le> i" "even i" "even i_max" "i_max \<le> length ids" "i \<le> i_max"
  shows "take k ids @ pair_up h (take (i_max - i) (drop i ids)) =
      take (k + (i_max - i) div 2) (snd (merkle_pairs h i_max i k ids)) \<and>
    drop i_max (snd (merkle_pairs h i_max i k ids)) = drop i_max ids \<and>
    length (snd (merkle_pairs h i_max i k ids)) = length ids \<and>
    fst (merkle_pairs h i_max i k ids) = k + (i_max - i) div 2"
  using assms
proof (induction h i_max i k ids rule: merkle_pairs.induct)
  case (1 h i_max i k ids)
  show ?case
  proof (cases "i < i_max")
    case False
    with 1(6) have "i = i_max" by simp
    then show ?thesis by (subst (1 2 3 4) merkle_pairs.simps) simp
  next
    case True
    let ?x = "h (ids ! i) (ids ! (i + 1))"
    from True 1(3,4) have i2: "i + 2 \<le> i_max" by presburger
    with 1(5) have l: "i + 1 < length ids" by simp
    have m: "merkle_pairs h i_max i k ids = merkle_pairs h i_max (i + 2) (k + 1) (ids[k := ?x])"
      using True by (subst merkle_pairs.simps) simp
    from 1(1) [OF True] 1(2-6) i2
    have IH: "take (k + 1) (ids[k := ?x]) @ pair_up h (take (i_max - (i + 2)) (drop (i + 2) (ids[k := ?x]))) =
        take (k + 1 + (i_max - (i + 2)) div 2) (snd (merkle_pairs h i_max i k ids))"
      "drop i_max (snd (merkle_pairs h i_max i k ids)) = drop i_max (ids[k := ?x])"
      "length (snd (merkle_pairs h i_max i k ids)) = length ids"
      "fst (merkle_pairs h i_max i k ids) = k + 1 + (i_max - (i + 2)) div 2"
      unfolding m by simp_all
    have "k < length ids" using l 1(2) by simp
    then have t: "take (k + 1) (ids[k := ?x]) = take k ids @ [?x]"
      by (simp add: take_Suc_conv_app_nth)
    have d: "drop (i + 2) (ids[k := ?x]) = drop (i + 2) ids" "drop i_max (ids[k := ?x]) = drop i_max ids"
      using 1(2) i2 by simp_all
    have "take (i_max - i) (drop i ids) = ids ! i # ids ! (i + 1) # take (i_max - (i + 2)) (drop (i + 2) ids)"
    proof -
      have "drop i ids = ids ! i # ids ! (i + 1) # drop (i + 2) ids"
        using l Cons_nth_drop_Suc [of i ids] Cons_nth_drop_Suc [of "i + 1" ids] by simp
      moreover have "i_max - i = Suc (Suc (i_max - (i + 2)))" using i2 by simp
      ultimately show ?thesis by simp
    qed
    moreover have "k + 1 + (i_max - (i + 2)) div 2 = k + (i_max - i) div 2"
      using i2 by presburger
    ultimately have e: "take (i_max - i) (drop i ids) = ids ! i # ids ! (i + 1) # take (i_max - (i + 2)) (drop (i + 2) ids)"
      "k + (i_max - i) div 2 = k + 1 + (i_max - (i + 2)) div 2" by simp_all
    show ?thesis unfolding e using IH unfolding t d by simp
  qed
qed

lemma pair_up_append:
  "even (length xs) \<Longrightarrow> pair_up h (xs @ ys) = pair_up h xs @ pair_up h ys"
  by (induction h xs rule: pair_up.induct) auto

text \<open>One round of the outer loop pairs up the live front of the array.\<close>

lemma merkle_round:
  assumes n: "1 < n" "n \<le> length ids" "n < 2 ^ 32"
    and p: "merkle_pairs h (n - n mod 2) 0 0 ids = (k, ids1)"
  shows "k = n div 2" "length ids1 = length ids"
    "even n \<Longrightarrow> take k ids1 = pair_up h (take n ids)"
    "odd n \<Longrightarrow> take (k + 1) (ids1[k := ids1 ! (n - 1)]) = pair_up h (take n ids)"
proof -
  let ?m = "n - n mod 2"
  have m: "even ?m" "?m \<le> length ids" "?m div 2 = n div 2" using n by (simp_all add: dvd_minus_mod) presburger
  from merkle_pairs_spec [of 0 0 ?m ids h] m p
  have s: "pair_up h (take ?m ids) = take (n div 2) ids1" "drop ?m ids1 = drop ?m ids"
    "length ids1 = length ids" "k = n div 2" by simp_all
  show "k = n div 2" "length ids1 = length ids" by (fact s)+
  show "take k ids1 = pair_up h (take n ids)" if "even n" using that s by simp
  show "take (k + 1) (ids1[k := ids1 ! (n - 1)]) = pair_up h (take n ids)" if "odd n"
  proof -
    from that have nm: "?m = n - 1" by presburger
    have "ids1 ! (n - 1) = ids ! (n - 1)"
      using s(2) n by (metis Suc_pred' hd_drop_conv_nth nm le_less_trans s(3) Suc_le_eq less_imp_le_nat
          gr0_conv_Suc less_trans not_less_eq zero_less_one)
    moreover have "k < length ids1" using n s(3,4) by simp
    moreover have "take n ids = take (n - 1) ids @ [ids ! (n - 1)]"
      using n by (metis Suc_pred' take_Suc_conv_app_nth Suc_le_eq less_trans zero_less_one)
    moreover have "even (length (take (n - 1) ids))" using n(2) that by (simp add: min_absorb2)
    ultimately show ?thesis
      using s(1,4) nm by (simp add: take_Suc_conv_app_nth pair_up_append)
  qed
qed

lemma merkle_loop_root:
  "0 < n \<Longrightarrow> n \<le> length ids \<Longrightarrow> n < 2 ^ 32 \<Longrightarrow>
    merkle_loop h n ids ! 0 = tree_root h (take n ids)"
proof (induction n arbitrary: ids rule: less_induct)
  case (less n)
  show ?case
  proof (cases "n > 1")
    case False
    with less.prems have "n = 1" by simp
    with less.prems show ?thesis
      by (cases ids) (simp_all add: merkle_loop.simps [of h "Suc 0"] tree_root.simps)
  next
    case True
    let ?m = "n - n mod 2"
    obtain k ids1 where p: "merkle_pairs h ?m 0 0 ids = (k, ids1)" by fastforce
    note r = merkle_round [OF True less.prems(2,3) p]
    have im: "?m mod 2 ^ 32 = ?m" using less.prems(3) by simp
    have t: "tree_root h (take n ids) = tree_root h (pair_up h (take n ids))"
      using True less.prems by (subst tree_root.simps) simp
    show ?thesis
    proof (cases "odd n")
      case True
      then have "merkle_loop h n ids = merkle_loop h (k + 1) (ids1[k := ids1 ! (n - 1)])"
        using \<open>n > 1\<close> p im by (subst merkle_loop.simps) (simp add: odd_iff_mod_2_eq_one)
      moreover have "k + 1 < n" using r(1) \<open>n > 1\<close> True by presburger
      ultimately show ?thesis
        using less.IH [of "k + 1" "ids1[k := ids1 ! (n - 1)]"] r(2) r(4) [OF True] less.prems t by simp
    next
      case False
      then have "merkle_loop h n ids = merkle_loop h k ids1"
        using \<open>n > 1\<close> p im by (subst merkle_loop.simps) (simp add: even_iff_mod_2_eq_zero)
      moreover have "k < n" "0 < k" using r(1) \<open>n > 1\<close> by simp_all
      ultimately show ?thesis
        using less.IH [of k ids1] r(2) r(3) False less.prems t by simp
    qed
  qed
qed

lemma inj_pair_eq: "inj (case_prod h) \<Longrightarrow> h a b = h c d \<longleftrightarrow> a = c \<and> b = d"
  using inj_eq [of "case_prod h" "(a, b)" "(c, d)"] by simp

lemma pair_up_inj:
  assumes "inj (case_prod h)"
  shows "length xs = length ys \<Longrightarrow> pair_up h xs = pair_up h ys \<Longrightarrow> xs = ys"
proof (induction xs arbitrary: ys rule: induct_list012)
  case (3 x y zs)
  from 3(3) obtain u v ws where ys: "ys = u # v # ws" by (cases ys; cases "tl ys") auto
  with 3(4) inj_pair_eq [OF assms, of x y u v] have "x = u" "y = v" "pair_up h zs = pair_up h ws"
    by simp_all
  with 3(1) [of ws] 3(3) ys show ?case by simp
next
  case (2 x)
  then show ?case by (cases ys) auto
qed simp

lemma tree_root_inj:
  assumes "inj (case_prod h)"
  shows "length xs = length ys \<Longrightarrow> xs \<noteq> [] \<Longrightarrow> tree_root h xs = tree_root h ys \<Longrightarrow> xs = ys"
proof (induction "length xs" arbitrary: xs ys rule: less_induct)
  case less
  show ?case
  proof (cases "length xs \<le> 1")
    case True
    with less.prems show ?thesis
      by (cases xs; cases ys) (auto simp: tree_root.simps)
  next
    case False
    with less.prems have "tree_root h (pair_up h xs) = tree_root h (pair_up h ys)"
      by (simp add: tree_root.simps [of h xs] tree_root.simps [of h ys])
    moreover have "length (pair_up h xs) \<noteq> 0" using False by (simp add: length_pair_up)
    then have "pair_up h xs \<noteq> []" by auto
    ultimately have "pair_up h xs = pair_up h ys"
      using less.hyps [of "pair_up h xs" "pair_up h ys"] False less.prems(1) by (simp add: length_pair_up)
    with pair_up_inj [OF assms] less.prems(1) show ?thesis by blast
  qed
qed

lemma calculate_merkle_root_eq:
  "transactions b \<noteq> [] \<Longrightarrow> length (transactions b) < 2 ^ 32 \<Longrightarrow>
    calculate_merkle_root dig h checksum b = checksum (tree_root h (map dig (transactions b)))"
  using merkle_loop_root [of "length (transactions b)" "map dig (transactions b)" h]
  by (simp add: calculate_merkle_root_def)

text \<open>
  C26: The Merkle root computed in place equals the digest of the binary tree over the
  transactions' digests, an odd digest being carried up unhashed; the loop always ends.
\<close>

theorem merkle_root_tree:
  assumes "transactions b \<noteq> []" and "length (transactions b) < 2 ^ 32"
  shows "calculate_merkle_root merkle_digest hash_pair checksum b =
    checksum (tree_root hash_pair (map merkle_digest (transactions b)))"
  using assms by (rule calculate_merkle_root_eq)

definition three_transactions :: "int signed_block" where
  "three_transactions = \<lparr>previous = (4, 77), timestamp = 0, miner = 0, transaction_merkle_root = 0,
     miner_signature = 0, transactions = [10, 20, 30]\<rparr>"

theorem merkle_root_tree_witness:
  "calculate_merkle_root (\<lambda>t. t) (\<lambda>a b. 2 * a + 3 * b) nat three_transactions = 250"
proof -
  have "calculate_merkle_root (\<lambda>t. t) (\<lambda>a b. 2 * a + 3 * b) nat three_transactions =
    nat (tree_root (\<lambda>a b. 2 * a + 3 * b) (map (\<lambda>t. t) (transactions three_transactions)))"
    by (rule merkle_root_tree) (simp_all add: three_transactions_def)
  then show ?thesis by (simp add: three_transactions_def tree_root.simps)
qed

text \<open>
  C27: With injective hash functions the root binds the transactions: two blocks with the
  same number of transactions and the same root have the same transaction digests in the
  same order.
\<close>

theorem merkle_root_binding:
  assumes "inj (case_prod hash_pair)" and "inj checksum"
    and "length (transactions b) = length (transactions c)" and "length (transactions b) < 2 ^ 32"
    and "calculate_merkle_root dig hash_pair checksum b = calculate_merkle_root dig hash_pair checksum c"
  shows "map dig (transactions b) = map dig (transactions c)"
proof (cases "transactions b = []")
  case True
  with assms(3) show ?thesis by simp
next
  case False
  then have "tree_root hash_pair (map dig (transactions b)) = tree_root hash_pair (map dig (transactions c))"
    using assms(3-5) calculate_merkle_root_eq [of b dig hash_pair checksum]
      calculate_merkle_root_eq [of c dig hash_pair checksum] injD [OF assms(2)] by force
  with tree_root_inj [OF assms(1), of "map dig (transactions b)"] False assms(3) show ?thesis by simp
qed

datatype digest_tree = Leaf_digest nat | Pair_digest digest_tree digest_tree

fun tree_checksum :: "digest_tree \<Rightarrow> nat" where
  "tree_checksum (Leaf_digest n) = 2 * n"
| "tree_checksum (Pair_digest s t) = 2 * prod_encode (tree_checksum s, tree_checksum t) + 1"

lemma tree_checksum_eq: "tree_checksum s = tree_checksum t \<Longrightarrow> s = t"
proof (induction s arbitrary: t)
  case (Leaf_digest n)
  then show ?case by (cases t) (auto, presburger)
next
  case (Pair_digest u v)
  then show ?case by (cases t) (auto, presburger)
qed

theorem merkle_root_binding_witness:
  "\<exists>(b :: nat signed_block) c. length (transactions b) = 3 \<and>
     calculate_merkle_root Leaf_digest Pair_digest tree_checksum b = calculate_merkle_root Leaf_digest Pair_digest tree_checksum c \<and>
     map Leaf_digest (transactions b) = map Leaf_digest (transactions c)"
proof -
  let ?b = "\<lparr>previous = (4, 77), timestamp = 0, miner = 0, transaction_merkle_root = 0,
     miner_signature = 0, transactions = [1, 2, 3]\<rparr> :: nat signed_block"
  have "inj tree_checksum" by (rule injI) (rule tree_checksum_eq)
  moreover have "inj (case_prod Pair_digest)" by (auto simp: inj_def)
  moreover note merkle_root_binding [of Pair_digest tree_checksum ?b "?b\<lparr>timestamp := 5\<rparr>" Leaf_digest]
  ultimately have "map Leaf_digest (transactions ?b) = map Leaf_digest (transactions (?b\<lparr>timestamp := 5\<rparr>))"
    by (simp add: calculate_merkle_root_def)
  moreover have "length (transactions ?b) = 3" by simp
  ultimately show ?thesis by (intro exI [of _ ?b]) auto
qed

end
