(* ===== verification/Chain_State.thy ===== *)
theory Chain_State
  imports Object_Index Vesting Block
begin

text \<open>
  The state of the chain: the objects the evaluators and the maintenance code of
  \<open>libraries/chain\<close> read and write, one index per object type, and the two singleton
  property objects. Ids are instance numbers; an object's id is its key in the index.
  Times are seconds; keys, signatures, ciphertexts and proofs are numbers that nothing
  here computes with. A \<open>std::map\<close> is an association list ordered by key.
\<close>

section \<open>Ordered maps\<close>

definition map_emplace :: "nat \<Rightarrow> 'v \<Rightarrow> (nat \<times> 'v) list \<Rightarrow> (nat \<times> 'v) list" where
  "map_emplace k v m = (if map_of m k = None then ins_row k v m else m)"

definition map_assign :: "nat \<Rightarrow> 'v \<Rightarrow> (nat \<times> 'v) list \<Rightarrow> (nat \<times> 'v) list" where
  "map_assign k v m = (if map_of m k = None then ins_row k v m else upd_row k v m)"

lemma map_of_map_assign: "sorted_wrt (<) (map fst m) \<Longrightarrow> map_of (map_assign k v m) = (map_of m)(k \<mapsto> v)"
  by (auto simp: map_assign_def idx_simps fun_eq_iff)

section \<open>Accounts and balances\<close>

record authority =
  weight_threshold :: int
  account_auths :: "(nat \<times> int) list"
  key_auths :: "(nat \<times> int) list"

record publishing_rights =
  is_publishing_manager :: bool
  publishing_rights_received :: "nat set"
  publishing_rights_forwarded :: "nat list"

record account_options =
  memo_key :: nat
  voting_account :: nat
  num_miner :: nat
  votes :: "nat list"
  allow_subscription :: bool
  price_per_subscribe :: asset
  subscription_period :: int

record account_object =
  registrar :: nat
  acc_name :: string
  acc_owner :: authority
  acc_active :: authority
  acc_options :: account_options
  rights_to_publish :: publishing_rights
  acc_statistics :: nat
  cashback_vb :: "nat option"
  top_n_control_flags :: int

record account_statistics_object =
  stat_owner :: nat
  total_core_in_orders :: int

record account_balance_object =
  bal_owner :: nat
  asset_type :: nat
  bal_amount :: int

section \<open>Assets\<close>

record asset_options =
  max_supply :: int
  opt_exchange_rate :: price
  is_exchangeable :: bool
  fixed_max_supply_ext :: "bool option"

record monitored_asset_options =
  feeds :: "(nat \<times> int \<times> price_feed) list"
  current_feed :: price_feed
  current_feed_publication_time :: int
  feed_lifetime_sec :: int
  minimum_feeds :: int

record asset_object =
  symbol :: string
  precision :: nat
  issuer :: nat
  description :: string
  monitored_asset_opts :: "monitored_asset_options option"
  asset_opts :: asset_options
  dynamic_asset_data_id :: nat

record asset_dynamic_data_object =
  current_supply :: int
  asset_pool :: int
  core_pool :: int

definition is_monitored_asset :: "asset_object \<Rightarrow> bool" where
  "is_monitored_asset ao = (monitored_asset_opts ao \<noteq> None)"

section \<open>Content distribution\<close>

record content_object =
  author :: nat
  co_authors :: "(nat \<times> int) list"
  expiration :: int
  created :: int
  map_price :: "(nat \<times> asset) list"
  synopsis :: string
  content_size :: int
  quorum :: int
  URI :: string
  key_parts :: "(nat \<times> nat) list"
  last_proof :: "(nat \<times> int) list"
  seeder_price :: "(nat \<times> int) list"
  is_blocked :: bool
  content_hash :: nat
  AVG_rating :: int
  num_of_ratings :: int
  times_bought :: int
  publishing_fee_escrow :: asset
  cd :: "nat option"

record buying_object =
  consumer :: nat
  buy_URI :: string
  buy_size :: int
  rating :: int
  comment :: string
  escrow_price :: asset
  paid_price_before_exchange :: asset
  paid_price_after_exchange :: asset
  buy_synopsis :: string
  seeders_answered :: "nat list"
  key_particles :: "nat list"
  buy_pubKey :: nat
  expiration_time :: int
  expired :: bool
  delivered :: bool
  expiration_or_delivery_time :: int
  rated_or_commented :: bool
  buy_created :: int
  region_code_from :: nat

record seeder_object =
  seeder :: nat
  free_space :: int
  seeding_price :: asset
  seeder_expiration :: int
  seeder_pubKey :: nat
  ipfs_ID :: string
  stats :: nat
  seeder_rating :: int
  region_code :: string

record seeding_statistics_object =
  stats_seeder :: nat
  total_upload :: int
  missed_delivered_keys :: int
  total_delivered_keys :: int
  total_content_seeded :: int
  num_of_content_seeded :: int
  total_content_requested_to_seed :: int
  num_of_pors :: int
  uploaded_till_last_maint :: int
  avg_buying_ratio :: int
  seeding_rel_ratio :: int
  seeding_abs_ratio :: int
  missed_ratio :: int

record subscription_object =
  sub_from :: nat
  sub_to :: nat
  sub_expiration :: int
  automatic_renewal :: bool

datatype transaction_type = td_transfer | td_account_create | td_content_submit | td_content_buy | td_content_rate | td_subscription

record transaction_detail_object =
  m_from_account :: nat
  m_to_account :: nat
  m_operation_type :: transaction_type
  m_transaction_amount :: asset
  m_transaction_fee :: asset
  m_str_description :: string
  m_timestamp :: int

section \<open>Miners, permissions, global properties\<close>

record miner_object =
  miner_account :: nat
  last_aslot :: int
  signing_key :: nat
  pay_vb :: "nat option"
  vote_id :: nat
  total_votes :: int
  url :: string
  total_missed :: int
  last_confirmed_block_num :: int

record withdraw_permission_object =
  withdraw_from_account :: nat
  authorized_account :: nat
  withdrawal_limit :: asset
  withdrawal_period_sec :: int
  period_start_time :: int
  perm_expiration :: int
  claimed_this_period :: int

text \<open>
  The fee schedule holds one set of parameters per kind of operation, keyed by the position of the
  operation in the variant; \<open>par_fee\<close> stands for the fields \<open>fee\<close> and \<open>basic_fee\<close>, and an operation
  whose parameters have no price per kilobyte ignores \<open>par_kbyte\<close>.
\<close>

record fee_parameters =
  par_fee :: int
  par_kbyte :: int

record fee_schedule =
  fee_table :: "(nat \<times> fee_parameters) list"
  fee_scale :: int

record chain_parameters =
  current_fees :: fee_schedule
  block_interval :: int
  maintenance_interval :: int
  maintenance_skip_slots :: int
  miner_proposal_review_period :: int
  maximum_transaction_size :: int
  maximum_block_size :: int
  maximum_time_until_expiration :: int
  maximum_proposal_lifetime :: int
  maximum_asset_feed_publishers :: int
  maximum_miner_count :: nat
  maximum_authority_membership :: nat
  cashback_vesting_period_seconds :: int
  cashback_vesting_threshold :: int
  miner_pay_vesting_seconds :: int
  max_predicate_opcode :: int
  max_authority_depth :: nat

record global_property_object =
  parameters :: chain_parameters
  pending_parameters :: "chain_parameters option"
  next_available_vote_id :: nat
  active_miners :: "nat list"

record dynamic_global_property_object =
  head_block_number :: int
  dyn_head_block_id :: block_id
  dyn_time :: int
  current_miner :: nat
  next_maintenance_time :: int
  last_budget_time :: int
  miner_budget_from_fees :: int
  unspent_fee_budget :: int
  mined_rewards :: int
  miner_budget_from_rewards :: int
  accounts_registered_this_interval :: int
  recently_missed_count :: int
  current_aslot :: int
  recent_slots_filled :: int
  dynamic_flags :: int
  last_irreversible_block_num :: int

section \<open>Schedule, budget records, transactions\<close>

record miner_schedule_object =
  current_shuffled_miners :: "nat list"

record immutable_chain_parameters =
  min_miner_count :: nat
  num_special_accounts :: nat
  num_special_assets :: nat

record real_supply =
  account_balances :: int
  vesting_balances :: int
  escrows :: int
  pools :: int

record budget_record =
  time_since_last_budget :: int
  from_initial_reserve :: int
  from_accumulated_fees :: int
  planned_for_mining :: int
  generated_in_last_interval :: int
  supply_delta :: int
  rec_real_supply :: real_supply
  rec_next_maintenance_time :: int
  rec_block_interval :: int

record budget_record_object =
  budget_time :: int
  budget_rec :: budget_record

record transaction_object =
  trx_id :: nat
  trx_expiration :: int

record block_summary_object =
  summary_block_id :: block_id

section \<open>The database\<close>

datatype virtual_operation =
    Return_escrow_buying nat asset nat
  | Return_escrow_submission nat asset nat
  | Finish_buying nat "(nat \<times> int) list" asset nat nat
  | Pay_seeder nat nat asset
  | Renewal_of_subscription nat nat
  | Disallow_automatic_renewal nat nat

record database =
  accounts :: "account_object index"
  account_stats :: "account_statistics_object index"
  balances :: "account_balance_object index"
  assets :: "asset_object index"
  dynamic_data :: "asset_dynamic_data_object index"
  vestings :: "vesting_balance_object index"
  contents :: "content_object index"
  buyings :: "buying_object index"
  seeders :: "seeder_object index"
  seeding_stats :: "seeding_statistics_object index"
  subscriptions :: "subscription_object index"
  details :: "transaction_detail_object index"
  miners :: "miner_object index"
  permissions :: "withdraw_permission_object index"
  gpo :: global_property_object
  dpo :: dynamic_global_property_object
  miner_schedule :: miner_schedule_object
  immutable_parameters :: immutable_chain_parameters
  budget_records :: "budget_record_object index"
  transaction_ids :: "transaction_object index"
  block_summaries :: "block_summary_object index"
  applied_ops :: "virtual_operation list"

text \<open>The unique keys of each index besides the id.\<close>

definition account_clash :: "account_object \<Rightarrow> account_object \<Rightarrow> bool" where
  "account_clash a b = (acc_name a = acc_name b)"

definition balance_clash :: "account_balance_object \<Rightarrow> account_balance_object \<Rightarrow> bool" where
  "balance_clash a b = (bal_owner a = bal_owner b \<and> asset_type a = asset_type b)"

definition asset_clash :: "asset_object \<Rightarrow> asset_object \<Rightarrow> bool" where
  "asset_clash a b = (symbol a = symbol b)"

definition content_clash :: "content_object \<Rightarrow> content_object \<Rightarrow> bool" where
  "content_clash a b = (URI a = URI b)"

definition buying_clash :: "buying_object \<Rightarrow> buying_object \<Rightarrow> bool" where
  "buying_clash a b = (buy_URI a = buy_URI b \<and> consumer a = consumer b)"

definition seeder_clash :: "seeder_object \<Rightarrow> seeder_object \<Rightarrow> bool" where
  "seeder_clash a b = (seeder a = seeder b)"

definition seeding_stats_clash :: "seeding_statistics_object \<Rightarrow> seeding_statistics_object \<Rightarrow> bool" where
  "seeding_stats_clash a b = (stats_seeder a = stats_seeder b)"

definition subscription_clash :: "subscription_object \<Rightarrow> subscription_object \<Rightarrow> bool" where
  "subscription_clash a b = (sub_from a = sub_from b \<and> sub_to a = sub_to b)"

definition miner_clash :: "miner_object \<Rightarrow> miner_object \<Rightarrow> bool" where
  "miner_clash a b = (miner_account a = miner_account b \<or> vote_id a = vote_id b)"

definition budget_clash :: "budget_record_object \<Rightarrow> budget_record_object \<Rightarrow> bool" where
  "budget_clash a b = (budget_time a = budget_time b)"

definition transaction_clash :: "transaction_object \<Rightarrow> transaction_object \<Rightarrow> bool" where
  "transaction_clash a b = (trx_id a = trx_id b)"

definition no_clash :: "'a \<Rightarrow> 'a \<Rightarrow> bool" where
  "no_clash a b = False"

text \<open>\<open>create\<close> and \<open>modify\<close> on each index.\<close>

definition create_balance :: "account_balance_object \<Rightarrow> database \<Rightarrow> database result" where
  "create_balance b db = rbind (idx_create balance_clash (balances db) (\<lambda>_. b)) (\<lambda>(i, t). Inr (db\<lparr>balances := t\<rparr>))"

definition modify_balance :: "nat \<Rightarrow> (account_balance_object \<Rightarrow> account_balance_object result) \<Rightarrow> database \<Rightarrow> database result" where
  "modify_balance i f db = rbind (idx_update balance_clash (balances db) i f) (\<lambda>t. Inr (db\<lparr>balances := t\<rparr>))"

definition modify_account :: "nat \<Rightarrow> (account_object \<Rightarrow> account_object) \<Rightarrow> database \<Rightarrow> database result" where
  "modify_account i f db = rbind (idx_update account_clash (accounts db) i (\<lambda>x. Inr (f x))) (\<lambda>t. Inr (db\<lparr>accounts := t\<rparr>))"

definition modify_dynamic_data :: "nat \<Rightarrow> (asset_dynamic_data_object \<Rightarrow> asset_dynamic_data_object result) \<Rightarrow> database \<Rightarrow> database result" where
  "modify_dynamic_data i f db = rbind (idx_update no_clash (dynamic_data db) i f) (\<lambda>t. Inr (db\<lparr>dynamic_data := t\<rparr>))"

definition modify_asset :: "nat \<Rightarrow> (asset_object \<Rightarrow> asset_object result) \<Rightarrow> database \<Rightarrow> database result" where
  "modify_asset i f db = rbind (idx_update asset_clash (assets db) i f) (\<lambda>t. Inr (db\<lparr>assets := t\<rparr>))"

definition create_vesting :: "vesting_balance_object \<Rightarrow> database \<Rightarrow> (nat \<times> database) result" where
  "create_vesting v db = rbind (idx_create no_clash (vestings db) (\<lambda>_. v)) (\<lambda>(i, t). Inr (i, db\<lparr>vestings := t\<rparr>))"

definition modify_vesting :: "nat \<Rightarrow> (vesting_balance_object \<Rightarrow> vesting_balance_object result) \<Rightarrow> database \<Rightarrow> database result" where
  "modify_vesting i f db = rbind (idx_update no_clash (vestings db) i f) (\<lambda>t. Inr (db\<lparr>vestings := t\<rparr>))"

definition modify_content :: "nat \<Rightarrow> (content_object \<Rightarrow> content_object result) \<Rightarrow> database \<Rightarrow> database result" where
  "modify_content i f db = rbind (idx_update content_clash (contents db) i f) (\<lambda>t. Inr (db\<lparr>contents := t\<rparr>))"

definition create_content :: "content_object \<Rightarrow> database \<Rightarrow> (nat \<times> database) result" where
  "create_content c db = rbind (idx_create content_clash (contents db) (\<lambda>_. c)) (\<lambda>(i, t). Inr (i, db\<lparr>contents := t\<rparr>))"

definition create_buying :: "buying_object \<Rightarrow> database \<Rightarrow> (nat \<times> database) result" where
  "create_buying b db = rbind (idx_create buying_clash (buyings db) (\<lambda>_. b)) (\<lambda>(i, t). Inr (i, db\<lparr>buyings := t\<rparr>))"

definition modify_buying :: "nat \<Rightarrow> (buying_object \<Rightarrow> buying_object) \<Rightarrow> database \<Rightarrow> database result" where
  "modify_buying i f db = rbind (idx_update buying_clash (buyings db) i (\<lambda>x. Inr (f x))) (\<lambda>t. Inr (db\<lparr>buyings := t\<rparr>))"

definition create_seeder :: "seeder_object \<Rightarrow> database \<Rightarrow> database result" where
  "create_seeder s db = rbind (idx_create seeder_clash (seeders db) (\<lambda>_. s)) (\<lambda>(i, t). Inr (db\<lparr>seeders := t\<rparr>))"

definition modify_seeder :: "nat \<Rightarrow> (seeder_object \<Rightarrow> seeder_object) \<Rightarrow> database \<Rightarrow> database result" where
  "modify_seeder i f db = rbind (idx_update seeder_clash (seeders db) i (\<lambda>x. Inr (f x))) (\<lambda>t. Inr (db\<lparr>seeders := t\<rparr>))"

definition create_stats :: "seeding_statistics_object \<Rightarrow> database \<Rightarrow> (nat \<times> database) result" where
  "create_stats s db = rbind (idx_create seeding_stats_clash (seeding_stats db) (\<lambda>_. s)) (\<lambda>(i, t). Inr (i, db\<lparr>seeding_stats := t\<rparr>))"

definition modify_stats :: "nat \<Rightarrow> (seeding_statistics_object \<Rightarrow> seeding_statistics_object result) \<Rightarrow> database \<Rightarrow> database result" where
  "modify_stats i f db = rbind (idx_update seeding_stats_clash (seeding_stats db) i f) (\<lambda>t. Inr (db\<lparr>seeding_stats := t\<rparr>))"

definition create_subscription :: "subscription_object \<Rightarrow> database \<Rightarrow> database result" where
  "create_subscription s db = rbind (idx_create subscription_clash (subscriptions db) (\<lambda>_. s)) (\<lambda>(i, t). Inr (db\<lparr>subscriptions := t\<rparr>))"

definition modify_subscription :: "nat \<Rightarrow> (subscription_object \<Rightarrow> subscription_object) \<Rightarrow> database \<Rightarrow> database result" where
  "modify_subscription i f db = rbind (idx_update subscription_clash (subscriptions db) i (\<lambda>x. Inr (f x))) (\<lambda>t. Inr (db\<lparr>subscriptions := t\<rparr>))"

definition create_detail :: "transaction_detail_object \<Rightarrow> database \<Rightarrow> database result" where
  "create_detail d db = rbind (idx_create no_clash (details db) (\<lambda>_. d)) (\<lambda>(i, t). Inr (db\<lparr>details := t\<rparr>))"

definition modify_detail :: "nat \<Rightarrow> (transaction_detail_object \<Rightarrow> transaction_detail_object) \<Rightarrow> database \<Rightarrow> database result" where
  "modify_detail i f db = rbind (idx_update no_clash (details db) i (\<lambda>x. Inr (f x))) (\<lambda>t. Inr (db\<lparr>details := t\<rparr>))"

definition modify_miner :: "nat \<Rightarrow> (miner_object \<Rightarrow> miner_object) \<Rightarrow> database \<Rightarrow> database result" where
  "modify_miner i f db = rbind (idx_update miner_clash (miners db) i (\<lambda>x. Inr (f x))) (\<lambda>t. Inr (db\<lparr>miners := t\<rparr>))"

definition modify_permission :: "nat \<Rightarrow> (withdraw_permission_object \<Rightarrow> withdraw_permission_object result) \<Rightarrow> database \<Rightarrow> database result" where
  "modify_permission i f db = rbind (idx_update no_clash (permissions db) i f) (\<lambda>t. Inr (db\<lparr>permissions := t\<rparr>))"

definition create_budget_record :: "budget_record_object \<Rightarrow> database \<Rightarrow> database result" where
  "create_budget_record b db = rbind (idx_create budget_clash (budget_records db) (\<lambda>_. b)) (\<lambda>(i, t). Inr (db\<lparr>budget_records := t\<rparr>))"

definition create_transaction :: "transaction_object \<Rightarrow> database \<Rightarrow> database result" where
  "create_transaction x db = rbind (idx_create transaction_clash (transaction_ids db) (\<lambda>_. x)) (\<lambda>(i, t). Inr (db\<lparr>transaction_ids := t\<rparr>))"

definition create_account :: "account_object \<Rightarrow> database \<Rightarrow> (nat \<times> database) result" where
  "create_account x db = rbind (idx_create account_clash (accounts db) (\<lambda>_. x)) (\<lambda>(i, t). Inr (i, db\<lparr>accounts := t\<rparr>))"

definition create_account_stats :: "account_statistics_object \<Rightarrow> database \<Rightarrow> (nat \<times> database) result" where
  "create_account_stats x db = rbind (idx_create no_clash (account_stats db) (\<lambda>_. x)) (\<lambda>(i, t). Inr (i, db\<lparr>account_stats := t\<rparr>))"

definition create_asset :: "asset_object \<Rightarrow> database \<Rightarrow> (nat \<times> database) result" where
  "create_asset x db = rbind (idx_create asset_clash (assets db) (\<lambda>_. x)) (\<lambda>(i, t). Inr (i, db\<lparr>assets := t\<rparr>))"

definition create_dynamic_data :: "asset_dynamic_data_object \<Rightarrow> database \<Rightarrow> (nat \<times> database) result" where
  "create_dynamic_data x db = rbind (idx_create no_clash (dynamic_data db) (\<lambda>_. x)) (\<lambda>(i, t). Inr (i, db\<lparr>dynamic_data := t\<rparr>))"

definition create_miner :: "miner_object \<Rightarrow> database \<Rightarrow> (nat \<times> database) result" where
  "create_miner x db = rbind (idx_create miner_clash (miners db) (\<lambda>_. x)) (\<lambda>(i, t). Inr (i, db\<lparr>miners := t\<rparr>))"

definition modify_summary :: "nat \<Rightarrow> (block_summary_object \<Rightarrow> block_summary_object) \<Rightarrow> database \<Rightarrow> database result" where
  "modify_summary i f db = rbind (idx_update no_clash (block_summaries db) i (\<lambda>x. Inr (f x))) (\<lambda>t. Inr (db\<lparr>block_summaries := t\<rparr>))"

definition head_block_time :: "database \<Rightarrow> int" where
  "head_block_time db = dyn_time (dpo db)"

definition head_block_num :: "database \<Rightarrow> int" where
  "head_block_num db = head_block_number (dpo db)"

definition head_block_id :: "database \<Rightarrow> block_id" where
  "head_block_id db = dyn_head_block_id (dpo db)"

definition push_applied_operation :: "virtual_operation \<Rightarrow> database \<Rightarrow> database" where
  "push_applied_operation op db = db\<lparr>applied_ops := applied_ops db @ [op]\<rparr>"

definition find_content :: "string \<Rightarrow> database \<Rightarrow> (nat \<times> content_object) option" where
  "find_content u db = idx_find_by (\<lambda>c. URI c = u) (contents db)"

definition find_seeder :: "nat \<Rightarrow> database \<Rightarrow> (nat \<times> seeder_object) option" where
  "find_seeder a db = idx_find_by (\<lambda>s. seeder s = a) (seeders db)"

definition find_stats :: "nat \<Rightarrow> database \<Rightarrow> (nat \<times> seeding_statistics_object) option" where
  "find_stats a db = idx_find_by (\<lambda>s. stats_seeder s = a) (seeding_stats db)"

definition find_subscription :: "nat \<Rightarrow> nat \<Rightarrow> database \<Rightarrow> (nat \<times> subscription_object) option" where
  "find_subscription f t db = idx_find_by (\<lambda>s. sub_from s = f \<and> sub_to s = t) (subscriptions db)"

end
