(* ===== verification/Balance.thy ===== *)
theory Balance
  imports Chain_State
begin

text \<open>
  Account balances (\<open>db_balance.cpp\<close>): \<open>get_balance\<close>, \<open>adjust_balance\<close>, the lazily created
  vesting balances and the conversion of prices. The abstract view is a ledger that maps
  an account and an asset to an amount; \<open>adjust_balance\<close> refines a checked update of it.
  The locale \<open>ledger\<close> states what the evaluators rely on.
\<close>

section \<open>Operations\<close>

definition find_balance :: "nat \<Rightarrow> nat \<Rightarrow> account_balance_object index \<Rightarrow> (nat \<times> account_balance_object) option" where
  "find_balance owner a t = idx_find_by (\<lambda>b. bal_owner b = owner \<and> asset_type b = a) t"

definition balance_asset :: "account_balance_object \<Rightarrow> asset" where
  "balance_asset b = mk_asset (bal_amount b) (asset_type b)"

definition get_balance :: "nat \<Rightarrow> nat \<Rightarrow> database \<Rightarrow> asset" where
  "get_balance owner a db =
     (case find_balance owner a (balances db) of
        None \<Rightarrow> mk_asset 0 a
      | Some (_, b) \<Rightarrow> balance_asset b)"

definition object_adjust_balance :: "safe \<Rightarrow> asset \<Rightarrow> account_balance_object \<Rightarrow> account_balance_object result" where
  "object_adjust_balance S delta b = rbind (S (bal_amount b + amount delta)) (\<lambda>x. Inr (b\<lparr>bal_amount := x\<rparr>))"

definition adjust_balance :: "safe \<Rightarrow> nat \<Rightarrow> asset \<Rightarrow> database \<Rightarrow> database result" where
  "adjust_balance S account delta db =
     (if amount delta = 0 then Inr db
      else case find_balance account (asset_id delta) (balances db) of
        None \<Rightarrow>
          fc_assert (amount delta > 0)
            (create_balance \<lparr>bal_owner = account, asset_type = asset_id delta, bal_amount = amount delta\<rparr> db)
      | Some (i, b) \<Rightarrow>
          rbind (if amount delta < 0
                 then rbind (asset_neg S delta) (\<lambda>n.
                      rbind (asset_less (balance_asset b) n) (\<lambda>less. fc_assert (\<not> less) (Inr ())))
                 else Inr ())
            (\<lambda>_. modify_balance i (object_adjust_balance S delta) db))"

definition GRAPHENE_MINER_ACCOUNT :: nat where "GRAPHENE_MINER_ACCOUNT = 0"
definition GRAPHENE_NULL_ACCOUNT :: nat where "GRAPHENE_NULL_ACCOUNT = 1"
definition GRAPHENE_TEMP_ACCOUNT :: nat where "GRAPHENE_TEMP_ACCOUNT = 2"
definition GRAPHENE_PROXY_TO_SELF_ACCOUNT :: nat where "GRAPHENE_PROXY_TO_SELF_ACCOUNT = 3"

text \<open>
  The guards of the \<open>while (true)\<close> block: the given vesting balance is reused when it has
  the owner, the policy and the period asked for.
\<close>

definition reusable_vesting :: "vesting_balance_object \<Rightarrow> int \<Rightarrow> nat \<Rightarrow> bool" where
  "reusable_vesting v req_vesting_seconds req_owner =
     (vb_owner v = req_owner \<and>
      (case policy v of Linear _ \<Rightarrow> False | Cdd p \<Rightarrow> vesting_seconds p = req_vesting_seconds))"

definition new_lazy_vesting :: "int \<Rightarrow> int \<Rightarrow> nat \<Rightarrow> bool \<Rightarrow> int \<Rightarrow> vesting_balance_object result" where
  "new_lazy_vesting amt req_vesting_seconds req_owner require_vesting t =
     (if \<not> require_vesting \<and> \<not> in_int64 (amt * req_vesting_seconds) then Inl undefined_behaviour
      else Inr \<lparr>vb_owner = req_owner, balance = mk_asset amt 0,
        policy = Cdd \<lparr>vesting_seconds = req_vesting_seconds,
          coin_seconds_earned = (if require_vesting then 0 else u128 (amt * req_vesting_seconds)),
          start_claim = 0, coin_seconds_earned_last_update = t\<rparr>\<rparr>)"

definition deposit_lazy_vesting ::
  "safe \<Rightarrow> nat option \<Rightarrow> int \<Rightarrow> int \<Rightarrow> nat \<Rightarrow> bool \<Rightarrow> database \<Rightarrow> (nat option \<times> database) result" where
  "deposit_lazy_vesting S ovbid amt req_vesting_seconds req_owner require_vesting db =
     (if amt = 0 then Inr (None, db)
      else
        let t = head_block_time db;
            make = rbind (new_lazy_vesting amt req_vesting_seconds req_owner require_vesting t) (\<lambda>v.
                   rbind (create_vesting v db) (\<lambda>(i, db'). Inr (Some i, db')))
        in case ovbid of
             None \<Rightarrow> make
           | Some vid \<Rightarrow>
               rbind (idx_get (vestings db) vid) (\<lambda>v.
               if reusable_vesting v req_vesting_seconds req_owner then
                 rbind (modify_vesting vid
                          (if require_vesting then deposit S t (mk_asset amt 0) else deposit_vested S t (mk_asset amt 0)) db)
                   (\<lambda>db'. Inr (None, db'))
               else make))"

definition deposit_cashback :: "safe \<Rightarrow> nat \<Rightarrow> int \<Rightarrow> bool \<Rightarrow> database \<Rightarrow> database result" where
  "deposit_cashback S acct amt require_vesting db =
     (if amt = 0 then Inr db
      else if acct = GRAPHENE_MINER_ACCOUNT \<or> acct = GRAPHENE_NULL_ACCOUNT \<or> acct = GRAPHENE_TEMP_ACCOUNT then
        rbind (idx_get (assets db) 0) (\<lambda>core.
        modify_dynamic_data (dynamic_asset_data_id core)
          (\<lambda>d. rbind (S (current_supply d - amt)) (\<lambda>x. Inr (d\<lparr>current_supply := x\<rparr>))) db)
      else
        rbind (idx_get (accounts db) acct) (\<lambda>ao.
        rbind (deposit_lazy_vesting S (cashback_vb ao) amt
                 (cashback_vesting_period_seconds (parameters (gpo db))) acct require_vesting db)
          (\<lambda>(new_vbid, db').
             case new_vbid of
               None \<Rightarrow> Inr db'
             | Some i \<Rightarrow> modify_account acct (\<lambda>a. a\<lparr>cashback_vb := Some i\<rparr>) db')))"

definition deposit_miner_pay :: "safe \<Rightarrow> nat \<Rightarrow> int \<Rightarrow> database \<Rightarrow> database result" where
  "deposit_miner_pay S wit amt db =
     (if amt = 0 then Inr db
      else
        rbind (deref (idx_find (miners db) wit)) (\<lambda>m.
        rbind (deposit_lazy_vesting S (pay_vb m) amt
                 (miner_pay_vesting_seconds (parameters (gpo db))) (miner_account m) True db)
          (\<lambda>(new_vbid, db').
             case new_vbid of
               None \<Rightarrow> Inr db'
             | Some i \<Rightarrow> modify_miner wit (\<lambda>w. w\<lparr>pay_vb := Some i\<rparr>) db')))"

definition price_to_dct :: "asset \<Rightarrow> database \<Rightarrow> asset result" where
  "price_to_dct p db =
     (if asset_id p = 0 then Inr p
      else
        rbind (idx_get (assets db) (asset_id p)) (\<lambda>ao.
        rbind (case monitored_asset_opts ao of
                 Some m \<Rightarrow>
                   let exchange_rate = core_exchange_rate (current_feed m)
                   in fc_assert (\<not> is_null exchange_rate) (Inr exchange_rate)
               | None \<Rightarrow> Inr (opt_exchange_rate (asset_opts ao))) (\<lambda>exchange_rate.
        rbind (asset_times_price p exchange_rate) (\<lambda>price_in_dct.
        fc_assert (asset_id price_in_dct = 0) (Inr price_in_dct)))))"

definition are_assets_exchangeable :: "nat \<times> asset_object \<Rightarrow> nat \<times> asset_object \<Rightarrow> bool" where
  "are_assets_exchangeable payment prc =
     (if is_monitored_asset (snd payment) then False
      else if fst payment = fst prc then True
      else if \<not> is_monitored_asset (snd prc) \<and> fst payment \<noteq> 0 \<and> fst prc \<noteq> 0 then False
      else if is_exchangeable (asset_opts (snd payment)) \<and> is_exchangeable (asset_opts (snd prc)) then True
      else False)"

section \<open>Lookup by account and asset\<close>

lemma find_upd_row:
  assumes "distinct (map fst rs)" "map_of rs i = Some b" "Q x = Q b"
  shows "List.find (\<lambda>r. Q (snd r)) (upd_row i x rs) =
    map_option (\<lambda>(j, y). (j, if j = i then x else y)) (List.find (\<lambda>r. Q (snd r)) rs)"
  using assms
proof (induction rs)
  case (Cons r rs)
  obtain j y where r: "r = (j, y)" by (cases r)
  show ?case
  proof (cases "j = i")
    case True
    with Cons.prems r have "y = b" "i \<notin> fst ` set rs" by auto
    then have "upd_row i x rs = rs" by (force simp: upd_row_def image_iff intro!: map_idI)
    moreover have "map_option (\<lambda>(j, y). (j, if j = i then x else y)) (List.find (\<lambda>r. Q (snd r)) rs) =
        List.find (\<lambda>r. Q (snd r)) rs"
      using \<open>i \<notin> fst ` set rs\<close>
      by (cases "List.find (\<lambda>r. Q (snd r)) rs") (force dest: find_Some_set simp: image_iff)+
    ultimately show ?thesis using True r \<open>y = b\<close> Cons.prems(3) by (simp add: upd_row_def)
  next
    case False
    with Cons r show ?thesis by (simp add: upd_row_def)
  qed
qed (simp add: upd_row_def)

lemma find_ins_row_other:
  "\<not> Q x \<Longrightarrow> List.find (\<lambda>r. Q (snd r)) (ins_row i x rs) = List.find (\<lambda>r. Q (snd r)) rs"
  by (induction i x rs rule: ins_row.induct) auto

lemma find_ins_row_new:
  "Q x \<Longrightarrow> List.find (\<lambda>r. Q (snd r)) rs = None \<Longrightarrow> List.find (\<lambda>r. Q (snd r)) (ins_row i x rs) = Some (i, x)"
  by (induction i x rs rule: ins_row.induct) (auto split: if_splits)

lemma find_balance_Some:
  assumes "wf_index t" "find_balance o' a t = Some (i, b)"
  shows "idx_find t i = Some b" "bal_owner b = o'" "asset_type b = a"
  using idx_find_by_Some [OF assms(1), of "\<lambda>b. bal_owner b = o' \<and> asset_type b = a" i b] assms(2)
  by (simp_all add: find_balance_def)

section \<open>The ledger\<close>

definition ledger_of :: "database \<Rightarrow> nat \<Rightarrow> nat \<Rightarrow> int" where
  "ledger_of db account a = amount (get_balance account a db)"

definition ledger_add :: "nat \<Rightarrow> nat \<Rightarrow> int \<Rightarrow> (nat \<Rightarrow> nat \<Rightarrow> int) \<Rightarrow> nat \<Rightarrow> nat \<Rightarrow> int" where
  "ledger_add account a d l = l(account := (l account)(a := l account a + d))"

definition supply_weight :: "nat \<Rightarrow> account_balance_object \<Rightarrow> int" where
  "supply_weight a b = (if asset_type b = a then bal_amount b else 0)"

definition balance_supply :: "nat \<Rightarrow> database \<Rightarrow> int" where
  "balance_supply a db = idx_total (supply_weight a) (balances db)"

definition balance_key :: "nat \<times> account_balance_object \<Rightarrow> nat \<times> nat" where
  "balance_key r = (bal_owner (snd r), asset_type (snd r))"

text \<open>A solvent database: one balance object per account and asset, none of them negative.\<close>

definition solvent :: "database \<Rightarrow> bool" where
  "solvent db \<longleftrightarrow> wf_index (balances db) \<and> list_all (\<lambda>r. 0 \<le> bal_amount (snd r)) (rows (balances db)) \<and>
     distinct (map balance_key (rows (balances db)))"

lemma distinct_ins_row:
  "distinct (map g (ins_row i x rs)) \<longleftrightarrow> g (i, x) \<notin> g ` set rs \<and> distinct (map g rs)"
  by (induction i x rs rule: ins_row.induct) auto

lemma map_key_upd_row:
  assumes "distinct (map fst rs)" "map_of rs i = Some b" "balance_key (i, x) = balance_key (i, b)"
  shows "map balance_key (upd_row i x rs) = map balance_key rs"
proof -
  have "y = b" if "(i, y) \<in> set rs" for y using assms(1,2) that by (metis map_of_is_SomeI option.inject)
  with assms(3) show ?thesis by (auto simp: upd_row_def balance_key_def)
qed

lemma balance_key_new: "balance_key (i, \<lparr>bal_owner = x, asset_type = a, bal_amount = d\<rparr>) = (x, a)"
  by (simp add: balance_key_def)

lemma find_balance_None:
  "find_balance x a t = None \<longleftrightarrow> (x, a) \<notin> balance_key ` set (rows t)"
  unfolding find_balance_def idx_find_by_def find_None_iff balance_key_def image_iff by (metis Pair_inject)

lemma solventD: "solvent db \<Longrightarrow> idx_find (balances db) i = Some b \<Longrightarrow> 0 \<le> bal_amount b"
  unfolding solvent_def idx_find_def list_all_iff by (drule map_of_SomeD) force

lemma solvent_ledger: "solvent db \<Longrightarrow> 0 \<le> ledger_of db x a"
proof (cases "find_balance x a (balances db)")
  case (Some p)
  assume ok: "solvent db"
  from Some obtain i b where p: "find_balance x a (balances db) = Some (i, b)" by (cases p) auto
  from ok have "idx_find (balances db) i = Some b"
    by (intro find_balance_Some(1) [OF _ p]) (simp add: solvent_def)
  from solventD [OF ok this] p show ?thesis
    by (simp add: ledger_of_def get_balance_def balance_asset_def mk_asset_def)
qed (simp add: ledger_of_def get_balance_def mk_asset_def)

lemma adjust_create:
  assumes wf: "wf_index (balances db)" and f: "find_balance x a (balances db) = None"
    and c: "create_balance \<lparr>bal_owner = x, asset_type = a, bal_amount = d\<rparr> db = Inr db'"
  obtains t where "db' = db\<lparr>balances := t\<rparr>" "wf_index t" "ledger_of db' = ledger_add x a d (ledger_of db)"
    "\<And>b. idx_total (supply_weight b) t = idx_total (supply_weight b) (balances db) + (if a = b then d else 0)"
    "rows t = ins_row (next_id (balances db)) \<lparr>bal_owner = x, asset_type = a, bal_amount = d\<rparr> (rows (balances db))"
proof -
  let ?n = "\<lparr>bal_owner = x, asset_type = a, bal_amount = d\<rparr>"
  from c obtain i t where t: "idx_create balance_clash (balances db) (\<lambda>_. ?n) = Inr (i, t)" "db' = db\<lparr>balances := t\<rparr>"
    by (auto simp: create_balance_def res_simps)
  have rows: "rows t = ins_row i ?n (rows (balances db))" "i = next_id (balances db)"
    using t(1) by (auto simp: idx_create_def Let_def res_simps)
  have find: "find_balance y b t = (if y = x \<and> b = a then Some (i, ?n) else find_balance y b (balances db))" for y b
  proof (cases "y = x \<and> b = a")
    case True
    then show ?thesis
      using find_ins_row_new [of "\<lambda>o'. bal_owner o' = x \<and> asset_type o' = a" ?n "rows (balances db)" i] f rows
      by (simp add: find_balance_def idx_find_by_def)
  next
    case False
    then show ?thesis
      using find_ins_row_other [of "\<lambda>o'. bal_owner o' = y \<and> asset_type o' = b" ?n i "rows (balances db)"] rows
      by (auto simp: find_balance_def idx_find_by_def)
  qed
  have "ledger_of db' = ledger_add x a d (ledger_of db)"
    using f by (auto simp: fun_eq_iff ledger_of_def ledger_add_def get_balance_def t(2) find mk_asset_def balance_asset_def
        split: option.splits)
  with t idx_total_create [OF wf t(1)] rows show ?thesis
    by (intro that [of t]) (auto simp: supply_weight_def)
qed

lemma adjust_modify:
  assumes S: "safe_exact S" and wf: "wf_index (balances db)"
    and f: "find_balance x a (balances db) = Some (i, b)" and a: "asset_id delta = a"
    and m: "modify_balance i (object_adjust_balance S delta) db = Inr db'"
  obtains t where "db' = db\<lparr>balances := t\<rparr>" "wf_index t" "ledger_of db' = ledger_add x a (amount delta) (ledger_of db)"
    "\<And>e. idx_total (supply_weight e) t = idx_total (supply_weight e) (balances db) + (if a = e then amount delta else 0)"
    "rows t = upd_row i (b\<lparr>bal_amount := bal_amount b + amount delta\<rparr>) (rows (balances db))"
proof -
  note fb = find_balance_Some [OF wf f]
  from m obtain t where t: "idx_update balance_clash (balances db) i (object_adjust_balance S delta) = Inr t"
    "db' = db\<lparr>balances := t\<rparr>"
    by (auto simp: modify_balance_def res_simps)
  let ?n = "b\<lparr>bal_amount := bal_amount b + amount delta\<rparr>"
  have obj: "object_adjust_balance S delta b = Inr y \<Longrightarrow> y = ?n" for y
    by (auto simp: object_adjust_balance_def res_simps dest: safe_exactD [OF S])
  have rows: "rows t = upd_row i ?n (rows (balances db))"
    using t(1) fb(1) obj by (auto simp: idx_update_def idx_modify_def res_simps)
  have d: "distinct (map fst (rows (balances db)))" "map_of (rows (balances db)) i = Some b"
    using wf fb(1) by (simp_all add: wf_index_def sorted_imp_distinct_rows idx_find_def)
  have find: "find_balance y e t = map_option (\<lambda>(j, z). (j, if j = i then ?n else z)) (find_balance y e (balances db))" for y e
    using find_upd_row [OF d, of "\<lambda>z. bal_owner z = y \<and> asset_type z = e" ?n] rows
    by (simp add: find_balance_def idx_find_by_def)
  have other: "j \<noteq> i" if "find_balance y e (balances db) = Some (j, z)" "y \<noteq> x \<or> e \<noteq> a" for y e j z
    using find_balance_Some [OF wf that(1)] fb that(2) by auto
  have "ledger_of db' y e = ledger_add x a (amount delta) (ledger_of db) y e" for y e
    using f fb other [of y e]
    by (cases "find_balance y e (balances db)")
      (auto simp: ledger_of_def ledger_add_def get_balance_def t(2) find mk_asset_def balance_asset_def)
  then have l: "ledger_of db' = ledger_add x a (amount delta) (ledger_of db)" by (simp add: fun_eq_iff)
  have tot: "idx_total (supply_weight e) t = idx_total (supply_weight e) (balances db) + (if a = e then amount delta else 0)" for e
    by (rule idx_total_update [OF wf t(1), of "supply_weight e"])
      (use fb obj in \<open>auto simp: supply_weight_def\<close>)
  have "wf_index t" using idx_update_Inr(2) [OF t(1)] wf by simp
  from that [OF t(2) this l tot rows] show ?thesis .
qed

text \<open>
  The contract of \<open>adjust_balance\<close> in one rule: only the balance index changes, the ledger
  changes at one place by the delta, which never goes below zero, and the supply of the
  asset held in balances changes by the delta.
\<close>

lemma adjust_balance_Inr:
  assumes S: "safe_exact S" and ok: "solvent db" and a: "adjust_balance S x delta db = Inr db'"
  shows "\<exists>t. db' = db\<lparr>balances := t\<rparr>" "solvent db'"
    "ledger_of db' = ledger_add x (asset_id delta) (amount delta) (ledger_of db)"
    "balance_supply e db' = balance_supply e db + (if asset_id delta = e then amount delta else 0)"
proof -
  have wf: "wf_index (balances db)" using ok by (simp add: solvent_def)
  have all: "(\<exists>t. db' = db\<lparr>balances := t\<rparr>) \<and> solvent db' \<and>
    ledger_of db' = ledger_add x (asset_id delta) (amount delta) (ledger_of db) \<and>
    balance_supply e db' = balance_supply e db + (if asset_id delta = e then amount delta else 0)"
  proof (cases "amount delta = 0")
    case True
    with a have d: "db' = db" by (simp add: adjust_balance_def)
    have "\<exists>t. db = db\<lparr>balances := t\<rparr>" by (rule exI [of _ "balances db"]) simp
    with ok True d show ?thesis by (simp add: ledger_add_def fun_eq_iff)
  next
    case nz: False
    show ?thesis
    proof (cases "find_balance x (asset_id delta) (balances db)")
      case None
      with a nz have pos: "amount delta > 0"
        and c: "create_balance \<lparr>bal_owner = x, asset_type = asset_id delta, bal_amount = amount delta\<rparr> db = Inr db'"
        by (auto simp: adjust_balance_def res_simps)
      show ?thesis
        by (rule adjust_create [OF wf None c])
          (use ok pos None in \<open>auto simp: solvent_def balance_supply_def list_all_iff distinct_ins_row
            find_balance_None balance_key_new\<close>)
    next
      case (Some p)
      obtain i b where p: "p = (i, b)" by (cases p)
      note fb = find_balance_Some [OF wf Some [unfolded p]]
      from a nz Some p have m: "modify_balance i (object_adjust_balance S delta) db = Inr db'"
        by (auto simp: adjust_balance_def res_simps split: if_splits)
      from a nz Some p fb have nn: "0 \<le> bal_amount b + amount delta"
        using solventD [OF ok fb(1)]
        by (cases "amount delta < 0")
          (auto simp: adjust_balance_def res_simps asset_neg_def asset_less_def mk_asset_def balance_asset_def
            dest!: safe_exactD [OF S])
      obtain t where t: "db' = db\<lparr>balances := t\<rparr>" "wf_index t"
        "ledger_of db' = ledger_add x (asset_id delta) (amount delta) (ledger_of db)"
        "\<And>e. idx_total (supply_weight e) t = idx_total (supply_weight e) (balances db) + (if asset_id delta = e then amount delta else 0)"
        "rows t = upd_row i (b\<lparr>bal_amount := bal_amount b + amount delta\<rparr>) (rows (balances db))"
        using adjust_modify [OF S wf Some [unfolded p] refl m] by metis
      have "list_all (\<lambda>r. 0 \<le> bal_amount (snd r)) (rows t)"
        using ok nn by (auto simp: t(5) upd_row_def list_all_iff solvent_def)
      moreover have "map balance_key (rows t) = map balance_key (rows (balances db))"
        unfolding t(5) using wf fb by (intro map_key_upd_row)
          (auto simp: balance_key_def wf_index_def sorted_imp_distinct_rows idx_find_def)
      ultimately show ?thesis using t ok by (auto simp: solvent_def balance_supply_def)
    qed
  qed
  then show "\<exists>t. db' = db\<lparr>balances := t\<rparr>" "solvent db'"
    "ledger_of db' = ledger_add x (asset_id delta) (amount delta) (ledger_of db)"
    "balance_supply e db' = balance_supply e db + (if asset_id delta = e then amount delta else 0)"
    by simp_all
qed

section \<open>The contract of the ledger\<close>

text \<open>
  What the evaluators rely on. The client lemmas: moving an amount from one account to
  another, and paying an amount out to several accounts, leave the supply unchanged.
\<close>

locale ledger =
  fixes ok :: "'s \<Rightarrow> bool" and held :: "nat \<Rightarrow> 's \<Rightarrow> int" and rest :: "'s \<Rightarrow> 'r"
    and adjust :: "nat \<Rightarrow> asset \<Rightarrow> 's \<Rightarrow> 's result"
  assumes adjust_ok: "ok s \<Longrightarrow> adjust x d s = Inr s' \<Longrightarrow>
    ok s' \<and> held e s' = held e s + (if asset_id d = e then amount d else 0) \<and> rest s' = rest s"
begin

lemma move_conserves:
  assumes "ok s" "adjust x (mk_asset (- n) a) s = Inr s1" "adjust y (mk_asset n a) s1 = Inr s2"
  shows "ok s2 \<and> held e s2 = held e s \<and> rest s2 = rest s"
proof -
  from adjust_ok [OF assms(1,2), of e] have "ok s1"
    "held e s1 = held e s + (if a = e then - n else 0)" "rest s1 = rest s"
    by (simp_all add: mk_asset_def)
  with adjust_ok [OF \<open>ok s1\<close> assms(3), of e] show ?thesis by (simp add: mk_asset_def)
qed

lemma payments_sum:
  assumes "ok s" "fold_res (\<lambda>(x, n). adjust x (mk_asset n a)) ps s = Inr s'"
  shows "ok s' \<and> held e s' = held e s + (if a = e then (\<Sum>p\<leftarrow>ps. snd p) else 0) \<and> rest s' = rest s"
  using assms
proof (induction ps arbitrary: s)
  case (Cons p ps)
  obtain x n where p: "p = (x, n)" by (cases p)
  with Cons.prems obtain s1 where s1: "adjust x (mk_asset n a) s = Inr s1"
    "fold_res (\<lambda>(x, n). adjust x (mk_asset n a)) ps s1 = Inr s'"
    by (auto simp: res_simps)
  from adjust_ok [OF Cons.prems(1) s1(1), of e] have "ok s1"
    "held e s1 = held e s + (if a = e then n else 0)" "rest s1 = rest s"
    by (simp_all add: mk_asset_def)
  with Cons.IH [OF \<open>ok s1\<close> s1(2)] p show ?case by simp
qed simp

end

definition without_balances :: "database \<Rightarrow> database" where
  "without_balances db = db\<lparr>balances := empty_index\<rparr>"

lemma balance_ledger:
  assumes "safe_exact S"
  shows "ledger solvent balance_supply without_balances (adjust_balance S)"
proof
  fix s x d s' e
  assume "solvent s" "adjust_balance S x d s = Inr s'"
  note adj = adjust_balance_Inr(1,2) [OF assms this] adjust_balance_Inr(4) [OF assms this, of e]
  from adj(1) obtain t where "s' = s\<lparr>balances := t\<rparr>" ..
  with adj show "solvent s' \<and> balance_supply e s' = balance_supply e s + (if asset_id d = e then amount d else 0) \<and>
      without_balances s' = without_balances s"
    by (simp add: without_balances_def)
qed

interpretation core_ledger: ledger solvent balance_supply without_balances "adjust_balance safe_int64"
  by (rule balance_ledger [OF safe_int64_exact])

section \<open>Properties\<close>

lemma adjust_balance_total:
  assumes S: "safe_total S" and ok: "solvent db"
    and r: "in_int64 (amount delta)" "amount delta \<noteq> - (2 ^ 63)"
    and fits: "in_int64 (ledger_of db x (asset_id delta) + amount delta)"
    and nn: "0 \<le> ledger_of db x (asset_id delta) + amount delta"
  shows "\<exists>db'. adjust_balance S x delta db = Inr db'"
proof (cases "amount delta = 0")
  case True
  then show ?thesis by (simp add: adjust_balance_def)
next
  case nz: False
  have wf: "wf_index (balances db)" using ok by (simp add: solvent_def)
  have keys: "k \<notin> fst ` set (rows (balances db))" if "k = next_id (balances db)" for k
    using wf that by (auto simp: wf_index_alt)
  show ?thesis
  proof (cases "find_balance x (asset_id delta) (balances db)")
    case None
    let ?n = "\<lparr>bal_owner = x, asset_type = asset_id delta, bal_amount = amount delta\<rparr>"
    have "\<not> conflicts balance_clash i ?n (rows (balances db))" for i
      using None by (force simp: conflicts_def list_ex_iff balance_clash_def find_balance_None balance_key_def image_iff)
    with None nn nz show ?thesis
      using keys by (simp add: adjust_balance_def ledger_of_def get_balance_def mk_asset_def create_balance_def
          idx_create_def idx_find_None Let_def)
  next
    case (Some p)
    obtain i b where p: "p = (i, b)" by (cases p)
    note fb = find_balance_Some [OF wf Some [unfolded p]]
    have l: "ledger_of db x (asset_id delta) = bal_amount b"
      using Some p by (simp add: ledger_of_def get_balance_def mk_asset_def balance_asset_def)
    have neg: "in_int64 (- amount delta)" if "amount delta < 0" using that r by (auto simp: in_int64_def)
    have nc: "\<not> conflicts balance_clash i (b\<lparr>bal_amount := z\<rparr>) (rows (balances db))" for z
    proof
      assume "conflicts balance_clash i (b\<lparr>bal_amount := z\<rparr>) (rows (balances db))"
      then obtain j c where c: "(j, c) \<in> set (rows (balances db))" "j \<noteq> i" "balance_key (j, c) = balance_key (i, b)"
        by (auto simp: conflicts_def list_ex_iff balance_clash_def balance_key_def)
      moreover have "(i, b) \<in> set (rows (balances db))" using fb(1) by (simp add: idx_find_def map_of_SomeD)
      ultimately have "(j, c) = (i, b)"
        using ok by (auto simp: solvent_def distinct_map inj_on_def)
      with c(2) show False by simp
    qed
    show ?thesis
      using nz Some p fb l nn fits nc safe_totalD [OF S fits] safe_totalD [OF S neg]
      by (cases "amount delta < 0")
        (auto simp: adjust_balance_def asset_neg_def asset_less_def mk_asset_def balance_asset_def
          modify_balance_def idx_update_def idx_modify_def object_adjust_balance_def)
  qed
qed

text \<open>
  C14: \<open>adjust_balance\<close> refines a checked update of the abstract ledger: when the new
  amount is not negative it succeeds, changes that one entry by the delta and nothing else
  in the database, and keeps the database solvent; when the amount would be negative it
  fails.
\<close>

theorem adjust_balance_refines_ledger:
  assumes "safe_exact S" and "safe_total S" and "solvent db"
    and "in_int64 (amount delta)" and "amount delta \<noteq> - (2 ^ 63)"
    and "in_int64 (ledger_of db x (asset_id delta) + amount delta)"
  shows "if 0 \<le> ledger_of db x (asset_id delta) + amount delta
    then \<exists>db'. adjust_balance S x delta db = Inr db' \<and> solvent db' \<and>
      ledger_of db' = ledger_add x (asset_id delta) (amount delta) (ledger_of db) \<and>
      without_balances db' = without_balances db
    else \<exists>e. adjust_balance S x delta db = Inl e"
proof (cases "0 \<le> ledger_of db x (asset_id delta) + amount delta")
  case True
  from adjust_balance_total [OF assms(2-6) True] obtain db' where a: "adjust_balance S x delta db = Inr db'" ..
  note adj = adjust_balance_Inr(1-3) [OF assms(1,3) a]
  from adj(1) obtain t where "db' = db\<lparr>balances := t\<rparr>" ..
  with adj a True show ?thesis by (simp add: without_balances_def)
next
  case False
  show ?thesis
  proof (cases "adjust_balance S x delta db")
    case (Inr db')
    note adj = adjust_balance_Inr(2,3) [OF assms(1,3) Inr]
    from solvent_ledger [OF adj(1), of x "asset_id delta"] adj(2) False show ?thesis
      by (simp add: ledger_add_def)
  qed (use False in auto)
qed

definition empty_parameters :: chain_parameters where
  "empty_parameters = \<lparr>current_fees = \<lparr>fee_table = [], fee_scale = 10000\<rparr>, block_interval = 5, maintenance_interval = 86400,
     maintenance_skip_slots = 3, miner_proposal_review_period = 1209600, maximum_transaction_size = 2048,
     maximum_block_size = 1228800000, maximum_time_until_expiration = 86400, maximum_proposal_lifetime = 2419200,
     maximum_asset_feed_publishers = 100, maximum_miner_count = 1001, maximum_authority_membership = 10,
     cashback_vesting_period_seconds = 31536000, cashback_vesting_threshold = 10000000000, miner_pay_vesting_seconds = 86400,
     max_predicate_opcode = 1, max_authority_depth = 2\<rparr>"

definition empty_db :: database where
  "empty_db = \<lparr>accounts = empty_index, account_stats = empty_index, balances = empty_index, assets = empty_index,
     dynamic_data = empty_index, vestings = empty_index, contents = empty_index, buyings = empty_index,
     seeders = empty_index, seeding_stats = empty_index, subscriptions = empty_index, details = empty_index,
     miners = empty_index, permissions = empty_index,
     gpo = \<lparr>parameters = empty_parameters, pending_parameters = None, next_available_vote_id = 0, active_miners = []\<rparr>,
     dpo = \<lparr>head_block_number = 0, dyn_head_block_id = null_block_id, dyn_time = 1000, current_miner = 0, next_maintenance_time = 86400,
       last_budget_time = 0, miner_budget_from_fees = 0, unspent_fee_budget = 0, mined_rewards = 0,
       miner_budget_from_rewards = 0, accounts_registered_this_interval = 0, recently_missed_count = 0,
       current_aslot = 0, recent_slots_filled = 0, dynamic_flags = 0, last_irreversible_block_num = 0\<rparr>,
     miner_schedule = \<lparr>current_shuffled_miners = []\<rparr>, immutable_parameters = \<lparr>min_miner_count = 11, num_special_accounts = 0, num_special_assets = 0\<rparr>,
     budget_records = empty_index, transaction_ids = empty_index, block_summaries = empty_index, applied_ops = []\<rparr>"

definition db_with_balance :: "nat \<Rightarrow> asset \<Rightarrow> database" where
  "db_with_balance x a = empty_db\<lparr>balances := \<lparr>next_id = 1,
     rows = [(0, \<lparr>bal_owner = x, asset_type = asset_id a, bal_amount = amount a\<rparr>)]\<rparr>\<rparr>"

lemma db_with_balance_solvent: "0 \<le> amount a \<Longrightarrow> solvent (db_with_balance x a)"
  by (simp add: solvent_def db_with_balance_def wf_index_def)

lemma db_with_balance_ledger:
  "ledger_of (db_with_balance x a) y i = (if y = x \<and> i = asset_id a then amount a else 0)"
  by (simp add: ledger_of_def get_balance_def find_balance_def idx_find_by_def db_with_balance_def
      balance_asset_def mk_asset_def)

theorem adjust_balance_refines_ledger_witness:
  "\<exists>db'. adjust_balance safe_int64 4 (mk_asset (-30) 0) (db_with_balance 4 (mk_asset 100 0)) = Inr db' \<and>
     ledger_of db' 4 0 = 70"
  using adjust_balance_refines_ledger [OF safe_int64_exact safe_int64_total db_with_balance_solvent,
      of "mk_asset 100 0" "mk_asset (-30) 0" 4 4]
  by (auto simp: db_with_balance_ledger mk_asset_def in_int64_def ledger_add_def)

section \<open>Lazily created vesting balances\<close>

definition vesting_supply :: "database \<Rightarrow> int" where
  "vesting_supply db = idx_total vesting_balance (vestings db)"

definition without_vestings :: "database \<Rightarrow> database" where
  "without_vestings db = db\<lparr>vestings := empty_index\<rparr>"

lemma deposit_amount:
  assumes "safe_exact S" "deposit S t x v = Inr v'"
  shows "vesting_balance v' = vesting_balance v + amount x"
  using assms(2) by (auto simp: deposit_def Let_def res_simps asset_add_def vesting_balance_def mk_asset_def
      dest!: safe_exactD [OF assms(1)])

lemma deposit_vested_amount:
  assumes "safe_exact S" "deposit_vested S t x v = Inr v'"
  shows "vesting_balance v' = vesting_balance v + amount x"
  using assms(2) by (auto simp: deposit_vested_def res_simps asset_add_def vesting_balance_def mk_asset_def
      dest!: safe_exactD [OF assms(1)])

lemma modify_vesting_supply:
  assumes wf: "wf_index (vestings db)" and m: "modify_vesting i f db = Inr db'"
    and f: "\<And>v v'. f v = Inr v' \<Longrightarrow> vesting_balance v' = vesting_balance v + n"
  shows "vesting_supply db' = vesting_supply db + n" "wf_index (vestings db')"
    "without_vestings db' = without_vestings db"
proof -
  from m obtain t where t: "idx_update no_clash (vestings db) i f = Inr t" "db' = db\<lparr>vestings := t\<rparr>"
    by (auto simp: modify_vesting_def res_simps)
  obtain v v' where v: "f v = Inr v'"
    "idx_total vesting_balance t = idx_total vesting_balance (vestings db) - vesting_balance v + vesting_balance v'"
    "wf_index t"
    by (rule idx_total_update [OF wf t(1), of vesting_balance])
  then show "vesting_supply db' = vesting_supply db + n" "wf_index (vestings db')"
    "without_vestings db' = without_vestings db"
    using f [OF v(1)] t(2) by (simp_all add: vesting_supply_def without_vestings_def)
qed

lemma create_vesting_supply:
  assumes wf: "wf_index (vestings db)" and c: "create_vesting v db = Inr (i, db')"
  shows "vesting_supply db' = vesting_supply db + vesting_balance v" "wf_index (vestings db')"
    "without_vestings db' = without_vestings db" "idx_find (vestings db') i = Some v"
proof -
  from c obtain t where t: "idx_create no_clash (vestings db) (\<lambda>_. v) = Inr (i, t)" "db' = db\<lparr>vestings := t\<rparr>"
    by (auto simp: create_vesting_def res_simps)
  from idx_total_create [OF wf t(1)] t(2)
  show "vesting_supply db' = vesting_supply db + vesting_balance v" "wf_index (vestings db')"
    "without_vestings db' = without_vestings db" "idx_find (vestings db') i = Some v"
    by (simp_all add: vesting_supply_def without_vestings_def)
qed

text \<open>
  A lazy vesting deposit puts exactly the given amount into vesting balances, in the
  object it was given when that one can be reused and else in a new one whose id it
  returns, and changes nothing else; a new object belongs to the owner asked for and
  starts with nothing vested when vesting is required.
\<close>

theorem deposit_lazy_vesting_total:
  assumes S: "safe_exact S" and wf: "wf_index (vestings db)"
    and d: "deposit_lazy_vesting S ovbid amt secs x True db = Inr (r, db')"
  shows "vesting_supply db' = vesting_supply db + amt \<and> without_vestings db' = without_vestings db \<and>
    (case r of None \<Rightarrow> True
     | Some i \<Rightarrow> \<exists>v p. idx_find (vestings db') i = Some v \<and> vb_owner v = x \<and> balance v = mk_asset amt 0 \<and>
         policy v = Cdd p \<and> vesting_seconds p = secs \<and> coin_seconds_earned p = 0)"
proof -
  have make: ?thesis if m: "rbind (new_lazy_vesting amt secs x True (head_block_time db)) (\<lambda>v.
      rbind (create_vesting v db) (\<lambda>(i, db'). Inr (Some i, db'))) = Inr (r, db')"
  proof -
    from m obtain v i where v: "new_lazy_vesting amt secs x True (head_block_time db) = Inr v"
      "create_vesting v db = Inr (i, db')" "r = Some i"
      by (auto simp: res_simps)
    from create_vesting_supply [OF wf v(2)] v(1,3) show ?thesis
      by (auto simp: new_lazy_vesting_def vesting_balance_def mk_asset_def)
  qed
  have reuse: ?thesis if m: "modify_vesting i (deposit S (head_block_time db) (mk_asset amt 0)) db = Inr db'" "r = None" for i
    using modify_vesting_supply [OF wf m(1) deposit_amount [OF S]] m(2) by (simp add: mk_asset_def)
  show ?thesis
  proof (cases "amt = 0")
    case True
    with d show ?thesis by (simp add: deposit_lazy_vesting_def)
  next
    case False
    with d make reuse show ?thesis
      by (auto simp: deposit_lazy_vesting_def Let_def res_simps split: option.splits if_splits)
  qed
qed

theorem deposit_lazy_vesting_total_witness:
  "\<exists>r db'. deposit_lazy_vesting safe_int64 None 500 86400 9 True empty_db = Inr (r, db') \<and> vesting_supply db' = 500"
proof -
  have w: "wf_index (vestings empty_db)" by (simp add: empty_db_def)
  have "succeeds (deposit_lazy_vesting safe_int64 None 500 86400 9 True empty_db)"
    by (simp add: deposit_lazy_vesting_def new_lazy_vesting_def create_vesting_def idx_create_def Let_def
        idx_find_def conflicts_def empty_db_def empty_index_def succeeds_def)
  then obtain r db' where d: "deposit_lazy_vesting safe_int64 None 500 86400 9 True empty_db = Inr (r, db')"
    unfolding succeeds_iff by fastforce
  have "vesting_supply empty_db = 0" by (simp add: vesting_supply_def empty_db_def empty_index_def idx_total_def)
  with deposit_lazy_vesting_total [OF safe_int64_exact w d] d show ?thesis by auto
qed

end
