(* ===== verification/Asset_Conversion.thy ===== *)
theory Asset_Conversion
  imports Balance
begin

text \<open>
  Monitored and user-issued assets (\<open>asset_object.hpp\<close>, \<open>asset_object.cpp\<close>,
  \<open>protocol/asset_ops.hpp\<close>): the median of the price feeds, and conversion to and from the
  core asset through the pools of a user-issued asset.
\<close>

section \<open>Price feeds\<close>

definition null_feed :: price_feed where
  "null_feed = \<lparr>core_exchange_rate = null_price\<rparr>"

definition feed_expiration_time :: "monitored_asset_options \<Rightarrow> int" where
  "feed_expiration_time m = u32 (current_feed_publication_time m + feed_lifetime_sec m)"

definition feed_is_expired :: "int \<Rightarrow> monitored_asset_options \<Rightarrow> bool" where
  "feed_is_expired current_time m = (feed_expiration_time m \<le> current_time)"

definition feed_is_valid :: "int \<Rightarrow> monitored_asset_options \<Rightarrow> bool" where
  "feed_is_valid current_time m =
     (if feed_is_expired current_time m then False
      else if is_null (core_exchange_rate (current_feed m)) then False
      else True)"

text \<open>
  \<open>std::nth_element\<close> puts at the given position an element that would be there in sorted
  order; insertion sort by the same comparison chooses one such element.
\<close>

fun insert_feed :: "price_feed \<Rightarrow> price_feed list \<Rightarrow> price_feed list" where
  "insert_feed f [] = [f]"
| "insert_feed f (g # gs) =
     (if price_less (core_exchange_rate f) (core_exchange_rate g) then f # g # gs else g # insert_feed f gs)"

definition sort_feeds :: "price_feed list \<Rightarrow> price_feed list" where
  "sort_feeds fs = foldr insert_feed fs []"

definition live_feeds :: "int \<Rightarrow> monitored_asset_options \<Rightarrow> (int \<times> price_feed) list" where
  "live_feeds current_time m =
     filter (\<lambda>(t, f). current_time - t < feed_lifetime_sec m \<and> t \<noteq> 0) (map snd (feeds m))"

definition update_median_feeds :: "int \<Rightarrow> monitored_asset_options \<Rightarrow> monitored_asset_options result" where
  "update_median_feeds current_time m =
     (let live = live_feeds current_time m;
          current_feeds = map snd live;
          publication = fold (\<lambda>(t, f) p. min p t) live current_time
      in if int (length current_feeds) < minimum_feeds m then
           Inr (m\<lparr>current_feed_publication_time := current_time, current_feed := null_feed\<rparr>)
         else if length current_feeds = 1 then
           Inr (m\<lparr>current_feed_publication_time := publication, current_feed := hd current_feeds\<rparr>)
         else if current_feeds = [] then Inl undefined_behaviour
         else Inr (m\<lparr>current_feed_publication_time := publication,
                     current_feed := sort_feeds current_feeds ! (length current_feeds div 2)\<rparr>))"

section \<open>Conversion\<close>

definition convert_mia :: "nat \<Rightarrow> asset \<Rightarrow> database \<Rightarrow> asset result" where
  "convert_mia aid from db =
     rbind (idx_get (assets db) aid) (\<lambda>ao.
     case monitored_asset_opts ao of
       None \<Rightarrow> Inl assert_exception
     | Some m \<Rightarrow>
         fc_assert (feed_is_valid (head_block_time db) m)
        (fc_assert (asset_id from = 0 \<or> asset_id from = aid)
          (asset_times_price from (core_exchange_rate (current_feed m)))))"

text \<open>The amount obtained and the changes of the asset pool and the core pool.\<close>

definition uia_diffs :: "safe \<Rightarrow> nat \<Rightarrow> price \<Rightarrow> asset \<Rightarrow> (asset \<times> int \<times> int) result" where
  "uia_diffs S aid r from =
     (if asset_id from = aid then
        rbind (asset_times_price from r) (\<lambda>to.
        rbind (asset_neg S to) (\<lambda>n. Inr (to, amount from, amount n)))
      else
        rbind (asset_times_price from r) (\<lambda>to.
        rbind (asset_neg S to) (\<lambda>n. Inr (to, amount n, amount from))))"

definition add_to_pools :: "safe \<Rightarrow> int \<Rightarrow> int \<Rightarrow> asset_dynamic_data_object \<Rightarrow> asset_dynamic_data_object result" where
  "add_to_pools S da dc d =
     rbind (S (asset_pool d + da)) (\<lambda>a.
     rbind (S (core_pool d + dc)) (\<lambda>c. Inr (d\<lparr>asset_pool := a, core_pool := c\<rparr>)))"

definition convert_uia :: "safe \<Rightarrow> nat \<Rightarrow> asset \<Rightarrow> database \<Rightarrow> (asset \<times> database) result" where
  "convert_uia S aid from db =
     rbind (idx_get (assets db) aid) (\<lambda>ao.
     rbind (idx_get (dynamic_data db) (dynamic_asset_data_id ao)) (\<lambda>add.
     fc_assert (is_exchangeable (asset_opts ao) \<and> \<not> is_null (opt_exchange_rate (asset_opts ao)))
    (fc_assert (asset_id from = aid \<or> asset_id from = 0)
    (rbind (uia_diffs S aid (opt_exchange_rate (asset_opts ao)) from) (\<lambda>(to, da, dc).
     rbind (S (asset_pool add + da)) (\<lambda>a. fc_assert (a \<ge> 0)
    (rbind (S (core_pool add + dc)) (\<lambda>c. fc_assert (c \<ge> 0)
    (rbind (modify_dynamic_data (dynamic_asset_data_id ao) (add_to_pools S da dc) db) (\<lambda>db'.
       Inr (to, db'))))))))))) "

definition convert :: "safe \<Rightarrow> nat \<Rightarrow> asset \<Rightarrow> database \<Rightarrow> (asset \<times> database) result" where
  "convert S aid from db =
     rbind (idx_get (assets db) aid) (\<lambda>ao.
     if aid = 0 then fc_assert (asset_id from = 0) (Inr (from, db))
     else if is_monitored_asset ao then rbind (convert_mia aid from db) (\<lambda>to. Inr (to, db))
     else convert_uia S aid from db)"

definition can_convert :: "safe \<Rightarrow> nat \<Rightarrow> asset \<Rightarrow> database \<Rightarrow> asset option result" where
  "can_convert S aid from db =
     rbind (idx_get (assets db) aid) (\<lambda>ao.
     rbind (idx_get (dynamic_data db) (dynamic_asset_data_id ao)) (\<lambda>add.
     if aid = 0 then Inr (if asset_id from = 0 then Some from else None)
     else if \<not> is_exchangeable (asset_opts ao) \<or> is_null (opt_exchange_rate (asset_opts ao)) then Inr None
     else case monitored_asset_opts ao of
       Some m \<Rightarrow>
         if feed_is_valid (head_block_time db) m \<and> (asset_id from = 0 \<or> asset_id from = aid)
         then rbind (asset_times_price from (core_exchange_rate (current_feed m))) (\<lambda>to. Inr (Some to))
         else Inr None
     | None \<Rightarrow>
         if asset_id from \<noteq> aid \<and> asset_id from \<noteq> 0 then Inr None
         else rbind (uia_diffs S aid (opt_exchange_rate (asset_opts ao)) from) (\<lambda>(to, da, dc).
              rbind (S (asset_pool add + da)) (\<lambda>a.
              if a < 0 then Inr None
              else rbind (S (core_pool add + dc)) (\<lambda>c.
                   if c < 0 then Inr None else Inr (Some to))))))"

section \<open>The median\<close>

lemma set_insert_feed: "set (insert_feed f fs) = insert f (set fs)"
  by (induction fs) auto

lemma length_sort_feeds [simp]: "length (sort_feeds fs) = length fs"
proof -
  have "length (insert_feed f gs) = Suc (length gs)" for f gs by (induction gs) auto
  then show ?thesis unfolding sort_feeds_def by (induction fs) auto
qed

lemma set_sort_feeds [simp]: "set (sort_feeds fs) = set fs"
  unfolding sort_feeds_def by (induction fs) (auto simp: set_insert_feed)

definition same_pair :: "price \<Rightarrow> price \<Rightarrow> bool" where
  "same_pair p q \<longleftrightarrow> asset_id (base p) = asset_id (base q) \<and> asset_id (quote p) = asset_id (quote q)"

definition feed_rate :: "price_feed \<Rightarrow> rat" where
  "feed_rate f = rate (core_exchange_rate f)"

definition valid_feeds :: "price_feed list \<Rightarrow> bool" where
  "valid_feeds fs \<longleftrightarrow> (\<forall>f \<in> set fs. \<forall>g \<in> set fs. valid_price (core_exchange_rate f) \<and>
     same_pair (core_exchange_rate f) (core_exchange_rate g))"

lemma feed_less_rate:
  assumes "valid_price (core_exchange_rate f)" "valid_price (core_exchange_rate g)"
    "same_pair (core_exchange_rate f) (core_exchange_rate g)"
  shows "price_less (core_exchange_rate f) (core_exchange_rate g) \<longleftrightarrow> feed_rate f < feed_rate g"
  using cross_rate(1) [OF assms(1,2)] assms(3) by (simp add: price_less_def same_pair_def feed_rate_def)

lemma sorted_insert_feed:
  assumes "valid_feeds (f # fs)" "sorted (map feed_rate fs)"
  shows "sorted (map feed_rate (insert_feed f fs))"
  using assms
proof (induction fs)
  case (Cons g gs)
  have v: "valid_feeds (f # gs)" using Cons.prems(1) by (auto simp: valid_feeds_def)
  have c: "price_less (core_exchange_rate f) (core_exchange_rate g) \<longleftrightarrow> feed_rate f < feed_rate g"
    using Cons.prems(1) by (intro feed_less_rate) (auto simp: valid_feeds_def)
  from Cons.IH [OF v] Cons.prems(2) c show ?case
    by (auto simp: set_insert_feed)
qed simp

lemma sorted_sort_feeds: "valid_feeds fs \<Longrightarrow> sorted (map feed_rate (sort_feeds fs))"
proof (induction fs)
  case (Cons f fs)
  then have "sorted (map feed_rate (sort_feeds fs))" by (auto simp: valid_feeds_def)
  with Cons.prems sorted_insert_feed [of f "sort_feeds fs"] show ?case
    by (simp add: sort_feeds_def valid_feeds_def set_sort_feeds [unfolded sort_feeds_def])
qed (simp add: sort_feeds_def)

lemma length_filter_insert_feed:
  "length (filter P (insert_feed f fs)) = length (filter P (f # fs))"
  by (induction fs) auto

lemma length_filter_sort_feeds: "length (filter P (sort_feeds fs)) = length (filter P fs)"
  unfolding sort_feeds_def by (induction fs) (auto simp: length_filter_insert_feed)

lemma sorted_nth_counts:
  assumes "sorted (map r xs)" "k < length xs"
  shows "k < length (filter (\<lambda>x. r x \<le> r (xs ! k)) xs)"
    "length xs - k \<le> length (filter (\<lambda>x. r (xs ! k) \<le> r x) xs)"
proof -
  have le: "r x \<le> r (xs ! k)" if "x \<in> set (take (Suc k) xs)" for x
  proof -
    from that obtain i where "i < Suc k" "i < length xs" "x = xs ! i"
      by (auto simp: in_set_conv_nth)
    with assms show ?thesis using sorted_nth_mono [OF assms(1), of i k] by simp
  qed
  have "filter (\<lambda>x. r x \<le> r (xs ! k)) (take (Suc k) xs) = take (Suc k) xs"
    using le by (simp add: filter_id_conv)
  moreover have "filter P xs = filter P (take (Suc k) xs) @ filter P (drop (Suc k) xs)" for P
    by (metis append_take_drop_id filter_append)
  ultimately have "length (take (Suc k) xs) \<le> length (filter (\<lambda>x. r x \<le> r (xs ! k)) xs)"
    by (metis le_add1 length_append)
  with assms(2) show "k < length (filter (\<lambda>x. r x \<le> r (xs ! k)) xs)" by simp
  have ge: "r (xs ! k) \<le> r x" if "x \<in> set (drop k xs)" for x
  proof -
    from that obtain i where "i < length xs - k" "x = xs ! (k + i)"
      by (auto simp: in_set_conv_nth)
    with assms show ?thesis using sorted_nth_mono [OF assms(1), of k "k + i"] by simp
  qed
  have "filter (\<lambda>x. r (xs ! k) \<le> r x) (drop k xs) = drop k xs"
    using ge by (simp add: filter_id_conv)
  moreover have "filter P xs = filter P (take k xs) @ filter P (drop k xs)" for P
    by (metis append_take_drop_id filter_append)
  ultimately show "length xs - k \<le> length (filter (\<lambda>x. r (xs ! k) \<le> r x) xs)"
    by (metis le_add2 length_append length_drop)
qed

text \<open>
  C35: With enough live feeds, all valid and for the same pair of assets, the current feed
  becomes the median: one of the live feeds, with at least half of them at or below its
  rate and at least half at or above it; with too few it becomes the null feed.
\<close>

theorem median_feed:
  assumes "valid_feeds (map snd (live_feeds t m))" and "0 < minimum_feeds m"
  shows "\<exists>m'. update_median_feeds t m = Inr m' \<and>
    (let fs = map snd (live_feeds t m); c = current_feed m' in
     if int (length fs) < minimum_feeds m then c = null_feed
     else c \<in> set fs \<and>
       length fs \<le> 2 * length (filter (\<lambda>f. feed_rate f \<le> feed_rate c) fs) \<and>
       length fs \<le> 2 * length (filter (\<lambda>f. feed_rate c \<le> feed_rate f) fs))"
proof -
  let ?fs = "map snd (live_feeds t m)"
  consider "int (length ?fs) < minimum_feeds m" | "\<not> int (length ?fs) < minimum_feeds m" "length ?fs = 1"
    | "\<not> int (length ?fs) < minimum_feeds m" "1 < length ?fs"
    using assms(2) by (cases "length ?fs = 1") auto
  then show ?thesis
  proof cases
    case 1
    then show ?thesis by (simp add: update_median_feeds_def Let_def)
  next
    case 2
    then obtain f where "?fs = [f]" by (metis One_nat_def length_0_conv length_Suc_conv)
    with 2 show ?thesis by (simp add: update_median_feeds_def Let_def del: length_map)
  next
    case 3
    let ?k = "length ?fs div 2" and ?s = "sort_feeds ?fs"
    have k: "?k < length ?s" using 3 by simp
    note cnt = sorted_nth_counts [OF sorted_sort_feeds [OF assms(1)] k]
    have "?s ! ?k \<in> set ?fs" using nth_mem [OF k] by (simp only: set_sort_feeds)
    moreover have "length ?fs \<le> 2 * length (filter (\<lambda>f. feed_rate f \<le> feed_rate (?s ! ?k)) ?fs)"
      using cnt(1) unfolding length_filter_sort_feeds by linarith
    moreover have "length ?fs \<le> 2 * length (filter (\<lambda>f. feed_rate (?s ! ?k) \<le> feed_rate f) ?fs)"
      using cnt(2) unfolding length_filter_sort_feeds length_sort_feeds by linarith
    moreover obtain m' where "update_median_feeds t m = Inr m'" "current_feed m' = ?s ! ?k"
      using 3 by (cases "live_feeds t m = []") (simp_all add: update_median_feeds_def Let_def)
    ultimately show ?thesis using 3(1) unfolding Let_def by (intro exI [of _ m']) (simp only: if_False simp_thms)
  qed
qed

definition feed_example :: "int \<Rightarrow> price_feed" where
  "feed_example n = \<lparr>core_exchange_rate = \<lparr>base = mk_asset n 7, quote = mk_asset 10 0\<rparr>\<rparr>"

definition monitored_example :: monitored_asset_options where
  "monitored_example = \<lparr>feeds = [(1, 900, feed_example 30), (2, 950, feed_example 10), (3, 5, feed_example 99), (4, 980, feed_example 20)],
     current_feed = null_feed, current_feed_publication_time = 0, feed_lifetime_sec = 500, minimum_feeds = 1\<rparr>"

theorem median_feed_witness:
  "\<exists>m'. update_median_feeds 1000 monitored_example = Inr m' \<and> current_feed m' = feed_example 20 \<and>
     current_feed m' \<in> set (map snd (live_feeds 1000 monitored_example))"
proof -
  have l: "map snd (live_feeds 1000 monitored_example) = [feed_example 30, feed_example 10, feed_example 20]"
    by (simp add: live_feeds_def monitored_example_def)
  have v: "valid_feeds (map snd (live_feeds 1000 monitored_example))"
    unfolding l by (simp add: valid_feeds_def feed_example_def valid_price_def same_pair_def mk_asset_def in_int64_def)
  have n: "0 < minimum_feeds monitored_example" by (simp add: monitored_example_def)
  obtain m' where m: "update_median_feeds 1000 monitored_example = Inr m'" "current_feed m' = feed_example 20"
    using l by (simp add: update_median_feeds_def Let_def live_feeds_def monitored_example_def sort_feeds_def
        feed_example_def price_less_def cross_def mk_asset_def)
  have "\<not> int (length (map snd (live_feeds 1000 monitored_example))) < minimum_feeds monitored_example"
    unfolding l by (simp add: monitored_example_def)
  with median_feed [OF v n] m show ?thesis unfolding Let_def by auto
qed

section \<open>Conversions keep the books\<close>

text \<open>What a user-issued asset's pools hold, and what changes in a conversion.\<close>

lemma asset_neg_exact: "safe_exact S \<Longrightarrow> asset_neg S a = Inr b \<Longrightarrow> amount b = - amount a \<and> asset_id b = asset_id a"
  by (auto simp: asset_neg_def res_simps mk_asset_def dest: safe_exactD)

lemma uia_diffs_exact:
  assumes "safe_exact S" "uia_diffs S i r from = Inr (to, da, dc)"
  shows "asset_times_price from r = Inr to"
    "da = (if asset_id from = i then amount from else - amount to)"
    "dc = (if asset_id from = i then - amount to else amount from)"
  using assms(2) by (auto simp: uia_diffs_def res_simps dest!: asset_neg_exact [OF assms(1)] split: if_splits)

lemma convert_uia_Inr:
  assumes S: "safe_exact S" and c: "convert_uia S i from db = Inr (to, db')"
  obtains ao d t where "idx_find (assets db) i = Some ao" "idx_find (dynamic_data db) (dynamic_asset_data_id ao) = Some d"
    "asset_times_price from (opt_exchange_rate (asset_opts ao)) = Inr to"
    "asset_id from = i \<or> asset_id from = 0" "db' = db\<lparr>dynamic_data := t\<rparr>"
    "idx_find t = (idx_find (dynamic_data db))(dynamic_asset_data_id ao \<mapsto>
       d\<lparr>asset_pool := asset_pool d + (if asset_id from = i then amount from else - amount to),
         core_pool := core_pool d + (if asset_id from = i then - amount to else amount from)\<rparr>)"
    "0 \<le> asset_pool d + (if asset_id from = i then amount from else - amount to)"
    "0 \<le> core_pool d + (if asset_id from = i then - amount to else amount from)"
proof -
  from c obtain ao d da dc a0 c0 where ao: "idx_find (assets db) i = Some ao"
    "idx_find (dynamic_data db) (dynamic_asset_data_id ao) = Some d"
    "asset_id from = i \<or> asset_id from = 0"
    and u: "uia_diffs S i (opt_exchange_rate (asset_opts ao)) from = Inr (to, da, dc)"
    and s: "S (asset_pool d + da) = Inr a0" "0 \<le> a0" "S (core_pool d + dc) = Inr c0" "0 \<le> c0"
    and m: "modify_dynamic_data (dynamic_asset_data_id ao) (add_to_pools S da dc) db = Inr db'"
    by (auto simp: convert_uia_def idx_get_def res_simps)
  note e = uia_diffs_exact [OF S u]
  from m obtain t where t: "idx_update no_clash (dynamic_data db) (dynamic_asset_data_id ao) (add_to_pools S da dc) = Inr t"
    "db' = db\<lparr>dynamic_data := t\<rparr>"
    by (auto simp: modify_dynamic_data_def res_simps)
  have "add_to_pools S da dc d = Inr y \<Longrightarrow> y = d\<lparr>asset_pool := asset_pool d + da, core_pool := core_pool d + dc\<rparr>" for y
    by (auto simp: add_to_pools_def res_simps dest!: safe_exactD [OF S])
  then have "idx_find t = (idx_find (dynamic_data db))(dynamic_asset_data_id ao \<mapsto>
      d\<lparr>asset_pool := asset_pool d + da, core_pool := core_pool d + dc\<rparr>)"
    using idx_update_Inr(1) [OF t(1)] ao(2) by auto
  with that [OF ao(1,2) e(1) ao(3) t(2)] s e(2,3) show ?thesis
    using safe_exactD [OF S s(1)] safe_exactD [OF S s(3)] by simp
qed

lemma safe_again: "safe_exact S \<Longrightarrow> S x = Inr y \<Longrightarrow> S x = Inr x \<and> y = x"
  by (metis safe_exactD)

text \<open>
  What \<open>can_convert\<close> promises during evaluation \<open>convert\<close> delivers when the operation
  is applied: it succeeds with the same amount; for a user-issued asset the pools take in
  exactly what is given and give out exactly what is received, and stay non-negative.
\<close>

theorem can_convert_sound:
  assumes S: "safe_exact S" and c: "can_convert S i from db = Inr (Some to)"
  shows "\<exists>db'. convert S i from db = Inr (to, db') \<and>
    (\<forall>ao d. idx_find (assets db) i = Some ao \<longrightarrow> idx_find (dynamic_data db) (dynamic_asset_data_id ao) = Some d \<longrightarrow>
       (if i = 0 \<or> is_monitored_asset ao then db' = db
        else \<exists>d'. idx_find (dynamic_data db') (dynamic_asset_data_id ao) = Some d' \<and> 0 \<le> asset_pool d' \<and> 0 \<le> core_pool d' \<and>
          (if asset_id from = i then asset_pool d' = asset_pool d + amount from \<and> core_pool d' = core_pool d - amount to
           else asset_pool d' = asset_pool d - amount to \<and> core_pool d' = core_pool d + amount from)))"
proof -
  from c obtain ao d where ao: "idx_find (assets db) i = Some ao"
    "idx_find (dynamic_data db) (dynamic_asset_data_id ao) = Some d"
    by (auto simp: can_convert_def idx_get_def res_simps)
  show ?thesis
  proof (cases "i = 0 \<or> is_monitored_asset ao")
    case True
    with c ao show ?thesis
      by (auto simp: can_convert_def convert_def convert_mia_def idx_get_def is_monitored_asset_def res_simps
          split: if_splits option.splits)
  next
    case False
    with c ao obtain da dc a0 c0 where
      g: "is_exchangeable (asset_opts ao)" "\<not> is_null (opt_exchange_rate (asset_opts ao))"
        "asset_id from = i \<or> asset_id from = 0"
      and u: "uia_diffs S i (opt_exchange_rate (asset_opts ao)) from = Inr (to, da, dc)"
      and s: "S (asset_pool d + da) = Inr a0" "\<not> a0 < 0" "S (core_pool d + dc) = Inr c0" "\<not> c0 < 0"
      by (auto simp: can_convert_def idx_get_def is_monitored_asset_def res_simps split: if_splits option.splits)
    note sa = safe_again [OF S s(1)] and sc = safe_again [OF S s(3)]
    have "\<exists>t. idx_update no_clash (dynamic_data db) (dynamic_asset_data_id ao) (add_to_pools S da dc) = Inr t"
      using ao(2) sa sc by (simp add: idx_update_def add_to_pools_def idx_modify_def conflicts_def no_clash_def list_ex_iff)
    then obtain db' where cv: "convert_uia S i from db = Inr (to, db')"
      using ao g u s sa sc by (auto simp: convert_uia_def idx_get_def modify_dynamic_data_def)
    have "convert S i from db = Inr (to, db')" using cv False ao(1) by (simp add: convert_def idx_get_def)
    moreover obtain d' where "idx_find (dynamic_data db') (dynamic_asset_data_id ao) = Some d'"
      "0 \<le> asset_pool d'" "0 \<le> core_pool d'"
      "asset_pool d' = asset_pool d + (if asset_id from = i then amount from else - amount to)"
      "core_pool d' = core_pool d + (if asset_id from = i then - amount to else amount from)"
      by (rule convert_uia_Inr [OF S cv]) (use ao that in auto)
    ultimately show ?thesis using ao False by (intro exI [of _ db']) auto
  qed
qed

definition uia_example :: database where
  "uia_example = empty_db\<lparr>
     assets := \<lparr>next_id = 2, rows = [(1, \<lparr>symbol = ''UIA'', precision = 2, issuer = 5, description = [],
       monitored_asset_opts = None,
       asset_opts = \<lparr>max_supply = 1000, opt_exchange_rate = \<lparr>base = mk_asset 2 1, quote = mk_asset 3 0\<rparr>,
         is_exchangeable = True, fixed_max_supply_ext = None\<rparr>,
       dynamic_asset_data_id = 1\<rparr>)]\<rparr>,
     dynamic_data := \<lparr>next_id = 2, rows = [(1, \<lparr>current_supply = 500, asset_pool = 40, core_pool = 60\<rparr>)]\<rparr>\<rparr>"

theorem can_convert_sound_witness:
  "\<exists>db' d'. convert safe_int64 1 (mk_asset 20 1) uia_example = Inr (mk_asset 30 0, db') \<and>
     idx_find (dynamic_data db') 1 = Some d' \<and> asset_pool d' = 60 \<and> core_pool d' = 30"
proof -
  have c: "can_convert safe_int64 1 (mk_asset 20 1) uia_example = Inr (Some (mk_asset 30 0))"
    by (simp add: can_convert_def uia_example_def idx_get_def idx_find_def uia_diffs_def asset_times_price_def
        scale_amount_def asset_neg_def mk_asset_def is_null_def price_eq_def null_price_def GRAPHENE_MAX_SHARE_SUPPLY_def
        to_int64_def safe_int64_def in_int64_def)
  from can_convert_sound [OF safe_int64_exact c] show ?thesis
    by (auto simp: uia_example_def idx_find_def is_monitored_asset_def mk_asset_def)
qed

end
