(* ===== verification/Holdings.thy ===== *)
theory Holdings
  imports Asset_Conversion
begin

text \<open>
  The books: how much of an asset the database holds, in account balances, vesting
  balances, the escrows of content and purchases, and the pools of assets. The lemmas give
  the effect of every primitive update on this amount; the evaluators' theorems follow from
  them by composition. \<open>get_real_supply\<close> of \<open>db_decent.cpp\<close> is the code's own version.
\<close>

section \<open>Amounts held\<close>

definition held :: "nat \<Rightarrow> asset \<Rightarrow> int" where
  "held a x = (if asset_id x = a then amount x else 0)"

definition pool_in :: "nat \<Rightarrow> asset_object index \<Rightarrow> asset_dynamic_data_object index \<Rightarrow> int" where
  "pool_in a ts ds =
     (case idx_find ts a of
        None \<Rightarrow> 0
      | Some ao \<Rightarrow> (case idx_find ds (dynamic_asset_data_id ao) of None \<Rightarrow> 0 | Some d \<Rightarrow> asset_pool d))"

definition pool_of :: "nat \<Rightarrow> database \<Rightarrow> int" where
  "pool_of a db = pool_in a (assets db) (dynamic_data db)"

definition holdings :: "nat \<Rightarrow> database \<Rightarrow> int" where
  "holdings a db =
     balance_supply a db + idx_total (\<lambda>v. held a (balance v)) (vestings db) +
     idx_total (\<lambda>c. held a (publishing_fee_escrow c)) (contents db) +
     idx_total (\<lambda>b. held a (escrow_price b)) (buyings db) +
     (if a = 0 then idx_total core_pool (dynamic_data db) else 0) + pool_of a db"

text \<open>Well-kept books: every index is in order and no two assets share their dynamic data.\<close>

definition books :: "database \<Rightarrow> bool" where
  "books db \<longleftrightarrow> solvent db \<and> wf_index (vestings db) \<and> wf_index (contents db) \<and> wf_index (buyings db) \<and>
     wf_index (dynamic_data db) \<and> wf_index (assets db) \<and>
     distinct (map (\<lambda>r. dynamic_asset_data_id (snd r)) (rows (assets db)))"

text \<open>The part of the state the books depend on.\<close>

definition money ::
  "database \<Rightarrow> account_balance_object index \<times> asset_object index \<times> asset_dynamic_data_object index \<times>
     vesting_balance_object index \<times> content_object index \<times> buying_object index" where
  "money db = (balances db, assets db, dynamic_data db, vestings db, contents db, buyings db)"

lemma money_cong:
  assumes "money db' = money db"
  shows "balances db' = balances db" "assets db' = assets db" "dynamic_data db' = dynamic_data db"
    "vestings db' = vestings db" "contents db' = contents db" "buyings db' = buyings db"
  using assms by (simp_all add: money_def)

lemma money_holdings: "money db' = money db \<Longrightarrow> holdings a db' = holdings a db"
  using money_cong [of db' db] by (simp add: holdings_def balance_supply_def pool_of_def)

lemma money_books: "money db' = money db \<Longrightarrow> books db' = books db"
  using money_cong [of db' db] by (simp add: books_def solvent_def)

section \<open>Updates that leave the books alone\<close>

named_theorems frame \<open>updates outside the books\<close>

lemma modify_account_money [frame]: "modify_account i f db = Inr db' \<Longrightarrow> money db' = money db"
  by (auto simp: modify_account_def res_simps money_def)

lemma create_seeder_money [frame]: "create_seeder s db = Inr db' \<Longrightarrow> money db' = money db"
  by (auto simp: create_seeder_def res_simps money_def)

lemma modify_seeder_money [frame]: "modify_seeder i f db = Inr db' \<Longrightarrow> money db' = money db"
  by (auto simp: modify_seeder_def res_simps money_def)

lemma create_stats_money [frame]: "create_stats s db = Inr (i, db') \<Longrightarrow> money db' = money db"
  by (auto simp: create_stats_def res_simps money_def)

lemma modify_stats_money [frame]: "modify_stats i f db = Inr db' \<Longrightarrow> money db' = money db"
  by (auto simp: modify_stats_def res_simps money_def)

lemma create_subscription_money [frame]: "create_subscription s db = Inr db' \<Longrightarrow> money db' = money db"
  by (auto simp: create_subscription_def res_simps money_def)

lemma modify_subscription_money [frame]: "modify_subscription i f db = Inr db' \<Longrightarrow> money db' = money db"
  by (auto simp: modify_subscription_def res_simps money_def)

lemma create_detail_money [frame]: "create_detail d db = Inr db' \<Longrightarrow> money db' = money db"
  by (auto simp: create_detail_def res_simps money_def)

lemma modify_detail_money [frame]: "modify_detail i f db = Inr db' \<Longrightarrow> money db' = money db"
  by (auto simp: modify_detail_def res_simps money_def)

lemma modify_miner_money [frame]: "modify_miner i f db = Inr db' \<Longrightarrow> money db' = money db"
  by (auto simp: modify_miner_def res_simps money_def)

lemma modify_permission_money [frame]: "modify_permission i f db = Inr db' \<Longrightarrow> money db' = money db"
  by (auto simp: modify_permission_def res_simps money_def)

lemma push_applied_operation_money [simp]: "money (push_applied_operation op db) = money db"
  by (simp add: push_applied_operation_def money_def)

lemma fold_res_money:
  assumes "fold_res f xs db = Inr db'" "\<And>x s s'. f x s = Inr s' \<Longrightarrow> money s' = money s"
  shows "money db' = money db"
  by (rule fold_res_invariant [OF assms(1), where P = "\<lambda>s. money s = money db"]) (use assms(2) in auto)

section \<open>Updates of the books\<close>

text \<open>An account gains or loses.\<close>

lemma adjust_balance_holdings:
  assumes "safe_exact S" "books db" "adjust_balance S x d db = Inr db'"
  shows "books db'" "holdings a db' = holdings a db + held a d"
proof -
  have s: "solvent db" using assms(2) by (simp add: books_def)
  note adj = adjust_balance_Inr(1,2) [OF assms(1) s assms(3)] adjust_balance_Inr(4) [OF assms(1) s assms(3), of a]
  from adj(1) obtain t where "db' = db\<lparr>balances := t\<rparr>" ..
  with adj assms(2) show "books db'" "holdings a db' = holdings a db + held a d"
    by (simp_all add: books_def holdings_def pool_of_def held_def)
qed

lemma create_vesting_holdings:
  assumes "books db" "create_vesting v db = Inr (i, db')"
  shows "books db'" "holdings a db' = holdings a db + held a (balance v)"
proof -
  from assms(2) obtain t where t: "idx_create no_clash (vestings db) (\<lambda>_. v) = Inr (i, t)" "db' = db\<lparr>vestings := t\<rparr>"
    by (auto simp: create_vesting_def res_simps)
  have "wf_index (vestings db)" using assms(1) by (simp add: books_def)
  from idx_total_create [OF this t(1)] t(2) assms(1)
  show "books db'" "holdings a db' = holdings a db + held a (balance v)"
    by (simp_all add: books_def holdings_def pool_of_def balance_supply_def solvent_def)
qed

lemma modify_vesting_holdings:
  assumes "books db" "modify_vesting i f db = Inr db'"
    and "\<And>v v'. f v = Inr v' \<Longrightarrow> held a (balance v') = held a (balance v) + n"
  shows "books db'" "holdings a db' = holdings a db + n"
proof -
  from assms(2) obtain t where t: "idx_update no_clash (vestings db) i f = Inr t" "db' = db\<lparr>vestings := t\<rparr>"
    by (auto simp: modify_vesting_def res_simps)
  have "wf_index (vestings db)" using assms(1) by (simp add: books_def)
  then obtain v v' where "f v = Inr v'" "wf_index t"
    "idx_total (\<lambda>v. held a (balance v)) t = idx_total (\<lambda>v. held a (balance v)) (vestings db) - held a (balance v) + held a (balance v')"
    by (rule idx_total_update [OF _ t(1), of "\<lambda>v. held a (balance v)"])
  with assms(1,3) t(2) show "books db'" "holdings a db' = holdings a db + n"
    by (simp_all add: books_def holdings_def pool_of_def balance_supply_def solvent_def)
qed

lemma create_content_holdings:
  assumes "books db" "create_content c db = Inr (i, db')"
  shows "books db'" "holdings a db' = holdings a db + held a (publishing_fee_escrow c)"
    "idx_find (contents db') = (idx_find (contents db))(i \<mapsto> c)"
proof -
  from assms(2) obtain t where t: "idx_create content_clash (contents db) (\<lambda>_. c) = Inr (i, t)" "db' = db\<lparr>contents := t\<rparr>"
    by (auto simp: create_content_def res_simps)
  have "wf_index (contents db)" using assms(1) by (simp add: books_def)
  from idx_total_create [OF this t(1)] t(2) assms(1)
  show "books db'" "holdings a db' = holdings a db + held a (publishing_fee_escrow c)"
    "idx_find (contents db') = (idx_find (contents db))(i \<mapsto> c)"
    by (simp_all add: books_def holdings_def pool_of_def balance_supply_def solvent_def)
qed

lemma modify_content_holdings:
  assumes "books db" "modify_content i f db = Inr db'" "idx_find (contents db) i = Some c"
    and "\<And>c'. f c = Inr c' \<Longrightarrow> held a (publishing_fee_escrow c') = held a (publishing_fee_escrow c) + n"
  shows "books db'" "holdings a db' = holdings a db + n"
proof -
  from assms(2) obtain t where t: "idx_update content_clash (contents db) i f = Inr t" "db' = db\<lparr>contents := t\<rparr>"
    by (auto simp: modify_content_def res_simps)
  have "wf_index (contents db)" using assms(1) by (simp add: books_def)
  then obtain c0 c' where "idx_find (contents db) i = Some c0" "f c0 = Inr c'" "wf_index t"
    "idx_total (\<lambda>c. held a (publishing_fee_escrow c)) t = idx_total (\<lambda>c. held a (publishing_fee_escrow c)) (contents db)
       - held a (publishing_fee_escrow c0) + held a (publishing_fee_escrow c')"
    by (rule idx_total_update [OF _ t(1), of "\<lambda>c. held a (publishing_fee_escrow c)"])
  with assms(1,3,4) t(2) show "books db'" "holdings a db' = holdings a db + n"
    by (simp_all add: books_def holdings_def pool_of_def balance_supply_def solvent_def)
qed

lemma create_buying_holdings:
  assumes "books db" "create_buying b db = Inr (i, db')"
  shows "books db'" "holdings a db' = holdings a db + held a (escrow_price b)"
proof -
  from assms(2) obtain t where t: "idx_create buying_clash (buyings db) (\<lambda>_. b) = Inr (i, t)" "db' = db\<lparr>buyings := t\<rparr>"
    by (auto simp: create_buying_def res_simps)
  have "wf_index (buyings db)" using assms(1) by (simp add: books_def)
  from idx_total_create [OF this t(1)] t(2) assms(1)
  show "books db'" "holdings a db' = holdings a db + held a (escrow_price b)"
    by (simp_all add: books_def holdings_def pool_of_def balance_supply_def solvent_def)
qed

lemma modify_buying_holdings:
  assumes "books db" "modify_buying i f db = Inr db'" "idx_find (buyings db) i = Some b"
  shows "books db'" "holdings a db' = holdings a db - held a (escrow_price b) + held a (escrow_price (f b))"
proof -
  from assms(2) obtain t where t: "idx_update buying_clash (buyings db) i (\<lambda>x. Inr (f x)) = Inr t" "db' = db\<lparr>buyings := t\<rparr>"
    by (auto simp: modify_buying_def res_simps)
  have "wf_index (buyings db)" using assms(1) by (simp add: books_def)
  then obtain b0 b' where "idx_find (buyings db) i = Some b0" "b' = f b0" "wf_index t"
    "idx_total (\<lambda>b. held a (escrow_price b)) t = idx_total (\<lambda>b. held a (escrow_price b)) (buyings db)
       - held a (escrow_price b0) + held a (escrow_price b')"
    by (rule idx_total_update [OF _ t(1), of "\<lambda>b. held a (escrow_price b)"]) (use that in auto)
  with assms(1,3) t(2) show "books db'" "holdings a db' = holdings a db - held a (escrow_price b) + held a (escrow_price (f b))"
    by (simp_all add: books_def holdings_def pool_of_def balance_supply_def solvent_def)
qed

lemma asset_data_unique:
  assumes "books db" "idx_find (assets db) i = Some x" "idx_find (assets db) j = Some y"
    "dynamic_asset_data_id x = dynamic_asset_data_id y"
  shows "i = j"
proof -
  have "(i, x) \<in> set (rows (assets db))" "(j, y) \<in> set (rows (assets db))"
    using assms(2,3) by (simp_all add: idx_find_def map_of_SomeD)
  moreover have "inj_on (\<lambda>r. dynamic_asset_data_id (snd r)) (set (rows (assets db)))"
    using assms(1) by (simp add: books_def distinct_map)
  ultimately have "(i, x) = (j, y)" 
    using assms(4) inj_onD [of "\<lambda>r. dynamic_asset_data_id (snd r)" "set (rows (assets db))" "(i, x)" "(j, y)"] by simp
  then show ?thesis by simp
qed

text \<open>The pools of asset \<open>i\<close> change by \<open>da\<close> of the asset and \<open>dc\<close> of the core asset.\<close>

lemma modify_pools_holdings:
  assumes b: "books db" and m: "modify_dynamic_data (dynamic_asset_data_id ao) f db = Inr db'"
    and ao: "idx_find (assets db) i = Some ao"
    and f: "\<And>d d'. f d = Inr d' \<Longrightarrow> asset_pool d' = asset_pool d + da \<and> core_pool d' = core_pool d + dc"
  shows "books db'" "holdings a db' = holdings a db + (if a = i then da else 0) + (if a = 0 then dc else 0)"
proof -
  from m obtain t where t: "idx_update no_clash (dynamic_data db) (dynamic_asset_data_id ao) f = Inr t"
    "db' = db\<lparr>dynamic_data := t\<rparr>"
    by (auto simp: modify_dynamic_data_def res_simps)
  have w: "wf_index (dynamic_data db)" using b by (simp add: books_def)
  obtain d d' where d: "idx_find (dynamic_data db) (dynamic_asset_data_id ao) = Some d" "f d = Inr d'"
    "idx_total core_pool t = idx_total core_pool (dynamic_data db) - core_pool d + core_pool d'"
    "wf_index t" "idx_find t = (idx_find (dynamic_data db))(dynamic_asset_data_id ao \<mapsto> d')"
    by (rule idx_total_update [OF w t(1), of core_pool])
  have "pool_of a db' = pool_of a db + (if a = i then da else 0)"
  proof (cases "a = i")
    case True
    with d(1,5) ao f [OF d(2)] t(2) show ?thesis by (simp add: pool_of_def pool_in_def)
  next
    case False
    then have "dynamic_asset_data_id x \<noteq> dynamic_asset_data_id ao" if "idx_find (assets db) a = Some x" for x
      using asset_data_unique [OF b that ao] by auto
    with d(5) t(2) False show ?thesis by (auto simp: pool_of_def pool_in_def split: option.splits)
  qed
  with b d t(2) f [OF d(2)]
  show "books db'" "holdings a db' = holdings a db + (if a = i then da else 0) + (if a = 0 then dc else 0)"
    by (simp_all add: books_def holdings_def balance_supply_def solvent_def)
qed

lemma add_to_pools_exact:
  assumes "safe_exact S" "add_to_pools S da dc d = Inr d'"
  shows "asset_pool d' = asset_pool d + da \<and> core_pool d' = core_pool d + dc"
  using assms(2) by (auto simp: add_to_pools_def res_simps dest!: safe_exactD [OF assms(1)])

lemma convert_holdings:
  assumes S: "safe_exact S" and b: "books db" and c: "convert S i from db = Inr (to, db')"
    and u: "\<And>ao. idx_find (assets db) i = Some ao \<Longrightarrow> \<not> is_monitored_asset ao"
    and r: "\<And>ao. idx_find (assets db) i = Some ao \<Longrightarrow> i \<noteq> 0 \<Longrightarrow>
      {asset_id (base (opt_exchange_rate (asset_opts ao))), asset_id (quote (opt_exchange_rate (asset_opts ao)))} = {0, i}"
  shows "books db'" "holdings a db' = holdings a db + held a from - held a to"
proof -
  from c obtain ao where ao: "idx_find (assets db) i = Some ao" by (auto simp: convert_def idx_get_def res_simps)
  have "books db' \<and> holdings a db' = holdings a db + held a from - held a to"
  proof (cases "i = 0")
    case True
    with c ao b show ?thesis by (auto simp: convert_def idx_get_def res_simps)
  next
    case i: False
    with c ao u have cu: "convert_uia S i from db = Inr (to, db')" by (simp add: convert_def idx_get_def)
    then obtain add da dc where ud: "uia_diffs S i (opt_exchange_rate (asset_opts ao)) from = Inr (to, da, dc)"
      and m: "modify_dynamic_data (dynamic_asset_data_id ao) (add_to_pools S da dc) db = Inr db'"
      and f: "asset_id from = i \<or> asset_id from = 0"
      using ao by (auto simp: convert_uia_def idx_get_def res_simps)
    note e = uia_diffs_exact [OF S ud]
    have ids: "asset_id to = (if asset_id from = i then 0 else i)"
      using e(1) r [OF ao i] f i
      by (auto simp: asset_times_price_def scale_amount_def Let_def res_simps mk_asset_def doubleton_eq_iff split: if_splits)
    note mp = modify_pools_holdings [OF b m ao add_to_pools_exact [OF S, where da = da and dc = dc]]
    from mp(1) mp(2) [of a] e(2,3) ids f i show ?thesis by (auto simp: held_def)
  qed
  then show "books db'" "holdings a db' = holdings a db + held a from - held a to" by simp_all
qed

section \<open>The supply as the code computes it\<close>

definition real_supply_total :: "safe \<Rightarrow> real_supply \<Rightarrow> int result" where
  "real_supply_total S r =
     rbind (S (account_balances r + vesting_balances r)) (\<lambda>x.
     rbind (S (x + escrows r)) (\<lambda>y. S (y + pools r)))"

definition add_up :: "safe \<Rightarrow> ('a \<Rightarrow> int) \<Rightarrow> 'a list \<Rightarrow> int \<Rightarrow> int result" where
  "add_up S w xs = fold_res (\<lambda>x s. S (s + w x)) xs"

definition get_real_supply :: "safe \<Rightarrow> database \<Rightarrow> real_supply result" where
  "get_real_supply S db =
     rbind (add_up S bal_amount (filter (\<lambda>b. asset_type b = 0) (idx_objects (balances db))) 0) (\<lambda>ab.
     rbind (add_up S (\<lambda>v. amount (balance v)) (idx_objects (vestings db)) 0) (\<lambda>vb.
     rbind (add_up S (\<lambda>c. amount (publishing_fee_escrow c)) (idx_objects (contents db)) 0) (\<lambda>ce.
     rbind (add_up S (\<lambda>b. amount (escrow_price b)) (idx_objects (buyings db)) ce) (\<lambda>es.
     rbind (fold_res (\<lambda>ao s. rbind (idx_get (dynamic_data db) (dynamic_asset_data_id ao)) (\<lambda>d. S (s + core_pool d)))
              (idx_objects (assets db)) 0) (\<lambda>ps.
       Inr \<lparr>account_balances = ab, vesting_balances = vb, escrows = es, pools = ps\<rparr>)))))"

end
