(* ===== verification/Amount_String.thy ===== *)
theory Amount_String
  imports Asset
begin

text \<open>
  Decimal amounts of an asset as text (\<open>asset_object.cpp\<close>): \<open>amount_to_string\<close> and
  \<open>amount_from_string\<close>, with the operations of \<open>std::string\<close> and \<open>std::stoll\<close> they use.
  \<open>fc::to_string\<close> is a parameter \<open>T\<close>, assumed to print in decimal.
\<close>

section \<open>Characters, numbers and substrings\<close>

definition digit :: "nat \<Rightarrow> char" where
  "digit n = char_of (48 + n)"

definition isdigit :: "char \<Rightarrow> bool" where
  "isdigit c \<longleftrightarrow> 48 \<le> (of_char c :: nat) \<and> (of_char c :: nat) \<le> 57"

definition isspace :: "char \<Rightarrow> bool" where
  "isspace c \<longleftrightarrow> of_char c \<in> {9, 10, 11, 12, 13, 32 :: nat}"

fun dec_digits :: "nat \<Rightarrow> string" where
  "dec_digits n = (if n < 10 then [digit n] else dec_digits (n div 10) @ [digit (n mod 10)])"

declare dec_digits.simps [simp del]

definition decimal :: "int \<Rightarrow> string" where
  "decimal x = (if x < 0 then CHR ''-'' # dec_digits (nat (- x)) else dec_digits (nat x))"

definition digits_value :: "string \<Rightarrow> int" where
  "digits_value s = foldl (\<lambda>v c. 10 * v + (int (of_char c) - 48)) 0 s"

text \<open>\<open>std::stoll\<close>: leading white space, a sign, then the longest run of digits.\<close>

definition stoll :: "string \<Rightarrow> int result" where
  "stoll s =
     (let t = dropWhile isspace s;
          neg = (t \<noteq> [] \<and> hd t = CHR ''-'');
          u = (if t \<noteq> [] \<and> hd t \<in> {CHR ''-'', CHR ''+''} then tl t else t);
          ds = takeWhile isdigit u;
          v = (if neg then - digits_value ds else digits_value ds)
      in if ds = [] \<or> \<not> in_int64 v then Inl other_exception else Inr v)"

fun find_char :: "char \<Rightarrow> string \<Rightarrow> nat option" where
  "find_char c [] = None"
| "find_char c (x # xs) = (if x = c then Some 0 else map_option Suc (find_char c xs))"

definition find_last_not_of :: "char \<Rightarrow> string \<Rightarrow> nat option" where
  "find_last_not_of c s =
     (let t = rev (dropWhile (\<lambda>x. x = c) (rev s)) in if t = [] then None else Some (length t - 1))"

definition substr :: "string \<Rightarrow> nat \<Rightarrow> nat option \<Rightarrow> string result" where
  "substr s pos count =
     (if pos > length s then Inl other_exception
      else Inr (case count of None \<Rightarrow> drop pos s | Some n \<Rightarrow> take n (drop pos s)))"

section \<open>Printing and parsing\<close>

text \<open>
  In \<open>remove_trailing_zeros\<close> the arithmetic \<open>npos + offset\<close> cannot occur: a string with a
  decimal point has a character other than zero.
\<close>

definition remove_trailing_zeros :: "string \<Rightarrow> string" where
  "remove_trailing_zeros str =
     (if find_char CHR ''.'' str = None then str
      else let offset = (if find_last_not_of CHR ''0'' str = find_char CHR ''.'' str then 0 else 1)
           in case find_last_not_of CHR ''0'' str of None \<Rightarrow> str | Some l \<Rightarrow> take (l + offset) str)"

fun scan_amount :: "bool \<Rightarrow> bool \<Rightarrow> string \<Rightarrow> (bool \<times> bool) result" where
  "scan_amount negative_found decimal_found [] = Inr (negative_found, decimal_found)"
| "scan_amount negative_found decimal_found (c # cs) =
     (if isdigit c then scan_amount negative_found decimal_found cs
      else if c = CHR ''-'' \<and> \<not> negative_found then scan_amount True decimal_found cs
      else if c = CHR ''.'' \<and> \<not> decimal_found then scan_amount negative_found True cs
      else Inl other_exception)"

definition amount_from_string :: "safe \<Rightarrow> nat \<Rightarrow> string \<Rightarrow> int result" where
  "amount_from_string S precision amount_string =
     (let str = remove_trailing_zeros amount_string in
      rbind (scan_amount False False str) (\<lambda>(negative_found, decimal_found).
      rbind (scaled_precision precision) (\<lambda>sp.
      let decimal_pos = find_char CHR ''.'' str in
      rbind (substr str (if negative_found then 1 else 0) decimal_pos) (\<lambda>lhs.
      rbind (if lhs \<noteq> [] then rbind (stoll lhs) (\<lambda>v. rbind (S (v * sp)) (\<lambda>x. S (0 + x))) else Inr 0) (\<lambda>satoshis.
      rbind (if decimal_found then
               rbind (deref decimal_pos) (\<lambda>dp.
               let max_rhs_size = length (drop 1 (decimal sp)) in
               rbind (substr str (dp + 1) (Some precision)) (\<lambda>rhs.
               fc_assert (length rhs \<le> max_rhs_size)
                 (let rhs = rhs @ replicate (max_rhs_size - length rhs) (CHR ''0'') in
                  if rhs \<noteq> [] then rbind (stoll rhs) (\<lambda>v. S (satoshis + v)) else Inr satoshis)))
             else Inr satoshis) (\<lambda>satoshis.
      fc_assert (satoshis \<le> GRAPHENE_MAX_SHARE_SUPPLY)
        (if negative_found then S (satoshis * -1) else Inr satoshis)))))))"

definition amount_to_string :: "safe \<Rightarrow> (int \<Rightarrow> string) \<Rightarrow> nat \<Rightarrow> int \<Rightarrow> string result" where
  "amount_to_string S T precision amt =
     rbind (fold_res (\<lambda>_ x. S (x * 10)) [0..<precision] 1) (\<lambda>sp.
     let result = T (trunc_div amt sp); decimals = trunc_mod amt sp in
     Inr (if decimals \<noteq> 0 then result @ ''.'' @ drop 1 (T (sp + decimals)) else result))"

definition prints_decimal :: "(int \<Rightarrow> string) \<Rightarrow> bool" where
  "prints_decimal T \<longleftrightarrow> (\<forall>x. in_int64 x \<longrightarrow> T x = decimal x)"

section \<open>Decimal digits\<close>

lemma digit_props:
  assumes "n < 10"
  shows "isdigit (digit n)" "of_char (digit n) = 48 + n" "digit n \<noteq> CHR ''.''" "digit n \<noteq> CHR ''-''"
    "digit n = CHR ''0'' \<longleftrightarrow> n = 0"
proof -
  show o: "of_char (digit n) = 48 + n" using assms by (simp add: digit_def)
  then show "isdigit (digit n)" using assms by (simp add: isdigit_def)
  show "digit n \<noteq> CHR ''.''" "digit n \<noteq> CHR ''-''" using o by auto
  have "of_char (CHR ''0'') = (48 :: nat)" by simp
  then show "digit n = CHR ''0'' \<longleftrightarrow> n = 0" by (metis o add_cancel_right_right char_of_char digit_def)
qed

lemma digit_chars:
  "digit 0 = CHR ''0''" "digit 1 = CHR ''1''" "digit 5 = CHR ''5''"
  by code_simp+

lemma isdigit_not: "isdigit c \<Longrightarrow> c \<noteq> CHR ''.'' \<and> c \<noteq> CHR ''-'' \<and> c \<noteq> CHR ''+'' \<and> \<not> isspace c"
  by (auto simp: isdigit_def isspace_def)

lemma dec_digits_all: "list_all isdigit (dec_digits n)"
  by (induction n rule: dec_digits.induct) (subst dec_digits.simps, simp add: digit_props)

lemma dec_digits_ne [simp]: "dec_digits n \<noteq> []"
  by (subst dec_digits.simps) simp

lemma digits_value_snoc: "digits_value (xs @ [c]) = 10 * digits_value xs + (int (of_char c) - 48)"
  by (simp add: digits_value_def)

lemma digits_value_dec [simp]: "digits_value (dec_digits n) = int n"
proof (induction n rule: dec_digits.induct)
  case (1 n)
  show ?case
  proof (cases "n < 10")
    case True
    then show ?thesis by (subst dec_digits.simps) (simp add: digits_value_def digit_props)
  next
    case False
    then have "digits_value (dec_digits n) = 10 * int (n div 10) + int (n mod 10)"
      using 1 by (subst dec_digits.simps) (simp add: digits_value_snoc digit_props)
    also have "\<dots> = int (10 * (n div 10) + n mod 10)" by (simp only: of_nat_add of_nat_mult of_nat_numeral)
    also have "\<dots> = int n" by (simp only: mult_div_mod_eq)
    finally show ?thesis .
  qed
qed

lemma digits_value_Nil [simp]: "digits_value [] = 0"
  by (simp add: digits_value_def)

lemma digits_value_append:
  "digits_value (xs @ ys) = digits_value xs * 10 ^ length ys + digits_value ys"
  by (induction ys rule: rev_induct)
    (simp_all add: digits_value_snoc algebra_simps flip: append_assoc)

lemma digits_value_zeros: "digits_value (replicate k (CHR ''0'')) = 0"
  by (induction k) (simp_all add: digits_value_snoc flip: replicate_append_same)

lemma dec_digits_length: "10 ^ k \<le> n \<Longrightarrow> n < 10 ^ Suc k \<Longrightarrow> length (dec_digits n) = Suc k"
proof (induction k arbitrary: n)
  case 0
  then show ?case by (subst dec_digits.simps) simp
next
  case (Suc k)
  have "10 ^ k \<le> n div 10" "n div 10 < 10 ^ Suc k" using Suc.prems by simp_all
  with Suc.IH have "length (dec_digits (n div 10)) = Suc k" by blast
  moreover have "\<not> n < 10" using Suc.prems(1) by (metis le_less_trans power_Suc_less_one
        mult_le_mono2 one_le_power power_Suc linorder_not_less mult.right_neutral one_le_numeral)
  ultimately show ?case by (subst dec_digits.simps) simp
qed

text \<open>Dropping the leading digit of \<open>10 ^ p + d\<close> leaves \<open>d\<close> padded to \<open>p\<close> digits.\<close>

lemma padded_digits:
  assumes "d < 10 ^ p"
  shows "length (drop 1 (dec_digits (10 ^ p + d))) = p"
    "list_all isdigit (drop 1 (dec_digits (10 ^ p + d)))"
    "digits_value (drop 1 (dec_digits (10 ^ p + d))) = int d"
proof -
  let ?s = "dec_digits (10 ^ p + d)"
  have l: "length ?s = Suc p" using assms by (intro dec_digits_length) simp_all
  then show len: "length (drop 1 ?s) = p" by simp
  show all: "list_all isdigit (drop 1 ?s)"
    using dec_digits_all [of "10 ^ p + d"] by (metis append_take_drop_id list_all_append)
  obtain c t where s: "?s = c # t" using l by (cases ?s) auto
  have v: "(int (of_char c) - 48) * 10 ^ p + digits_value t = 10 ^ p + int d"
    using digits_value_dec [of "10 ^ p + d"] digits_value_append [of "[c]" t] l s
    by (simp add: digits_value_def)
  have range: "0 \<le> digits_value t \<and> digits_value t < 10 ^ p"
    if "list_all isdigit t" "length t = p" for t p
    using that
  proof (induction t arbitrary: p rule: rev_induct)
    case (snoc c t)
    then have "0 \<le> digits_value t" "digits_value t < 10 ^ (p - 1)" "0 < p" by force+
    moreover have "0 \<le> int (of_char c) - 48" "int (of_char c) - 48 \<le> 9"
      using snoc.prems(1) by (simp_all add: isdigit_def)
    moreover have "(10::int) ^ p = 10 * 10 ^ (p - 1)" using \<open>0 < p\<close> by (simp add: power_eq_if)
    ultimately show ?case by (simp add: digits_value_snoc)
  qed (simp add: digits_value_def)
  have t: "0 \<le> digits_value t" "digits_value t < 10 ^ p" using range [of t p] all len s by simp_all
  have "int (of_char c) - 48 = (10 ^ p + int d) div 10 ^ p"
    using v t by (metis add_cancel_right_right div_mult_self3 div_pos_pos_trivial mult.commute
        power_not_zero zero_neq_numeral add.commute)
  also have "\<dots> = 1" using assms by (simp add: div_add_self1)
  finally have "digits_value t = int d" using v by simp
  then show "digits_value (drop 1 ?s) = int d" using s by simp
qed

lemma stoll_digits:
  assumes "list_all isdigit s" "s \<noteq> []" "in_int64 (digits_value s)"
  shows "stoll s = Inr (digits_value s)"
proof -
  have h: "isdigit (hd s)" using assms by (cases s) auto
  then have "dropWhile isspace s = s" using isdigit_not [OF h] assms(2) by (cases s) auto
  moreover have "hd s \<noteq> CHR ''-''" "hd s \<noteq> CHR ''+''" using isdigit_not [OF h] by simp_all
  moreover have "takeWhile isdigit s = s" using assms(1) by (simp add: list_all_iff takeWhile_eq_all_conv)
  ultimately show ?thesis using assms(2,3) by (simp add: stoll_def Let_def del: takeWhile_eq_all_conv)
qed

lemma scan_digits: "list_all isdigit s \<Longrightarrow> scan_amount n d (s @ t) = scan_amount n d t"
  by (induction s) auto

lemma find_char_append: "c \<notin> set s \<Longrightarrow> find_char c (s @ t) = map_option (\<lambda>i. length s + i) (find_char c t)"
  by (induction s; cases "find_char c t") auto

lemma digits_no_point: "list_all isdigit s \<Longrightarrow> CHR ''.'' \<notin> set s"
  using isdigit_not by (auto simp: list_all_iff)

lemma strip_zeros:
  obtains k where "rs = rev (dropWhile (\<lambda>x. x = CHR ''0'') (rev rs)) @ replicate k (CHR ''0'')"
proof -
  let ?z = "takeWhile (\<lambda>x. x = CHR ''0'') (rev rs)"
  have "?z = replicate (length ?z) (CHR ''0'')"
    by (rule replicate_length_same [symmetric]) (auto dest: set_takeWhileD)
  then have "rev ?z = replicate (length ?z) (CHR ''0'')" by (metis rev_replicate)
  moreover have "rs = rev (dropWhile (\<lambda>x. x = CHR ''0'') (rev rs)) @ rev ?z"
    by (metis rev_append rev_rev_ident takeWhile_dropWhile_id)
  ultimately show ?thesis using that by metis
qed

lemma remove_trailing_zeros_fraction:
  assumes "CHR ''.'' \<notin> set ls" "r \<noteq> []" "last r \<noteq> CHR ''0''" "CHR ''.'' \<notin> set r"
  shows "remove_trailing_zeros (ls @ ''.'' @ r @ replicate k (CHR ''0'')) = ls @ ''.'' @ r"
proof -
  let ?s = "ls @ ''.'' @ r @ replicate k (CHR ''0'')"
  have f: "find_char CHR ''.'' ?s = Some (length ls)" using assms(1) by (simp add: find_char_append)
  have "dropWhile (\<lambda>x. x = CHR ''0'') (rev ?s) = rev (ls @ ''.'' @ r)"
  proof -
    have "rev ?s = replicate k (CHR ''0'') @ rev (ls @ ''.'' @ r)" by simp
    moreover have "hd (rev r) \<noteq> CHR ''0''" "rev r \<noteq> []" using assms(2,3) by (simp_all add: hd_rev)
    then have "dropWhile (\<lambda>x. x = CHR ''0'') (rev (ls @ ''.'' @ r)) = rev (ls @ ''.'' @ r)"
      by (cases "rev r") simp_all
    ultimately show ?thesis by (simp add: dropWhile_append)
  qed
  then have "find_last_not_of CHR ''0'' ?s = Some (length ls + length r)"
    by (simp add: find_last_not_of_def Let_def)
  with f assms(2) show ?thesis by (simp add: remove_trailing_zeros_def)
qed

section \<open>Round trip\<close>

lemma scale_loop:
  assumes "safe_total S" "p < 19"
  shows "fold_res (\<lambda>_ x. S (x * 10)) [0..<p] 1 = Inr (10 ^ p)"
proof -
  have "n \<le> 18 \<Longrightarrow> fold_res (\<lambda>_ x. S (x * 10)) [0..<n] 1 = Inr (10 ^ n)" for n
  proof (induction n)
    case (Suc n)
    have "(10::int) ^ Suc n \<le> 10 ^ 18" using Suc.prems by (intro power_increasing) simp_all
    moreover have "(0::int) \<le> 10 ^ Suc n" by simp
    moreover have "(10::int) ^ 18 < 2 ^ 63" by simp
    ultimately have "in_int64 (10 ^ Suc n)" unfolding in_int64_def by linarith
    with Suc safe_totalD [OF assms(1), of "10 ^ Suc n"] show ?case
      by (simp add: fold_res_append mult.commute)
  qed simp
  with assms(2) show ?thesis by simp
qed

lemma max_supply_range: "0 \<le> x \<Longrightarrow> x \<le> GRAPHENE_MAX_SHARE_SUPPLY \<Longrightarrow> in_int64 x"
  by (simp add: in_int64_def GRAPHENE_MAX_SHARE_SUPPLY_def)

lemma amount_to_string_nonneg:
  assumes "safe_total S" "prints_decimal T" "p < 19" "0 \<le> a" "a \<le> GRAPHENE_MAX_SHARE_SUPPLY"
  shows "amount_to_string S T p a = Inr (
    if a mod 10 ^ p = 0 then dec_digits (nat (a div 10 ^ p))
    else dec_digits (nat (a div 10 ^ p)) @ ''.'' @ drop 1 (dec_digits (10 ^ p + nat (a mod 10 ^ p))))"
proof -
  have pw: "(10::int) ^ p \<le> 10 ^ 18" using assms(3) by (intro power_increasing) simp_all
  have m: "0 \<le> a mod 10 ^ p" "a mod 10 ^ p < 10 ^ p" by simp_all
  have "a div 10 ^ p \<le> a" using assms(4) zdiv_mono2 [of a 1 "10 ^ p"] by simp
  then have "in_int64 (a div 10 ^ p)"
    using max_supply_range [of "a div 10 ^ p"] assms(4,5) by (simp add: pos_imp_zdiv_nonneg_iff)
  moreover have "in_int64 (10 ^ p + a mod 10 ^ p)"
  proof -
    have "(10::int) ^ 18 + 10 ^ 18 < 2 ^ 63" by simp
    with pw m show ?thesis unfolding in_int64_def by linarith
  qed
  moreover have "nat (10 ^ p + a mod 10 ^ p) = 10 ^ p + nat (a mod 10 ^ p)"
    using m by (simp add: nat_add_distrib nat_power_eq)
  moreover have "\<not> a div 10 ^ p < 0" "\<not> 10 ^ p + a mod 10 ^ p < 0"
    using assms(4) m by (simp_all add: pos_imp_zdiv_nonneg_iff not_less)
  ultimately show ?thesis
    using assms scale_loop [OF assms(1,3)]
    by (simp add: amount_to_string_def prints_decimal_def decimal_def)
qed

lemma amount_from_integer:
  assumes S: "safe_total S" and p: "p < 19" and l: "list_all isdigit ls" "ls \<noteq> []"
    and r: "digits_value ls * 10 ^ p \<le> GRAPHENE_MAX_SHARE_SUPPLY" "0 \<le> digits_value ls"
  shows "amount_from_string S p ls = Inr (digits_value ls * 10 ^ p)"
proof -
  have np: "find_char CHR ''.'' ls = None"
    using find_char_append [OF digits_no_point [OF l(1)], of "[]"] by simp
  have "digits_value ls * 1 \<le> digits_value ls * 10 ^ p" using r(2) by (intro mult_left_mono) simp_all
  then have rng: "in_int64 (digits_value ls)" "in_int64 (digits_value ls * 10 ^ p)"
    using r max_supply_range by auto
  have "scan_amount False False ls = Inr (False, False)"
    using scan_digits [OF l(1), of False False "[]"] by simp
  with np stoll_digits [OF l rng(1)] safe_totalD [OF S rng(2)] p l(2) r(1) show ?thesis
    by (simp add: amount_from_string_def remove_trailing_zeros_def scaled_precision_def substr_def)
qed

lemma amount_from_fraction:
  assumes S: "safe_total S" and p: "p < 19" and l: "list_all isdigit ls" "ls \<noteq> []"
    and f: "list_all isdigit rs" "length rs = p" "digits_value rs \<noteq> 0"
    and r: "digits_value ls * 10 ^ p + digits_value rs \<le> GRAPHENE_MAX_SHARE_SUPPLY"
      "0 \<le> digits_value ls" "0 \<le> digits_value rs"
  shows "amount_from_string S p (ls @ ''.'' @ rs) = Inr (digits_value ls * 10 ^ p + digits_value rs)"
proof -
  define t where "t = rev (dropWhile (\<lambda>x. x = CHR ''0'') (rev rs))"
  obtain k where rs: "rs = t @ replicate k (CHR ''0'')" unfolding t_def by (rule strip_zeros)
  have tne: "t \<noteq> []" using f(3) rs digits_value_zeros by auto
  then have "last t \<noteq> CHR ''0''"
    using hd_dropWhile [of "\<lambda>x. x = CHR ''0''" "rev rs"] by (simp add: t_def last_rev)
  moreover have td: "list_all isdigit t" using f(1) rs by simp
  ultimately have strip: "remove_trailing_zeros (ls @ ''.'' @ rs) = ls @ ''.'' @ t"
    using remove_trailing_zeros_fraction [of ls t k] tne digits_no_point l(1) rs by simp
  have tl: "length t \<le> p" "p - length t = k" using f(2) rs by auto
  have mult: "digits_value ls * 1 \<le> digits_value ls * 10 ^ p"
    using r(2) by (intro mult_left_mono) simp_all
  moreover have "0 \<le> digits_value ls * 10 ^ p" using r(2) by simp
  ultimately have rng: "in_int64 (digits_value ls)" "in_int64 (digits_value ls * 10 ^ p)"
    "in_int64 (digits_value rs)" "in_int64 (digits_value ls * 10 ^ p + digits_value rs)"
    using r max_supply_range by auto
  have pos: "find_char CHR ''.'' (ls @ ''.'' @ t) = Some (length ls)"
    using find_char_append [OF digits_no_point [OF l(1)], of "''.'' @ t"] by simp
  have scan: "scan_amount False False (ls @ ''.'' @ t) = Inr (False, True)"
    using scan_digits [OF l(1), of False False "''.'' @ t"] scan_digits [OF td, of False True "[]"]
    by (simp add: isdigit_def)
  have "length (dec_digits (10 ^ p)) = Suc p" by (rule dec_digits_length) simp_all
  then have size: "length (decimal (10 ^ p)) = Suc p" by (simp add: decimal_def nat_power_eq)
  have rne: "rs \<noteq> []" using rs tne by simp
  show ?thesis
    unfolding amount_from_string_def Let_def strip scan scaled_precision_def pos rbind_Inr prod.case
      deref_Some substr_def
    using p l(2) tl stoll_digits [OF l rng(1)] stoll_digits [OF f(1) rne rng(3)]
      safe_totalD [OF S rng(2)] safe_totalD [OF S rng(4)] rs r(1) tne size
    by simp
qed

text \<open>
  C37: Printing and parsing an amount round-trip: for every precision below 19 and
  every amount from zero to \<open>GRAPHENE_MAX_SHARE_SUPPLY\<close>, \<open>amount_from_string\<close> reads back the amount
  that \<open>amount_to_string\<close> printed, although trailing zeros are stripped and re-padded. Larger amounts, which
  an asset whose maximal supply was raised by an update can have, \<open>amount_from_string\<close> refuses.
\<close>

theorem amount_string_round_trip:
  assumes S: "safe_total S" and T: "prints_decimal T" and p: "p < 19"
    and a: "0 \<le> a" "a \<le> GRAPHENE_MAX_SHARE_SUPPLY"
  shows "rbind (amount_to_string S T p a) (amount_from_string S p) = Inr a"
proof -
  let ?q = "nat (a div 10 ^ p)" and ?m = "nat (a mod 10 ^ p)"
  have q: "int ?q = a div 10 ^ p" "int ?m = a mod 10 ^ p" "?m < 10 ^ p" "0 \<le> a div 10 ^ p"
    using a(1) by (simp_all add: pos_imp_zdiv_nonneg_iff nat_less_iff)
  have e: "a div 10 ^ p * 10 ^ p + a mod 10 ^ p = a" by (rule div_mult_mod_eq)
  note pd = padded_digits [OF q(3)]
  show ?thesis
  proof (cases "a mod 10 ^ p = 0")
    case True
    then show ?thesis
      using amount_to_string_nonneg [OF S T p a] a e q
        amount_from_integer [OF S p dec_digits_all [of ?q]] by simp
  next
    case False
    then show ?thesis
      using amount_to_string_nonneg [OF S T p a] a e q pd
        amount_from_fraction [OF S p dec_digits_all [of ?q] _ pd(2,1)] by simp
  qed
qed

theorem amount_string_round_trip_witness:
  "amount_to_string safe_int64 decimal 8 150000000 = Inr ''1.50000000'' \<and>
   rbind (amount_to_string safe_int64 decimal 8 150000000) (amount_from_string safe_int64 8) = Inr 150000000"
proof
  show "rbind (amount_to_string safe_int64 decimal 8 150000000) (amount_from_string safe_int64 8) = Inr 150000000"
    by (rule amount_string_round_trip)
      (simp_all add: safe_int64_total prints_decimal_def GRAPHENE_MAX_SHARE_SUPPLY_def)
  show "amount_to_string safe_int64 decimal 8 150000000 = Inr ''1.50000000''"
    by (simp add: amount_to_string_def scale_loop safe_int64_total decimal_def dec_digits.simps digit_chars [simplified])
qed

text \<open>
  Outside that range the functions misbehave: a negative amount with a fraction prints
  with a wrong fraction (minus 1.50 at precision 2 prints as \<open>-1.0\<close>), and a minus sign in
  the middle of the digits is accepted (\<open>1-2\<close> parses as 2).
\<close>

theorem amount_string_negative_wrong:
  "amount_to_string safe_int64 decimal 2 (-150) = Inr ''-1.0'' \<and>
   amount_from_string safe_int64 2 ''1-2'' = Inr 200"
proof
  show "amount_to_string safe_int64 decimal 2 (-150) = Inr ''-1.0''"
    by (simp add: amount_to_string_def scale_loop safe_int64_total decimal_def dec_digits.simps digit_chars [simplified]
        trunc_div_def trunc_mod_def)
  show "amount_from_string safe_int64 2 ''1-2'' = Inr 200"
    by (simp add: amount_from_string_def remove_trailing_zeros_def isdigit_def scaled_precision_def substr_def
        stoll_def isspace_def digits_value_def in_int64_def safe_int64_def GRAPHENE_MAX_SHARE_SUPPLY_def Let_def)
qed

end
