(* ===== verification/Transfers.thy ===== *)
theory Transfers
  imports Holdings Amount_String
begin

text \<open>
  The generic evaluator (\<open>evaluator.hpp\<close>, \<open>evaluator.cpp\<close>) and the evaluators that move
  amounts between accounts: transfers, withdrawals from vesting balances and withdrawal
  permissions. An evaluator is a check, which may compute values for the second step, and
  an update; the generic evaluator surrounds them with the payment of the fee.
\<close>

section \<open>Fees\<close>

record fee_state =
  fee_from_account :: asset
  core_fee_paid :: int

definition prepare_fee :: "nat \<Rightarrow> asset \<Rightarrow> database \<Rightarrow> fee_state result" where
  "prepare_fee account fee db =
     fc_assert (amount fee \<ge> 0)
    (rbind (idx_get (accounts db) account) (\<lambda>fee_paying_account.
     rbind (idx_get (account_stats db) (acc_statistics fee_paying_account)) (\<lambda>_.
     rbind (idx_get (assets db) (asset_id fee)) (\<lambda>fee_asset.
     fc_assert (asset_id fee = 0 \<or> is_exchangeable (asset_opts fee_asset))
    (rbind (idx_get (dynamic_data db) (dynamic_asset_data_id fee_asset)) (\<lambda>dyn.
     if asset_id fee = 0 then Inr \<lparr>fee_from_account = fee, core_fee_paid = amount fee\<rparr>
     else
       rbind (asset_times_price fee (opt_exchange_rate (asset_opts fee_asset))) (\<lambda>fee_from_pool.
       fc_assert (asset_id fee_from_pool = 0)
      (fc_assert (amount fee_from_pool \<le> core_pool dyn)
        (Inr \<lparr>fee_from_account = fee, core_fee_paid = amount fee_from_pool\<rparr>)))))))))"

definition convert_fee :: "safe \<Rightarrow> bool \<Rightarrow> fee_state \<Rightarrow> database \<Rightarrow> database result" where
  "convert_fee S skip_fee fs db =
     (if \<not> skip_fee \<and> asset_id (fee_from_account fs) \<noteq> 0 then
        rbind (idx_get (assets db) (asset_id (fee_from_account fs))) (\<lambda>fee_asset.
        modify_dynamic_data (dynamic_asset_data_id fee_asset)
          (add_to_pools S (amount (fee_from_account fs)) (- core_fee_paid fs)) db)
      else Inr db)"

definition pay_fee :: "safe \<Rightarrow> bool \<Rightarrow> fee_state \<Rightarrow> database \<Rightarrow> database result" where
  "pay_fee S skip_fee fs db =
     (if \<not> skip_fee then
        rbind (idx_get (assets db) 0) (\<lambda>core.
        modify_dynamic_data (dynamic_asset_data_id core)
          (\<lambda>d. rbind (S (asset_pool d + core_fee_paid fs)) (\<lambda>x. Inr (d\<lparr>asset_pool := x\<rparr>))) db)
      else Inr db)"

text \<open>
  \<open>start_evaluate\<close> with \<open>evaluate\<close> and \<open>apply\<close> of the template: \<open>required_fee\<close> is the fee of the
  schedule, absent when the check is skipped; \<open>do_evaluate\<close> may change the fee state and
  returns what \<open>do_apply\<close> uses.
\<close>

definition start_evaluate ::
  "safe \<Rightarrow> bool \<Rightarrow> int option \<Rightarrow> nat \<Rightarrow> asset \<Rightarrow> (fee_state \<Rightarrow> database \<Rightarrow> ('e \<times> fee_state) result) \<Rightarrow>
   ('e \<Rightarrow> fee_state \<Rightarrow> database \<Rightarrow> database result) \<Rightarrow> database \<Rightarrow> database result" where
  "start_evaluate S skip_fee required_fee fee_payer fee do_evaluate do_apply db =
     rbind (prepare_fee fee_payer fee db) (\<lambda>fs.
     if (case required_fee of None \<Rightarrow> False | Some r \<Rightarrow> core_fee_paid fs < r) then Inl other_exception
     else
       rbind (do_evaluate fs db) (\<lambda>(e, fs).
       rbind (convert_fee S skip_fee fs db) (\<lambda>db1.
       rbind (pay_fee S skip_fee fs db1) (\<lambda>db2.
       rbind (do_apply e fs db2) (\<lambda>db3.
       rbind (asset_neg S (fee_from_account fs)) (\<lambda>n.
         adjust_balance S fee_payer n db3))))))"

section \<open>Transfers\<close>

record transfer_operation =
  tr_fee :: asset
  tr_from :: nat
  tr_to :: nat
  tr_amount :: asset

definition transfer_validate :: "transfer_operation \<Rightarrow> unit result" where
  "transfer_validate op =
     fc_assert (amount (tr_fee op) \<ge> 0)
    (fc_assert (tr_from op \<noteq> tr_to op)
    (fc_assert (amount (tr_amount op) > 0) (Inr ())))"

definition transfer_do_evaluate :: "transfer_operation \<Rightarrow> database \<Rightarrow> unit result" where
  "transfer_do_evaluate op db =
     rbind (idx_get (accounts db) (tr_from op)) (\<lambda>_.
     rbind (idx_get (accounts db) (tr_to op)) (\<lambda>_.
     rbind (idx_get (assets db) (asset_id (tr_amount op))) (\<lambda>_.
     fc_assert (amount (get_balance (tr_from op) (asset_id (tr_amount op)) db) \<ge> amount (tr_amount op)) (Inr ()))))"

definition transfer_do_apply :: "safe \<Rightarrow> transfer_operation \<Rightarrow> database \<Rightarrow> database result" where
  "transfer_do_apply S o' db =
     rbind (asset_neg S (tr_amount o')) (\<lambda>n.
     rbind (adjust_balance S (tr_from o') n db) (\<lambda>db1.
     rbind (adjust_balance S (tr_to o') (tr_amount o') db1) (\<lambda>db2.
     create_detail \<lparr>m_from_account = tr_from o', m_to_account = tr_to o', m_operation_type = td_transfer,
       m_transaction_amount = tr_amount o', m_transaction_fee = tr_fee o', m_str_description = ''transfer'',
       m_timestamp = head_block_time db2\<rparr> db2)))"

definition HARDFORK_2_TIME :: int where "HARDFORK_2_TIME = 1524470400"

text \<open>The target of the second transfer is the id of any object; one that is neither an account nor a content is given by its space and type and its instance.\<close>

datatype transfer2_target = To_account nat | To_content nat | To_other "nat \<times> nat" nat

record transfer2_operation =
  tr2_fee :: asset
  tr2_from :: nat
  tr2_to :: transfer2_target
  tr2_amount :: asset

definition transfer2_validate :: "transfer2_operation \<Rightarrow> unit result" where
  "transfer2_validate op =
     fc_assert (amount (tr2_fee op) \<ge> 0)
    (fc_assert (case tr2_to op of To_account _ \<Rightarrow> True | To_content _ \<Rightarrow> True | To_other _ _ \<Rightarrow> False)
    (fc_assert (tr2_to op \<noteq> To_account (tr2_from op))
    (fc_assert (amount (tr2_amount op) > 0) (Inr ()))))"

definition transfer2_do_evaluate :: "transfer2_operation \<Rightarrow> database \<Rightarrow> unit result" where
  "transfer2_do_evaluate op db =
     fc_assert (head_block_time db > HARDFORK_2_TIME)
    (rbind (idx_get (accounts db) (tr2_from op)) (\<lambda>_.
     rbind (idx_get (assets db) (asset_id (tr2_amount op))) (\<lambda>_.
     fc_assert (case tr2_to op of To_account _ \<Rightarrow> True | To_content c \<Rightarrow> idx_find (contents db) c \<noteq> None | To_other _ _ \<Rightarrow> True)
    (fc_assert (amount (get_balance (tr2_from op) (asset_id (tr2_amount op)) db) \<ge> amount (tr2_amount op)) (Inr ())))))"

text \<open>
  One round of the loop over the co-authors. The product is computed in \<open>int64_t\<close>, where an
  overflow is undefined, before it is widened.
\<close>

definition pay_co_author ::
  "safe \<Rightarrow> asset \<Rightarrow> nat \<times> int \<Rightarrow> int \<times> database \<Rightarrow> (int \<times> database) result" where
  "pay_co_author S paid element st =
     (let product = amount paid * snd element in
      if \<not> in_int64 product then Inl undefined_behaviour
      else
        let share = trunc_div product 10000 in
        rbind (adjust_balance S (fst element) (mk_asset share (asset_id paid)) (snd st)) (\<lambda>db'.
        rbind (S (fst st - share)) (\<lambda>left. Inr (left, db'))))"

definition transfer2_to_content :: "safe \<Rightarrow> asset \<Rightarrow> content_object \<Rightarrow> database \<Rightarrow> database result" where
  "transfer2_to_content S amt c db =
     rbind (if co_authors c \<noteq> [] then fold_res (pay_co_author S amt) (co_authors c) (amount amt, db)
            else Inr (amount amt, db)) (\<lambda>(left, db1).
     if left \<noteq> 0 then fc_assert (left > 0) (adjust_balance S (author c) (mk_asset left (asset_id amt)) db1)
     else Inr db1)"

definition transfer2_do_apply :: "safe \<Rightarrow> transfer2_operation \<Rightarrow> database \<Rightarrow> database result" where
  "transfer2_do_apply S o' db =
     rbind (asset_neg S (tr2_amount o')) (\<lambda>n.
     rbind (adjust_balance S (tr2_from o') n db) (\<lambda>db1.
     rbind (case tr2_to o' of
              To_account x \<Rightarrow> rbind (adjust_balance S x (tr2_amount o') db1) (\<lambda>db2. Inr (x, [], db2))
            | To_content i \<Rightarrow>
                rbind (deref (idx_find (contents db1) i)) (\<lambda>c.
                rbind (transfer2_to_content S (tr2_amount o') c db1) (\<lambda>db2.
                  Inr (author c, '' to content 2.13.'' @ decimal (int i), db2)))
            | To_other _ _ \<Rightarrow> Inl undefined_behaviour) (\<lambda>(to_acc, suffix, db2).
     create_detail \<lparr>m_from_account = tr2_from o', m_to_account = to_acc, m_operation_type = td_transfer,
       m_transaction_amount = tr2_amount o', m_transaction_fee = tr2_fee o', m_str_description = ''transfer'' @ suffix,
       m_timestamp = head_block_time db2\<rparr> db2)))"

section \<open>Withdrawals\<close>

datatype vesting_policy_initializer =
    Linear_initializer int int int
  | Cdd_initializer int int

record vesting_balance_create_operation =
  vbc_fee :: asset
  vbc_creator :: nat
  vbc_owner :: nat
  vbc_amount :: asset
  vbc_policy :: vesting_policy_initializer

definition asset_ge :: "asset \<Rightarrow> asset \<Rightarrow> bool result" where
  "asset_ge a b = rbind (asset_less a b) (\<lambda>l. Inr (\<not> l))"

definition vesting_create_do_evaluate :: "vesting_balance_create_operation \<Rightarrow> database \<Rightarrow> unit result" where
  "vesting_create_do_evaluate op db =
     rbind (idx_get (accounts db) (vbc_creator op)) (\<lambda>_.
     rbind (idx_get (accounts db) (vbc_owner op)) (\<lambda>_.
     fc_assert (amount (vbc_amount op) > 0)
    (rbind (asset_ge (get_balance (vbc_creator op) (asset_id (vbc_amount op)) db) (vbc_amount op)) (\<lambda>ge.
     fc_assert ge (Inr ())))))"

fun init_policy :: "vesting_policy_initializer \<Rightarrow> int \<Rightarrow> int \<Rightarrow> vesting_policy" where
  "init_policy (Linear_initializer begin_ts cliff dur) init_balance t =
     Linear \<lparr>begin_timestamp = begin_ts, vesting_cliff_seconds = cliff, vesting_duration_seconds = dur,
       begin_balance = init_balance\<rparr>"
| "init_policy (Cdd_initializer claim secs) init_balance t =
     Cdd \<lparr>vesting_seconds = secs, coin_seconds_earned = 0, start_claim = claim, coin_seconds_earned_last_update = t\<rparr>"

definition vesting_create_do_apply :: "safe \<Rightarrow> vesting_balance_create_operation \<Rightarrow> database \<Rightarrow> database result" where
  "vesting_create_do_apply S op db =
     rbind (asset_ge (get_balance (vbc_creator op) (asset_id (vbc_amount op)) db) (vbc_amount op)) (\<lambda>ge.
     fc_assert ge
    (rbind (asset_neg S (vbc_amount op)) (\<lambda>n.
     rbind (adjust_balance S (vbc_creator op) n db) (\<lambda>db1.
     rbind (create_vesting \<lparr>vb_owner = vbc_owner op, balance = vbc_amount op,
              policy = init_policy (vbc_policy op) (amount (vbc_amount op)) (head_block_time db)\<rparr> db1) (\<lambda>(i, db2).
       Inr db2)))))"

record vesting_balance_withdraw_operation =
  vbw_fee :: asset
  vesting_balance_id :: nat
  vbw_owner :: nat
  vbw_amount :: asset

definition vesting_withdraw_do_evaluate :: "safe \<Rightarrow> vesting_balance_withdraw_operation \<Rightarrow> database \<Rightarrow> unit result" where
  "vesting_withdraw_do_evaluate S op db =
     rbind (idx_get (vestings db) (vesting_balance_id op)) (\<lambda>vbo.
     fc_assert (vbw_owner op = vb_owner vbo)
    (rbind (is_withdraw_allowed S vbo (head_block_time db) (vbw_amount op)) (\<lambda>ok.
     fc_assert ok (rbind (idx_get (accounts db) (vbw_owner op)) (\<lambda>_. Inr ())))))"

definition vesting_withdraw_do_apply :: "safe \<Rightarrow> vesting_balance_withdraw_operation \<Rightarrow> database \<Rightarrow> database result" where
  "vesting_withdraw_do_apply S op db =
     rbind (idx_get (vestings db) (vesting_balance_id op)) (\<lambda>_.
     rbind (modify_vesting (vesting_balance_id op) (withdraw S (head_block_time db) (vbw_amount op)) db) (\<lambda>db1.
     adjust_balance S (vbw_owner op) (vbw_amount op) db1))"

definition available_this_period :: "safe \<Rightarrow> int \<Rightarrow> withdraw_permission_object \<Rightarrow> asset result" where
  "available_this_period S current_time p =
     (if current_time \<ge> u32 (period_start_time p + withdrawal_period_sec p) then Inr (withdrawal_limit p)
      else if amount (withdrawal_limit p) > claimed_this_period p then
        rbind (S (amount (withdrawal_limit p) - claimed_this_period p)) (\<lambda>x. Inr (mk_asset x (asset_id (withdrawal_limit p))))
      else Inr (mk_asset 0 (asset_id (withdrawal_limit p))))"

record withdraw_permission_claim_operation =
  wpc_fee :: asset
  wpc_permission :: nat
  wpc_from :: nat
  wpc_to :: nat
  amount_to_withdraw :: asset

definition claim_do_evaluate :: "safe \<Rightarrow> withdraw_permission_claim_operation \<Rightarrow> database \<Rightarrow> unit result" where
  "claim_do_evaluate S op db =
     rbind (idx_get (permissions db) (wpc_permission op)) (\<lambda>permit.
     fc_assert (perm_expiration permit > head_block_time db)
    (fc_assert (authorized_account permit = wpc_to op)
    (fc_assert (withdraw_from_account permit = wpc_from op)
    (rbind (available_this_period S (head_block_time db) permit) (\<lambda>avail.
     rbind (asset_le (amount_to_withdraw op) avail) (\<lambda>le.
     fc_assert le
    (rbind (asset_ge (get_balance (wpc_from op) (asset_id (amount_to_withdraw op)) db) (amount_to_withdraw op)) (\<lambda>ge.
     fc_assert ge
    (rbind (idx_get (assets db) (asset_id (amount_to_withdraw op))) (\<lambda>_.
     rbind (idx_get (accounts db) (wpc_to op)) (\<lambda>_.
     rbind (idx_get (accounts db) (authorized_account permit)) (\<lambda>_. Inr ()))))))))))))"

definition claim_permission :: "safe \<Rightarrow> int \<Rightarrow> int \<Rightarrow> withdraw_permission_object \<Rightarrow> withdraw_permission_object result" where
  "claim_permission S t amt p =
     (if withdrawal_period_sec p = 0 then Inl undefined_behaviour
      else
        let periods = trunc_div (t - period_start_time p) (withdrawal_period_sec p);
            start = u32 (period_start_time p + periods * withdrawal_period_sec p)
        in rbind (if periods = 0 then S (claimed_this_period p + amt) else Inr amt) (\<lambda>c.
             Inr (p\<lparr>period_start_time := start, claimed_this_period := c\<rparr>)))"

definition claim_do_apply :: "safe \<Rightarrow> withdraw_permission_claim_operation \<Rightarrow> database \<Rightarrow> database result" where
  "claim_do_apply S op db =
     rbind (idx_get (permissions db) (wpc_permission op)) (\<lambda>_.
     rbind (modify_permission (wpc_permission op)
              (claim_permission S (head_block_time db) (amount (amount_to_withdraw op))) db) (\<lambda>db1.
     rbind (asset_neg S (amount_to_withdraw op)) (\<lambda>n.
     rbind (adjust_balance S (wpc_from op) n db1) (\<lambda>db2.
     adjust_balance S (wpc_to op) (amount_to_withdraw op) db2))))"

record withdraw_permission_create_operation =
  wpr_fee :: asset
  wpr_from :: nat
  wpr_authorized :: nat
  wpr_limit :: asset
  wpr_period_sec :: int
  wpr_periods_until_expiration :: int
  wpr_period_start_time :: int

definition permission_expiration :: "withdraw_permission_create_operation \<Rightarrow> int" where
  "permission_expiration op =
     u32 (wpr_period_start_time op + u32 (wpr_periods_until_expiration op * wpr_period_sec op))"

definition permission_create_do_evaluate :: "withdraw_permission_create_operation \<Rightarrow> database \<Rightarrow> unit result" where
  "permission_create_do_evaluate op db =
     fc_assert (idx_find (accounts db) (wpr_from op) \<noteq> None)
    (fc_assert (idx_find (accounts db) (wpr_authorized op) \<noteq> None)
    (fc_assert (idx_find (assets db) (asset_id (wpr_limit op)) \<noteq> None)
    (fc_assert (wpr_period_start_time op > head_block_time db)
    (fc_assert (permission_expiration op > head_block_time db)
    (fc_assert (wpr_period_sec op \<ge> block_interval (parameters (gpo db))) (Inr ()))))))"

definition permission_create_do_apply :: "withdraw_permission_create_operation \<Rightarrow> database \<Rightarrow> database result" where
  "permission_create_do_apply op db =
     rbind (idx_create no_clash (permissions db) (\<lambda>_. \<lparr>withdraw_from_account = wpr_from op,
       authorized_account = wpr_authorized op, withdrawal_limit = wpr_limit op,
       withdrawal_period_sec = wpr_period_sec op, period_start_time = wpr_period_start_time op,
       perm_expiration = permission_expiration op, claimed_this_period = 0\<rparr>))
       (\<lambda>(i, t). Inr (db\<lparr>permissions := t\<rparr>))"

text \<open>An update names the permission and carries the same fields as a creation.\<close>

definition permission_update_do_evaluate ::
  "nat \<Rightarrow> withdraw_permission_create_operation \<Rightarrow> database \<Rightarrow> unit result" where
  "permission_update_do_evaluate i op db =
     rbind (idx_get (permissions db) i) (\<lambda>permit.
     fc_assert (authorized_account permit = wpr_authorized op)
    (fc_assert (withdraw_from_account permit = wpr_from op)
    (fc_assert (idx_find (assets db) (asset_id (wpr_limit op)) \<noteq> None)
    (fc_assert (wpr_period_start_time op \<ge> head_block_time db)
    (fc_assert (permission_expiration op > head_block_time db)
    (fc_assert (wpr_period_sec op \<ge> block_interval (parameters (gpo db))) (Inr ())))))))"

definition permission_update_do_apply ::
  "nat \<Rightarrow> withdraw_permission_create_operation \<Rightarrow> database \<Rightarrow> database result" where
  "permission_update_do_apply i op db =
     rbind (idx_get (permissions db) i) (\<lambda>_.
     modify_permission i (\<lambda>p. Inr (p\<lparr>period_start_time := wpr_period_start_time op,
       perm_expiration := permission_expiration op, withdrawal_limit := wpr_limit op,
       withdrawal_period_sec := wpr_period_sec op\<rparr>)) db)"

definition permission_delete_do_evaluate :: "nat \<Rightarrow> nat \<Rightarrow> nat \<Rightarrow> database \<Rightarrow> unit result" where
  "permission_delete_do_evaluate i from authorized db =
     rbind (idx_get (permissions db) i) (\<lambda>permit.
     fc_assert (authorized_account permit = authorized)
    (fc_assert (withdraw_from_account permit = from) (Inr ())))"

definition permission_delete_do_apply :: "nat \<Rightarrow> database \<Rightarrow> database result" where
  "permission_delete_do_apply i db =
     rbind (idx_get (permissions db) i) (\<lambda>_.
     rbind (idx_remove (permissions db) i) (\<lambda>t. Inr (db\<lparr>permissions := t\<rparr>)))"

section \<open>Fees are conserved\<close>

lemma asset_neg_held: "safe_exact S \<Longrightarrow> asset_neg S x = Inr n \<Longrightarrow> held a n = - held a x"
  using asset_neg_exact [of S x n] by (simp add: held_def)

lemma assets_modify_dynamic_data: "modify_dynamic_data i f db = Inr db' \<Longrightarrow> assets db' = assets db"
  by (auto simp: modify_dynamic_data_def res_simps)

lemma convert_fee_holdings:
  assumes S: "safe_exact S" and b: "books db" and c: "convert_fee S False fs db = Inr db'"
  shows "books db'" "holdings a db' = holdings a db +
      (if asset_id (fee_from_account fs) \<noteq> 0 then held a (fee_from_account fs) - (if a = 0 then core_fee_paid fs else 0) else 0)"
proof -
  have "books db' \<and> holdings a db' = holdings a db +
      (if asset_id (fee_from_account fs) \<noteq> 0 then held a (fee_from_account fs) - (if a = 0 then core_fee_paid fs else 0) else 0)"
  proof (cases "asset_id (fee_from_account fs) = 0")
    case True
    with c b show ?thesis by (simp add: convert_fee_def)
  next
    case False
    with c obtain ao where ao: "idx_find (assets db) (asset_id (fee_from_account fs)) = Some ao"
      and m: "modify_dynamic_data (dynamic_asset_data_id ao)
        (add_to_pools S (amount (fee_from_account fs)) (- core_fee_paid fs)) db = Inr db'"
      by (auto simp: convert_fee_def idx_get_def res_simps)
    note mp = modify_pools_holdings [OF b m ao add_to_pools_exact
        [OF S, where da = "amount (fee_from_account fs)" and dc = "- core_fee_paid fs"]]
    from mp(1) mp(2) [of a] False show ?thesis by (auto simp: held_def)
  qed
  then show "books db'" "holdings a db' = holdings a db +
      (if asset_id (fee_from_account fs) \<noteq> 0 then held a (fee_from_account fs) - (if a = 0 then core_fee_paid fs else 0) else 0)"
    by simp_all
qed

lemma pay_fee_holdings:
  assumes S: "safe_exact S" and b: "books db" and c: "pay_fee S False fs db = Inr db'"
  shows "books db'" "holdings a db' = holdings a db + (if a = 0 then core_fee_paid fs else 0)"
proof -
  from c obtain ao where ao: "idx_find (assets db) 0 = Some ao"
    and m: "modify_dynamic_data (dynamic_asset_data_id ao)
      (\<lambda>d. rbind (S (asset_pool d + core_fee_paid fs)) (\<lambda>x. Inr (d\<lparr>asset_pool := x\<rparr>))) db = Inr db'"
    by (auto simp: pay_fee_def idx_get_def res_simps)
  have ex: "rbind (S (asset_pool d + core_fee_paid fs)) (\<lambda>x. Inr (d\<lparr>asset_pool := x\<rparr>)) = Inr d' \<Longrightarrow>
      asset_pool d' = asset_pool d + core_fee_paid fs \<and> core_pool d' = core_pool d + 0" for d d'
    by (auto simp: res_simps dest!: safe_exactD [OF S])
  note mp = modify_pools_holdings [OF b m ao ex]
  from mp(1) mp(2) [of a] show "books db'" "holdings a db' = holdings a db + (if a = 0 then core_fee_paid fs else 0)"
    by auto
qed

lemma prepare_fee_Inr:
  "prepare_fee x fee db = Inr fs \<Longrightarrow> fee_from_account fs = fee \<and> (asset_id fee = 0 \<longrightarrow> core_fee_paid fs = amount fee)"
  by (auto simp: prepare_fee_def res_simps split: if_splits)

lemma fee_frame:
  assumes "convert_fee S b fs db = Inr db1" "pay_fee S b fs db1 = Inr db2"
  shows "\<exists>t. db2 = db\<lparr>dynamic_data := t\<rparr>"
proof -
  have m: "\<exists>t. s' = s\<lparr>dynamic_data := t\<rparr>" if "modify_dynamic_data i f s = Inr s'" for i f s s'
    using that by (auto simp: modify_dynamic_data_def res_simps)
  have k: "\<exists>t. s = s\<lparr>dynamic_data := t\<rparr>" for s :: database by (rule exI [of _ "dynamic_data s"]) simp
  have "\<exists>t. db1 = db\<lparr>dynamic_data := t\<rparr>" using assms(1) m k by (auto simp: convert_fee_def res_simps split: if_splits)
  moreover have "\<exists>t. db2 = db1\<lparr>dynamic_data := t\<rparr>" using assms(2) m k by (auto simp: pay_fee_def res_simps split: if_splits)
  ultimately show ?thesis by auto
qed

text \<open>
  What the generic evaluator needs of an evaluator: its check leaves the fee alone, and its
  update, run with what the check left on a state that differs by the payment of the fee, keeps the
  books and an invariant of the rest of the state and changes the holdings of an asset by a
  known amount.
\<close>

locale fee_evaluator =
  fixes check :: "fee_state \<Rightarrow> database \<Rightarrow> ('e \<times> fee_state) result"
    and change :: "'e \<Rightarrow> fee_state \<Rightarrow> database \<Rightarrow> database result" and delta :: "nat \<Rightarrow> int"
    and inv :: "database \<Rightarrow> bool"
  assumes check_fee: "check fs db = Inr (e, fs') \<Longrightarrow> fs' = fs"
    and inv_frame: "assets db' = assets db \<Longrightarrow> contents db' = contents db \<Longrightarrow> buyings db' = buyings db \<Longrightarrow> inv db' = inv db"
    and change_books: "books db \<Longrightarrow> inv db \<Longrightarrow> check fs db0 = Inr (e, fs) \<Longrightarrow> db = db0\<lparr>dynamic_data := t\<rparr> \<Longrightarrow>
      change e fs db = Inr db' \<Longrightarrow> books db' \<and> inv db' \<and> holdings a db' = holdings a db + delta a"
begin

lemma evaluate_conserves:
  assumes S: "safe_exact S" and b: "books db" and i: "inv db"
    and e: "start_evaluate S False required x fee check change db = Inr db'"
  shows "books db' \<and> inv db' \<and> holdings a db' = holdings a db + delta a"
proof -
  from e obtain fs v db1 db2 db3 n where p: "prepare_fee x fee db = Inr fs" and v: "check fs db = Inr (v, fs)"
    and c: "convert_fee S False fs db = Inr db1" and f: "pay_fee S False fs db1 = Inr db2"
    and ch: "change v fs db2 = Inr db3" and n: "asset_neg S (fee_from_account fs) = Inr n"
    and adj: "adjust_balance S x n db3 = Inr db'"
    by (auto simp: start_evaluate_def res_simps split: if_splits option.splits) (blast dest: check_fee)+
  obtain t where t: "db2 = db\<lparr>dynamic_data := t\<rparr>" using fee_frame [OF c f] ..
  note h1 = convert_fee_holdings [OF S b c]
  note h2 = pay_fee_holdings [OF S h1(1) f]
  have i2: "inv db2" using i inv_frame [of db2 db] t by simp
  have h3: "books db3" "inv db3" "holdings a db3 = holdings a db2 + delta a" using change_books [OF h2(1) i2 v t ch] by simp_all
  note h4 = adjust_balance_holdings [OF S h3(1) adj]
  have "solvent db3" using h3(1) by (simp add: books_def)
  from adjust_balance_Inr(1) [OF S this adj] obtain u where "db' = db3\<lparr>balances := u\<rparr>" ..
  then have "inv db'" using h3(2) inv_frame [of db' db3] by simp
  with h1(2) [of a] h2(2) [of a] h3 h4(1) h4(2) [of a] asset_neg_held [OF S n, of a] prepare_fee_Inr [OF p]
  show ?thesis by (auto simp: held_def)
qed

end

definition plain_check :: "(database \<Rightarrow> unit result) \<Rightarrow> fee_state \<Rightarrow> database \<Rightarrow> (unit \<times> fee_state) result" where
  "plain_check c fs db = rbind (c db) (\<lambda>_. Inr ((), fs))"

definition plain_change :: "(database \<Rightarrow> database result) \<Rightarrow> unit \<Rightarrow> fee_state \<Rightarrow> database \<Rightarrow> database result" where
  "plain_change f e fs db = f db"

lemma plain_fee_evaluator:
  assumes "\<And>db db' a. books db \<Longrightarrow> f db = Inr db' \<Longrightarrow> books db' \<and> holdings a db' = holdings a db + delta a"
  shows "fee_evaluator (plain_check c) (plain_change f) delta (\<lambda>_. True)"
proof
  fix fs db e fs' assume "plain_check c fs db = Inr (e, fs')"
  then show "fs' = fs" by (auto simp: plain_check_def res_simps)
next
  fix db e fs db' a assume "books db" "plain_change f e fs db = Inr db'"
  then show "books db' \<and> True \<and> holdings a db' = holdings a db + delta a"
    using assms [of db db' a] by (simp add: plain_change_def)
qed simp

section \<open>Transfers keep the books\<close>

lemma create_detail_books:
  "create_detail d db = Inr db' \<Longrightarrow> books db' = books db \<and> holdings a db' = holdings a db \<and> ledger_of db' = ledger_of db"
proof -
  assume c: "create_detail d db = Inr db'"
  then have m: "money db' = money db" by (rule frame)
  have "ledger_of db' = ledger_of db"
    using money_cong(1) [OF m] by (simp add: fun_eq_iff ledger_of_def get_balance_def)
  with money_books [OF m] money_holdings [OF m, of a] show ?thesis by simp
qed

lemma move_holdings:
  assumes S: "safe_exact S" and b: "books db" and n: "asset_neg S x = Inr n"
    and a1: "adjust_balance S y n db = Inr db1" and a2: "adjust_balance S z x db1 = Inr db2"
  shows "books db2" "holdings a db2 = holdings a db"
    "ledger_of db2 = ledger_add z (asset_id x) (amount x) (ledger_add y (asset_id x) (- amount x) (ledger_of db))"
proof -
  note h1 = adjust_balance_holdings [OF S b a1]
  note h2 = adjust_balance_holdings [OF S h1(1) a2]
  show "books db2" by (rule h2(1))
  show "holdings a db2 = holdings a db"
    using h1(2) [of a] h2(2) [of a] asset_neg_held [OF S n, of a] by simp
  have s: "solvent db" "solvent db1" using b h1(1) by (simp_all add: books_def)
  show "ledger_of db2 = ledger_add z (asset_id x) (amount x) (ledger_add y (asset_id x) (- amount x) (ledger_of db))"
    using adjust_balance_Inr(3) [OF S s(1) a1] adjust_balance_Inr(3) [OF S s(2) a2] asset_neg_exact [OF S n] by simp
qed

lemma transfer_do_apply_books:
  assumes S: "safe_exact S" and b: "books db" and t: "transfer_do_apply S op db = Inr db'"
  shows "books db'" "holdings a db' = holdings a db"
    "ledger_of db' = ledger_add (tr_to op) (asset_id (tr_amount op)) (amount (tr_amount op))
       (ledger_add (tr_from op) (asset_id (tr_amount op)) (- amount (tr_amount op)) (ledger_of db))"
proof -
  from t obtain n db1 db2 d where n: "asset_neg S (tr_amount op) = Inr n"
    and a: "adjust_balance S (tr_from op) n db = Inr db1" "adjust_balance S (tr_to op) (tr_amount op) db1 = Inr db2"
    and c: "create_detail d db2 = Inr db'"
    by (auto simp: transfer_do_apply_def res_simps)
  note mv = move_holdings [OF S b n a]
  from mv(1) mv(2) [of a] mv(3) create_detail_books [OF c, of a]
  show "books db'" "holdings a db' = holdings a db"
    "ledger_of db' = ledger_add (tr_to op) (asset_id (tr_amount op)) (amount (tr_amount op))
       (ledger_add (tr_from op) (asset_id (tr_amount op)) (- amount (tr_amount op)) (ledger_of db))"
    by simp_all
qed

interpretation transfer_evaluator: fee_evaluator "plain_check (transfer_do_evaluate op)"
  "plain_change (transfer_do_apply safe_int64 op)" "\<lambda>_. 0" "\<lambda>_. True" for op
  using transfer_do_apply_books [OF safe_int64_exact] by (intro plain_fee_evaluator) simp

text \<open>
  A transfer with its fee, as the generic evaluator runs it, keeps the books: of every
  asset the database holds exactly as much as before, whatever asset the fee is paid in,
  and no balance becomes negative.
\<close>

theorem transfer_conserves:
  assumes "safe_exact S" and "books db"
    and "start_evaluate S False required (tr_from op) (tr_fee op)
      (plain_check (transfer_do_evaluate op)) (plain_change (transfer_do_apply S op)) db = Inr db'"
  shows "books db' \<and> (\<forall>a. holdings a db' = holdings a db) \<and> (\<forall>x a. 0 \<le> ledger_of db' x a)"
proof -
  have "fee_evaluator (plain_check (transfer_do_evaluate op)) (plain_change (transfer_do_apply S op)) (\<lambda>_. 0) (\<lambda>_. True)"
    using transfer_do_apply_books [OF assms(1)] by (intro plain_fee_evaluator) simp
  from fee_evaluator.evaluate_conserves [OF this assms(1,2) TrueI assms(3)]
  have "books db' \<and> holdings a db' = holdings a db" for a by simp
  moreover from this have "solvent db'" by (simp add: books_def)
  ultimately show ?thesis using solvent_ledger by blast
qed

definition account_example :: account_object where
  "account_example = \<lparr>registrar = 0, acc_name = ''alice'', acc_owner = \<lparr>weight_threshold = 1, account_auths = [], key_auths = []\<rparr>,
     acc_active = \<lparr>weight_threshold = 1, account_auths = [], key_auths = []\<rparr>,
     acc_options = \<lparr>memo_key = 0, voting_account = 3, num_miner = 0, votes = [], allow_subscription = True,
       price_per_subscribe = mk_asset 10 0, subscription_period = 2\<rparr>,
     rights_to_publish = \<lparr>is_publishing_manager = False, publishing_rights_received = {}, publishing_rights_forwarded = []\<rparr>,
     acc_statistics = 0, cashback_vb = None, top_n_control_flags = 0\<rparr>"

definition core_asset_example :: asset_object where
  "core_asset_example = \<lparr>symbol = ''DCT'', precision = 8, issuer = 1, description = [], monitored_asset_opts = None,
     asset_opts = \<lparr>max_supply = GRAPHENE_MAX_SHARE_SUPPLY, opt_exchange_rate = \<lparr>base = mk_asset 1 0, quote = mk_asset 1 0\<rparr>,
       is_exchangeable = True, fixed_max_supply_ext = None\<rparr>, dynamic_asset_data_id = 0\<rparr>"

definition chain_example :: database where
  "chain_example = empty_db\<lparr>
     accounts := \<lparr>next_id = 9, rows = [(4, account_example), (5, account_example\<lparr>acc_name := ''bob''\<rparr>)]\<rparr>,
     account_stats := \<lparr>next_id = 1, rows = [(0, \<lparr>stat_owner = 4, total_core_in_orders = 0\<rparr>)]\<rparr>,
     balances := \<lparr>next_id = 1, rows = [(0, \<lparr>bal_owner = 4, asset_type = 0, bal_amount = 100\<rparr>)]\<rparr>,
     assets := \<lparr>next_id = 1, rows = [(0, core_asset_example)]\<rparr>,
     dynamic_data := \<lparr>next_id = 1, rows = [(0, \<lparr>current_supply = 100, asset_pool = 0, core_pool = 0\<rparr>)]\<rparr>\<rparr>"

lemma chain_example_books: "books chain_example"
  by (simp add: books_def solvent_def wf_index_def chain_example_def empty_db_def empty_index_def)

lemmas table_eval = idx_get_def idx_find_def idx_update_def idx_modify_def idx_create_def conflicts_def
  upd_row_def Let_def no_clash_def find_balance_def idx_find_by_def balance_clash_def
lemmas balance_eval = adjust_balance_def get_balance_def balance_asset_def create_balance_def modify_balance_def
  object_adjust_balance_def asset_neg_def asset_less_def mk_asset_def safe_int64_def in_int64_def
  modify_dynamic_data_def create_detail_def head_block_time_def
lemmas chain_eval = chain_example_def empty_db_def empty_index_def account_example_def core_asset_example_def

theorem transfer_conserves_witness:
  "\<exists>db'. start_evaluate safe_int64 False (Some 5) 4 (mk_asset 5 0)
     (plain_check (transfer_do_evaluate \<lparr>tr_fee = mk_asset 5 0, tr_from = 4, tr_to = 5, tr_amount = mk_asset 30 0\<rparr>))
     (plain_change (transfer_do_apply safe_int64 \<lparr>tr_fee = mk_asset 5 0, tr_from = 4, tr_to = 5, tr_amount = mk_asset 30 0\<rparr>))
     chain_example = Inr db' \<and> holdings 0 db' = holdings 0 chain_example"
proof -
  let ?op = "\<lparr>tr_fee = mk_asset 5 0, tr_from = 4, tr_to = 5, tr_amount = mk_asset 30 0\<rparr>"
  have "succeeds (start_evaluate safe_int64 False (Some 5) (tr_from ?op) (tr_fee ?op)
      (plain_check (transfer_do_evaluate ?op)) (plain_change (transfer_do_apply safe_int64 ?op)) chain_example)"
    by (simp add: start_evaluate_def prepare_fee_def convert_fee_def pay_fee_def plain_check_def plain_change_def
        transfer_do_evaluate_def transfer_do_apply_def chain_eval table_eval balance_eval succeeds_def)
  then obtain db' where d: "start_evaluate safe_int64 False (Some 5) (tr_from ?op) (tr_fee ?op)
      (plain_check (transfer_do_evaluate ?op)) (plain_change (transfer_do_apply safe_int64 ?op)) chain_example = Inr db'"
    unfolding succeeds_iff ..
  from transfer_conserves [OF safe_int64_exact chain_example_books d] d show ?thesis by auto
qed

section \<open>Splitting a payment among co-authors\<close>

text \<open>What a co-author with the given basis points gets.\<close>

definition co_share :: "int \<Rightarrow> int \<Rightarrow> int" where
  "co_share paid points = trunc_div (paid * points) 10000"

lemma pay_co_author_Inr:
  assumes S: "safe_exact S" and b: "books db" and p: "pay_co_author S paid (x, bp) (left, db) = Inr (left', db')"
  shows "books db'" "left' = left - co_share (amount paid) bp"
    "holdings a db' = holdings a db + (if asset_id paid = a then co_share (amount paid) bp else 0)"
    "ledger_of db' = ledger_add x (asset_id paid) (co_share (amount paid) bp) (ledger_of db)"
    "contents db' = contents db"
proof -
  from p have a: "adjust_balance S x (mk_asset (co_share (amount paid) bp) (asset_id paid)) db = Inr db'"
    and l: "S (left - co_share (amount paid) bp) = Inr left'"
    by (auto simp: pay_co_author_def Let_def co_share_def res_simps split: if_splits)
  have s: "solvent db" using b by (simp add: books_def)
  from adjust_balance_holdings(1) [OF S b a] adjust_balance_holdings(2) [OF S b a, of a]
    adjust_balance_Inr(1,3) [OF S s a] safe_exactD [OF S l]
  show "books db'" "left' = left - co_share (amount paid) bp"
    "holdings a db' = holdings a db + (if asset_id paid = a then co_share (amount paid) bp else 0)"
    "ledger_of db' = ledger_add x (asset_id paid) (co_share (amount paid) bp) (ledger_of db)"
    "contents db' = contents db"
    by (auto simp: held_def mk_asset_def)
qed

lemma pay_co_authors_Inr:
  assumes S: "safe_exact S"
  shows "books db \<Longrightarrow> fold_res (pay_co_author S paid) cs (left, db) = Inr (left', db') \<Longrightarrow>
    books db' \<and> left' = left - (\<Sum>c\<leftarrow>cs. co_share (amount paid) (snd c)) \<and>
    holdings a db' = holdings a db + (if asset_id paid = a then \<Sum>c\<leftarrow>cs. co_share (amount paid) (snd c) else 0) \<and>
    ledger_of db' = fold (\<lambda>c. ledger_add (fst c) (asset_id paid) (co_share (amount paid) (snd c))) cs (ledger_of db) \<and>
    contents db' = contents db"
proof (induction cs arbitrary: left db)
  case (Cons c cs)
  obtain x bp where c: "c = (x, bp)" by (cases c)
  from Cons.prems(2) c obtain l1 db1 where p: "pay_co_author S paid (x, bp) (left, db) = Inr (l1, db1)"
    and r: "fold_res (pay_co_author S paid) cs (l1, db1) = Inr (left', db')"
    by (auto simp: res_simps)
  note h = pay_co_author_Inr [OF S Cons.prems(1) p]
  from Cons.IH [OF h(1) r] h(2,4,5) h(3) [of a] c show ?case by auto
qed simp

lemma split_payment_Inr:
  assumes S: "safe_exact S" and b: "books db"
    and t: "transfer2_to_content S amt c db = Inr db'"
  shows "books db'" "holdings a db' = holdings a db + held a amt"
    "ledger_of db' = ledger_add (author c) (asset_id amt) (amount amt - (\<Sum>e\<leftarrow>co_authors c. co_share (amount amt) (snd e)))
       (fold (\<lambda>e. ledger_add (fst e) (asset_id amt) (co_share (amount amt) (snd e))) (co_authors c) (ledger_of db))"
    "contents db' = contents db"
proof -
  from t obtain left db1 where f: "fold_res (pay_co_author S amt) (co_authors c) (amount amt, db) = Inr (left, db1)"
    and r: "(if left \<noteq> 0 then fc_assert (left > 0) (adjust_balance S (author c) (mk_asset left (asset_id amt)) db1) else Inr db1) = Inr db'"
    by (auto simp: transfer2_to_content_def res_simps split: if_splits)
  note h = pay_co_authors_Inr [OF S b f]
  have b1: "books db1" using h [of 0] by simp
  have s1: "solvent db1" using b1 by (simp add: books_def)
  have "adjust_balance S (author c) (mk_asset left (asset_id amt)) db1 = Inr db'"
    using r by (auto simp: res_simps adjust_balance_def mk_asset_def split: if_splits)
  from adjust_balance_holdings(1) [OF S b1 this] adjust_balance_holdings(2) [OF S b1 this, of a]
    adjust_balance_Inr(1,3) [OF S s1 this] h [of a]
  show "books db'" "holdings a db' = holdings a db + held a amt"
    "ledger_of db' = ledger_add (author c) (asset_id amt) (amount amt - (\<Sum>e\<leftarrow>co_authors c. co_share (amount amt) (snd e)))
       (fold (\<lambda>e. ledger_add (fst e) (asset_id amt) (co_share (amount amt) (snd e))) (co_authors c) (ledger_of db))"
    "contents db' = contents db"
    by (auto simp: held_def mk_asset_def)
qed

text \<open>
  A transfer to a content pays exactly the amount: every co-author gets the amount
  times his basis points rounded towards zero, the author gets the remainder including all
  rounding, the sender pays, and of every asset the database holds as much as before.
\<close>

theorem transfer2_splits_exactly:
  assumes "safe_exact S" and "books db" and "tr2_to op = To_content i" and "idx_find (contents db) i = Some c"
    and "transfer2_do_apply S op db = Inr db'"
  shows "books db' \<and> (\<forall>a. holdings a db' = holdings a db) \<and>
    (let x = tr2_amount op; a = asset_id x in
     ledger_of db' = ledger_add (author c) a (amount x - (\<Sum>e\<leftarrow>co_authors c. co_share (amount x) (snd e)))
       (fold (\<lambda>e. ledger_add (fst e) a (co_share (amount x) (snd e))) (co_authors c)
         (ledger_add (tr2_from op) a (- amount x) (ledger_of db))))"
proof -
  from assms(3,5) obtain n db1 c1 db2 d where n: "asset_neg S (tr2_amount op) = Inr n"
    and a: "adjust_balance S (tr2_from op) n db = Inr db1" and c1: "idx_find (contents db1) i = Some c1"
    and p: "transfer2_to_content S (tr2_amount op) c1 db1 = Inr db2" and cd: "create_detail d db2 = Inr db'"
    by (auto simp: transfer2_do_apply_def res_simps)
  have s: "solvent db" using assms(2) by (simp add: books_def)
  note h1 = adjust_balance_holdings [OF assms(1,2) a] and h1' = adjust_balance_Inr(1,3) [OF assms(1) s a]
  have cc: "c1 = c" using h1'(1) c1 assms(4) by auto
  note h2 = split_payment_Inr [OF assms(1) h1(1) p]
  have "holdings a db' = holdings a db" for a
    using h1(2) [of a] h2(2) [of a] create_detail_books [OF cd, of a] asset_neg_held [OF assms(1) n, of a] by simp
  moreover have "books db'" using h2(1) create_detail_books [OF cd] by simp
  moreover have "ledger_of db' = ledger_of db2" using create_detail_books [OF cd] by simp
  ultimately show ?thesis
    using h2(3) h1'(2) asset_neg_exact [OF assms(1) n] cc by (simp add: Let_def)
qed

definition content_example :: content_object where
  "content_example = \<lparr>author = 5, co_authors = [(6, 3333), (7, 3333)], expiration = 500000, created = 100,
     map_price = [(1, mk_asset 10 0)], synopsis = ''book'', content_size = 3, quorum = 1, URI = ''ipfs:x'',
     key_parts = [(6, 1)], last_proof = [], seeder_price = [], is_blocked = False, content_hash = 0, AVG_rating = 0,
     num_of_ratings = 0, times_bought = 0, publishing_fee_escrow = mk_asset 40 0, cd = None\<rparr>"

definition content_db :: database where
  "content_db = chain_example\<lparr>contents := \<lparr>next_id = 1, rows = [(0, content_example)]\<rparr>\<rparr>"

lemma content_db_books: "books content_db"
  by (simp add: books_def solvent_def wf_index_def content_db_def chain_example_def empty_db_def empty_index_def)

theorem transfer2_splits_exactly_witness:
  "\<exists>db'. transfer2_do_apply safe_int64
       \<lparr>tr2_fee = mk_asset 5 0, tr2_from = 4, tr2_to = To_content 0, tr2_amount = mk_asset 10 0\<rparr> content_db = Inr db' \<and>
     ledger_of db' 5 0 = 4 \<and> ledger_of db' 6 0 = 3 \<and> ledger_of db' 4 0 = 90"
proof -
  let ?op = "\<lparr>tr2_fee = mk_asset 5 0, tr2_from = 4, tr2_to = To_content 0, tr2_amount = mk_asset 10 0\<rparr>"
  have "succeeds (transfer2_do_apply safe_int64 ?op content_db)"
    by (simp add: transfer2_do_apply_def transfer2_to_content_def pay_co_author_def content_db_def content_example_def
        chain_eval table_eval balance_eval succeeds_def)
  then obtain db' where d: "transfer2_do_apply safe_int64 ?op content_db = Inr db'" unfolding succeeds_iff ..
  have c: "idx_find (contents content_db) 0 = Some content_example" by (simp add: content_db_def idx_find_def)
  have l: "ledger_of content_db x 0 = (if x = 4 then 100 else 0)" for x
    by (simp add: ledger_of_def content_db_def chain_eval table_eval get_balance_def balance_asset_def mk_asset_def)
  from transfer2_splits_exactly [OF safe_int64_exact content_db_books _ c d] d show ?thesis
    by (auto simp: l Let_def content_example_def co_share_def ledger_add_def mk_asset_def)
qed

text \<open>
  The products of that loop are computed in 64 bits before they are widened: for an
  amount within the maximal supply they can overflow, which C++ leaves undefined.
\<close>

theorem co_author_product_overflows:
  "pay_co_author safe_int64 (mk_asset GRAPHENE_MAX_SHARE_SUPPLY 0) (6, 10000) (GRAPHENE_MAX_SHARE_SUPPLY, db) =
     Inl undefined_behaviour"
  by (simp add: pay_co_author_def mk_asset_def GRAPHENE_MAX_SHARE_SUPPLY_def in_int64_def)

section \<open>Withdrawals keep the books\<close>

lemma withdraw_held:
  assumes "safe_exact S" "withdraw S t x v = Inr v'"
  shows "held a (balance v') = held a (balance v) - held a x"
  using assms(2) by (auto simp: withdraw_def Let_def res_simps asset_sub_def held_def mk_asset_def
      dest!: safe_exactD [OF assms(1)])

lemma vesting_apply_holdings:
  assumes S: "safe_exact S" and b: "books db"
  shows "(vesting_create_do_apply S cop db = Inr db' \<longrightarrow> books db' \<and> holdings a db' = holdings a db) \<and>
    (vesting_withdraw_do_apply S wop db = Inr db' \<longrightarrow> books db' \<and> holdings a db' = holdings a db)"
proof (intro conjI impI)
  assume "vesting_create_do_apply S cop db = Inr db'"
  then obtain n db1 v i where n: "asset_neg S (vbc_amount cop) = Inr n" "adjust_balance S (vbc_creator cop) n db = Inr db1"
    and v: "create_vesting v db1 = Inr (i, db')" "balance v = vbc_amount cop"
    by (auto simp: vesting_create_do_apply_def res_simps)
  note h1 = adjust_balance_holdings [OF S b n(2)]
  note h2 = create_vesting_holdings [OF h1(1) v(1)]
  from h1(2) [of a] h2(1) h2(2) [of a] asset_neg_held [OF S n(1), of a] v(2)
  show "books db'" "holdings a db' = holdings a db" by simp_all
next
  assume "vesting_withdraw_do_apply S wop db = Inr db'"
  then obtain db1 where m: "modify_vesting (vesting_balance_id wop) (withdraw S (head_block_time db) (vbw_amount wop)) db = Inr db1"
    and a: "adjust_balance S (vbw_owner wop) (vbw_amount wop) db1 = Inr db'"
    by (auto simp: vesting_withdraw_do_apply_def res_simps)
  have ex: "held e (balance v') = held e (balance v) + (- held e (vbw_amount wop))"
    if "withdraw S (head_block_time db) (vbw_amount wop) v = Inr v'" for e v v'
    using withdraw_held [OF S that, of e] by simp
  note h1 = modify_vesting_holdings [OF b m ex]
  note h2 = adjust_balance_holdings [OF S h1(1) a]
  from h1(2) [of a] h2(1) h2(2) [of a] show "books db'" "holdings a db' = holdings a db" by simp_all
qed

text \<open>
  Creating a vesting balance and withdrawing from one move amounts between an account
  and the vesting balance: of every asset the database holds as much as before.
\<close>

theorem vesting_evaluators_conserve:
  assumes S: "safe_exact S" and b: "books db"
  shows "(vesting_create_do_apply S cop db = Inr db' \<longrightarrow> books db' \<and> holdings a db' = holdings a db) \<and>
    (vesting_withdraw_do_apply S wop db = Inr db' \<longrightarrow> books db' \<and> holdings a db' = holdings a db)"
  by (rule vesting_apply_holdings [OF assms])

theorem vesting_evaluators_conserve_witness:
  "\<exists>db'. vesting_create_do_apply safe_int64 \<lparr>vbc_fee = mk_asset 0 0, vbc_creator = 4, vbc_owner = 5, vbc_amount = mk_asset 60 0,
       vbc_policy = Linear_initializer 1000 0 100\<rparr> chain_example = Inr db' \<and> holdings 0 db' = holdings 0 chain_example"
proof -
  let ?op = "\<lparr>vbc_fee = mk_asset 0 0, vbc_creator = 4, vbc_owner = 5, vbc_amount = mk_asset 60 0,
       vbc_policy = Linear_initializer 1000 0 100\<rparr>"
  have "succeeds (vesting_create_do_apply safe_int64 ?op chain_example)"
    by (simp add: vesting_create_do_apply_def asset_ge_def create_vesting_def chain_eval table_eval balance_eval succeeds_def)
  then obtain db' where d: "vesting_create_do_apply safe_int64 ?op chain_example = Inr db'" unfolding succeeds_iff ..
  with vesting_evaluators_conserve [OF safe_int64_exact chain_example_books, of ?op db' 0] show ?thesis by auto
qed

text \<open>
  Within a period the claims on a withdrawal permission never exceed its limit: a claim
  that the check admits at or after the start of the current period leaves the total
  claimed in its period at most the limit, and the start of the period is moved to the
  period that contains the present.
\<close>

theorem claims_within_limit:
  assumes S: "safe_exact S" and avail: "available_this_period S t p = Inr avail"
    and le: "asset_le x avail = Inr True" and c: "claim_permission S t (amount x) p = Inr p'"
    and times: "0 \<le> period_start_time p" "period_start_time p \<le> t" "is_time t" "0 < withdrawal_period_sec p"
      "period_start_time p + withdrawal_period_sec p < 2 ^ 32"
    and lim: "0 \<le> amount (withdrawal_limit p)" "claimed_this_period p \<le> amount (withdrawal_limit p)"
  shows "claimed_this_period p' \<le> amount (withdrawal_limit p') \<and>
    period_start_time p' \<le> t \<and> t < period_start_time p' + withdrawal_period_sec p' \<and>
    (if t < period_start_time p + withdrawal_period_sec p
     then period_start_time p' = period_start_time p \<and> claimed_this_period p' = claimed_this_period p + amount x
     else claimed_this_period p' = amount x)"
proof -
  let ?s = "period_start_time p" and ?w = "withdrawal_period_sec p"
  let ?k = "(t - ?s) div ?w"
  have k: "trunc_div (t - ?s) ?w = ?k" using times by simp
  have split: "t - ?s = ?k * ?w + (t - ?s) mod ?w" by simp
  have rem: "0 \<le> (t - ?s) mod ?w" "(t - ?s) mod ?w < ?w" using times(4) by simp_all
  have kw: "?k * ?w \<le> t - ?s" "t - ?s < ?k * ?w + ?w" using split rem by linarith+
  have k0: "?k = 0 \<longleftrightarrow> t < ?s + ?w" using times(2,4) by (auto simp: zdiv_eq_0_iff)
  have "0 \<le> ?k" using times by (simp add: pos_imp_zdiv_nonneg_iff)
  then have "0 \<le> ?k * ?w" using times(4) by simp
  then have start: "u32 (?s + ?k * ?w) = ?s + ?k * ?w" using kw(1) times by (simp add: is_time_def)
  from c k start times(4) have p': "period_start_time p' = ?s + ?k * ?w" "withdrawal_limit p' = withdrawal_limit p"
    "withdrawal_period_sec p' = ?w"
    "claimed_this_period p' = (if ?k = 0 then claimed_this_period p + amount x else amount x)"
    by (auto simp: claim_permission_def Let_def res_simps dest!: safe_exactD [OF S] split: if_splits)
  have av: "amount avail = (if t < ?s + ?w then amount (withdrawal_limit p) - claimed_this_period p else amount (withdrawal_limit p))"
    using avail times lim by (auto simp: available_this_period_def res_simps mk_asset_def dest!: safe_exactD [OF S] split: if_splits)
  from asset_le_True [OF le] av p' k0 kw lim show ?thesis by auto
qed

theorem claims_within_limit_witness:
  "\<exists>p'. claim_permission safe_int64 130 40
       \<lparr>withdraw_from_account = 4, authorized_account = 5, withdrawal_limit = mk_asset 100 0, withdrawal_period_sec = 50,
        period_start_time = 100, perm_expiration = 1000, claimed_this_period = 60\<rparr> = Inr p' \<and>
     claimed_this_period p' \<le> 100"
proof -
  let ?p = "\<lparr>withdraw_from_account = 4, authorized_account = 5, withdrawal_limit = mk_asset 100 0, withdrawal_period_sec = 50,
        period_start_time = 100, perm_expiration = 1000, claimed_this_period = 60\<rparr>"
  have a: "available_this_period safe_int64 130 ?p = Inr (mk_asset 40 0)"
    by (simp add: available_this_period_def mk_asset_def safe_int64_def in_int64_def)
  have l: "asset_le (mk_asset 40 0) (mk_asset 40 0) = Inr True" by (simp add: asset_le_def)
  obtain p' where c: "claim_permission safe_int64 130 (amount (mk_asset 40 0)) ?p = Inr p'"
    by (simp add: claim_permission_def mk_asset_def safe_int64_def in_int64_def)
  have "withdrawal_limit p' = mk_asset 100 0"
    using c by (auto simp: claim_permission_def mk_asset_def safe_int64_def in_int64_def)
  with claims_within_limit [OF safe_int64_exact a l c] c show ?thesis
    by (auto simp: is_time_def mk_asset_def)
qed

text \<open>
  A permission can be claimed before its first period starts: the check has no lower
  bound on the time, and the claim moves the start of the period into the past.
\<close>

theorem claim_before_start:
  "\<exists>p'. available_this_period safe_int64 100
       \<lparr>withdraw_from_account = 4, authorized_account = 5, withdrawal_limit = mk_asset 100 0, withdrawal_period_sec = 50,
        period_start_time = 420, perm_expiration = 1000, claimed_this_period = 0\<rparr> = Inr (mk_asset 100 0) \<and>
     claim_permission safe_int64 100 100
       \<lparr>withdraw_from_account = 4, authorized_account = 5, withdrawal_limit = mk_asset 100 0, withdrawal_period_sec = 50,
        period_start_time = 420, perm_expiration = 1000, claimed_this_period = 0\<rparr> = Inr p' \<and> period_start_time p' = 120"
  by (simp add: available_this_period_def claim_permission_def mk_asset_def safe_int64_def in_int64_def trunc_div_def)

end
