(* ===== verification/Content.thy ===== *)
theory Content
  imports Transfers
begin

text \<open>
  The operations on content of \<open>decent_evaluator.cpp\<close>, with their checks in
  \<open>protocol/decent.cpp\<close> and the prices by region of \<open>content_object.cpp\<close>: publishing
  rights, submission, cancellation, purchase, delivery of the keys, rating, seeders and
  proofs of custody. What the evaluators take from outside the chain library is a
  parameter: the JSON reader of the \<open>fc\<close> library (\<open>J\<close>), the verification of delivery and
  custody proofs (\<open>V\<close>), the container's choice among equal descriptions (\<open>D\<close>) and the block
  ids of the block store (\<open>B\<close>).
\<close>

section \<open>Prices by region\<close>

definition OO_none :: nat where "OO_none = 1"
definition OO_all :: nat where "OO_all = 2"

text \<open>The keys of \<open>s_mapCodeToName\<close>: the two codes above and 249 countries.\<close>

definition region_known :: "nat \<Rightarrow> bool" where
  "region_known r \<longleftrightarrow> 1 \<le> r \<and> r \<le> 251"

definition get_price :: "(nat \<times> asset) list \<Rightarrow> nat \<Rightarrow> asset option" where
  "get_price m region =
     (case map_of m OO_none of
        Some p \<Rightarrow> Some p
      | None \<Rightarrow> (case map_of m region of Some p \<Rightarrow> Some p | None \<Rightarrow> map_of m OO_all))"

definition set_simple_price :: "asset \<Rightarrow> (nat \<times> asset) list \<Rightarrow> (nat \<times> asset) list" where
  "set_simple_price p m = [(OO_none, p)]"

definition set_region_price :: "nat \<Rightarrow> asset \<Rightarrow> (nat \<times> asset) list \<Rightarrow> (nat \<times> asset) list" where
  "set_region_price region p m = map_emplace region p m"

definition price_map :: "(nat \<times> asset) list \<Rightarrow> (nat \<times> asset) list" where
  "price_map ps = fold (\<lambda>(r, p) m. map_assign r p m) ps []"

definition set_prices :: "(nat \<times> asset) list \<Rightarrow> (nat \<times> asset) list \<Rightarrow> (nat \<times> asset) list" where
  "set_prices ps m =
     (let prices = price_map ps in
      case map_of prices OO_none of
        Some p \<Rightarrow> set_simple_price p m
      | None \<Rightarrow> fold (\<lambda>(r, p). set_region_price r p) prices m)"

section \<open>The title in a synopsis\<close>

text \<open>
  What the reader tells apart in a parsed synopsis: scalars with their text, arrays, objects
  by key. \<open>as_string\<close> throws on arrays and objects; null has the empty text.
\<close>

datatype json_value =
    Json_null
  | Json_scalar string
  | Json_array "json_value list"
  | Json_object "(string \<times> json_value) list"

fun as_string :: "json_value \<Rightarrow> string result" where
  "as_string Json_null = Inr []"
| "as_string (Json_scalar s) = Inr s"
| "as_string _ = Inl other_exception"

definition item_strings :: "json_value list \<Rightarrow> string list result" where
  "item_strings vs = fold_res (\<lambda>v acc. rbind (as_string v) (\<lambda>s. Inr (acc @ [s]))) vs []"

definition load_property :: "(string \<Rightarrow> json_value option) \<Rightarrow> string \<Rightarrow> bool \<Rightarrow> bool \<Rightarrow> string \<Rightarrow> string list result" where
  "load_property J name is_fallback is_default syn =
     (let parsed = (if syn = [] then Some Json_null else J syn);
          fall_back = (parsed = None \<and> is_fallback);
          v = (case parsed of
                 Some (Json_object kvs) \<Rightarrow> (case map_of kvs name of None \<Rightarrow> Json_null | Some x \<Rightarrow> x)
               | _ \<Rightarrow> Json_null)
      in rbind (case v of
                  Json_array vs \<Rightarrow> item_strings vs
                | Json_null \<Rightarrow> Inr []
                | _ \<Rightarrow> rbind (as_string v) (\<lambda>s. Inr [s])) (\<lambda>values.
         let values = (if fall_back \<and> values = [] then [syn] else values);
             values = (if is_default \<and> values = [] then [[]] else values)
         in Inr (take 1 values)))"

definition get_title :: "(string \<Rightarrow> json_value option) \<Rightarrow> string \<Rightarrow> string result" where
  "get_title J syn =
     rbind (load_property J ''title'' True False syn) (\<lambda>values.
     if length values \<noteq> 1 then Inl other_exception else Inr (hd values))"

section \<open>Payout\<close>

definition content_payout :: "safe \<Rightarrow> asset \<Rightarrow> content_object \<Rightarrow> database \<Rightarrow> database result" where
  "content_payout S paid c db =
     (if co_authors c = [] then adjust_balance S (author c) paid db
      else
        rbind (fold_res (pay_co_author S paid) (co_authors c) (amount paid, db)) (\<lambda>(left, db1).
        if left \<noteq> 0 then fc_assert (left > 0) (adjust_balance S (author c) (mk_asset left (asset_id paid)) db1)
        else Inr db1))"

definition bump_stats ::
  "(seeding_statistics_object \<Rightarrow> seeding_statistics_object result) \<Rightarrow> nat \<Rightarrow> database \<Rightarrow> database result" where
  "bump_stats f x db = rbind (deref (find_stats x db)) (\<lambda>(i, _). modify_stats i f db)"

section \<open>Publishing rights\<close>

record set_publishing_manager_operation =
  spm_fee :: asset
  spm_from :: nat
  spm_to :: "nat list"
  can_create_publishers :: bool

definition spm_validate :: "set_publishing_manager_operation \<Rightarrow> unit result" where
  "spm_validate op =
     fc_assert (amount (spm_fee op) \<ge> 0) (fc_assert (spm_to op \<noteq> []) (fc_assert (spm_from op = 15) (Inr ())))"

definition spm_do_evaluate :: "set_publishing_manager_operation \<Rightarrow> database \<Rightarrow> unit result" where
  "spm_do_evaluate o' db =
     fc_assert (list_all (\<lambda>x. idx_find (accounts db) x \<noteq> None) (spm_to o'))
    (fc_assert (spm_from o' = 15) (Inr ()))"

definition update_rights :: "(publishing_rights \<Rightarrow> publishing_rights) \<Rightarrow> nat \<Rightarrow> database \<Rightarrow> database result" where
  "update_rights f x db = modify_account x (\<lambda>ao. ao\<lparr>rights_to_publish := f (rights_to_publish ao)\<rparr>) db"

definition spm_erase :: "nat \<Rightarrow> database \<Rightarrow> database result" where
  "spm_erase publisher db =
     rbind (idx_get (accounts db) publisher) (\<lambda>_.
     update_rights (\<lambda>r. r\<lparr>publishing_rights_received := publishing_rights_received r - {publisher}\<rparr>) publisher db)"

fun spm_loop :: "bool \<Rightarrow> nat list \<Rightarrow> database \<Rightarrow> database result" where
  "spm_loop can [] db = Inr db"
| "spm_loop can (x # xs) db =
     rbind (idx_get (accounts db) x) (\<lambda>to_acc.
     if can then update_rights (\<lambda>r. r\<lparr>is_publishing_manager := True\<rparr>) x db
     else
       rbind (fold_res spm_erase (publishing_rights_forwarded (rights_to_publish to_acc)) db) (\<lambda>db1.
       rbind (update_rights (\<lambda>r. r\<lparr>is_publishing_manager := False, publishing_rights_forwarded := []\<rparr>) x db1) (\<lambda>db2.
       spm_loop can xs db2)))"

definition spm_do_apply :: "set_publishing_manager_operation \<Rightarrow> database \<Rightarrow> database result" where
  "spm_do_apply o' db = spm_loop (can_create_publishers o') (spm_to o') db"

record set_publishing_right_operation =
  spr_fee :: asset
  spr_from :: nat
  spr_to :: "nat list"
  is_publisher :: bool

definition spr_validate :: "set_publishing_right_operation \<Rightarrow> unit result" where
  "spr_validate op = fc_assert (amount (spr_fee op) \<ge> 0) (fc_assert (spr_to op \<noteq> []) (Inr ()))"

definition spr_do_evaluate :: "set_publishing_right_operation \<Rightarrow> database \<Rightarrow> unit result" where
  "spr_do_evaluate o' db =
     rbind (idx_get (accounts db) (spr_from o')) (\<lambda>from_acc.
     fc_assert (is_publishing_manager (rights_to_publish from_acc)) (Inr ()))"

definition forward_to :: "nat \<Rightarrow> publishing_rights \<Rightarrow> publishing_rights" where
  "forward_to x r = r\<lparr>publishing_rights_forwarded :=
     (if x \<in> set (publishing_rights_forwarded r) then publishing_rights_forwarded r else insort x (publishing_rights_forwarded r))\<rparr>"

definition spr_step :: "nat \<Rightarrow> bool \<Rightarrow> nat \<Rightarrow> database \<Rightarrow> database result" where
  "spr_step from publisher element db =
     rbind (idx_get (accounts db) element) (\<lambda>_.
     if publisher then
       rbind (update_rights (forward_to element) from db) (\<lambda>db1.
       update_rights (\<lambda>r. r\<lparr>publishing_rights_received := insert from (publishing_rights_received r)\<rparr>) element db1)
     else
       rbind (update_rights (\<lambda>r. r\<lparr>publishing_rights_forwarded := removeAll element (publishing_rights_forwarded r)\<rparr>) from db) (\<lambda>db1.
       update_rights (\<lambda>r. r\<lparr>publishing_rights_received := publishing_rights_received r - {from}\<rparr>) element db1))"

definition spr_do_apply :: "set_publishing_right_operation \<Rightarrow> database \<Rightarrow> database result" where
  "spr_do_apply o' db =
     rbind (idx_get (accounts db) (spr_from o')) (\<lambda>_.
     fold_res (spr_step (spr_from o') (is_publisher o')) (spr_to o') db)"

section \<open>Submission and cancellation\<close>

record content_submit_operation =
  cs_fee :: asset
  cs_author :: nat
  cs_co_authors :: "(nat \<times> int) list"
  cs_URI :: string
  cs_price :: "(nat \<times> asset) list"
  cs_size :: int
  cs_hash :: nat
  cs_seeders :: "nat list"
  cs_key_parts :: "nat list"
  cs_quorum :: int
  cs_expiration :: int
  cs_publishing_fee :: asset
  cs_synopsis :: string
  cs_cd :: "nat option"

definition DECENT_MAX_FILE_SIZE :: int where "DECENT_MAX_FILE_SIZE = 10000"
definition DECENT_MAX_COMMENT_SIZE :: nat where "DECENT_MAX_COMMENT_SIZE = 100"
definition DECENT_RTP_VALIDITY :: int where "DECENT_RTP_VALIDITY = 7200"

definition sum_of_splits :: "(nat \<times> int) list \<Rightarrow> int" where
  "sum_of_splits cs = fold (\<lambda>c s. u32 (s + snd c)) cs 0"

text \<open>\<open>proto\<close> is \<open>fc::url\<close>: it throws on a malformed URI and otherwise gives the protocol.\<close>

definition content_submit_validate :: "(string \<Rightarrow> string result) \<Rightarrow> content_submit_operation \<Rightarrow> unit result" where
  "content_submit_validate proto op =
     fc_assert (amount (cs_fee op) \<ge> 0)
    (fc_assert (length (cs_co_authors op) \<le> 10)
    (fc_assert (sum_of_splits (cs_co_authors op) \<le> 10000)
    (fc_assert (cs_price op \<noteq> [])
    (fc_assert (list_all (\<lambda>(r, p). amount p \<ge> 0) (cs_price op))
    (fc_assert (cs_size op > 0 \<and> cs_size op \<le> DECENT_MAX_FILE_SIZE)
    (fc_assert (length (cs_seeders op) = length (cs_key_parts op))
    (fc_assert (if cs_seeders op = [] then cs_quorum op = 0
                else cs_quorum op \<ge> 2 \<and> int (length (cs_seeders op)) \<ge> cs_quorum op)
    (fc_assert (amount (cs_publishing_fee op) \<ge> 0)
    (rbind (proto (cs_URI op)) (\<lambda>p.
     fc_assert (p = ''ipfs'' \<or> p = ''magnet'' \<or> p = ''http'' \<or> p = ''https'') (Inr ())))))))))))"

definition check_resubmit :: "content_submit_operation \<Rightarrow> content_object \<Rightarrow> unit result" where
  "check_resubmit o' c =
     fc_assert (author c = cs_author o')
    (fc_assert (content_size c = cs_size o')
    (fc_assert (content_hash c = cs_hash o')
    (fc_assert (expiration c = cs_expiration o')
    (fc_assert (quorum c = cs_quorum o')
    (fc_assert (length (key_parts c) = length (cs_seeders o'))
    (fc_assert (list_all (\<lambda>(x, _). x \<in> set (cs_seeders o')) (key_parts c))
    (case cd c of None \<Rightarrow> Inr ()
     | Some d \<Rightarrow> rbind (deref (cs_cd o')) (\<lambda>d'. fc_assert (d = d') (Inr ())))))))))"

definition add_seeder_price :: "safe \<Rightarrow> int \<Rightarrow> database \<Rightarrow> nat \<Rightarrow> asset \<Rightarrow> asset result" where
  "add_seeder_price S sz db p tot =
     rbind (get_or_throw (find_seeder p db)) (\<lambda>(_, s).
     fc_assert (free_space s > sz)
    (rbind (S (amount (seeding_price s) * to_int64 sz)) (\<lambda>x. asset_add S tot (mk_asset x 0))))"

definition content_submit_do_evaluate :: "safe \<Rightarrow> content_submit_operation \<Rightarrow> database \<Rightarrow> bool result" where
  "content_submit_do_evaluate S o' db =
     fc_assert (cs_key_parts o' = [] \<longrightarrow> head_block_time db > HARDFORK_2_TIME)
    (rbind (idx_get (accounts db) (cs_author o')) (\<lambda>_.
     fc_assert (list_all (\<lambda>c. idx_find (accounts db) (fst c) \<noteq> None) (cs_co_authors o'))
    (fc_assert (cs_co_authors o' \<noteq> [] \<longrightarrow>
        (if map_of (cs_co_authors o') (cs_author o') = None then sum_of_splits (cs_co_authors o') < 10000
         else sum_of_splits (cs_co_authors o') = 10000))
    (fc_assert (list_all (\<lambda>(r, p). idx_find (assets db) (asset_id p) \<noteq> None \<and> region_known r) (cs_price o'))
    (fc_assert (head_block_time db \<le> cs_expiration o')
    (let days = u64 (trunc_div (trunc_div (cs_expiration o' - head_block_time db) 3600) 24) in
     fc_assert (days \<noteq> 0)
    (case find_content (cs_URI o') db of
       Some (_, c) \<Rightarrow> rbind (check_resubmit o' c) (\<lambda>_. Inr True)
     | None \<Rightarrow>
         rbind (fold_res (add_seeder_price S (cs_size o') db) (cs_seeders o') (mk_asset 0 0)) (\<lambda>per_day.
         rbind (asset_scale S (u32 days) per_day) (\<lambda>tot.
         rbind (asset_le tot (cs_publishing_fee o')) (\<lambda>le. fc_assert le (Inr False)))))))))))"

definition new_content :: "content_submit_operation \<Rightarrow> database \<Rightarrow> content_object" where
  "new_content o' db =
     \<lparr>author = cs_author o', co_authors = cs_co_authors o', expiration = cs_expiration o', created = head_block_time db,
      map_price = set_prices (cs_price o') [], synopsis = cs_synopsis o', content_size = cs_size o', quorum = cs_quorum o',
      URI = cs_URI o', key_parts = fold (\<lambda>(x, k). map_emplace x k) (zip (cs_seeders o') (cs_key_parts o')) [],
      last_proof = [], seeder_price = [], is_blocked = False, content_hash = cs_hash o', AVG_rating = 0,
      num_of_ratings = 0, times_bought = 0, publishing_fee_escrow = cs_publishing_fee o', cd = cs_cd o'\<rparr>"

definition reserve_space :: "int \<Rightarrow> nat \<Rightarrow> nat \<Rightarrow> database \<Rightarrow> database result" where
  "reserve_space sz cid p db =
     rbind (deref (find_seeder p db)) (\<lambda>(i, _).
     rbind (modify_seeder i (\<lambda>so. so\<lparr>free_space := u64 (free_space so - sz)\<rparr>) db) (\<lambda>db1.
     rbind (deref (find_seeder p db1)) (\<lambda>(_, s).
     modify_content cid (\<lambda>co. Inr (co\<lparr>seeder_price := map_emplace p (amount (seeding_price s)) (seeder_price co)\<rparr>)) db1)))"

text \<open>Storing a content computes its key in the index by price, which asserts that it has a price.\<close>

definition content_submit_do_apply ::
  "safe \<Rightarrow> (string \<Rightarrow> json_value option) \<Rightarrow> (string \<Rightarrow> database \<Rightarrow> nat option) \<Rightarrow>
   bool \<Rightarrow> content_submit_operation \<Rightarrow> database \<Rightarrow> database result" where
  "content_submit_do_apply S J D is_resubmit o' db =
     rbind (get_title J (cs_synopsis o')) (\<lambda>title.
     if is_resubmit then
       rbind (deref (find_content (cs_URI o') db)) (\<lambda>(cid, c).
       rbind (get_title J (synopsis c)) (\<lambda>old_title.
       rbind (deref (D old_title db)) (\<lambda>tid.
       rbind (modify_detail tid (\<lambda>t. t\<lparr>m_str_description := title, m_timestamp := head_block_time db\<rparr>) db) (\<lambda>db1.
       modify_content cid (\<lambda>co. Inr (co\<lparr>map_price := set_prices (cs_price o') (map_price co),
         synopsis := cs_synopsis o', co_authors := cs_co_authors o'\<rparr>)) db1))))
     else
       fc_assert (set_prices (cs_price o') [] \<noteq> [])
      (rbind (create_content (new_content o' db) db) (\<lambda>(cid, db1).
       rbind (asset_neg S (cs_publishing_fee o')) (\<lambda>n.
       rbind (adjust_balance S (cs_author o') n db1) (\<lambda>db2.
       rbind (fold_res (reserve_space (cs_size o') cid) (cs_seeders o') db2) (\<lambda>db3.
       rbind (fold_res (bump_stats (\<lambda>so. Inr (so\<lparr>total_content_requested_to_seed :=
                u32 (total_content_requested_to_seed so + 1)\<rparr>))) (cs_seeders o') db3) (\<lambda>db4.
       create_detail \<lparr>m_from_account = cs_author o', m_to_account = 0, m_operation_type = td_content_submit,
         m_transaction_amount = cs_publishing_fee o', m_transaction_fee = cs_fee o', m_str_description = title,
         m_timestamp = head_block_time db4\<rparr> db4))))))) "

definition content_cancellation_do_evaluate :: "nat \<Rightarrow> string \<Rightarrow> database \<Rightarrow> unit result" where
  "content_cancellation_do_evaluate op_author uri db =
     rbind (get_or_throw (find_content uri db)) (\<lambda>(_, c).
     fc_assert (op_author = author c)
    (fc_assert (expiration c > head_block_time db)
    (fc_assert (\<not> is_blocked c) (Inr ()))))"

definition content_cancellation_do_apply :: "string \<Rightarrow> database \<Rightarrow> database result" where
  "content_cancellation_do_apply uri db =
     rbind (deref (find_content uri db)) (\<lambda>(i, _).
     modify_content i (\<lambda>c. Inr (c\<lparr>is_blocked := True,
       expiration := (if expiration c > u32 (head_block_time db + 24 * 60 * 60)
                      then u32 (head_block_time db + 24 * 60 * 60) else expiration c)\<rparr>)) db)"

section \<open>Purchase and delivery\<close>

record request_to_buy_operation =
  rtb_fee :: asset
  rtb_URI :: string
  rtb_consumer :: nat
  rtb_price :: asset
  rtb_region :: nat
  rtb_pubKey :: nat

definition request_to_buy_validate :: "request_to_buy_operation \<Rightarrow> unit result" where
  "request_to_buy_validate op =
     fc_assert (amount (rtb_fee op) \<ge> 0) (fc_assert (amount (rtb_price op) \<ge> 0) (Inr ()))"

text \<open>What the check leaves in the evaluator for the update.\<close>

record buy_state =
  is_subscriber :: bool
  content_price :: asset
  paid_price :: asset

definition is_subscribed :: "nat \<Rightarrow> nat \<Rightarrow> database \<Rightarrow> bool" where
  "is_subscribed c a db =
     (case find_subscription c a db of None \<Rightarrow> False | Some (_, s) \<Rightarrow> sub_expiration s > head_block_time db)"

definition check_conversion :: "safe \<Rightarrow> asset \<Rightarrow> asset \<Rightarrow> database \<Rightarrow> unit result" where
  "check_conversion S paid cprice db =
     (if asset_id cprice = asset_id paid then rbind (asset_ge paid cprice) (\<lambda>ge. fc_assert ge (Inr ()))
      else
        rbind (can_convert S (asset_id paid) paid db) (\<lambda>d.
        rbind (get_or_throw d) (\<lambda>in_dct.
        fc_assert (asset_id in_dct = 0)
       (rbind (can_convert S (asset_id cprice) in_dct db) (\<lambda>d'.
        rbind (get_or_throw d') (\<lambda>after.
        fc_assert (asset_id after = asset_id cprice)
       (rbind (asset_ge after cprice) (\<lambda>ge. fc_assert ge (Inr ())))))))))"

definition request_to_buy_do_evaluate :: "safe \<Rightarrow> request_to_buy_operation \<Rightarrow> database \<Rightarrow> buy_state result" where
  "request_to_buy_do_evaluate S o' db =
     rbind (get_or_throw (find_content (rtb_URI o') db)) (\<lambda>(_, c).
     rbind (asset_le (rtb_price o') (get_balance (rtb_consumer o') (asset_id (rtb_price o')) db)) (\<lambda>le.
     fc_assert le
    (fc_assert (expiration c > head_block_time db)
    (rbind (get_or_throw (get_price (map_price c) (rtb_region o'))) (\<lambda>cprice.
     fc_assert (\<not> is_blocked c)
    (if is_subscribed (rtb_consumer o') (author c) db
     then Inr \<lparr>is_subscriber = True, content_price = cprice, paid_price = mk_asset 0 0\<rparr>
     else
       rbind (idx_get (assets db) (asset_id (rtb_price o'))) (\<lambda>pa.
       rbind (idx_get (assets db) (asset_id cprice)) (\<lambda>ca.
       fc_assert (are_assets_exchangeable (asset_id (rtb_price o'), pa) (asset_id cprice, ca))
      (rbind (check_conversion S (rtb_price o') cprice db) (\<lambda>_.
         Inr \<lparr>is_subscriber = False, content_price = cprice, paid_price = rtb_price o'\<rparr>))))))))))"

definition exchange_payment :: "safe \<Rightarrow> asset \<Rightarrow> nat \<Rightarrow> database \<Rightarrow> (asset \<times> database) result" where
  "exchange_payment S paid to_asset db =
     rbind (convert S (asset_id paid) paid db) (\<lambda>(in_dct, db1). convert S to_asset in_dct db1)"

definition finish_buying :: "content_object \<Rightarrow> asset \<Rightarrow> nat \<Rightarrow> nat \<Rightarrow> virtual_operation" where
  "finish_buying c payout cons bid = Finish_buying (author c) (co_authors c) payout cons bid"

definition new_buying :: "request_to_buy_operation \<Rightarrow> content_object \<Rightarrow> asset \<Rightarrow> asset \<Rightarrow> database \<Rightarrow> buying_object" where
  "new_buying o' c paid after db =
     (let simplified = (key_parts c = []) in
      \<lparr>consumer = rtb_consumer o', buy_URI = rtb_URI o', buy_size = content_size c, rating = 2 ^ 64 - 1, comment = [],
       escrow_price = (if simplified then mk_asset 0 0 else after), paid_price_before_exchange = paid,
       paid_price_after_exchange = after, buy_synopsis = synopsis c, seeders_answered = [], key_particles = [],
       buy_pubKey = rtb_pubKey o', expiration_time = u32 (head_block_time db + 24 * 3600), expired = False,
       delivered = simplified, expiration_or_delivery_time = head_block_time db, rated_or_commented = False,
       buy_created = created c, region_code_from = rtb_region o'\<rparr>)"

definition count_purchase :: "nat \<Rightarrow> database \<Rightarrow> database result" where
  "count_purchase cid db = modify_content cid (\<lambda>co. Inr (co\<lparr>times_bought := u32 (times_bought co + 1)\<rparr>)) db"

definition request_to_buy_do_apply ::
  "safe \<Rightarrow> (string \<Rightarrow> json_value option) \<Rightarrow> buy_state \<Rightarrow> request_to_buy_operation \<Rightarrow> database \<Rightarrow> database result" where
  "request_to_buy_do_apply S J st o' db =
     rbind (deref (find_content (rtb_URI o') db)) (\<lambda>(cid, c).
     let paid = (if is_subscriber st then mk_asset 0 0 else paid_price st) in
     rbind (if asset_id (content_price st) = asset_id (rtb_price o') then Inr (paid, db)
            else exchange_payment S paid (asset_id (content_price st)) db) (\<lambda>(after, db1).
     rbind (create_buying (new_buying o' c paid after db1) db1) (\<lambda>(bid, db2).
     rbind (asset_neg S paid) (\<lambda>n.
     rbind (adjust_balance S (rtb_consumer o') n db2) (\<lambda>db3.
     rbind (if key_parts c = [] then
              rbind (content_payout S after c db3) (\<lambda>x.
              rbind (count_purchase cid x) (\<lambda>y.
                Inr (push_applied_operation (finish_buying c after (rtb_consumer o') bid) y)))
            else Inr db3) (\<lambda>db4.
     rbind (fold_res (bump_stats (\<lambda>so. Inr (so\<lparr>missed_delivered_keys := u32 (missed_delivered_keys so + 1)\<rparr>)))
              (map fst (key_parts c)) db4) (\<lambda>db5.
     rbind (get_title J (synopsis c)) (\<lambda>title.
     create_detail \<lparr>m_from_account = author c, m_to_account = rtb_consumer o', m_operation_type = td_content_buy,
       m_transaction_amount = paid, m_transaction_fee = rtb_fee o', m_str_description = title,
       m_timestamp = head_block_time db5\<rparr> db5))))))))"

text \<open>\<open>database::buying_expire\<close>.\<close>

definition buying_expire :: "safe \<Rightarrow> nat \<Rightarrow> database \<Rightarrow> database result" where
  "buying_expire S bid db =
     rbind (deref (idx_find (buyings db) bid)) (\<lambda>b.
     rbind (adjust_balance S (consumer b) (escrow_price b) db) (\<lambda>db1.
     rbind (modify_buying bid (\<lambda>bo. bo\<lparr>escrow_price := (escrow_price bo)\<lparr>amount := 0\<rparr>, expired := True,
              expiration_or_delivery_time := head_block_time db1\<rparr>) db1) (\<lambda>db2.
       Inr (push_applied_operation (Return_escrow_buying (consumer b) (escrow_price b) bid) db2))))"

record deliver_keys_operation =
  dk_fee :: asset
  dk_seeder :: nat
  dk_buying :: nat
  dk_proof :: nat
  dk_key :: nat

definition deliver_keys_do_evaluate ::
  "(nat \<Rightarrow> nat \<Rightarrow> nat \<Rightarrow> nat \<Rightarrow> nat \<Rightarrow> bool) \<Rightarrow> bool \<Rightarrow> deliver_keys_operation \<Rightarrow> database \<Rightarrow> unit result" where
  "deliver_keys_do_evaluate V skip o' db =
     rbind (idx_get (buyings db) (dk_buying o')) (\<lambda>b.
     rbind (get_or_throw (find_content (buy_URI b) db)) (\<lambda>(_, c).
     rbind (deref (find_seeder (dk_seeder o') db)) (\<lambda>(_, s).
     case map_of (key_parts c) (dk_seeder o') of
       None \<Rightarrow> Inl out_of_range_exception
     | Some firstK \<Rightarrow>
         fc_assert (skip \<or> V (dk_proof o') firstK (dk_key o') (seeder_pubKey s) (buy_pubKey b)) (Inr ()))))"

definition note_key :: "deliver_keys_operation \<Rightarrow> database \<Rightarrow> database result" where
  "note_key o' db =
     rbind (idx_get (buyings db) (dk_buying o')) (\<lambda>b.
     if dk_seeder o' \<in> set (seeders_answered b) then Inr db
     else
       rbind (modify_buying (dk_buying o') (\<lambda>bo. bo\<lparr>seeders_answered := seeders_answered bo @ [dk_seeder o'],
                key_particles := key_particles bo @ [dk_key o']\<rparr>) db) (\<lambda>db1.
       bump_stats (\<lambda>so. Inr (so\<lparr>missed_delivered_keys := u32 (missed_delivered_keys so - 1),
         total_delivered_keys := u32 (total_delivered_keys so + 1)\<rparr>)) (dk_seeder o') db1))"

definition complete_delivery :: "safe \<Rightarrow> nat \<Rightarrow> nat \<Rightarrow> database \<Rightarrow> database result" where
  "complete_delivery S bid cid db =
     rbind (count_purchase cid db) (\<lambda>db1.
     rbind (deref (idx_find (contents db1) cid)) (\<lambda>c.
     rbind (deref (idx_find (buyings db1) bid)) (\<lambda>b.
     rbind (content_payout S (paid_price_after_exchange b) c db1) (\<lambda>db2.
     rbind (modify_buying bid (\<lambda>bo. bo\<lparr>escrow_price := (escrow_price bo)\<lparr>amount := 0\<rparr>, delivered := True,
              expiration_or_delivery_time := head_block_time db2\<rparr>) db2) (\<lambda>db3.
       Inr (push_applied_operation (finish_buying c (paid_price_after_exchange b) (consumer b) bid) db3))))))"

definition deliver_keys_do_apply :: "safe \<Rightarrow> deliver_keys_operation \<Rightarrow> database \<Rightarrow> database result" where
  "deliver_keys_do_apply S o' db =
     rbind (idx_get (buyings db) (dk_buying o')) (\<lambda>b0.
     rbind (deref (find_content (buy_URI b0) db)) (\<lambda>(cid, c).
     rbind (note_key o' db) (\<lambda>db1.
     rbind (deref (idx_find (buyings db1) (dk_buying o'))) (\<lambda>b.
     if delivered b \<or> expired b then Inr db1
     else if int (length (seeders_answered b)) \<ge> quorum c then complete_delivery S (dk_buying o') cid db1
     else if expiration_time b0 < head_block_time db then buying_expire S (dk_buying o') db1
     else Inr db1))))"

section \<open>Rating\<close>

record leave_rating_operation =
  lr_fee :: asset
  lr_URI :: string
  lr_consumer :: nat
  lr_rating :: int
  lr_comment :: string

definition leave_rating_validate :: "leave_rating_operation \<Rightarrow> unit result" where
  "leave_rating_validate op =
     fc_assert (amount (lr_fee op) \<ge> 0)
    (fc_assert (lr_rating op > 0 \<and> lr_rating op \<le> 5)
    (fc_assert (lr_comment op \<noteq> [] \<longrightarrow> length (lr_comment op) \<le> DECENT_MAX_COMMENT_SIZE) (Inr ())))"

definition find_buying :: "nat \<Rightarrow> string \<Rightarrow> database \<Rightarrow> (nat \<times> buying_object) option" where
  "find_buying x u db = idx_find_by (\<lambda>b. consumer b = x \<and> buy_URI b = u) (buyings db)"

definition leave_rating_do_evaluate :: "leave_rating_operation \<Rightarrow> database \<Rightarrow> unit result" where
  "leave_rating_do_evaluate o' db =
     fc_assert (find_content (lr_URI o') db \<noteq> None \<and> find_buying (lr_consumer o') (lr_URI o') db \<noteq> None)
    (rbind (deref (find_buying (lr_consumer o') (lr_URI o') db)) (\<lambda>(_, bo).
     fc_assert (delivered bo) (fc_assert (\<not> rated_or_commented bo) (Inr ()))))"

definition add_rating :: "int \<Rightarrow> content_object \<Rightarrow> content_object" where
  "add_rating r co =
     (if num_of_ratings co = 0
      then co\<lparr>AVG_rating := u64 (r * 1000), num_of_ratings := u32 (num_of_ratings co + 1)\<rparr>
      else co\<lparr>AVG_rating := u64 (u64 (AVG_rating co * num_of_ratings co) + u64 (r * 1000)) div u32 (num_of_ratings co + 1),
              num_of_ratings := u32 (num_of_ratings co + 1)\<rparr>)"

text \<open>The divisor is a 32 bit sum, so the division is undefined once the counter is full.\<close>

definition leave_rating_do_apply ::
  "(string \<Rightarrow> json_value option) \<Rightarrow> leave_rating_operation \<Rightarrow> database \<Rightarrow> database result" where
  "leave_rating_do_apply J o' db =
     rbind (deref (find_buying (lr_consumer o') (lr_URI o') db)) (\<lambda>(bid, _).
     rbind (deref (find_content (lr_URI o') db)) (\<lambda>(cid, c).
     rbind (modify_buying bid (\<lambda>b. b\<lparr>rated_or_commented := True, rating := lr_rating o', comment := lr_comment o'\<rparr>) db) (\<lambda>db1.
     rbind (modify_content cid (\<lambda>co. if u32 (num_of_ratings co + 1) = 0 then Inl undefined_behaviour
                                     else Inr (add_rating (lr_rating o') co)) db1) (\<lambda>db2.
     rbind (get_title J (synopsis c)) (\<lambda>title.
     create_detail \<lparr>m_from_account = lr_consumer o', m_to_account = author c, m_operation_type = td_content_rate,
       m_transaction_amount = mk_asset 0 0, m_transaction_fee = lr_fee o',
       m_str_description = decimal (lr_rating o') @ '' ('' @ title @ '')'', m_timestamp = head_block_time db2\<rparr> db2)))))"

section \<open>Seeders\<close>

definition HARDFORK_1_TIME :: int where "HARDFORK_1_TIME = 1510228800"

record ready_to_publish_operation =
  rtp_fee :: asset
  rtp_seeder :: nat
  rtp_pubKey :: nat
  rtp_space :: int
  price_per_MByte :: int
  rtp_ipfs_ID :: string

definition ready_to_publish_validate :: "ready_to_publish_operation \<Rightarrow> unit result" where
  "ready_to_publish_validate op =
     fc_assert (amount (rtp_fee op) \<ge> 0) (fc_assert (rtp_space op > 0) (fc_assert (rtp_ipfs_ID op \<noteq> []) (Inr ())))"

definition new_stats :: "nat \<Rightarrow> seeding_statistics_object" where
  "new_stats x = \<lparr>stats_seeder = x, total_upload = 0, missed_delivered_keys = 0, total_delivered_keys = 0,
     total_content_seeded = 0, num_of_content_seeded = 0, total_content_requested_to_seed = 0, num_of_pors = 0,
     uploaded_till_last_maint = 0, avg_buying_ratio = 0, seeding_rel_ratio = 0, seeding_abs_ratio = 0, missed_ratio = 0\<rparr>"

text \<open>
  \<open>region\<close> is the code the second version of the operation sets; the first version
  leaves the region of the seeder alone.
\<close>

definition publish_seeder :: "ready_to_publish_operation \<Rightarrow> string option \<Rightarrow> database \<Rightarrow> database result" where
  "publish_seeder o' region db =
     (case find_seeder (rtp_seeder o') db of
        None \<Rightarrow>
          rbind (create_stats (new_stats (rtp_seeder o')) db) (\<lambda>(sid, db1).
          create_seeder \<lparr>seeder = rtp_seeder o', free_space = rtp_space o', seeding_price = mk_asset (price_per_MByte o') 0,
            seeder_expiration = u32 (head_block_time db1 + DECENT_RTP_VALIDITY), seeder_pubKey = rtp_pubKey o',
            ipfs_ID = rtp_ipfs_ID o', stats = sid, seeder_rating = 0,
            region_code = (case region of None \<Rightarrow> [] | Some r \<Rightarrow> r)\<rparr> db1)
      | Some (i, _) \<Rightarrow>
          modify_seeder i (\<lambda>so. so\<lparr>free_space := rtp_space o', seeding_price := mk_asset (price_per_MByte o') 0,
            seeder_pubKey := rtp_pubKey o', seeder_expiration := u32 (head_block_time db + 24 * 3600),
            ipfs_ID := rtp_ipfs_ID o', region_code := (case region of None \<Rightarrow> region_code so | Some r \<Rightarrow> r)\<rparr>) db)"

definition ready_to_publish_do_apply :: "ready_to_publish_operation \<Rightarrow> database \<Rightarrow> database result" where
  "ready_to_publish_do_apply o' db = publish_seeder o' None db"

definition ready_to_publish2_do_evaluate :: "database \<Rightarrow> unit result" where
  "ready_to_publish2_do_evaluate db = fc_assert (head_block_time db \<ge> HARDFORK_1_TIME) (Inr ())"

definition ready_to_publish2_do_apply :: "ready_to_publish_operation \<Rightarrow> string option \<Rightarrow> database \<Rightarrow> database result" where
  "ready_to_publish2_do_apply o' code db = publish_seeder o' (Some (case code of None \<Rightarrow> [] | Some r \<Rightarrow> r)) db"

section \<open>Proof of custody\<close>

record custody_proof =
  reference_block :: int
  seed_words :: "int list"
  proof_data :: nat

record proof_of_custody_operation =
  poc_fee :: asset
  poc_seeder :: nat
  poc_URI :: string
  poc_proof :: "custody_proof option"

definition check_reference :: "(int \<Rightarrow> int list result) \<Rightarrow> custody_proof \<Rightarrow> database \<Rightarrow> unit result" where
  "check_reference B p db =
     rbind (B (reference_block p)) (\<lambda>bid.
     fc_assert (take 5 bid = take 5 (seed_words p))
    (fc_assert (head_block_num db \<le> u32 (reference_block p + 6)) (Inr ())))"

definition proof_of_custody_do_evaluate ::
  "(nat \<Rightarrow> custody_proof \<Rightarrow> bool) \<Rightarrow> (int \<Rightarrow> int list result) \<Rightarrow> bool \<Rightarrow> proof_of_custody_operation \<Rightarrow> database \<Rightarrow> unit result" where
  "proof_of_custody_do_evaluate V B skip o' db =
     rbind (get_or_throw (find_content (poc_URI o') db)) (\<lambda>(_, c).
     fc_assert (expiration c > head_block_time db)
    (rbind (case poc_proof o' of None \<Rightarrow> Inr () | Some p \<Rightarrow> check_reference B p db) (\<lambda>_.
     fc_assert ((cd c \<noteq> None) = (poc_proof o' \<noteq> None))
    (fc_assert (skip \<or> (case cd c of None \<Rightarrow> True
        | Some d \<Rightarrow> (case poc_proof o' of None \<Rightarrow> True | Some p \<Rightarrow> V d p))) (Inr ())))))"

definition seeded_bytes :: "content_object \<Rightarrow> int result" where
  "seeded_bytes c =
     (if key_parts c = [] then Inl undefined_behaviour
      else Inr (u64 (content_size c * 1000 * 1000) div int (length (key_parts c))))"

definition first_proof :: "content_object \<Rightarrow> seeding_statistics_object \<Rightarrow> seeding_statistics_object result" where
  "first_proof c so =
     rbind (seeded_bytes c) (\<lambda>n.
       Inr (so\<lparr>total_content_seeded := u64 (total_content_seeded so + n),
              num_of_content_seeded := u32 (num_of_content_seeded so + 1),
              total_content_requested_to_seed :=
                (if total_content_requested_to_seed so > 0 then total_content_requested_to_seed so - 1
                 else total_content_requested_to_seed so)\<rparr>))"

text \<open>The share of a day's reward, in basis points: the time since the last proof, less the loss for haste.\<close>

definition total_reward_ratio :: "int \<Rightarrow> int" where
  "total_reward_ratio elapsed =
     (let day = 86400 * 1000000;
          diff = (if elapsed * 1000000 > day then day else elapsed * 1000000);
          ratio = u64 (trunc_div (10000 * diff) day);
          loss = u64 (10000 - ratio) div 4
      in u64 (ratio * u64 (10000 - loss)) div 10000)"

definition seeder_reward :: "safe \<Rightarrow> int \<Rightarrow> content_object \<Rightarrow> nat \<times> seeder_object \<Rightarrow> database \<Rightarrow> int result" where
  "seeder_reward S last_time c sr db =
     (let ratio = to_int64 (total_reward_ratio (head_block_time db - last_time)) in
      rbind (if head_block_num db > 404727 then get_or_throw (map_of (seeder_price c) (seeder (snd sr)))
             else Inr (amount (seeding_price (snd sr)))) (\<lambda>p.
      rbind (S (p * ratio)) (\<lambda>x.
      rbind (S (x * to_int64 (content_size c))) (\<lambda>y.
      rbind (S (trunc_div y 10000)) (\<lambda>reward.
        Inr (if head_block_num db > 404727 \<and> reward > amount (publishing_fee_escrow c)
             then max 0 (amount (publishing_fee_escrow c)) else reward))))))"

definition proof_of_custody_do_apply :: "safe \<Rightarrow> proof_of_custody_operation \<Rightarrow> database \<Rightarrow> database result" where
  "proof_of_custody_do_apply S o' db =
     rbind (deref (find_content (poc_URI o') db)) (\<lambda>(cid, c).
     rbind (get_or_throw (find_seeder (poc_seeder o') db)) (\<lambda>sr.
     case map_of (last_proof c) (poc_seeder o') of
       None \<Rightarrow>
         rbind (modify_content cid (\<lambda>co. Inr (co\<lparr>last_proof := map_emplace (poc_seeder o') (head_block_time db) (last_proof co)\<rparr>)) db) (\<lambda>db1.
         bump_stats (first_proof c) (poc_seeder o') db1)
     | Some last_time \<Rightarrow>
         rbind (bump_stats (\<lambda>so. Inr (so\<lparr>num_of_pors := u32 (num_of_pors so + 1)\<rparr>)) (poc_seeder o') db) (\<lambda>db1.
         rbind (seeder_reward S last_time c sr db1) (\<lambda>r.
         let reward = mk_asset r 0 in
         rbind (modify_content cid (\<lambda>co.
                  rbind (asset_sub S (publishing_fee_escrow co) reward) (\<lambda>e.
                    Inr (co\<lparr>last_proof := map_assign (poc_seeder o') (head_block_time db1) (last_proof co),
                           publishing_fee_escrow := e\<rparr>))) db1) (\<lambda>db2.
         rbind (adjust_balance S (seeder (snd sr)) reward db2) (\<lambda>db3.
           Inr (push_applied_operation (Pay_seeder (author c) (seeder (snd sr)) reward) db3)))))))"

definition report_stats_validate :: "asset \<Rightarrow> (nat \<times> int) list \<Rightarrow> unit result" where
  "report_stats_validate fee items =
     fc_assert (amount fee \<ge> 0) (fc_assert (items \<noteq> []) (fc_assert (list_all (\<lambda>(x, n). n \<ge> 0) items) (Inr ())))"

definition report_stats_do_apply :: "(nat \<times> int) list \<Rightarrow> database \<Rightarrow> database result" where
  "report_stats_do_apply items db =
     fold_res (\<lambda>(x, n). bump_stats (\<lambda>so. Inr (so\<lparr>total_upload := u64 (total_upload so + n)\<rparr>)) x) items db"

end
