(* ===== verification/Content_Books.thy ===== *)
theory Content_Books
  imports Content
begin

text \<open>
  The books under the content operations. \<open>good\<close> collects what the operations rely on and
  keep: the books are in order, an open purchase holds in escrow exactly what the author will
  be paid, exchange rates relate an asset that is not monitored to the core asset, and content is priced in assets
  of a set \<open>U\<close> none of which is monitored. Each primitive update has one lemma; the
  evaluators follow by composition and are then run through the generic evaluator.
\<close>

section \<open>The invariant\<close>

definition purchase_ok :: "buying_object \<Rightarrow> bool" where
  "purchase_ok b \<longleftrightarrow>
     (if delivered b \<or> expired b then amount (escrow_price b) = 0 else escrow_price b = paid_price_after_exchange b)"

definition priced_in :: "nat set \<Rightarrow> (nat \<times> asset) list \<Rightarrow> bool" where
  "priced_in U m \<longleftrightarrow> (\<forall>p \<in> set m. asset_id (snd p) \<in> U)"

definition rate_ok :: "nat \<Rightarrow> asset_object \<Rightarrow> bool" where
  "rate_ok i ao \<longleftrightarrow> i \<noteq> 0 \<and> \<not> is_monitored_asset ao \<longrightarrow>
     {asset_id (base (opt_exchange_rate (asset_opts ao))), asset_id (quote (opt_exchange_rate (asset_opts ao)))} = {0, i}"

definition market_inv :: "nat set \<Rightarrow> database \<Rightarrow> bool" where
  "market_inv U db \<longleftrightarrow>
     (\<forall>i b. idx_find (buyings db) i = Some b \<longrightarrow> purchase_ok b) \<and>
     (\<forall>i c. idx_find (contents db) i = Some c \<longrightarrow> priced_in U (map_price c)) \<and>
     (\<forall>i ao. idx_find (assets db) i = Some ao \<longrightarrow> rate_ok i ao \<and> (i \<in> U \<longrightarrow> \<not> is_monitored_asset ao))"

definition good :: "nat set \<Rightarrow> database \<Rightarrow> bool" where
  "good U db \<longleftrightarrow> books db \<and> market_inv U db"

lemma goodD:
  assumes "good U db"
  shows "books db" "\<And>i b. idx_find (buyings db) i = Some b \<Longrightarrow> purchase_ok b"
    "\<And>i c. idx_find (contents db) i = Some c \<Longrightarrow> priced_in U (map_price c)"
    "\<And>i ao. idx_find (assets db) i = Some ao \<Longrightarrow> rate_ok i ao"
    "\<And>i ao. idx_find (assets db) i = Some ao \<Longrightarrow> i \<in> U \<Longrightarrow> \<not> is_monitored_asset ao"
  using assms by (auto simp: good_def market_inv_def)

lemma market_inv_frame:
  "assets db' = assets db \<Longrightarrow> contents db' = contents db \<Longrightarrow> buyings db' = buyings db \<Longrightarrow> market_inv U db' = market_inv U db"
  by (simp add: market_inv_def)

lemma good_find_content:
  "good U db \<Longrightarrow> find_content u db = Some (i, c) \<Longrightarrow> idx_find (contents db) i = Some c \<and> URI c = u"
  using idx_find_by_Some [of "contents db" _ i c] by (auto simp: find_content_def good_def books_def)

section \<open>Primitive updates\<close>

lemma money_good:
  assumes "good U db" "money db' = money db"
  shows "good U db'" "\<forall>a. holdings a db' = holdings a db"
  using assms market_inv_frame [of db' db U] money_cong [OF assms(2)] money_books [OF assms(2)] money_holdings [OF assms(2)]
  by (auto simp: good_def)

lemma adjust_balance_good:
  assumes "safe_exact S" "good U db" "adjust_balance S x d db = Inr db'"
  shows "good U db'" "\<forall>a. holdings a db' = holdings a db + held a d" "contents db' = contents db" "buyings db' = buyings db"
    "assets db' = assets db"
proof -
  have b: "books db" and s: "solvent db" using assms(2) by (simp_all add: good_def books_def)
  from adjust_balance_Inr(1) [OF assms(1) s assms(3)] obtain t where t: "db' = db\<lparr>balances := t\<rparr>" ..
  then show "contents db' = contents db" "buyings db' = buyings db" "assets db' = assets db" by simp_all
  with adjust_balance_holdings [OF assms(1) b assms(3)] assms(2) market_inv_frame [of db' db U]
  show "good U db'" "\<forall>a. holdings a db' = holdings a db + held a d" by (simp_all add: good_def)
qed

lemma create_content_good:
  assumes "good U db" "create_content c db = Inr (i, db')" "priced_in U (map_price c)"
  shows "good U db'" "\<forall>a. holdings a db' = holdings a db + held a (publishing_fee_escrow c)"
proof -
  note h = create_content_holdings [OF goodD(1) [OF assms(1)] assms(2)]
  have f: "assets db' = assets db" "buyings db' = buyings db" using assms(2) by (auto simp: create_content_def res_simps)
  with h(1,3) assms(1,3) show "good U db'" by (auto simp: good_def market_inv_def)
  show "\<forall>a. holdings a db' = holdings a db + held a (publishing_fee_escrow c)" using h(2) by blast
qed

lemma modify_content_Inr:
  assumes "modify_content i f db = Inr db'"
  obtains c c' where "idx_find (contents db) i = Some c" "f c = Inr c'"
    "idx_find (contents db') = (idx_find (contents db))(i \<mapsto> c')" "assets db' = assets db" "buyings db' = buyings db"
    "head_block_time db' = head_block_time db"
proof -
  from assms obtain t where t: "idx_update content_clash (contents db) i f = Inr t" "db' = db\<lparr>contents := t\<rparr>"
    by (auto simp: modify_content_def res_simps)
  with idx_update_Inr [OF t(1)] that show ?thesis by (auto simp: head_block_time_def)
qed

lemma modify_content_good:
  assumes "good U db" "modify_content i f db = Inr db'" "idx_find (contents db) i = Some c"
    and "\<And>c'. f c = Inr c' \<Longrightarrow> priced_in U (map_price c') \<and> (\<forall>a. held a (publishing_fee_escrow c') = held a (publishing_fee_escrow c) + n a)"
  shows "good U db'" "\<forall>a. holdings a db' = holdings a db + n a" "buyings db' = buyings db"
proof -
  obtain c' where c': "f c = Inr c'" "idx_find (contents db') = (idx_find (contents db))(i \<mapsto> c')"
    "assets db' = assets db" "buyings db' = buyings db"
    using assms(3) by (auto intro: modify_content_Inr [OF assms(2)])
  have e: "\<And>a c'. f c = Inr c' \<Longrightarrow> held a (publishing_fee_escrow c') = held a (publishing_fee_escrow c) + n a"
    using assms(4) by blast
  note h = modify_content_holdings [OF goodD(1) [OF assms(1)] assms(2,3) e]
  from h(1) c' assms(1) assms(4) [OF c'(1)] show "good U db'" by (auto simp: good_def market_inv_def)
  show "\<forall>a. holdings a db' = holdings a db + n a" using h(2) by blast
  show "buyings db' = buyings db" by (rule c'(4))
qed

text \<open>Updates of a content that leave its prices and its escrow alone.\<close>

lemma modify_content_keep:
  assumes "good U db" "modify_content i f db = Inr db'"
    and "\<And>c c'. f c = Inr c' \<Longrightarrow> map_price c' = map_price c \<and> publishing_fee_escrow c' = publishing_fee_escrow c"
  shows "good U db'" "\<forall>a. holdings a db' = holdings a db" "buyings db' = buyings db"
proof -
  obtain c where c: "idx_find (contents db) i = Some c" using modify_content_Inr [OF assms(2)] by blast
  have "priced_in U (map_price c') \<and> (\<forall>a. held a (publishing_fee_escrow c') = held a (publishing_fee_escrow c) + 0)"
    if "f c = Inr c'" for c'
    using assms(3) [OF that] goodD(3) [OF assms(1) c] by simp
  from modify_content_good [OF assms(1,2) c this]
  show "good U db'" "\<forall>a. holdings a db' = holdings a db" "buyings db' = buyings db" by simp_all
qed

lemma create_buying_good:
  assumes "good U db" "create_buying b db = Inr (i, db')" "purchase_ok b"
  shows "good U db'" "\<forall>a. holdings a db' = holdings a db + held a (escrow_price b)" "contents db' = contents db"
    "assets db' = assets db"
proof -
  from assms(2) obtain t where t: "idx_create buying_clash (buyings db) (\<lambda>_. b) = Inr (i, t)" "db' = db\<lparr>buyings := t\<rparr>"
    by (auto simp: create_buying_def res_simps)
  then show "contents db' = contents db" "assets db' = assets db" by simp_all
  have "wf_index (buyings db)" using assms(1) by (simp add: good_def books_def)
  note f = idx_total_create(5) [OF this t(1)]
  note h = create_buying_holdings [OF goodD(1) [OF assms(1)] assms(2)]
  from h(1) f t(2) assms(1,3) show "good U db'" by (auto simp: good_def market_inv_def)
  show "\<forall>a. holdings a db' = holdings a db + held a (escrow_price b)" using h(2) by blast
qed

lemma modify_buying_good:
  assumes "good U db" "modify_buying i f db = Inr db'" "idx_find (buyings db) i = Some b" "purchase_ok (f b)"
  shows "good U db'" "\<forall>a. holdings a db' = holdings a db - held a (escrow_price b) + held a (escrow_price (f b))"
    "contents db' = contents db" "idx_find (buyings db') = (idx_find (buyings db))(i \<mapsto> f b)"
    "head_block_time db' = head_block_time db"
proof -
  from assms(2) obtain t where t: "idx_update buying_clash (buyings db) i (\<lambda>x. Inr (f x)) = Inr t" "db' = db\<lparr>buyings := t\<rparr>"
    by (auto simp: modify_buying_def res_simps)
  then show "contents db' = contents db" "head_block_time db' = head_block_time db" by (simp_all add: head_block_time_def)
  from idx_update_Inr [OF t(1)] assms(3) t(2) show f: "idx_find (buyings db') = (idx_find (buyings db))(i \<mapsto> f b)" by auto
  note h = modify_buying_holdings [OF goodD(1) [OF assms(1)] assms(2,3)]
  from h(1) f t(2) assms(1,4) show "good U db'" by (auto simp: good_def market_inv_def)
  show "\<forall>a. holdings a db' = holdings a db - held a (escrow_price b) + held a (escrow_price (f b))" using h(2) by blast
qed

lemma bump_stats_money [frame]: "bump_stats f x db = Inr db' \<Longrightarrow> money db' = money db"
  by (auto simp: bump_stats_def res_simps intro: modify_stats_money)

lemma bump_all_money [frame]: "fold_res (bump_stats f) xs db = Inr db' \<Longrightarrow> money db' = money db"
  by (erule fold_res_money) (rule bump_stats_money)

lemma held_zero [simp]: "held a (mk_asset 0 i) = 0" "held a (x\<lparr>amount := 0\<rparr>) = 0"
  by (simp_all add: held_def mk_asset_def)

section \<open>Payout and exchange\<close>

lemma pay_co_author_good:
  assumes "safe_exact S" "good U (snd st)" "pay_co_author S paid e st = Inr st'"
  shows "good U (snd st')" "\<forall>a. holdings a (snd st') + (if asset_id paid = a then fst st' else 0) =
      holdings a (snd st) + (if asset_id paid = a then fst st else 0)"
    "contents (snd st') = contents (snd st)" "buyings (snd st') = buyings (snd st)"
proof -
  obtain left db where st: "st = (left, db)" by (cases st)
  with assms(3) obtain n db' left' where a: "adjust_balance S (fst e) (mk_asset n (asset_id paid)) db = Inr db'"
    and l: "S (left - n) = Inr left'" and st': "st' = (left', db')"
    by (auto simp: pay_co_author_def Let_def res_simps split: if_splits)
  note h = adjust_balance_good [OF assms(1) assms(2) [unfolded st snd_conv] a]
  from h safe_exactD [OF assms(1) l] st st'
  show "good U (snd st')" "\<forall>a. holdings a (snd st') + (if asset_id paid = a then fst st' else 0) =
      holdings a (snd st) + (if asset_id paid = a then fst st else 0)"
    "contents (snd st') = contents (snd st)" "buyings (snd st') = buyings (snd st)"
    by (auto simp: held_def mk_asset_def)
qed

lemma pay_co_authors_good:
  assumes "safe_exact S" "good U db" "fold_res (pay_co_author S paid) cs (amount paid, db) = Inr (left, db')"
  shows "good U db' \<and> (\<forall>a. holdings a db' + (if asset_id paid = a then left else 0) = holdings a db + held a paid) \<and>
    contents db' = contents db \<and> buyings db' = buyings db"
proof -
  let ?P = "\<lambda>st. good U (snd st) \<and>
    (\<forall>a. holdings a (snd st) + (if asset_id paid = a then fst st else 0) = holdings a db + held a paid) \<and>
    contents (snd st) = contents db \<and> buyings (snd st) = buyings db"
  have "?P (left, db')"
  proof (rule fold_res_invariant [OF assms(3), where P = ?P])
    show "?P (amount paid, db)" using assms(2) by (simp add: held_def)
  next
    fix e st st' assume "?P st" "pay_co_author S paid e st = Inr st'"
    with pay_co_author_good [OF assms(1) _ this(2), of U] show "?P st'" by simp
  qed
  then show ?thesis unfolding fst_conv snd_conv .
qed

lemma content_payout_good:
  assumes "safe_exact S" "good U db" "content_payout S paid c db = Inr db'"
  shows "good U db'" "\<forall>a. holdings a db' = holdings a db + held a paid" "contents db' = contents db" "buyings db' = buyings db"
proof -
  have "good U db' \<and> (\<forall>a. holdings a db' = holdings a db + held a paid) \<and> contents db' = contents db \<and> buyings db' = buyings db"
  proof (cases "co_authors c = []")
    case True
    with assms(3) have "adjust_balance S (author c) paid db = Inr db'" by (simp add: content_payout_def)
    from adjust_balance_good [OF assms(1,2) this] show ?thesis by simp
  next
    case False
    with assms(3) obtain left db1 where f: "fold_res (pay_co_author S paid) (co_authors c) (amount paid, db) = Inr (left, db1)"
      and r: "(if left \<noteq> 0 then fc_assert (left > 0) (adjust_balance S (author c) (mk_asset left (asset_id paid)) db1) else Inr db1) = Inr db'"
      by (auto simp: content_payout_def res_simps)
    note h = pay_co_authors_good [OF assms(1,2) f]
    from r have "adjust_balance S (author c) (mk_asset left (asset_id paid)) db1 = Inr db'"
      by (auto simp: adjust_balance_def mk_asset_def res_simps split: if_splits)
    from adjust_balance_good [OF assms(1) conjunct1 [OF h] this] h show ?thesis
      by (auto simp: held_def mk_asset_def algebra_simps split: if_splits)
  qed
  then show "good U db'" "\<forall>a. holdings a db' = holdings a db + held a paid" "contents db' = contents db" "buyings db' = buyings db"
    by simp_all
qed

lemma convert_good:
  assumes S: "safe_exact S" and g: "good U db" and c: "convert S i from db = Inr (to, db')"
    and u: "\<And>ao. idx_find (assets db) i = Some ao \<Longrightarrow> \<not> is_monitored_asset ao"
  shows "good U db'" "\<forall>a. holdings a db' = holdings a db + held a from - held a to" "contents db' = contents db"
    "assets db' = assets db"
proof -
  have r: "\<And>ao. idx_find (assets db) i = Some ao \<Longrightarrow> i \<noteq> 0 \<Longrightarrow>
      {asset_id (base (opt_exchange_rate (asset_opts ao))), asset_id (quote (opt_exchange_rate (asset_opts ao)))} = {0, i}"
    using goodD(4) [OF g] u by (simp add: rate_ok_def)
  note h = convert_holdings [OF S goodD(1) [OF g] c u r]
  have f: "contents db' = contents db \<and> assets db' = assets db \<and> buyings db' = buyings db"
    using c by (auto simp: convert_def convert_uia_def modify_dynamic_data_def res_simps split: if_splits)
  then show "contents db' = contents db" "assets db' = assets db" by simp_all
  from h(1) f g market_inv_frame [of db' db U] show "good U db'" by (simp add: good_def)
  show "\<forall>a. holdings a db' = holdings a db + held a from - held a to" using h(2) by simp
qed

lemma exchange_payment_good:
  assumes S: "safe_exact S" and g: "good U db" and e: "exchange_payment S paid i db = Inr (after, db')"
    and u: "\<And>ao. idx_find (assets db) (asset_id paid) = Some ao \<Longrightarrow> \<not> is_monitored_asset ao"
    and i: "\<And>ao. idx_find (assets db) i = Some ao \<Longrightarrow> \<not> is_monitored_asset ao"
  shows "good U db'" "\<forall>a. holdings a db' = holdings a db + held a paid - held a after" "contents db' = contents db"
proof -
  from e obtain d db1 where c1: "convert S (asset_id paid) paid db = Inr (d, db1)" and c2: "convert S i d db1 = Inr (after, db')"
    by (auto simp: exchange_payment_def res_simps)
  note h1 = convert_good [OF S g c1 u]
  have "\<And>ao. idx_find (assets db1) i = Some ao \<Longrightarrow> \<not> is_monitored_asset ao" using i h1(4) by simp
  note h2 = convert_good [OF S h1(1) c2 this]
  from h1 h2 show "good U db'" "\<forall>a. holdings a db' = holdings a db + held a paid - held a after" "contents db' = contents db"
    by simp_all
qed

section \<open>The evaluators\<close>

lemma priced_in_Cons [simp]: "priced_in U (x # xs) \<longleftrightarrow> asset_id (snd x) \<in> U \<and> priced_in U xs"
  by (auto simp: priced_in_def)

lemma set_prices_in:
  assumes "priced_in U ps" "priced_in U m"
  shows "priced_in U (set_prices ps m)"
proof -
  have up: "priced_in U (upd_row k p rs)" if "priced_in U rs" "asset_id p \<in> U" for k p rs
    using that by (auto simp: priced_in_def upd_row_def)
  have ma: "priced_in U (map_assign k p rs)" if "priced_in U rs" "asset_id p \<in> U" for k p rs
    using that up by (auto simp: map_assign_def priced_in_def)
  have fa: "priced_in U (fold (\<lambda>(r, p) m. map_assign r p m) xs rs)" if "priced_in U xs" "priced_in U rs" for xs rs
    using that by (induction xs arbitrary: rs) (auto simp: ma)
  have pm: "priced_in U (price_map ps)" unfolding price_map_def by (rule fa [OF assms(1)]) (simp add: priced_in_def)
  have me: "priced_in U (set_region_price k p rs)" if "priced_in U rs" "asset_id p \<in> U" for k p rs
    using that by (auto simp: set_region_price_def map_emplace_def priced_in_def)
  have fe: "priced_in U (fold (\<lambda>(r, p). set_region_price r p) xs rs)" if "priced_in U xs" "priced_in U rs" for xs rs
    using that by (induction xs arbitrary: rs) (auto simp: me)
  from pm have "asset_id p \<in> U" if "map_of (price_map ps) OO_none = Some p" for p
    using that map_of_SomeD [OF that] by (auto simp: priced_in_def)
  with fe [OF pm assms(2)] show ?thesis
    by (auto simp: set_prices_def Let_def set_simple_price_def priced_in_def split: option.splits)
qed

lemma update_rights_money [frame]: "update_rights f x db = Inr db' \<Longrightarrow> money db' = money db"
  unfolding update_rights_def by (rule modify_account_money)

lemma spm_erase_money [frame]: "spm_erase x db = Inr db' \<Longrightarrow> money db' = money db"
  by (auto simp: spm_erase_def res_simps intro: update_rights_money)

lemma spm_money: "spm_do_apply op db = Inr db' \<Longrightarrow> money db' = money db"
proof -
  have "spm_loop can xs db = Inr db' \<Longrightarrow> money db' = money db" for can xs db
  proof (induction xs arbitrary: db)
    case (Cons x xs)
    show ?case
    proof (cases can)
      case True
      with Cons.prems show ?thesis by (auto simp: res_simps intro: update_rights_money)
    next
      case False
      with Cons.prems obtain to_acc :: account_object and db1 db2
        where f: "fold_res spm_erase (publishing_rights_forwarded (rights_to_publish to_acc)) db = Inr db1"
          and u: "update_rights (\<lambda>r. r\<lparr>is_publishing_manager := False, publishing_rights_forwarded := []\<rparr>) x db1 = Inr db2"
          and l: "spm_loop can xs db2 = Inr db'"
        by (auto simp: res_simps)
      from fold_res_money [OF f spm_erase_money] update_rights_money [OF u] Cons.IH [OF l] show ?thesis by simp
    qed
  qed simp
  then show "spm_do_apply op db = Inr db' \<Longrightarrow> money db' = money db" by (simp add: spm_do_apply_def)
qed

lemma spr_money: "spr_do_apply op db = Inr db' \<Longrightarrow> money db' = money db"
proof -
  have "money s' = money s" if "spr_step x p e s = Inr s'" for x p e s s'
    using that by (auto simp: spr_step_def res_simps split: if_splits dest!: update_rights_money)
  then show "spr_do_apply op db = Inr db' \<Longrightarrow> money db' = money db"
    by (auto simp: spr_do_apply_def res_simps intro: fold_res_money)
qed

lemma publish_seeder_money: "publish_seeder op r db = Inr db' \<Longrightarrow> money db' = money db"
  by (auto simp: publish_seeder_def res_simps split: option.splits dest!: create_stats_money create_seeder_money modify_seeder_money)

lemma report_stats_money: "report_stats_do_apply items db = Inr db' \<Longrightarrow> money db' = money db"
  unfolding report_stats_do_apply_def by (erule fold_res_money) (auto dest: bump_stats_money)

lemma reserve_space_good:
  assumes "good U db" "reserve_space sz cid p db = Inr db'"
  shows "good U db' \<and> (\<forall>a. holdings a db' = holdings a db)"
proof -
  from assms(2) obtain i f db1 and s :: seeder_object where m: "modify_seeder i f db = Inr db1"
    and c: "modify_content cid (\<lambda>co. Inr (co\<lparr>seeder_price := map_emplace p (amount (seeding_price s)) (seeder_price co)\<rparr>)) db1 = Inr db'"
    by (auto simp: reserve_space_def res_simps)
  note h = money_good [OF assms(1) modify_seeder_money [OF m]]
  from modify_content_keep [OF h(1) c] h(2) show ?thesis by auto
qed

lemma reserve_all_good:
  assumes "good U db" "fold_res (reserve_space sz cid) ps db = Inr db'"
  shows "good U db'" "\<forall>a. holdings a db' = holdings a db"
proof -
  have "good U db' \<and> (\<forall>a. holdings a db' = holdings a db)"
    by (rule fold_res_invariant [OF assms(2), where P = "\<lambda>s. good U s \<and> (\<forall>a. holdings a s = holdings a db)"])
      (use assms(1) reserve_space_good in auto)
  then show "good U db'" "\<forall>a. holdings a db' = holdings a db" by simp_all
qed

lemma content_submit_good:
  assumes S: "safe_exact S" and g: "good U db" and p: "priced_in U (cs_price op)"
    and a: "content_submit_do_apply S J D r op db = Inr db'"
  shows "good U db' \<and> (\<forall>a. holdings a db' = holdings a db)"
proof (cases r)
  case True
  let ?g = "\<lambda>co. Inr (co\<lparr>map_price := set_prices (cs_price op) (map_price co), synopsis := cs_synopsis op,
      co_authors := cs_co_authors op\<rparr>) :: content_object result"
  from True a obtain cid t f db1 where d: "modify_detail t f db = Inr db1" and c: "modify_content cid ?g db1 = Inr db'"
    by (auto simp: content_submit_do_apply_def res_simps)
  note h = money_good [OF g modify_detail_money [OF d]]
  obtain c0 where c0: "idx_find (contents db1) cid = Some c0" by (rule modify_content_Inr [OF c])
  have "priced_in U (map_price c') \<and> (\<forall>a. held a (publishing_fee_escrow c') = held a (publishing_fee_escrow c0) + 0)"
    if "?g c0 = Inr c'" for c'
    using that set_prices_in [OF p goodD(3) [OF h(1) c0]] by auto
  from modify_content_good [OF h(1) c c0 this] h(2) show ?thesis by simp
next
  case False
  with a obtain cid db1 n db2 db3 f db4 d where c: "create_content (new_content op db) db = Inr (cid, db1)"
    and n: "asset_neg S (cs_publishing_fee op) = Inr n" and ad: "adjust_balance S (cs_author op) n db1 = Inr db2"
    and rs: "fold_res (reserve_space (cs_size op) cid) (cs_seeders op) db2 = Inr db3"
    and b: "fold_res (bump_stats f) (cs_seeders op) db3 = Inr db4" and d: "create_detail d db4 = Inr db'"
    by (auto simp: content_submit_do_apply_def res_simps)
  have "priced_in U (map_price (new_content op db))"
    using set_prices_in [OF p, of "[]"] by (simp add: new_content_def priced_in_def)
  note h1 = create_content_good [OF g c this]
  note h2 = adjust_balance_good [OF S h1(1) ad]
  note h3 = reserve_all_good [OF h2(1) rs]
  note h4 = money_good [OF h3(1) bump_all_money [OF b]]
  note h5 = money_good [OF h4(1) create_detail_money [OF d]]
  from h5 h4(2) h3(2) h2(2) h1(2) asset_neg_held [OF S n] show ?thesis by (simp add: new_content_def)
qed

lemma content_cancellation_good:
  assumes "good U db" "content_cancellation_do_apply u db = Inr db'"
  shows "good U db' \<and> (\<forall>a. holdings a db' = holdings a db)"
proof -
  let ?t = "u32 (head_block_time db + 24 * 60 * 60)"
  from assms(2) obtain i where m: "modify_content i (\<lambda>c. Inr (c\<lparr>is_blocked := True,
       expiration := (if expiration c > ?t then ?t else expiration c)\<rparr>)) db = Inr db'"
    by (auto simp: content_cancellation_do_apply_def res_simps)
  from modify_content_keep [OF assms(1) m] show ?thesis by auto
qed

lemma count_purchase_good:
  assumes "good U db" "count_purchase i db = Inr db'"
  shows "good U db'" "\<forall>a. holdings a db' = holdings a db" "buyings db' = buyings db"
  using modify_content_keep [OF assms(1) assms(2) [unfolded count_purchase_def]] by auto

lemma push_good:
  assumes "good U db"
  shows "good U (push_applied_operation op db)" "\<forall>a. holdings a (push_applied_operation op db) = holdings a db"
  using money_good [OF assms push_applied_operation_money] by simp_all

lemma new_buying_ok: "purchase_ok (new_buying op c paid after db)"
  by (simp add: purchase_ok_def new_buying_def Let_def mk_asset_def)

lemma request_to_buy_good:
  assumes S: "safe_exact S" and g: "good U db"
    and cp: "asset_id (content_price st) \<in> U"
    and paid: "\<And>ao. idx_find (assets db) (asset_id (if is_subscriber st then mk_asset 0 0 else paid_price st)) = Some ao \<Longrightarrow> \<not> is_monitored_asset ao"
    and a: "request_to_buy_do_apply S J st op db = Inr db'"
  shows "good U db' \<and> (\<forall>a. holdings a db' = holdings a db)"
proof -
  let ?paid = "if is_subscriber st then mk_asset 0 0 else paid_price st"
  from a obtain cid c after db1 bid db2 n db3 db4 f db5 d
    where x: "(if asset_id (content_price st) = asset_id (rtb_price op) then Inr (?paid, db)
            else exchange_payment S ?paid (asset_id (content_price st)) db) = Inr (after, db1)"
      and b: "create_buying (new_buying op c ?paid after db1) db1 = Inr (bid, db2)"
      and n: "asset_neg S ?paid = Inr n" and ad: "adjust_balance S (rtb_consumer op) n db2 = Inr db3"
      and p: "(if key_parts c = [] then
              rbind (content_payout S after c db3) (\<lambda>x.
              rbind (count_purchase cid x) (\<lambda>y.
                Inr (push_applied_operation (finish_buying c after (rtb_consumer op) bid) y)))
            else Inr db3) = Inr db4"
      and bs: "fold_res (bump_stats f) (map fst (key_parts c)) db4 = Inr db5" and d: "create_detail d db5 = Inr db'"
    by (auto simp: request_to_buy_do_apply_def Let_def res_simps)
  have h1: "good U db1" "\<forall>a. holdings a db1 = holdings a db + held a ?paid - held a after"
    using x g exchange_payment_good [OF S g, of ?paid "asset_id (content_price st)" after db1] paid goodD(5) [OF g _ cp]
    by (auto split: if_splits)
  note h2 = create_buying_good [OF h1(1) b new_buying_ok]
  note h3 = adjust_balance_good [OF S h2(1) ad]
  have h4: "good U db4 \<and> (\<forall>a. holdings a db4 = holdings a db3 + (if key_parts c = [] then held a after else 0))"
  proof (cases "key_parts c = []")
    case True
    with p obtain y z where y: "content_payout S after c db3 = Inr y" "count_purchase cid y = Inr z"
      "db4 = push_applied_operation (finish_buying c after (rtb_consumer op) bid) z"
      by (auto simp: res_simps)
    note k1 = content_payout_good [OF S h3(1) y(1)]
    note k2 = count_purchase_good [OF k1(1) y(2)]
    from push_good [OF k2(1)] k1(2) k2(2) y(3) True show ?thesis by simp
  next
    case False
    with p h3(1) show ?thesis by simp
  qed
  note h5 = money_good [OF conjunct1 [OF h4] bump_all_money [OF bs]]
  note h6 = money_good [OF h5(1) create_detail_money [OF d]]
  from h6 h5(2) h4 h3(2) h2(2) h1(2) asset_neg_held [OF S n] show ?thesis
    by (simp add: new_buying_def Let_def)
qed

lemma buying_expire_good:
  assumes S: "safe_exact S" and g: "good U db" and a: "buying_expire S bid db = Inr db'"
  shows "good U db' \<and> (\<forall>a. holdings a db' = holdings a db)"
proof -
  from a obtain b db1 db2 where b: "idx_find (buyings db) bid = Some b"
    and ad: "adjust_balance S (consumer b) (escrow_price b) db = Inr db1"
    and m: "modify_buying bid (\<lambda>bo. bo\<lparr>escrow_price := (escrow_price bo)\<lparr>amount := 0\<rparr>, expired := True,
              expiration_or_delivery_time := head_block_time db1\<rparr>) db1 = Inr db2"
    and p: "db' = push_applied_operation (Return_escrow_buying (consumer b) (escrow_price b) bid) db2"
    by (auto simp: buying_expire_def res_simps)
  note h1 = adjust_balance_good [OF S g ad]
  have b1: "idx_find (buyings db1) bid = Some b" using b h1(4) by simp
  note h2 = modify_buying_good [OF h1(1) m b1]
  from h2(1,2) push_good [of U db2] h1(2) p show ?thesis by (simp add: purchase_ok_def)
qed

lemma note_key_good:
  assumes g: "good U db" and a: "note_key op db = Inr db'"
  shows "good U db'" "\<forall>a. holdings a db' = holdings a db"
    "\<exists>b b'. idx_find (buyings db) (dk_buying op) = Some b \<and> idx_find (buyings db') (dk_buying op) = Some b' \<and>
       delivered b' = delivered b \<and> expired b' = expired b"
proof -
  from a obtain b where b: "idx_find (buyings db) (dk_buying op) = Some b" by (auto simp: note_key_def idx_get_def res_simps)
  have "good U db' \<and> (\<forall>a. holdings a db' = holdings a db) \<and> (\<exists>b'. idx_find (buyings db') (dk_buying op) = Some b' \<and>
       delivered b' = delivered b \<and> expired b' = expired b)"
  proof (cases "dk_seeder op \<in> set (seeders_answered b)")
    case True
    with a b g show ?thesis by (auto simp: note_key_def idx_get_def res_simps)
  next
    case False
    let ?f = "\<lambda>bo. bo\<lparr>seeders_answered := seeders_answered bo @ [dk_seeder op], key_particles := key_particles bo @ [dk_key op]\<rparr> :: buying_object"
    from False a b obtain db1 f where m: "modify_buying (dk_buying op) ?f db = Inr db1" and s: "bump_stats f (dk_seeder op) db1 = Inr db'"
      by (auto simp: note_key_def idx_get_def res_simps)
    have "purchase_ok (?f b)" using goodD(2) [OF g b] by (simp add: purchase_ok_def)
    note h1 = modify_buying_good [OF g m b this]
    note h2 = money_good [OF h1(1) bump_stats_money [OF s]] and mc = money_cong(6) [OF bump_stats_money [OF s]]
    from h1(2,4) h2 mc show ?thesis by simp
  qed
  with b show "good U db'" "\<forall>a. holdings a db' = holdings a db"
    "\<exists>b b'. idx_find (buyings db) (dk_buying op) = Some b \<and> idx_find (buyings db') (dk_buying op) = Some b' \<and>
       delivered b' = delivered b \<and> expired b' = expired b" by auto
qed

lemma complete_delivery_good:
  assumes S: "safe_exact S" and g: "good U db" and a: "complete_delivery S bid cid db = Inr db'"
    and b: "idx_find (buyings db) bid = Some b" "\<not> delivered b" "\<not> expired b"
  shows "good U db' \<and> (\<forall>a. holdings a db' = holdings a db)"
proof -
  from a obtain db1 c b1 db2 db3 where c: "count_purchase cid db = Inr db1" and b1: "idx_find (buyings db1) bid = Some b1"
    and p: "content_payout S (paid_price_after_exchange b1) c db1 = Inr db2"
    and m: "modify_buying bid (\<lambda>bo. bo\<lparr>escrow_price := (escrow_price bo)\<lparr>amount := 0\<rparr>, delivered := True,
              expiration_or_delivery_time := head_block_time db2\<rparr>) db2 = Inr db3"
    and d: "db' = push_applied_operation (finish_buying c (paid_price_after_exchange b1) (consumer b1) bid) db3"
    by (auto simp: complete_delivery_def res_simps)
  note h1 = count_purchase_good [OF g c]
  have bb: "b1 = b" using b1 b(1) h1(3) by simp
  note h2 = content_payout_good [OF S h1(1) p]
  have b2: "idx_find (buyings db2) bid = Some b" using b(1) h1(3) h2(4) by simp
  note h3 = modify_buying_good [OF h2(1) m b2]
  have "escrow_price b = paid_price_after_exchange b" using goodD(2) [OF g b(1)] b(2,3) by (simp add: purchase_ok_def)
  with h3(1,2) push_good [of U db3] h2(2) h1(2) d bb show ?thesis by (simp add: purchase_ok_def)
qed

lemma deliver_keys_good:
  assumes S: "safe_exact S" and g: "good U db" and a: "deliver_keys_do_apply S op db = Inr db'"
  shows "good U db' \<and> (\<forall>a. holdings a db' = holdings a db)"
proof -
  from a obtain b0 :: buying_object and cid and c :: content_object and db1 b where n: "note_key op db = Inr db1" and b: "idx_find (buyings db1) (dk_buying op) = Some b"
    and r: "(if delivered b \<or> expired b then Inr db1
     else if int (length (seeders_answered b)) \<ge> quorum c then complete_delivery S (dk_buying op) cid db1
     else if expiration_time b0 < head_block_time db then buying_expire S (dk_buying op) db1
     else Inr db1) = Inr db'"
    by (auto simp: deliver_keys_do_apply_def res_simps)
  note h = note_key_good(1,2) [OF g n]
  from r h complete_delivery_good [OF S h(1) _ b, of cid db'] buying_expire_good [OF S h(1), of "dk_buying op" db'] show ?thesis
    by (auto split: if_splits)
qed

lemma leave_rating_good:
  assumes g: "good U db" and a: "leave_rating_do_apply J op db = Inr db'"
  shows "good U db' \<and> (\<forall>a. holdings a db' = holdings a db)"
proof -
  let ?f = "\<lambda>b. b\<lparr>rated_or_commented := True, rating := lr_rating op, comment := lr_comment op\<rparr> :: buying_object"
  let ?g = "\<lambda>co. if u32 (num_of_ratings co + 1) = 0 then Inl undefined_behaviour else Inr (add_rating (lr_rating op) co) :: content_object result"
  from a obtain bid b cid db1 db2 d where fb: "find_buying (lr_consumer op) (lr_URI op) db = Some (bid, b)"
    and m: "modify_buying bid ?f db = Inr db1" and c: "modify_content cid ?g db1 = Inr db2" and d: "create_detail d db2 = Inr db'"
    by (auto simp: leave_rating_do_apply_def res_simps)
  have b: "idx_find (buyings db) bid = Some b"
    using fb idx_find_by_Some [of "buyings db" _ bid b] goodD(1) [OF g] by (auto simp: find_buying_def books_def)
  have "purchase_ok (?f b)" using goodD(2) [OF g b] by (simp add: purchase_ok_def)
  note h1 = modify_buying_good [OF g m b this]
  have "map_price c' = map_price co \<and> publishing_fee_escrow c' = publishing_fee_escrow co" if "?g co = Inr c'" for co c'
    using that by (auto simp: add_rating_def split: if_splits)
  note h2 = modify_content_keep [OF h1(1) c this]
  from money_good [OF h2(1) create_detail_money [OF d]] h2(2) h1(2) show ?thesis by simp
qed

lemma asset_sub_held: "safe_exact S \<Longrightarrow> asset_sub S x y = Inr z \<Longrightarrow> held a z = held a x - held a y"
  by (auto simp: asset_sub_def res_simps held_def mk_asset_def dest!: safe_exactD)

lemma proof_of_custody_good:
  assumes S: "safe_exact S" and g: "good U db" and a: "proof_of_custody_do_apply S op db = Inr db'"
  shows "good U db' \<and> (\<forall>a. holdings a db' = holdings a db)"
proof -
  from a obtain cid c sr where fc: "find_content (poc_URI op) db = Some (cid, c)" and fs: "find_seeder (poc_seeder op) db = Some sr"
    by (auto simp: proof_of_custody_do_apply_def res_simps)
  have c: "idx_find (contents db) cid = Some c" using good_find_content [OF g fc] by simp
  show ?thesis
  proof (cases "map_of (last_proof c) (poc_seeder op)")
    case None
    with a fc fs obtain db1 f where m: "modify_content cid (\<lambda>co. Inr (co\<lparr>last_proof :=
          map_emplace (poc_seeder op) (head_block_time db) (last_proof co)\<rparr>)) db = Inr db1" and s: "bump_stats f (poc_seeder op) db1 = Inr db'"
      by (auto simp: proof_of_custody_do_apply_def res_simps)
    have h1: "good U db1" "\<forall>a. holdings a db1 = holdings a db" using modify_content_keep [OF g m] by auto
    from money_good [OF h1(1) bump_stats_money [OF s]] h1(2) show ?thesis by simp
  next
    case (Some last_time)
    let ?g = "\<lambda>r db1 co. rbind (asset_sub S (publishing_fee_escrow co) (mk_asset r 0)) (\<lambda>e.
                    Inr (co\<lparr>last_proof := map_assign (poc_seeder op) (head_block_time db1) (last_proof co),
                           publishing_fee_escrow := e\<rparr>)) :: content_object result"
    from Some a fc fs obtain f db1 r db2 db3 w where s: "bump_stats f (poc_seeder op) db = Inr db1"
      and m: "modify_content cid (?g r db1) db1 = Inr db2" and ad: "adjust_balance S (seeder (snd sr)) (mk_asset r 0) db2 = Inr db3"
      and p: "db' = push_applied_operation w db3"
      by (auto simp: proof_of_custody_do_apply_def Let_def res_simps)
    note h1 = money_good [OF g bump_stats_money [OF s]]
    have c1: "idx_find (contents db1) cid = Some c" using c money_cong(5) [OF bump_stats_money [OF s]] by simp
    have "priced_in U (map_price c') \<and> (\<forall>a. held a (publishing_fee_escrow c') = held a (publishing_fee_escrow c) + (- held a (mk_asset r 0)))"
      if "?g r db1 c = Inr c'" for c'
      using that goodD(3) [OF h1(1) c1] asset_sub_held [OF S] by (auto simp: res_simps)
    note h2 = modify_content_good [OF h1(1) m c1 this]
    note h3 = adjust_balance_good [OF S h2(1) ad]
    from push_good [OF h3(1)] h3(2) h2(2) h1(2) p show ?thesis by simp
  qed
qed

section \<open>The content operations through the generic evaluator\<close>

datatype content_operation =
    Set_publishing_manager set_publishing_manager_operation
  | Set_publishing_right set_publishing_right_operation
  | Content_submit content_submit_operation
  | Content_cancellation asset nat string
  | Request_to_buy request_to_buy_operation
  | Deliver_keys deliver_keys_operation
  | Leave_rating leave_rating_operation
  | Ready_to_publish ready_to_publish_operation
  | Ready_to_publish2 ready_to_publish_operation "string option"
  | Proof_of_custody proof_of_custody_operation
  | Report_stats asset nat "(nat \<times> int) list"

datatype evaluator_state = No_state | Resubmission bool | Buying_state buy_state

text \<open>The parameters of the evaluators and the skip flags of the node.\<close>

record content_env =
  env_json :: "string \<Rightarrow> json_value option"
  env_detail :: "string \<Rightarrow> database \<Rightarrow> nat option"
  env_delivery :: "nat \<Rightarrow> nat \<Rightarrow> nat \<Rightarrow> nat \<Rightarrow> nat \<Rightarrow> bool"
  env_custody :: "nat \<Rightarrow> custody_proof \<Rightarrow> bool"
  env_block_id :: "int \<Rightarrow> int list result"
  env_skip_undo :: bool
  env_skip_validate :: bool

fun content_fee :: "content_operation \<Rightarrow> nat \<times> asset" where
  "content_fee (Set_publishing_manager op) = (spm_from op, spm_fee op)"
| "content_fee (Set_publishing_right op) = (spr_from op, spr_fee op)"
| "content_fee (Content_submit op) = (cs_author op, cs_fee op)"
| "content_fee (Content_cancellation fee x u) = (x, fee)"
| "content_fee (Request_to_buy op) = (rtb_consumer op, rtb_fee op)"
| "content_fee (Deliver_keys op) = (dk_seeder op, dk_fee op)"
| "content_fee (Leave_rating op) = (lr_consumer op, lr_fee op)"
| "content_fee (Ready_to_publish op) = (rtp_seeder op, rtp_fee op)"
| "content_fee (Ready_to_publish2 op r) = (rtp_seeder op, rtp_fee op)"
| "content_fee (Proof_of_custody op) = (poc_seeder op, poc_fee op)"
| "content_fee (Report_stats fee x items) = (x, fee)"

fun content_evaluate :: "safe \<Rightarrow> content_env \<Rightarrow> content_operation \<Rightarrow> database \<Rightarrow> evaluator_state result" where
  "content_evaluate S E (Set_publishing_manager op) db = rbind (spm_do_evaluate op db) (\<lambda>_. Inr No_state)"
| "content_evaluate S E (Set_publishing_right op) db = rbind (spr_do_evaluate op db) (\<lambda>_. Inr No_state)"
| "content_evaluate S E (Content_submit op) db = rbind (content_submit_do_evaluate S op db) (\<lambda>r. Inr (Resubmission r))"
| "content_evaluate S E (Content_cancellation fee x u) db = rbind (content_cancellation_do_evaluate x u db) (\<lambda>_. Inr No_state)"
| "content_evaluate S E (Request_to_buy op) db = rbind (request_to_buy_do_evaluate S op db) (\<lambda>st. Inr (Buying_state st))"
| "content_evaluate S E (Deliver_keys op) db = rbind (deliver_keys_do_evaluate (env_delivery E) (env_skip_undo E) op db) (\<lambda>_. Inr No_state)"
| "content_evaluate S E (Leave_rating op) db = rbind (leave_rating_do_evaluate op db) (\<lambda>_. Inr No_state)"
| "content_evaluate S E (Ready_to_publish op) db = Inr No_state"
| "content_evaluate S E (Ready_to_publish2 op r) db = rbind (ready_to_publish2_do_evaluate db) (\<lambda>_. Inr No_state)"
| "content_evaluate S E (Proof_of_custody op) db =
     rbind (proof_of_custody_do_evaluate (env_custody E) (env_block_id E) (env_skip_validate E) op db) (\<lambda>_. Inr No_state)"
| "content_evaluate S E (Report_stats fee x items) db = Inr No_state"

fun content_apply :: "safe \<Rightarrow> content_env \<Rightarrow> content_operation \<Rightarrow> evaluator_state \<Rightarrow> database \<Rightarrow> database result" where
  "content_apply S E (Set_publishing_manager op) st db = spm_do_apply op db"
| "content_apply S E (Set_publishing_right op) st db = spr_do_apply op db"
| "content_apply S E (Content_submit op) st db =
     content_submit_do_apply S (env_json E) (env_detail E) (st = Resubmission True) op db"
| "content_apply S E (Content_cancellation fee x u) st db = content_cancellation_do_apply u db"
| "content_apply S E (Request_to_buy op) st db =
     (case st of Buying_state b \<Rightarrow> request_to_buy_do_apply S (env_json E) b op db | _ \<Rightarrow> Inl undefined_behaviour)"
| "content_apply S E (Deliver_keys op) st db = deliver_keys_do_apply S op db"
| "content_apply S E (Leave_rating op) st db = leave_rating_do_apply (env_json E) op db"
| "content_apply S E (Ready_to_publish op) st db = ready_to_publish_do_apply op db"
| "content_apply S E (Ready_to_publish2 op r) st db = ready_to_publish2_do_apply op r db"
| "content_apply S E (Proof_of_custody op) st db = proof_of_custody_do_apply S op db"
| "content_apply S E (Report_stats fee x items) st db = report_stats_do_apply items db"

definition content_check :: "safe \<Rightarrow> content_env \<Rightarrow> content_operation \<Rightarrow> fee_state \<Rightarrow> database \<Rightarrow> (evaluator_state \<times> fee_state) result" where
  "content_check S E op fs db = rbind (content_evaluate S E op db) (\<lambda>st. Inr (st, fs))"

definition content_change :: "safe \<Rightarrow> content_env \<Rightarrow> content_operation \<Rightarrow> evaluator_state \<Rightarrow> fee_state \<Rightarrow> database \<Rightarrow> database result" where
  "content_change S E op st fs db = content_apply S E op st db"

definition run_content :: "safe \<Rightarrow> content_env \<Rightarrow> content_operation \<Rightarrow> database \<Rightarrow> database result" where
  "run_content S E op db =
     start_evaluate S False None (fst (content_fee op)) (snd (content_fee op)) (content_check S E op) (content_change S E op) db"

text \<open>The prices an operation introduces are in assets of \<open>U\<close>.\<close>

fun prices_in :: "nat set \<Rightarrow> content_operation \<Rightarrow> bool" where
  "prices_in U (Content_submit op) = priced_in U (cs_price op)"
| "prices_in U _ = True"

lemma get_price_in:
  assumes "priced_in U m" "get_price m r = Some p"
  shows "asset_id p \<in> U"
proof -
  have "asset_id q \<in> U" if "map_of m k = Some q" for k q
    using assms(1) map_of_SomeD [OF that] by (auto simp: priced_in_def)
  with assms(2) show ?thesis by (auto simp: get_price_def split: option.splits)
qed

lemma request_state_good:
  assumes g: "good U db" and z: "0 \<in> U" and t: "db = db0\<lparr>dynamic_data := t\<rparr>"
    and e: "request_to_buy_do_evaluate S op db0 = Inr b"
  shows "asset_id (content_price b) \<in> U"
    "idx_find (assets db) (asset_id (if is_subscriber b then mk_asset 0 0 else paid_price b)) = Some ao \<Longrightarrow> \<not> is_monitored_asset ao"
proof -
  from e obtain i c where fc: "find_content (rtb_URI op) db0 = Some (i, c)"
    and q: "get_price (map_price c) (rtb_region op) = Some (content_price b)"
    by (auto simp: request_to_buy_do_evaluate_def res_simps split: if_splits)
  have "find_content (rtb_URI op) db = Some (i, c)" using fc t by (simp add: find_content_def)
  then have "priced_in U (map_price c)" using goodD(3) [OF g] good_find_content [OF g] by blast
  then show "asset_id (content_price b) \<in> U" using q by (rule get_price_in)
  assume ao: "idx_find (assets db) (asset_id (if is_subscriber b then mk_asset 0 0 else paid_price b)) = Some ao"
  show "\<not> is_monitored_asset ao"
  proof (cases "is_subscriber b")
    case True
    with ao goodD(5) [OF g _ z] show ?thesis by (simp add: mk_asset_def)
  next
    case False
    with e ao t show ?thesis
      by (auto simp: request_to_buy_do_evaluate_def res_simps idx_get_def are_assets_exchangeable_def split: if_splits)
  qed
qed

lemma content_apply_good:
  assumes S: "safe_exact S" and z: "0 \<in> U" and p: "prices_in U op" and g: "good U db"
    and e: "content_evaluate S E op db0 = Inr st" and t: "db = db0\<lparr>dynamic_data := t\<rparr>"
    and a: "content_apply S E op st db = Inr db'"
  shows "good U db' \<and> (\<forall>a. holdings a db' = holdings a db)"
proof -
  have m: ?thesis if "money db' = money db" using money_good [OF g that] by simp
  show ?thesis
  proof (cases op)
    case (Request_to_buy rtb)
    with e obtain b where b: "st = Buying_state b" "request_to_buy_do_evaluate S rtb db0 = Inr b" by (auto simp: res_simps)
    from request_to_buy_good [OF S g request_state_good [OF g z t b(2)]] a Request_to_buy b(1) show ?thesis by simp
  next
    case (Set_publishing_manager x)
    with a spm_money [of x db db'] m show ?thesis by simp
  next
    case (Set_publishing_right x)
    with a spr_money [of x db db'] m show ?thesis by simp
  next
    case (Content_submit x)
    with a p content_submit_good [OF S g, of x] show ?thesis by simp
  next
    case (Content_cancellation fee x u)
    with a content_cancellation_good [OF g] show ?thesis by simp
  next
    case (Deliver_keys x)
    with a deliver_keys_good [OF S g] show ?thesis by simp
  next
    case (Leave_rating x)
    with a leave_rating_good [OF g] show ?thesis by simp
  next
    case (Ready_to_publish x)
    with a publish_seeder_money [of x None db db'] m show ?thesis by (simp add: ready_to_publish_do_apply_def)
  next
    case (Ready_to_publish2 x r)
    with a publish_seeder_money [of x _ db db'] m show ?thesis by (auto simp: ready_to_publish2_do_apply_def)
  next
    case (Proof_of_custody x)
    with a proof_of_custody_good [OF S g] show ?thesis by simp
  next
    case (Report_stats fee x items)
    with a report_stats_money [of items db db'] m show ?thesis by simp
  qed
qed

lemma content_fee_evaluator:
  assumes S: "safe_exact S" and z: "0 \<in> U" and p: "prices_in U op"
  shows "fee_evaluator (content_check S E op) (content_change S E op) (\<lambda>_. 0) (market_inv U)"
proof
  fix fs db e fs' assume "content_check S E op fs db = Inr (e, fs')"
  then show "fs' = fs" by (auto simp: content_check_def res_simps)
next
  fix db' db :: database assume "assets db' = assets db" "contents db' = contents db" "buyings db' = buyings db"
  then show "market_inv U db' = market_inv U db" by (rule market_inv_frame)
next
  fix x fs x0 st t y a
  assume b: "books x" "market_inv U x" and c: "content_check S E op fs x0 = Inr (st, fs)"
    and x: "x = x0\<lparr>dynamic_data := t\<rparr>" and y: "content_change S E op st fs x = Inr y"
  have "good U x" using b by (simp add: good_def)
  moreover have "content_evaluate S E op x0 = Inr st" using c by (auto simp: content_check_def res_simps)
  moreover have "content_apply S E op st x = Inr y" using y by (simp add: content_change_def)
  ultimately have "good U y \<and> (\<forall>a. holdings a y = holdings a x)" using content_apply_good [OF S z p _ _ x] by blast
  then show "books y \<and> market_inv U y \<and> holdings a y = holdings a x + 0" by (simp add: good_def)
qed

lemma run_content_good:
  assumes S: "safe_exact S" and z: "0 \<in> U" and p: "prices_in U op" and g: "good U db" and r: "run_content S E op db = Inr db'"
  shows "good U db' \<and> (\<forall>a. holdings a db' = holdings a db)"
  using fee_evaluator.evaluate_conserves [OF content_fee_evaluator [OF S z p] S _ _ r [unfolded run_content_def]] g
  by (simp add: good_def)

text \<open>
  C13: Where contents are priced, and offered by the operations, in assets of a set none of which is monitored, any sequence of content
  operations, each with its fee, keeps the books: of every asset the database holds exactly as much as before, an open
  purchase holds in escrow what the author will be paid, and a closed one holds nothing. A purchase in a monitored asset
  converts its price at the feed, without a pool, and keeps the total of neither asset.
\<close>

theorem content_operations_conserve:
  assumes S: "safe_exact S" and z: "0 \<in> U" and p: "list_all (prices_in U) ops" and g: "good U db"
    and r: "fold_res (run_content S E) ops db = Inr db'"
  shows "good U db' \<and> (\<forall>a. holdings a db' = holdings a db)"
proof (rule fold_res_invariant [OF r, where P = "\<lambda>s. good U s \<and> (\<forall>a. holdings a s = holdings a db)"])
  show "good U db \<and> (\<forall>a. holdings a db = holdings a db)" using g by simp
next
  fix op s s' assume op: "op \<in> set ops" and P: "good U s \<and> (\<forall>a. holdings a s = holdings a db)" and e: "run_content S E op s = Inr s'"
  have "prices_in U op" using op p by (simp add: list_all_iff)
  from run_content_good [OF S z this _ e] P show "good U s' \<and> (\<forall>a. holdings a s' = holdings a db)" by simp
qed

text \<open>A content with one seeder, whose keys suffice for delivery.\<close>

definition market_example :: database where
  "market_example = content_db\<lparr>
     accounts := \<lparr>next_id = 9, rows = [(4, account_example), (6, account_example\<lparr>acc_name := ''seeder''\<rparr>)]\<rparr>,
     seeders := \<lparr>next_id = 1, rows = [(0, \<lparr>seeder = 6, free_space = 100, seeding_price = mk_asset 1 0, seeder_expiration = 1000,
       seeder_pubKey = 0, ipfs_ID = ''id'', stats = 0, seeder_rating = 0, region_code = []\<rparr>)]\<rparr>,
     seeding_stats := \<lparr>next_id = 1, rows = [(0, new_stats 6)]\<rparr>\<rparr>"

definition env_example :: content_env where
  "env_example = \<lparr>env_json = \<lambda>_. None, env_detail = \<lambda>_ _. None, env_delivery = \<lambda>_ _ _ _ _. True, env_custody = \<lambda>_ _. True,
     env_block_id = \<lambda>_. Inr [], env_skip_undo = False, env_skip_validate = False\<rparr>"

definition purchase_example :: "content_operation list" where
  "purchase_example =
     [Request_to_buy \<lparr>rtb_fee = mk_asset 0 0, rtb_URI = ''ipfs:x'', rtb_consumer = 4, rtb_price = mk_asset 10 0, rtb_region = 1, rtb_pubKey = 0\<rparr>,
      Deliver_keys \<lparr>dk_fee = mk_asset 0 0, dk_seeder = 6, dk_buying = 0, dk_proof = 0, dk_key = 7\<rparr>]"

lemma market_example_good: "good {0} market_example"
proof -
  have c: "idx_find (contents market_example) i = (if i = 0 then Some content_example else None)" for i
    by (simp add: market_example_def content_db_def idx_find_def)
  have b: "idx_find (buyings market_example) i = None" for i
    by (simp add: market_example_def content_db_def chain_eval idx_find_def)
  have a: "idx_find (assets market_example) i = (if i = 0 then Some core_asset_example else None)" for i
    by (simp add: market_example_def content_db_def chain_example_def idx_find_def)
  have "books market_example"
    using content_db_books by (simp add: books_def market_example_def solvent_def)
  then show ?thesis
    by (auto simp: good_def market_inv_def a b c rate_ok_def priced_in_def content_example_def core_asset_example_def is_monitored_asset_def mk_asset_def split: if_splits)
qed

lemmas market_eval = run_content_def start_evaluate_def prepare_fee_def convert_fee_def pay_fee_def content_check_def content_change_def
  env_example_def market_example_def content_db_def content_example_def chain_eval table_eval balance_eval
lemmas purchase_eval = request_to_buy_do_evaluate_def request_to_buy_do_apply_def find_content_def get_price_def is_subscribed_def
  find_subscription_def are_assets_exchangeable_def check_conversion_def asset_le_def asset_ge_def is_monitored_asset_def
  new_buying_def create_buying_def bump_stats_def find_stats_def modify_stats_def get_title_def load_property_def
  deliver_keys_do_evaluate_def deliver_keys_do_apply_def note_key_def modify_buying_def complete_delivery_def count_purchase_def
  modify_content_def content_payout_def pay_co_author_def find_seeder_def push_applied_operation_def new_stats_def
  buying_clash_def seeding_stats_clash_def content_clash_def OO_none_def OO_all_def add_to_pools_def

lemma purchase_example_runs: "succeeds (fold_res (run_content safe_int64 env_example) purchase_example market_example)"
  by (simp add: purchase_example_def market_eval purchase_eval succeeds_def)

theorem content_operations_conserve_witness:
  "\<exists>db'. fold_res (run_content safe_int64 env_example) purchase_example market_example = Inr db' \<and>
     good {0} db' \<and> holdings 0 db' = holdings 0 market_example"
proof -
  obtain db' where d: "fold_res (run_content safe_int64 env_example) purchase_example market_example = Inr db'"
    using purchase_example_runs unfolding succeeds_iff ..
  have "list_all (prices_in {0}) purchase_example" by (simp add: purchase_example_def)
  from content_operations_conserve [OF safe_int64_exact _ this market_example_good d] d show ?thesis by simp
qed

end
