(* ===== verification/Content_Rules.thy ===== *)
theory Content_Rules
  imports Content_Books
begin

text \<open>
  The rules of the content market beside the books: ratings, the rewards of seeders, the
  rights to publish, and the prices of a content that is submitted again.
\<close>

section \<open>Ratings\<close>

lemma add_rating_step:
  assumes r: "1 \<le> r" "r \<le> 5" and n: "0 \<le> num_of_ratings c" "num_of_ratings c + 1 < 2 ^ 32"
    and a: "0 \<le> AVG_rating c" "AVG_rating c \<le> 5000" "num_of_ratings c = 0 \<Longrightarrow> AVG_rating c = 0"
  shows "num_of_ratings (add_rating r c) = num_of_ratings c + 1"
    "AVG_rating (add_rating r c) = (AVG_rating c * num_of_ratings c + r * 1000) div (num_of_ratings c + 1)"
proof -
  have m: "0 \<le> AVG_rating c * num_of_ratings c" "AVG_rating c * num_of_ratings c \<le> 5000 * 2 ^ 32"
    using a n mult_mono [of "AVG_rating c" 5000 "num_of_ratings c" "2 ^ 32"] by simp_all
  from n show "num_of_ratings (add_rating r c) = num_of_ratings c + 1" by (simp add: add_rating_def)
  from m n r a(3) show "AVG_rating (add_rating r c) = (AVG_rating c * num_of_ratings c + r * 1000) div (num_of_ratings c + 1)"
    by (simp add: add_rating_def)
qed

lemma div_round: "0 < (m::int) \<Longrightarrow> x div m * m \<le> x \<and> x \<le> x div m * m + (m - 1)"
proof -
  assume "0 < m"
  moreover have "x = x div m * m + x mod m" by simp
  ultimately show ?thesis using pos_mod_sign [of m x] pos_mod_bound [of m x] by linarith
qed

text \<open>What \<open>rs\<close>, the ratings so far, say about the average: \<open>n (n - 1) / 2\<close> bounds the rounding.\<close>

definition rated :: "int list \<Rightarrow> content_object \<Rightarrow> bool" where
  "rated rs c \<longleftrightarrow>
     num_of_ratings c = int (length rs) \<and> (rs = [] \<longrightarrow> AVG_rating c = 0) \<and>
     0 \<le> AVG_rating c \<and> AVG_rating c \<le> 5000 \<and> (rs \<noteq> [] \<longrightarrow> 1000 \<le> AVG_rating c) \<and>
     AVG_rating c * int (length rs) \<le> 1000 * sum_list rs \<and>
     2 * (1000 * sum_list rs - AVG_rating c * int (length rs)) \<le> int (length rs) * (int (length rs) - 1)"

lemma rated_step:
  assumes c: "rated rs c" and r: "1 \<le> r" "r \<le> 5" and l: "int (length rs) + 1 < 2 ^ 32"
  shows "rated (rs @ [r]) (add_rating r c)"
proof -
  let ?n = "int (length rs)" and ?x = "AVG_rating c * num_of_ratings c + r * 1000"
  let ?a = "AVG_rating (add_rating r c)"
  have n: "num_of_ratings c = ?n" and z: "rs = [] \<longrightarrow> AVG_rating c = 0" and bd: "0 \<le> AVG_rating c" "AVG_rating c \<le> 5000"
    and lo: "rs \<noteq> [] \<longrightarrow> 1000 \<le> AVG_rating c"
    and s: "AVG_rating c * ?n \<le> 1000 * sum_list rs" "2 * (1000 * sum_list rs - AVG_rating c * ?n) \<le> ?n * (?n - 1)"
    using c by (simp_all add: rated_def)
  have st: "num_of_ratings (add_rating r c) = ?n + 1" "?a = ?x div (?n + 1)"
    using add_rating_step [OF r, of c] n z bd l by simp_all
  have nz: "?n + 1 \<noteq> 0" by simp
  have d: "?a * (?n + 1) \<le> ?x" "?x \<le> ?a * (?n + 1) + ?n"
    using div_round [of "?n + 1" ?x] st(2) by simp_all
  have "?x \<le> 5000 * (?n + 1)" using mult_right_mono [OF bd(2), of ?n] r n by simp
  then have "?a \<le> 5000 * (?n + 1) div (?n + 1)" unfolding st(2) by (intro zdiv_mono1) simp_all
  then have hi: "?a \<le> 5000" unfolding nonzero_mult_div_cancel_right [OF nz] .
  have "1000 * (?n + 1) \<le> ?x" using mult_right_mono [of 1000 "AVG_rating c" ?n] lo r n by (cases rs) simp_all
  then have "1000 * (?n + 1) div (?n + 1) \<le> ?a" unfolding st(2) by (intro zdiv_mono1) simp_all
  then have low: "1000 \<le> ?a" unfolding nonzero_mult_div_cancel_right [OF nz] .
  have "2 * (1000 * sum_list (rs @ [r]) - ?a * (?n + 1)) \<le> ?n * (?n - 1) + 2 * ?n" using s(2) d(2) n by simp
  also have "\<dots> = (?n + 1) * ?n" by (simp add: algebra_simps)
  finally have e: "2 * (1000 * sum_list (rs @ [r]) - ?a * (?n + 1)) \<le> (?n + 1) * ((?n + 1) - 1)" by simp
  have il: "int (length (rs @ [r])) = ?n + 1" by simp
  have "?a * (?n + 1) \<le> 1000 * sum_list (rs @ [r])" using s(1) d(1) n by simp
  with e st(1) hi low show ?thesis unfolding rated_def il by simp
qed

text \<open>
  The average rating: after any sequence of ratings from one to five the counter is
  their number, the average lies between 1000 and 5000 thousandths, never exceeds the exact
  mean, and the rounding it has accumulated is at most \<open>(n - 1) / 2\<close> thousandths.
\<close>

theorem ratings_average:
  assumes "list_all (\<lambda>r. 1 \<le> r \<and> r \<le> 5) rs" "rs \<noteq> []" "int (length rs) < 2 ^ 32"
    and "num_of_ratings c = 0" "AVG_rating c = 0"
  shows "let c' = fold add_rating rs c; n = int (length rs) in
    num_of_ratings c' = n \<and> 1000 \<le> AVG_rating c' \<and> AVG_rating c' \<le> 5000 \<and>
    AVG_rating c' * n \<le> 1000 * sum_list rs \<and> 2 * (1000 * sum_list rs - AVG_rating c' * n) \<le> n * (n - 1)"
proof -
  have "rated rs (fold add_rating rs c)" using assms(1,3)
  proof (induction rs rule: rev_induct)
    case Nil
    then show ?case using assms(4,5) by (simp add: rated_def)
  next
    case (snoc r rs)
    have "int (length rs) + 1 < 2 ^ 32" using snoc.prems(2) by simp
    with snoc rated_step [of rs "fold add_rating rs c" r] show ?case by simp
  qed
  with assms(2) show ?thesis by (simp add: rated_def Let_def)
qed

theorem ratings_average_witness:
  "let c' = fold add_rating [5, 4, 4] content_example in num_of_ratings c' = 3 \<and> 4332 \<le> AVG_rating c' \<and> AVG_rating c' * 3 \<le> 13000"
proof -
  have c: "num_of_ratings content_example = 0" "AVG_rating content_example = 0" by (simp_all add: content_example_def)
  define c' where "c' = fold add_rating [5, 4, 4] content_example"
  have "num_of_ratings c' = 3 \<and> AVG_rating c' * 3 \<le> 13000 \<and> 2 * (13000 - AVG_rating c' * 3) \<le> 6"
    using ratings_average [of "[5, 4, 4]", OF _ _ _ c] unfolding c'_def [symmetric] by simp
  then show ?thesis unfolding c'_def [symmetric] Let_def by auto
qed

section \<open>The reward of a seeder\<close>

definition day_ratio :: "int \<Rightarrow> int" where
  "day_ratio x = 10000 * x div 86400"

definition keep_factor :: "int \<Rightarrow> int" where
  "keep_factor ratio = 10000 - (10000 - ratio) div 4"

lemma day_ratio_bounds: "0 \<le> x \<Longrightarrow> x \<le> 86400 \<Longrightarrow> 0 \<le> day_ratio x \<and> day_ratio x \<le> 10000"
  unfolding day_ratio_def using zdiv_mono1 [of 0 "10000 * x" 86400] zdiv_mono1 [of "10000 * x" "10000 * 86400" 86400] by simp

lemma keep_factor_bounds: "0 \<le> r \<Longrightarrow> r \<le> 10000 \<Longrightarrow> 0 \<le> keep_factor r \<and> keep_factor r \<le> 10000"
  unfolding keep_factor_def using zdiv_mono1 [of 0 "10000 - r" 4] zdiv_mono1 [of "10000 - r" 10000 4] by simp

lemma keep_factor_mono: "x \<le> y \<Longrightarrow> keep_factor x \<le> keep_factor y"
  using zdiv_mono1 [of "10000 - y" "10000 - x" 4] by (simp add: keep_factor_def)

lemma reward_product_bounds:
  assumes "0 \<le> r" "r \<le> 10000"
  shows "0 \<le> r * keep_factor r" "r * keep_factor r \<le> 10000 * 10000"
  using keep_factor_bounds [OF assms] assms mult_mono [of r 10000 "keep_factor r" 10000] by simp_all

lemma total_reward_ratio_eq:
  assumes "0 \<le> x" "x \<le> 86400"
  shows "total_reward_ratio x = day_ratio x * keep_factor (day_ratio x) div 10000"
proof -
  define r where "r = day_ratio x"
  have b: "0 \<le> r" "r \<le> 10000" using day_ratio_bounds [OF assms] by (simp_all add: r_def)
  have k: "0 \<le> keep_factor r" "keep_factor r \<le> 10000" using keep_factor_bounds [OF b] by simp_all
  have "10000 * (x * 1000000) div (86400 * 1000000) = r"
    using div_mult_mult2 [of 1000000 "10000 * x" 86400] by (simp only: r_def day_ratio_def mult.assoc)
  then have t: "trunc_div (10000 * (x * 1000000)) (86400 * 1000000) = r" using assms by (subst trunc_div_nonneg) simp_all
  have u: "u64 r = r" "u64 (10000 - r) = 10000 - r" "u64 (10000 - (10000 - r) div 4) = keep_factor r"
    "u64 (r * keep_factor r) = r * keep_factor r"
    using b k reward_product_bounds [OF b] unfolding keep_factor_def [symmetric] by (intro u64_id; linarith)+
  have "\<not> x * 1000000 > 86400 * 1000000" using assms by simp
  then show ?thesis unfolding total_reward_ratio_def Let_def r_def [symmetric] by (simp only: t u if_False)
qed

lemma div_add_le: "0 < (m::int) \<Longrightarrow> x div m + y div m \<le> (x + y) div m"
proof -
  assume m: "0 < m"
  have "(x div m + y div m) * m \<le> x + y"
    unfolding distrib_right using div_round [OF m, of x] div_round [OF m, of y] by linarith
  then have "(x div m + y div m) * m div m \<le> (x + y) div m" using m by (intro zdiv_mono1)
  with m show ?thesis by simp
qed

lemma reward_superadditive:
  assumes "0 \<le> x" "0 \<le> y" "x + y \<le> 86400"
  shows "total_reward_ratio x + total_reward_ratio y \<le> total_reward_ratio (x + y)"
proof -
  define p q r where "p = day_ratio x" and "q = day_ratio y" and "r = day_ratio (x + y)"
  have e: "total_reward_ratio x = p * keep_factor p div 10000" "total_reward_ratio y = q * keep_factor q div 10000"
    "total_reward_ratio (x + y) = r * keep_factor r div 10000"
    unfolding p_def q_def r_def using assms by (intro total_reward_ratio_eq; linarith)+
  have n: "0 \<le> p" "0 \<le> q" "0 \<le> r" "r \<le> 10000"
    using day_ratio_bounds [of x] day_ratio_bounds [of y] day_ratio_bounds [of "x + y"] assms by (simp_all add: p_def q_def r_def)
  have s: "p + q \<le> r" unfolding p_def q_def r_def day_ratio_def distrib_left by (rule div_add_le) simp
  have k: "keep_factor p \<le> keep_factor r" "keep_factor q \<le> keep_factor r" using s n by (intro keep_factor_mono; linarith)+
  have "p * keep_factor p + q * keep_factor q \<le> p * keep_factor r + q * keep_factor r"
    using k n by (intro add_mono mult_left_mono)
  also have "\<dots> = (p + q) * keep_factor r" by (rule distrib_right [symmetric])
  also have "\<dots> \<le> r * keep_factor r" using s keep_factor_bounds [OF n(3,4)] by (intro mult_right_mono) simp_all
  finally have "(p * keep_factor p + q * keep_factor q) div 10000 \<le> r * keep_factor r div 10000" by (intro zdiv_mono1) simp_all
  with div_add_le [of 10000 "p * keep_factor p" "q * keep_factor q"] show ?thesis unfolding e by linarith
qed

text \<open>
  Haste does not pay: however a seeder splits a day between proofs of custody, the shares
  of the daily reward add up to at most the share of one proof for the whole time, which is at
  most one day's reward.
\<close>

theorem haste_does_not_pay:
  assumes "list_all (\<lambda>x. 0 \<le> x) xs" "sum_list xs \<le> 86400"
  shows "(\<Sum>x\<leftarrow>xs. total_reward_ratio x) \<le> total_reward_ratio (sum_list xs) \<and> total_reward_ratio (sum_list xs) \<le> 10000"
proof
  show "(\<Sum>x\<leftarrow>xs. total_reward_ratio x) \<le> total_reward_ratio (sum_list xs)" using assms
  proof (induction xs)
    case Nil
    then show ?case by (simp add: total_reward_ratio_eq day_ratio_def)
  next
    case (Cons x xs)
    then have s: "0 \<le> sum_list xs" by (auto simp: list_all_iff intro: sum_list_nonneg)
    with Cons reward_superadditive [of x "sum_list xs"] show ?case by simp
  qed
next
  have s: "0 \<le> sum_list xs" using assms(1) by (auto simp: list_all_iff intro: sum_list_nonneg)
  have d: "0 \<le> day_ratio (sum_list xs)" "day_ratio (sum_list xs) \<le> 10000" using day_ratio_bounds [OF s assms(2)] by simp_all
  show "total_reward_ratio (sum_list xs) \<le> 10000"
    unfolding total_reward_ratio_eq [OF s assms(2)] using zdiv_mono1 [OF reward_product_bounds(2) [OF d], of 10000] by simp
qed

theorem haste_does_not_pay_witness:
  "total_reward_ratio 43200 = 4375 \<and> total_reward_ratio 43200 + total_reward_ratio 43200 \<le> total_reward_ratio 86400"
proof -
  have "total_reward_ratio 43200 = 4375" by (subst total_reward_ratio_eq) (simp_all add: day_ratio_def keep_factor_def)
  with haste_does_not_pay [of "[43200, 43200]"] show ?thesis by simp
qed

section \<open>Publishing rights\<close>

definition rights_symmetric :: "database \<Rightarrow> bool" where
  "rights_symmetric db \<longleftrightarrow>
     (\<forall>x y ax ay. idx_find (accounts db) x = Some ax \<longrightarrow> idx_find (accounts db) y = Some ay \<longrightarrow>
       (y \<in> set (publishing_rights_forwarded (rights_to_publish ax)) \<longleftrightarrow>
        x \<in> publishing_rights_received (rights_to_publish ay)))"

lemma update_rights_Inr:
  assumes "update_rights f x db = Inr db'"
  obtains ao where "idx_find (accounts db) x = Some ao"
    "idx_find (accounts db') = (idx_find (accounts db))(x \<mapsto> ao\<lparr>rights_to_publish := f (rights_to_publish ao)\<rparr>)"
proof -
  from assms obtain t where "idx_update account_clash (accounts db) x (\<lambda>ao. Inr (ao\<lparr>rights_to_publish := f (rights_to_publish ao)\<rparr>)) = Inr t"
    "db' = db\<lparr>accounts := t\<rparr>"
    by (auto simp: update_rights_def modify_account_def res_simps)
  with idx_update_Inr [OF this(1)] that show ?thesis by auto
qed

lemma set_forward_to [simp]: "set (publishing_rights_forwarded (forward_to x r)) = insert x (set (publishing_rights_forwarded r))"
  "publishing_rights_received (forward_to x r) = publishing_rights_received r"
  by (auto simp: forward_to_def set_insort_key)

lemma spr_step_rights:
  assumes s: "rights_symmetric db" and a: "spr_step x p e db = Inr db'"
  shows "rights_symmetric db'"
    "idx_find (accounts db') x = Some ax \<Longrightarrow> e \<in> set (publishing_rights_forwarded (rights_to_publish ax)) \<longleftrightarrow> p"
    "y \<noteq> e \<Longrightarrow> idx_find (accounts db) x = Some bx \<Longrightarrow> idx_find (accounts db') x = Some ax \<Longrightarrow>
       y \<in> set (publishing_rights_forwarded (rights_to_publish ax)) \<longleftrightarrow> y \<in> set (publishing_rights_forwarded (rights_to_publish bx))"
    "idx_find (accounts db) x \<noteq> None" "idx_find (accounts db') x \<noteq> None"
proof -
  let ?f = "if p then forward_to e else (\<lambda>r. r\<lparr>publishing_rights_forwarded := removeAll e (publishing_rights_forwarded r)\<rparr>)"
  let ?g = "\<lambda>r. r\<lparr>publishing_rights_received := (if p then insert x (publishing_rights_received r) else publishing_rights_received r - {x})\<rparr> :: publishing_rights"
  from a obtain db1 where u1: "update_rights ?f x db = Inr db1" and u2: "update_rights ?g e db1 = Inr db'"
    by (auto simp: spr_step_def res_simps split: if_splits)
  obtain ax0 where x: "idx_find (accounts db) x = Some ax0"
    "idx_find (accounts db1) = (idx_find (accounts db))(x \<mapsto> ax0\<lparr>rights_to_publish := ?f (rights_to_publish ax0)\<rparr>)"
    by (rule update_rights_Inr [OF u1])
  obtain ae where e: "idx_find (accounts db1) e = Some ae"
    "idx_find (accounts db') = (idx_find (accounts db1))(e \<mapsto> ae\<lparr>rights_to_publish := ?g (rights_to_publish ae)\<rparr>)"
    by (rule update_rights_Inr [OF u2])
  from s x e show "rights_symmetric db'" unfolding rights_symmetric_def by (auto split: if_splits)
  from x e show "idx_find (accounts db') x = Some ax \<Longrightarrow> e \<in> set (publishing_rights_forwarded (rights_to_publish ax)) \<longleftrightarrow> p"
    "y \<noteq> e \<Longrightarrow> idx_find (accounts db) x = Some bx \<Longrightarrow> idx_find (accounts db') x = Some ax \<Longrightarrow>
       y \<in> set (publishing_rights_forwarded (rights_to_publish ax)) \<longleftrightarrow> y \<in> set (publishing_rights_forwarded (rights_to_publish bx))"
    "idx_find (accounts db) x \<noteq> None" "idx_find (accounts db') x \<noteq> None"
    by (auto split: if_splits)
qed

text \<open>
  Publishing rights stay symmetric under \<open>set_publishing_right\<close>: an account lists another
  among those it forwarded rights to exactly when the other lists it among those it received
  rights from; and afterwards the manager forwards to every account named in the operation
  exactly when the operation grants.
\<close>

theorem publishing_rights_symmetric:
  assumes "rights_symmetric db" "spr_do_apply op db = Inr db'"
  shows "rights_symmetric db' \<and>
    (\<forall>ax. idx_find (accounts db') (spr_from op) = Some ax \<longrightarrow>
      (\<forall>y \<in> set (spr_to op). y \<in> set (publishing_rights_forwarded (rights_to_publish ax)) \<longleftrightarrow> is_publisher op))"
proof -
  have "rights_symmetric db' \<and> (\<forall>ax. idx_find (accounts db') x = Some ax \<longrightarrow>
      (\<forall>y \<in> set ys. y \<in> set (publishing_rights_forwarded (rights_to_publish ax)) \<longleftrightarrow> p))"
    if "rights_symmetric db" "fold_res (spr_step x p) ys db = Inr db'" for x p ys
    using that(2)
  proof (induction ys arbitrary: db' rule: rev_induct)
    case Nil
    with that(1) show ?case by simp
  next
    case (snoc y ys)
    from snoc.prems obtain db1 where f: "fold_res (spr_step x p) ys db = Inr db1" and s: "spr_step x p y db1 = Inr db'"
      by (auto simp: fold_res_append res_simps)
    note ih = snoc.IH [OF f] and st = spr_step_rights [OF conjunct1 [OF snoc.IH [OF f]] s]
    from st(4) obtain bx where bx: "idx_find (accounts db1) x = Some bx" by blast
    have "z \<in> set (publishing_rights_forwarded (rights_to_publish ax)) \<longleftrightarrow> p"
      if "idx_find (accounts db') x = Some ax" "z \<in> set (ys @ [y])" for ax z
      using that st(2) [OF that(1)] st(3) [OF _ bx that(1), of z] ih bx by (cases "z = y") simp_all
    with st(1) show ?case by blast
  qed
  with assms show ?thesis by (auto simp: spr_do_apply_def res_simps)
qed

definition rights_example :: database where
  "rights_example = chain_example\<lparr>accounts := \<lparr>next_id = 9, rows =
     [(4, account_example\<lparr>rights_to_publish := \<lparr>is_publishing_manager = True, publishing_rights_received = {}, publishing_rights_forwarded = [5]\<rparr>\<rparr>),
      (5, account_example\<lparr>acc_name := ''bob'', rights_to_publish := \<lparr>is_publishing_manager = False, publishing_rights_received = {4},
          publishing_rights_forwarded = []\<rparr>\<rparr>),
      (6, account_example\<lparr>acc_name := ''carol''\<rparr>)]\<rparr>\<rparr>"

lemma rights_example_find: "idx_find (accounts rights_example) x = map_of (rows (accounts rights_example)) x"
  by (simp add: idx_find_def)

lemma rights_example_symmetric: "rights_symmetric rights_example"
  unfolding rights_symmetric_def rights_example_find
  by (auto simp: rights_example_def account_example_def split: if_splits)

lemmas rights_eval = update_rights_def modify_account_def account_clash_def rights_example_def table_eval account_example_def

theorem publishing_rights_symmetric_witness:
  "\<exists>db'. spr_do_apply \<lparr>spr_fee = mk_asset 0 0, spr_from = 4, spr_to = [6], is_publisher = True\<rparr> rights_example = Inr db' \<and> rights_symmetric db'"
proof -
  let ?op = "\<lparr>spr_fee = mk_asset 0 0, spr_from = 4, spr_to = [6], is_publisher = True\<rparr>"
  have "succeeds (spr_do_apply ?op rights_example)"
    by (simp add: spr_do_apply_def spr_step_def rights_eval succeeds_def)
  then obtain db' where d: "spr_do_apply ?op rights_example = Inr db'" unfolding succeeds_iff ..
  with publishing_rights_symmetric [OF rights_example_symmetric d] show ?thesis by blast
qed

text \<open>
  \<open>set_publishing_manager\<close> does not do this. Revoking a manager leaves its rights with the
  accounts that received them, because it removes the receiver from the receiver's own list
  instead of the manager; and granting the status to several accounts stops after the first.
\<close>

theorem publishing_manager_wrong:
  "(\<exists>db' a. spm_do_apply \<lparr>spm_fee = mk_asset 0 0, spm_from = 15, spm_to = [4], can_create_publishers = False\<rparr> rights_example = Inr db' \<and>
     idx_find (accounts db') 5 = Some a \<and> publishing_rights_received (rights_to_publish a) = {4}) \<and>
   (\<exists>db' a. spm_do_apply \<lparr>spm_fee = mk_asset 0 0, spm_from = 15, spm_to = [5, 6], can_create_publishers = True\<rparr> rights_example = Inr db' \<and>
     idx_find (accounts db') 6 = Some a \<and> \<not> is_publishing_manager (rights_to_publish a))"
  by (simp add: spm_do_apply_def spm_erase_def rights_eval)

section \<open>Prices of a content submitted again\<close>

lemma price_map_none: "OO_none \<notin> fst ` set ps \<Longrightarrow> map_of (price_map ps) OO_none = None"
proof -
  have "map_of (fold (\<lambda>(r, p) m. map_assign r p m) ps m) OO_none = None"
    if "OO_none \<notin> fst ` set ps" "map_of m OO_none = None" for m :: "(nat \<times> asset) list"
    using that
  proof (induction ps arbitrary: m)
    case (Cons x ps)
    have "map_of (map_assign r p m) OO_none = None" if "r \<noteq> OO_none" for r p
      using that Cons.prems(2) by (auto simp: map_assign_def upd_row_def map_of_eq_None_iff)
    with Cons show ?case by (cases x) auto
  qed simp
  from this [of "[]"] show "OO_none \<notin> fst ` set ps \<Longrightarrow> map_of (price_map ps) OO_none = None" by (simp add: price_map_def)
qed

lemma map_of_ins_row_new: "map_of m k = None \<Longrightarrow> map_of (ins_row k v m) = (map_of m)(k \<mapsto> v)"
  by (induction m) (auto simp: fun_eq_iff split: if_splits)

lemma region_price_kept: "map_of m r = Some p \<Longrightarrow> map_of (set_region_price r' q m) r = Some p"
  by (auto simp: set_region_price_def map_emplace_def map_of_ins_row_new)

text \<open>
  A content that is submitted again with prices by region keeps every price it already
  has: a single price stays in force for all regions, and a region's own price is not replaced.
\<close>

theorem resubmission_keeps_prices:
  assumes "OO_none \<notin> fst ` set ps"
    and "map_of m OO_none = Some p \<or> (map_of m OO_none = None \<and> map_of m r = Some p \<and> r \<noteq> OO_none)"
  shows "get_price (set_prices ps m) r = Some p"
proof -
  have f: "map_of (fold (\<lambda>(r, p). set_region_price r p) xs m) k = Some q" if "map_of m k = Some q" for xs k q
    using that
  proof (induction xs arbitrary: m)
    case (Cons x xs)
    then show ?case by (cases x) (simp add: region_price_kept)
  qed simp
  have n: "map_of (fold (\<lambda>(r, p). set_region_price r p) xs m) OO_none = None"
    if "OO_none \<notin> fst ` set xs" "map_of m OO_none = None" for xs
    using that
  proof (induction xs arbitrary: m)
    case (Cons x xs)
    then show ?case by (cases x) (auto simp: set_region_price_def map_emplace_def map_of_ins_row_new)
  qed simp
  have "OO_none \<notin> fst ` set (price_map ps)" using price_map_none [OF assms(1)] by (simp add: map_of_eq_None_iff)
  with assms(2) f n [of "price_map ps"] price_map_none [OF assms(1)] show ?thesis
    by (auto simp: set_prices_def Let_def get_price_def)
qed

theorem resubmission_keeps_prices_witness:
  "get_price (set_prices [(3, mk_asset 99 0)] [(1, mk_asset 10 0)]) 3 = Some (mk_asset 10 0)"
  by (rule resubmission_keeps_prices) (simp_all add: OO_none_def)

end
