(* ===== verification/Housekeeping.thy ===== *)
theory Housekeeping
  imports Content_Books
begin

text \<open>
  The periodic work of \<open>db_decent.cpp\<close>: content and purchases that expire, the ratings of
  seeders, the renewal of subscriptions and the schedule of block rewards; and the
  subscription evaluators of \<open>subscription_evaluator.cpp\<close>. Where an index orders objects by
  a key that several share, the model takes those in the order of their ids.
\<close>

section \<open>Subscriptions\<close>

record subscribe_operation =
  sb_fee :: asset
  sb_from :: nat
  sb_to :: nat
  sb_price :: asset

definition subscribe_validate :: "subscribe_operation \<Rightarrow> unit result" where
  "subscribe_validate op = fc_assert (amount (sb_fee op) \<ge> 0) (fc_assert (amount (sb_price op) \<ge> 0) (Inr ()))"

text \<open>The price of a subscription: converted with the current feed when it is set in a monitored asset.\<close>

definition subscription_price :: "asset \<Rightarrow> database \<Rightarrow> asset result" where
  "subscription_price p db =
     rbind (idx_get (assets db) (asset_id p)) (\<lambda>ao.
     case monitored_asset_opts ao of
       None \<Rightarrow> Inr p
     | Some m \<Rightarrow>
         let r = core_exchange_rate (current_feed m) in
         fc_assert (\<not> is_null r) (asset_times_price p r))"

definition subscribe_do_evaluate :: "subscribe_operation \<Rightarrow> database \<Rightarrow> unit result" where
  "subscribe_do_evaluate op db =
     fc_assert (idx_find (accounts db) (sb_from op) \<noteq> None)
    (rbind (get_or_throw (idx_find (accounts db) (sb_to op))) (\<lambda>to_account.
     rbind (asset_le (sb_price op) (get_balance (sb_from op) (asset_id (sb_price op)) db)) (\<lambda>le.
     fc_assert le
    (fc_assert (allow_subscription (acc_options to_account))
    (let p = price_per_subscribe (acc_options to_account) in
     rbind (idx_get (assets db) (asset_id p)) (\<lambda>ao.
     fc_assert (asset_id p = 0 \<or> is_monitored_asset ao)
    (rbind (subscription_price p db) (\<lambda>dct_price.
     rbind (asset_ge (sb_price op) dct_price) (\<lambda>ge. fc_assert ge (Inr ()))))))))))"

definition extend_subscription :: "int \<Rightarrow> int \<Rightarrow> subscription_object \<Rightarrow> subscription_object" where
  "extend_subscription secs t so =
     so\<lparr>sub_expiration := (if sub_expiration so < t then u32 (t + secs) else u32 (sub_expiration so + secs))\<rparr>"

definition start_or_extend :: "nat \<Rightarrow> nat \<Rightarrow> int \<Rightarrow> database \<Rightarrow> database result" where
  "start_or_extend from to secs db =
     (case find_subscription from to db of
        Some (i, _) \<Rightarrow> modify_subscription i (extend_subscription secs (head_block_time db)) db
      | None \<Rightarrow> create_subscription \<lparr>sub_from = from, sub_to = to, sub_expiration = u32 (head_block_time db + secs),
                  automatic_renewal = False\<rparr> db)"

definition period_text :: "int \<Rightarrow> string" where
  "period_text days = decimal days @ '' day'' @ (if days > 1 then ''s'' else [])"

definition subscription_detail :: "nat \<Rightarrow> nat \<Rightarrow> asset \<Rightarrow> asset \<Rightarrow> int \<Rightarrow> database \<Rightarrow> database result" where
  "subscription_detail from to paid fee days db =
     create_detail \<lparr>m_from_account = from, m_to_account = to, m_operation_type = td_subscription,
       m_transaction_amount = paid, m_transaction_fee = fee, m_str_description = period_text days,
       m_timestamp = head_block_time db\<rparr> db"

definition subscribe_do_apply :: "safe \<Rightarrow> subscribe_operation \<Rightarrow> database \<Rightarrow> database result" where
  "subscribe_do_apply S op db =
     rbind (deref (idx_find (accounts db) (sb_to op))) (\<lambda>to_account.
     let days = subscription_period (acc_options to_account) in
     rbind (start_or_extend (sb_from op) (sb_to op) (u32 (days * 24 * 3600)) db) (\<lambda>db1.
     rbind (asset_neg S (sb_price op)) (\<lambda>n.
     rbind (adjust_balance S (sb_from op) n db1) (\<lambda>db2.
     rbind (adjust_balance S (sb_to op) (sb_price op) db2) (\<lambda>db3.
     subscription_detail (sb_from op) (sb_to op) (sb_price op) (sb_fee op) days db3)))))"

definition subscribe_by_author_do_evaluate :: "nat \<Rightarrow> nat \<Rightarrow> database \<Rightarrow> unit result" where
  "subscribe_by_author_do_evaluate from to db =
     fc_assert (idx_find (accounts db) from \<noteq> None)
    (rbind (get_or_throw (idx_find (accounts db) to)) (\<lambda>to_account.
     fc_assert (allow_subscription (acc_options to_account)) (Inr ())))"

definition subscribe_by_author_do_apply :: "nat \<Rightarrow> nat \<Rightarrow> asset \<Rightarrow> database \<Rightarrow> database result" where
  "subscribe_by_author_do_apply from to fee db =
     rbind (deref (idx_find (accounts db) to)) (\<lambda>to_account.
     let days = subscription_period (acc_options to_account) in
     rbind (start_or_extend from to (u32 (days * 24 * 3600)) db) (\<lambda>db1.
     subscription_detail from to (mk_asset 0 0) fee days db1))"

definition automatic_renewal_do_evaluate :: "nat \<Rightarrow> nat \<Rightarrow> bool \<Rightarrow> database \<Rightarrow> unit result" where
  "automatic_renewal_do_evaluate cons sid renew db =
     fc_assert (idx_find (accounts db) cons \<noteq> None)
    (rbind (get_or_throw (idx_find (subscriptions db) sid)) (\<lambda>s.
     fc_assert (sub_from s = cons)
    (fc_assert (automatic_renewal s \<noteq> renew)
    (fc_assert (idx_find (accounts db) (sub_to s) \<noteq> None) (Inr ())))))"

definition automatic_renewal_do_apply :: "nat \<Rightarrow> bool \<Rightarrow> database \<Rightarrow> database result" where
  "automatic_renewal_do_apply sid renew db =
     rbind (deref (idx_find (subscriptions db) sid)) (\<lambda>_.
     modify_subscription sid (\<lambda>so. so\<lparr>automatic_renewal := renew\<rparr>) db)"

section \<open>Expiration of content\<close>

definition expire_stats :: "content_object \<Rightarrow> nat \<Rightarrow> database \<Rightarrow> database result" where
  "expire_stats c x db =
     rbind (deref (find_stats x db)) (\<lambda>(i, st).
     if map_of (last_proof c) x \<noteq> None then
       modify_stats i (\<lambda>so. rbind (seeded_bytes c) (\<lambda>n.
         Inr (so\<lparr>total_content_seeded := u64 (total_content_seeded so - n), num_of_content_seeded := u32 (num_of_content_seeded so - 1)\<rparr>))) db
     else if total_content_requested_to_seed st > 0 then
       modify_stats i (\<lambda>so. Inr (so\<lparr>total_content_requested_to_seed := total_content_requested_to_seed so - 1\<rparr>)) db
     else Inr db)"

definition content_expire :: "safe \<Rightarrow> nat \<Rightarrow> database \<Rightarrow> database result" where
  "content_expire S cid db =
     rbind (deref (idx_find (contents db) cid)) (\<lambda>c.
     let escrow = publishing_fee_escrow c in
     rbind (adjust_balance S (if amount escrow \<ge> 0 then author c else 20) escrow db) (\<lambda>db1.
     rbind (modify_content cid (\<lambda>co. Inr (co\<lparr>publishing_fee_escrow := (publishing_fee_escrow co)\<lparr>amount := 0\<rparr>\<rparr>)) db1) (\<lambda>db2.
     rbind (fold_res (expire_stats c) (map fst (key_parts c)) db2) (\<lambda>db3.
       Inr (push_applied_operation (Return_escrow_submission (author c) escrow cid) db3)))))"

section \<open>Ratings of seeders\<close>

definition rate_seeder :: "nat \<times> seeder_object \<Rightarrow> database \<Rightarrow> database result" where
  "rate_seeder sr db =
     rbind (idx_get (seeding_stats db) (stats (snd sr))) (\<lambda>st.
     let requests = u32 (total_delivered_keys st + missed_delivered_keys st);
         key_delivery = (if requests > 0 then u32 (total_delivered_keys st * 10000) div requests else 0);
         upload = (if total_content_seeded st > 0
                   then u64 (u64 (total_upload st - uploaded_till_last_maint st) * 10000) div total_content_seeded st else 0);
         avg_buying = (if num_of_content_seeded st > 0
                   then u32 (u32 (requests * 30000) div num_of_content_seeded st div 10 + u32 (avg_buying_ratio st * 7) div 10)
                   else u32 (avg_buying_ratio st * 7) div 10);
         rel = (if avg_buying > 0 \<and> upload > 0
                then u32 (u64 (30000 * upload) div avg_buying div 10 + u32 (seeding_rel_ratio st * 7) div 10)
                else seeding_rel_ratio st);
         abs_ratio = (if upload > 0 then u32 (u64 (3 * upload) div 10 + u32 (seeding_abs_ratio st * 7) div 10)
                else seeding_abs_ratio st);
         num_content = u32 (total_content_requested_to_seed st + num_of_content_seeded st);
         missed = (if num_content > 0
                then u32 (u32 (num_of_content_seeded st * 30000) div num_content div 10 + u32 (missed_ratio st * 7) div 10)
                else u32 (missed_ratio st * 7) div 10);
         rel = min 20000 rel;
         abs_ratio = min 40000 abs_ratio
     in
     rbind (modify_seeder (fst sr) (\<lambda>so. so\<lparr>seeder_rating := min (u32 (rel + abs_ratio) div 6) (u32 (missed + key_delivery) div 2)\<rparr>) db) (\<lambda>db1.
     modify_stats (stats (snd sr)) (\<lambda>so. Inr (so\<lparr>uploaded_till_last_maint := total_upload so, missed_delivered_keys := 0,
       total_delivered_keys := 0, total_content_requested_to_seed := 0, num_of_pors := 0, avg_buying_ratio := avg_buying,
       seeding_rel_ratio := rel, seeding_abs_ratio := abs_ratio, missed_ratio := missed\<rparr>)) db1))"

definition set_and_reset_seeding_stats :: "database \<Rightarrow> database result" where
  "set_and_reset_seeding_stats db = fold_res rate_seeder (rows (seeders db)) db"

section \<open>Renewal of subscriptions\<close>

text \<open>
  A block whose exceptions are caught: the steps done before the exception stay done, so the
  result is the state together with the exception that stopped it.
\<close>

fun run_steps :: "(database \<Rightarrow> database result) list \<Rightarrow> database \<Rightarrow> database \<times> fc_exception option" where
  "run_steps [] db = (db, None)"
| "run_steps (f # fs) db = (case f db of Inl e \<Rightarrow> (db, Some e) | Inr db' \<Rightarrow> run_steps fs db')"

definition renew_subscription :: "safe \<Rightarrow> nat \<Rightarrow> subscription_object \<Rightarrow> int \<Rightarrow> asset \<Rightarrow> database \<Rightarrow> database \<times> fc_exception option" where
  "renew_subscription S sid s days p =
     run_steps
      [modify_subscription sid (\<lambda>so. so\<lparr>sub_expiration := u32 (sub_expiration so + u32 (days * 24 * 3600))\<rparr>),
       subscription_detail (sub_from s) (sub_to s) p (mk_asset 0 0) days,
       (\<lambda>db. rbind (asset_neg S p) (\<lambda>n. adjust_balance S (sub_from s) n db)),
       adjust_balance S (sub_to s) p,
       (\<lambda>db. Inr (push_applied_operation (Renewal_of_subscription (sub_from s) sid) db))]"

definition disallow_renewal :: "nat \<Rightarrow> subscription_object \<Rightarrow> database \<Rightarrow> database result" where
  "disallow_renewal sid s db =
     rbind (modify_subscription sid (\<lambda>so. so\<lparr>automatic_renewal := False\<rparr>) db) (\<lambda>db1.
       Inr (push_applied_operation (Disallow_automatic_renewal (sub_from s) sid) db1))"

text \<open>
  One round of the loop: the new state and whether the subscription was disallowed. The check
  of the balance is part of the block whose assertion failures are caught.
\<close>

definition renew_one :: "safe \<Rightarrow> nat \<Rightarrow> subscription_object \<Rightarrow> account_object \<Rightarrow> database \<Rightarrow> (bool \<times> database) result" where
  "renew_one S sid s auth db =
     (let disallow = (\<lambda>x. rbind (disallow_renewal sid s x) (\<lambda>y. Inr (True, y))) in
      case rbind (subscription_price (price_per_subscribe (acc_options auth)) db) (\<lambda>p.
           rbind (asset_le p (get_balance (sub_from s) (asset_id p) db)) (\<lambda>le. Inr (p, le))) of
        Inl e \<Rightarrow> if e = assert_exception then disallow db else Inl e
      | Inr (p, le) \<Rightarrow>
          if le then
            (case renew_subscription S sid s (subscription_period (acc_options auth)) p db of
               (db', None) \<Rightarrow> Inr (False, db')
             | (db', Some e) \<Rightarrow> if e = assert_exception then disallow db' else Inl e)
          else disallow db)"

text \<open>
  The loop walks the index by renewal, where the subscriptions to renew come first. Disallowing one
  moves it behind all of them, and with it the iterator, so the loop ends there. Among subscriptions to renew the index keeps the order in which
  their renewal was switched on; the model takes them in the order of their ids. The order decides which of them are renewed before the
  loop ends or the balance of a subscriber runs out.
\<close>

fun renew_loop :: "safe \<Rightarrow> int \<Rightarrow> nat list \<Rightarrow> database \<Rightarrow> database result" where
  "renew_loop S t [] db = Inr db"
| "renew_loop S t (sid # sids) db =
     rbind (deref (idx_find (subscriptions db) sid)) (\<lambda>s.
     if sub_expiration s \<le> t then
       rbind (deref (idx_find (accounts db) (sub_to s))) (\<lambda>auth.
       rbind (renew_one S sid s auth db) (\<lambda>(stopped, db'). if stopped then Inr db' else renew_loop S t sids db'))
     else renew_loop S t sids db)"

section \<open>Housekeeping\<close>

definition next_maintenance :: "int \<Rightarrow> int \<Rightarrow> int \<Rightarrow> int \<Rightarrow> int" where
  "next_maintenance block_number t old interval =
     (if block_number = 1 then u32 ((t div interval + 1) * interval)
      else u32 (old + u32 ((trunc_div (t - old) interval + 1) * interval)))"

definition expired_in :: "('o \<Rightarrow> int) \<Rightarrow> int \<Rightarrow> int \<Rightarrow> 'o index \<Rightarrow> nat list" where
  "expired_in key from to t =
     map fst (sort_key (\<lambda>r. key (snd r)) (filter (\<lambda>r. from \<le> key (snd r) \<and> key (snd r) \<le> to) (rows t)))"

definition expire_if_open :: "safe \<Rightarrow> nat \<Rightarrow> database \<Rightarrow> database result" where
  "expire_if_open S bid db =
     rbind (deref (idx_find (buyings db) bid)) (\<lambda>b. if delivered b then Inr db else buying_expire S bid db)"

definition decent_housekeeping :: "safe \<Rightarrow> database \<Rightarrow> database result" where
  "decent_housekeeping S db =
     rbind (set_and_reset_seeding_stats db) (\<lambda>db1.
     let from = u32 (last_budget_time (dpo db1) + block_interval (parameters (gpo db1))) in
     rbind (fold_res (content_expire S) (expired_in expiration from (head_block_time db1) (contents db1)) db1) (\<lambda>db2.
     rbind (fold_res (expire_if_open S) (expired_in expiration_time from (head_block_time db2) (buyings db2)) db2) (\<lambda>db3.
     let interval = maintenance_interval (case pending_parameters (gpo db3) of Some p \<Rightarrow> p | None \<Rightarrow> parameters (gpo db3)) in
     if interval = 0 then Inl undefined_behaviour
     else
       renew_loop S (next_maintenance (head_block_num db3) (head_block_time db3) (next_maintenance_time (dpo db3)) interval)
         (map fst (filter (\<lambda>r. automatic_renewal (snd r)) (rows (subscriptions db3)))) db3)))"

section \<open>Block rewards\<close>

definition DECENT_SPLIT_0 :: int where "DECENT_SPLIT_0 = 100000"
definition DECENT_SPLIT_1 :: int where "DECENT_SPLIT_1 = 31653280"
definition DECENT_SPLIT_2 :: int where "DECENT_SPLIT_2 = 63206560"
definition DECENT_SPLIT_3 :: int where "DECENT_SPLIT_3 = 94777120"
definition DECENT_SPLIT_4 :: int where "DECENT_SPLIT_4 = 126330400"

definition DECENT_BLOCK_REWARD_0 :: int where "DECENT_BLOCK_REWARD_0 = 0"
definition DECENT_BLOCK_REWARD_1 :: int where "DECENT_BLOCK_REWARD_1 = 37 * 100000000 div 100"
definition DECENT_BLOCK_REWARD_2 :: int where "DECENT_BLOCK_REWARD_2 = DECENT_BLOCK_REWARD_1 div 2"
definition DECENT_BLOCK_REWARD_3 :: int where "DECENT_BLOCK_REWARD_3 = DECENT_BLOCK_REWARD_2 div 2"
definition DECENT_BLOCK_REWARD_4 :: int where "DECENT_BLOCK_REWARD_4 = DECENT_BLOCK_REWARD_3 div 2"
definition DECENT_BLOCK_REWARD_5 :: int where "DECENT_BLOCK_REWARD_5 = 0"

definition is_reward_switch_time :: "database \<Rightarrow> bool" where
  "is_reward_switch_time db =
     (head_block_num db \<in> {DECENT_SPLIT_0, DECENT_SPLIT_1, DECENT_SPLIT_2, DECENT_SPLIT_3, DECENT_SPLIT_4})"

definition is_reward_switch_in_interval :: "int \<Rightarrow> int \<Rightarrow> bool" where
  "is_reward_switch_in_interval a b =
     (if a \<ge> b then False
      else list_ex (\<lambda>s. a \<le> s \<and> b \<ge> s) [DECENT_SPLIT_0, DECENT_SPLIT_1, DECENT_SPLIT_2, DECENT_SPLIT_3, DECENT_SPLIT_4])"

definition get_next_reward_switch_block :: "int \<Rightarrow> int" where
  "get_next_reward_switch_block start =
     (if start \<le> DECENT_SPLIT_0 then DECENT_SPLIT_0
      else if start \<le> DECENT_SPLIT_1 then DECENT_SPLIT_1
      else if start \<le> DECENT_SPLIT_2 then DECENT_SPLIT_2
      else if start \<le> DECENT_SPLIT_3 then DECENT_SPLIT_3
      else if start \<le> DECENT_SPLIT_4 then DECENT_SPLIT_4
      else 0)"

definition get_asset_per_block_by_block_num :: "int \<Rightarrow> int" where
  "get_asset_per_block_by_block_num n =
     (if n < DECENT_SPLIT_0 then DECENT_BLOCK_REWARD_0
      else if n < DECENT_SPLIT_1 then DECENT_BLOCK_REWARD_1
      else if n < DECENT_SPLIT_2 then DECENT_BLOCK_REWARD_2
      else if n < DECENT_SPLIT_3 then DECENT_BLOCK_REWARD_3
      else if n < DECENT_SPLIT_4 then DECENT_BLOCK_REWARD_4
      else DECENT_BLOCK_REWARD_5)"

definition get_new_asset_per_block :: "database \<Rightarrow> int" where
  "get_new_asset_per_block db = get_asset_per_block_by_block_num (head_block_num db)"

text \<open>The block reward after a switch; \<open>get_miner_budget\<close> falls back to half the present one.\<close>

definition reward_after_switch :: "int \<Rightarrow> int option" where
  "reward_after_switch s =
     (if s = DECENT_SPLIT_0 then Some DECENT_BLOCK_REWARD_1
      else if s = DECENT_SPLIT_1 then Some DECENT_BLOCK_REWARD_2
      else if s = DECENT_SPLIT_2 then Some DECENT_BLOCK_REWARD_3
      else if s = DECENT_SPLIT_3 then Some DECENT_BLOCK_REWARD_4
      else if s = DECENT_SPLIT_4 then Some DECENT_BLOCK_REWARD_5
      else None)"

definition get_miner_budget :: "safe \<Rightarrow> int \<Rightarrow> database \<Rightarrow> int result" where
  "get_miner_budget S blocks db =
     (let now = head_block_num db; reward = get_new_asset_per_block db; next_switch = get_next_reward_switch_block now in
      if u32 (u32 (now + 1) + blocks) \<ge> next_switch then
        let to_switch = u64 (next_switch - now - 1) in
        rbind (S (reward * to_int64 to_switch)) (\<lambda>before.
        rbind (case reward_after_switch next_switch of
                 Some r \<Rightarrow> Inr (to_int64 (u64 (r * u64 (blocks - to_switch))))
               | None \<Rightarrow> rbind (S (trunc_div reward 2)) (\<lambda>h. S (h * to_int64 (u64 (blocks - to_switch))))) (\<lambda>after.
        S (before + after)))
      else S (blocks * reward))"

end
