(* ===== verification/Miner_Schedule.thy ===== *)
theory Miner_Schedule
  imports Balance "HOL-Library.Word" "HOL-Library.Multiset"
begin

unbundle bit_operations_syntax

text \<open>
  The schedule of miners (\<open>db_miner_schedule.cpp\<close>): the times of the block slots, the slot a
  time falls into, the miner a slot belongs to and the shuffle of the active miners. The
  pseudo-random numbers of the shuffle are 64 bit words. A division by a zero block interval
  or by an empty list of miners is undefined behaviour.
\<close>

section \<open>Slots\<close>

definition maintenance_flag :: int where "maintenance_flag = 1"

definition in_maintenance :: "database \<Rightarrow> bool" where
  "in_maintenance db \<longleftrightarrow> dynamic_flags (dpo db) AND maintenance_flag \<noteq> 0"

definition get_scheduled_miner :: "int \<Rightarrow> database \<Rightarrow> nat result" where
  "get_scheduled_miner slot_num db =
     (let ms = current_shuffled_miners (miner_schedule db) in
      if ms = [] then Inl undefined_behaviour
      else Inr (ms ! nat (u64 (current_aslot (dpo db) + slot_num) mod int (length ms))))"

definition get_slot_time :: "int \<Rightarrow> database \<Rightarrow> int result" where
  "get_slot_time slot_num db =
     (let interval = block_interval (parameters (gpo db)) in
      if slot_num = 0 then Inr 0
      else if head_block_num db = 0 then Inr (u32 (dyn_time (dpo db) + u32 (slot_num * interval)))
      else if interval = 0 then Inl undefined_behaviour
      else
        let head_slot_time = u32 (head_block_time db div interval * interval);
            slot = (if in_maintenance db then u32 (slot_num + maintenance_skip_slots (parameters (gpo db))) else slot_num)
        in Inr (u32 (head_slot_time + u32 (slot * interval))))"

definition get_slot_at_time :: "int \<Rightarrow> database \<Rightarrow> int result" where
  "get_slot_at_time t db =
     rbind (get_slot_time 1 db) (\<lambda>first_slot_time.
     if t < first_slot_time then Inr 0
     else if block_interval (parameters (gpo db)) = 0 then Inl undefined_behaviour
     else Inr (u32 ((t - first_slot_time) div block_interval (parameters (gpo db)) + 1)))"

definition popcount :: "int \<Rightarrow> int" where
  "popcount x = int (length (filter (bit x) [0..<128]))"

definition miner_participation_rate :: "database \<Rightarrow> int" where
  "miner_participation_rate db = u64 (10000 * popcount (recent_slots_filled (dpo db))) div 128"

section \<open>The shuffle\<close>

definition xorshift :: "64 word \<Rightarrow> nat \<Rightarrow> 64 word" where
  "xorshift now_hi i =
     (let k = now_hi + word_of_nat i * 2685821657736338717;
          k = k XOR drop_bit 12 k;
          k = k XOR push_bit 25 k;
          k = k XOR drop_bit 27 k
      in k * 2685821657736338717)"

definition swap_at :: "nat \<Rightarrow> nat \<Rightarrow> 'a list \<Rightarrow> 'a list" where
  "swap_at i j xs = xs[i := xs ! j, j := xs ! i]"

definition shuffle_step :: "64 word \<Rightarrow> nat \<Rightarrow> 'a list \<Rightarrow> 'a list" where
  "shuffle_step now_hi i ms =
     (let jmax = length ms - i; j = i + unat (xorshift now_hi i) mod jmax in swap_at i j ms)"

definition shuffle :: "int \<Rightarrow> 'a list \<Rightarrow> 'a list" where
  "shuffle t ms = fold (shuffle_step (push_bit 32 (word_of_int t))) [0..<length ms] ms"

definition update_miner_schedule :: "database \<Rightarrow> database result" where
  "update_miner_schedule db =
     (let active = active_miners (gpo db) in
      if active = [] then Inl undefined_behaviour
      else if head_block_num db mod int (length active) = 0
      then Inr (db\<lparr>miner_schedule := \<lparr>current_shuffled_miners = shuffle (head_block_time db) active\<rparr>\<rparr>)
      else Inr db)"

section \<open>The shuffle is fair\<close>

lemma swap_at_mset: "i < length xs \<Longrightarrow> j < length xs \<Longrightarrow> mset (swap_at i j xs) = mset xs"
  by (simp add: swap_at_def mset_swap)

lemma shuffle_step_mset:
  assumes "i < length ms"
  shows "mset (shuffle_step h i ms) = mset ms"
proof -
  have "unat (xorshift h i) mod (length ms - i) < length ms - i" using assms by (intro mod_less_divisor) simp
  then have "i + unat (xorshift h i) mod (length ms - i) < length ms" using assms by linarith
  with assms show ?thesis by (simp add: shuffle_step_def Let_def swap_at_mset)
qed

lemma shuffle_mset: "mset (shuffle t ms) = mset ms"
proof -
  have "mset (fold (shuffle_step h) is ms) = mset ms" if "\<forall>i \<in> set is. i < length ms" for h "is"
    using that
  proof (induction "is" arbitrary: ms)
    case (Cons i js)
    have m: "mset (shuffle_step h i ms) = mset ms" using Cons.prems by (intro shuffle_step_mset) simp
    then have "length (shuffle_step h i ms) = length ms" by (rule mset_eq_length)
    with Cons.IH [of "shuffle_step h i ms"] Cons.prems m show ?case by simp
  qed simp
  then show ?thesis by (simp add: shuffle_def)
qed

lemma mset_rotate: "mset (rotate n xs) = mset xs"
proof (induction n)
  case (Suc n)
  have "mset (rotate1 ys) = mset ys" for ys :: "'a list" by (cases ys) simp_all
  with Suc show ?case by simp
qed simp

lemma round_is_rotation:
  assumes "ms \<noteq> []"
  shows "map (\<lambda>i. ms ! ((a + i) mod length ms)) [0..<length ms] = rotate a ms"
  using assms by (intro nth_equalityI) (simp_all add: nth_rotate)

text \<open>
  C18: Every active miner has a slot in every round. Once a schedule has been drawn from the active miners,
  any as many consecutive slots as there are active miners are scheduled to exactly the
  active miners, each as often as it is listed, whatever the shuffle drew.
\<close>

theorem every_miner_scheduled:
  assumes u: "update_miner_schedule db = Inr db'" and z: "head_block_num db mod int (length (active_miners (gpo db))) = 0"
    and d: "current_aslot (dpo db'') = int a" "a + k + length (active_miners (gpo db)) \<le> 2 ^ 64"
      "miner_schedule db'' = miner_schedule db'"
  shows "\<exists>ms. fold_res (\<lambda>i acc. rbind (get_scheduled_miner (int i) db'') (\<lambda>m. Inr (acc @ [m])))
      [k..<k + length (active_miners (gpo db))] [] = Inr ms \<and> mset ms = mset (active_miners (gpo db))"
proof -
  let ?A = "active_miners (gpo db)" and ?s = "shuffle (head_block_time db) (active_miners (gpo db))"
  have ne: "?A \<noteq> []" and s: "current_shuffled_miners (miner_schedule db'') = ?s"
    using u z d(3) by (auto simp: update_miner_schedule_def Let_def split: if_splits)
  have len: "length ?s = length ?A" by (rule mset_eq_length [OF shuffle_mset])
  have sne: "?s \<noteq> []" using ne len by force
  have g: "get_scheduled_miner (int i) db'' = Inr (?s ! ((a + i) mod length ?s))" if "i < k + length ?A" for i
  proof -
    have "a + i < 2 ^ 64" using that d(2) by linarith
    then have "int (a + i) < 2 ^ 64" by (simp add: numeral_power_eq_of_nat_cancel_iff)
    then have "u64 (int a + int i) = int (a + i)" by simp
    then show ?thesis using sne by (simp add: get_scheduled_miner_def Let_def s d(1) nat_mod_distrib nat_add_distrib)
  qed
  have "fold_res (\<lambda>i acc. rbind (get_scheduled_miner (int i) db'') (\<lambda>m. Inr (acc @ [m]))) is acc =
      Inr (acc @ map (\<lambda>i. ?s ! ((a + i) mod length ?s)) is)" if "\<forall>i \<in> set is. i < k + length ?A" for "is" acc
    using that by (induction "is" arbitrary: acc) (simp_all add: g)
  then have "fold_res (\<lambda>i acc. rbind (get_scheduled_miner (int i) db'') (\<lambda>m. Inr (acc @ [m]))) [k..<k + length ?A] [] =
      Inr (map (\<lambda>i. ?s ! ((a + i) mod length ?s)) [k..<k + length ?A])" by simp
  moreover have "map (\<lambda>i. ?s ! ((a + i) mod length ?s)) [k..<k + length ?A] = rotate (a + k) ?s"
    unfolding round_is_rotation [OF sne, symmetric] len
    by (rule nth_equalityI) (simp_all add: add.assoc)
  ultimately show ?thesis by (simp add: mset_rotate shuffle_mset)
qed

definition schedule_db :: "nat list \<Rightarrow> database" where
  "schedule_db ms = empty_db\<lparr>gpo := (gpo empty_db)\<lparr>active_miners := ms\<rparr>,
     dpo := (dpo empty_db)\<lparr>head_block_number := 8, dyn_time := 1000003, current_aslot := 11\<rparr>\<rparr>"

theorem every_miner_scheduled_witness:
  "\<exists>db' ms. update_miner_schedule (schedule_db [3, 4, 6, 9]) = Inr db' \<and>
     fold_res (\<lambda>i acc. rbind (get_scheduled_miner (int i) db') (\<lambda>m. Inr (acc @ [m]))) [1..<5] [] = Inr ms \<and>
     mset ms = {#3, 4, 6, 9#}"
proof -
  let ?db = "schedule_db [3, 4, 6, 9]"
  obtain db' where u: "update_miner_schedule ?db = Inr db'" and a: "current_aslot (dpo db') = int 11"
    by (simp add: update_miner_schedule_def Let_def schedule_db_def head_block_num_def)
  have m: "active_miners (gpo ?db) = [3, 4, 6, 9]" "head_block_num ?db = 8" by (simp_all add: schedule_db_def head_block_num_def)
  have five: "1 + length [3, 4, 6, 9 :: nat] = 5" by simp
  have "8 mod int (length [3, 4, 6, 9 :: nat]) = 0" "11 + 1 + length [3, 4, 6, 9 :: nat] \<le> 2 ^ 64" by simp_all
  from every_miner_scheduled [OF u _ a _ refl, of 1, unfolded m five, OF this] u show ?thesis by auto
qed

section \<open>Slots and times\<close>

text \<open>The parameters and the clock are within the ranges the code keeps them in.\<close>

definition slot_inv :: "database \<Rightarrow> bool" where
  "slot_inv db \<longleftrightarrow> 0 < block_interval (parameters (gpo db)) \<and> block_interval (parameters (gpo db)) < 2 ^ 8 \<and>
     0 \<le> maintenance_skip_slots (parameters (gpo db)) \<and> maintenance_skip_slots (parameters (gpo db)) < 2 ^ 8 \<and>
     0 \<le> dyn_time (dpo db) \<and> dyn_time (dpo db) < 2 ^ 31"

text \<open>Where no 32 bit sum wraps around, slot times are an arithmetic progression.\<close>

lemma slot_times:
  assumes "slot_inv db"
  obtains t0 where "0 \<le> t0" "t0 < 2 ^ 31 + 2 ^ 16"
    "\<And>n. 0 < n \<Longrightarrow> n < 2 ^ 22 \<Longrightarrow> get_slot_time n db = Inr (t0 + n * block_interval (parameters (gpo db)))"
proof -
  define iv where "iv = block_interval (parameters (gpo db))"
  define sk where "sk = (if in_maintenance db then maintenance_skip_slots (parameters (gpo db)) else 0)"
  define base where "base = (if head_block_num db = 0 then dyn_time (dpo db) else head_block_time db div iv * iv + sk * iv)"
  have iv: "0 < iv" "iv < 2 ^ 8" and sk: "0 \<le> sk" "sk < 2 ^ 8" and t: "0 \<le> dyn_time (dpo db)" "dyn_time (dpo db) < 2 ^ 31"
    using assms by (auto simp: slot_inv_def iv_def sk_def)
  have d: "0 \<le> head_block_time db div iv * iv" using iv(1) t(1) by (simp add: head_block_time_def pos_imp_zdiv_nonneg_iff)
  have d': "head_block_time db div iv * iv \<le> head_block_time db"
    using div_mult_mod_eq [of "head_block_time db" iv] pos_mod_sign [OF iv(1), of "head_block_time db"] by linarith
  have "sk * iv \<le> 255 * 255" "0 \<le> sk * iv" using iv sk mult_mono [of sk 255 iv 255] by simp_all
  then have b: "0 \<le> base" "base < 2 ^ 31 + 2 ^ 16" using d d' t by (auto simp: base_def head_block_time_def)
  have "get_slot_time n db = Inr (base + n * iv)" if n: "0 < n" "n < 2 ^ 22" for n
  proof -
    have ni: "0 \<le> n * iv" "n * iv \<le> 2 ^ 22 * 255" using n iv mult_mono [of n "2 ^ 22" iv 255] by simp_all
    have e: "u32 (dyn_time (dpo db) + u32 (n * iv)) = dyn_time (dpo db) + n * iv" using ni t by simp
    have si: "(n + sk) * iv = n * iv + sk * iv" by (simp add: distrib_right)
    have "(if in_maintenance db then u32 (n + maintenance_skip_slots (parameters (gpo db))) else n) = n + sk"
      using n sk by (cases "in_maintenance db") (simp_all add: sk_def)
    moreover have "u32 (u32 (head_block_time db div iv * iv) + u32 ((n + sk) * iv)) = head_block_time db div iv * iv + (n + sk) * iv"
      using ni d d' t \<open>sk * iv \<le> 255 * 255\<close> \<open>0 \<le> sk * iv\<close> unfolding si by (simp add: head_block_time_def)
    ultimately show ?thesis using n iv e si
      by (simp add: get_slot_time_def Let_def iv_def [symmetric] base_def)
  qed
  with b that show ?thesis unfolding iv_def by blast
qed

text \<open>
  C36: Slots and times are inverse. The slot at the time of a slot is that slot, and the slot of any time from the
  first slot on is the last slot that has begun: its time is not after that time, and the next slot's is.
\<close>

theorem slot_time_inverse:
  assumes i: "slot_inv db" and n: "0 < n" "n < 2 ^ 22 - 1"
  shows "\<exists>t. get_slot_time n db = Inr t \<and> get_slot_at_time t db = Inr n \<and>
    (\<exists>t'. get_slot_time (n + 1) db = Inr t' \<and> t < t' \<and> (\<forall>u. t \<le> u \<longrightarrow> u < t' \<longrightarrow> get_slot_at_time u db = Inr n))"
proof -
  define iv where "iv = block_interval (parameters (gpo db))"
  have iv: "0 < iv" using i by (simp add: slot_inv_def iv_def)
  from slot_times [OF i] obtain t0 where t0: "0 \<le> t0" "t0 < 2 ^ 31 + 2 ^ 16"
    "\<And>n. 0 < n \<Longrightarrow> n < 2 ^ 22 \<Longrightarrow> get_slot_time n db = Inr (t0 + n * iv)" unfolding iv_def by metis
  have first: "get_slot_time 1 db = Inr (t0 + iv)" using t0(3) [of 1] by simp
  have at: "get_slot_at_time u db = Inr n" if "t0 + n * iv \<le> u" "u < t0 + (n + 1) * iv" for u
  proof -
    have "u = t0 + iv + ((n - 1) * iv + (u - (t0 + n * iv)))" by (simp add: algebra_simps)
    then have "(u - (t0 + iv)) = (n - 1) * iv + (u - (t0 + n * iv))" by linarith
    moreover have "0 \<le> u - (t0 + n * iv)" "u - (t0 + n * iv) < iv" using that by (simp_all add: algebra_simps)
    ultimately have "(u - (t0 + iv)) div iv = n - 1" by (simp only: div_mult_self3 [OF less_imp_neq [OF iv, symmetric]] div_pos_pos_trivial)
    moreover have "\<not> u < t0 + iv" using that(1) n(1) mult_right_mono [of 1 n iv] iv by linarith
    ultimately show ?thesis using first iv n by (simp add: get_slot_at_time_def iv_def [symmetric])
  qed
  have "get_slot_time n db = Inr (t0 + n * iv)" "get_slot_time (n + 1) db = Inr (t0 + (n + 1) * iv)"
    using n by (auto intro: t0(3))
  moreover have "t0 + n * iv < t0 + (n + 1) * iv" using iv by (simp add: algebra_simps)
  ultimately show ?thesis using at by auto
qed

theorem slot_time_inverse_witness:
  "\<exists>t. get_slot_time 2 (schedule_db [1]) = Inr t \<and> get_slot_at_time t (schedule_db [1]) = Inr 2"
proof -
  have "slot_inv (schedule_db [1])" by (simp add: slot_inv_def schedule_db_def empty_db_def empty_parameters_def)
  from slot_time_inverse [OF this, of 2] show ?thesis by auto
qed

end
