(* ===== verification/Maintenance.thy ===== *)
theory Maintenance
  imports Housekeeping Miner_Schedule "HOL-Library.Product_Lexorder"
begin

text \<open>
  What happens to the chain with every block and at every maintenance interval
  (\<open>db_update.cpp\<close>, \<open>db_maint.cpp\<close>, \<open>vote_count.hpp\<close>): the bookkeeping of the head block, the pay of
  the miner, the last irreversible block, the tally of votes, the election of miners and
  the budget. The votes of an account and the vote id of a miner are instance numbers. The
  \<open>assert\<close> macros are no part of the model: that they hold is a matter of theorems.
\<close>

section \<open>Every block\<close>

definition get_miner :: "nat \<Rightarrow> database \<Rightarrow> miner_object result" where
  "get_miner w db = idx_get (miners db) w"

definition note_missed :: "nat \<Rightarrow> int \<Rightarrow> database \<Rightarrow> database result" where
  "note_missed producer i db =
     rbind (get_scheduled_miner (i + 1) db) (\<lambda>w.
     rbind (get_miner w db) (\<lambda>_.
     if w \<noteq> producer then modify_miner w (\<lambda>m. m\<lparr>total_missed := to_int64 (total_missed m + 1)\<rparr>) db else Inr db))"

definition GRAPHENE_RECENTLY_MISSED_COUNT_INCREMENT :: int where "GRAPHENE_RECENTLY_MISSED_COUNT_INCREMENT = 4"
definition GRAPHENE_RECENTLY_MISSED_COUNT_DECREMENT :: int where "GRAPHENE_RECENTLY_MISSED_COUNT_DECREMENT = 3"
definition GRAPHENE_MAX_UNDO_HISTORY :: int where "GRAPHENE_MAX_UNDO_HISTORY = 10000"

text \<open>\<open>cp\<close> is the number of the last checkpoint, if there is one.\<close>

definition missed_count :: "int option \<Rightarrow> int \<Rightarrow> int \<Rightarrow> int \<Rightarrow> int" where
  "missed_count cp num missed c =
     (if num = 1 then 0
      else if (case cp of None \<Rightarrow> False | Some n \<Rightarrow> n \<ge> num) then 0
      else if missed \<noteq> 0 then u32 (c + u32 (GRAPHENE_RECENTLY_MISSED_COUNT_INCREMENT * missed))
      else if c > GRAPHENE_RECENTLY_MISSED_COUNT_INCREMENT then c - GRAPHENE_RECENTLY_MISSED_COUNT_DECREMENT
      else if c > 0 then c - 1
      else c)"

definition update_global_dynamic_data :: "bool \<Rightarrow> int option \<Rightarrow> int \<Rightarrow> block_id \<Rightarrow> int \<Rightarrow> nat \<Rightarrow> database \<Rightarrow> database result" where
  "update_global_dynamic_data skip_undo cp num bid time producer db =
     rbind (get_slot_at_time time db) (\<lambda>slot.
     let missed = u32 (slot - 1) in
     rbind (fold_res (note_missed producer) (map int [0..<nat missed]) db) (\<lambda>db1.
     let d = dpo db1;
         d' = d\<lparr>recently_missed_count := missed_count cp num missed (recently_missed_count d),
               head_block_number := num, dyn_head_block_id := bid, dyn_time := time, current_miner := producer,
               recent_slots_filled := u128 (u128 (2 * recent_slots_filled d + 1) * 2 ^ nat missed),
               current_aslot := u64 (current_aslot d + u32 (missed + 1))\<rparr>
     in fc_assert (skip_undo \<or> u32 (head_block_number d' - last_irreversible_block_num d') < GRAPHENE_MAX_UNDO_HISTORY)
         (Inr (db1\<lparr>dpo := d'\<rparr>))))"

definition miner_pay_from_fees :: "safe \<Rightarrow> database \<Rightarrow> int result" where
  "miner_pay_from_fees S db =
     (let interval = block_interval (parameters (gpo db));
          time_to_maint = next_maintenance_time (dpo db) - last_budget_time (dpo db)
      in if interval = 0 then Inl undefined_behaviour
      else
        let blocks_in_interval = u32 (u64 (u64 time_to_maint + interval - 1) div interval) in
        rbind (if blocks_in_interval > 0 then S (trunc_div (miner_budget_from_fees (dpo db)) blocks_in_interval) else Inr 0) (\<lambda>p.
          Inr (if p < 0 then 0 else p)))"

definition update_signing_miner :: "safe \<Rightarrow> nat \<Rightarrow> int \<Rightarrow> int \<Rightarrow> database \<Rightarrow> database result" where
  "update_signing_miner S w num time db =
     rbind (get_slot_at_time time db) (\<lambda>slot.
     let new_block_aslot = u64 (current_aslot (dpo db) + slot) in
     rbind (miner_pay_from_fees S db) (\<lambda>fees.
     let reward = get_new_asset_per_block db in
     rbind (S (mined_rewards (dpo db) + reward)) (\<lambda>mined.
     rbind (S (unspent_fee_budget (dpo db) - fees)) (\<lambda>unspent.
     let db1 = db\<lparr>dpo := (dpo db)\<lparr>mined_rewards := mined, unspent_fee_budget := unspent\<rparr>\<rparr> in
     rbind (S (fees + reward)) (\<lambda>pay.
     rbind (deposit_miner_pay S w pay db1) (\<lambda>db2.
     modify_miner w (\<lambda>m. m\<lparr>last_aslot := new_block_aslot, last_confirmed_block_num := num\<rparr>) db2))))))"

definition GRAPHENE_100_PERCENT :: int where "GRAPHENE_100_PERCENT = 10000"
definition GRAPHENE_IRREVERSIBLE_THRESHOLD :: int where "GRAPHENE_IRREVERSIBLE_THRESHOLD = 70 * 100"

definition confirmed_blocks :: "database \<Rightarrow> int list result" where
  "confirmed_blocks db =
     fold_res (\<lambda>w acc. rbind (get_miner w db) (\<lambda>m. Inr (acc @ [last_confirmed_block_num m]))) (active_miners (gpo db)) []"

definition update_last_irreversible_block :: "bool \<Rightarrow> database \<Rightarrow> database result" where
  "update_last_irreversible_block skip_undo db =
     (if skip_undo then Inr (db\<lparr>dpo := (dpo db)\<lparr>last_irreversible_block_num := head_block_num db\<rparr>\<rparr>)
      else
        rbind (confirmed_blocks db) (\<lambda>cs.
        if cs = [] then Inl undefined_behaviour
        else
          let offset = nat ((GRAPHENE_100_PERCENT - GRAPHENE_IRREVERSIBLE_THRESHOLD) * int (length cs) div GRAPHENE_100_PERCENT);
              new_last = sort cs ! offset
          in Inr (if new_last > last_irreversible_block_num (dpo db)
                  then db\<lparr>dpo := (dpo db)\<lparr>last_irreversible_block_num := new_last\<rparr>\<rparr> else db)))"

text \<open>The loop removes from the end of the index by expiration as long as what it finds there has expired.\<close>

fun drop_expired :: "int \<Rightarrow> (nat \<times> transaction_object) list \<Rightarrow> transaction_object index \<Rightarrow> transaction_object index result" where
  "drop_expired t [] ix = Inr ix"
| "drop_expired t (r # rs) ix =
     (if t > trx_expiration (snd r) then rbind (idx_remove ix (fst r)) (\<lambda>ix'. drop_expired t rs ix') else Inr ix)"

definition clear_expired_transactions :: "database \<Rightarrow> database result" where
  "clear_expired_transactions db =
     rbind (drop_expired (head_block_time db) (rev (sort_key (\<lambda>r. trx_expiration (snd r)) (rows (transaction_ids db)))) (transaction_ids db))
       (\<lambda>ix. Inr (db\<lparr>transaction_ids := ix\<rparr>))"

definition update_expired_feeds :: "database \<Rightarrow> database result" where
  "update_expired_feeds db =
     fold_res (\<lambda>r db'. case monitored_asset_opts (snd r) of
         None \<Rightarrow> Inr db'
       | Some m \<Rightarrow>
           if feed_is_expired (head_block_time db') m
           then modify_asset (fst r) (\<lambda>ao. rbind (update_median_feeds (head_block_time db') m)
                  (\<lambda>m'. Inr (ao\<lparr>monitored_asset_opts := Some m'\<rparr>))) db'
           else Inr db') (rows (assets db)) db"

definition update_maintenance_flag :: "bool \<Rightarrow> database \<Rightarrow> database" where
  "update_maintenance_flag f db =
     db\<lparr>dpo := (dpo db)\<lparr>dynamic_flags := (dynamic_flags (dpo db) AND NOT maintenance_flag) OR (if f then maintenance_flag else 0)\<rparr>\<rparr>"

fun drop_permissions :: "int \<Rightarrow> (nat \<times> withdraw_permission_object) list \<Rightarrow> withdraw_permission_object index \<Rightarrow> withdraw_permission_object index result" where
  "drop_permissions t [] ix = Inr ix"
| "drop_permissions t (r # rs) ix =
     (if perm_expiration (snd r) \<le> t then rbind (idx_remove ix (fst r)) (\<lambda>ix'. drop_permissions t rs ix') else Inr ix)"

definition update_withdraw_permissions :: "database \<Rightarrow> database result" where
  "update_withdraw_permissions db =
     rbind (drop_permissions (head_block_time db) (sort_key (\<lambda>r. perm_expiration (snd r)) (rows (permissions db))) (permissions db))
       (\<lambda>ix. Inr (db\<lparr>permissions := ix\<rparr>))"

section \<open>The tally of votes\<close>

record tally =
  vote_tally :: "int list"
  miner_histogram :: "int list"
  total_voting_stake :: int

definition GRAPHENE_PROXY_TO_SELF_ACCOUNT :: nat where "GRAPHENE_PROXY_TO_SELF_ACCOUNT = 3"

definition opinion_account :: "account_object \<Rightarrow> database \<Rightarrow> account_object result" where
  "opinion_account a db =
     (if voting_account (acc_options a) = GRAPHENE_PROXY_TO_SELF_ACCOUNT then Inr a
      else idx_get (accounts db) (voting_account (acc_options a)))"

definition voting_stake :: "nat \<Rightarrow> account_object \<Rightarrow> database \<Rightarrow> int result" where
  "voting_stake i a db =
     rbind (idx_get (account_stats db) (acc_statistics a)) (\<lambda>st.
     rbind (case cashback_vb a of None \<Rightarrow> Inr 0
            | Some v \<Rightarrow> rbind (idx_get (vestings db) v) (\<lambda>vb. Inr (amount (balance vb)))) (\<lambda>cashback.
       Inr (u64 (total_core_in_orders st + cashback + amount (get_balance i 0 db)))))"

definition add_stake :: "int \<Rightarrow> nat \<Rightarrow> int list \<Rightarrow> int list" where
  "add_stake stake offset buf = (if offset < length buf then buf[offset := u64 (buf ! offset + stake)] else buf)"

definition empty_tally :: "database \<Rightarrow> tally" where
  "empty_tally db =
     \<lparr>vote_tally = replicate (next_available_vote_id (gpo db)) 0,
      miner_histogram = replicate (maximum_miner_count (parameters (gpo db)) div 2 + 1) 0,
      total_voting_stake = 0\<rparr>"

definition tally_account :: "database \<Rightarrow> nat \<times> account_object \<Rightarrow> tally \<Rightarrow> tally result" where
  "tally_account db ia t =
     rbind (opinion_account (snd ia) db) (\<lambda>op.
     rbind (voting_stake (fst ia) (snd ia) db) (\<lambda>stake.
     let n = num_miner (acc_options op) in
       Inr (t\<lparr>vote_tally := fold (add_stake stake) (votes (acc_options op)) (vote_tally t),
             miner_histogram := (if n \<le> maximum_miner_count (parameters (gpo db))
               then add_stake stake (min (n div 2) (length (miner_histogram t) - 1)) (miner_histogram t) else miner_histogram t),
             total_voting_stake := u64 (total_voting_stake t + stake)\<rparr>)))"

text \<open>The loop visits the accounts by name; the sums do not depend on the order.\<close>

definition tally_votes :: "database \<Rightarrow> tally result" where
  "tally_votes db = fold_res (tally_account db) (rows (accounts db)) (empty_tally db)"

section \<open>The election of miners\<close>

fun count_loop :: "safe \<Rightarrow> int \<Rightarrow> int list \<Rightarrow> nat \<Rightarrow> int \<Rightarrow> nat result" where
  "count_loop S target [] n acc = Inr n"
| "count_loop S target (h # hs) n acc =
     (if acc \<le> target then rbind (S (acc + to_int64 h)) (\<lambda>acc'. count_loop S target hs (n + 1) acc') else Inr n)"

definition miner_count :: "safe \<Rightarrow> tally \<Rightarrow> nat result" where
  "miner_count S t =
     (let target = to_int64 (u64 (total_voting_stake t - hd (miner_histogram t)) div 2)
      in if target > 0 then count_loop S target (tl (miner_histogram t)) 0 0 else Inr 0)"

definition votes_for :: "int list \<Rightarrow> miner_object \<Rightarrow> int" where
  "votes_for buf m = buf ! vote_id m"

definition rank :: "int list \<Rightarrow> nat \<times> miner_object \<Rightarrow> int \<times> nat" where
  "rank buf r = (- to_int64 (votes_for buf (snd r)), vote_id (snd r))"

definition sort_votable_objects :: "int list \<Rightarrow> nat \<Rightarrow> database \<Rightarrow> (nat \<times> miner_object) list result" where
  "sort_votable_objects buf n db =
     (if rows (miners db) = [] \<or> \<not> list_all (\<lambda>r. vote_id (snd r) < length buf) (rows (miners db)) then Inl undefined_behaviour
      else Inr (take (min n (length (rows (miners db)))) (sort_key (rank buf) (rows (miners db)))))"

record vote_counter =
  vc_total_votes :: int
  vc_bitshift :: "nat option"
  vc_auth :: authority

fun find_msb :: "nat \<Rightarrow> nat" where
  "find_msb n = (if n < 2 then 0 else Suc (find_msb (n div 2)))"

declare find_msb.simps [simp del]

definition vote_counter_init :: vote_counter where
  "vote_counter_init = \<lparr>vc_total_votes = 0, vc_bitshift = None,
     vc_auth = \<lparr>weight_threshold = 0, account_auths = [], key_auths = []\<rparr>\<rparr>"

definition vote_counter_add :: "nat \<Rightarrow> int \<Rightarrow> vote_counter \<Rightarrow> vote_counter" where
  "vote_counter_add who n vc =
     (if n = 0 then vc
      else
        let shift = (case vc_bitshift vc of Some b \<Rightarrow> b | None \<Rightarrow> find_msb (nat n) - 15);
            scaled = max (n div 2 ^ shift) 1
        in vc\<lparr>vc_bitshift := Some shift, vc_total_votes := u64 (vc_total_votes vc + scaled),
             vc_auth := (vc_auth vc)\<lparr>account_auths := map_assign who (u16 scaled) (account_auths (vc_auth vc))\<rparr>\<rparr>)"

definition vote_counter_finish :: "vote_counter \<Rightarrow> authority \<Rightarrow> authority" where
  "vote_counter_finish vc out =
     (if vc_total_votes vc = 0 then out
      else (vc_auth vc)\<lparr>weight_threshold := u32 (u32 (vc_total_votes vc) div 2 + 1)\<rparr>)"

definition miner_authority :: "int list \<Rightarrow> (nat \<times> miner_object) list \<Rightarrow> authority \<Rightarrow> authority" where
  "miner_authority buf wits =
     vote_counter_finish (fold (\<lambda>r. vote_counter_add (miner_account (snd r)) (votes_for buf (snd r))) wits vote_counter_init)"

definition update_active_miners :: "safe \<Rightarrow> tally \<Rightarrow> database \<Rightarrow> database result" where
  "update_active_miners S t db =
     (let buf = vote_tally t in
      rbind (miner_count S t) (\<lambda>n.
      rbind (sort_votable_objects buf (max (2 * n + 1) (min_miner_count (immutable_parameters db))) db) (\<lambda>wits.
      rbind (fold_res (\<lambda>r. modify_miner (fst r) (\<lambda>m. m\<lparr>total_votes := votes_for buf (snd r)\<rparr>)) (rows (miners db)) db) (\<lambda>db1.
      rbind (idx_get (accounts db1) GRAPHENE_MINER_ACCOUNT) (\<lambda>_.
      rbind (modify_account GRAPHENE_MINER_ACCOUNT (\<lambda>a. a\<lparr>acc_active := miner_authority buf wits (acc_active a)\<rparr>) db1) (\<lambda>db2.
        Inr (db2\<lparr>gpo := (gpo db2)\<lparr>active_miners := map fst wits\<rparr>\<rparr>)))))))"

text \<open>\<open>get_actual_votes\<close>: the same tally, shown with the names of the miners, most votes first.\<close>

definition get_actual_votes :: "database \<Rightarrow> (string \<times> int) list result" where
  "get_actual_votes db =
     rbind (fold_res (\<lambda>ia buf.
         rbind (opinion_account (snd ia) db) (\<lambda>op.
         rbind (voting_stake (fst ia) (snd ia) db) (\<lambda>stake. Inr (fold (add_stake stake) (votes (acc_options op)) buf))))
       (rows (accounts db)) (replicate (next_available_vote_id (gpo db)) 0)) (\<lambda>buf.
     rbind (fold_res (\<lambda>r acc.
         if vote_id (snd r) < length buf
         then rbind (idx_get (accounts db) (miner_account (snd r))) (\<lambda>a. Inr (acc @ [(acc_name a, votes_for buf (snd r))]))
         else Inl undefined_behaviour) (rows (miners db)) []) (\<lambda>res.
       Inr (sort_key (\<lambda>r. - snd r) res)))"

section \<open>The budget\<close>

definition core_asset :: "database \<Rightarrow> (asset_object \<times> asset_dynamic_data_object) result" where
  "core_asset db =
     rbind (idx_get (assets db) 0) (\<lambda>ao. rbind (idx_get (dynamic_data db) (dynamic_asset_data_id ao)) (\<lambda>d. Inr (ao, d)))"

definition blocks_to_maintenance :: "database \<Rightarrow> int result" where
  "blocks_to_maintenance db =
     (let interval = block_interval (parameters (gpo db));
          time_to_maint = next_maintenance_time (dpo db) - head_block_time db
      in if interval = 0 then Inl undefined_behaviour
         else Inr (u64 (u64 (u64 time_to_maint + interval - 1) div interval - maintenance_skip_slots (parameters (gpo db)))))"

definition budget_for :: "safe \<Rightarrow> asset_object \<Rightarrow> asset_dynamic_data_object \<Rightarrow> int \<Rightarrow> database \<Rightarrow> budget_record result" where
  "budget_for S ao core mining db =
     (let d = dpo db; t = head_block_time db in
      rbind (S (max_supply (asset_opts ao) - current_supply core)) (\<lambda>reserved.
      rbind (S (asset_pool core + unspent_fee_budget d)) (\<lambda>fees.
      rbind (get_real_supply S db) (\<lambda>real_sup.
      rbind (S (mining + fees)) (\<lambda>planned.
      rbind (S (mined_rewards d + miner_budget_from_fees d)) (\<lambda>x.
      rbind (S (x - unspent_fee_budget d)) (\<lambda>generated.
      rbind (S (generated - asset_pool core)) (\<lambda>delta.
        Inr \<lparr>time_since_last_budget = (if last_budget_time d = 0 \<or> t \<le> last_budget_time d then 0 else u64 (t - last_budget_time d)),
             from_initial_reserve = reserved, from_accumulated_fees = fees, planned_for_mining = planned,
             generated_in_last_interval = generated, supply_delta = delta, rec_real_supply = real_sup,
             rec_next_maintenance_time = next_maintenance_time d, rec_block_interval = block_interval (parameters (gpo db))\<rparr>))))))))"

definition restart_budget :: "budget_record \<Rightarrow> int \<Rightarrow> int \<Rightarrow> database \<Rightarrow> database" where
  "restart_budget r mining t db = db\<lparr>dpo := (dpo db)\<lparr>miner_budget_from_fees := from_accumulated_fees r, miner_budget_from_rewards := mining,
     unspent_fee_budget := from_accumulated_fees r, mined_rewards := 0, last_budget_time := t\<rparr>\<rparr>"

definition restate_supply :: "safe \<Rightarrow> budget_record \<Rightarrow> asset_dynamic_data_object \<Rightarrow> asset_dynamic_data_object result" where
  "restate_supply S r c = rbind (S (current_supply c + supply_delta r)) (\<lambda>s. Inr (c\<lparr>current_supply := s, asset_pool := 0\<rparr>))"

definition process_budget_from :: "safe \<Rightarrow> asset_object \<Rightarrow> asset_dynamic_data_object \<Rightarrow> database \<Rightarrow> database result" where
  "process_budget_from S ao core db =
     rbind (blocks_to_maintenance db) (\<lambda>blocks.
     rbind (get_miner_budget S (u32 blocks) db) (\<lambda>mining.
     rbind (budget_for S ao core mining db) (\<lambda>r.
     rbind (modify_dynamic_data (dynamic_asset_data_id ao) (restate_supply S r) db) (\<lambda>db1.
     create_budget_record \<lparr>budget_time = head_block_time (restart_budget r mining (head_block_time db) db1), budget_rec = r\<rparr>
       (restart_budget r mining (head_block_time db) db1)))))"

definition process_budget :: "safe \<Rightarrow> database \<Rightarrow> database result" where
  "process_budget S db = rbind (core_asset db) (\<lambda>(ao, core). process_budget_from S ao core db)"

section \<open>Maintenance\<close>

definition adopt_parameters :: "database \<Rightarrow> database" where
  "adopt_parameters db =
     (case pending_parameters (gpo db) of
        None \<Rightarrow> db
      | Some p \<Rightarrow> db\<lparr>gpo := (gpo db)\<lparr>parameters := p, pending_parameters := None\<rparr>\<rparr>)"

definition schedule_maintenance :: "int \<Rightarrow> int \<Rightarrow> database \<Rightarrow> database result" where
  "schedule_maintenance num time db =
     (let interval = maintenance_interval (parameters (gpo db)); old = next_maintenance_time (dpo db) in
      rbind (if old \<le> time
             then if interval = 0 then Inl undefined_behaviour
                  else Inr (if num = 1 then u32 ((time div interval + 1) * interval)
                            else next_maintenance num (head_block_time db) old interval)
             else Inr old) (\<lambda>nmt.
        Inr (db\<lparr>dpo := (dpo db)\<lparr>next_maintenance_time := nmt, accounts_registered_this_interval := 0\<rparr>\<rparr>)))"

definition perform_chain_maintenance :: "safe \<Rightarrow> int \<Rightarrow> int \<Rightarrow> database \<Rightarrow> database result" where
  "perform_chain_maintenance S num time db =
     rbind (tally_votes db) (\<lambda>t.
     rbind (update_active_miners S t db) (\<lambda>db1.
     rbind (decent_housekeeping S db1) (\<lambda>db2.
     rbind (schedule_maintenance num time (adopt_parameters db2)) (\<lambda>db3.
     process_budget S db3))))"

end
