(* ===== verification/Election.thy ===== *)
theory Election
  imports Maintenance
begin

text \<open>
  Voting and agreement: what the tally of votes counts, whom the election chooses, that the
  miners' authority needs a majority, and when a block is irreversible.
\<close>

section \<open>The tally\<close>

lemma u64_add: "u64 (u64 x + y) = u64 (x + y)"
  by (simp add: u64_def mod_add_left_eq)

lemma fold_add_stake:
  assumes "v < length buf" "buf ! v = u64 x"
  shows "length (fold (add_stake s) vs buf) = length buf \<and>
    fold (add_stake s) vs buf ! v = u64 (x + int (count_list vs v) * s)"
  using assms
proof (induction vs arbitrary: buf x)
  case (Cons w vs)
  let ?b = "add_stake s w buf"
  have l: "length ?b = length buf" by (simp add: add_stake_def)
  show ?case
  proof (cases "w = v")
    case True
    then have "?b ! v = u64 (x + s)" using Cons.prems by (simp add: add_stake_def u64_add)
    with Cons.IH [of ?b "x + s"] Cons.prems l True show ?thesis by (simp add: algebra_simps)
  next
    case False
    then have "?b ! v = u64 x" using Cons.prems by (simp add: add_stake_def)
    with Cons.IH [of ?b x] Cons.prems l False show ?thesis by simp
  qed
qed simp

text \<open>The stake an account puts behind a vote id: its own stake, once for each time the account whose opinion counts lists the id.\<close>

definition stake_behind :: "database \<Rightarrow> nat \<Rightarrow> nat \<times> account_object \<Rightarrow> int" where
  "stake_behind db v ia =
     (case (opinion_account (snd ia) db, voting_stake (fst ia) (snd ia) db) of
        (Inr op, Inr s) \<Rightarrow> int (count_list (votes (acc_options op)) v) * s
      | _ \<Rightarrow> 0)"

definition own_stake :: "database \<Rightarrow> nat \<times> account_object \<Rightarrow> int" where
  "own_stake db ia = (case voting_stake (fst ia) (snd ia) db of Inr s \<Rightarrow> s | Inl _ \<Rightarrow> 0)"

lemma tally_loop:
  assumes "fold_res (tally_account db) as t = Inr t'" "v < length (vote_tally t)" "vote_tally t ! v = u64 x"
    "total_voting_stake t = u64 y"
  shows "length (vote_tally t') = length (vote_tally t) \<and> vote_tally t' ! v = u64 (x + (\<Sum>ia\<leftarrow>as. stake_behind db v ia)) \<and>
    total_voting_stake t' = u64 (y + (\<Sum>ia\<leftarrow>as. own_stake db ia))"
  using assms
proof (induction as arbitrary: t x y)
  case (Cons ia as)
  from Cons.prems(1) obtain t1 where t1: "tally_account db ia t = Inr t1" and r: "fold_res (tally_account db) as t1 = Inr t'"
    by (auto simp: res_simps)
  from t1 obtain op s where o: "opinion_account (snd ia) db = Inr op" and s: "voting_stake (fst ia) (snd ia) db = Inr s"
    and v: "vote_tally t1 = fold (add_stake s) (votes (acc_options op)) (vote_tally t)"
      "total_voting_stake t1 = u64 (total_voting_stake t + s)"
    by (auto simp: tally_account_def Let_def res_simps)
  note f = fold_add_stake [OF Cons.prems(2,3), of s "votes (acc_options op)"]
  have b: "stake_behind db v ia = int (count_list (votes (acc_options op)) v) * s" "own_stake db ia = s"
    by (simp_all add: stake_behind_def own_stake_def o s)
  have "total_voting_stake t1 = u64 (y + s)" using Cons.prems(4) v(2) by (simp add: u64_add)
  from Cons.IH [OF r _ _ this, of "x + stake_behind db v ia"] f Cons.prems(2) v(1) b show ?case by (simp add: algebra_simps)
qed simp

text \<open>
  C19: The tally is the sum of stakes. For every vote id the tally holds, as a 64 bit sum, the
  stakes of exactly those accounts whose opinion is for it, where the opinion of an account
  that votes through a proxy is the proxy's and the stake stays its own; the total is the sum of all stakes.
\<close>

theorem tally_sums_stakes:
  assumes "tally_votes db = Inr t" "v < next_available_vote_id (gpo db)"
  shows "length (vote_tally t) = next_available_vote_id (gpo db) \<and>
    vote_tally t ! v = u64 (\<Sum>ia\<leftarrow>rows (accounts db). stake_behind db v ia) \<and>
    total_voting_stake t = u64 (\<Sum>ia\<leftarrow>rows (accounts db). own_stake db ia)"
  using tally_loop [of db "rows (accounts db)" "empty_tally db" t v 0 0] assms
  by (simp add: tally_votes_def empty_tally_def)

section \<open>The election\<close>

lemma distinct_map_sort: "distinct (map h (sort_key f xs)) = distinct (map h xs)"
  by (simp add: distinct_map)

lemma take_sort_best:
  assumes "x \<in> set (take n (sort_key f xs))" "y \<in> set xs" "y \<notin> set (take n (sort_key f xs))"
  shows "f x \<le> f y"
proof -
  have "y \<in> set (drop n (sort_key f xs))"
    using assms(2,3) set_append [of "take n (sort_key f xs)" "drop n (sort_key f xs)"] by simp
  moreover have "sorted (map f (take n (sort_key f xs) @ drop n (sort_key f xs)))" by simp
  ultimately show ?thesis using assms(1) unfolding map_append sorted_append by simp
qed

definition distinct_votes :: "database \<Rightarrow> bool" where
  "distinct_votes db \<longleftrightarrow> distinct (map (\<lambda>r. vote_id (snd r)) (rows (miners db)))"

lemma update_active_miners_wits:
  assumes "update_active_miners S t db = Inr db'"
  obtains n wits where "miner_count S t = Inr n"
    "sort_votable_objects (vote_tally t) (max (2 * n + 1) (min_miner_count (immutable_parameters db))) db = Inr wits"
    "active_miners (gpo db') = map fst wits"
  using assms unfolding update_active_miners_def Let_def rbind_eq_Inr by fastforce

text \<open>
  C15: The election chooses the miners with the most votes. The active miners are as many as the
  stake-weighted vote on their number asks for, with the minimum of the chain and as far as
  there are candidates; nobody is elected twice, they are listed by falling votes, and whoever is not elected has
  fewer votes than anyone elected, or as many and a later vote id.
\<close>

theorem election_by_votes:
  assumes u: "update_active_miners S t db = Inr db'" and w: "wf_index (miners db)" "distinct_votes db"
    and b: "list_all (\<lambda>x. 0 \<le> x \<and> x < 2 ^ 63) (vote_tally t)"
  shows "\<exists>n. miner_count S t = Inr n \<and> distinct (active_miners (gpo db')) \<and>
    length (active_miners (gpo db')) = min (max (2 * n + 1) (min_miner_count (immutable_parameters db))) (length (rows (miners db))) \<and>
    (\<forall>i j c m. i \<in> set (active_miners (gpo db')) \<longrightarrow> j \<notin> set (active_miners (gpo db')) \<longrightarrow>
      idx_find (miners db) i = Some c \<longrightarrow> idx_find (miners db) j = Some m \<longrightarrow>
      votes_for (vote_tally t) m < votes_for (vote_tally t) c \<or>
      votes_for (vote_tally t) m = votes_for (vote_tally t) c \<and> vote_id c < vote_id m)"
proof -
  from u obtain n wits where n: "miner_count S t = Inr n"
    and v: "sort_votable_objects (vote_tally t) (max (2 * n + 1) (min_miner_count (immutable_parameters db))) db = Inr wits"
    and a: "active_miners (gpo db') = map fst wits" by (rule update_active_miners_wits)
  let ?k = "max (2 * n + 1) (min_miner_count (immutable_parameters db))" and ?rs = "rows (miners db)"
  have wits: "wits = take (min ?k (length ?rs)) (sort_key (rank (vote_tally t)) ?rs)"
    and ok: "list_all (\<lambda>r. vote_id (snd r) < length (vote_tally t)) ?rs"
    using v by (auto simp: sort_votable_objects_def split: if_splits)
  have df: "distinct (map fst ?rs)" using w(1) by (simp add: wf_index_def sorted_imp_distinct_rows)
  have "distinct (map fst (sort_key (rank (vote_tally t)) ?rs))"
    using df by (simp add: distinct_map_sort)
  then have d: "distinct (map fst wits)" unfolding wits take_map [symmetric] by (rule distinct_take)
  have r: "idx_find (miners db) i = Some x \<longleftrightarrow> (i, x) \<in> set ?rs" for i x
    using df by (simp add: idx_find_def)
  have "votes_for (vote_tally t) m < votes_for (vote_tally t) c \<or>
      votes_for (vote_tally t) m = votes_for (vote_tally t) c \<and> vote_id c < vote_id m"
    if i: "i \<in> set (map fst wits)" and j: "j \<notin> set (map fst wits)"
      and c: "idx_find (miners db) i = Some c" and m: "idx_find (miners db) j = Some m" for i j c m
  proof -
    have sub: "set wits \<subseteq> set ?rs" unfolding wits using set_take_subset by fastforce
    from i obtain c' where "(i, c') \<in> set wits" by auto
    with sub r c have ci: "(i, c) \<in> set wits" by (metis option.inject subsetD)
    have mi: "(j, m) \<in> set ?rs" "(j, m) \<notin> set wits" using j m r by force+
    have le: "rank (vote_tally t) (i, c) \<le> rank (vote_tally t) (j, m)"
      using take_sort_best [OF ci [unfolded wits] mi(1)] mi(2) wits by blast
    have ne: "vote_id c \<noteq> vote_id m"
      using w(2) ci mi(1) sub j i inj_onD [of "\<lambda>r. vote_id (snd r)" "set ?rs" "(i, c)" "(j, m)"]
      by (auto simp: distinct_votes_def distinct_map)
    have id: "to_int64 (votes_for (vote_tally t) x) = votes_for (vote_tally t) x" if "(k, x) \<in> set ?rs" for k x
    proof -
      have "vote_id x < length (vote_tally t)" using that ok by (auto simp: list_all_iff)
      then have "0 \<le> votes_for (vote_tally t) x \<and> votes_for (vote_tally t) x < 2 ^ 63"
        using b by (simp add: votes_for_def list_all_iff)
      then show ?thesis by (intro to_int64_id) (simp add: in_int64_def)
    qed
    from le ne id [OF mi(1)] id [OF subsetD [OF sub ci]] show ?thesis by (auto simp: rank_def)
  qed
  then have "\<forall>i j c m. i \<in> set (active_miners (gpo db')) \<longrightarrow> j \<notin> set (active_miners (gpo db')) \<longrightarrow>
      idx_find (miners db) i = Some c \<longrightarrow> idx_find (miners db) j = Some m \<longrightarrow>
      votes_for (vote_tally t) m < votes_for (vote_tally t) c \<or>
      votes_for (vote_tally t) m = votes_for (vote_tally t) c \<and> vote_id c < vote_id m" unfolding a by blast
  moreover have "length (active_miners (gpo db')) = min ?k (length ?rs)" unfolding a wits by simp
  ultimately show ?thesis using n d unfolding a by blast
qed

section \<open>The authority of the miners\<close>

lemma find_msb_bound: "0 < n \<Longrightarrow> 2 ^ find_msb n \<le> n \<and> n < 2 ^ Suc (find_msb n)"
proof (induction n rule: find_msb.induct)
  case (1 n)
  show ?case
  proof (cases "n < 2")
    case True
    with 1 show ?thesis by (simp add: find_msb.simps [of n])
  next
    case False
    with 1 have "2 ^ find_msb (n div 2) \<le> n div 2" "n div 2 < 2 ^ Suc (find_msb (n div 2))" by simp_all
    then have "2 ^ Suc (find_msb (n div 2)) \<le> n" "n < 2 ^ Suc (Suc (find_msb (n div 2)))" by simp_all
    with False show ?thesis by (simp add: find_msb.simps [of n])
  qed
qed

lemma scaled_fits:
  assumes "0 < m" "m \<le> n" and s: "shift = find_msb (nat n) - 15"
  shows "1 \<le> max (m div 2 ^ shift) (1 :: int)" "max (m div 2 ^ shift) (1 :: int) < 2 ^ 16"
proof -
  have "nat n < 2 ^ Suc (find_msb (nat n))" using find_msb_bound [of "nat n"] assms by simp
  also have "\<dots> \<le> 2 ^ (shift + 16)" using s by (intro power_increasing) simp_all
  finally have "n < 2 ^ (shift + 16)" using assms(1,2) by (simp add: nat_less_iff)
  then have "m < 2 ^ (shift + 16)" using assms(2) by linarith
  then have "m < 2 ^ 16 * 2 ^ shift" by (simp add: power_add mult.commute)
  moreover have "m div 2 ^ shift * 2 ^ shift \<le> m"
  proof -
    have "0 \<le> m mod 2 ^ shift" by simp
    with div_mult_mod_eq [of m "2 ^ shift"] show ?thesis by linarith
  qed
  ultimately have "m div 2 ^ shift * 2 ^ shift < 2 ^ 16 * 2 ^ shift" by linarith
  then have "m div 2 ^ shift < 2 ^ 16" by (rule mult_right_less_imp_less) simp
  then show "1 \<le> max (m div 2 ^ shift) (1 :: int)" "max (m div 2 ^ shift) (1 :: int) < 2 ^ 16" by simp_all
qed

definition weights :: "authority \<Rightarrow> int" where
  "weights a = (\<Sum>kw\<leftarrow>account_auths a. snd kw)"

text \<open>The state of the counter after miners with falling votes, the first with \<open>mx\<close>.\<close>

definition counter_inv :: "int \<Rightarrow> nat set \<Rightarrow> nat \<Rightarrow> vote_counter \<Rightarrow> bool" where
  "counter_inv mx seen n vc \<longleftrightarrow>
     vc_total_votes vc = weights (vc_auth vc) \<and> 0 \<le> vc_total_votes vc \<and> vc_total_votes vc \<le> int n * 65535 \<and>
     list_all (\<lambda>kw. 1 \<le> snd kw \<and> snd kw < 2 ^ 16) (account_auths (vc_auth vc)) \<and>
     fst ` set (account_auths (vc_auth vc)) \<subseteq> seen \<and>
     (vc_bitshift vc = None \<and> account_auths (vc_auth vc) = [] \<or> vc_bitshift vc = Some (find_msb (nat mx) - 15) \<and> vc_total_votes vc > 0)"

lemma ins_row_sum: "sum_list (map snd (ins_row k (w :: int) m)) = w + sum_list (map snd m)"
  by (induction m) auto

lemma counter_add:
  assumes c: "counter_inv mx seen n vc" and k: "k \<notin> seen" and v: "0 \<le> v" "v \<le> mx" and n: "n < 65535"
    and f: "vc_bitshift vc = None \<Longrightarrow> v \<noteq> 0 \<Longrightarrow> v = mx"
  shows "counter_inv mx (insert k seen) (Suc n) (vote_counter_add k v vc)"
    and "0 < v \<Longrightarrow> vc_bitshift (vote_counter_add k v vc) \<noteq> None"
proof -
  show "counter_inv mx (insert k seen) (Suc n) (vote_counter_add k v vc)"
  proof (cases "v = 0")
    case True
    with c show ?thesis by (auto simp: counter_inv_def vote_counter_add_def)
  next
    case False
    define shift where "shift = find_msb (nat mx) - 15"
    define w where "w = max (v div 2 ^ shift) 1"
    have w: "1 \<le> w" "w < 2 ^ 16" using scaled_fits [OF _ v(2) shift_def] v False by (simp_all add: w_def)
    have sh: "(case vc_bitshift vc of Some b \<Rightarrow> b | None \<Rightarrow> find_msb (nat v) - 15) = shift"
      using c f False by (auto simp: counter_inv_def shift_def)
    have new: "map_of (account_auths (vc_auth vc)) k = None"
      using c k by (auto simp: counter_inv_def map_of_eq_None_iff)
    have tot: "vc_total_votes vc + w < 2 ^ 64" "0 \<le> vc_total_votes vc + w" "vc_total_votes vc + w \<le> int (Suc n) * 65535"
      using c w n by (simp_all add: counter_inv_def)
    have "vote_counter_add k v vc = vc\<lparr>vc_bitshift := Some shift, vc_total_votes := vc_total_votes vc + w,
        vc_auth := (vc_auth vc)\<lparr>account_auths := ins_row k w (account_auths (vc_auth vc))\<rparr>\<rparr>"
      using False tot w new by (simp add: vote_counter_add_def Let_def sh w_def [symmetric] map_assign_def u16_def)
    with c w tot show ?thesis
      by (auto simp: counter_inv_def weights_def ins_row_sum list_all_iff shift_def)
  qed
  show "vc_bitshift (vote_counter_add k v vc) \<noteq> None" if "0 < v"
    using that by (simp add: vote_counter_add_def Let_def)
qed

lemma counter_fold:
  assumes "counter_inv mx seen n vc" "sorted_wrt (\<ge>) (map g ws)" "list_all (\<lambda>r. 0 \<le> g r \<and> g r \<le> mx) ws"
    "distinct (map h ws)" "h ` set ws \<inter> seen = {}" "n + length ws \<le> 65535"
    "vc_bitshift vc = None \<Longrightarrow> ws \<noteq> [] \<Longrightarrow> g (hd ws) = mx"
  shows "counter_inv mx (seen \<union> h ` set ws) (n + length ws) (fold (\<lambda>r. vote_counter_add (h r) (g r)) ws vc)"
  using assms
proof (induction ws arbitrary: seen n vc)
  case (Cons r rs)
  have a: "counter_inv mx (insert (h r) seen) (Suc n) (vote_counter_add (h r) (g r) vc)"
    using Cons.prems by (intro counter_add(1)) auto
  have "rs \<noteq> [] \<Longrightarrow> g (hd rs) = mx" if b: "vc_bitshift (vote_counter_add (h r) (g r) vc) = None"
  proof -
    assume ne: "rs \<noteq> []"
    have "g r = 0" using b counter_add(2) [of mx seen n vc "h r" "g r"] Cons.prems by (cases "g r = 0") auto
    then have vn: "vc_bitshift vc = None" using b by (simp add: vote_counter_add_def)
    then have "mx = 0" using Cons.prems(7) \<open>g r = 0\<close> by simp
    then show "g (hd rs) = mx" using Cons.prems(3) ne by (cases rs) auto
  qed
  with Cons.IH [OF a] Cons.prems have
    "counter_inv mx (insert (h r) seen \<union> h ` set rs) (Suc n + length rs) (fold (\<lambda>r. vote_counter_add (h r) (g r)) rs (vote_counter_add (h r) (g r) vc))"
    by auto
  then show ?case by simp
qed simp

lemma vote_counter_started: "0 < v \<Longrightarrow> vc_bitshift (vote_counter_add k v vc) \<noteq> None"
  by (simp add: vote_counter_add_def Let_def)

lemma counter_started: "vc_bitshift vc \<noteq> None \<Longrightarrow> vc_bitshift (fold (\<lambda>r. vote_counter_add (h r) (g r)) ws vc) \<noteq> None"
  by (induction ws arbitrary: vc) (auto simp: vote_counter_add_def Let_def)

lemma counter_finish:
  assumes "counter_inv mx seen n vc" "vc_bitshift vc \<noteq> None" "n \<le> 65535"
  shows "list_all (\<lambda>kw. 1 \<le> snd kw \<and> snd kw \<le> 65535) (account_auths (vote_counter_finish vc out)) \<and>
    weight_threshold (vote_counter_finish vc out) \<le> weights (vote_counter_finish vc out) \<and>
    weights (vote_counter_finish vc out) < 2 * weight_threshold (vote_counter_finish vc out) \<and>
    2 * weight_threshold (vote_counter_finish vc out) \<le> weights (vote_counter_finish vc out) + 2"
proof -
  from assms have t: "0 < vc_total_votes vc" "vc_total_votes vc < 2 ^ 32" "weights (vc_auth vc) = vc_total_votes vc"
    "list_all (\<lambda>kw. 1 \<le> snd kw \<and> snd kw < 2 ^ 16) (account_auths (vc_auth vc))"
    by (auto simp: counter_inv_def)
  then have "u32 (u32 (vc_total_votes vc) div 2 + 1) = vc_total_votes vc div 2 + 1" by simp
  with t show ?thesis by (auto simp: vote_counter_finish_def weights_def list_all_iff)
qed

text \<open>
  C33: The miners act by majority. The authority of the miner account that an election installs
  gives every elected miner with votes a weight between 1 and 65535, and its threshold is the
  smallest that more than half of the weights reach: two disjoint groups of miners never both pass it, and all together do.
\<close>

theorem miners_need_majority:
  assumes s: "sort_votable_objects buf n db = Inr wits" and b: "list_all (\<lambda>x. 0 \<le> x \<and> x < 2 ^ 63) buf"
    and d: "distinct (map (\<lambda>r. miner_account (snd r)) (rows (miners db)))" and n: "n \<le> 65535"
    and v: "\<exists>r \<in> set wits. votes_for buf (snd r) \<noteq> 0"
  shows "let a = miner_authority buf wits out in
    list_all (\<lambda>kw. 1 \<le> snd kw \<and> snd kw \<le> 65535) (account_auths a) \<and>
    weight_threshold a \<le> weights a \<and> weights a < 2 * weight_threshold a \<and> 2 * weight_threshold a \<le> weights a + 2"
proof -
  let ?g = "\<lambda>r. votes_for buf (snd r)" and ?h = "\<lambda>r. miner_account (snd r)" and ?rs = "rows (miners db)"
  have wits: "wits = take (min n (length ?rs)) (sort_key (rank buf) ?rs)"
    and ok: "list_all (\<lambda>r. vote_id (snd r) < length buf) ?rs" using s by (auto simp: sort_votable_objects_def split: if_splits)
  have sub: "set wits \<subseteq> set ?rs" unfolding wits using set_take_subset by fastforce
  have g: "0 \<le> ?g r \<and> ?g r < 2 ^ 63" if "r \<in> set wits" for r
    using that sub ok b by (auto simp: votes_for_def list_all_iff)
  have i64: "to_int64 (?g r) = ?g r" if "r \<in> set wits" for r
    using g [OF that] by (intro to_int64_id) (simp add: in_int64_def)
  have "sorted (map (rank buf) wits)" unfolding wits take_map [symmetric] by (rule sorted_wrt_take) simp
  then have srt: "sorted_wrt (\<ge>) (map ?g wits)"
    unfolding sorted_map sorted_wrt_map by (rule sorted_wrt_mono_rel [rotated]) (auto simp: rank_def i64)
  obtain r0 where r0: "r0 \<in> set wits" "?g r0 \<noteq> 0" using v by blast
  then have ne: "wits \<noteq> []" by auto
  define mx where "mx = ?g (hd wits)"
  have le: "?g r \<le> mx" if "r \<in> set wits" for r
    using srt [unfolded sorted_wrt_map] that ne unfolding mx_def by (cases wits) auto
  have "distinct (map ?h (sort_key (rank buf) ?rs))" using d by (simp add: distinct_map_sort)
  then have dh: "distinct (map ?h wits)" unfolding wits take_map [symmetric] by (rule distinct_take)
  let ?vc = "fold (\<lambda>r. vote_counter_add (?h r) (?g r)) wits vote_counter_init"
  have c: "counter_inv mx ({} \<union> ?h ` set wits) (0 + length wits) ?vc"
    by (rule counter_fold) (use srt g le dh n mx_def wits in \<open>auto simp: counter_inv_def vote_counter_init_def weights_def list_all_iff\<close>)
  have "0 < mx" using le [OF r0(1)] g [OF r0(1)] r0(2) by linarith
  then have "vc_bitshift ?vc \<noteq> None" using ne unfolding mx_def
    by (cases wits) (simp, simp only: list.sel fold_simps, rule counter_started, rule vote_counter_started)
  from counter_finish [OF c this, of out] n show ?thesis unfolding Let_def miner_authority_def wits by simp
qed

section \<open>Irreversible blocks\<close>

lemma fold_res_collect:
  assumes "fold_res (\<lambda>w acc. rbind (f w) (\<lambda>m. Inr (acc @ [g m]))) ws acc = Inr cs"
  shows "\<exists>ms. length ms = length ws \<and> cs = acc @ map g ms \<and> (\<forall>i < length ws. f (ws ! i) = Inr (ms ! i))"
  using assms
proof (induction ws arbitrary: acc)
  case (Cons w ws)
  then obtain m where m: "f w = Inr m" and r: "fold_res (\<lambda>w acc. rbind (f w) (\<lambda>m. Inr (acc @ [g m]))) ws (acc @ [g m]) = Inr cs"
    by (auto simp: res_simps)
  from Cons.IH [OF r] obtain ms where ms: "length ms = length ws" "cs = acc @ [g m] @ map g ms" "\<forall>i < length ws. f (ws ! i) = Inr (ms ! i)"
    by auto
  have "\<forall>i < length (w # ws). f ((w # ws) ! i) = Inr ((m # ms) ! i)"
    using m ms(3) by (auto simp: less_Suc_eq_0_disj)
  with ms(1,2) show ?case by (intro exI [of _ "m # ms"]) simp
qed simp

lemma sorted_count_ge:
  assumes "k < length (xs :: int list)"
  shows "length xs - k \<le> length (filter (\<lambda>x. sort xs ! k \<le> x) xs)"
proof -
  have "\<forall>x \<in> set (drop k (sort xs)). sort xs ! k \<le> x"
    using assms by (auto simp: in_set_conv_nth intro!: sorted_nth_mono)
  then have "length (filter (\<lambda>x. sort xs ! k \<le> x) (drop k (sort xs))) = length xs - k" by simp
  moreover have "length (filter P (drop k ys)) \<le> length (filter P ys)" for P and ys :: "int list"
    by (metis append_take_drop_id filter_append length_append le_add2)
  moreover have "length (filter P (sort xs)) = length (filter P xs)" for P
    by (metis mset_filter mset_sort size_mset)
  ultimately show ?thesis by metis
qed

lemma irreversible_quorum:
  assumes u: "update_last_irreversible_block False db = Inr db'"
  shows "last_irreversible_block_num (dpo db) \<le> last_irreversible_block_num (dpo db') \<and>
    (last_irreversible_block_num (dpo db') \<noteq> last_irreversible_block_num (dpo db) \<longrightarrow>
      7 * length (active_miners (gpo db)) \<le> 10 * length (filter (\<lambda>w. \<exists>m. idx_find (miners db) w = Some m \<and>
        last_irreversible_block_num (dpo db') \<le> last_confirmed_block_num m) (active_miners (gpo db))))"
proof -
  let ?A = "active_miners (gpo db)"
  from u obtain cs where cs: "confirmed_blocks db = Inr cs" "cs \<noteq> []"
    and d: "db' = (let new_last = sort cs ! nat (3000 * int (length cs) div 10000) in
       if new_last > last_irreversible_block_num (dpo db) then db\<lparr>dpo := (dpo db)\<lparr>last_irreversible_block_num := new_last\<rparr>\<rparr> else db)"
    by (auto simp: update_last_irreversible_block_def Let_def res_simps GRAPHENE_100_PERCENT_def GRAPHENE_IRREVERSIBLE_THRESHOLD_def split: if_splits)
  define k where "k = nat (3000 * int (length cs) div 10000)"
  have k: "k < length cs" "10 * k \<le> 3 * length cs" using cs(2) by (cases cs; simp add: k_def; linarith)+
  from fold_res_collect [OF cs(1) [unfolded confirmed_blocks_def]] obtain ms where ms: "length ms = length ?A"
    "cs = map last_confirmed_block_num ms" "\<forall>i < length ?A. get_miner (?A ! i) db = Inr (ms ! i)" by auto
  have f: "idx_find (miners db) (?A ! i) = Some (ms ! i)" if "i < length ?A" for i
    using ms(3) that by (auto simp: get_miner_def idx_get_def get_or_throw_def split: option.splits)
  have "length (filter (\<lambda>c. n \<le> c) cs) = length (filter (\<lambda>w. \<exists>m. idx_find (miners db) w = Some m \<and> n \<le> last_confirmed_block_num m) ?A)" for n
    unfolding length_filter_conv_card using ms(1,2) f by (intro arg_cong [where f = card]) auto
  with sorted_count_ge [OF k(1)] have c: "length cs - k \<le>
    length (filter (\<lambda>w. \<exists>m. idx_find (miners db) w = Some m \<and> sort cs ! k \<le> last_confirmed_block_num m) ?A)" by simp
  show ?thesis
  proof (cases "sort cs ! k > last_irreversible_block_num (dpo db)")
    case True
    then have "last_irreversible_block_num (dpo db') = sort cs ! k" using d [folded k_def] by simp
    with True c k ms(1,2) show ?thesis by simp
  next
    case False
    then show ?thesis using d [folded k_def] by simp
  qed
qed

text \<open>
  C16: What makes a block irreversible. While the undo history is checked, the last irreversible block never goes back, and when it
  advances at least 70 percent of the active miners have produced a block at or above it. A node that skips that check, as one that
  produces on a stale chain does, takes its head for irreversible instead, whoever has confirmed it. Nothing else changes in either case.
\<close>

theorem irreversible_confirmed:
  assumes u: "update_last_irreversible_block skip db = Inr db'"
  shows "db' = db\<lparr>dpo := (dpo db)\<lparr>last_irreversible_block_num := last_irreversible_block_num (dpo db')\<rparr>\<rparr> \<and>
    (if skip then last_irreversible_block_num (dpo db') = head_block_num db
     else last_irreversible_block_num (dpo db) \<le> last_irreversible_block_num (dpo db') \<and>
      (last_irreversible_block_num (dpo db') \<noteq> last_irreversible_block_num (dpo db) \<longrightarrow>
        7 * length (active_miners (gpo db)) \<le> 10 * length (filter (\<lambda>w. \<exists>m. idx_find (miners db) w = Some m \<and>
          last_irreversible_block_num (dpo db') \<le> last_confirmed_block_num m) (active_miners (gpo db)))))"
proof (cases skip)
  case True
  with u have "db' = db\<lparr>dpo := (dpo db)\<lparr>last_irreversible_block_num := head_block_num db\<rparr>\<rparr>"
    by (simp add: update_last_irreversible_block_def)
  with True show ?thesis by simp
next
  case False
  with u have "update_last_irreversible_block False db = Inr db'" by simp
  then have "db' = db\<lparr>dpo := (dpo db)\<lparr>last_irreversible_block_num := last_irreversible_block_num (dpo db')\<rparr>\<rparr>"
    by (auto simp: update_last_irreversible_block_def Let_def res_simps split: if_splits)
  with False irreversible_quorum [OF \<open>update_last_irreversible_block False db = Inr db'\<close>] show ?thesis by simp
qed

section \<open>An election\<close>

text \<open>Alice votes for the miner with vote id 1, and Bob votes through Alice; three miners stand.\<close>

definition voter :: "string \<Rightarrow> nat \<Rightarrow> nat \<Rightarrow> nat list \<Rightarrow> account_object" where
  "voter n st proxy vs = \<lparr>registrar = 0, acc_name = n, acc_owner = \<lparr>weight_threshold = 1, account_auths = [], key_auths = []\<rparr>,
     acc_active = \<lparr>weight_threshold = 1, account_auths = [], key_auths = []\<rparr>,
     acc_options = \<lparr>memo_key = 0, voting_account = proxy, num_miner = 3, votes = vs, allow_subscription = False,
       price_per_subscribe = mk_asset 0 0, subscription_period = 0\<rparr>,
     rights_to_publish = \<lparr>is_publishing_manager = False, publishing_rights_received = {}, publishing_rights_forwarded = []\<rparr>,
     acc_statistics = st, cashback_vb = None, top_n_control_flags = 0\<rparr>"

definition candidate :: "nat \<Rightarrow> nat \<Rightarrow> int \<Rightarrow> miner_object" where
  "candidate a v n = \<lparr>miner_account = a, last_aslot = 0, signing_key = 0, pay_vb = None, vote_id = v, total_votes = 0,
     url = [], total_missed = 0, last_confirmed_block_num = n\<rparr>"

definition election_example :: database where
  "election_example = empty_db\<lparr>
     accounts := \<lparr>next_id = 6, rows = [(0, voter ''miners'' 0 3 []), (4, voter ''alice'' 1 3 [1]), (5, voter ''bob'' 2 4 [2])]\<rparr>,
     account_stats := \<lparr>next_id = 3, rows = [(0, \<lparr>stat_owner = 0, total_core_in_orders = 0\<rparr>), (1, \<lparr>stat_owner = 4, total_core_in_orders = 0\<rparr>),
       (2, \<lparr>stat_owner = 5, total_core_in_orders = 0\<rparr>)]\<rparr>,
     balances := \<lparr>next_id = 2, rows = [(0, \<lparr>bal_owner = 4, asset_type = 0, bal_amount = 100\<rparr>), (1, \<lparr>bal_owner = 5, asset_type = 0, bal_amount = 50\<rparr>)]\<rparr>,
     miners := \<lparr>next_id = 3, rows = [(0, candidate 7 0 5), (1, candidate 8 1 9), (2, candidate 9 2 7)]\<rparr>,
     immutable_parameters := \<lparr>min_miner_count = 2, num_special_accounts = 0, num_special_assets = 0\<rparr>,
     gpo := (gpo empty_db)\<lparr>next_available_vote_id := 3, active_miners := [0, 1, 2]\<rparr>\<rparr>"

definition tally_example :: tally where
  "tally_example = \<lparr>vote_tally = [0, 150, 0], miner_histogram = 0 # 150 # replicate 499 0, total_voting_stake = 150\<rparr>"

lemma election_example_tally: "tally_votes election_example = Inr tally_example"
  by code_simp

lemma election_example_wits:
  "sort_votable_objects [0, 150, 0] 2 election_example = Inr [(1, candidate 8 1 9), (0, candidate 7 0 5)]"
  by code_simp

theorem tally_sums_stakes_witness:
  "u64 (\<Sum>ia\<leftarrow>rows (accounts election_example). stake_behind election_example 1 ia) = 150"
proof -
  have "1 < next_available_vote_id (gpo election_example)" by (simp add: election_example_def)
  from tally_sums_stakes [OF election_example_tally this] show ?thesis by (simp add: tally_example_def)
qed

theorem election_by_votes_witness:
  "\<exists>db'. update_active_miners safe_int64 tally_example election_example = Inr db' \<and> length (active_miners (gpo db')) = 3"
proof -
  have "succeeds (update_active_miners safe_int64 tally_example election_example)" by code_simp
  then obtain db' where u: "update_active_miners safe_int64 tally_example election_example = Inr db'" unfolding succeeds_iff ..
  have n: "miner_count safe_int64 tally_example = Inr 1" by code_simp
  have "wf_index (miners election_example)" "distinct_votes election_example"
    "list_all (\<lambda>x. 0 \<le> x \<and> x < 2 ^ 63) (vote_tally tally_example)"
    by (simp_all add: wf_index_def distinct_votes_def election_example_def tally_example_def candidate_def)
  from election_by_votes [OF u this] u n show ?thesis by (auto simp: election_example_def)
qed

theorem miners_need_majority_witness:
  "let a = miner_authority [0, 150, 0] [(1, candidate 8 1 9), (0, candidate 7 0 5)] (acc_active (voter ''miners'' 0 3 []))
   in weights a < 2 * weight_threshold a \<and> weight_threshold a \<le> weights a"
proof -
  have "list_all (\<lambda>x. 0 \<le> x \<and> x < 2 ^ 63) [0, 150, 0 :: int]"
    "distinct (map (\<lambda>r. miner_account (snd r)) (rows (miners election_example)))"
    "\<exists>r \<in> set [(1 :: nat, candidate 8 1 9), (0, candidate 7 0 5)]. votes_for [0, 150, 0] (snd r) \<noteq> 0"
    by (simp_all add: election_example_def candidate_def votes_for_def)
  from miners_need_majority [OF election_example_wits this(1,2) _ this(3)] show ?thesis by (simp add: Let_def)
qed

theorem irreversible_confirmed_witness:
  "(\<exists>db'. update_last_irreversible_block False election_example = Inr db' \<and> 0 \<le> last_irreversible_block_num (dpo db')) \<and>
   (\<exists>db'. update_last_irreversible_block True election_example = Inr db' \<and> last_irreversible_block_num (dpo db') = head_block_num election_example)"
proof (rule conjI)
  have "succeeds (update_last_irreversible_block False election_example)" by code_simp
  then obtain db' where u: "update_last_irreversible_block False election_example = Inr db'" unfolding succeeds_iff ..
  from irreversible_confirmed [OF u] u show "\<exists>db'. update_last_irreversible_block False election_example = Inr db' \<and> 0 \<le> last_irreversible_block_num (dpo db')"
    by (auto simp: election_example_def empty_db_def)
next
  have "succeeds (update_last_irreversible_block True election_example)" by code_simp
  then obtain db' where u: "update_last_irreversible_block True election_example = Inr db'" unfolding succeeds_iff ..
  from irreversible_confirmed [OF u] u
  show "\<exists>db'. update_last_irreversible_block True election_example = Inr db' \<and> last_irreversible_block_num (dpo db') = head_block_num election_example" by auto
qed

end
