(* ===== verification/Housekeeping_Books.thy ===== *)
theory Housekeeping_Books
  imports Housekeeping
begin

text \<open>
  What the periodic work does to the books, the bounds of the seeders' ratings and the
  schedule of block rewards.
\<close>

section \<open>Expiration\<close>

lemma expire_stats_money: "expire_stats c x db = Inr db' \<Longrightarrow> money db' = money db"
  by (auto simp: expire_stats_def res_simps split: if_splits dest: modify_stats_money)

lemma content_expire_good:
  assumes S: "safe_exact S" and g: "good U db" and e: "content_expire S cid db = Inr db'"
  shows "good U db' \<and> (\<forall>a. holdings a db' = holdings a db)"
proof -
  let ?f = "\<lambda>co. Inr (co\<lparr>publishing_fee_escrow := (publishing_fee_escrow co)\<lparr>amount := 0\<rparr>\<rparr>) :: content_object result"
  from e obtain c db1 db2 db3 w x where c: "idx_find (contents db) cid = Some c"
    and a: "adjust_balance S x (publishing_fee_escrow c) db = Inr db1" and m: "modify_content cid ?f db1 = Inr db2"
    and f: "fold_res (expire_stats c) (map fst (key_parts c)) db2 = Inr db3" and d: "db' = push_applied_operation w db3"
    by (auto simp: content_expire_def Let_def res_simps)
  note h1 = adjust_balance_good [OF S g a]
  have c1: "idx_find (contents db1) cid = Some c" using c h1(3) by simp
  have "priced_in U (map_price c') \<and> (\<forall>a. held a (publishing_fee_escrow c') = held a (publishing_fee_escrow c) + (- held a (publishing_fee_escrow c)))"
    if "?f c = Inr c'" for c'
    using that goodD(3) [OF h1(1) c1] by auto
  note h2 = modify_content_good [OF h1(1) m c1 this]
  note h3 = money_good [OF h2(1) fold_res_money [OF f expire_stats_money]]
  from push_good [OF h3(1)] h3(2) h2(2) h1(2) d show ?thesis by simp
qed

lemma expire_if_open_good:
  assumes "safe_exact S" "good U db" "expire_if_open S bid db = Inr db'"
  shows "good U db' \<and> (\<forall>a. holdings a db' = holdings a db)"
  using assms buying_expire_good [OF assms(1,2)] by (auto simp: expire_if_open_def res_simps split: if_splits)

lemma fold_good:
  assumes "good U db" "fold_res f xs db = Inr db'"
    and "\<And>x s s'. good U s \<Longrightarrow> f x s = Inr s' \<Longrightarrow> good U s' \<and> (\<forall>a. holdings a s' = holdings a s)"
  shows "good U db'" "\<forall>a. holdings a db' = holdings a db"
proof -
  have "good U db' \<and> (\<forall>a. holdings a db' = holdings a db)"
    by (rule fold_res_invariant [OF assms(2), where P = "\<lambda>s. good U s \<and> (\<forall>a. holdings a s = holdings a db)"])
      (use assms(1,3) in auto)
  then show "good U db'" "\<forall>a. holdings a db' = holdings a db" by simp_all
qed

lemma rate_seeder_steps:
  assumes "rate_seeder sr db = Inr db'"
  obtains f g db1 where "modify_seeder (fst sr) f db = Inr db1" "modify_stats (stats (snd sr)) g db1 = Inr db'"
  using assms unfolding rate_seeder_def Let_def rbind_eq_Inr by blast

lemma rate_seeder_money:
  assumes "rate_seeder sr db = Inr db'"
  shows "money db' = money db"
  by (rule rate_seeder_steps [OF assms]) (simp add: modify_seeder_money modify_stats_money)

section \<open>Renewals\<close>

lemma adjust_balance_no_assert:
  assumes S: "safe_exact S" "safe_total S" "safe_overflow S" and s: "solvent db"
    and d: "0 \<le> amount d" "in_int64 (amount d)" and e: "adjust_balance S x d db = Inl e"
  shows "e = overflow_exception"
proof (cases "find_balance x (asset_id d) (balances db)")
  case None
  then have "ledger_of db x (asset_id d) = 0" by (simp add: ledger_of_def get_balance_def mk_asset_def)
  with adjust_balance_total [OF S(2) s d(2), of x] d e show ?thesis by (auto simp: in_int64_def)
next
  case (Some ib)
  obtain i b where ib: "ib = (i, b)" by (cases ib)
  have l: "ledger_of db x (asset_id d) = bal_amount b"
    using Some ib by (simp add: ledger_of_def get_balance_def balance_asset_def mk_asset_def)
  have f: "idx_find (balances db) i = Some b" using find_balance_Some [of "balances db" x "asset_id d" i b] Some ib s
    by (simp add: solvent_def)
  show ?thesis
  proof (cases "in_int64 (bal_amount b + amount d)")
    case True
    with adjust_balance_total [OF S(2) s d(2), of x] l d e solventD [OF s f] show ?thesis by (auto simp: in_int64_def)
  next
    case False
    then have "S (bal_amount b + amount d) = Inl overflow_exception"
      using S(1,3) by (cases "S (bal_amount b + amount d)") (auto simp: safe_exact_def safe_overflow_def)
    with Some ib e d f False show ?thesis
      by (auto simp: adjust_balance_def modify_balance_def object_adjust_balance_def idx_update_def res_simps split: if_splits)
  qed
qed

lemma subscription_detail_money: "subscription_detail f t p fee d db = Inr db' \<Longrightarrow> money db' = money db"
  unfolding subscription_detail_def by (rule create_detail_money)

lemma step_frames:
  "modify_subscription i f db = Inr db' \<Longrightarrow> accounts db' = accounts db"
  "subscription_detail x y p fee d db = Inr db' \<Longrightarrow> accounts db' = accounts db"
  by (auto simp: modify_subscription_def subscription_detail_def create_detail_def res_simps)

lemma adjust_balance_accounts:
  assumes "safe_exact S" "good U db" "adjust_balance S x d db = Inr db'"
  shows "accounts db' = accounts db"
proof -
  have "solvent db" using assms(2) by (simp add: good_def books_def)
  from adjust_balance_Inr(1) [OF assms(1) this assms(3)] show ?thesis by auto
qed

lemma renew_subscription_good:
  assumes S: "safe_exact S" "safe_total S" "safe_overflow S" and g: "good U db"
    and p: "0 \<le> amount p" "in_int64 (amount p)"
    and r: "renew_subscription S sid s days p db = (db', x)" "x = None \<or> x = Some assert_exception"
  shows "good U db' \<and> (\<forall>a. holdings a db' = holdings a db) \<and> accounts db' = accounts db"
proof -
  let ?m = "modify_subscription sid (\<lambda>so. so\<lparr>sub_expiration := u32 (sub_expiration so + u32 (days * 24 * 3600))\<rparr>) db"
  show ?thesis
  proof (cases ?m)
    case (Inl e)
    with r g show ?thesis by (simp add: renew_subscription_def)
  next
    case m1: (Inr db1)
    note h1 = money_good [OF g modify_subscription_money [OF m1]]
    show ?thesis
    proof (cases "subscription_detail (sub_from s) (sub_to s) p (mk_asset 0 0) days db1")
      case (Inl e)
      with r m1 h1 step_frames(1) [OF m1] show ?thesis by (simp add: renew_subscription_def)
    next
      case m2: (Inr db2)
      note h2 = money_good [OF h1(1) subscription_detail_money [OF m2]]
      have ac: "accounts db2 = accounts db" using step_frames(1) [OF m1] step_frames(2) [OF m2] by simp
      show ?thesis
      proof (cases "rbind (asset_neg S p) (\<lambda>n. adjust_balance S (sub_from s) n db2)")
        case (Inl e)
        with r m1 m2 h1 h2 ac show ?thesis by (simp add: renew_subscription_def)
      next
        case m3: (Inr db3)
        then obtain n where n: "asset_neg S p = Inr n" "adjust_balance S (sub_from s) n db2 = Inr db3" by (auto simp: res_simps)
        note h3 = adjust_balance_good [OF S(1) h2(1) n(2)]
        have "solvent db3" using h3(1) by (simp add: good_def books_def)
        note no = adjust_balance_no_assert [OF S this p]
        show ?thesis
        proof (cases "adjust_balance S (sub_to s) p db3")
          case (Inl e)
          with no [OF Inl] r m1 m2 m3 show ?thesis by (auto simp: renew_subscription_def)
        next
          case m4: (Inr db4)
          note h4 = adjust_balance_good [OF S(1) h3(1) m4]
          have db': "db' = push_applied_operation (Renewal_of_subscription (sub_from s) sid) db4"
            using r m1 m2 m3 m4 by (simp add: renew_subscription_def)
          have "accounts db' = accounts db"
            using db' ac adjust_balance_accounts [OF S(1) h2(1) n(2)] adjust_balance_accounts [OF S(1) h3(1) m4]
            by (simp add: push_applied_operation_def)
          with db' push_good [OF h4(1)] h4(2) h3(2) h2(2) h1(2) asset_neg_held [OF S(1) n(1)] show ?thesis by simp
        qed
      qed
    qed
  qed
qed

text \<open>The prices of subscriptions are amounts, which \<open>account_options::validate\<close> does not ensure when subscriptions are not allowed.\<close>

definition prices_nonneg :: "database \<Rightarrow> bool" where
  "prices_nonneg db \<longleftrightarrow> (\<forall>i a. idx_find (accounts db) i = Some a \<longrightarrow>
     0 \<le> amount (price_per_subscribe (acc_options a)) \<and> in_int64 (amount (price_per_subscribe (acc_options a))))"

lemma to_int64_small: "0 \<le> x \<Longrightarrow> x \<le> GRAPHENE_MAX_SHARE_SUPPLY \<Longrightarrow> to_int64 x = x \<and> in_int64 x"
  using to_int64_id [of x] by (simp add: in_int64_def GRAPHENE_MAX_SHARE_SUPPLY_def)

lemma asset_times_price_range:
  assumes "asset_times_price a p = Inr b"
  shows "0 \<le> amount b" "in_int64 (amount b)"
proof -
  have s: "0 \<le> amount b \<and> in_int64 (amount b)" if t: "scale_amount x n d i = Inr b" for x n d i
  proof -
    from t obtain y where y: "y \<le> GRAPHENE_MAX_SHARE_SUPPLY" "b = mk_asset (to_int64 y) i" "0 \<le> y"
      by (auto simp: scale_amount_def Let_def res_simps pos_imp_zdiv_nonneg_iff)
    with to_int64_small [OF y(3,1)] show ?thesis by (simp add: mk_asset_def)
  qed
  show "0 \<le> amount b" "in_int64 (amount b)"
    using assms s by (auto simp: asset_times_price_def res_simps split: if_splits)
qed

lemma subscription_price_range:
  assumes "subscription_price p db = Inr q" "0 \<le> amount p" "in_int64 (amount p)"
  shows "0 \<le> amount q \<and> in_int64 (amount q)"
  using assms asset_times_price_range
  by (auto simp: subscription_price_def Let_def res_simps split: option.splits)

lemma disallow_renewal_good:
  assumes "good U db" "disallow_renewal sid s db = Inr db'"
  shows "good U db' \<and> (\<forall>a. holdings a db' = holdings a db) \<and> accounts db' = accounts db"
proof -
  from assms(2) obtain f db1 w where m: "modify_subscription sid f db = Inr db1" and d: "db' = push_applied_operation w db1"
    by (auto simp: disallow_renewal_def res_simps)
  note h = money_good [OF assms(1) modify_subscription_money [OF m]]
  from push_good [OF h(1)] h(2) d step_frames(1) [OF m] show ?thesis by (simp add: push_applied_operation_def)
qed

lemma renew_one_good:
  assumes S: "safe_exact S" "safe_total S" "safe_overflow S" and g: "good U db"
    and p: "0 \<le> amount (price_per_subscribe (acc_options auth))" "in_int64 (amount (price_per_subscribe (acc_options auth)))"
    and r: "renew_one S sid s auth db = Inr (b, db')"
  shows "good U db' \<and> (\<forall>a. holdings a db' = holdings a db) \<and> accounts db' = accounts db"
proof -
  have dis: ?thesis if "rbind (disallow_renewal sid s x) (\<lambda>y. Inr (True, y)) = Inr (b, db')"
    "good U x \<and> (\<forall>a. holdings a x = holdings a db) \<and> accounts x = accounts db" for x
    using that disallow_renewal_good [of U x sid s db'] by (auto simp: res_simps)
  let ?t = "rbind (subscription_price (price_per_subscribe (acc_options auth)) db) (\<lambda>p.
           rbind (asset_le p (get_balance (sub_from s) (asset_id p) db)) (\<lambda>le. Inr (p, le)))"
  show ?thesis
  proof (cases ?t)
    case (Inl e)
    with r dis [of db] g show ?thesis by (auto simp: renew_one_def Let_def split: if_splits)
  next
    case (Inr pl)
    obtain q le where pl: "pl = (q, le)" by (cases pl)
    have q: "0 \<le> amount q" "in_int64 (amount q)" using Inr pl subscription_price_range [OF _ p] by (auto simp: res_simps)
    obtain x e where re: "renew_subscription S sid s (subscription_period (acc_options auth)) q db = (x, e)" by fastforce
    have h: "e = None \<or> e = Some assert_exception \<Longrightarrow> good U x \<and> (\<forall>a. holdings a x = holdings a db) \<and> accounts x = accounts db"
      by (rule renew_subscription_good [OF S g q re])
    show ?thesis
    proof (cases le)
      case False
      with r Inr pl dis [of db] g show ?thesis by (auto simp: renew_one_def Let_def)
    next
      case True
      show ?thesis
      proof (cases e)
        case None
        with True r Inr pl re h show ?thesis by (auto simp: renew_one_def Let_def)
      next
        case (Some f)
        with True r Inr pl re h dis [of x] show ?thesis by (auto simp: renew_one_def Let_def split: if_splits)
      qed
    qed
  qed
qed

lemma renew_loop_good:
  assumes S: "safe_exact S" "safe_total S" "safe_overflow S"
  shows "good U db \<Longrightarrow> prices_nonneg db \<Longrightarrow> renew_loop S t sids db = Inr db' \<Longrightarrow> good U db' \<and> (\<forall>a. holdings a db' = holdings a db)"
proof (induction sids arbitrary: db)
  case (Cons sid sids)
  from Cons.prems(3) obtain s where s: "idx_find (subscriptions db) sid = Some s" by (auto simp: res_simps)
  show ?case
  proof (cases "sub_expiration s \<le> t")
    case True
    with Cons.prems(3) s obtain auth b db1 where a: "idx_find (accounts db) (sub_to s) = Some auth"
      and o: "renew_one S sid s auth db = Inr (b, db1)" and r: "(if b then Inr db1 else renew_loop S t sids db1) = Inr db'"
      by (auto simp: res_simps)
    have "0 \<le> amount (price_per_subscribe (acc_options auth))" "in_int64 (amount (price_per_subscribe (acc_options auth)))"
      using Cons.prems(2) a by (auto simp: prices_nonneg_def)
    note h = renew_one_good [OF S Cons.prems(1) this o]
    have "prices_nonneg db1" using h Cons.prems(2) by (simp add: prices_nonneg_def)
    with Cons.IH [of db1] h r show ?thesis by (cases b) auto
  next
    case False
    with Cons s show ?thesis by simp
  qed
qed simp

lemma modify_stats_accounts:
  "modify_stats i f db = Inr db' \<Longrightarrow> accounts db' = accounts db"
  "modify_seeder i g db = Inr db' \<Longrightarrow> accounts db' = accounts db"
  "modify_content i h db = Inr db' \<Longrightarrow> accounts db' = accounts db"
  "modify_buying i k db = Inr db' \<Longrightarrow> accounts db' = accounts db"
  by (auto simp: modify_stats_def modify_seeder_def modify_content_def modify_buying_def res_simps)

section \<open>The whole of the housekeeping\<close>

text \<open>None of the phases before the renewals touches an account.\<close>

lemma phase_accounts:
  "rate_seeder sr db = Inr db' \<Longrightarrow> accounts db' = accounts db"
  "expire_stats c x db = Inr db' \<Longrightarrow> accounts db' = accounts db"
  by (erule rate_seeder_steps, simp add: modify_stats_accounts)
    (auto simp: expire_stats_def res_simps split: if_splits dest: modify_stats_accounts(1))

lemma fold_res_accounts:
  assumes "fold_res f xs db = Inr db'" "\<And>x s s'. f x s = Inr s' \<Longrightarrow> accounts s' = accounts s"
  shows "accounts db' = accounts db"
  by (rule fold_res_invariant [OF assms(1), where P = "\<lambda>s. accounts s = accounts db"]) (use assms(2) in auto)

lemma expire_accounts:
  assumes "safe_exact S" "good U db"
  shows "content_expire S cid db = Inr db' \<Longrightarrow> accounts db' = accounts db"
    "expire_if_open S bid db = Inr db' \<Longrightarrow> accounts db' = accounts db"
proof -
  note adj = adjust_balance_accounts [OF assms]
  show "accounts db' = accounts db" if e: "content_expire S cid db = Inr db'"
  proof -
    from e obtain c x d f db1 db2 db3 w where a: "adjust_balance S x d db = Inr db1" and m: "modify_content cid f db1 = Inr db2"
      and f: "fold_res (expire_stats c) (map fst (key_parts c)) db2 = Inr db3" and d: "db' = push_applied_operation w db3"
      unfolding content_expire_def Let_def rbind_eq_Inr by blast
    show ?thesis
      using adj [OF a] modify_stats_accounts(3) [OF m] fold_res_accounts [OF f phase_accounts(2)] d
      by (simp add: push_applied_operation_def)
  qed
  show "accounts db' = accounts db" if e: "expire_if_open S bid db = Inr db'"
  proof -
    from e obtain b where "db' = db \<or> buying_expire S bid db = Inr db'"
      by (auto simp: expire_if_open_def res_simps split: if_splits)
    then show ?thesis using adj
      by (auto simp: buying_expire_def res_simps push_applied_operation_def dest: modify_stats_accounts(4))
  qed
qed

lemma fold_good_accounts:
  assumes g: "good U db" and f: "fold_res f xs db = Inr db'"
    and s: "\<And>x s s'. good U s \<Longrightarrow> f x s = Inr s' \<Longrightarrow> good U s' \<and> (\<forall>a. holdings a s' = holdings a s)"
      "\<And>x s s'. good U s \<Longrightarrow> f x s = Inr s' \<Longrightarrow> accounts s' = accounts s"
  shows "good U db'" "\<forall>a. holdings a db' = holdings a db" "accounts db' = accounts db"
proof -
  have "good U db' \<and> (\<forall>a. holdings a db' = holdings a db) \<and> accounts db' = accounts db"
    by (rule fold_res_invariant [OF f, where P = "\<lambda>s. good U s \<and> (\<forall>a. holdings a s = holdings a db) \<and> accounts s = accounts db"])
      (use g s in auto)
  then show "good U db'" "\<forall>a. holdings a db' = holdings a db" "accounts db' = accounts db" by simp_all
qed

lemma housekeeping_good:
  assumes S: "safe_exact S" "safe_total S" "safe_overflow S" and g: "good U db" and p: "prices_nonneg db"
    and h: "decent_housekeeping S db = Inr db'"
  shows "good U db' \<and> (\<forall>a. holdings a db' = holdings a db)"
proof -
  from h obtain db1 db2 db3 xs ys t zs where 1: "fold_res rate_seeder (rows (seeders db)) db = Inr db1"
    and 2: "fold_res (content_expire S) xs db1 = Inr db2" and 3: "fold_res (expire_if_open S) ys db2 = Inr db3"
    and 4: "renew_loop S t zs db3 = Inr db'"
    by (auto simp: decent_housekeeping_def set_and_reset_seeding_stats_def Let_def res_simps split: if_splits)
  have m: "money db1 = money db" by (rule fold_res_money [OF 1 rate_seeder_money])
  note h1 = money_good [OF g m] and a1 = fold_res_accounts [OF 1 phase_accounts(1)]
  note h2 = fold_good_accounts [OF h1(1) 2 content_expire_good [OF S(1)] expire_accounts(1) [OF S(1)]]
  note h3 = fold_good_accounts [OF h2(1) 3 expire_if_open_good [OF S(1)] expire_accounts(2) [OF S(1)]]
  have "prices_nonneg db3" using p a1 h2(3) h3(3) by (simp add: prices_nonneg_def)
  from renew_loop_good [OF S h3(1) this 4] h1(2) h2(2) h3(2) show ?thesis by simp
qed

text \<open>
  The housekeeping of a maintenance interval moves money and makes none. When the prices
  of subscriptions are not negative, then after seeders are rated, expired content and purchases have their
  escrow returned and subscriptions are renewed, every asset is held to the same amount as before, over all
  balances, escrows, vesting balances and pools, and the books are again in order.
\<close>

theorem housekeeping_conserves:
  assumes S: "safe_exact S" "safe_total S" "safe_overflow S" and g: "good U db" and p: "prices_nonneg db"
    and h: "decent_housekeeping S db = Inr db'"
  shows "good U db' \<and> (\<forall>a. holdings a db' = holdings a db)"
  by (rule housekeeping_good [OF assms])

text \<open>An evening of the market: its content has just expired, and a subscription is to be renewed.\<close>

definition evening_example :: "asset \<Rightarrow> database" where
  "evening_example p = market_example\<lparr>
     accounts := \<lparr>next_id = 9, rows = [(4, account_example),
       (6, account_example\<lparr>acc_name := ''seeder'', acc_options := (acc_options account_example)\<lparr>price_per_subscribe := p\<rparr>\<rparr>)]\<rparr>,
     subscriptions := \<lparr>next_id = 2, rows =
       [(0, \<lparr>sub_from = 5, sub_to = 6, sub_expiration = 500000, automatic_renewal = True\<rparr>),
        (1, \<lparr>sub_from = 4, sub_to = 6, sub_expiration = 500000, automatic_renewal = True\<rparr>)]\<rparr>,
     gpo := (gpo market_example)\<lparr>parameters := (parameters (gpo market_example))\<lparr>block_interval := 5, maintenance_interval := 86400\<rparr>\<rparr>,
     dpo := (dpo market_example)\<lparr>head_block_number := 90000, dyn_time := 500010, last_budget_time := 499000,
       next_maintenance_time := 500010\<rparr>\<rparr>"

lemma evening_runs: "succeeds (decent_housekeeping safe_int64 (evening_example (mk_asset 10 0)))"
  by code_simp

lemma evening_good:
  assumes "0 \<le> p" "in_int64 p"
  shows "good {0} (evening_example (mk_asset p 0))" "prices_nonneg (evening_example (mk_asset p 0))"
proof -
  have "money (evening_example (mk_asset p 0)) = money market_example"
    by (simp add: evening_example_def money_def market_example_def)
  from money_good(1) [OF market_example_good this] show "good {0} (evening_example (mk_asset p 0))" .
  show "prices_nonneg (evening_example (mk_asset p 0))" using assms
    by (auto simp: prices_nonneg_def evening_example_def idx_find_def account_example_def mk_asset_def in_int64_def split: if_splits)
qed

theorem housekeeping_conserves_witness:
  "\<exists>db'. decent_housekeeping safe_int64 (evening_example (mk_asset 10 0)) = Inr db' \<and> good {0} db' \<and>
     holdings 0 db' = holdings 0 (evening_example (mk_asset 10 0))"
proof -
  obtain db' where d: "decent_housekeeping safe_int64 (evening_example (mk_asset 10 0)) = Inr db'"
    using evening_runs unfolding succeeds_iff ..
  have "0 \<le> (10::int)" "in_int64 10" by (simp_all add: in_int64_def)
  from housekeeping_conserves [OF safe_int64_exact safe_int64_total safe_int64_overflow evening_good [OF this] d] d
  show ?thesis by simp
qed

text \<open>
  The condition on the prices of subscriptions is needed. An author who no longer allows subscriptions may
  set a negative price, which \<open>account_options::validate\<close> accepts; the renewal then credits the
  subscriber, fails to debit an author without funds, and keeps the credit, because the caught
  exception undoes nothing. Money is made from nothing.
\<close>

theorem negative_price_mints:
  "(case decent_housekeeping safe_int64 (evening_example (mk_asset (- 10) 0)) of
      Inr db' \<Rightarrow> holdings 0 db' = holdings 0 (evening_example (mk_asset (- 10) 0)) + 10
    | Inl e \<Rightarrow> False)"
  by code_simp

text \<open>
  A subscriber who cannot pay stops the renewals of everyone behind: the second subscription is due and its
  subscriber has the money, yet after the housekeeping it is neither paid, nor extended, nor disallowed.
\<close>

theorem renewals_stop_early:
  "(case decent_housekeeping safe_int64 (evening_example (mk_asset 50 0)) of
      Inr db' \<Rightarrow> get_balance 4 0 db' = mk_asset 100 0 \<and>
        map_option automatic_renewal (idx_find (subscriptions db') 0) = Some False \<and>
        idx_find (subscriptions db') 1 = idx_find (subscriptions (evening_example (mk_asset 50 0))) 1
    | Inl e \<Rightarrow> False)"
  by code_simp

section \<open>Block rewards\<close>

lemma u64_diff: "u64 (a - u64 b) = u64 (a - b)"
  by (simp add: u64_def mod_diff_right_eq)

lemma to_int64_u64: "in_int64 x \<Longrightarrow> to_int64 (u64 x) = x"
  using to_int64_id [of x] by (simp add: to_int64_def u64_def)

lemma sum_two_rewards:
  fixes f :: "int \<Rightarrow> int"
  assumes "\<And>i. 1 \<le> i \<Longrightarrow> i \<le> k \<Longrightarrow> f (n + i) = r" "\<And>i. k < i \<Longrightarrow> i \<le> b \<Longrightarrow> f (n + i) = r'"
    and "0 \<le> k" "k \<le> b"
  shows "(\<Sum>i = 1..b. f (n + i)) = r * k + r' * (b - k)"
proof -
  have "{1..b} = {1..k} \<union> {k+1..b}" using assms(3,4) by auto
  then have "(\<Sum>i = 1..b. f (n + i)) = (\<Sum>i = 1..k. f (n + i)) + (\<Sum>i = k+1..b. f (n + i))"
    by (simp add: sum.union_disjoint)
  also have "(\<Sum>i = 1..k. f (n + i)) = (\<Sum>i = 1..k. r)" using assms(1) by (intro sum.cong) auto
  also have "(\<Sum>i = k+1..b. f (n + i)) = (\<Sum>i = k+1..b. r')" using assms(2) by (intro sum.cong) auto
  finally show ?thesis using assms(3,4) by (simp add: algebra_simps)
qed

lemmas reward_defs = DECENT_SPLIT_0_def DECENT_SPLIT_1_def DECENT_SPLIT_2_def DECENT_SPLIT_3_def DECENT_SPLIT_4_def
  DECENT_BLOCK_REWARD_0_def DECENT_BLOCK_REWARD_1_def DECENT_BLOCK_REWARD_2_def DECENT_BLOCK_REWARD_3_def
  DECENT_BLOCK_REWARD_4_def DECENT_BLOCK_REWARD_5_def
lemmas schedule_defs = get_asset_per_block_by_block_num_def get_next_reward_switch_block_def reward_after_switch_def

text \<open>What \<open>get_miner_budget\<close> assumes of the schedule.\<close>

lemma schedule:
  assumes "0 \<le> n" "0 \<le> b" "b < 31553280" "get_next_reward_switch_block n = s"
  shows "s = 0 \<Longrightarrow> n \<le> i \<Longrightarrow> get_asset_per_block_by_block_num i = 0"
    "s \<noteq> 0 \<Longrightarrow> n \<le> s"
    "s \<noteq> 0 \<Longrightarrow> n \<le> i \<Longrightarrow> i < s \<Longrightarrow> get_asset_per_block_by_block_num i = get_asset_per_block_by_block_num n"
    "s \<noteq> 0 \<Longrightarrow> n + 1 + b \<ge> s \<Longrightarrow> s \<le> i \<Longrightarrow> i \<le> n + b \<Longrightarrow> Some (get_asset_per_block_by_block_num i) = reward_after_switch s"
    "s \<noteq> 0 \<Longrightarrow> n = s \<Longrightarrow> Some (get_asset_per_block_by_block_num n) = reward_after_switch s"
    "s \<noteq> 0 \<Longrightarrow> \<exists>r. reward_after_switch s = Some r \<and> 0 \<le> r \<and> r \<le> 37000000"
  using assms by (auto simp: schedule_defs reward_defs split: if_splits)

lemma rewards_across_switch:
  assumes n: "0 \<le> n" "0 \<le> b" "b < 31553280" "get_next_reward_switch_block n = s" and s0: "s \<noteq> 0"
    and ge: "n + 1 + b \<ge> s" and r: "reward_after_switch s = Some r"
  shows "(\<Sum>i = 1..b. get_asset_per_block_by_block_num (n + i)) =
    get_asset_per_block_by_block_num n * (s - n - 1) + r * (b - (s - n - 1))"
proof (cases "n = s")
  case True
  then have "(\<Sum>i = 1..b. get_asset_per_block_by_block_num (n + i)) = r * b"
    using sum_two_rewards [of 0 get_asset_per_block_by_block_num n 0 b r] schedule(4) [OF n s0] r n(2) by simp
  with True schedule(5) [OF n s0] r show ?thesis by (simp add: algebra_simps)
next
  case False
  show ?thesis
    by (rule sum_two_rewards, rule schedule(3) [OF n s0]) (use False ge schedule(2,4) [OF n s0] r in auto)
qed

lemma reward_range: "0 \<le> get_asset_per_block_by_block_num i" "get_asset_per_block_by_block_num i \<le> 37000000"
  by (simp_all add: schedule_defs reward_defs)

text \<open>
  The budget of the miners is the sum of the rewards of the blocks it is for. For any number of
  blocks below the distance of two switches of the reward, \<open>get_miner_budget\<close> does not fail and returns the sum
  of the rewards of the blocks after the head block, a switch among them, the head block being a switch block
  and a chain past the last switch included.
\<close>

theorem miner_budget_sum:
  assumes S: "safe_total S" and h: "0 \<le> head_block_num db" "head_block_num db < 2 ^ 31" and b: "0 \<le> b" "b < 31553280"
  shows "get_miner_budget S b db = Inr (\<Sum>i = 1..b. get_asset_per_block_by_block_num (head_block_num db + i))"
proof -
  let ?n = "head_block_num db" and ?f = get_asset_per_block_by_block_num
  define s where "s = get_next_reward_switch_block ?n"
  note sch = schedule [OF h(1) b s_def [symmetric]]
  have bnd: "- 37000000 \<le> x * y \<and> x * y \<le> 37000000 * 2 ^ 33" if "0 \<le> x" "x \<le> 37000000" "-1 \<le> y" "y \<le> 2 ^ 33" for x y :: int
  proof (cases "y = - 1")
    case False
    then show ?thesis using that mult_mono [of x 37000000 y "2 ^ 33"] mult_nonneg_nonneg [of x y] by linarith
  qed (use that in simp)
  have u: "u32 (u32 (?n + 1) + b) = ?n + 1 + b" using h b by simp
  show ?thesis
  proof (cases "?n + 1 + b \<ge> s")
    case False
    then have s0: "s \<noteq> 0" using h b by auto
    have "(\<Sum>i = 1..b. ?f (?n + i)) = ?f ?n * b + 0 * (b - b)"
      by (rule sum_two_rewards, rule sch(3) [OF s0]) (use False b in auto)
    moreover have "S (b * ?f ?n) = Inr (b * ?f ?n)"
      using bnd [OF reward_range, of b ?n] b by (intro safe_totalD [OF S]) (simp add: in_int64_def mult.commute [of b])
    ultimately show ?thesis using False u
      by (simp add: get_miner_budget_def Let_def s_def [symmetric] get_new_asset_per_block_def mult.commute [of b])
  next
    case True
    show ?thesis
    proof (cases "s = 0")
      case s0: True
      have z: "S 0 = Inr 0" by (rule safe_totalD [OF S]) (simp add: in_int64_def)
      have "(\<Sum>i = 1..b. ?f (?n + i)) = 0" using sch(1) [OF s0] by (intro sum.neutral) auto
      moreover have "reward_after_switch 0 = None" by (simp add: reward_after_switch_def reward_defs)
      ultimately show ?thesis using True s0 z u sch(1) [OF s0, of ?n] h b
        by (simp add: get_miner_budget_def Let_def s_def get_new_asset_per_block_def)
    next
      case s0: False
      define k where "k = s - ?n - 1"
      from sch(6) [OF s0] obtain r where r: "reward_after_switch s = Some r" "0 \<le> r" "r \<le> 37000000" by blast
      have k: "- 1 \<le> k" "k \<le> b" using True sch(2) [OF s0] by (simp_all add: k_def)
      have eq: "to_int64 (u64 k) = k" "u64 (b - u64 k) = b - k"
        using k b by (simp_all add: to_int64_u64 in_int64_def u64_diff)
      have kb: "b - k \<le> 2 ^ 33" "k \<le> 2 ^ 33" using k b by simp_all
      have rb: "in_int64 (r * (b - k))" "0 \<le> r * (b - k)" "in_int64 (?f ?n * k)" "in_int64 (?f ?n * k + r * (b - k))"
        using bnd [OF r(2,3) _ kb(1)] bnd [OF reward_range k(1) kb(2), of ?n] r k by (simp_all add: in_int64_def)
      note Ss = rb(1,3,4) [THEN safe_totalD [OF S]]
      have e: "(\<Sum>i = 1..b. ?f (?n + i)) = ?f ?n * k + r * (b - k)"
        unfolding k_def by (rule rewards_across_switch [OF h(1) b s_def [symmetric] s0 True r(1)])
      show ?thesis using True u r(1) eq Ss to_int64_u64 [OF rb(1)]
        unfolding e by (simp add: get_miner_budget_def Let_def s_def [symmetric] get_new_asset_per_block_def k_def [symmetric])
    qed
  qed
qed

theorem miner_budget_sum_witness:
  "get_miner_budget safe_int64 3 (evening_example (mk_asset 10 0)\<lparr>dpo := (dpo market_example)\<lparr>head_block_number := 99998\<rparr>\<rparr>) =
     Inr (2 * 37000000)"
proof -
  have "{1..3} = {1, 2, 3 :: int}" by auto
  with miner_budget_sum [OF safe_int64_total, of "evening_example (mk_asset 10 0)\<lparr>dpo := (dpo market_example)\<lparr>head_block_number := 99998\<rparr>\<rparr>" 3]
  show ?thesis by (simp add: head_block_num_def schedule_defs reward_defs)
qed

end
