(* ===== verification/Observers.thy ===== *)
theory Observers
  imports Housekeeping_Books
begin

text \<open>
  What user operations cannot touch. A view of the database that depends neither on the objects
  users work with nor on the pools of assets is the same after every content operation; the
  interpretations are the state of consensus and the counters of the supply.
\<close>

section \<open>The interface\<close>

locale observer =
  fixes view :: "database \<Rightarrow> 'v"
  assumes view_balances: "view (db\<lparr>balances := x1\<rparr>) = view db"
    and view_accounts: "view (db\<lparr>accounts := x2\<rparr>) = view db"
    and view_vestings: "view (db\<lparr>vestings := x3\<rparr>) = view db"
    and view_contents: "view (db\<lparr>contents := x4\<rparr>) = view db"
    and view_buyings: "view (db\<lparr>buyings := x5\<rparr>) = view db"
    and view_seeders: "view (db\<lparr>seeders := x6\<rparr>) = view db"
    and view_seeding_stats: "view (db\<lparr>seeding_stats := x7\<rparr>) = view db"
    and view_subscriptions: "view (db\<lparr>subscriptions := x8\<rparr>) = view db"
    and view_details: "view (db\<lparr>details := x9\<rparr>) = view db"
    and view_applied_ops: "view (db\<lparr>applied_ops := x10\<rparr>) = view db"
    and view_pools: "(\<And>i. map_option current_supply (idx_find x11 i) = map_option current_supply (idx_find (dynamic_data db) i)) \<Longrightarrow>
      view (db\<lparr>dynamic_data := x11\<rparr>) = view db"
begin

lemma primitives:
  "create_balance b db = Inr db' \<Longrightarrow> view db' = view db"
  "modify_balance i f1 db = Inr db' \<Longrightarrow> view db' = view db"
  "modify_account i f2 db = Inr db' \<Longrightarrow> view db' = view db"
  "create_vesting v db = Inr (k, db') \<Longrightarrow> view db' = view db"
  "modify_vesting i f3 db = Inr db' \<Longrightarrow> view db' = view db"
  "create_content c db = Inr (k, db') \<Longrightarrow> view db' = view db"
  "modify_content i f4 db = Inr db' \<Longrightarrow> view db' = view db"
  "create_buying bo db = Inr (k, db') \<Longrightarrow> view db' = view db"
  "modify_buying i f5 db = Inr db' \<Longrightarrow> view db' = view db"
  "create_seeder s db = Inr db' \<Longrightarrow> view db' = view db"
  "modify_seeder i f6 db = Inr db' \<Longrightarrow> view db' = view db"
  "create_stats st db = Inr (k, db') \<Longrightarrow> view db' = view db"
  "modify_stats i f7 db = Inr db' \<Longrightarrow> view db' = view db"
  "create_subscription su db = Inr db' \<Longrightarrow> view db' = view db"
  "modify_subscription i f8 db = Inr db' \<Longrightarrow> view db' = view db"
  "create_detail d db = Inr db' \<Longrightarrow> view db' = view db"
  "modify_detail i f9 db = Inr db' \<Longrightarrow> view db' = view db"
  by (auto simp: create_balance_def modify_balance_def modify_account_def create_vesting_def modify_vesting_def
      create_content_def modify_content_def create_buying_def modify_buying_def create_seeder_def modify_seeder_def
      create_stats_def modify_stats_def create_subscription_def modify_subscription_def create_detail_def modify_detail_def
      res_simps view_balances view_accounts view_vestings view_contents view_buyings view_seeders view_seeding_stats
      view_subscriptions view_details)

lemma pools:
  assumes "modify_dynamic_data i f db = Inr db'" "\<And>d d'. f d = Inr d' \<Longrightarrow> current_supply d' = current_supply d"
  shows "view db' = view db"
proof -
  from assms(1) obtain d d' where d: "idx_find (dynamic_data db) i = Some d" "f d = Inr d'"
    "db' = db\<lparr>dynamic_data := (dynamic_data db)\<lparr>rows := upd_row i d' (rows (dynamic_data db))\<rparr>\<rparr>"
    by (auto simp: modify_dynamic_data_def idx_update_def idx_modify_def res_simps split: if_splits option.splits)
  from d(1) assms(2) [OF d(2)] show ?thesis
    unfolding d(3) by (intro view_pools) (auto simp: idx_find_def map_of_upd_row)
qed

lemma push [simp]: "view (push_applied_operation w db) = view db"
  by (simp add: push_applied_operation_def view_applied_ops)

lemma adjust: "adjust_balance S x d db = Inr db' \<Longrightarrow> view db' = view db"
  by (auto simp: adjust_balance_def res_simps split: if_splits option.splits dest: primitives)

lemmas frames = primitives adjust

lemma loop:
  assumes "fold_res f xs db = Inr db'" "\<And>x s s'. f x s = Inr s' \<Longrightarrow> view s' = view s"
  shows "view db' = view db"
  by (rule fold_res_invariant [OF assms(1), where P = "\<lambda>s. view s = view db"]) (use assms(2) in auto)

lemma conversion: "convert S i a db = Inr (b, db') \<Longrightarrow> view db' = view db"
proof -
  have "add_to_pools S da dc d = Inr d' \<Longrightarrow> current_supply d' = current_supply d" for da dc d d'
    by (auto simp: add_to_pools_def res_simps)
  then show "convert S i a db = Inr (b, db') \<Longrightarrow> view db' = view db"
    by (auto simp: convert_def convert_uia_def res_simps split: if_splits dest!: pools)
qed

lemma payout:
  assumes "content_payout S p c db = Inr db'"
  shows "view db' = view db"
proof -
  have step: "view (snd st') = view (snd st)" if "pay_co_author S p e st = Inr st'" for e st st'
    using that by (cases st) (auto simp: pay_co_author_def Let_def res_simps split: prod.splits if_splits dest: frames)
  have "view (snd st') = view (snd st)" if "fold_res (pay_co_author S p) es st = Inr st'" for es st st'
    by (rule fold_res_invariant [OF that, where P = "\<lambda>s. view (snd s) = view (snd st)"]) (use step in auto)
  then show ?thesis using assms
    by (fastforce simp: content_payout_def res_simps split: if_splits dest: frames)
qed

lemma stats: "bump_stats f x db = Inr db' \<Longrightarrow> view db' = view db"
  by (auto simp: bump_stats_def res_simps dest: frames)

lemma stats_loop: "fold_res (bump_stats f) xs db = Inr db' \<Longrightarrow> view db' = view db"
  by (erule loop) (rule stats)

section \<open>Content operations\<close>

lemma rights: "update_rights f x db = Inr db' \<Longrightarrow> view db' = view db"
  by (auto simp: update_rights_def dest: frames)

lemma publishing_manager: "spm_loop can xs db = Inr db' \<Longrightarrow> view db' = view db"
proof (induction xs arbitrary: db)
  case (Cons x xs)
  have er: "view s' = view s" if "spm_erase e s = Inr s'" for e s s'
    using that by (auto simp: spm_erase_def res_simps dest: rights)
  show ?case using Cons.prems Cons.IH
    by (auto simp: res_simps split: if_splits dest!: rights loop [OF _ er])
qed simp

lemma publishing_right: "spr_do_apply op db = Inr db' \<Longrightarrow> view db' = view db"
proof -
  have "view s' = view s" if "spr_step x p e s = Inr s'" for x p e s s'
    using that by (auto simp: spr_step_def res_simps split: if_splits dest!: rights)
  then show "spr_do_apply op db = Inr db' \<Longrightarrow> view db' = view db"
    by (auto simp: spr_do_apply_def res_simps intro: loop)
qed

lemma submission: "content_submit_do_apply S J D r op db = Inr db' \<Longrightarrow> view db' = view db"
proof -
  have rs: "view s' = view s" if "reserve_space sz cid x s = Inr s'" for sz cid x s s'
    using that by (auto simp: reserve_space_def res_simps dest!: frames)
  have rl: "view s' = view s" if "fold_res (reserve_space sz cid) xs s = Inr s'" for sz cid xs s s'
    using that by (rule loop) (rule rs)
  show "content_submit_do_apply S J D r op db = Inr db' \<Longrightarrow> view db' = view db"
    by (auto simp: content_submit_do_apply_def res_simps split: if_splits dest!: frames rl stats_loop)
qed

lemma purchase: "request_to_buy_do_apply S J b op db = Inr db' \<Longrightarrow> view db' = view db"
  by (auto simp: request_to_buy_do_apply_def exchange_payment_def count_purchase_def Let_def res_simps split: if_splits
      dest!: frames conversion payout stats_loop)

lemma expiry: "buying_expire S bid db = Inr db' \<Longrightarrow> view db' = view db"
  by (auto simp: buying_expire_def res_simps dest!: frames)

lemma delivery: "deliver_keys_do_apply S op db = Inr db' \<Longrightarrow> view db' = view db"
proof -
  have k: "view s' = view s" if "note_key op s = Inr s'" for s s'
    using that by (auto simp: note_key_def res_simps split: if_splits dest!: frames stats)
  have c: "view s' = view s" if "complete_delivery S bid cid s = Inr s'" for bid cid s s'
    using that by (auto simp: complete_delivery_def count_purchase_def res_simps dest!: frames payout)
  show "deliver_keys_do_apply S op db = Inr db' \<Longrightarrow> view db' = view db"
    by (auto simp: deliver_keys_do_apply_def res_simps split: if_splits dest!: k c expiry)
qed

lemma seeding:
  "publish_seeder o1 rc db = Inr db' \<Longrightarrow> view db' = view db"
  "report_stats_do_apply items db = Inr db' \<Longrightarrow> view db' = view db"
  "leave_rating_do_apply J o2 db = Inr db' \<Longrightarrow> view db' = view db"
  "content_cancellation_do_apply u db = Inr db' \<Longrightarrow> view db' = view db"
  apply (auto simp: publish_seeder_def leave_rating_do_apply_def content_cancellation_do_apply_def res_simps
      split: option.splits dest!: frames) [1]
  apply (unfold report_stats_do_apply_def, erule loop, auto dest: stats) [1]
  by (auto simp: leave_rating_do_apply_def content_cancellation_do_apply_def res_simps dest!: frames)

lemma custody: "proof_of_custody_do_apply S op db = Inr db' \<Longrightarrow> view db' = view db"
  by (auto simp: proof_of_custody_do_apply_def Let_def res_simps split: option.splits dest!: frames stats)

lemma operation:
  assumes "run_content S E op db = Inr db'"
  shows "view db' = view db"
proof -
  from assms obtain st fs db1 db2 db3 n x where c: "convert_fee S False fs db = Inr db1" and p: "pay_fee S False fs db1 = Inr db2"
    and a: "content_apply S E op st db2 = Inr db3" and f: "adjust_balance S x n db3 = Inr db'"
    by (auto simp: run_content_def start_evaluate_def content_check_def content_change_def res_simps split: if_splits)
  have "add_to_pools S da dc d = Inr d' \<Longrightarrow> current_supply d' = current_supply d" for da dc d d'
    by (auto simp: add_to_pools_def res_simps)
  then have 1: "view db1 = view db" using c by (auto simp: convert_fee_def res_simps split: if_splits dest!: pools)
  have 2: "view db2 = view db1" using p by (auto simp: pay_fee_def res_simps dest!: pools)
  have 3: "view db3 = view db2" using a
    by (cases op) (auto simp: spm_do_apply_def ready_to_publish_do_apply_def ready_to_publish2_do_apply_def split: evaluator_state.splits
        dest: publishing_manager publishing_right submission purchase delivery seeding custody)
  from 1 2 3 adjust [OF f] show ?thesis by simp
qed

section \<open>Housekeeping\<close>

lemma steps:
  "(\<And>f s s'. f \<in> set fs \<Longrightarrow> f s = Inr s' \<Longrightarrow> view s' = view s) \<Longrightarrow> run_steps fs db = (db', e) \<Longrightarrow> view db' = view db"
proof (induction fs arbitrary: db)
  case (Cons f fs)
  show ?case
  proof (cases "f db")
    case (Inl e)
    with Cons.prems show ?thesis by simp
  next
    case (Inr x)
    have "view db' = view x"
      by (rule Cons.IH) (use Cons.prems Inr in auto)
    with Cons.prems(1) [of f db x] Inr show ?thesis by simp
  qed
qed simp

lemma renewal: "renew_subscription S sid s days p db = (db', e) \<Longrightarrow> view db' = view db"
  unfolding renew_subscription_def
  by (erule steps [rotated]) (auto simp: subscription_detail_def res_simps dest!: frames)

lemma disallowing: "disallow_renewal sid s db = Inr db' \<Longrightarrow> view db' = view db"
  by (auto simp: disallow_renewal_def res_simps dest!: frames)

lemma renewal_round: "renew_one S sid s auth db = Inr (b, db') \<Longrightarrow> view db' = view db"
  by (auto simp: renew_one_def Let_def res_simps split: sum.splits if_splits option.splits prod.splits dest!: disallowing renewal)

lemma renewals: "renew_loop S t sids db = Inr db' \<Longrightarrow> view db' = view db"
  by (induction sids arbitrary: db) (auto simp: res_simps split: if_splits dest!: renewal_round)

lemma content_expiry: "content_expire S cid db = Inr db' \<Longrightarrow> view db' = view db"
proof -
  have "view s' = view s" if "expire_stats c x s = Inr s'" for c x s s'
    using that by (auto simp: expire_stats_def res_simps split: if_splits dest!: frames)
  then have "view s' = view s" if "fold_res (expire_stats c) xs s = Inr s'" for c xs s s'
    using that by (blast intro: loop)
  then show "content_expire S cid db = Inr db' \<Longrightarrow> view db' = view db"
    by (auto simp: content_expire_def Let_def res_simps dest!: frames)
qed

lemma housekeeping: "decent_housekeeping S db = Inr db' \<Longrightarrow> view db' = view db"
proof -
  have r: "view s' = view s" if "rate_seeder sr s = Inr s'" for sr s s'
    using that by (rule rate_seeder_steps) (auto dest!: frames)
  have o: "view s' = view s" if "expire_if_open S bid s = Inr s'" for bid s s'
    using that by (auto simp: expire_if_open_def res_simps split: if_splits dest: expiry)
  assume "decent_housekeeping S db = Inr db'"
  then obtain db1 db2 db3 xs ys t zs where 1: "fold_res rate_seeder (rows (seeders db)) db = Inr db1"
    and 2: "fold_res (content_expire S) xs db1 = Inr db2" and 3: "fold_res (expire_if_open S) ys db2 = Inr db3"
    and 4: "renew_loop S t zs db3 = Inr db'"
    by (auto simp: decent_housekeeping_def set_and_reset_seeding_stats_def Let_def res_simps split: if_splits)
  from loop [OF 1 r] loop [OF 2 content_expiry] loop [OF 3 o] renewals [OF 4] show ?thesis by simp
qed

end

section \<open>Two views\<close>

text \<open>What the agreement on blocks rests on.\<close>

definition consensus_state ::
  "database \<Rightarrow> global_property_object \<times> dynamic_global_property_object \<times> miner_object index \<times> miner_schedule_object \<times>
    immutable_chain_parameters \<times> budget_record_object index \<times> asset_object index" where
  "consensus_state db = (gpo db, dpo db, miners db, miner_schedule db, immutable_parameters db, budget_records db, assets db)"

text \<open>The recorded supplies.\<close>

definition supplies :: "database \<Rightarrow> nat \<Rightarrow> int option" where
  "supplies db i = map_option current_supply (idx_find (dynamic_data db) i)"

interpretation consensus: observer consensus_state
  by unfold_locales (simp_all add: consensus_state_def)

interpretation recorded: observer supplies
  by unfold_locales (simp_all add: supplies_def fun_eq_iff)

end
