(* ===== verification/Supply.thy ===== *)
theory Supply
  imports Maintenance Observers
begin

text \<open>
  The supply of the core asset. The current supply the chain records, with the rewards mined
  and the fees paid out since the last budget, is always exactly what is held; at every
  budget the recorded supply becomes the real one.
\<close>

section \<open>The identity\<close>

definition core_supply :: "database \<Rightarrow> int option" where
  "core_supply db = Option.bind (idx_find (assets db) 0) (\<lambda>ao. supplies db (dynamic_asset_data_id ao))"

definition supply_identity :: "database \<Rightarrow> bool" where
  "supply_identity db \<longleftrightarrow> (\<exists>s. core_supply db = Some s \<and>
     s + mined_rewards (dpo db) + miner_budget_from_fees (dpo db) - unspent_fee_budget (dpo db) = holdings 0 db)"

lemma supply_identity_frame:
  assumes "dpo db' = dpo db" "assets db' = assets db" "supplies db' = supplies db" "holdings 0 db' = holdings 0 db"
  shows "supply_identity db' = supply_identity db"
  using assms by (simp add: supply_identity_def core_supply_def)

section \<open>The pay of a miner\<close>

lemma deposit_held:
  assumes "safe_exact S" "deposit S t x v = Inr v'"
  shows "held a (balance v') = held a (balance v) + held a x"
  using assms(2) by (auto simp: deposit_def Let_def res_simps asset_add_def held_def mk_asset_def dest!: safe_exactD [OF assms(1)])

lemma deposit_lazy_vesting_holdings:
  assumes S: "safe_exact S" and b: "books db" and d: "deposit_lazy_vesting S ovbid amt secs x True db = Inr (r, db')"
  shows "books db'" "holdings a db' = holdings a db + held a (mk_asset amt 0)"
    "\<exists>t. db' = db\<lparr>vestings := t\<rparr>"
proof -
  have make: "books db' \<and> holdings a db' = holdings a db + held a (mk_asset amt 0) \<and> (\<exists>t. db' = db\<lparr>vestings := t\<rparr>)"
    if m: "rbind (new_lazy_vesting amt secs x True (head_block_time db)) (\<lambda>v.
      rbind (create_vesting v db) (\<lambda>(i, db'). Inr (Some i, db'))) = Inr (r, db')"
  proof -
    from m obtain v i where v: "new_lazy_vesting amt secs x True (head_block_time db) = Inr v" "create_vesting v db = Inr (i, db')"
      by (auto simp: res_simps)
    have "balance v = mk_asset amt 0" using v(1) by (auto simp: new_lazy_vesting_def)
    with create_vesting_holdings(1) [OF b v(2)] create_vesting_holdings(2) [OF b v(2), of a] v(2) show ?thesis by (auto simp: create_vesting_def res_simps)
  qed
  have reuse: "books db' \<and> holdings a db' = holdings a db + held a (mk_asset amt 0) \<and> (\<exists>t. db' = db\<lparr>vestings := t\<rparr>)"
    if m: "modify_vesting i (deposit S (head_block_time db) (mk_asset amt 0)) db = Inr db'" for i
    using modify_vesting_holdings [OF b m deposit_held [OF S]] m by (auto simp: modify_vesting_def res_simps)
  have "books db' \<and> holdings a db' = holdings a db + held a (mk_asset amt 0) \<and> (\<exists>t. db' = db\<lparr>vestings := t\<rparr>)"
  proof (cases "amt = 0")
    case True
    with d b show ?thesis by (auto simp: deposit_lazy_vesting_def held_def mk_asset_def intro: exI [of _ "vestings db"])
  next
    case False
    with d make reuse show ?thesis
      by (auto simp: deposit_lazy_vesting_def Let_def res_simps split: option.splits if_splits)
  qed
  then show "books db'" "holdings a db' = holdings a db + held a (mk_asset amt 0)" "\<exists>t. db' = db\<lparr>vestings := t\<rparr>" by simp_all
qed

lemma deposit_miner_pay_holdings:
  assumes S: "safe_exact S" and b: "books db" and d: "deposit_miner_pay S w amt db = Inr db'"
  shows "books db'" "holdings a db' = holdings a db + held a (mk_asset amt 0)"
    "\<exists>t m. db' = db\<lparr>vestings := t, miners := m\<rparr>"
proof -
  have "books db' \<and> holdings a db' = holdings a db + held a (mk_asset amt 0) \<and> (\<exists>t m. db' = db\<lparr>vestings := t, miners := m\<rparr>)"
  proof (cases "amt = 0")
    case True
    with d b have "db' = db\<lparr>vestings := vestings db, miners := miners db\<rparr>" by (simp add: deposit_miner_pay_def)
    with True b show ?thesis by (intro conjI exI) (assumption | simp add: held_def mk_asset_def)+
  next
    case False
    with d obtain o' s x r db1 where l: "deposit_lazy_vesting S o' amt s x True db = Inr (r, db1)"
      and m: "(case r of None \<Rightarrow> Inr db1 | Some i \<Rightarrow> modify_miner w (\<lambda>w. w\<lparr>pay_vb := Some i\<rparr>) db1) = Inr db'"
      by (auto simp: deposit_miner_pay_def res_simps)
    note h = deposit_lazy_vesting_holdings [OF S b l]
    obtain ms where ms: "db' = db1\<lparr>miners := ms\<rparr>"
      using m by (auto simp: modify_miner_def res_simps split: option.splits intro: that [of "miners db1"])
    have mo: "money db' = money db1" by (simp add: ms money_def)
    from h(3) ms have "\<exists>t m. db' = db\<lparr>vestings := t, miners := m\<rparr>" by auto
    with h(1) h(2) [of a] money_books [OF mo] money_holdings [OF mo, of a] show ?thesis by simp
  qed
  then show "books db'" "holdings a db' = holdings a db + held a (mk_asset amt 0)"
    "\<exists>t m. db' = db\<lparr>vestings := t, miners := m\<rparr>" by simp_all
qed

lemma update_signing_miner_supply:
  assumes S: "safe_exact S" and g: "good U db" and i: "supply_identity db" and u: "update_signing_miner S w n t db = Inr db'"
  shows "good U db' \<and> supply_identity db'"
proof -
  from u obtain fees pay mined unspent db1 db2 f where
    m: "S (mined_rewards (dpo db) + get_new_asset_per_block db) = Inr mined"
    "S (unspent_fee_budget (dpo db) - fees) = Inr unspent" "S (fees + get_new_asset_per_block db) = Inr pay"
    and d1: "db1 = db\<lparr>dpo := (dpo db)\<lparr>mined_rewards := mined, unspent_fee_budget := unspent\<rparr>\<rparr>"
    and d2: "deposit_miner_pay S w pay db1 = Inr db2" and d3: "modify_miner w f db2 = Inr db'"
    unfolding update_signing_miner_def Let_def rbind_eq_Inr by blast
  note e = m [THEN safe_exactD [OF S]]
  have mo: "money db1 = money db" by (simp add: d1 money_def)
  have b1: "good U db1" using money_good(1) [OF g mo] .
  then have "books db1" by (simp add: good_def)
  note h = deposit_miner_pay_holdings [OF S this d2]
  from h(3) d3 obtain vs ms where d: "db' = db1\<lparr>vestings := vs, miners := ms\<rparr>" by (auto simp: modify_miner_def res_simps)
  have mo2: "money db' = money db2" using modify_miner_money [OF d3] .
  have "books db'" using h(1) money_books [OF mo2] by simp
  moreover have "market_inv U db'" using b1 market_inv_frame [of db' db1 U] by (simp add: good_def d)
  moreover have "core_supply db' = core_supply db" by (simp add: core_supply_def supplies_def d d1)
  then have "supply_identity db'"
    using i h(2) [of 0] money_holdings [OF mo2, of 0] money_holdings [OF mo, of 0] e
    by (auto simp: supply_identity_def d d1 held_def mk_asset_def)
  ultimately show ?thesis by (simp add: good_def)
qed

section \<open>The budget\<close>

lemma core_asset_Inr:
  "core_asset db = Inr (ao, core) \<longleftrightarrow> idx_find (assets db) 0 = Some ao \<and> idx_find (dynamic_data db) (dynamic_asset_data_id ao) = Some core"
  by (auto simp: core_asset_def idx_get_def get_or_throw_def res_simps split: option.splits)

lemma process_budget_steps:
  assumes "process_budget S db = Inr db'"
  obtains ao core mining r db1 where "core_asset db = Inr (ao, core)" "budget_for S ao core mining db = Inr r"
    "modify_dynamic_data (dynamic_asset_data_id ao) (restate_supply S r) db = Inr db1"
    "create_budget_record \<lparr>budget_time = head_block_time (restart_budget r mining (head_block_time db) db1), budget_rec = r\<rparr>
       (restart_budget r mining (head_block_time db) db1) = Inr db'"
proof -
  from assms obtain ao core where c: "core_asset db = Inr (ao, core)"
    and rest: "process_budget_from S ao core db = Inr db'" by (auto simp: process_budget_def res_simps)
  from rest that [OF c] show ?thesis unfolding process_budget_from_def rbind_eq_Inr by blast
qed

lemma process_budget_supply:
  assumes S: "safe_exact S" and g: "good U db" and i: "supply_identity db" and p: "process_budget S db = Inr db'"
  shows "good U db' \<and> supply_identity db' \<and> core_supply db' = Some (holdings 0 db') \<and> holdings 0 db' = holdings 0 db - pool_of 0 db"
proof -
  from p obtain ao core mining r db1 where c: "core_asset db = Inr (ao, core)" and r: "budget_for S ao core mining db = Inr r"
    and m: "modify_dynamic_data (dynamic_asset_data_id ao) (restate_supply S r) db = Inr db1"
    and b: "create_budget_record \<lparr>budget_time = head_block_time (restart_budget r mining (head_block_time db) db1), budget_rec = r\<rparr>
       (restart_budget r mining (head_block_time db) db1) = Inr db'" by (rule process_budget_steps)
  from c have ao: "idx_find (assets db) 0 = Some ao" and core: "idx_find (dynamic_data db) (dynamic_asset_data_id ao) = Some core"
    by (simp_all add: core_asset_Inr)
  have delta: "supply_delta r = mined_rewards (dpo db) + miner_budget_from_fees (dpo db) - unspent_fee_budget (dpo db) - asset_pool core"
    using r by (auto simp: budget_for_def Let_def res_simps dest!: safe_exactD [OF S])
  let ?f = "\<lambda>c. if c = core then restate_supply S r c else Inl other_exception"
  have m': "modify_dynamic_data (dynamic_asset_data_id ao) ?f db = Inr db1"
    using m core by (simp add: modify_dynamic_data_def idx_update_def)
  have f: "asset_pool d' = asset_pool d + - asset_pool core \<and> core_pool d' = core_pool d + 0" if "?f d = Inr d'" for d d'
    using that by (auto simp: restate_supply_def res_simps split: if_splits)
  have "books db" using g by (simp add: good_def)
  note h = modify_pools_holdings [OF this m' ao f]
  have h1: "books db1" "holdings 0 db1 = holdings 0 db - asset_pool core" using h(1) h(2) [of 0] by simp_all
  have cs: "supplies db1 (dynamic_asset_data_id ao) = Some (current_supply core + supply_delta r)" and "assets db1 = assets db"
    and fr: "dpo db1 = dpo db" "contents db1 = contents db" "buyings db1 = buyings db"
    using m core by (auto simp: modify_dynamic_data_def restate_supply_def idx_update_def idx_modify_def res_simps supplies_def idx_find_def
        map_of_upd_row dest!: safe_exactD [OF S])
  obtain br where d': "db' = (restart_budget r mining (head_block_time db) db1)\<lparr>budget_records := br\<rparr>"
    using b by (auto simp: create_budget_record_def res_simps)
  then have mo': "money db' = money db1" by (simp add: money_def restart_budget_def)
  have "market_inv U db'" using g market_inv_frame [of db' db U] \<open>assets db1 = assets db\<close> fr by (simp add: good_def d' restart_budget_def)
  with h1(1) money_books [OF mo'] have good: "good U db'" by (simp add: good_def)
  have "core_supply db = Some (current_supply core)" using ao core by (simp add: core_supply_def supplies_def)
  with i have "current_supply core + supply_delta r = holdings 0 db'"
    using delta h1(2) money_holdings [OF mo', of 0] by (simp add: supply_identity_def)
  moreover have "core_supply db' = supplies db1 (dynamic_asset_data_id ao)"
    using ao \<open>assets db1 = assets db\<close> by (simp add: core_supply_def supplies_def d' restart_budget_def)
  ultimately have s: "core_supply db' = Some (holdings 0 db')" using cs by simp
  have "pool_of 0 db = asset_pool core" using ao core by (simp add: pool_of_def pool_in_def)
  with good s h1(2) money_holdings [OF mo', of 0] show ?thesis by (simp add: supply_identity_def d' restart_budget_def)
qed

section \<open>The real supply\<close>

lemma add_up_sum:
  assumes "safe_exact S"
  shows "add_up S w xs s = Inr r \<Longrightarrow> r = s + (\<Sum>x\<leftarrow>xs. w x)"
  unfolding add_up_def
proof (induction xs arbitrary: s)
  case (Cons x xs)
  then obtain y where "S (s + w x) = Inr y" "fold_res (\<lambda>x s. S (s + w x)) xs y = Inr r" by (auto simp: res_simps)
  with Cons.IH safe_exactD [OF assms] show ?case by fastforce
qed simp

text \<open>Vesting balances and escrows are in the core asset, and every pool belongs to an asset.\<close>

definition core_only :: "database \<Rightarrow> bool" where
  "core_only db \<longleftrightarrow> list_all (\<lambda>v. asset_id (balance v) = 0) (idx_objects (vestings db)) \<and>
     list_all (\<lambda>c. asset_id (publishing_fee_escrow c) = 0) (idx_objects (contents db)) \<and>
     list_all (\<lambda>b. asset_id (escrow_price b) = 0) (idx_objects (buyings db)) \<and>
     map fst (rows (dynamic_data db)) = map (\<lambda>r. dynamic_asset_data_id (snd r)) (rows (assets db))"

lemma idx_total_objects: "idx_total w t = (\<Sum>x\<leftarrow>idx_objects t. w x)"
  by (simp add: idx_total_def idx_objects_def comp_def)

lemma sum_held:
  assumes "list_all (\<lambda>x. asset_id (f x) = 0) xs"
  shows "(\<Sum>x\<leftarrow>xs. held 0 (f x)) = (\<Sum>x\<leftarrow>xs. amount (f x))"
  using assms by (induction xs) (simp_all add: held_def)

lemma pools_sum:
  assumes S: "safe_exact S" and w: "wf_index (dynamic_data db)"
  shows "fold_res (\<lambda>ao s. rbind (idx_get (dynamic_data db) (dynamic_asset_data_id ao)) (\<lambda>d. S (s + core_pool d))) xs s = Inr r \<Longrightarrow>
    r = s + (\<Sum>ao\<leftarrow>xs. case idx_find (dynamic_data db) (dynamic_asset_data_id ao) of None \<Rightarrow> 0 | Some d \<Rightarrow> core_pool d)"
proof (induction xs arbitrary: s)
  case (Cons ao xs)
  then obtain d y where d: "idx_find (dynamic_data db) (dynamic_asset_data_id ao) = Some d" "S (s + core_pool d) = Inr y"
    and r: "fold_res (\<lambda>ao s. rbind (idx_get (dynamic_data db) (dynamic_asset_data_id ao)) (\<lambda>d. S (s + core_pool d))) xs y = Inr r"
    by (auto simp: res_simps idx_get_def get_or_throw_def split: option.splits)
  from Cons.IH [OF r] d safe_exactD [OF S d(2)] show ?case by simp
qed simp

lemma rows_by_key:
  assumes "wf_index t"
  shows "(\<Sum>k\<leftarrow>map fst (rows t). case idx_find t k of None \<Rightarrow> 0 | Some d \<Rightarrow> w d) = idx_total w t"
proof -
  have "distinct (map fst (rows t))" using assms by (simp add: wf_index_def sorted_imp_distinct_rows)
  then have "map (\<lambda>k. case idx_find t k of None \<Rightarrow> 0 | Some d \<Rightarrow> w d) (map fst (rows t)) = map (\<lambda>r. w (snd r)) (rows t)"
    by (auto simp: idx_find_def)
  then show ?thesis unfolding idx_total_def by (rule arg_cong)
qed

lemma create_budget_record_find:
  "create_budget_record b db = Inr db' \<Longrightarrow> idx_find (budget_records db') (next_id (budget_records db)) = Some b"
proof -
  have "map_of rs i = None \<Longrightarrow> map_of (ins_row i x rs) i = Some x" for i :: nat and x :: budget_record_object and rs
    by (induction i x rs rule: ins_row.induct) (auto split: if_splits)
  then show "create_budget_record b db = Inr db' \<Longrightarrow> idx_find (budget_records db') (next_id (budget_records db)) = Some b"
    by (auto simp: create_budget_record_def res_simps idx_create_def idx_find_def Let_def)
qed

lemma real_supply_holdings:
  assumes S: "safe_exact S" and b: "books db" and c: "core_only db" and r: "get_real_supply S db = Inr r"
  shows "account_balances r + vesting_balances r + escrows r + pools r = holdings 0 db - pool_of 0 db"
proof -
  from r obtain ab vb ce es ps where
    1: "add_up S bal_amount (filter (\<lambda>b. asset_type b = 0) (idx_objects (balances db))) 0 = Inr ab"
    and 2: "add_up S (\<lambda>v. amount (balance v)) (idx_objects (vestings db)) 0 = Inr vb"
    and 3: "add_up S (\<lambda>c. amount (publishing_fee_escrow c)) (idx_objects (contents db)) 0 = Inr ce"
    and 4: "add_up S (\<lambda>b. amount (escrow_price b)) (idx_objects (buyings db)) ce = Inr es"
    and 5: "fold_res (\<lambda>ao s. rbind (idx_get (dynamic_data db) (dynamic_asset_data_id ao)) (\<lambda>d. S (s + core_pool d)))
      (idx_objects (assets db)) 0 = Inr ps"
    and rr: "r = \<lparr>account_balances = ab, vesting_balances = vb, escrows = es, pools = ps\<rparr>"
    unfolding get_real_supply_def rbind_eq_Inr by blast
  have wd: "wf_index (dynamic_data db)" using b by (simp add: books_def)
  have "ab = balance_supply 0 db" using add_up_sum [OF S 1]
    by (simp add: balance_supply_def idx_total_objects supply_weight_def sum_list_map_filter')
  moreover have "vb = idx_total (\<lambda>v. held 0 (balance v)) (vestings db)" using add_up_sum [OF S 2] c
    by (simp add: idx_total_objects core_only_def sum_held)
  moreover have "es = idx_total (\<lambda>c. held 0 (publishing_fee_escrow c)) (contents db) + idx_total (\<lambda>b. held 0 (escrow_price b)) (buyings db)"
    using add_up_sum [OF S 3] add_up_sum [OF S 4] c by (simp add: idx_total_objects core_only_def sum_held)
  moreover have "ps = idx_total core_pool (dynamic_data db)"
    using pools_sum [OF S wd 5] c rows_by_key [OF wd, of core_pool] by (simp add: core_only_def idx_objects_def comp_def)
  ultimately show ?thesis by (simp add: rr holdings_def)
qed

text \<open>
  At every budget the recorded supply of the core asset is the real one. If the supply is accounted for and
  vesting balances and escrows are in the core asset, then after \<open>process_budget\<close> the current supply equals the sum of
  balances, vesting balances, escrows and pools that the new budget record lists: the
  assertion in the code holds.
\<close>

theorem budget_states_real_supply:
  assumes S: "safe_exact S" and g: "good U db" and i: "supply_identity db" and c: "core_only db" and p: "process_budget S db = Inr db'"
  shows "\<exists>k b. idx_find (budget_records db') k = Some b \<and> budget_time b = head_block_time db \<and>
    core_supply db' = Some (account_balances (rec_real_supply (budget_rec b)) + vesting_balances (rec_real_supply (budget_rec b)) +
      escrows (rec_real_supply (budget_rec b)) + pools (rec_real_supply (budget_rec b)))"
proof -
  from p obtain ao core mining r db1 where r: "budget_for S ao core mining db = Inr r"
    and m: "modify_dynamic_data (dynamic_asset_data_id ao) (restate_supply S r) db = Inr db1"
    and b: "create_budget_record \<lparr>budget_time = head_block_time (restart_budget r mining (head_block_time db) db1), budget_rec = r\<rparr>
       (restart_budget r mining (head_block_time db) db1) = Inr db'" by (rule process_budget_steps)
  have "get_real_supply S db = Inr (rec_real_supply r)" using r by (auto simp: budget_for_def Let_def res_simps)
  moreover have "books db" using g by (simp add: good_def)
  ultimately have e: "account_balances (rec_real_supply r) + vesting_balances (rec_real_supply r) + escrows (rec_real_supply r) +
      pools (rec_real_supply r) = holdings 0 db'"
    using real_supply_holdings [OF S _ c] process_budget_supply [OF S g i p] by simp
  have t: "head_block_time (restart_budget r mining (head_block_time db) db1) = head_block_time db"
    using m by (auto simp: restart_budget_def head_block_time_def modify_dynamic_data_def res_simps)
  note create_budget_record_find [OF b [unfolded t]]
  with e process_budget_supply [OF S g i p] show ?thesis by force
qed

section \<open>Maintenance\<close>

lemma update_active_miners_frame:
  assumes "update_active_miners S t db = Inr db'"
  obtains ms a gp where "db' = db\<lparr>miners := ms, accounts := a, gpo := gp\<rparr>"
    "\<And>i. map_option acc_options (idx_find a i) = map_option acc_options (idx_find (accounts db) i)"
proof -
  from assms obtain db1 db2 wits where
    1: "fold_res (\<lambda>r. modify_miner (fst r) (\<lambda>m. m\<lparr>total_votes := votes_for (vote_tally t) (snd r)\<rparr>)) (rows (miners db)) db = Inr db1"
    and 2: "modify_account GRAPHENE_MINER_ACCOUNT (\<lambda>a. a\<lparr>acc_active := miner_authority (vote_tally t) wits (acc_active a)\<rparr>) db1 = Inr db2"
    and 3: "db' = db2\<lparr>gpo := (gpo db2)\<lparr>active_miners := map fst wits\<rparr>\<rparr>"
    unfolding update_active_miners_def Let_def rbind_eq_Inr by blast
  have "\<exists>ms. db1 = db\<lparr>miners := ms\<rparr>"
  proof (rule fold_res_invariant [OF 1, where P = "\<lambda>s. \<exists>ms. s = db\<lparr>miners := ms\<rparr>"])
    show "\<exists>ms. db = db\<lparr>miners := ms\<rparr>" by (intro exI [of _ "miners db"]) simp
  qed (auto simp: modify_miner_def res_simps)
  then obtain ms where d1: "db1 = db\<lparr>miners := ms\<rparr>" ..
  from 2 obtain x where x: "idx_find (accounts db) GRAPHENE_MINER_ACCOUNT = Some x" and d2: "db2 = db1\<lparr>accounts := (accounts db1)
      \<lparr>rows := upd_row GRAPHENE_MINER_ACCOUNT (x\<lparr>acc_active := miner_authority (vote_tally t) wits (acc_active x)\<rparr>) (rows (accounts db1))\<rparr>\<rparr>"
    by (auto simp: modify_account_def idx_update_def idx_modify_def res_simps d1 split: option.splits)
  show ?thesis
    by (rule that [where ms = ms and a = "accounts db2" and gp = "gpo db'"]) (use x in \<open>auto simp: 3 d2 d1 idx_find_def map_of_upd_row\<close>)
qed

lemma maintenance_supply:
  assumes S: "safe_exact S" "safe_total S" "safe_overflow S" and g: "good U db" and p: "prices_nonneg db" and i: "supply_identity db"
    and m: "perform_chain_maintenance S num time db = Inr db'"
  shows "good U db' \<and> supply_identity db' \<and> core_supply db' = Some (holdings 0 db')"
proof -
  from m obtain t db1 db2 db3 where a: "update_active_miners S t db = Inr db1" and h: "decent_housekeeping S db1 = Inr db2"
    and s: "schedule_maintenance num time (adopt_parameters db2) = Inr db3" and b: "process_budget S db3 = Inr db'"
    by (auto simp: perform_chain_maintenance_def res_simps)
  obtain ms ac gp where d1: "db1 = db\<lparr>miners := ms, accounts := ac, gpo := gp\<rparr>"
    and o: "\<And>i. map_option acc_options (idx_find ac i) = map_option acc_options (idx_find (accounts db) i)"
    using update_active_miners_frame [OF a] by metis
  have mo: "money db1 = money db" by (simp add: d1 money_def)
  have g1: "good U db1" by (rule money_good(1) [OF g mo])
  have i1: "supply_identity db1"
    using i supply_identity_frame [of db1 db] money_holdings [OF mo, of 0] by (simp add: d1 supplies_def fun_eq_iff)
  have "prices_nonneg db1" unfolding prices_nonneg_def
  proof (intro allI impI)
    fix j x assume "idx_find (accounts db1) j = Some x"
    then obtain y where "idx_find (accounts db) j = Some y" "acc_options x = acc_options y" using o [of j] by (cases "idx_find (accounts db) j") (auto simp: d1)
    with p show "0 \<le> amount (price_per_subscribe (acc_options x)) \<and> in_int64 (amount (price_per_subscribe (acc_options x)))"
      by (simp add: prices_nonneg_def)
  qed
  from housekeeping_good [OF S g1 this h] have g2: "good U db2" "\<forall>a. holdings a db2 = holdings a db1" by simp_all
  have i2: "supply_identity db2"
    using i1 supply_identity_frame [of db2 db1] g2(2) consensus.housekeeping [OF h] recorded.housekeeping [OF h]
    by (simp add: consensus_state_def)
  obtain gp' where "adopt_parameters db2 = db2\<lparr>gpo := gp'\<rparr>"
    by (cases "pending_parameters (gpo db2)") (auto simp: adopt_parameters_def intro: that [of "gpo db2"])
  with s obtain nmt where d3: "db3 = db2\<lparr>gpo := gp', dpo := (dpo db2)\<lparr>next_maintenance_time := nmt, accounts_registered_this_interval := 0\<rparr>\<rparr>"
    unfolding schedule_maintenance_def Let_def rbind_eq_Inr by auto
  have mo3: "money db3 = money db2" by (simp add: d3 money_def)
  have i3: "supply_identity db3"
    using i2 money_holdings [OF mo3, of 0] by (simp add: supply_identity_def core_supply_def supplies_def d3)
  from process_budget_supply [OF S(1) money_good(1) [OF g2(1) mo3] i3 b] show ?thesis by simp
qed

section \<open>The chain as a state machine\<close>

text \<open>
  One step of the chain: an operation of a user with prices in assets of \<open>U\<close>, the pay of the miner of
  a block, or the maintenance of the chain.
\<close>

inductive chain_step :: "safe \<Rightarrow> content_env \<Rightarrow> nat set \<Rightarrow> database \<Rightarrow> database \<Rightarrow> bool" for S E U where
  user: "run_content S E op db = Inr db' \<Longrightarrow> prices_in U op \<Longrightarrow> chain_step S E U db db'"
| pay: "update_signing_miner S w num time db = Inr db' \<Longrightarrow> chain_step S E U db db'"
| maintenance: "perform_chain_maintenance S num time db = Inr db' \<Longrightarrow> prices_nonneg db \<Longrightarrow> chain_step S E U db db'"

lemma chain_step_supply:
  assumes S: "safe_exact S" "safe_total S" "safe_overflow S" and z: "0 \<in> U"
    and st: "chain_step S E U db db'" and g: "good U db" and i: "supply_identity db"
  shows "good U db' \<and> supply_identity db'"
  using st
proof cases
  case (user op)
  have "good U db' \<and> (\<forall>a. holdings a db' = holdings a db)"
    using run_content_good [OF S(1) z user(2) g user(1)] .
  moreover have "dpo db' = dpo db" "assets db' = assets db" "supplies db' = supplies db"
    using consensus.operation [OF user(1)] recorded.operation [OF user(1)] by (simp_all add: consensus_state_def)
  ultimately show ?thesis using i supply_identity_frame [of db' db] by simp
next
  case (pay w num time)
  then show ?thesis using update_signing_miner_supply [OF S(1) g i] by blast
next
  case (maintenance num time)
  then show ?thesis using maintenance_supply [OF S g _ i] by blast
qed

text \<open>
  The supply of the core asset is always accounted for. From a state in which it is, whatever users do, whoever
  is paid for blocks and however often the chain is maintained, the recorded supply plus the rewards
  and fees paid since the last budget is exactly what balances, vesting balances, escrows and pools hold.
\<close>

theorem supply_always_accounted:
  assumes S: "safe_exact S" "safe_total S" "safe_overflow S" and z: "0 \<in> U"
    and r: "(chain_step S E U)\<^sup>*\<^sup>* db db'" and g: "good U db" and i: "supply_identity db"
  shows "good U db' \<and> supply_identity db'"
  using r
proof (induction rule: rtranclp_induct)
  case base
  from g i show ?case ..
next
  case (step x y)
  then show ?case using chain_step_supply [OF S z] by blast
qed

section \<open>A chain with its books in order\<close>

definition supply_example :: database where
  "supply_example = market_example\<lparr>
     miners := \<lparr>next_id = 1, rows = [(0, \<lparr>miner_account = 6, last_aslot = 0, signing_key = 0, pay_vb = None, vote_id = 0,
       total_votes = 0, url = [], total_missed = 0, last_confirmed_block_num = 0\<rparr>)]\<rparr>,
     dpo := (dpo market_example)\<lparr>head_block_number := 100002, mined_rewards := 40\<rparr>\<rparr>"

lemma supply_example_ok: "good {0} supply_example" "supply_identity supply_example" "core_only supply_example"
proof -
  have m: "money supply_example = money market_example" by (simp add: supply_example_def money_def)
  show "good {0} supply_example" by (rule money_good(1) [OF market_example_good m])
  have "core_supply supply_example = Some 100" "mined_rewards (dpo supply_example) = 40" "holdings 0 supply_example = 140"
    "miner_budget_from_fees (dpo supply_example) = 0" "unspent_fee_budget (dpo supply_example) = 0" by code_simp+
  then show "supply_identity supply_example" by (simp add: supply_identity_def)
  show "core_only supply_example" by code_simp
qed

theorem budget_states_real_supply_witness:
  "\<exists>db'. process_budget safe_int64 supply_example = Inr db' \<and> (\<exists>k b. idx_find (budget_records db') k = Some b \<and>
     core_supply db' = Some (account_balances (rec_real_supply (budget_rec b)) + vesting_balances (rec_real_supply (budget_rec b)) +
       escrows (rec_real_supply (budget_rec b)) + pools (rec_real_supply (budget_rec b))))"
proof -
  have "succeeds (process_budget safe_int64 supply_example)" by code_simp
  then obtain db' where p: "process_budget safe_int64 supply_example = Inr db'" unfolding succeeds_iff ..
  from budget_states_real_supply [OF safe_int64_exact supply_example_ok p] p show ?thesis by blast
qed

theorem supply_always_accounted_witness:
  "\<exists>db1 db2. run_content safe_int64 env_example (hd purchase_example) supply_example = Inr db1 \<and>
     update_signing_miner safe_int64 0 100003 1005 db1 = Inr db2 \<and> supply_identity db2"
proof -
  have "succeeds (rbind (run_content safe_int64 env_example (hd purchase_example) supply_example)
    (update_signing_miner safe_int64 0 100003 1005))" by code_simp
  then obtain db1 db2 where r: "run_content safe_int64 env_example (hd purchase_example) supply_example = Inr db1"
    "update_signing_miner safe_int64 0 100003 1005 db1 = Inr db2" by (auto simp: succeeds_iff res_simps)
  have "prices_in {0} (hd purchase_example)" by (simp add: purchase_example_def)
  then have "(chain_step safe_int64 env_example {0})\<^sup>*\<^sup>* supply_example db2"
    using chain_step.user [OF r(1)] chain_step.pay [OF r(2)] by (meson converse_rtranclp_into_rtranclp r_into_rtranclp)
  from supply_always_accounted [OF safe_int64_exact safe_int64_total safe_int64_overflow _ this supply_example_ok(1,2)] r
  show ?thesis by auto
qed

end
