(* ===== verification/Authorities.thy ===== *)
theory Authorities
  imports Balance
begin

text \<open>
  Authorities and the check of the signatures of a transaction (\<open>protocol/authority.hpp\<close>,
  \<open>protocol/transaction.cpp\<close>). The check walks from the authority of an account through the
  accounts it trusts, down to a given depth, and records the keys and accounts it used. The code has
  it twice: for any number of signatures, and for transactions with exactly one.
  Operations are a parameter, with the function that lists the authorities each one requires.
\<close>

section \<open>Authorities\<close>

definition auth_weights :: "authority \<Rightarrow> int" where
  "auth_weights a = u64 (sum_list (map snd (account_auths a)) + sum_list (map snd (key_auths a)))"

definition is_impossible :: "authority \<Rightarrow> bool" where
  "is_impossible a \<longleftrightarrow> auth_weights a < weight_threshold a"

definition num_auths :: "authority \<Rightarrow> int" where
  "num_auths a = u32 (int (length (account_auths a)) + int (length (key_auths a)))"

definition get_keys :: "authority \<Rightarrow> nat list" where
  "get_keys a = map fst (key_auths a)"

definition null_authority :: authority where
  "null_authority = \<lparr>weight_threshold = 1, account_auths = [(GRAPHENE_NULL_ACCOUNT, 1)], key_auths = []\<rparr>"

definition add_authority_accounts :: "nat list \<Rightarrow> authority \<Rightarrow> nat list" where
  "add_authority_accounts result a = fold insort_insert (map fst (account_auths a)) result"

section \<open>The walk through the authorities\<close>

text \<open>
  \<open>get_active\<close> and \<open>get_owner\<close> look an account up: they throw when there is none, and may return a
  null pointer. The signatures of the state are of type \<open>'p\<close>: a map from keys to a flag for
  \<open>sign_state\<close>, nothing that changes for \<open>sign_state1\<close>; \<open>B\<close> is \<open>signed_by\<close>.
\<close>

type_synonym authority_source = "nat \<Rightarrow> authority option result"

record 'p sign_state =
  provided :: 'p
  approved_by :: "nat list"

type_synonym 'p signer = "nat \<Rightarrow> 'p \<Rightarrow> bool \<times> 'p"

fun key_loop :: "'p signer \<Rightarrow> int \<Rightarrow> (nat \<times> int) list \<Rightarrow> int \<Rightarrow> 'p \<Rightarrow> bool \<times> int \<times> 'p" where
  "key_loop B threshold [] total_weight p = (False, total_weight, p)"
| "key_loop B threshold ((k, w) # ks) total_weight p =
     (let (ok, p') = B k p in
      if ok then
        if u32 (total_weight + w) \<ge> threshold then (True, u32 (total_weight + w), p')
        else key_loop B threshold ks (u32 (total_weight + w)) p'
      else key_loop B threshold ks total_weight p')"

text \<open>\<open>deeper\<close> checks the active authority of an account one level down; it is absent at the last level.\<close>

fun account_loop ::
  "(nat \<Rightarrow> 'p sign_state \<Rightarrow> (bool \<times> 'p sign_state) result) option \<Rightarrow> int \<Rightarrow> (nat \<times> int) list \<Rightarrow> int \<Rightarrow>
   'p sign_state \<Rightarrow> (bool \<times> 'p sign_state) result" where
  "account_loop deeper threshold [] total_weight s = Inr (total_weight \<ge> threshold, s)"
| "account_loop deeper threshold ((a, w) # as) total_weight s =
     (if a \<notin> set (approved_by s) then
        case deeper of
          None \<Rightarrow> Inr (False, s)
        | Some check \<Rightarrow>
            rbind (check a s) (\<lambda>(ok, s').
            if ok then
              let s'' = s'\<lparr>approved_by := List.insert a (approved_by s')\<rparr> in
              if u32 (total_weight + w) \<ge> threshold then Inr (True, s'')
              else account_loop deeper threshold as (u32 (total_weight + w)) s''
            else account_loop deeper threshold as total_weight s')
      else if u32 (total_weight + w) \<ge> threshold then Inr (True, s)
      else account_loop deeper threshold as (u32 (total_weight + w)) s)"

definition check_with ::
  "'p signer \<Rightarrow> (nat \<Rightarrow> 'p sign_state \<Rightarrow> (bool \<times> 'p sign_state) result) option \<Rightarrow> authority option \<Rightarrow>
   'p sign_state \<Rightarrow> (bool \<times> 'p sign_state) result" where
  "check_with B deeper au s =
     (case au of
        None \<Rightarrow> Inr (False, s)
      | Some auth \<Rightarrow>
          let (enough, total_weight, p) = key_loop B (weight_threshold auth) (key_auths auth) 0 (provided s) in
          if enough then Inr (True, s\<lparr>provided := p\<rparr>)
          else account_loop deeper (weight_threshold auth) (account_auths auth) total_weight (s\<lparr>provided := p\<rparr>))"

text \<open>The first argument is \<open>max_recursion - depth\<close>, so depth 0 starts with \<open>max_recursion\<close>.\<close>

primrec check_authority ::
  "nat \<Rightarrow> 'p signer \<Rightarrow> authority_source \<Rightarrow> authority option \<Rightarrow> 'p sign_state \<Rightarrow> (bool \<times> 'p sign_state) result" where
  "check_authority 0 B get_active = check_with B None"
| "check_authority (Suc n) B get_active =
     check_with B (Some (\<lambda>a s. rbind (get_active a) (\<lambda>au. check_authority n B get_active au s)))"

definition check_authority_of ::
  "nat \<Rightarrow> 'p signer \<Rightarrow> authority_source \<Rightarrow> nat \<Rightarrow> 'p sign_state \<Rightarrow> (bool \<times> 'p sign_state) result" where
  "check_authority_of n B get_active a s =
     (if a \<in> set (approved_by s) then Inr (True, s)
      else rbind (get_active a) (\<lambda>au. check_authority n B get_active au s))"

section \<open>The two kinds of state\<close>

definition signed_by :: "nat list \<Rightarrow> (nat \<times> bool) list signer" where
  "signed_by available_keys k sigs =
     (case map_of sigs k of
        None \<Rightarrow> if k \<in> set available_keys then (True, map_assign k True sigs) else (False, sigs)
      | Some _ \<Rightarrow> (True, map_assign k True sigs))"

definition new_sign_state :: "nat list \<Rightarrow> (nat \<times> bool) list sign_state" where
  "new_sign_state sigs = \<lparr>provided = fold (\<lambda>k. map_assign k False) sigs [], approved_by = [GRAPHENE_TEMP_ACCOUNT]\<rparr>"

definition remove_unused_signatures :: "(nat \<times> bool) list sign_state \<Rightarrow> bool \<times> (nat \<times> bool) list sign_state" where
  "remove_unused_signatures s =
     (list_ex (\<lambda>r. \<not> snd r) (provided s), s\<lparr>provided := filter snd (provided s)\<rparr>)"

definition signed_by1 :: "nat \<Rightarrow> unit signer" where
  "signed_by1 key k p = (k = key, p)"

definition new_sign_state1 :: "unit sign_state" where
  "new_sign_state1 = \<lparr>provided = (), approved_by = [GRAPHENE_TEMP_ACCOUNT]\<rparr>"

section \<open>The check of a transaction\<close>

record required =
  required_active :: "nat list"
  required_owner :: "nat list"
  required_other :: "authority list"

definition no_requirements :: required where
  "no_requirements = \<lparr>required_active = [], required_owner = [], required_other = []\<rparr>"

definition check_others ::
  "nat \<Rightarrow> 'p signer \<Rightarrow> authority_source \<Rightarrow> authority list \<Rightarrow> 'p sign_state \<Rightarrow> 'p sign_state result" where
  "check_others n B get_active =
     fold_res (\<lambda>auth s. rbind (check_authority n B get_active (Some auth) s) (\<lambda>(ok, s').
       if ok then Inr s' else Inl tx_missing_other_auth))"

definition check_actives ::
  "nat \<Rightarrow> 'p signer \<Rightarrow> authority_source \<Rightarrow> authority_source \<Rightarrow> nat list \<Rightarrow> 'p sign_state \<Rightarrow> 'p sign_state result" where
  "check_actives n B get_active get_owner =
     fold_res (\<lambda>a s. rbind (check_authority_of n B get_active a s) (\<lambda>(ok, s').
       if ok then Inr s'
       else rbind (get_owner a) (\<lambda>au. rbind (check_authority n B get_active au s') (\<lambda>(ok, s'').
         if ok then Inr s'' else Inl tx_missing_active_auth))))"

definition check_owners ::
  "nat \<Rightarrow> 'p signer \<Rightarrow> authority_source \<Rightarrow> authority_source \<Rightarrow> nat list \<Rightarrow> nat list \<Rightarrow> 'p sign_state \<Rightarrow> 'p sign_state result" where
  "check_owners n B get_active get_owner owner_approvals =
     fold_res (\<lambda>a s. if a \<in> set owner_approvals then Inr s
       else rbind (get_owner a) (\<lambda>au. rbind (check_authority n B get_active au s) (\<lambda>(ok, s').
         if ok then Inr s' else Inl tx_missing_owner_auth)))"

definition verify_authority ::
  "('op \<Rightarrow> required \<Rightarrow> required) \<Rightarrow> 'op list \<Rightarrow> nat list \<Rightarrow> authority_source \<Rightarrow> authority_source \<Rightarrow> nat \<Rightarrow> bool \<Rightarrow>
   nat list \<Rightarrow> nat list \<Rightarrow> unit result" where
  "verify_authority R ops sigs get_active get_owner max_recursion allow_committee active_approvals owner_approvals =
     (let r = fold R ops no_requirements in
      if \<not> allow_committee \<and> GRAPHENE_MINER_ACCOUNT \<in> set (required_active r) then Inl invalid_committee_approval
      else
        let s0 = new_sign_state sigs;
            s = s0\<lparr>approved_by := fold List.insert owner_approvals (fold List.insert active_approvals (approved_by s0))\<rparr>
        in rbind (check_others max_recursion (signed_by []) get_active (required_other r) s) (\<lambda>s1.
           rbind (check_actives max_recursion (signed_by []) get_active get_owner (required_active r) s1) (\<lambda>s2.
           rbind (check_owners max_recursion (signed_by []) get_active get_owner owner_approvals (required_owner r) s2) (\<lambda>s3.
             if fst (remove_unused_signatures s3) then Inl tx_irrelevant_sig else Inr ()))))"

definition verify_authority1 ::
  "('op \<Rightarrow> required \<Rightarrow> required) \<Rightarrow> 'op list \<Rightarrow> nat \<Rightarrow> authority_source \<Rightarrow> authority_source \<Rightarrow> nat \<Rightarrow> unit result" where
  "verify_authority1 R ops key get_active get_owner max_recursion =
     (let r = fold R ops no_requirements in
      rbind (check_others max_recursion (signed_by1 key) get_active (required_other r) new_sign_state1) (\<lambda>s1.
      rbind (check_actives max_recursion (signed_by1 key) get_active get_owner (required_active r) s1) (\<lambda>s2.
      rbind (check_owners max_recursion (signed_by1 key) get_active get_owner [] (required_owner r) s2) (\<lambda>s3.
        Inr ()))))"

text \<open>Recovering the key of a signature is a call of the curve library; the argument lists the keys recovered.\<close>

definition get_signature_keys :: "nat list \<Rightarrow> nat list result" where
  "get_signature_keys recovered =
     fold_res (\<lambda>k ks. if k \<in> set ks then Inl tx_duplicate_sig else Inr (insort k ks)) recovered []"

definition transaction_verify_authority ::
  "('op \<Rightarrow> required \<Rightarrow> required) \<Rightarrow> 'op list \<Rightarrow> nat list \<Rightarrow> authority_source \<Rightarrow> authority_source \<Rightarrow> nat \<Rightarrow> unit result" where
  "transaction_verify_authority R ops recovered get_active get_owner max_recursion =
     rbind (get_signature_keys recovered) (\<lambda>keys.
     if length keys = 1 then verify_authority1 R ops (hd keys) get_active get_owner max_recursion
     else verify_authority R ops keys get_active get_owner max_recursion False [] [])"

section \<open>Signatures a transaction needs\<close>

definition get_required_signatures ::
  "('op \<Rightarrow> required \<Rightarrow> required) \<Rightarrow> 'op list \<Rightarrow> nat list \<Rightarrow> nat list \<Rightarrow> authority_source \<Rightarrow> authority_source \<Rightarrow> nat \<Rightarrow> nat list result" where
  "get_required_signatures R ops recovered available_keys get_active get_owner max_recursion =
     (let r = fold R ops no_requirements; B = signed_by available_keys in
      rbind (get_signature_keys recovered) (\<lambda>keys.
      rbind (fold_res (\<lambda>auth s. rbind (check_authority max_recursion B get_active (Some auth) s) (\<lambda>(_, s'). Inr s'))
               (required_other r) (new_sign_state keys)) (\<lambda>s1.
      rbind (fold_res (\<lambda>a s. rbind (get_owner a) (\<lambda>au. rbind (check_authority max_recursion B get_active au s) (\<lambda>(_, s'). Inr s')))
               (required_owner r) s1) (\<lambda>s2.
      rbind (fold_res (\<lambda>a s. rbind (check_authority_of max_recursion B get_active a s) (\<lambda>(_, s'). Inr s'))
               (required_active r) s2) (\<lambda>s3.
        Inr (filter (\<lambda>k. k \<in> set available_keys) (map fst (provided (snd (remove_unused_signatures s3))))))))))"

definition missing_auth :: "fc_exception \<Rightarrow> bool" where
  "missing_auth e \<longleftrightarrow> e \<in> {tx_missing_owner_auth, tx_missing_active_auth, tx_missing_other_auth}"

definition minimize_step ::
  "('op \<Rightarrow> required \<Rightarrow> required) \<Rightarrow> 'op list \<Rightarrow> authority_source \<Rightarrow> authority_source \<Rightarrow> nat \<Rightarrow> nat \<Rightarrow> nat list \<Rightarrow> nat list result" where
  "minimize_step R ops get_active get_owner max_recursion k result =
     (case verify_authority R ops (removeAll k result) get_active get_owner max_recursion False [] [] of
        Inr _ \<Rightarrow> Inr (removeAll k result)
      | Inl e \<Rightarrow> if missing_auth e then Inr (insort_insert k (removeAll k result)) else Inl e)"

definition minimize_required_signatures ::
  "('op \<Rightarrow> required \<Rightarrow> required) \<Rightarrow> 'op list \<Rightarrow> nat list \<Rightarrow> nat list \<Rightarrow> authority_source \<Rightarrow> authority_source \<Rightarrow> nat \<Rightarrow> nat list result" where
  "minimize_required_signatures R ops recovered available_keys get_active get_owner max_recursion =
     rbind (get_required_signatures R ops recovered available_keys get_active get_owner max_recursion) (\<lambda>s.
     fold_res (minimize_step R ops get_active get_owner max_recursion) s s)"

section \<open>What an authority grants\<close>

text \<open>
  The meaning of an authority, apart from any walk: it is granted by the keys \<open>K\<close> and the approvals \<open>P\<close> when the weights
  of its keys in \<open>K\<close> and of accounts that approve, themselves or through their own active authority, reach the threshold.
\<close>

definition weighed :: "(nat \<times> int) list \<Rightarrow> nat set \<Rightarrow> int" where
  "weighed ws X = (\<Sum>r\<leftarrow>ws. if fst r \<in> X then snd r else 0)"

inductive granted :: "authority_source \<Rightarrow> nat set \<Rightarrow> nat set \<Rightarrow> authority \<Rightarrow> bool" for G K P where
  grant: "(\<forall>a\<in>A. a \<in> P \<or> (\<exists>au'. G a = Inr (Some au') \<and> granted G K P au')) \<Longrightarrow>
    weight_threshold au \<le> weighed (key_auths au) K + weighed (account_auths au) A \<Longrightarrow> granted G K P au"

definition approves :: "authority_source \<Rightarrow> nat set \<Rightarrow> nat set \<Rightarrow> nat \<Rightarrow> bool" where
  "approves G K P a \<longleftrightarrow> a \<in> P \<or> (\<exists>au. G a = Inr (Some au) \<and> granted G K P au)"

definition nonneg_weights :: "authority \<Rightarrow> bool" where
  "nonneg_weights au \<longleftrightarrow> list_all (\<lambda>r. 0 \<le> snd r) (key_auths au) \<and> list_all (\<lambda>r. 0 \<le> snd r) (account_auths au)"

definition weights_ok :: "authority_source \<Rightarrow> bool" where
  "weights_ok G \<longleftrightarrow> (\<forall>a au. G a = Inr (Some au) \<longrightarrow> nonneg_weights au)"

lemma weighed_simps [simp]:
  "weighed [] X = 0" "weighed (r # ws) X = (if fst r \<in> X then snd r else 0) + weighed ws X"
  by (simp_all add: weighed_def)

lemma weighed_nonneg: "list_all (\<lambda>r. 0 \<le> snd r) ws \<Longrightarrow> 0 \<le> weighed ws X"
  by (induction ws) auto

lemma grantedI:
  assumes "\<forall>a\<in>A. approves G K P a" "weight_threshold au \<le> weighed (key_auths au) K + weighed (account_auths au) A"
  shows "granted G K P au"
  using granted.grant [of A P G K au] assms by (simp add: approves_def)

lemma u32_add_le: "0 \<le> x \<Longrightarrow> 0 \<le> y \<Longrightarrow> 0 \<le> u32 (x + y) \<and> u32 (x + y) \<le> x + y"
  by (simp add: u32_def zmod_le_nonneg_dividend)

text \<open>What the walk needs of \<open>signed_by\<close>: it answers only for the keys of its book, and never adds to them.\<close>

locale signature_book =
  fixes B :: "'p signer" and keys :: "'p \<Rightarrow> nat set"
  assumes book: "B k p = (ok, p') \<Longrightarrow> (ok \<longrightarrow> k \<in> keys p) \<and> keys p' = keys p"
begin

lemma key_loop_sound:
  "key_loop B threshold ks tw p = (enough, tw', p') \<Longrightarrow> list_all (\<lambda>r. 0 \<le> snd r) ks \<Longrightarrow> 0 \<le> tw \<Longrightarrow>
    keys p' = keys p \<and> 0 \<le> tw' \<and> tw' \<le> tw + weighed ks (keys p) \<and> (enough \<longrightarrow> threshold \<le> tw')"
proof (induction ks arbitrary: tw p)
  case (Cons r ks)
  obtain k w where r: "r = (k, w)" by (cases r)
  obtain ok p1 where b: "B k p = (ok, p1)" by fastforce
  note e = book [OF b]
  have w: "0 \<le> w" "list_all (\<lambda>r. 0 \<le> snd r) ks" using Cons.prems(2) by (simp_all add: r)
  note u = u32_add_le [OF Cons.prems(3) w(1)] and n = weighed_nonneg [OF w(2), of "keys p"]
  show ?case
  proof (cases ok)
    case True
    with e have kp: "k \<in> keys p" "keys p1 = keys p" by auto
    show ?thesis
    proof (cases "u32 (tw + w) \<ge> threshold")
      case True
      with Cons.prems(1) \<open>ok\<close> kp u n show ?thesis by (auto simp: r b)
    next
      case False
      with Cons.prems(1) \<open>ok\<close> have "key_loop B threshold ks (u32 (tw + w)) p1 = (enough, tw', p')" by (simp add: r b)
      from Cons.IH [OF this w(2)] u kp show ?thesis by (auto simp: r)
    qed
  next
    case False
    with Cons.prems(1) have "key_loop B threshold ks tw p1 = (enough, tw', p')" by (simp add: r b)
    from Cons.IH [OF this w(2) Cons.prems(3)] e w show ?thesis by (auto simp: r)
  qed
qed simp

definition sound_state :: "authority_source \<Rightarrow> nat set \<Rightarrow> nat set \<Rightarrow> 'p sign_state \<Rightarrow> bool" where
  "sound_state G K P s \<longleftrightarrow> keys (provided s) = K \<and> (\<forall>a\<in>set (approved_by s). approves G K P a)"

definition deeper_sound ::
  "authority_source \<Rightarrow> nat set \<Rightarrow> nat set \<Rightarrow> (nat \<Rightarrow> 'p sign_state \<Rightarrow> (bool \<times> 'p sign_state) result) option \<Rightarrow> bool" where
  "deeper_sound G K P deeper \<longleftrightarrow> (\<forall>check a s ok s'. deeper = Some check \<longrightarrow> sound_state G K P s \<longrightarrow> check a s = Inr (ok, s') \<longrightarrow>
     sound_state G K P s' \<and> (ok \<longrightarrow> approves G K P a))"

lemma account_loop_sound:
  assumes deeper: "deeper_sound G K P deeper"
  shows "account_loop deeper threshold as tw s = Inr (ok, s') \<Longrightarrow> list_all (\<lambda>r. 0 \<le> snd r) as \<Longrightarrow> 0 \<le> tw \<Longrightarrow> sound_state G K P s \<Longrightarrow>
    sound_state G K P s' \<and> (ok \<longrightarrow> threshold \<le> tw + weighed as {a. approves G K P a})"
proof (induction as arbitrary: tw s)
  case (Cons r as)
  obtain a w where r: "r = (a, w)" by (cases r)
  have w: "0 \<le> w" "list_all (\<lambda>r. 0 \<le> snd r) as" using Cons.prems(2) by (simp_all add: r)
  note u = u32_add_le [OF Cons.prems(3) w(1)] and n = weighed_nonneg [OF w(2), of "{a. approves G K P a}"]
  have count: ?case if app: "approves G K P a" and ss: "sound_state G K P t"
    and run: "(if u32 (tw + w) \<ge> threshold then Inr (True, t) else account_loop deeper threshold as (u32 (tw + w)) t) = Inr (ok, s')" for t
  proof (cases "u32 (tw + w) \<ge> threshold")
    case True
    with run ss app u n show ?thesis by (auto simp: r)
  next
    case False
    with run have "account_loop deeper threshold as (u32 (tw + w)) t = Inr (ok, s')" by simp
    from Cons.IH [OF this w(2) _ ss] u app show ?thesis by (auto simp: r)
  qed
  show ?case
  proof (cases "a \<in> set (approved_by s)")
    case True
    with Cons.prems(4) have "approves G K P a" by (simp add: sound_state_def)
    from count [OF this Cons.prems(4)] Cons.prems(1) True show ?thesis by (simp add: r)
  next
    case notin: False
    show ?thesis
    proof (cases deeper)
      case None
      with notin Cons.prems show ?thesis by (simp add: r)
    next
      case (Some check)
      with notin Cons.prems(1) obtain found t where c: "check a s = Inr (found, t)"
        and run: "(if found then let t' = t\<lparr>approved_by := List.insert a (approved_by t)\<rparr> in
            if u32 (tw + w) \<ge> threshold then Inr (True, t') else account_loop deeper threshold as (u32 (tw + w)) t'
          else account_loop deeper threshold as tw t) = Inr (ok, s')"
        by (auto simp: r res_simps)
      have d: "sound_state G K P t \<and> (found \<longrightarrow> approves G K P a)" using deeper Some Cons.prems(4) c by (auto simp: deeper_sound_def)
      show ?thesis
      proof (cases found)
        case True
        with d have "approves G K P a" "sound_state G K P (t\<lparr>approved_by := List.insert a (approved_by t)\<rparr>)"
          by (simp_all add: sound_state_def)
        from count [OF this] run True show ?thesis by (simp add: Let_def)
      next
        case False
        with run have "account_loop deeper threshold as tw t = Inr (ok, s')" by simp
        from Cons.IH [OF this w(2) Cons.prems(3)] d w show ?thesis by (auto simp: r)
      qed
    qed
  qed
qed simp

lemma check_with_sound:
  assumes deeper: "deeper_sound G K P deeper"
    and run: "check_with B deeper au s = Inr (ok, s')" and ss: "sound_state G K P s"
    and w: "\<And>auth. au = Some auth \<Longrightarrow> nonneg_weights auth"
  shows "sound_state G K P s' \<and> (ok \<longrightarrow> (\<exists>auth. au = Some auth \<and> granted G K P auth))"
proof (cases au)
  case None
  with run ss show ?thesis by (simp add: check_with_def)
next
  case (Some auth)
  obtain enough tw p where l: "key_loop B (weight_threshold auth) (key_auths auth) 0 (provided s) = (enough, tw, p)" by (cases "key_loop B (weight_threshold auth) (key_auths auth) 0 (provided s)")
  have nn: "list_all (\<lambda>r. 0 \<le> snd r) (key_auths auth)" "list_all (\<lambda>r. 0 \<le> snd r) (account_auths auth)"
    using w [OF Some] by (simp_all add: nonneg_weights_def)
  have K: "keys (provided s) = K" using ss by (simp add: sound_state_def)
  note k = key_loop_sound [OF l nn(1) order_refl, unfolded K]
  have ss': "sound_state G K P (s\<lparr>provided := p\<rparr>)" using ss k by (simp add: sound_state_def)
  note grant = grantedI [of "{a. approves G K P a}" G K P auth]
  show ?thesis
  proof (cases enough)
    case True
    with run l have "ok" "s' = s\<lparr>provided := p\<rparr>" by (simp_all add: check_with_def Some)
    with ss' k True grant weighed_nonneg [OF nn(2), of "{a. approves G K P a}"] Some show ?thesis by auto
  next
    case False
    with run l have "account_loop deeper (weight_threshold auth) (account_auths auth) tw (s\<lparr>provided := p\<rparr>) = Inr (ok, s')"
      by (simp add: check_with_def Some)
    from account_loop_sound [OF deeper this nn(2) _ ss'] k grant Some show ?thesis by auto
  qed
qed

lemma check_authority_sound:
  assumes G: "weights_ok G"
  shows "check_authority n B G au s = Inr (ok, s') \<Longrightarrow> sound_state G K P s \<Longrightarrow> (\<And>auth. au = Some auth \<Longrightarrow> nonneg_weights auth) \<Longrightarrow>
    sound_state G K P s' \<and> (ok \<longrightarrow> (\<exists>auth. au = Some auth \<and> granted G K P auth))"
proof (induction n arbitrary: au s ok s')
  case 0
  from check_with_sound [OF _ 0(1) [unfolded check_authority.simps] 0(2,3)] show ?case by (simp add: deeper_sound_def)
next
  case (Suc n)
  have deeper: "sound_state G K P s' \<and> (ok \<longrightarrow> approves G K P a)"
    if "Some (\<lambda>a s. rbind (G a) (\<lambda>au. check_authority n B G au s)) = Some check" "sound_state G K P s" "check a s = Inr (ok, s')" for check a s ok s'
  proof -
    from that obtain au where au: "G a = Inr au" "check_authority n B G au s = Inr (ok, s')" by (auto simp: res_simps)
    from Suc.IH [OF au(2) that(2)] G au(1) show ?thesis by (auto simp: weights_ok_def approves_def)
  qed
  then have "deeper_sound G K P (Some (\<lambda>a s. rbind (G a) (\<lambda>au. check_authority n B G au s)))" unfolding deeper_sound_def by blast
  from check_with_sound [OF this Suc.prems(1) [unfolded check_authority.simps] Suc.prems(2,3)] show ?case by simp
qed

lemma check_authority_of_sound:
  assumes G: "weights_ok G" and run: "check_authority_of n B G a s = Inr (ok, s')" and ss: "sound_state G K P s"
  shows "sound_state G K P s' \<and> (ok \<longrightarrow> approves G K P a)"
proof (cases "a \<in> set (approved_by s)")
  case True
  with run ss show ?thesis by (auto simp: check_authority_of_def sound_state_def)
next
  case False
  with run obtain au where au: "G a = Inr au" "check_authority n B G au s = Inr (ok, s')" by (auto simp: check_authority_of_def res_simps)
  from check_authority_sound [OF G au(2) ss] G au(1) show ?thesis by (auto simp: weights_ok_def approves_def)
qed

lemma check_others_sound:
  assumes G: "weights_ok G" and run: "check_others n B G others s = Inr s'" and ss: "sound_state G K P s" and w: "list_all nonneg_weights others"
  shows "sound_state G K P s' \<and> list_all (granted G K P) others"
  using run ss w unfolding check_others_def
proof (induction others arbitrary: s)
  case (Cons au others)
  from Cons.prems(1) obtain t where t: "check_authority n B G (Some au) s = Inr (True, t)"
    and rest: "fold_res (\<lambda>auth s. rbind (check_authority n B G (Some auth) s) (\<lambda>(ok, s'). if ok then Inr s' else Inl tx_missing_other_auth)) others t = Inr s'"
    by (auto simp: res_simps split: if_splits)
  from check_authority_sound [OF G t Cons.prems(2)] Cons.prems(3) have "sound_state G K P t" "granted G K P au" by auto
  with Cons.IH [OF rest] Cons.prems(3) show ?case by simp
qed simp

lemma check_actives_sound:
  assumes G: "weights_ok G" "weights_ok Ow" and run: "check_actives n B G Ow as s = Inr s'" and ss: "sound_state G K P s"
  shows "sound_state G K P s' \<and> (\<forall>a\<in>set as. approves G K P a \<or> (\<exists>au. Ow a = Inr (Some au) \<and> granted G K P au))"
  using run ss unfolding check_actives_def
proof (induction as arbitrary: s)
  case (Cons a as)
  from Cons.prems(1) obtain ok t u where t: "check_authority_of n B G a s = Inr (ok, t)"
    and u: "(if ok then Inr t else rbind (Ow a) (\<lambda>au. rbind (check_authority n B G au t) (\<lambda>(ok, s'').
         if ok then Inr s'' else Inl tx_missing_active_auth))) = Inr u"
    and rest: "fold_res (\<lambda>a s. rbind (check_authority_of n B G a s) (\<lambda>(ok, s').
       if ok then Inr s'
       else rbind (Ow a) (\<lambda>au. rbind (check_authority n B G au s') (\<lambda>(ok, s'').
         if ok then Inr s'' else Inl tx_missing_active_auth)))) as u = Inr s'"
    by (fastforce simp: res_simps)
  note c = check_authority_of_sound [OF G(1) t Cons.prems(2)]
  have "sound_state G K P u \<and> (approves G K P a \<or> (\<exists>au. Ow a = Inr (Some au) \<and> granted G K P au))"
  proof (cases ok)
    case True
    with c u show ?thesis by simp
  next
    case False
    with u obtain au where au: "Ow a = Inr au" "check_authority n B G au t = Inr (True, u)" by (auto simp: res_simps split: if_splits)
    have "\<And>auth. au = Some auth \<Longrightarrow> nonneg_weights auth" using G(2) au(1) by (auto simp: weights_ok_def)
    from check_authority_sound [OF G(1) au(2) conjunct1 [OF c] this] au(1) show ?thesis by auto
  qed
  with Cons.IH [OF rest] show ?case by auto
qed simp

lemma check_owners_sound:
  assumes G: "weights_ok G" "weights_ok Ow" and run: "check_owners n B G Ow os as s = Inr s'" and ss: "sound_state G K P s"
  shows "\<forall>a\<in>set as. a \<in> set os \<or> (\<exists>au. Ow a = Inr (Some au) \<and> granted G K P au)"
  using run ss unfolding check_owners_def
proof (induction as arbitrary: s)
  case (Cons a as)
  from Cons.prems(1) obtain u where
    u: "(if a \<in> set os then Inr s else rbind (Ow a) (\<lambda>au. rbind (check_authority n B G au s) (\<lambda>(ok, s').
         if ok then Inr s' else Inl tx_missing_owner_auth))) = Inr u"
    and rest: "fold_res (\<lambda>a s. if a \<in> set os then Inr s else rbind (Ow a) (\<lambda>au. rbind (check_authority n B G au s) (\<lambda>(ok, s').
         if ok then Inr s' else Inl tx_missing_owner_auth))) as u = Inr s'"
    by (fastforce simp: res_simps)
  have "sound_state G K P u \<and> (a \<in> set os \<or> (\<exists>au. Ow a = Inr (Some au) \<and> granted G K P au))"
  proof (cases "a \<in> set os")
    case False
    with u obtain au where au: "Ow a = Inr au" "check_authority n B G au s = Inr (True, u)" by (auto simp: res_simps split: if_splits)
    from check_authority_sound [OF G(1) au(2) Cons.prems(2)] G(2) au(1) show ?thesis by (auto simp: weights_ok_def)
  qed (use u Cons.prems in simp)
  with Cons.IH [OF rest] show ?case by auto
qed simp

end


definition book_keys :: "(nat \<times> bool) list \<Rightarrow> nat set" where
  "book_keys sigs = fst ` set sigs"

lemma book_keys_assign: "map_of sigs k \<noteq> None \<Longrightarrow> book_keys (map_assign k b sigs) = book_keys sigs"
proof -
  have "fst ` set (upd_row k b rs) = fst ` set rs" for rs :: "(nat \<times> bool) list" by (force simp: upd_row_def)
  then show "map_of sigs k \<noteq> None \<Longrightarrow> book_keys (map_assign k b sigs) = book_keys sigs" by (auto simp: book_keys_def map_assign_def)
qed

interpretation many: signature_book "signed_by []" book_keys
proof
  fix k p ok p' assume b: "signed_by [] k p = (ok, p')"
  show "(ok \<longrightarrow> k \<in> book_keys p) \<and> book_keys p' = book_keys p"
  proof (cases "map_of p k")
    case (Some x)
    with b book_keys_assign [of p k True] show ?thesis by (auto simp: signed_by_def book_keys_def dest!: map_of_SomeD intro: rev_image_eqI)
  qed (use b in \<open>simp add: signed_by_def\<close>)
qed

interpretation one: signature_book "signed_by1 key" "\<lambda>_. {key}"
  by unfold_locales (auto simp: signed_by1_def)

lemma book_keys_new: "book_keys (provided (new_sign_state sigs)) = set sigs"
proof -
  have ins: "fst ` set (ins_row k b rs) = insert k (fst ` set rs)" for k b and rs :: "(nat \<times> bool) list"
    by (induction k b rs rule: ins_row.induct) auto
  have "fst ` set (map_assign k b m) = insert k (fst ` set m)" for k b and m :: "(nat \<times> bool) list"
  proof (cases "map_of m k")
    case None
    then show ?thesis by (simp add: map_assign_def ins)
  next
    case (Some x)
    then have "k \<in> fst ` set m" by (force dest: map_of_SomeD)
    with Some book_keys_assign [of m k b] show ?thesis by (auto simp: book_keys_def)
  qed
  then have "fst ` set (fold (\<lambda>k. map_assign k False) sigs m) = fst ` set m \<union> set sigs" for m
    by (induction sigs arbitrary: m) auto
  then show ?thesis by (simp add: new_sign_state_def book_keys_def)
qed

lemma get_signature_keys_set: "get_signature_keys ks = Inr keys \<Longrightarrow> set keys = set ks \<and> distinct ks"
proof -
  have "fold_res (\<lambda>k ks. if k \<in> set ks then Inl tx_duplicate_sig else Inr (insort k ks)) ks acc = Inr keys \<Longrightarrow>
      set keys = set acc \<union> set ks \<and> distinct ks \<and> set acc \<inter> set ks = {}" for acc
  proof (induction ks arbitrary: acc)
    case (Cons k ks)
    then have "k \<notin> set acc" "fold_res (\<lambda>k ks. if k \<in> set ks then Inl tx_duplicate_sig else Inr (insort k ks)) ks (insort k acc) = Inr keys"
      by (auto simp: res_simps split: if_splits)
    with Cons.IH [OF this(2)] show ?case by (auto simp: set_insort_key)
  qed simp
  then show "get_signature_keys ks = Inr keys \<Longrightarrow> set keys = set ks \<and> distinct ks" by (auto simp: get_signature_keys_def)
qed

section \<open>Soundness\<close>

text \<open>A transaction is authorised by keys \<open>K\<close> when everything its operations require is granted by them.\<close>

definition authorised :: "required \<Rightarrow> authority_source \<Rightarrow> authority_source \<Rightarrow> nat set \<Rightarrow> nat set \<Rightarrow> nat set \<Rightarrow> bool" where
  "authorised r G Ow K P Q \<longleftrightarrow>
     (\<forall>au\<in>set (required_other r). granted G K P au) \<and>
     (\<forall>a\<in>set (required_active r). approves G K P a \<or> (\<exists>au. Ow a = Inr (Some au) \<and> granted G K P au)) \<and>
     (\<forall>a\<in>set (required_owner r). a \<in> Q \<or> (\<exists>au. Ow a = Inr (Some au) \<and> granted G K P au))"

lemma verify_authority_sound:
  assumes G: "weights_ok G" "weights_ok Ow" and w: "list_all nonneg_weights (required_other (fold R ops no_requirements))"
    and v: "verify_authority R ops sigs G Ow n committee as os = Inr ()"
  shows "authorised (fold R ops no_requirements) G Ow (set sigs) ({GRAPHENE_TEMP_ACCOUNT} \<union> set as \<union> set os) (set os)"
proof -
  let ?r = "fold R ops no_requirements" and ?P = "{GRAPHENE_TEMP_ACCOUNT} \<union> set as \<union> set os"
  let ?s = "(new_sign_state sigs)\<lparr>approved_by := fold List.insert os (fold List.insert as (approved_by (new_sign_state sigs)))\<rparr>"
  from v obtain s1 s2 s3 where 1: "check_others n (signed_by []) G (required_other ?r) ?s = Inr s1"
    and 2: "check_actives n (signed_by []) G Ow (required_active ?r) s1 = Inr s2"
    and 3: "check_owners n (signed_by []) G Ow os (required_owner ?r) s2 = Inr s3"
    by (auto simp: verify_authority_def Let_def res_simps split: if_splits)
  have ins: "set (fold List.insert xs ys) = set xs \<union> set ys" for xs ys :: "nat list" by (induction xs arbitrary: ys) auto
  have s: "many.sound_state G (set sigs) ?P ?s"
    using book_keys_new [of sigs] by (auto simp: many.sound_state_def ins new_sign_state_def approves_def)
  note o1 = many.check_others_sound [OF G(1) 1 s w]
  note o2 = many.check_actives_sound [OF G 2 conjunct1 [OF o1]]
  from o1 o2 many.check_owners_sound [OF G 3 conjunct1 [OF o2]] show ?thesis by (simp add: authorised_def list_all_iff)
qed

lemma verify_authority1_sound:
  assumes G: "weights_ok G" "weights_ok Ow" and w: "list_all nonneg_weights (required_other (fold R ops no_requirements))"
    and v: "verify_authority1 R ops key G Ow n = Inr ()"
  shows "authorised (fold R ops no_requirements) G Ow {key} {GRAPHENE_TEMP_ACCOUNT} {}"
proof -
  let ?r = "fold R ops no_requirements"
  from v obtain s1 s2 s3 where 1: "check_others n (signed_by1 key) G (required_other ?r) new_sign_state1 = Inr s1"
    and 2: "check_actives n (signed_by1 key) G Ow (required_active ?r) s1 = Inr s2"
    and 3: "check_owners n (signed_by1 key) G Ow [] (required_owner ?r) s2 = Inr s3"
    by (auto simp: verify_authority1_def Let_def res_simps)
  have s: "one.sound_state key G {key} {GRAPHENE_TEMP_ACCOUNT} new_sign_state1"
    by (auto simp: one.sound_state_def new_sign_state1_def approves_def)
  note o1 = one.check_others_sound [OF G(1) 1 s w]
  note o2 = one.check_actives_sound [OF G 2 conjunct1 [OF o1]]
  from o1 o2 one.check_owners_sound [OF G 3 conjunct1 [OF o2]] show ?thesis by (simp add: authorised_def list_all_iff)
qed

text \<open>
  C8: A transaction whose signatures are accepted is authorised. Whatever the operations require, of active, owner or
  explicit authorities, the keys that signed reach the threshold of it, directly or through accounts the authority trusts.
\<close>

theorem accepted_signatures_authorise:
  assumes "weights_ok G" "weights_ok Ow" "list_all nonneg_weights (required_other (fold R ops no_requirements))"
    and v: "transaction_verify_authority R ops recovered G Ow n = Inr ()"
  shows "authorised (fold R ops no_requirements) G Ow (set recovered) {GRAPHENE_TEMP_ACCOUNT} {}"
proof -
  from v obtain keys where k: "get_signature_keys recovered = Inr keys" by (auto simp: transaction_verify_authority_def res_simps)
  note K = get_signature_keys_set [OF k]
  show ?thesis
  proof (cases "length keys = 1")
    case True
    then obtain x where "keys = [x]" by (auto simp: length_Suc_conv)
    with K v k verify_authority1_sound [OF assms(1-3), of x n] show ?thesis by (simp add: transaction_verify_authority_def)
  next
    case False
    with v k verify_authority_sound [OF assms(1-3), of keys n False "[]" "[]"] K show ?thesis by (simp add: transaction_verify_authority_def)
  qed
qed

section \<open>The check for one signature\<close>

text \<open>A state with one signature, used or not, and the state of the optimised check with the same approvals.\<close>

definition same_walk :: "nat \<Rightarrow> (nat \<times> bool) list sign_state \<Rightarrow> unit sign_state \<Rightarrow> bool" where
  "same_walk key s t \<longleftrightarrow> (\<exists>b. provided s = [(key, b)]) \<and> approved_by s = approved_by t"

definition same_answer :: "nat \<Rightarrow> (bool \<times> (nat \<times> bool) list sign_state) result \<Rightarrow> (bool \<times> unit sign_state) result \<Rightarrow> bool" where
  "same_answer key m m' \<longleftrightarrow> rel_sum (=) (rel_prod (=) (same_walk key)) m m'"

lemma key_loop_same:
  "\<exists>b' e tw'. key_loop (signed_by []) threshold ks tw [(key, b)] = (e, tw', [(key, b')]) \<and> key_loop (signed_by1 key) threshold ks tw () = (e, tw', ())"
proof (induction ks arbitrary: tw b)
  case (Cons r ks)
  obtain k w where r: "r = (k, w)" by (cases r)
  have "signed_by [] k [(key, b)] = (k = key, [(key, b \<or> k = key)])" by (simp add: signed_by_def map_assign_def upd_row_def)
  with Cons.IH [of "u32 (tw + w)" True] Cons.IH [of tw b] show ?case by (auto simp: r signed_by1_def)
qed auto

lemma account_loop_same:
  assumes d: "rel_option (rel_fun (=) (rel_fun (same_walk key) (same_answer key))) deeper deeper'"
  shows "same_walk key s t \<Longrightarrow> same_answer key (account_loop deeper threshold as tw s) (account_loop deeper' threshold as tw t)"
proof (induction as arbitrary: tw s t)
  case Nil
  then show ?case by (simp add: same_answer_def)
next
  case (Cons r as)
  obtain a w where r: "r = (a, w)" by (cases r)
  have ap: "approved_by s = approved_by t" using Cons.prems by (simp add: same_walk_def)
  show ?case
  proof (cases "a \<in> set (approved_by s)")
    case True
    with Cons ap show ?thesis by (simp add: r same_answer_def)
  next
    case notin: False
    show ?thesis
    proof (cases deeper)
      case None
      with d have "deeper' = None" by simp
      with None notin Cons.prems ap show ?thesis by (simp add: r same_answer_def)
    next
      case (Some check)
      with d obtain check' where c': "deeper' = Some check'" and cc: "same_answer key (check a s) (check' a t)"
        using Cons.prems by (cases deeper') (auto simp: rel_fun_def)
      show ?thesis
      proof (cases "check a s")
        case (Inl e)
        with cc have "check' a t = Inl e" by (cases "check' a t") (auto simp: same_answer_def)
        with Inl Some c' notin ap show ?thesis by (simp add: r same_answer_def)
      next
        case (Inr q)
        then obtain ok u where q: "check a s = Inr (ok, u)" by (cases q) auto
        with cc obtain v where v: "check' a t = Inr (ok, v)" "same_walk key u v" by (cases "check' a t") (auto simp: same_answer_def)
        then have "same_walk key (u\<lparr>approved_by := List.insert a (approved_by u)\<rparr>) (v\<lparr>approved_by := List.insert a (approved_by v)\<rparr>)"
          by (simp add: same_walk_def)
        with Cons.IH q v Some c' notin ap show ?thesis by (simp add: r Let_def same_answer_def)
      qed
    qed
  qed
qed

lemma check_with_same:
  assumes d: "rel_option (rel_fun (=) (rel_fun (same_walk key) (same_answer key))) deeper deeper'" and s: "same_walk key s t"
  shows "same_answer key (check_with (signed_by []) deeper au s) (check_with (signed_by1 key) deeper' au t)"
proof (cases au)
  case None
  with s show ?thesis by (simp add: check_with_def same_answer_def)
next
  case (Some auth)
  from s obtain b where b: "provided s = [(key, b)]" by (auto simp: same_walk_def)
  obtain b' e tw where k: "key_loop (signed_by []) (weight_threshold auth) (key_auths auth) 0 [(key, b)] = (e, tw, [(key, b')])"
    "key_loop (signed_by1 key) (weight_threshold auth) (key_auths auth) 0 () = (e, tw, ())" using key_loop_same by blast
  have s': "same_walk key (s\<lparr>provided := [(key, b')]\<rparr>) t" using s by (simp add: same_walk_def)
  have t: "t\<lparr>provided := ()\<rparr> = t" by simp
  from account_loop_same [OF d s'] s' k b show ?thesis by (auto simp: Some check_with_def same_answer_def t simp del: old.unit.exhaust)
qed

lemma check_authority_same:
  "same_walk key s t \<Longrightarrow> same_answer key (check_authority n (signed_by []) G au s) (check_authority n (signed_by1 key) G au t)"
proof (induction n arbitrary: au s t)
  case 0
  then show ?case using check_with_same [of key None None] by simp
next
  case (Suc n)
  have "rel_fun (=) (rel_fun (same_walk key) (same_answer key))
      (\<lambda>a s. rbind (G a) (\<lambda>au. check_authority n (signed_by []) G au s)) (\<lambda>a s. rbind (G a) (\<lambda>au. check_authority n (signed_by1 key) G au s))"
    unfolding rel_fun_def
  proof (intro allI impI)
    fix a a' s t assume "a = (a' :: nat)" "same_walk key s t"
    with Suc.IH show "same_answer key (rbind (G a) (\<lambda>au. check_authority n (signed_by []) G au s)) (rbind (G a') (\<lambda>au. check_authority n (signed_by1 key) G au t))"
      by (cases "G a") (simp_all add: same_answer_def)
  qed
  with check_with_same Suc.prems show ?case by simp
qed

definition same_state :: "nat \<Rightarrow> (nat \<times> bool) list sign_state result \<Rightarrow> unit sign_state result \<Rightarrow> bool" where
  "same_state key m m' \<longleftrightarrow> rel_sum (=) (same_walk key) m m'"

lemma same_state_bind:
  assumes "same_state key m m'" "\<And>s t. same_walk key s t \<Longrightarrow> same_state key (f s) (g t)"
  shows "same_state key (rbind m f) (rbind m' g)"
  using assms by (cases m; cases m') (auto simp: same_state_def)

lemma same_answer_bind:
  assumes "same_answer key m m'" "\<And>ok s t. same_walk key s t \<Longrightarrow> same_state key (f ok s) (g ok t)"
  shows "same_state key (rbind m (\<lambda>(ok, s). f ok s)) (rbind m' (\<lambda>(ok, s). g ok s))"
  using assms by (cases m; cases m') (auto simp: same_state_def same_answer_def)

lemma fold_res_same:
  assumes "\<And>x s t. same_walk key s t \<Longrightarrow> same_state key (f x s) (g x t)"
  shows "same_walk key s t \<Longrightarrow> same_state key (fold_res f xs s) (fold_res g xs t)"
  by (induction xs arbitrary: s t) (auto simp: same_state_def [of _ "Inr _"] intro!: same_state_bind assms)

lemma check_authority_of_same:
  "same_walk key s t \<Longrightarrow> same_answer key (check_authority_of n (signed_by []) G a s) (check_authority_of n (signed_by1 key) G a t)"
  using check_authority_same [of key s t n G]
  by (cases "G a") (auto simp: check_authority_of_def same_answer_def same_walk_def)

lemma checks_same:
  assumes s: "same_walk key s t"
  shows "same_state key (check_others n (signed_by []) G others s) (check_others n (signed_by1 key) G others t)"
    and "same_state key (check_actives n (signed_by []) G Ow as s) (check_actives n (signed_by1 key) G Ow as t)"
    and "same_state key (check_owners n (signed_by []) G Ow os as s) (check_owners n (signed_by1 key) G Ow os as t)"
proof -
  have leaf [simp]: "same_state key (Inl e) (Inl e)" "same_walk key s t \<Longrightarrow> same_state key (Inr s) (Inr t)" for e s t
    by (simp_all add: same_state_def)
  have bind [intro]: "same_state key (rbind (F a) f) (rbind (F a) g)" if "\<And>au. same_state key (f au) (g au)"
    for F :: authority_source and a f g using that by (cases "F a") simp_all
  show "same_state key (check_others n (signed_by []) G others s) (check_others n (signed_by1 key) G others t)"
    unfolding check_others_def by (rule fold_res_same [OF same_answer_bind [OF check_authority_same]]) (simp_all add: s)
  show "same_state key (check_actives n (signed_by []) G Ow as s) (check_actives n (signed_by1 key) G Ow as t)"
    unfolding check_actives_def
    by (rule fold_res_same [OF same_answer_bind [OF check_authority_of_same]])
      (auto simp: s intro!: same_answer_bind [OF check_authority_same])
  show "same_state key (check_owners n (signed_by []) G Ow os as s) (check_owners n (signed_by1 key) G Ow os as t)"
    unfolding check_owners_def
    by (rule fold_res_same) (auto simp: s intro!: same_answer_bind [OF check_authority_same])
qed

text \<open>
  The check for one signature is the general check, but for two tests it leaves out. When the miner account is
  not required, both give the same answer with the same exception, except that the general check also refuses a
  signature that nothing needed.
\<close>

theorem one_signature_check:
  assumes m: "GRAPHENE_MINER_ACCOUNT \<notin> set (required_active (fold R ops no_requirements))"
  shows "verify_authority R ops [key] G Ow n False [] [] = verify_authority1 R ops key G Ow n \<or>
    verify_authority R ops [key] G Ow n False [] [] = Inl tx_irrelevant_sig \<and> verify_authority1 R ops key G Ow n = Inr ()"
proof -
  let ?r = "fold R ops no_requirements"
  have s: "same_walk key (new_sign_state [key]) new_sign_state1"
    by (auto simp: same_walk_def new_sign_state_def new_sign_state1_def map_assign_def intro!: exI [of _ False])
  have "same_state key
      (rbind (check_others n (signed_by []) G (required_other ?r) (new_sign_state [key])) (\<lambda>s1.
       rbind (check_actives n (signed_by []) G Ow (required_active ?r) s1) (\<lambda>s2.
       check_owners n (signed_by []) G Ow [] (required_owner ?r) s2)))
      (rbind (check_others n (signed_by1 key) G (required_other ?r) new_sign_state1) (\<lambda>s1.
       rbind (check_actives n (signed_by1 key) G Ow (required_active ?r) s1) (\<lambda>s2.
       check_owners n (signed_by1 key) G Ow [] (required_owner ?r) s2)))" (is "same_state key ?a ?b")
    by (intro same_state_bind checks_same s)
  moreover have "verify_authority R ops [key] G Ow n False [] [] = rbind ?a (\<lambda>s3. if fst (remove_unused_signatures s3) then Inl tx_irrelevant_sig else Inr ())"
    using m by (simp add: verify_authority_def Let_def rbind_assoc)
  moreover have "verify_authority1 R ops key G Ow n = rbind ?b (\<lambda>s3. Inr ())"
    by (simp add: verify_authority1_def Let_def rbind_assoc)
  ultimately show ?thesis by (cases ?a; cases ?b) (auto simp: same_state_def)
qed

section \<open>Minimal sets of signatures\<close>

lemma new_sign_state_provided:
  "provided (new_sign_state sigs) = map (\<lambda>k. (k, False)) (sorted_list_of_set (set sigs))"
proof -
  have ins: "map_assign k False (map (\<lambda>k. (k, False)) ks) = map (\<lambda>k. (k, False)) (insort_insert k ks)" if "sorted_wrt (<) ks" for k ks
  proof -
    have upd: "upd_row k False (map (\<lambda>k. (k, False)) ks) = map (\<lambda>k. (k, False)) ks" by (induction ks) (auto simp: upd_row_def)
    have "k \<notin> set ks \<Longrightarrow> ins_row k False (map (\<lambda>k. (k, False)) ks) = map (\<lambda>k. (k, False)) (insort k ks)"
      by (induction ks) auto
    moreover have "map_of (map (\<lambda>k. (k, False)) ks) k = None \<longleftrightarrow> k \<notin> set ks" by (simp add: map_of_eq_None_iff image_image)
    ultimately show ?thesis by (auto simp: map_assign_def upd insort_insert_key_def)
  qed
  have "fold (\<lambda>k. map_assign k False) sigs (map (\<lambda>k. (k, False)) (sorted_list_of_set A)) =
      map (\<lambda>k. (k, False)) (sorted_list_of_set (A \<union> set sigs))" if "finite A" for A
    using that
  proof (induction sigs arbitrary: A)
    case (Cons k ks)
    have "insort_insert k (sorted_list_of_set A) = sorted_list_of_set (insert k A)"
      using Cons.prems by (cases "k \<in> A") (simp_all add: insort_insert_key_def insert_absorb)
    with ins [of "sorted_list_of_set A" k]
    have "map_assign k False (map (\<lambda>k. (k, False)) (sorted_list_of_set A)) = map (\<lambda>k. (k, False)) (sorted_list_of_set (insert k A))"
      by (metis strict_sorted_list_of_set)
    moreover have "A \<union> set (k # ks) = insert k A \<union> set ks" by auto
    ultimately show ?case using Cons.IH [of "insert k A"] Cons.prems by (simp only: fold_simps finite_insert)
  qed simp
  from this [of "{}"] show ?thesis by (simp add: new_sign_state_def)
qed

lemma verify_authority_set:
  "set sigs = set sigs' \<Longrightarrow> verify_authority R ops sigs G Ow n c as os = verify_authority R ops sigs' G Ow n c as os"
proof -
  assume "set sigs = set sigs'"
  then have "new_sign_state sigs = new_sign_state sigs'"
    using new_sign_state_provided [of sigs] new_sign_state_provided [of sigs'] by (simp add: new_sign_state_def)
  then show ?thesis by (simp only: verify_authority_def)
qed

lemma minimize_step_ok:
  assumes "verify_authority R ops ks G Ow n False [] [] = Inr ()" "minimize_step R ops G Ow n k ks = Inr ks'" "k \<in> set ks"
  shows "verify_authority R ops ks' G Ow n False [] [] = Inr () \<and> set ks' \<subseteq> set ks \<and> (k \<in> set ks' \<longrightarrow> set ks' = set ks)"
proof (cases "verify_authority R ops (removeAll k ks) G Ow n False [] []")
  case (Inl e)
  with assms(2) have "ks' = insort_insert k (removeAll k ks)" by (auto simp: minimize_step_def split: if_splits)
  then have "set ks' = set ks" using assms(3) by (auto simp: set_insort_insert)
  with assms(1) verify_authority_set [of ks' ks R ops G Ow n False "[]" "[]"] show ?thesis by simp
next
  case (Inr x)
  with assms(2) have "ks' = removeAll k ks" by (simp add: minimize_step_def)
  with Inr show ?thesis by auto
qed

text \<open>
  C28: The reduced set of signatures still authorises. When the keys that \<open>get_required_signatures\<close> selects satisfy
  the transaction, so do the ones \<open>minimize_required_signatures\<close> keeps of them.
\<close>

theorem minimized_signatures_suffice:
  assumes r: "get_required_signatures R ops recovered available G Ow n = Inr ks" and v: "verify_authority R ops ks G Ow n False [] [] = Inr ()"
    and m: "minimize_required_signatures R ops recovered available G Ow n = Inr ks'"
  shows "set ks' \<subseteq> set ks \<and> verify_authority R ops ks' G Ow n False [] [] = Inr ()"
proof -
  have "fold_res (minimize_step R ops G Ow n) todo s = Inr ks' \<Longrightarrow> verify_authority R ops s G Ow n False [] [] = Inr () \<Longrightarrow>
      set ks' \<subseteq> set s \<and> verify_authority R ops ks' G Ow n False [] [] = Inr ()" for todo s
  proof (induction todo arbitrary: s)
    case (Cons k todo)
    from Cons.prems(1) obtain t where t: "minimize_step R ops G Ow n k s = Inr t" "fold_res (minimize_step R ops G Ow n) todo t = Inr ks'"
      by (auto simp: res_simps)
    have "verify_authority R ops t G Ow n False [] [] = Inr () \<and> set t \<subseteq> set s"
    proof (cases "k \<in> set s")
      case True
      with minimize_step_ok [OF Cons.prems(2) t(1)] show ?thesis by simp
    next
      case False
      with t(1) Cons.prems(2) show ?thesis by (simp add: minimize_step_def)
    qed
    with Cons.IH [OF t(2)] show ?case by auto
  qed simp
  from this [of ks ks] v m r show ?thesis by (simp add: minimize_required_signatures_def)
qed

section \<open>Examples\<close>

text \<open>
  Account 0, the miner account, trusts key 7; account 5 trusts key 8 and account 6, both needed; account 6
  trusts key 9. The operations are the accounts that have to act.
\<close>

definition authority_example :: authority_source where
  "authority_example a =
     (if a = 0 then Inr (Some \<lparr>weight_threshold = 1, account_auths = [], key_auths = [(7, 1)]\<rparr>)
      else if a = 5 then Inr (Some \<lparr>weight_threshold = 2, account_auths = [(6, 1)], key_auths = [(8, 1)]\<rparr>)
      else if a = 6 then Inr (Some \<lparr>weight_threshold = 1, account_auths = [], key_auths = [(9, 1)]\<rparr>)
      else Inl assert_exception)"

definition require_account :: "nat \<Rightarrow> required \<Rightarrow> required" where
  "require_account a r = r\<lparr>required_active := insort_insert a (required_active r)\<rparr>"

lemma authority_example_weights: "weights_ok authority_example"
  by (auto simp: weights_ok_def authority_example_def nonneg_weights_def split: if_splits)

theorem accepted_signatures_authorise_witness:
  "transaction_verify_authority require_account [5] [8, 9] authority_example authority_example 2 = Inr () \<and>
   authorised (fold require_account [5] no_requirements) authority_example authority_example {8, 9} {GRAPHENE_TEMP_ACCOUNT} {}"
proof -
  have v: "transaction_verify_authority require_account [5] [8, 9] authority_example authority_example 2 = Inr ()" by code_simp
  have "list_all nonneg_weights (required_other (fold require_account [5] no_requirements))" by code_simp
  from accepted_signatures_authorise [OF authority_example_weights authority_example_weights this v] v show ?thesis by simp
qed

theorem one_signature_check_witness:
  "verify_authority1 require_account [6] 9 authority_example authority_example 2 = Inr () \<and>
   verify_authority require_account [6] [9] authority_example authority_example 2 False [] [] = Inr ()"
proof -
  have m: "GRAPHENE_MINER_ACCOUNT \<notin> set (required_active (fold require_account [6] no_requirements))" by code_simp
  have v: "verify_authority1 require_account [6] 9 authority_example authority_example 2 = Inr ()" by code_simp
  have "verify_authority require_account [6] [9] authority_example authority_example 2 False [] [] \<noteq> Inl tx_irrelevant_sig" by code_simp
  with one_signature_check [OF m, of 9 authority_example authority_example 2] v show ?thesis by simp
qed

theorem minimized_signatures_suffice_witness:
  "minimize_required_signatures require_account [5] [] [7, 8, 9] authority_example authority_example 2 = Inr [8, 9] \<and>
   verify_authority require_account [5] [8, 9] authority_example authority_example 2 False [] [] = Inr ()"
proof -
  have r: "get_required_signatures require_account [5] [] [7, 8, 9] authority_example authority_example 2 = Inr [8, 9]" by code_simp
  have v: "verify_authority require_account [5] [8, 9] authority_example authority_example 2 False [] [] = Inr ()" by code_simp
  have m: "minimize_required_signatures require_account [5] [] [7, 8, 9] authority_example authority_example 2 = Inr [8, 9]" by code_simp
  from minimized_signatures_suffice [OF r v m] m show ?thesis by simp
qed

text \<open>
  One signature is enough for the miner account to act outside a proposal. The general check refuses
  every transaction that requires it; the check for one signature does not ask.
\<close>

theorem miner_account_signs_alone:
  "transaction_verify_authority require_account [GRAPHENE_MINER_ACCOUNT] [7] authority_example authority_example 2 = Inr () \<and>
   verify_authority require_account [GRAPHENE_MINER_ACCOUNT] [7] authority_example authority_example 2 False [] [] = Inl invalid_committee_approval \<and>
   transaction_verify_authority require_account [GRAPHENE_MINER_ACCOUNT, 6] [7, 9] authority_example authority_example 2 = Inl invalid_committee_approval"
  by code_simp

end
