(* ===== verification/Vote_Ids.thy ===== *)
theory Vote_Ids
  imports Amount_String Chain_State
begin

text \<open>
  Ids of votable objects (\<open>protocol/vote.hpp\<close>, \<open>protocol/vote.cpp\<close>): a 32 bit word with the type in
  the low 8 bits and the instance in the upper 24, and its textual form \<open>type:instance\<close>.
  \<open>std::to_string\<close> and \<open>std::stoul\<close> are the ones of a 64 bit platform.
\<close>

unbundle bit_operations_syntax

section \<open>The packed word\<close>

record vote_id_type =
  content :: "32 word"

definition VOTE_TYPE_MINER :: "32 word" where "VOTE_TYPE_MINER = 0"

definition mk_vote_id :: "32 word \<Rightarrow> 32 word \<Rightarrow> vote_id_type" where
  "mk_vote_id type inst = \<lparr>content = push_bit 8 inst OR type\<rparr>"

definition vote_type :: "vote_id_type \<Rightarrow> 32 word" where
  "vote_type v = content v AND 0xff"

definition vote_instance :: "vote_id_type \<Rightarrow> 32 word" where
  "vote_instance v = drop_bit 8 (content v)"

definition set_type :: "32 word \<Rightarrow> vote_id_type \<Rightarrow> vote_id_type" where
  "set_type type v = v\<lparr>content := (content v AND 0xffffff00) OR (type AND 0xff)\<rparr>"

text \<open>The \<open>assert\<close> on the range of the instance is not compiled into release builds.\<close>

definition set_instance :: "32 word \<Rightarrow> vote_id_type \<Rightarrow> vote_id_type" where
  "set_instance inst v = v\<lparr>content := (content v AND 0xff) OR push_bit 8 inst\<rparr>"

definition get_next_vote_id :: "global_property_object \<Rightarrow> 32 word \<Rightarrow> vote_id_type \<times> global_property_object" where
  "get_next_vote_id gp type =
     (mk_vote_id type (of_nat (next_available_vote_id gp)), gp\<lparr>next_available_vote_id := (next_available_vote_id gp + 1) mod 2 ^ 32\<rparr>)"

section \<open>The textual form\<close>

definition stoul :: "string \<Rightarrow> nat result" where
  "stoul s =
     (let t = dropWhile isspace s;
          neg = (t \<noteq> [] \<and> hd t = CHR ''-'');
          u = (if t \<noteq> [] \<and> hd t \<in> {CHR ''-'', CHR ''+''} then tl t else t);
          ds = takeWhile isdigit u
      in if ds = [] \<or> digits_value ds \<ge> 2 ^ 64 then Inl other_exception
         else Inr (nat (if neg then u64 (- digits_value ds) else digits_value ds)))"

definition vote_to_string :: "vote_id_type \<Rightarrow> string" where
  "vote_to_string v = decimal (uint (vote_type v)) @ '':'' @ decimal (uint (vote_instance v))"

text \<open>A string without a colon leaves the word as it is; \<open>uninit\<close> is what the memory held.\<close>

definition vote_from_string :: "vote_id_type \<Rightarrow> string \<Rightarrow> vote_id_type result" where
  "vote_from_string uninit serial =
     (case find_char CHR '':'' serial of
        None \<Rightarrow> Inr uninit
      | Some colon \<Rightarrow>
          rbind (substr serial 0 (Some colon)) (\<lambda>l. rbind (stoul l) (\<lambda>type.
          rbind (substr serial (colon + 1) None) (\<lambda>r. rbind (stoul r) (\<lambda>inst.
            Inr (mk_vote_id (of_nat type) (of_nat inst)))))))"

section \<open>Fields do not overlap\<close>

lemma field_masks: "(0xff :: 32 word) = mask 8" "(0xffffff00 :: 32 word) = push_bit 8 (mask 24)"
  by (simp_all add: mask_eq_decr_exp push_bit_eq_mult)

lemma below_bits:
  fixes x :: "32 word"
  assumes "unat x < 2 ^ k" "bit x n"
  shows "n < k"
proof -
  have "take_bit k (unat x) = unat x" using assms(1) by (simp add: take_bit_nat_eq_self_iff)
  moreover have "bit (unat x) n" using assms(2) by (simp add: bit_unsigned_iff bit_imp_le_length)
  ultimately show ?thesis by (metis bit_take_bit_iff)
qed

lemma below_256: "type < (256 :: 32 word) \<Longrightarrow> bit type n \<Longrightarrow> n < 8"
  using below_bits [of type 8 n] by (simp add: word_less_nat_alt)

lemma below_2_24: "inst < (0x01000000 :: 32 word) \<Longrightarrow> bit inst n \<Longrightarrow> n < 24"
  using below_bits [of inst 24 n] by (simp add: word_less_nat_alt)

lemmas vote_defs = vote_type_def vote_instance_def mk_vote_id_def set_type_def set_instance_def field_masks

lemma vote_type_mk: "type < 256 \<Longrightarrow> vote_type (mk_vote_id type inst) = type"
  unfolding vote_defs by (rule bit_word_eqI) (auto simp: bit_simps dest: below_256)

lemma vote_instance_mk: "type < 256 \<Longrightarrow> inst < 0x01000000 \<Longrightarrow> vote_instance (mk_vote_id type inst) = inst"
  unfolding vote_defs by (rule bit_word_eqI) (auto simp: bit_simps dest: below_256 below_2_24)

lemma mk_vote_id_fields: "mk_vote_id (vote_type v) (vote_instance v) = v"
proof -
  have "push_bit 8 (drop_bit 8 (content v)) OR (content v AND 0xff) = content v"
    unfolding vote_defs by (rule bit_word_eqI) (auto simp: bit_simps)
  then show ?thesis by (simp add: mk_vote_id_def vote_type_def vote_instance_def)
qed

text \<open>
  The two fields of a vote id are independent. Setting one is read back, leaves the other as it was, and
  a vote id is determined by its fields.
\<close>

theorem vote_id_fields:
  assumes "type < 256" "inst < 0x01000000"
  shows "vote_type (set_type type v) = type \<and> vote_instance (set_type type v) = vote_instance v \<and>
    vote_instance (set_instance inst v) = inst \<and> vote_type (set_instance inst v) = vote_type v \<and>
    set_type type (set_instance inst v) = mk_vote_id type inst"
proof (intro conjI)
  show "vote_type (set_type type v) = type"
    unfolding vote_defs by (rule bit_word_eqI) (auto simp: bit_simps dest: below_256 [OF assms(1)])
  show "vote_instance (set_type type v) = vote_instance v"
    unfolding vote_defs by (rule bit_word_eqI) (auto simp: bit_simps dest: bit_imp_le_length)
  show "vote_instance (set_instance inst v) = inst"
    unfolding vote_defs by (rule bit_word_eqI) (auto simp: bit_simps dest: below_2_24 [OF assms(2)])
  show "vote_type (set_instance inst v) = vote_type v"
    unfolding vote_defs by (rule bit_word_eqI) (auto simp: bit_simps)
  have "((content v AND 0xff OR push_bit 8 inst) AND 0xffffff00) OR (type AND 0xff) = push_bit 8 inst OR type"
    unfolding vote_defs by (rule bit_word_eqI) (auto simp: bit_simps dest: below_256 [OF assms(1)] bit_imp_le_length)
  then show "set_type type (set_instance inst v) = mk_vote_id type inst" by (simp add: set_type_def set_instance_def mk_vote_id_def)
qed

theorem vote_id_fields_witness: "vote_instance (set_instance 5 (mk_vote_id 1 9)) = 5 \<and> vote_type (set_instance 5 (mk_vote_id 1 9)) = 1"
  using vote_id_fields [of 1 5 "mk_vote_id 1 9"] vote_type_mk [of 1 9] by simp

section \<open>Printing and parsing\<close>

lemma stoul_digits:
  assumes "n < 2 ^ 64" "s = [] \<or> \<not> isdigit (hd s)"
  shows "stoul (dec_digits n @ s) = Inr n"
proof -
  obtain c cs where d: "dec_digits n = c # cs" by (cases "dec_digits n") simp_all
  have all: "list_all isdigit (c # cs)" using dec_digits_all [of n] d by simp
  have "takeWhile isdigit ((c # cs) @ s) = c # cs"
    using all assms(2) by (cases s) (auto simp: list_all_iff takeWhile_append)
  moreover have "\<not> isspace c" "c \<noteq> CHR ''-''" "c \<noteq> CHR ''+''" using all isdigit_not [of c] by simp_all
  ultimately show ?thesis using assms(1) digits_value_dec [of n] unfolding stoul_def d by (simp add: Let_def)
qed

text \<open>
  A vote id survives the conversion to text and back, whatever its type and instance.
\<close>

theorem vote_string_round_trip: "vote_from_string u (vote_to_string v) = Inr v"
proof -
  let ?t = "dec_digits (unat (vote_type v))" and ?i = "dec_digits (unat (vote_instance v))"
  have s: "vote_to_string v = ?t @ CHR '':'' # ?i" by (simp add: vote_to_string_def decimal_def)
  have "CHR '':'' \<notin> set ?t" using dec_digits_all [of "unat (vote_type v)"] by (auto simp: list_all_iff isdigit_def)
  then have f: "find_char CHR '':'' (vote_to_string v) = Some (length ?t)" by (simp add: s find_char_append)
  have u: "unat x < 2 ^ 64" for x :: "32 word" using unsigned_less [of x, where ?'a = nat] by simp
  have "stoul ?t = Inr (unat (vote_type v))" "stoul ?i = Inr (unat (vote_instance v))"
    using stoul_digits [OF u, of "[]"] by simp_all
  then show ?thesis using f by (simp add: vote_from_string_def substr_def s mk_vote_id_fields)
qed

section \<open>Fresh ids\<close>

text \<open>
  The ids handed out are distinct, but only \<open>2 ^ 24\<close> of them: the instance is shifted out of the word beyond that,
  so the counter and the ids part ways.
\<close>

lemma fresh_vote_ids:
  assumes "type < 256"
  shows "vote_instance (fst (get_next_vote_id gp type)) = of_nat (next_available_vote_id gp mod 2 ^ 24) \<and>
    vote_type (fst (get_next_vote_id gp type)) = type"
proof -
  let ?n = "of_nat (next_available_vote_id gp) :: 32 word"
  have "vote_instance (mk_vote_id type ?n) = take_bit 24 ?n"
    unfolding vote_defs by (rule bit_word_eqI) (auto simp: bit_simps dest: below_256 [OF assms])
  also have "\<dots> = of_nat (next_available_vote_id gp mod 2 ^ 24)" by (simp only: of_nat_take_bit flip: take_bit_eq_mod)
  finally show ?thesis using vote_type_mk [OF assms] by (simp add: get_next_vote_id_def)
qed

end
