(* ===== verification/Asset_Operations.thy ===== *)
theory Asset_Operations
  imports Content_Books
begin

text \<open>
  The operations on assets (\<open>asset_evaluator.cpp\<close>, \<open>protocol/asset_ops.cpp\<close>): creation, issue and
  reserve, updates, the pools that convert fees, and the publication of price feeds.
\<close>

section \<open>Symbols\<close>

definition GRAPHENE_MIN_ASSET_SYMBOL_LENGTH :: nat where "GRAPHENE_MIN_ASSET_SYMBOL_LENGTH = 3"
definition GRAPHENE_MAX_ASSET_SYMBOL_LENGTH :: nat where "GRAPHENE_MAX_ASSET_SYMBOL_LENGTH = 16"

definition isupper :: "char \<Rightarrow> bool" where
  "isupper c \<longleftrightarrow> 65 \<le> (of_char c :: nat) \<and> (of_char c :: nat) \<le> 90"

definition islower :: "char \<Rightarrow> bool" where
  "islower c \<longleftrightarrow> 97 \<le> (of_char c :: nat) \<and> (of_char c :: nat) \<le> 122"

definition isalpha :: "char \<Rightarrow> bool" where
  "isalpha c \<longleftrightarrow> isupper c \<or> islower c"

fun symbol_chars :: "bool \<Rightarrow> string \<Rightarrow> bool" where
  "symbol_chars dot_already_present [] = True"
| "symbol_chars dot_already_present (c # cs) =
     (if (isalpha c \<and> isupper c) \<or> isdigit c then symbol_chars dot_already_present cs
      else if c = CHR ''.'' then if dot_already_present then False else symbol_chars True cs
      else False)"

definition is_valid_symbol :: "string \<Rightarrow> bool" where
  "is_valid_symbol s =
     (if length s < GRAPHENE_MIN_ASSET_SYMBOL_LENGTH then False
      else if length s > GRAPHENE_MAX_ASSET_SYMBOL_LENGTH then False
      else if \<not> isalpha (hd s) then False
      else if \<not> isalpha (last s) then False
      else symbol_chars False s)"

definition rfind_char :: "char \<Rightarrow> string \<Rightarrow> nat option" where
  "rfind_char c s = map_option (\<lambda>i. length s - 1 - i) (find_char c (rev s))"

section \<open>Creation\<close>

record asset_create_operation =
  ac_fee :: asset
  ac_issuer :: nat
  ac_symbol :: string
  ac_precision :: nat
  ac_description :: string
  ac_options :: asset_options
  ac_monitored :: "monitored_asset_options option"

definition asset_create_fee_payer :: "asset_create_operation \<Rightarrow> nat" where
  "asset_create_fee_payer op = (if ac_monitored op \<noteq> None then 0 else ac_issuer op)"

definition asset_create_calculate_fee :: "fee_parameters \<Rightarrow> asset_create_operation \<Rightarrow> int" where
  "asset_create_calculate_fee k op =
     (if ac_monitored op \<noteq> None then par_fee k
      else if length (ac_symbol op) = 3 then u64 (par_fee k * 5000)
      else if length (ac_symbol op) = 4 then u64 (par_fee k * 200)
      else u64 (5 * par_fee k))"

definition asset_options_validate :: "asset_options \<Rightarrow> unit result" where
  "asset_options_validate o' =
     fc_assert (max_supply o' > 0)
    (fc_assert (max_supply o' \<le> GRAPHENE_MAX_SHARE_SUPPLY)
    (rbind (price_validate (opt_exchange_rate o')) (\<lambda>_.
     fc_assert (asset_id (base (opt_exchange_rate o')) = 0 \<or> asset_id (quote (opt_exchange_rate o')) = 0) (Inr ()))))"

definition monitored_options_validate :: "monitored_asset_options \<Rightarrow> unit result" where
  "monitored_options_validate m =
     rbind (price_feed_validate (current_feed m)) (\<lambda>_.
     fc_assert (feed_lifetime_sec m > 0) (fc_assert (minimum_feeds m > 0) (Inr ())))"

definition asset_create_validate :: "asset_create_operation \<Rightarrow> unit result" where
  "asset_create_validate op =
     fc_assert (amount (ac_fee op) \<ge> 0)
    (fc_assert (is_valid_symbol (ac_symbol op))
    (fc_assert (ac_precision op \<le> 12)
    (fc_assert (length (ac_description op) \<le> 1000)
    (case ac_monitored op of
       Some m \<Rightarrow> rbind (monitored_options_validate m) (\<lambda>_. fc_assert (max_supply (ac_options op) = 0) (Inr ()))
     | None \<Rightarrow> asset_options_validate (ac_options op)))))"

definition find_symbol :: "string \<Rightarrow> database \<Rightarrow> (nat \<times> asset_object) option" where
  "find_symbol s db = idx_find_by (\<lambda>a. symbol a = s) (assets db)"

text \<open>The assertion's message looks the issuer up, which only matters when it fails anyway.\<close>

definition check_prefix :: "asset_create_operation \<Rightarrow> database \<Rightarrow> unit result" where
  "check_prefix op db =
     (case rfind_char CHR ''.'' (ac_symbol op) of
        None \<Rightarrow> Inr ()
      | Some dotpos \<Rightarrow>
          (case find_symbol (take dotpos (ac_symbol op)) db of
             None \<Rightarrow> Inl assert_exception
           | Some (_, a) \<Rightarrow> fc_assert (issuer a = ac_issuer op) (Inr ())))"

definition asset_create_do_evaluate ::
  "safe \<Rightarrow> asset_create_operation \<Rightarrow> fee_state \<Rightarrow> database \<Rightarrow> (unit \<times> fee_state) result" where
  "asset_create_do_evaluate S op fs db =
     fc_assert (find_symbol (ac_symbol op) db = None)
    (rbind (check_prefix op db) (\<lambda>_.
     rbind (S (core_fee_paid fs - trunc_div (core_fee_paid fs) 2)) (\<lambda>paid.
     let count = (fixed_max_supply_ext (ac_options op) \<noteq> None) in
     rbind (case ac_monitored op of
              Some m \<Rightarrow> fc_assert (feed_lifetime_sec m > block_interval (parameters (gpo db)))
                        (fc_assert (max_supply (ac_options op) = 0) (fc_assert (\<not> count) (Inr ())))
            | None \<Rightarrow> if head_block_time db > HARDFORK_2_TIME then fc_assert count (Inr ()) else fc_assert (\<not> count) (Inr ())) (\<lambda>_.
       Inr ((), fs\<lparr>core_fee_paid := paid\<rparr>)))))"

definition paired_rate :: "nat \<Rightarrow> price \<Rightarrow> price" where
  "paired_rate i p =
     (if asset_id (base p) = 0 then p\<lparr>quote := (quote p)\<lparr>asset_id := i\<rparr>\<rparr> else p\<lparr>base := (base p)\<lparr>asset_id := i\<rparr>\<rparr>)"

definition asset_create_do_apply :: "asset_create_operation \<Rightarrow> unit \<Rightarrow> fee_state \<Rightarrow> database \<Rightarrow> database result" where
  "asset_create_do_apply op u fs db =
     rbind (create_dynamic_data \<lparr>current_supply = 0, asset_pool = 0, core_pool = core_fee_paid fs\<rparr> db) (\<lambda>(dyn, db1).
     let next_asset_id = next_id (assets db1) in
     rbind (create_asset \<lparr>symbol = ac_symbol op, precision = ac_precision op, issuer = ac_issuer op, description = ac_description op,
              monitored_asset_opts = ac_monitored op,
              asset_opts = (ac_options op)\<lparr>opt_exchange_rate := paired_rate next_asset_id (opt_exchange_rate (ac_options op))\<rparr>,
              dynamic_asset_data_id = dyn\<rparr> db1) (\<lambda>(_, db2).
       Inr db2))"

section \<open>Issue and reserve\<close>

record asset_issue_operation =
  ai_fee :: asset
  ai_issuer :: nat
  asset_to_issue :: asset
  issue_to_account :: nat

definition asset_issue_validate :: "asset_issue_operation \<Rightarrow> unit result" where
  "asset_issue_validate op =
     fc_assert (amount (ai_fee op) \<ge> 0)
    (fc_assert (amount (asset_to_issue op) \<le> GRAPHENE_MAX_SHARE_SUPPLY)
    (fc_assert (amount (asset_to_issue op) > 0)
    (fc_assert (asset_id (asset_to_issue op) \<noteq> 0) (Inr ()))))"

definition asset_issue_do_evaluate :: "safe \<Rightarrow> asset_issue_operation \<Rightarrow> database \<Rightarrow> unit result" where
  "asset_issue_do_evaluate S op db =
     rbind (idx_get (assets db) (asset_id (asset_to_issue op))) (\<lambda>a.
     fc_assert (ai_issuer op = issuer a)
    (fc_assert (\<not> is_monitored_asset a)
    (rbind (idx_get (dynamic_data db) (dynamic_asset_data_id a)) (\<lambda>d.
     rbind (S (current_supply d + amount (asset_to_issue op))) (\<lambda>s.
     fc_assert (s \<le> max_supply (asset_opts a)) (Inr ()))))))"

definition add_supply :: "safe \<Rightarrow> int \<Rightarrow> asset_dynamic_data_object \<Rightarrow> asset_dynamic_data_object result" where
  "add_supply S x d = rbind (S (current_supply d + x)) (\<lambda>s. Inr (d\<lparr>current_supply := s\<rparr>))"

definition asset_issue_do_apply :: "safe \<Rightarrow> asset_issue_operation \<Rightarrow> database \<Rightarrow> database result" where
  "asset_issue_do_apply S op db =
     rbind (idx_get (assets db) (asset_id (asset_to_issue op))) (\<lambda>a.
     rbind (adjust_balance S (issue_to_account op) (asset_to_issue op) db) (\<lambda>db1.
     modify_dynamic_data (dynamic_asset_data_id a) (add_supply S (amount (asset_to_issue op))) db1))"

record asset_reserve_operation =
  ar_fee :: asset
  ar_payer :: nat
  amount_to_reserve :: asset

definition asset_reserve_validate :: "asset_reserve_operation \<Rightarrow> unit result" where
  "asset_reserve_validate op =
     fc_assert (amount (ar_fee op) \<ge> 0)
    (fc_assert (amount (amount_to_reserve op) \<le> GRAPHENE_MAX_SHARE_SUPPLY)
    (fc_assert (amount (amount_to_reserve op) > 0) (Inr ())))"

definition asset_reserve_do_evaluate :: "safe \<Rightarrow> asset_reserve_operation \<Rightarrow> database \<Rightarrow> unit result" where
  "asset_reserve_do_evaluate S op db =
     rbind (idx_get (assets db) (asset_id (amount_to_reserve op))) (\<lambda>a.
     fc_assert (\<not> is_monitored_asset a)
    (rbind (idx_get (dynamic_data db) (dynamic_asset_data_id a)) (\<lambda>d.
     rbind (S (current_supply d - amount (amount_to_reserve op))) (\<lambda>s.
     fc_assert (s \<ge> 0) (Inr ())))))"

definition asset_reserve_do_apply :: "safe \<Rightarrow> asset_reserve_operation \<Rightarrow> database \<Rightarrow> database result" where
  "asset_reserve_do_apply S op db =
     rbind (idx_get (assets db) (asset_id (amount_to_reserve op))) (\<lambda>a.
     rbind (asset_neg S (amount_to_reserve op)) (\<lambda>n.
     rbind (adjust_balance S (ar_payer op) n db) (\<lambda>db1.
     modify_dynamic_data (dynamic_asset_data_id a)
       (add_supply S (- amount (amount_to_reserve op))) db1)))"

section \<open>Updates\<close>

record update_monitored_asset_operation =
  um_fee :: asset
  um_issuer :: nat
  um_asset :: nat
  um_description :: string
  new_feed_lifetime_sec :: int
  new_minimum_feeds :: int

definition update_monitored_validate :: "update_monitored_asset_operation \<Rightarrow> unit result" where
  "update_monitored_validate op =
     fc_assert (amount (um_fee op) \<ge> 0)
    (fc_assert (new_feed_lifetime_sec op \<ge> 0) (fc_assert (new_minimum_feeds op \<ge> 0) (Inr ())))"

definition update_monitored_do_evaluate :: "update_monitored_asset_operation \<Rightarrow> database \<Rightarrow> unit result" where
  "update_monitored_do_evaluate op db =
     rbind (idx_get (assets db) (um_asset op)) (\<lambda>a.
     fc_assert (is_monitored_asset a) (fc_assert (um_issuer op = issuer a) (Inr ())))"

definition update_monitored :: "update_monitored_asset_operation \<Rightarrow> asset_object \<Rightarrow> asset_object result" where
  "update_monitored op a =
     rbind (if new_feed_lifetime_sec op \<noteq> 0 \<or> new_minimum_feeds op \<noteq> 0
            then rbind (deref (monitored_asset_opts a)) (\<lambda>m.
              let m1 = (if new_feed_lifetime_sec op \<noteq> 0 then m\<lparr>feed_lifetime_sec := new_feed_lifetime_sec op\<rparr> else m)
              in Inr (Some (if new_minimum_feeds op \<noteq> 0 then m1\<lparr>minimum_feeds := new_minimum_feeds op\<rparr> else m1)))
            else Inr (monitored_asset_opts a)) (\<lambda>m.
       Inr (a\<lparr>description := (if um_description op \<noteq> [] then um_description op else description a), monitored_asset_opts := m\<rparr>))"

definition update_monitored_do_apply :: "update_monitored_asset_operation \<Rightarrow> database \<Rightarrow> database result" where
  "update_monitored_do_apply op db = modify_asset (um_asset op) (update_monitored op) db"

record update_user_issued_asset_operation =
  uu_fee :: asset
  uu_issuer :: nat
  uu_asset :: nat
  uu_description :: string
  new_issuer :: "nat option"
  uu_max_supply :: int
  uu_exchange_rate :: price
  uu_is_exchangeable :: bool

definition update_uia_validate :: "update_user_issued_asset_operation \<Rightarrow> unit result" where
  "update_uia_validate op =
     fc_assert (amount (uu_fee op) \<ge> 0)
    (fc_assert (uu_max_supply op \<ge> 0)
    (rbind (price_validate (uu_exchange_rate op)) (\<lambda>_.
     fc_assert (case new_issuer op of None \<Rightarrow> True | Some i \<Rightarrow> uu_issuer op \<noteq> i)
    (rbind (asset_times_price (mk_asset 1 (uu_asset op)) (uu_exchange_rate op)) (\<lambda>dummy.
     fc_assert (asset_id dummy = 0) (Inr ()))))))"

definition is_fixed_max_supply :: "asset_object \<Rightarrow> bool" where
  "is_fixed_max_supply a = (fixed_max_supply_ext (asset_opts a) = Some True)"

text \<open>The 64 bit \<open>max_supply\<close> of the operation is unsigned and is converted to a signed amount.\<close>

definition update_uia_do_evaluate :: "update_user_issued_asset_operation \<Rightarrow> database \<Rightarrow> unit result" where
  "update_uia_do_evaluate op db =
     rbind (idx_get (assets db) (uu_asset op)) (\<lambda>a.
     fc_assert (\<not> is_monitored_asset a \<and> uu_asset op \<noteq> 0)
    (rbind (idx_get (dynamic_data db) (dynamic_asset_data_id a)) (\<lambda>d.
     fc_assert (to_int64 (uu_max_supply op) \<ge> current_supply d)
    (fc_assert (case new_issuer op of None \<Rightarrow> True | Some i \<Rightarrow> idx_find (accounts db) i \<noteq> None)
    (fc_assert (is_fixed_max_supply a \<longrightarrow> to_int64 (uu_max_supply op) = max_supply (asset_opts a))
    (fc_assert (uu_issuer op = issuer a) (Inr ())))))))"

definition update_uia :: "update_user_issued_asset_operation \<Rightarrow> asset_object \<Rightarrow> asset_object" where
  "update_uia op a =
     a\<lparr>issuer := (case new_issuer op of None \<Rightarrow> issuer a | Some i \<Rightarrow> i),
       description := (if uu_description op \<noteq> [] then uu_description op else description a),
       asset_opts := (asset_opts a)\<lparr>max_supply := to_int64 (uu_max_supply op), opt_exchange_rate := uu_exchange_rate op,
         is_exchangeable := uu_is_exchangeable op\<rparr>\<rparr>"

definition update_uia_do_apply :: "update_user_issued_asset_operation \<Rightarrow> database \<Rightarrow> database result" where
  "update_uia_do_apply op db = modify_asset (uu_asset op) (\<lambda>a. Inr (update_uia op a)) db"

definition HARDFORK_3_TIME :: int where "HARDFORK_3_TIME = 1536825600"

record update_advanced_operation =
  ua_fee :: asset
  ua_issuer :: nat
  ua_asset :: nat
  new_precision :: nat
  set_fixed_max_supply :: bool

definition update_advanced_validate :: "update_advanced_operation \<Rightarrow> unit result" where
  "update_advanced_validate op = fc_assert (amount (ua_fee op) \<ge> 0) (fc_assert (new_precision op \<le> 12) (Inr ()))"

text \<open>The check returns \<open>set_precision\<close> and \<open>count_fixed_max_supply_ext\<close> for the update.\<close>

definition update_advanced_do_evaluate :: "update_advanced_operation \<Rightarrow> database \<Rightarrow> (bool \<times> bool) result" where
  "update_advanced_do_evaluate op db =
     rbind (idx_get (assets db) (ua_asset op)) (\<lambda>a.
     fc_assert (head_block_time db > HARDFORK_3_TIME)
    (fc_assert (ua_issuer op = issuer a)
    (fc_assert (\<not> is_monitored_asset a \<and> ua_asset op \<noteq> 0)
    (let set_precision = (new_precision op \<noteq> precision a) in
     fc_assert (set_precision \<longrightarrow> list_all (\<lambda>b. asset_type b \<noteq> ua_asset op) (idx_objects (balances db)))
    (fc_assert (\<not> is_fixed_max_supply a \<or> \<not> set_fixed_max_supply op)
    (fc_assert (set_precision \<or> set_fixed_max_supply op)
      (Inr (set_precision, fixed_max_supply_ext (asset_opts a) \<noteq> None))))))))"

definition update_advanced :: "update_advanced_operation \<Rightarrow> bool \<times> bool \<Rightarrow> asset_object \<Rightarrow> asset_object" where
  "update_advanced op e a =
     a\<lparr>precision := (if fst e then new_precision op else precision a),
       asset_opts := (asset_opts a)\<lparr>fixed_max_supply_ext :=
         (if \<not> snd e then Some (set_fixed_max_supply op)
          else if set_fixed_max_supply op then Some True
          else fixed_max_supply_ext (asset_opts a))\<rparr>\<rparr>"

definition update_advanced_do_apply :: "update_advanced_operation \<Rightarrow> bool \<times> bool \<Rightarrow> database \<Rightarrow> database result" where
  "update_advanced_do_apply op e db = modify_asset (ua_asset op) (\<lambda>a. Inr (update_advanced op e a)) db"

section \<open>Pools\<close>

record asset_fund_pools_operation =
  fp_fee :: asset
  fp_from :: nat
  fp_uia :: asset
  fp_dct :: asset

definition fund_pools_validate :: "asset_fund_pools_operation \<Rightarrow> unit result" where
  "fund_pools_validate op =
     fc_assert (amount (fp_fee op) \<ge> 0)
    (fc_assert (asset_id (fp_fee op) = 0)
    (fc_assert (asset_id (fp_dct op) = 0)
    (fc_assert (amount (fp_uia op) \<ge> 0 \<and> amount (fp_dct op) \<ge> 0)
    (fc_assert (amount (fp_uia op) > 0 \<or> amount (fp_dct op) > 0) (Inr ())))))"

definition fund_pools_do_evaluate :: "asset_fund_pools_operation \<Rightarrow> database \<Rightarrow> unit result" where
  "fund_pools_do_evaluate op db =
     rbind (idx_get (assets db) (asset_id (fp_uia op))) (\<lambda>a.
     fc_assert (\<not> is_monitored_asset a \<and> asset_id (fp_uia op) \<noteq> 0)
    (rbind (idx_get (dynamic_data db) (dynamic_asset_data_id a)) (\<lambda>_.
     rbind (asset_le (fp_uia op) (get_balance (fp_from op) (asset_id (fp_uia op)) db)) (\<lambda>enough.
     fc_assert enough
    (rbind (asset_le (fp_dct op) (get_balance (fp_from op) 0 db)) (\<lambda>enough.
     fc_assert enough (Inr ())))))))"

definition add_asset_pool :: "safe \<Rightarrow> int \<Rightarrow> asset_dynamic_data_object \<Rightarrow> asset_dynamic_data_object result" where
  "add_asset_pool S x d = rbind (S (asset_pool d + x)) (\<lambda>p. Inr (d\<lparr>asset_pool := p\<rparr>))"

definition add_core_pool :: "safe \<Rightarrow> int \<Rightarrow> asset_dynamic_data_object \<Rightarrow> asset_dynamic_data_object result" where
  "add_core_pool S x d = rbind (S (core_pool d + x)) (\<lambda>p. Inr (d\<lparr>core_pool := p\<rparr>))"

definition fund_pools_do_apply :: "safe \<Rightarrow> asset_fund_pools_operation \<Rightarrow> database \<Rightarrow> database result" where
  "fund_pools_do_apply S op db =
     rbind (idx_get (assets db) (asset_id (fp_uia op))) (\<lambda>a.
     rbind (if amount (fp_uia op) > 0 then
              rbind (asset_neg S (fp_uia op)) (\<lambda>n. rbind (adjust_balance S (fp_from op) n db) (\<lambda>db'.
              modify_dynamic_data (dynamic_asset_data_id a) (add_asset_pool S (amount (fp_uia op))) db'))
            else Inr db) (\<lambda>db1.
     if amount (fp_dct op) > 0 then
       rbind (asset_neg S (fp_dct op)) (\<lambda>n. rbind (adjust_balance S (fp_from op) n db1) (\<lambda>db'.
       modify_dynamic_data (dynamic_asset_data_id a) (add_core_pool S (amount (fp_dct op))) db'))
     else Inr db1))"

record asset_claim_fees_operation =
  cf_fee :: asset
  cf_issuer :: nat
  cf_uia :: asset
  cf_dct :: asset

definition claim_fees_validate :: "asset_claim_fees_operation \<Rightarrow> unit result" where
  "claim_fees_validate op =
     fc_assert (amount (cf_fee op) \<ge> 0)
    (fc_assert (asset_id (cf_dct op) = 0)
    (fc_assert (amount (cf_uia op) \<ge> 0 \<and> amount (cf_dct op) \<ge> 0)
    (fc_assert (amount (cf_uia op) > 0 \<or> amount (cf_dct op) > 0) (Inr ()))))"

definition claim_fees_do_evaluate :: "asset_claim_fees_operation \<Rightarrow> database \<Rightarrow> unit result" where
  "claim_fees_do_evaluate op db =
     rbind (idx_get (assets db) (asset_id (cf_uia op))) (\<lambda>a.
     fc_assert (issuer a = cf_issuer op)
    (fc_assert (\<not> is_monitored_asset a)
    (rbind (idx_get (dynamic_data db) (dynamic_asset_data_id a)) (\<lambda>d.
     fc_assert (amount (cf_uia op) \<le> asset_pool d)
    (fc_assert (amount (cf_dct op) \<le> core_pool d) (Inr ()))))))"

definition claim_fees_do_apply :: "safe \<Rightarrow> asset_claim_fees_operation \<Rightarrow> database \<Rightarrow> database result" where
  "claim_fees_do_apply S op db =
     rbind (idx_get (assets db) (asset_id (cf_uia op))) (\<lambda>a.
     rbind (if amount (cf_uia op) > 0 then
              rbind (adjust_balance S (cf_issuer op) (cf_uia op) db) (\<lambda>db'.
              modify_dynamic_data (dynamic_asset_data_id a) (add_asset_pool S (- amount (cf_uia op))) db')
            else Inr db) (\<lambda>db1.
     if amount (cf_dct op) > 0 then
       rbind (adjust_balance S (cf_issuer op) (cf_dct op) db1) (\<lambda>db'.
       modify_dynamic_data (dynamic_asset_data_id a) (add_core_pool S (- amount (cf_dct op))) db')
     else Inr db1))"

section \<open>Feeds\<close>

record asset_publish_feed_operation =
  pf_fee :: asset
  pf_publisher :: nat
  pf_asset :: nat
  pf_feed :: price_feed

definition publish_feed_validate :: "asset_publish_feed_operation \<Rightarrow> unit result" where
  "publish_feed_validate op =
     fc_assert (amount (pf_fee op) \<ge> 0)
    (rbind (price_feed_validate (pf_feed op)) (\<lambda>_.
     rbind (if \<not> is_null (core_exchange_rate (pf_feed op)) then price_validate (core_exchange_rate (pf_feed op)) else Inr ()) (\<lambda>_.
     fc_assert (\<not> is_null (core_exchange_rate (pf_feed op)))
    (fc_assert (is_for (pf_feed op) (pf_asset op)) (Inr ())))))"

definition publish_feed_do_evaluate :: "asset_publish_feed_operation \<Rightarrow> database \<Rightarrow> unit result" where
  "publish_feed_do_evaluate op db =
     (let r = core_exchange_rate (pf_feed op) in
      rbind (idx_get (assets db) (pf_asset op)) (\<lambda>a.
      fc_assert (is_monitored_asset a)
     (rbind (idx_get (accounts db) GRAPHENE_MINER_ACCOUNT) (\<lambda>m.
      fc_assert (map_of (account_auths (acc_active m)) (pf_publisher op) \<noteq> None)
     (fc_assert (asset_id (base r) = 0 \<or> asset_id (quote r) = 0)
     (fc_assert (asset_id (base r) = pf_asset op \<or> asset_id (quote r) = pf_asset op) (Inr ())))))))"

definition publish_feed :: "asset_publish_feed_operation \<Rightarrow> int \<Rightarrow> asset_object \<Rightarrow> asset_object result" where
  "publish_feed op t a =
     rbind (deref (monitored_asset_opts a)) (\<lambda>m.
     rbind (update_median_feeds t (m\<lparr>feeds := map_assign (pf_publisher op) (t, pf_feed op) (feeds m)\<rparr>)) (\<lambda>m'.
       Inr (a\<lparr>monitored_asset_opts := Some m'\<rparr>)))"

definition publish_feed_do_apply :: "asset_publish_feed_operation \<Rightarrow> database \<Rightarrow> database result" where
  "publish_feed_do_apply op db = modify_asset (pf_asset op) (publish_feed op (head_block_time db)) db"

section \<open>All of them\<close>

datatype asset_operation =
    Asset_create asset_create_operation
  | Asset_issue asset_issue_operation
  | Publish_feed asset_publish_feed_operation
  | Fund_pools asset_fund_pools_operation
  | Asset_reserve asset_reserve_operation
  | Claim_fees asset_claim_fees_operation
  | Update_uia update_user_issued_asset_operation
  | Update_monitored update_monitored_asset_operation
  | Update_advanced update_advanced_operation

fun asset_payer :: "asset_operation \<Rightarrow> nat" where
  "asset_payer (Asset_create op) = asset_create_fee_payer op"
| "asset_payer (Asset_issue op) = ai_issuer op"
| "asset_payer (Publish_feed op) = pf_publisher op"
| "asset_payer (Fund_pools op) = fp_from op"
| "asset_payer (Asset_reserve op) = ar_payer op"
| "asset_payer (Claim_fees op) = cf_issuer op"
| "asset_payer (Update_uia op) = uu_issuer op"
| "asset_payer (Update_monitored op) = um_issuer op"
| "asset_payer (Update_advanced op) = ua_issuer op"

fun asset_fee :: "asset_operation \<Rightarrow> asset" where
  "asset_fee (Asset_create op) = ac_fee op"
| "asset_fee (Asset_issue op) = ai_fee op"
| "asset_fee (Publish_feed op) = pf_fee op"
| "asset_fee (Fund_pools op) = fp_fee op"
| "asset_fee (Asset_reserve op) = ar_fee op"
| "asset_fee (Claim_fees op) = cf_fee op"
| "asset_fee (Update_uia op) = uu_fee op"
| "asset_fee (Update_monitored op) = um_fee op"
| "asset_fee (Update_advanced op) = ua_fee op"

fun asset_validate :: "asset_operation \<Rightarrow> unit result" where
  "asset_validate (Asset_create op) = asset_create_validate op"
| "asset_validate (Asset_issue op) = asset_issue_validate op"
| "asset_validate (Publish_feed op) = publish_feed_validate op"
| "asset_validate (Fund_pools op) = fund_pools_validate op"
| "asset_validate (Asset_reserve op) = asset_reserve_validate op"
| "asset_validate (Claim_fees op) = claim_fees_validate op"
| "asset_validate (Update_uia op) = update_uia_validate op"
| "asset_validate (Update_monitored op) = update_monitored_validate op"
| "asset_validate (Update_advanced op) = update_advanced_validate op"

text \<open>What the check of the advanced update finds is passed on; the other checks pass on nothing.\<close>

definition checked :: "unit result \<Rightarrow> fee_state \<Rightarrow> ((bool \<times> bool) \<times> fee_state) result" where
  "checked c fs = rbind c (\<lambda>_. Inr ((False, False), fs))"

fun asset_check :: "safe \<Rightarrow> asset_operation \<Rightarrow> fee_state \<Rightarrow> database \<Rightarrow> ((bool \<times> bool) \<times> fee_state) result" where
  "asset_check S (Asset_create op) fs db = rbind (asset_create_do_evaluate S op fs db) (\<lambda>(_, fs'). Inr ((False, False), fs'))"
| "asset_check S (Asset_issue op) fs db = checked (asset_issue_do_evaluate S op db) fs"
| "asset_check S (Publish_feed op) fs db = checked (publish_feed_do_evaluate op db) fs"
| "asset_check S (Fund_pools op) fs db = checked (fund_pools_do_evaluate op db) fs"
| "asset_check S (Asset_reserve op) fs db = checked (asset_reserve_do_evaluate S op db) fs"
| "asset_check S (Claim_fees op) fs db = checked (claim_fees_do_evaluate op db) fs"
| "asset_check S (Update_uia op) fs db = checked (update_uia_do_evaluate op db) fs"
| "asset_check S (Update_monitored op) fs db = checked (update_monitored_do_evaluate op db) fs"
| "asset_check S (Update_advanced op) fs db = rbind (update_advanced_do_evaluate op db) (\<lambda>e. Inr (e, fs))"

fun asset_change :: "safe \<Rightarrow> asset_operation \<Rightarrow> bool \<times> bool \<Rightarrow> fee_state \<Rightarrow> database \<Rightarrow> database result" where
  "asset_change S (Asset_create op) e fs db = asset_create_do_apply op () fs db"
| "asset_change S (Asset_issue op) e fs db = asset_issue_do_apply S op db"
| "asset_change S (Publish_feed op) e fs db = publish_feed_do_apply op db"
| "asset_change S (Fund_pools op) e fs db = fund_pools_do_apply S op db"
| "asset_change S (Asset_reserve op) e fs db = asset_reserve_do_apply S op db"
| "asset_change S (Claim_fees op) e fs db = claim_fees_do_apply S op db"
| "asset_change S (Update_uia op) e fs db = update_uia_do_apply op db"
| "asset_change S (Update_monitored op) e fs db = update_monitored_do_apply op db"
| "asset_change S (Update_advanced op) e fs db = update_advanced_do_apply op e db"

definition run_asset :: "safe \<Rightarrow> int option \<Rightarrow> asset_operation \<Rightarrow> database \<Rightarrow> database result" where
  "run_asset S required op db =
     start_evaluate S False required (asset_payer op) (asset_fee op) (asset_check S op) (asset_change S op) db"

end
