(* ===== verification/Accounts.thy ===== *)
theory Accounts
  imports Authorities Vote_Ids Housekeeping Asset_Operations
begin

text \<open>
  Accounts (\<open>protocol/account.cpp\<close>, \<open>account_evaluator.cpp\<close>, \<open>account_object.cpp\<close>): the grammar of
  names, the validation of options, creation and update of an account.
\<close>

section \<open>Names\<close>

definition GRAPHENE_MIN_ACCOUNT_NAME_LENGTH :: nat where "GRAPHENE_MIN_ACCOUNT_NAME_LENGTH = 5"
definition GRAPHENE_MAX_ACCOUNT_NAME_LENGTH :: nat where "GRAPHENE_MAX_ACCOUNT_NAME_LENGTH = 63"

text \<open>
  One round of the loop looks at the characters from \<open>begin\<close> up to the next dot; \<open>rest\<close> is the name from
  \<open>begin\<close> on, so \<open>end - begin\<close> is the length of \<open>label\<close> and \<open>end == len\<close> says that the label is all that is left.
\<close>

definition label_chars :: "string \<Rightarrow> bool" where
  "label_chars l \<longleftrightarrow> 3 \<le> length l \<and> islower (l ! 0) \<and> (islower (l ! (length l - 1)) \<or> isdigit (l ! (length l - 1))) \<and>
     list_all (\<lambda>i. islower (l ! i) \<or> isdigit (l ! i) \<or> l ! i = CHR ''-'') [1..<length l - 1]"

function valid_labels :: "string \<Rightarrow> bool" where
  "valid_labels rest =
     (let label = takeWhile (\<lambda>c. c \<noteq> CHR ''.'') rest in
      if \<not> label_chars label then False
      else if length label = length rest then True
      else valid_labels (drop (length label + 1) rest))"
  by pat_completeness auto
termination
proof (relation "measure length")
  fix rest label :: string
  assume "label = takeWhile (\<lambda>c. c \<noteq> CHR ''.'') rest" "length label \<noteq> length rest"
  then have "rest \<noteq> []" by auto
  then show "(drop (length label + 1) rest, rest) \<in> measure length" by (cases rest) simp_all
qed simp

definition is_valid_name :: "string \<Rightarrow> bool" where
  "is_valid_name name =
     (if length name < GRAPHENE_MIN_ACCOUNT_NAME_LENGTH then False
      else if length name > GRAPHENE_MAX_ACCOUNT_NAME_LENGTH then False
      else valid_labels name)"

fun cheap_loop :: "bool \<Rightarrow> string \<Rightarrow> bool" where
  "cheap_loop v [] = (\<not> v)"
| "cheap_loop v (c # cs) =
     (if isdigit c then True
      else if c \<in> {CHR ''.'', CHR ''-'', CHR ''/''} then True
      else cheap_loop (v \<or> c \<in> set ''aeiouy'') cs)"

definition is_cheap_name :: "string \<Rightarrow> bool" where
  "is_cheap_name n = cheap_loop False n"

definition cut_fee :: "int \<Rightarrow> int \<Rightarrow> int" where
  "cut_fee a p =
     (if a = 0 \<or> p = 0 then 0 else if p = 10000 then a
      else to_int64 (u64 (u128 (u128 a * p) div 10000)))"

section \<open>Options\<close>

definition DECENT_MAX_SUBSCRIPTION_PERIOD :: int where "DECENT_MAX_SUBSCRIPTION_PERIOD = 365"

text \<open>
  An operation carries vote ids; an account keeps their instances, which is all the chain uses of them. The first
  argument is the list of ids the options were given.
\<close>

fun needed_loop :: "vote_id_type list \<Rightarrow> nat \<Rightarrow> nat" where
  "needed_loop [] n = n"
| "needed_loop (v # vs) n = needed_loop vs (if vote_type v = VOTE_TYPE_MINER \<and> n \<noteq> 0 then n - 1 else n)"

definition account_options_validate :: "vote_id_type list \<Rightarrow> account_options \<Rightarrow> unit result" where
  "account_options_validate vs o' =
     fc_assert (needed_loop vs (num_miner o') = 0)
    (if allow_subscription o' then
       fc_assert (subscription_period o' > 0 \<and> subscription_period o' \<le> DECENT_MAX_SUBSCRIPTION_PERIOD)
      (fc_assert (amount (price_per_subscribe o') > 0) (Inr ()))
     else Inr ())"

definition with_votes :: "vote_id_type list \<Rightarrow> account_options \<Rightarrow> account_options" where
  "with_votes vs o' = o'\<lparr>votes := map (\<lambda>v. unat (vote_instance v)) vs\<rparr>"

section \<open>Creation\<close>

record account_create_operation =
  acr_fee :: asset
  acr_registrar :: nat
  acr_name :: string
  acr_owner :: authority
  acr_active :: authority
  acr_options :: account_options
  acr_votes :: "vote_id_type list"

definition account_create_validate :: "account_create_operation \<Rightarrow> unit result" where
  "account_create_validate op =
     fc_assert (amount (acr_fee op) \<ge> 0)
    (fc_assert (is_valid_name (acr_name op))
    (fc_assert (num_auths (acr_owner op) \<noteq> 0)
    (fc_assert (num_auths (acr_active op) \<noteq> 0)
    (fc_assert (\<not> is_impossible (acr_owner op))
    (fc_assert (\<not> is_impossible (acr_active op))
    (account_options_validate (acr_votes op) (acr_options op)))))))"

definition verify_authority_accounts :: "authority \<Rightarrow> database \<Rightarrow> unit result" where
  "verify_authority_accounts a db =
     (if \<not> num_auths a \<le> int (maximum_authority_membership (parameters (gpo db))) then Inl other_exception
      else if \<not> list_all (\<lambda>r. idx_find (accounts db) (fst r) \<noteq> None) (account_auths a) then Inl other_exception
      else Inr ())"

definition find_account :: "string \<Rightarrow> database \<Rightarrow> (nat \<times> account_object) option" where
  "find_account n db = idx_find_by (\<lambda>a. acc_name a = n) (accounts db)"

definition account_create_do_evaluate :: "account_create_operation \<Rightarrow> database \<Rightarrow> unit result" where
  "account_create_do_evaluate op db =
     fc_assert (idx_find (accounts db) (voting_account (acr_options op)) \<noteq> None)
    (rbind (verify_authority_accounts (acr_owner op) db) (\<lambda>_.
     rbind (verify_authority_accounts (acr_active op) db) (\<lambda>_.
     if acr_name op \<noteq> [] then fc_assert (find_account (acr_name op) db = None) (Inr ()) else Inr ())))"

text \<open>The statistics are created while the account is under construction, with the id the account is about to get.\<close>

definition account_create_do_apply :: "account_create_operation \<Rightarrow> database \<Rightarrow> database result" where
  "account_create_do_apply o' db =
     rbind (create_account_stats \<lparr>stat_owner = next_id (accounts db), total_core_in_orders = 0\<rparr> db) (\<lambda>(sid, db1).
     rbind (create_account \<lparr>registrar = acr_registrar o', acc_name = acr_name o', acc_owner = acr_owner o', acc_active = acr_active o',
              acc_options = with_votes (acr_votes o') (acr_options o'),
              rights_to_publish = \<lparr>is_publishing_manager = False, publishing_rights_received = {}, publishing_rights_forwarded = []\<rparr>,
              acc_statistics = sid, cashback_vb = None, top_n_control_flags = 0\<rparr> db1) (\<lambda>(i, db2).
     let d = dpo db2;
         db3 = db2\<lparr>dpo := d\<lparr>accounts_registered_this_interval := u32 (accounts_registered_this_interval d + 1)\<rparr>\<rparr>
     in create_detail \<lparr>m_from_account = acr_registrar o', m_to_account = i, m_operation_type = td_account_create,
          m_transaction_amount = mk_asset 0 0, m_transaction_fee = acr_fee o', m_str_description = [], m_timestamp = head_block_time db3\<rparr> db3))"

section \<open>Update\<close>

record account_update_operation =
  aup_fee :: asset
  aup_account :: nat
  aup_owner :: "authority option"
  aup_active :: "authority option"
  aup_options :: "account_options option"
  aup_votes :: "vote_id_type list"

definition possible_authority :: "authority option \<Rightarrow> bool" where
  "possible_authority a \<longleftrightarrow> (case a of None \<Rightarrow> True | Some x \<Rightarrow> num_auths x \<noteq> 0 \<and> \<not> is_impossible x)"

definition account_update_validate :: "account_update_operation \<Rightarrow> unit result" where
  "account_update_validate op =
     fc_assert (aup_account op \<noteq> GRAPHENE_TEMP_ACCOUNT)
    (fc_assert (amount (aup_fee op) \<ge> 0)
    (fc_assert (aup_account op \<noteq> 0)
    (fc_assert (aup_owner op \<noteq> None \<or> aup_active op \<noteq> None \<or> aup_options op \<noteq> None)
    (fc_assert (possible_authority (aup_owner op))
    (fc_assert (possible_authority (aup_active op))
    (case aup_options op of None \<Rightarrow> Inr () | Some o' \<Rightarrow> account_options_validate (aup_votes op) o'))))))"

definition verify_account_votes :: "account_options \<Rightarrow> database \<Rightarrow> unit result" where
  "verify_account_votes o' db =
     fc_assert (num_miner o' \<le> maximum_miner_count (parameters (gpo db)))
    (fc_assert (list_all (\<lambda>v. v < next_available_vote_id (gpo db)) (votes o')) (Inr ()))"

definition verify_if_given :: "authority option \<Rightarrow> database \<Rightarrow> unit result" where
  "verify_if_given a db = (case a of None \<Rightarrow> Inr () | Some x \<Rightarrow> verify_authority_accounts x db)"

definition account_update_do_evaluate :: "account_update_operation \<Rightarrow> database \<Rightarrow> unit result" where
  "account_update_do_evaluate op db =
     rbind (verify_if_given (aup_owner op) db) (\<lambda>_.
     rbind (verify_if_given (aup_active op) db) (\<lambda>_.
     rbind (idx_get (accounts db) (aup_account op)) (\<lambda>_.
     case aup_options op of
       None \<Rightarrow> Inr ()
     | Some o' \<Rightarrow>
         rbind (verify_account_votes (with_votes (aup_votes op) o') db) (\<lambda>_.
         rbind (idx_get (assets db) (asset_id (price_per_subscribe o'))) (\<lambda>ao.
         fc_assert (asset_id (price_per_subscribe o') = 0 \<or> is_monitored_asset ao) (Inr ()))))))"

definition terms_changed :: "account_options \<Rightarrow> account_options \<Rightarrow> bool" where
  "terms_changed old new \<longleftrightarrow> \<not> allow_subscription new \<or> price_per_subscribe old \<noteq> price_per_subscribe new \<or>
     subscription_period old \<noteq> subscription_period new"

text \<open>
  The subscriptions to an author that renew themselves. The loop runs over a range of the index by author and
  renewal; clearing the flag of the first element of the range does not move it, because it already follows every
  element without the flag, so each is visited once.
\<close>

definition renewing_to :: "nat \<Rightarrow> database \<Rightarrow> (nat \<times> subscription_object) list" where
  "renewing_to x db = filter (\<lambda>r. sub_to (snd r) = x \<and> automatic_renewal (snd r)) (rows (subscriptions db))"

definition update_account :: "account_update_operation \<Rightarrow> account_object \<Rightarrow> account_object" where
  "update_account o' a =
     (let a1 = (case aup_owner o' of None \<Rightarrow> a | Some x \<Rightarrow> a\<lparr>acc_owner := x, top_n_control_flags := 0\<rparr>);
          a2 = (case aup_active o' of None \<Rightarrow> a1 | Some x \<Rightarrow> a1\<lparr>acc_active := x, top_n_control_flags := 0\<rparr>)
      in case aup_options o' of None \<Rightarrow> a2 | Some x \<Rightarrow> a2\<lparr>acc_options := with_votes (aup_votes o') x\<rparr>)"

definition account_update_do_apply :: "account_update_operation \<Rightarrow> database \<Rightarrow> database result" where
  "account_update_do_apply o' db =
     rbind (idx_get (accounts db) (aup_account o')) (\<lambda>a.
     rbind (case aup_options o' of
              None \<Rightarrow> Inr db
            | Some x \<Rightarrow>
                if terms_changed (acc_options a) x
                then fold_res (\<lambda>(sid, s). disallow_renewal sid s) (renewing_to (aup_account o') db) db
                else Inr db) (\<lambda>db1.
     modify_account (aup_account o') (update_account o') db1))"

section \<open>Names follow the grammar\<close>

text \<open>The grammar of the documentation: labels separated by dots.\<close>

definition label_ok :: "string \<Rightarrow> bool" where
  "label_ok l \<longleftrightarrow> 3 \<le> length l \<and> islower (hd l) \<and> (islower (last l) \<or> isdigit (last l)) \<and>
     list_all (\<lambda>c. islower c \<or> isdigit c \<or> c = CHR ''-'') l"

fun join_labels :: "string list \<Rightarrow> string" where
  "join_labels [] = []"
| "join_labels [l] = l"
| "join_labels (l # m # ls) = l @ CHR ''.'' # join_labels (m # ls)"

declare valid_labels.simps [simp del]

lemma label_chars_ok: "label_chars l \<longleftrightarrow> label_ok l"
proof (cases "3 \<le> length l")
  case True
  then have hd: "hd l = l ! 0" and last: "last l = l ! (length l - 1)" by (cases l; simp add: last_conv_nth)+
  have "list_all P l \<longleftrightarrow> P (l ! 0) \<and> P (l ! (length l - 1)) \<and> list_all (\<lambda>i. P (l ! i)) [1..<length l - 1]" for P
  proof -
    have "{0..<length l} = {0, length l - 1} \<union> {1..<length l - 1}" using True by auto
    moreover have "list_all P l \<longleftrightarrow> (\<forall>i\<in>{0..<length l}. P (l ! i))" by (auto simp: list_all_length)
    ultimately show ?thesis by (simp add: list_all_iff)
  qed
  from this [of "\<lambda>c. islower c \<or> isdigit c \<or> c = CHR ''-''"] show ?thesis using True by (auto simp: label_chars_def label_ok_def hd last)
qed (simp add: label_chars_def label_ok_def)

lemma label_no_dot: "label_ok l \<Longrightarrow> CHR ''.'' \<notin> set l"
  by (auto simp: label_ok_def list_all_iff islower_def isdigit_def)

lemma valid_labels_join: "valid_labels s \<longleftrightarrow> (\<exists>ls. ls \<noteq> [] \<and> list_all label_ok ls \<and> s = join_labels ls)"
proof (induction s rule: valid_labels.induct)
  case (1 s)
  let ?l = "takeWhile (\<lambda>c. c \<noteq> CHR ''.'') s"
  have cut: "?l = l" "s = l \<or> (\<exists>t. s = l @ CHR ''.'' # t)" if "ls \<noteq> []" "list_all label_ok ls" "s = join_labels ls" "l = hd ls" for l ls
    using that label_no_dot [of l] by (cases ls rule: join_labels.cases; auto simp: takeWhile_append takeWhile_eq_all_conv)+
  show ?case
  proof (cases "label_ok ?l")
    case False
    have "\<not> (\<exists>ls. ls \<noteq> [] \<and> list_all label_ok ls \<and> s = join_labels ls)"
    proof
      assume "\<exists>ls. ls \<noteq> [] \<and> list_all label_ok ls \<and> s = join_labels ls"
      then obtain ls where ls: "ls \<noteq> []" "list_all label_ok ls" "s = join_labels ls" by blast
      then have "label_ok (hd ls)" by (cases ls) simp_all
      with cut(1) [OF ls refl] False show False by simp
    qed
    with False show ?thesis by (simp add: valid_labels.simps [of s] label_chars_ok)
  next
    case ok: True
    show ?thesis
    proof (cases "length ?l = length s")
      case True
      then have "s = ?l" by (metis append_eq_conv_conj takeWhile_eq_take take_all_iff order_refl takeWhile_dropWhile_id)
      with ok have "[?l] \<noteq> [] \<and> list_all label_ok [?l] \<and> s = join_labels [?l]" by simp
      then have "\<exists>ls. ls \<noteq> [] \<and> list_all label_ok ls \<and> s = join_labels ls" by (rule exI)
      with True ok show ?thesis by (simp add: valid_labels.simps [of s] label_chars_ok)
    next
      case False
      have sp: "s = ?l @ dropWhile (\<lambda>c. c \<noteq> CHR ''.'') s" by simp
      have "dropWhile (\<lambda>c. c \<noteq> CHR ''.'') s \<noteq> []"
      proof
        assume "dropWhile (\<lambda>c. c \<noteq> CHR ''.'') s = []"
        with sp have "s = ?l" by (metis append_Nil2)
        with False show False by (metis (no_types))
      qed
      then obtain c t where c: "dropWhile (\<lambda>c. c \<noteq> CHR ''.'') s = c # t" by (cases "dropWhile (\<lambda>c. c \<noteq> CHR ''.'') s") auto
      then have "c = CHR ''.''" using hd_dropWhile [of "\<lambda>c. c \<noteq> CHR ''.''" s] by simp
      with sp c have t: "s = ?l @ CHR ''.'' # t" by simp
      have "drop (length l + 1) (l @ x # t) = t" for l :: string and x by simp
      from this [of ?l "CHR ''.''"] have d: "drop (length ?l + 1) s = t" by (simp only: t [symmetric])
      have IH: "valid_labels t \<longleftrightarrow> (\<exists>ls. ls \<noteq> [] \<and> list_all label_ok ls \<and> t = join_labels ls)"
        using 1 [OF refl _ False] ok d by (simp add: label_chars_ok)
      have "valid_labels s \<longleftrightarrow> valid_labels t" using ok False d by (simp add: valid_labels.simps [of s] label_chars_ok Let_def)
      moreover have "(\<exists>ls. ls \<noteq> [] \<and> list_all label_ok ls \<and> t = join_labels ls) \<longleftrightarrow> (\<exists>ls. ls \<noteq> [] \<and> list_all label_ok ls \<and> s = join_labels ls)"
      proof
        assume "\<exists>ls. ls \<noteq> [] \<and> list_all label_ok ls \<and> t = join_labels ls"
        then obtain m ls where "list_all label_ok (m # ls)" "t = join_labels (m # ls)" by (metis neq_Nil_conv)
        with ok t have "list_all label_ok (?l # m # ls)" "s = join_labels (?l # m # ls)" by simp_all
        then show "\<exists>ls. ls \<noteq> [] \<and> list_all label_ok ls \<and> s = join_labels ls" by blast
      next
        assume "\<exists>ls. ls \<noteq> [] \<and> list_all label_ok ls \<and> s = join_labels ls"
        then obtain ls where ls: "ls \<noteq> []" "list_all label_ok ls" "s = join_labels ls" by blast
        obtain l ks where k: "ls = l # ks" using ls(1) by (cases ls) auto
        have l: "?l = l" using cut(1) [OF ls refl] k by simp
        have "ks \<noteq> []"
        proof
          assume "ks = []"
          with ls(3) k have "s = l" by simp
          with l have "?l = s" by metis
          with False show False by metis
        qed
        then obtain m ms where ms: "ls = l # m # ms" using k by (cases ks) auto
        have "l @ CHR ''.'' # t = l @ CHR ''.'' # join_labels (m # ms)" using t ls(3) ms l by simp
        then have "t = join_labels (m # ms)" by simp
        moreover have "list_all label_ok (m # ms)" using ms ls(2) by simp
        ultimately show "\<exists>ls. ls \<noteq> [] \<and> list_all label_ok ls \<and> t = join_labels ls" by blast
      qed
      ultimately show ?thesis using IH by simp
    qed
  qed
qed

text \<open>
  C32: A name is accepted exactly when it follows the documented grammar: 5 to 63 characters, one or more labels
  separated by dots, each of at least three lower case letters, digits and hyphens, beginning with a letter and
  ending with a letter or a digit.
\<close>

theorem valid_names_follow_grammar:
  "is_valid_name s \<longleftrightarrow> 5 \<le> length s \<and> length s \<le> 63 \<and> (\<exists>ls. ls \<noteq> [] \<and> list_all label_ok ls \<and> s = join_labels ls)"
  by (auto simp: is_valid_name_def GRAPHENE_MIN_ACCOUNT_NAME_LENGTH_def GRAPHENE_MAX_ACCOUNT_NAME_LENGTH_def valid_labels_join)

section \<open>Control of accounts\<close>

text \<open>
  What an account must be able to do: each of its authorities can be satisfied at all. The weights an authority
  distributes reach its threshold.
\<close>

definition controllable :: "account_object \<Rightarrow> bool" where
  "controllable a \<longleftrightarrow> \<not> is_impossible (acc_owner a) \<and> \<not> is_impossible (acc_active a) \<and>
     num_auths (acc_owner a) \<noteq> 0 \<and> num_auths (acc_active a) \<noteq> 0"

text \<open>
  The genesis makes a few accounts that nobody controls: their authorities are empty. So the accounts that are controllable are those outside a
  set.
\<close>

definition accounts_ok :: "nat set \<Rightarrow> database \<Rightarrow> bool" where
  "accounts_ok X db \<longleftrightarrow> wf_index (accounts db) \<and> (\<forall>i a. idx_find (accounts db) i = Some a \<longrightarrow> i \<notin> X \<longrightarrow> controllable a)"

lemma subscriptions_only:
  assumes "fold_res (\<lambda>(sid, s). disallow_renewal sid s) rs db = Inr db'"
  shows "accounts db' = accounts db"
proof -
  have "accounts db' = accounts db" by (rule fold_res_invariant [OF assms, where P = "\<lambda>s. accounts s = accounts db"])
      (auto simp: disallow_renewal_def modify_subscription_def push_applied_operation_def res_simps)
  then show ?thesis .
qed

lemma modify_account_ok:
  assumes ok: "accounts_ok X db" and m: "modify_account i f db = Inr db'" and f: "\<And>a. idx_find (accounts db) i = Some a \<Longrightarrow> controllable a \<Longrightarrow> controllable (f a)"
  shows "accounts_ok X db'"
proof -
  from m obtain t where t: "idx_update account_clash (accounts db) i (\<lambda>x. Inr (f x)) = Inr t" "db' = db\<lparr>accounts := t\<rparr>"
    by (auto simp: modify_account_def res_simps)
  from idx_update_Inr [OF t(1)] ok f t(2) show ?thesis by (auto simp: accounts_ok_def split: if_splits)
qed

lemma created_account_controllable:
  assumes "account_create_validate c = Inr ()" "account_create_do_apply c db = Inr db'"
  shows "\<exists>a i. idx_create account_clash (accounts db) (\<lambda>_. a) = Inr (i, accounts db') \<and> controllable a \<and>
    acc_owner a = acr_owner c \<and> acc_active a = acr_active c"
proof -
  from assms(2) obtain a i t where t: "idx_create account_clash (accounts db) (\<lambda>_. a) = Inr (i, t)" "accounts db' = t"
    and a: "acc_owner a = acr_owner c" "acc_active a = acr_active c"
    by (fastforce simp: account_create_do_apply_def create_account_stats_def create_account_def create_detail_def Let_def res_simps)
  have "controllable a" using assms(1) by (auto simp: account_create_validate_def controllable_def a res_simps)
  with t a show ?thesis by blast
qed

lemma update_account_controllable:
  "account_update_validate u = Inr () \<Longrightarrow> controllable a \<Longrightarrow> controllable (update_account u a)"
  by (auto simp: update_account_def controllable_def account_update_validate_def possible_authority_def Let_def res_simps split: option.splits)

lemma account_update_modifies:
  assumes "account_update_do_apply u db = Inr db'"
  shows "\<exists>db1. accounts db1 = accounts db \<and> modify_account (aup_account u) (update_account u) db1 = Inr db'"
proof -
  from assms obtain a :: account_object and db1 where d: "(case aup_options u of None \<Rightarrow> Inr db | Some x \<Rightarrow>
                if terms_changed (acc_options a) x then fold_res (\<lambda>(sid, s). disallow_renewal sid s) (renewing_to (aup_account u) db) db
                else Inr db) = Inr db1" and m: "modify_account (aup_account u) (update_account u) db1 = Inr db'"
    unfolding account_update_do_apply_def rbind_eq_Inr by blast
  have "accounts db1 = accounts db" using d by (auto split: option.splits if_splits dest: subscriptions_only)
  with m show ?thesis by blast
qed

text \<open>
  C31: Accounts stay controllable. Whichever accounts have authorities that are empty or cannot reach their threshold, as the special
  accounts of the genesis do, neither creating an account nor updating one adds to them: the accounts outside any set
  that had them all stay controllable, and a new account has the authorities of the operation and is controllable.
\<close>

theorem accounts_stay_controllable:
  assumes ok: "accounts_ok X db"
  shows "(account_create_validate c = Inr () \<and> account_create_do_apply c db = Inr db' \<longrightarrow>
      accounts_ok X db' \<and> (\<exists>a. idx_find (accounts db') (next_id (accounts db)) = Some a \<and> controllable a \<and>
        acc_owner a = acr_owner c \<and> acc_active a = acr_active c)) \<and>
    (account_update_validate u = Inr () \<and> account_update_do_apply u db = Inr db' \<longrightarrow> accounts_ok X db')"
proof (intro conjI [of "_ \<longrightarrow> _"] impI; elim conjE)
  assume v: "account_create_validate c = Inr ()" and r: "account_create_do_apply c db = Inr db'"
  from created_account_controllable [OF this] obtain a i
    where a: "idx_create account_clash (accounts db) (\<lambda>_. a) = Inr (i, accounts db')" "controllable a" "acc_owner a = acr_owner c" "acc_active a = acr_active c"
    by blast
  from ok have "wf_index (accounts db)" by (simp add: accounts_ok_def)
  from idx_create_Inr [OF a(1) this] ok a show "accounts_ok X db' \<and> (\<exists>a. idx_find (accounts db') (next_id (accounts db)) = Some a \<and>
      controllable a \<and> acc_owner a = acr_owner c \<and> acc_active a = acr_active c)"
    by (auto simp: accounts_ok_def split: if_splits)
next
  assume v: "account_update_validate u = Inr ()" and "account_update_do_apply u db = Inr db'"
  from account_update_modifies [OF this(2)] obtain db1 where d: "accounts db1 = accounts db"
    and m: "modify_account (aup_account u) (update_account u) db1 = Inr db'" by blast
  from ok d have "accounts_ok X db1" by (simp add: accounts_ok_def)
  from modify_account_ok [OF this m update_account_controllable [OF v]] show "accounts_ok X db'" by simp
qed

definition new_account_example :: account_create_operation where
  "new_account_example = \<lparr>acr_fee = mk_asset 1 0, acr_registrar = 4, acr_name = ''carol-1'',
     acr_owner = \<lparr>weight_threshold = 1, account_auths = [], key_auths = [(11, 1)]\<rparr>,
     acr_active = \<lparr>weight_threshold = 2, account_auths = [(4, 1)], key_auths = [(11, 1)]\<rparr>,
     acr_options = (acc_options account_example)\<lparr>voting_account := 5\<rparr>, acr_votes = [mk_vote_id 0 77]\<rparr>"

text \<open>An account nobody controls beside one that is controlled.\<close>

definition special_accounts_db :: database where
  "special_accounts_db = empty_db\<lparr>accounts := \<lparr>next_id = 5, rows =
     [(0, account_example\<lparr>acc_name := ''miner-account'', acc_owner := \<lparr>weight_threshold = 1, account_auths = [], key_auths = []\<rparr>,
        acc_active := \<lparr>weight_threshold = 1, account_auths = [], key_auths = []\<rparr>\<rparr>),
      (4, account_example\<lparr>acc_owner := acr_owner new_account_example, acc_active := acr_active new_account_example\<rparr>)]\<rparr>\<rparr>"

lemma special_accounts_ok: "accounts_ok {0} special_accounts_db"
  by (auto simp: accounts_ok_def special_accounts_db_def wf_index_def idx_find_def controllable_def new_account_example_def is_impossible_def
      auth_weights_def num_auths_def split: if_splits)

theorem accounts_stay_controllable_witness:
  "\<exists>db'. account_create_do_apply new_account_example special_accounts_db = Inr db' \<and> accounts_ok {0} db' \<and>
     (\<exists>a. idx_find (accounts db') 5 = Some a \<and> controllable a) \<and> (\<exists>a. idx_find (accounts special_accounts_db) 0 = Some a \<and> \<not> controllable a)"
proof -
  have "succeeds (account_create_do_apply new_account_example special_accounts_db)" by code_simp
  then obtain db' where r: "account_create_do_apply new_account_example special_accounts_db = Inr db'" unfolding succeeds_iff ..
  have "account_create_validate new_account_example = Inr ()" by code_simp
  moreover have "\<exists>a. idx_find (accounts special_accounts_db) 0 = Some a \<and> \<not> controllable a"
    by (auto simp: special_accounts_db_def idx_find_def controllable_def num_auths_def)
  moreover have "next_id (accounts special_accounts_db) = 5" by (simp add: special_accounts_db_def)
  ultimately show ?thesis using accounts_stay_controllable [OF special_accounts_ok, of new_account_example db'] r by auto
qed

text \<open>
  The check of the votes is missing when an account is created. A new account may vote for an id that no
  miner has, which an update of the same account would refuse.
\<close>

theorem creation_skips_vote_check:
  "account_create_validate new_account_example = Inr () \<and> account_create_do_evaluate new_account_example chain_example = Inr () \<and>
   verify_account_votes (with_votes (acr_votes new_account_example) (acr_options new_account_example)) chain_example = Inl assert_exception"
  by code_simp

end
