(* ===== verification/Fees.thy ===== *)
theory Fees
  imports Maintenance
begin

text \<open>
  The fee schedule (\<open>protocol/fee_schedule.hpp\<close>, \<open>protocol/fee_schedule.cpp\<close>) and the fee for data
  (\<open>protocol/operations.cpp\<close>): the scaled fee in the core asset and its conversion to another asset,
  and the validation of the chain parameters. What an operation costs before scaling is an argument here;
  the theory of all operations supplies it.
\<close>

section \<open>Fees for data\<close>

definition calculate_data_fee :: "int \<Rightarrow> int \<Rightarrow> int result" where
  "calculate_data_fee bytes price_per_kbyte =
     (let r = u128 (u64 bytes * u64 price_per_kbyte) div 1024 in
      fc_assert (r \<le> GRAPHENE_MAX_SHARE_SUPPLY) (Inr (u64 r)))"

section \<open>The schedule\<close>

definition no_fee :: fee_parameters where
  "no_fee = \<lparr>par_fee = 0, par_kbyte = 0\<rparr>"

text \<open>An operation without an entry is charged by the default parameters of its kind.\<close>

definition parameters_for :: "(nat \<times> fee_parameters) list \<Rightarrow> nat \<Rightarrow> fee_schedule \<Rightarrow> fee_parameters" where
  "parameters_for defaults which s =
     (case map_of (fee_table s) which of
        Some k \<Rightarrow> k
      | None \<Rightarrow> (case map_of defaults which of Some k \<Rightarrow> k | None \<Rightarrow> no_fee))"

definition get_default :: "(nat \<times> fee_parameters) list \<Rightarrow> fee_schedule" where
  "get_default defaults = \<lparr>fee_table = defaults, fee_scale = GRAPHENE_100_PERCENT\<rparr>"

definition zero_all_fees :: "(nat \<times> fee_parameters) list \<Rightarrow> fee_schedule" where
  "zero_all_fees defaults =
     \<lparr>fee_table = map (\<lambda>(i, _). (i, no_fee)) (fee_table (get_default defaults)), fee_scale = 0\<rparr>"

definition scaled_fee :: "fee_schedule \<Rightarrow> int \<Rightarrow> int result" where
  "scaled_fee s base_value =
     (let scaled = u128 (u64 base_value * fee_scale s) div GRAPHENE_100_PERCENT in
      fc_assert (scaled \<le> GRAPHENE_MAX_SHARE_SUPPLY) (Inr scaled))"

definition unit_price :: "nat \<Rightarrow> price" where
  "unit_price a = \<lparr>base = mk_asset 1 a, quote = mk_asset 1 a\<rparr>"

text \<open>The loop that raises a converted fee until it converts back to enough; \<open>None\<close> if it does not end.\<close>

partial_function (option) raise_fee :: "safe \<Rightarrow> price \<Rightarrow> asset \<Rightarrow> asset \<Rightarrow> asset result option" where
  "raise_fee S cer core_fee r =
     (case rbind (asset_times_price r cer) (\<lambda>x. asset_less x core_fee) of
        Inl e \<Rightarrow> Some (Inl e)
      | Inr lt \<Rightarrow>
          if lt then
            (case S (amount r + 1) of
               Inl e \<Rightarrow> Some (Inl e)
             | Inr a \<Rightarrow> raise_fee S cer core_fee (r\<lparr>amount := a\<rparr>))
          else Some (Inr r))"

declare raise_fee.simps [code]

definition fee_in :: "safe \<Rightarrow> price \<Rightarrow> int \<Rightarrow> asset result option" where
  "fee_in S cer scaled =
     (let core_fee = mk_asset scaled 0 in
      case asset_times_price core_fee cer of
        Inl e \<Rightarrow> Some (Inl e)
      | Inr r \<Rightarrow>
          map_option (\<lambda>x. rbind x (\<lambda>f. fc_assert (amount f \<le> GRAPHENE_MAX_SHARE_SUPPLY) (Inr f)))
            (raise_fee S cer core_fee r))"

section \<open>Chain parameters\<close>

definition GRAPHENE_MIN_BLOCK_INTERVAL :: int where "GRAPHENE_MIN_BLOCK_INTERVAL = 1"
definition GRAPHENE_MAX_BLOCK_INTERVAL :: int where "GRAPHENE_MAX_BLOCK_INTERVAL = 30"
definition GRAPHENE_MIN_TRANSACTION_SIZE_LIMIT :: int where "GRAPHENE_MIN_TRANSACTION_SIZE_LIMIT = 1024"
definition GRAPHENE_MIN_BLOCK_SIZE_LIMIT :: int where
  "GRAPHENE_MIN_BLOCK_SIZE_LIMIT = GRAPHENE_MIN_TRANSACTION_SIZE_LIMIT * 5"

text \<open>The difference in the last check is one of two unsigned numbers of 32 bits.\<close>

definition chain_parameters_validate :: "chain_parameters \<Rightarrow> unit result" where
  "chain_parameters_validate p =
     fc_assert (block_interval p \<ge> GRAPHENE_MIN_BLOCK_INTERVAL)
    (fc_assert (block_interval p \<le> GRAPHENE_MAX_BLOCK_INTERVAL)
    (fc_assert (block_interval p > 0)
    (fc_assert (maintenance_interval p > block_interval p)
    (fc_assert (maintenance_interval p mod block_interval p = 0)
    (fc_assert (maximum_transaction_size p \<ge> GRAPHENE_MIN_TRANSACTION_SIZE_LIMIT)
    (fc_assert (maximum_block_size p \<ge> GRAPHENE_MIN_BLOCK_SIZE_LIMIT)
    (fc_assert (maximum_time_until_expiration p > block_interval p)
    (fc_assert (u32 (maximum_proposal_lifetime p - miner_proposal_review_period p) > block_interval p)
      (Inr ())))))))))"

section \<open>The converted fee is the least that covers\<close>

text \<open>An amount \<open>covers\<close> a core fee at a rate when it converts to at least that much.\<close>

definition covers :: "price \<Rightarrow> int \<Rightarrow> asset \<Rightarrow> bool" where
  "covers cer scaled f = (case asset_times_price f cer of Inl _ \<Rightarrow> False | Inr c \<Rightarrow> asset_id c = 0 \<and> scaled \<le> amount c)"

lemma div_mult_reach:
  fixes s n d :: int
  assumes "0 < n" "0 < d"
  shows "s \<le> (s * n div d + 1) * d div n"
proof -
  have "s * n < (s * n div d + 1) * d"
    using assms by (metis add.commute distrib_left mult.commute mult.right_neutral div_mult_mod_eq add_less_cancel_left pos_mod_bound)
  then have "s * n \<le> (s * n div d + 1) * d" by simp
  then show ?thesis using assms by (metis mult.commute nonzero_mult_div_cancel_left order_less_irrefl zdiv_mono1)
qed

lemma div_below:
  fixes x n s :: int
  assumes "0 < n" "x < s * n"
  shows "x div n < s"
proof (rule ccontr)
  assume "\<not> x div n < s"
  then have "s * n \<le> x div n * n" using assms(1) by (simp add: mult_right_mono)
  also have "\<dots> \<le> x" using assms(1) by (metis div_mult_mod_eq le_add_same_cancel1 pos_mod_sign)
  finally show False using assms(2) by simp
qed

lemma fee_times:
  assumes v: "valid_price p" and i: "asset_id (base p) \<noteq> asset_id (quote p)" and c: "asset_id (base p) = 0 \<or> asset_id (quote p) = 0"
  obtains n d where "0 < n" "0 < d"
    "\<And>x. 0 \<le> x \<Longrightarrow> in_int64 x \<Longrightarrow> asset_times_price (mk_asset x 0) p =
       fc_assert (x * n div d \<le> GRAPHENE_MAX_SHARE_SUPPLY) (Inr (mk_asset (x * n div d) (if asset_id (base p) = 0 then asset_id (quote p) else asset_id (base p))))"
    "\<And>x. 0 \<le> x \<Longrightarrow> in_int64 x \<Longrightarrow> asset_times_price (mk_asset x (if asset_id (base p) = 0 then asset_id (quote p) else asset_id (base p))) p =
       fc_assert (x * d div n \<le> GRAPHENE_MAX_SHARE_SUPPLY) (Inr (mk_asset (x * d div n) 0))"
proof (cases "asset_id (base p) = 0")
  case True
  show ?thesis
    by (rule that [of "amount (quote p)" "amount (base p)"])
      (use v i True scale_amount_exact in \<open>auto simp: asset_times_price_def valid_price_def mk_asset_def\<close>)
next
  case False
  show ?thesis
    by (rule that [of "amount (base p)" "amount (quote p)"])
      (use v i c False scale_amount_exact in \<open>auto simp: asset_times_price_def valid_price_def mk_asset_def\<close>)
qed

text \<open>
  C30: A fee paid in another asset is the least that covers. At any valid rate between the core asset and another one
  the loop of \<open>calculate_fee\<close> ends; and the fee it gives is in the other asset, converts to at least the fee in the core asset,
  and no smaller amount does.
\<close>

theorem converted_fee_least:
  assumes S: "safe_exact S" and v: "valid_price cer" "asset_id (base cer) \<noteq> asset_id (quote cer)" "asset_id (base cer) = 0 \<or> asset_id (quote cer) = 0"
    and s: "0 \<le> scaled" "scaled \<le> GRAPHENE_MAX_SHARE_SUPPLY"
  shows "\<exists>y. fee_in S cer scaled = Some y \<and> (\<forall>f. y = Inr f \<longrightarrow>
    asset_id f = (if asset_id (base cer) = 0 then asset_id (quote cer) else asset_id (base cer)) \<and> 0 \<le> amount f \<and> covers cer scaled f \<and>
    (\<forall>g. asset_id g = asset_id f \<longrightarrow> 0 \<le> amount g \<longrightarrow> amount g < amount f \<longrightarrow> \<not> covers cer scaled g))"
proof -
  define i where i: "i = (if asset_id (base cer) = 0 then asset_id (quote cer) else asset_id (base cer))"
  obtain n d where nd: "0 < n" "0 < d"
    and to: "\<And>x. 0 \<le> x \<Longrightarrow> in_int64 x \<Longrightarrow> asset_times_price (mk_asset x 0) cer =
       fc_assert (x * n div d \<le> GRAPHENE_MAX_SHARE_SUPPLY) (Inr (mk_asset (x * n div d) i))"
    and from_fee: "\<And>x. 0 \<le> x \<Longrightarrow> in_int64 x \<Longrightarrow> asset_times_price (mk_asset x i) cer =
       fc_assert (x * d div n \<le> GRAPHENE_MAX_SHARE_SUPPLY) (Inr (mk_asset (x * d div n) 0))"
    using fee_times [OF v] unfolding i by metis
  have range: "in_int64 x" if "0 \<le> x" "x \<le> GRAPHENE_MAX_SHARE_SUPPLY + 1" for x
    using that by (simp add: in_int64_def GRAPHENE_MAX_SHARE_SUPPLY_def)
  define r where "r = scaled * n div d"
  have r0: "0 \<le> r" using s(1) nd by (simp add: r_def pos_imp_zdiv_nonneg_iff)
  have "\<exists>y. fee_in S cer scaled = Some y \<and> (\<forall>f. y = Inr f \<longrightarrow> asset_id f = i \<and> 0 \<le> amount f \<and> covers cer scaled f \<and>
    (\<forall>g. asset_id g = asset_id f \<longrightarrow> 0 \<le> amount g \<longrightarrow> amount g < amount f \<longrightarrow> \<not> covers cer scaled g))" (is ?P)
  proof (cases "r \<le> GRAPHENE_MAX_SHARE_SUPPLY")
    case False
    then show ?P using to [OF s(1) range] s by (auto simp: fee_in_def Let_def r_def)
  next
    case True
    have first: "asset_times_price (mk_asset scaled 0) cer = Inr (mk_asset r i)"
      using to [OF s(1) range] s True by (simp add: r_def)
    have rd: "r * d \<le> scaled * n" unfolding r_def using nd(2) by (metis div_mult_mod_eq le_add_same_cancel1 pos_mod_sign)
    have below: "x * d div n < scaled" if "x * d < scaled * n" for x
      by (rule div_below [OF nd(1) that])
    have r1: "r * d div n \<le> scaled" using rd nd(1) by (metis nonzero_mult_div_cancel_right order_less_irrefl zdiv_mono1)
    have br: "asset_times_price (mk_asset r i) cer = Inr (mk_asset (r * d div n) 0)"
      using from_fee [OF r0 range] r0 True r1 s(2) by simp
    have uncovered: "\<not> covers cer scaled g" if "asset_id g = i" "0 \<le> amount g" "amount g \<le> r" "amount g * d div n < scaled" for g
    proof -
      have "g = mk_asset (amount g) i" using that(1) by (simp add: mk_asset_def)
      moreover have "asset_times_price (mk_asset (amount g) i) cer =
        fc_assert (amount g * d div n \<le> GRAPHENE_MAX_SHARE_SUPPLY) (Inr (mk_asset (amount g * d div n) 0))"
        by (rule from_fee [OF that(2) range [OF that(2)]]) (use that(3) True in simp)
      ultimately show ?thesis using that(4) by (simp add: covers_def fc_assert_def mk_asset_def)
    qed
    show ?P
    proof (cases "r * d div n < scaled")
      case False
      have "raise_fee S cer (mk_asset scaled 0) (mk_asset r i) = Some (Inr (mk_asset r i))"
        by (subst raise_fee.simps) (use False br in \<open>simp add: asset_less_def mk_asset_def\<close>)
      moreover have "x * d div n < scaled" if "x < r" for x
        using below [of x] rd that nd(2) by (metis mult_strict_right_mono order_less_le_trans)
      ultimately show ?P
        using first br False True r0 uncovered by (auto simp: fee_in_def Let_def covers_def mk_asset_def)
    next
      case lt: True
      show ?P
      proof (cases "S (r + 1)")
        case (Inl e)
        have "raise_fee S cer (mk_asset scaled 0) (mk_asset r i) = Some (Inl e)"
          by (subst raise_fee.simps) (use lt br Inl in \<open>simp add: asset_less_def mk_asset_def\<close>)
        then show ?P using first by (simp add: fee_in_def Let_def)
      next
        case (Inr y)
        then have y: "y = r + 1" using S by (simp add: safe_exact_def)
        have r1n: "0 \<le> r + 1" "in_int64 (r + 1)" using r0 True range by simp_all
        have step: "raise_fee S cer (mk_asset scaled 0) (mk_asset r i) = raise_fee S cer (mk_asset scaled 0) (mk_asset (r + 1) i)"
          by (subst raise_fee.simps) (use lt br Inr y in \<open>simp add: asset_less_def mk_asset_def\<close>)
        have reach: "scaled \<le> (r + 1) * d div n" unfolding r_def by (rule div_mult_reach [OF nd])
        show ?P
        proof (cases "(r + 1) * d div n \<le> GRAPHENE_MAX_SHARE_SUPPLY")
          case False
          have "raise_fee S cer (mk_asset scaled 0) (mk_asset (r + 1) i) = Some (Inl assert_exception)"
            by (subst raise_fee.simps) (use False from_fee [OF r1n] in \<open>simp add: mk_asset_def\<close>)
          then show ?P using first step by (simp add: fee_in_def Let_def)
        next
          case ok: True
          have b1: "asset_times_price (mk_asset (r + 1) i) cer = Inr (mk_asset ((r + 1) * d div n) 0)"
            using from_fee [OF r1n] ok by simp
          have "raise_fee S cer (mk_asset scaled 0) (mk_asset (r + 1) i) = Some (Inr (mk_asset (r + 1) i))"
            by (subst raise_fee.simps) (use b1 reach in \<open>simp add: asset_less_def mk_asset_def\<close>)
          moreover have "x * d div n < scaled" if "x \<le> r" for x
            using lt zdiv_mono1 [of "x * d" "r * d" n] that nd by (meson mult_right_mono order_le_less_trans order_less_imp_le)
          ultimately show ?P
            using first step b1 reach r0 uncovered by (auto simp: fee_in_def Let_def covers_def mk_asset_def fc_assert_def)
        qed
      qed
    qed
  qed  then show ?thesis unfolding i .
qed

theorem converted_fee_least_witness:
  "\<exists>f. fee_in safe_int64 \<lparr>base = mk_asset 2 0, quote = mk_asset 3 7\<rparr> 5 = Some (Inr f) \<and> f = mk_asset 8 7 \<and>
    \<not> covers \<lparr>base = mk_asset 2 0, quote = mk_asset 3 7\<rparr> 5 (mk_asset 7 7)"
proof -
  have f: "fee_in safe_int64 \<lparr>base = mk_asset 2 0, quote = mk_asset 3 7\<rparr> 5 = Some (Inr (mk_asset 8 7))"
    by code_simp
  with converted_fee_least [of safe_int64 "\<lparr>base = mk_asset 2 0, quote = mk_asset 3 7\<rparr>" 5] show ?thesis
    by (auto simp: safe_int64_exact valid_price_def in_int64_def mk_asset_def GRAPHENE_MAX_SHARE_SUPPLY_def)
qed

end
