(* ===== verification/Miners.thy ===== *)
theory Miners
  imports Asset_Operations Accounts Fees
begin

text \<open>
  Miners (\<open>protocol/miner.hpp\<close>, \<open>protocol/miner.cpp\<close>, \<open>miner_evaluator.cpp\<close>), assertions (\<open>protocol/assert.cpp\<close>,
  \<open>assert_evaluator.cpp\<close>) and custom operations (\<open>protocol/custom.cpp\<close>, \<open>custom_evaluator.cpp\<close>). The vote id of
  a miner is kept as its instance, as the votes of accounts are. The interpreters of custom operations belong to
  plugins that register them and are a parameter; Messaging has the one in the repository.
\<close>

section \<open>Miner operations\<close>

definition GRAPHENE_MAX_URL_LENGTH :: nat where "GRAPHENE_MAX_URL_LENGTH = 127"

record miner_create_operation =
  mcr_fee :: asset
  mcr_account :: nat
  mcr_url :: string
  mcr_signing_key :: nat

definition miner_create_validate :: "miner_create_operation \<Rightarrow> unit result" where
  "miner_create_validate op =
     fc_assert (amount (mcr_fee op) \<ge> 0) (fc_assert (length (mcr_url op) < GRAPHENE_MAX_URL_LENGTH) (Inr ()))"

definition miner_create_do_apply :: "miner_create_operation \<Rightarrow> database \<Rightarrow> database result" where
  "miner_create_do_apply op db =
     (let (v, gp) = get_next_vote_id (gpo db) VOTE_TYPE_MINER in
      rbind (create_miner \<lparr>miner_account = mcr_account op, last_aslot = 0, signing_key = mcr_signing_key op, pay_vb = None,
               vote_id = unat (vote_instance v), total_votes = 0, url = mcr_url op, total_missed = 0, last_confirmed_block_num = 0\<rparr>
             (db\<lparr>gpo := gp\<rparr>)) (\<lambda>(_, db'). Inr db'))"

record miner_update_operation =
  mup_fee :: asset
  mup_miner :: nat
  mup_account :: nat
  mup_url :: "string option"
  mup_signing_key :: "nat option"

definition miner_update_validate :: "miner_update_operation \<Rightarrow> unit result" where
  "miner_update_validate op =
     fc_assert (amount (mup_fee op) \<ge> 0)
    (case mup_url op of None \<Rightarrow> Inr () | Some u \<Rightarrow> fc_assert (length u < GRAPHENE_MAX_URL_LENGTH) (Inr ()))"

definition miner_update_do_evaluate :: "miner_update_operation \<Rightarrow> database \<Rightarrow> unit result" where
  "miner_update_do_evaluate op db =
     rbind (idx_get (miners db) (mup_miner op)) (\<lambda>m. fc_assert (miner_account m = mup_account op) (Inr ()))"

definition miner_update_do_apply :: "miner_update_operation \<Rightarrow> database \<Rightarrow> database result" where
  "miner_update_do_apply op db =
     modify_miner (mup_miner op) (\<lambda>wit.
       let w1 = (case mup_url op of None \<Rightarrow> wit | Some u \<Rightarrow> wit\<lparr>url := u\<rparr>)
       in case mup_signing_key op of None \<Rightarrow> w1 | Some k \<Rightarrow> w1\<lparr>signing_key := k\<rparr>) db"

definition update_parameters_validate :: "asset \<Rightarrow> chain_parameters \<Rightarrow> unit result" where
  "update_parameters_validate fee new_parameters =
     fc_assert (amount fee \<ge> 0) (chain_parameters_validate new_parameters)"

definition update_parameters_do_evaluate :: "bool \<Rightarrow> unit result" where
  "update_parameters_do_evaluate is_proposed_trx = fc_assert is_proposed_trx (Inr ())"

definition update_parameters_do_apply :: "chain_parameters \<Rightarrow> database \<Rightarrow> database result" where
  "update_parameters_do_apply new_parameters db = Inr (db\<lparr>gpo := (gpo db)\<lparr>pending_parameters := Some new_parameters\<rparr>\<rparr>)"

section \<open>Assertions\<close>

datatype predicate =
    Account_name_eq nat string
  | Asset_symbol_eq nat string
  | Block_id_is block_id

fun predicate_which :: "predicate \<Rightarrow> nat" where
  "predicate_which (Account_name_eq _ _) = 0"
| "predicate_which (Asset_symbol_eq _ _) = 1"
| "predicate_which (Block_id_is _) = 2"

fun predicate_validate :: "predicate \<Rightarrow> bool" where
  "predicate_validate (Account_name_eq _ n) = is_valid_name n"
| "predicate_validate (Asset_symbol_eq _ s) = is_valid_symbol s"
| "predicate_validate (Block_id_is _) = True"

record assert_operation =
  ast_fee :: asset
  ast_payer :: nat
  ast_predicates :: "predicate list"
  ast_required_auths :: "nat list"

text \<open>The answers of \<open>predicate_validate\<close> are computed and thrown away.\<close>

definition validator_answers :: "predicate list \<Rightarrow> bool list" where
  "validator_answers ps = map predicate_validate ps"

definition assert_validate :: "assert_operation \<Rightarrow> unit result" where
  "assert_validate op = fc_assert (amount (ast_fee op) \<ge> 0) (let _ = validator_answers (ast_predicates op) in Inr ())"

fun predicate_evaluate :: "predicate \<Rightarrow> database \<Rightarrow> unit result" where
  "predicate_evaluate (Account_name_eq i n) db =
     rbind (idx_get (accounts db) i) (\<lambda>a. fc_assert (acc_name a = n) (Inr ()))"
| "predicate_evaluate (Asset_symbol_eq i s) db =
     rbind (idx_get (assets db) i) (\<lambda>a. fc_assert (symbol a = s) (Inr ()))"
| "predicate_evaluate (Block_id_is b) db =
     rbind (idx_get (block_summaries db) (num_from_id b mod 2 ^ 16)) (\<lambda>x. fc_assert (summary_block_id x = b) (Inr ()))"

definition assert_do_evaluate :: "bool \<Rightarrow> assert_operation \<Rightarrow> database \<Rightarrow> unit result" where
  "assert_do_evaluate skip_assert_evaluation op db =
     (if skip_assert_evaluation then Inr ()
      else fold_res (\<lambda>p _.
        fc_assert (int (predicate_which p) < max_predicate_opcode (parameters (gpo db))) (predicate_evaluate p db)) (ast_predicates op) ())"

section \<open>Custom operations\<close>

record custom_operation =
  cus_fee :: asset
  cus_payer :: nat
  cus_required_auths :: "nat list"
  cus_id :: nat
  cus_data :: string

definition custom_validate :: "custom_operation \<Rightarrow> unit result" where
  "custom_validate op = fc_assert (amount (cus_fee op) > 0) (Inr ())"

type_synonym interpreter = "(custom_operation \<Rightarrow> database \<Rightarrow> unit result) \<times> (custom_operation \<Rightarrow> database \<Rightarrow> database result)"

definition custom_do_evaluate :: "(nat \<Rightarrow> interpreter option) \<Rightarrow> custom_operation \<Rightarrow> database \<Rightarrow> unit result" where
  "custom_do_evaluate register op db =
     (case register (cus_id op) of None \<Rightarrow> Inr () | Some (evaluate, _) \<Rightarrow> evaluate op db)"

definition custom_do_apply :: "(nat \<Rightarrow> interpreter option) \<Rightarrow> custom_operation \<Rightarrow> database \<Rightarrow> database result" where
  "custom_do_apply register op db =
     (case register (cus_id op) of None \<Rightarrow> Inr db | Some (_, applying) \<Rightarrow> applying op db)"

section \<open>Vote ids of miners\<close>

text \<open>Every miner can be voted for: its vote id is one of those handed out, and no two miners share one.\<close>

definition miners_ok :: "database \<Rightarrow> bool" where
  "miners_ok db \<longleftrightarrow> wf_index (miners db) \<and>
     (\<forall>i m. idx_find (miners db) i = Some m \<longrightarrow> vote_id m < next_available_vote_id (gpo db)) \<and>
     (\<forall>i j m n. idx_find (miners db) i = Some m \<longrightarrow> idx_find (miners db) j = Some n \<longrightarrow> vote_id m = vote_id n \<longrightarrow> i = j)"

lemma idx_create_succeeds:
  assumes "wf_index t"
  shows "succeeds (idx_create clash t c) \<longleftrightarrow> (\<forall>j y. idx_find t j = Some y \<longrightarrow> \<not> clash (c (next_id t)) y)"
proof -
  have d: "distinct (map fst (rows t))" using assms by (simp add: wf_index_def sorted_imp_distinct_rows)
  have "idx_find t (next_id t) = None" using wf_index_find_less [OF assms] by (cases "idx_find t (next_id t)") auto
  moreover have "conflicts clash (next_id t) (c (next_id t)) (rows t) \<longleftrightarrow> (\<exists>j y. idx_find t j = Some y \<and> clash (c (next_id t)) y)"
  proof
    assume "conflicts clash (next_id t) (c (next_id t)) (rows t)"
    then obtain j y where "(j, y) \<in> set (rows t)" "clash (c (next_id t)) y" by (auto simp: conflicts_def list_ex_iff)
    with d show "\<exists>j y. idx_find t j = Some y \<and> clash (c (next_id t)) y" unfolding idx_find_def by (metis map_of_is_SomeI)
  next
    assume "\<exists>j y. idx_find t j = Some y \<and> clash (c (next_id t)) y"
    then obtain j y where j: "idx_find t j = Some y" "clash (c (next_id t)) y" by blast
    then have "(j, y) \<in> set (rows t)" "j \<noteq> next_id t" using wf_index_find_less [OF assms j(1)] by (auto simp: idx_find_def map_of_SomeD)
    with j(2) show "conflicts clash (next_id t) (c (next_id t)) (rows t)" by (auto simp: conflicts_def list_ex_iff)
  qed
  ultimately show ?thesis by (auto simp: idx_create_def Let_def succeeds_def fc_assert_def)
qed

lemma next_vote_id:
  assumes "next_available_vote_id gp < 2 ^ 24"
  shows "unat (vote_instance (fst (get_next_vote_id gp VOTE_TYPE_MINER))) = next_available_vote_id gp"
    "next_available_vote_id (snd (get_next_vote_id gp VOTE_TYPE_MINER)) = Suc (next_available_vote_id gp)"
  using fresh_vote_ids [of VOTE_TYPE_MINER gp] assms
  by (simp_all add: VOTE_TYPE_MINER_def unat_of_nat get_next_vote_id_def)

text \<open>
  Registering a miner gives it a vote id of its own. As long as fewer than \<open>2 ^ 24\<close> ids have been handed out, the new
  miner gets the next one, which no other miner has and for which the next tally has a place; registration can
  only fail for an account that is a miner already.
\<close>

theorem miner_registration:
  assumes ok: "miners_ok db" and n: "next_available_vote_id (gpo db) < 2 ^ 24"
  shows "(\<forall>db'. miner_create_do_apply op db = Inr db' \<longrightarrow> miners_ok db' \<and>
      next_available_vote_id (gpo db') = Suc (next_available_vote_id (gpo db)) \<and>
      (\<exists>m. idx_find (miners db') (next_id (miners db)) = Some m \<and> miner_account m = mcr_account op \<and>
        vote_id m = next_available_vote_id (gpo db))) \<and>
    (succeeds (miner_create_do_apply op db) \<longleftrightarrow> (\<forall>i m. idx_find (miners db) i = Some m \<longrightarrow> miner_account m \<noteq> mcr_account op))"
proof -
  obtain v gp where g: "get_next_vote_id (gpo db) VOTE_TYPE_MINER = (v, gp)" by (cases "get_next_vote_id (gpo db) VOTE_TYPE_MINER")
  define m where "m = \<lparr>miner_account = mcr_account op, last_aslot = 0, signing_key = mcr_signing_key op, pay_vb = None,
    vote_id = unat (vote_instance v), total_votes = 0, url = mcr_url op, total_missed = 0, last_confirmed_block_num = 0\<rparr>"
  have v: "vote_id m = next_available_vote_id (gpo db)" "miner_account m = mcr_account op"
    and gp: "next_available_vote_id gp = Suc (next_available_vote_id (gpo db))"
    using next_vote_id [OF n] g by (simp_all add: m_def)
  have a: "miner_create_do_apply op db = rbind (idx_create miner_clash (miners db) (\<lambda>_. m)) (\<lambda>(i, t). Inr (db\<lparr>gpo := gp, miners := t\<rparr>))"
    by (auto simp: miner_create_do_apply_def g m_def create_miner_def rbind_assoc split_beta intro!: rbind_cong)
  have wf: "wf_index (miners db)" and fresh: "\<And>i x. idx_find (miners db) i = Some x \<Longrightarrow> vote_id x < next_available_vote_id (gpo db)"
    and one: "\<And>i j x y. idx_find (miners db) i = Some x \<Longrightarrow> idx_find (miners db) j = Some y \<Longrightarrow> vote_id x = vote_id y \<Longrightarrow> i = j"
    using ok unfolding miners_ok_def by blast+
  show ?thesis
  proof (intro conjI allI impI)
    fix db' assume "miner_create_do_apply op db = Inr db'"
    then obtain i t where c: "idx_create miner_clash (miners db) (\<lambda>_. m) = Inr (i, t)" and d: "db' = db\<lparr>gpo := gp, miners := t\<rparr>"
      by (auto simp: a res_simps)
    note t = idx_create_Inr [OF c wf]
    show "miners_ok db'" using t fresh one gp v(1) unfolding miners_ok_def d
      by (auto simp: less_Suc_eq split: if_splits dest: fresh)
    show "next_available_vote_id (gpo db') = Suc (next_available_vote_id (gpo db))" by (simp add: d gp)
    show "\<exists>x. idx_find (miners db') (next_id (miners db)) = Some x \<and> miner_account x = mcr_account op \<and> vote_id x = next_available_vote_id (gpo db)"
      using t v by (simp add: d)
  next
    have "succeeds (miner_create_do_apply op db) \<longleftrightarrow> (\<forall>j y. idx_find (miners db) j = Some y \<longrightarrow> \<not> miner_clash m y)"
      using idx_create_succeeds [OF wf, of miner_clash "\<lambda>_. m"] unfolding a succeeds_iff by (auto simp: res_simps)
    moreover have "miner_clash m y \<longleftrightarrow> miner_account y = mcr_account op" if "idx_find (miners db) j = Some y" for j y
      using fresh [OF that] v by (auto simp: miner_clash_def)
    ultimately show "succeeds (miner_create_do_apply op db) \<longleftrightarrow> (\<forall>i m. idx_find (miners db) i = Some m \<longrightarrow> miner_account m \<noteq> mcr_account op)"
      by blast
  qed
qed

theorem miner_registration_witness:
  "succeeds (miner_create_do_apply \<lparr>mcr_fee = mk_asset 0 0, mcr_account = 9, mcr_url = [], mcr_signing_key = 3\<rparr> empty_db)"
proof -
  have "miners_ok empty_db" "next_available_vote_id (gpo empty_db) < 2 ^ 24"
    by (simp_all add: miners_ok_def empty_db_def empty_index_def wf_index_def idx_find_def)
  from miner_registration [OF this] show ?thesis by (simp add: empty_db_def idx_find_def empty_index_def)
qed

text \<open>Past that number the instance wraps around in its 24 bits, so the next miner gets the vote id of the first one.\<close>

lemma vote_ids_run_out:
  assumes "next_available_vote_id (gpo db) = 2 ^ 24" "wf_index (miners db)" "idx_find (miners db) i = Some m" "vote_id m = 0"
  shows "miner_create_do_apply op db = Inl assert_exception"
proof -
  have "vote_instance (fst (get_next_vote_id (gpo db) VOTE_TYPE_MINER)) = 0"
    using fresh_vote_ids [of VOTE_TYPE_MINER "gpo db"] assms(1) by (simp add: VOTE_TYPE_MINER_def)
  moreover have "idx_create miner_clash (miners db) (\<lambda>_. x) = Inl assert_exception" if "vote_id x = 0" for x
    using idx_create_succeeds [OF assms(2), of miner_clash "\<lambda>_. x"] assms(3,4) that
    by (auto simp: idx_create_def Let_def fc_assert_def succeeds_def miner_clash_def split: if_splits) (metis less_irrefl)
  ultimately show ?thesis
    by (auto simp: miner_create_do_apply_def create_miner_def split: prod.splits)
qed

end
