(* ===== verification/Member_Indexes.thy ===== *)
theory Member_Indexes
  imports Chain_State
begin

text \<open>
  Secondary indexes: maps from a key to the ids of the objects that mention it, kept up to date by the
  notifications of the primary index (\<open>account_object.cpp\<close>, \<open>message_object.cpp\<close>, \<open>proposal_object.cpp\<close>).
  A \<open>std::map\<close> to sets is a function that is empty where the map has no entry.
\<close>

section \<open>Updates of a membership map\<close>

type_synonym 'k memberships = "'k \<Rightarrow> nat set"

definition add_member :: "nat \<Rightarrow> 'k list \<Rightarrow> 'k memberships \<Rightarrow> 'k memberships" where
  "add_member i ks m = fold (\<lambda>k m. m(k := insert i (m k))) ks m"

definition drop_member :: "nat \<Rightarrow> 'k list \<Rightarrow> 'k memberships \<Rightarrow> 'k memberships" where
  "drop_member i ks m = fold (\<lambda>k m. m(k := m k - {i})) ks m"

definition replace_member :: "nat \<Rightarrow> 'k list \<Rightarrow> 'k list \<Rightarrow> 'k memberships \<Rightarrow> 'k memberships" where
  "replace_member i before after m =
     add_member i (filter (\<lambda>k. k \<notin> set before) after) (drop_member i (filter (\<lambda>k. k \<notin> set after) before) m)"

lemma add_member_apply: "add_member i ks m k = (if k \<in> set ks then insert i (m k) else m k)"
  unfolding add_member_def by (induction ks arbitrary: m) auto

lemma drop_member_apply: "drop_member i ks m k = (if k \<in> set ks then m k - {i} else m k)"
  unfolding drop_member_def by (induction ks arbitrary: m) auto

section \<open>Members of accounts\<close>

definition get_account_members :: "account_object \<Rightarrow> nat list" where
  "get_account_members a = fold insort_insert (map fst (account_auths (acc_owner a)) @ map fst (account_auths (acc_active a))) []"

text \<open>The default public key is number 0.\<close>

definition get_key_members :: "account_object \<Rightarrow> nat list" where
  "get_key_members a =
     (let ks = fold insort_insert (map fst (key_auths (acc_owner a)) @ map fst (key_auths (acc_active a))) [] in
      if memo_key (acc_options a) \<noteq> 0 then insort_insert (memo_key (acc_options a)) ks else ks)"

record account_member_index =
  account_to_account_memberships :: "nat memberships"
  account_to_key_memberships :: "nat memberships"
  before_account_members :: "nat list"
  before_key_members :: "nat list"

definition account_inserted :: "nat \<Rightarrow> account_object \<Rightarrow> account_member_index \<Rightarrow> account_member_index" where
  "account_inserted i a x = x\<lparr>
     account_to_account_memberships := add_member i (get_account_members a) (account_to_account_memberships x),
     account_to_key_memberships := add_member i (get_key_members a) (account_to_key_memberships x)\<rparr>"

definition account_removed :: "nat \<Rightarrow> account_object \<Rightarrow> account_member_index \<Rightarrow> account_member_index" where
  "account_removed i a x = x\<lparr>
     account_to_key_memberships := drop_member i (get_key_members a) (account_to_key_memberships x),
     account_to_account_memberships := drop_member i (get_account_members a) (account_to_account_memberships x)\<rparr>"

definition account_about_to_modify :: "account_object \<Rightarrow> account_member_index \<Rightarrow> account_member_index" where
  "account_about_to_modify a x = x\<lparr>before_key_members := get_key_members a, before_account_members := get_account_members a\<rparr>"

definition account_modified :: "nat \<Rightarrow> account_object \<Rightarrow> account_member_index \<Rightarrow> account_member_index" where
  "account_modified i a x = x\<lparr>
     account_to_account_memberships := replace_member i (before_account_members x) (get_account_members a) (account_to_account_memberships x),
     account_to_key_memberships := replace_member i (before_key_members x) (get_key_members a) (account_to_key_memberships x)\<rparr>"

section \<open>Receivers of messages, approvals of proposals\<close>

record message_object =
  msg_created :: int
  msg_sender :: nat
  msg_receivers :: "nat list"

definition get_key_recipients :: "message_object \<Rightarrow> nat list" where
  "get_key_recipients a = fold insort_insert (msg_receivers a) []"

definition message_inserted :: "nat \<Rightarrow> message_object \<Rightarrow> nat memberships \<Rightarrow> nat memberships" where
  "message_inserted i a m = add_member i (get_key_recipients a) m"

definition message_removed :: "nat \<Rightarrow> message_object \<Rightarrow> nat memberships \<Rightarrow> nat memberships" where
  "message_removed i a m = drop_member i (get_key_recipients a) m"

record approvals =
  required_active_approvals :: "nat list"
  available_active_approvals :: "nat list"
  required_owner_approvals :: "nat list"
  available_owner_approvals :: "nat list"
  available_key_approvals :: "nat list"

definition approvers :: "approvals \<Rightarrow> nat list" where
  "approvers p = required_active_approvals p @ required_owner_approvals p @ available_active_approvals p @ available_owner_approvals p"

definition proposal_inserted :: "nat \<Rightarrow> approvals \<Rightarrow> nat memberships \<Rightarrow> nat memberships" where
  "proposal_inserted i p m = add_member i (approvers p) m"

definition proposal_removed :: "nat \<Rightarrow> approvals \<Rightarrow> nat memberships \<Rightarrow> nat memberships" where
  "proposal_removed i p m = drop_member i (approvers p) m"

section \<open>The interface\<close>

text \<open>The objects of a primary index and the state of a secondary one, after any sequence of notifications.\<close>

inductive maintained ::
  "(nat \<Rightarrow> 'o \<Rightarrow> 's \<Rightarrow> 's) \<Rightarrow> (nat \<Rightarrow> 'o \<Rightarrow> 's \<Rightarrow> 's) \<Rightarrow> (nat \<Rightarrow> 'o \<Rightarrow> 'o \<Rightarrow> 's \<Rightarrow> 's) \<Rightarrow> 's \<Rightarrow> (nat \<rightharpoonup> 'o) \<Rightarrow> 's \<Rightarrow> bool"
  for inserted removed modified s0 where
  start: "maintained inserted removed modified s0 (\<lambda>_. None) s0"
| insertion: "maintained inserted removed modified s0 t s \<Longrightarrow> t i = None \<Longrightarrow> maintained inserted removed modified s0 (t(i \<mapsto> x)) (inserted i x s)"
| removal: "maintained inserted removed modified s0 t s \<Longrightarrow> t i = Some x \<Longrightarrow> maintained inserted removed modified s0 (t(i := None)) (removed i x s)"
| modification: "maintained inserted removed modified s0 t s \<Longrightarrow> t i = Some x \<Longrightarrow> maintained inserted removed modified s0 (t(i \<mapsto> y)) (modified i x y s)"

text \<open>
  A secondary index of objects \<open>'o\<close> shows, for every key, the set of ids under it. What it promises: an object that
  is inserted appears under its keys and no others, one that is removed disappears from them, and one that is
  modified moves from the keys it had to the keys it has.
\<close>

locale secondary_index =
  fixes mentioned :: "'o \<Rightarrow> 'k set" and shows_under :: "'s \<Rightarrow> 'k \<Rightarrow> nat set"
    and inserted :: "nat \<Rightarrow> 'o \<Rightarrow> 's \<Rightarrow> 's" and removed :: "nat \<Rightarrow> 'o \<Rightarrow> 's \<Rightarrow> 's" and modified :: "nat \<Rightarrow> 'o \<Rightarrow> 'o \<Rightarrow> 's \<Rightarrow> 's"
  assumes ins: "shows_under (inserted i x s) k = (if k \<in> mentioned x then insert i (shows_under s k) else shows_under s k)"
    and rem: "shows_under (removed i x s) k = (if k \<in> mentioned x then shows_under s k - {i} else shows_under s k)"
    and mod: "shows_under (modified i x y s) k =
      (if k \<in> mentioned y - mentioned x then insert i (shows_under s k)
       else if k \<in> mentioned x - mentioned y then shows_under s k - {i} else shows_under s k)"
begin

lemma exact:
  assumes "maintained inserted removed modified s0 t s" "\<And>k. shows_under s0 k = {}"
  shows "shows_under s k = {i. \<exists>x. t i = Some x \<and> k \<in> mentioned x}"
  using assms
proof (induction arbitrary: k rule: maintained.induct)
  case (insertion t s i x)
  then show ?case by (auto simp: ins)
next
  case (removal t s i x)
  then show ?case by (auto simp: rem)
next
  case (modification t s i x y)
  then show ?case by (auto simp: mod)
qed simp

end

lemma set_insort_all: "set (fold insort_insert xs ys) = set xs \<union> set ys"
  by (induction xs arbitrary: ys) (auto simp: set_insort_insert)

lemma account_members_set:
  "set (get_account_members a) = fst ` set (account_auths (acc_owner a)) \<union> fst ` set (account_auths (acc_active a))"
  by (auto simp: get_account_members_def set_insort_all)

definition modify_account_members :: "nat \<Rightarrow> account_object \<Rightarrow> account_object \<Rightarrow> account_member_index \<Rightarrow> account_member_index" where
  "modify_account_members i a b x = account_modified i b (account_about_to_modify a x)"

lemma replace_member_apply:
  "replace_member i before after m k =
     (if k \<in> set after - set before then insert i (m k) else if k \<in> set before - set after then m k - {i} else m k)"
  by (auto simp: replace_member_def add_member_apply drop_member_apply)

interpretation by_account: secondary_index "\<lambda>a. set (get_account_members a)" account_to_account_memberships account_inserted account_removed modify_account_members
  by unfold_locales (simp_all add: account_inserted_def account_removed_def modify_account_members_def account_modified_def account_about_to_modify_def
      add_member_apply drop_member_apply replace_member_apply)

interpretation by_key: secondary_index "\<lambda>a. set (get_key_members a)" account_to_key_memberships account_inserted account_removed modify_account_members
  by unfold_locales (simp_all add: account_inserted_def account_removed_def modify_account_members_def account_modified_def account_about_to_modify_def
      add_member_apply drop_member_apply replace_member_apply)

text \<open>Messages are never modified in a way the index would see: the notification does nothing, which is right when the receivers stay.\<close>

interpretation by_receiver: secondary_index "\<lambda>a. set (get_key_recipients a)" "\<lambda>m. m" message_inserted message_removed
  "\<lambda>i a b m. replace_member i (get_key_recipients a) (get_key_recipients b) m"
  by unfold_locales (simp_all add: message_inserted_def message_removed_def add_member_apply drop_member_apply replace_member_apply)

section \<open>The index of accounts\<close>

definition no_members :: account_member_index where
  "no_members = \<lparr>account_to_account_memberships = \<lambda>_. {}, account_to_key_memberships = \<lambda>_. {}, before_account_members = [], before_key_members = []\<rparr>"

text \<open>
  C29: The reverse lookup of accounts is exact. However accounts are created, removed by undo and modified, an account is
  listed under another account exactly when one of its authorities names that account, and under a key exactly when an
  authority or the memo key is that key.
\<close>

theorem account_members_exact:
  assumes "maintained account_inserted account_removed modify_account_members no_members t x"
  shows "account_to_account_memberships x b = {i. \<exists>a. t i = Some a \<and> b \<in> fst ` set (account_auths (acc_owner a)) \<union> fst ` set (account_auths (acc_active a))} \<and>
    account_to_key_memberships x k = {i. \<exists>a. t i = Some a \<and> (k \<in> fst ` set (key_auths (acc_owner a)) \<union> fst ` set (key_auths (acc_active a)) \<union> ({memo_key (acc_options a)} - {0}))}"
proof
  have keys: "set (get_key_members a) = fst ` set (key_auths (acc_owner a)) \<union> fst ` set (key_auths (acc_active a)) \<union> ({memo_key (acc_options a)} - {0})" for a
    by (auto simp: get_key_members_def Let_def set_insort_all set_insort_insert)
  show "account_to_account_memberships x b = {i. \<exists>a. t i = Some a \<and> b \<in> fst ` set (account_auths (acc_owner a)) \<union> fst ` set (account_auths (acc_active a))}"
    using by_account.exact [OF assms] by (simp add: no_members_def account_members_set)
  show "account_to_key_memberships x k = {i. \<exists>a. t i = Some a \<and> (k \<in> fst ` set (key_auths (acc_owner a)) \<union> fst ` set (key_auths (acc_active a)) \<union> ({memo_key (acc_options a)} - {0}))}"
    using by_key.exact [OF assms] by (simp add: no_members_def keys)
qed

definition member_example :: "nat list \<Rightarrow> account_object" where
  "member_example ks = \<lparr>registrar = 0, acc_name = ''alice'', acc_owner = \<lparr>weight_threshold = 1, account_auths = [(3, 1)], key_auths = []\<rparr>,
     acc_active = \<lparr>weight_threshold = 1, account_auths = [], key_auths = map (\<lambda>k. (k, 1)) ks\<rparr>,
     acc_options = \<lparr>memo_key = 0, voting_account = 3, num_miner = 0, votes = [], allow_subscription = False,
       price_per_subscribe = mk_asset 0 0, subscription_period = 0\<rparr>,
     rights_to_publish = \<lparr>is_publishing_manager = False, publishing_rights_received = {}, publishing_rights_forwarded = []\<rparr>,
     acc_statistics = 0, cashback_vb = None, top_n_control_flags = 0\<rparr>"

theorem account_members_exact_witness:
  "account_to_key_memberships (modify_account_members 5 (member_example [7]) (member_example [8]) (account_inserted 5 (member_example [7]) no_members)) 7 = {} \<and>
   account_to_key_memberships (modify_account_members 5 (member_example [7]) (member_example [8]) (account_inserted 5 (member_example [7]) no_members)) 8 = {5}"
proof -
  have "maintained account_inserted account_removed modify_account_members no_members ((\<lambda>_. None)(5 \<mapsto> member_example [7])) (account_inserted 5 (member_example [7]) no_members)"
    by (rule maintained.insertion [OF maintained.start]) simp
  from maintained.modification [OF this, of 5 "member_example [7]" "member_example [8]"]
  have m: "maintained account_inserted account_removed modify_account_members no_members ((\<lambda>_. None)(5 \<mapsto> member_example [8]))
    (modify_account_members 5 (member_example [7]) (member_example [8]) (account_inserted 5 (member_example [7]) no_members))" by simp
  show ?thesis
    using account_members_exact [OF m, of 0 7] account_members_exact [OF m, of 0 8] by (auto simp: member_example_def split: if_splits)
qed

end
