(* ===== verification/Operations.thy ===== *)
theory Operations
  imports Miners Housekeeping Member_Indexes
begin

text \<open>
  All operations of the chain as one type (\<open>protocol/operations.hpp\<close>): their fees, who pays them, what authorities
  they require, their validation (\<open>protocol/operations.cpp\<close> and the \<open>validate\<close> of each operation) and their evaluation on
  the database through the generic evaluator. The operations on proposals, whose evaluation reaches the proposals as
  well, are evaluated in the next theory.
\<close>

unbundle bit_operations_syntax

section \<open>The variant\<close>

record proposal_create_operation =
  pcr_fee :: asset
  pcr_payer :: nat
  pcr_expiration :: int
  pcr_review :: "int option"

record proposal_update_operation =
  pup_fee :: asset
  pup_payer :: nat
  pup_proposal :: nat
  active_approvals_to_add :: "nat list"
  active_approvals_to_remove :: "nat list"
  owner_approvals_to_add :: "nat list"
  owner_approvals_to_remove :: "nat list"
  key_approvals_to_add :: "nat list"
  key_approvals_to_remove :: "nat list"

record proposal_delete_operation =
  pdl_fee :: asset
  pdl_payer :: nat
  pdl_using_owner :: bool
  pdl_proposal :: nat

text \<open>
  The operations on assets and on content are the variants of their theories. A virtual operation is one the chain
  emits itself; a transaction that carries one is refused by its \<open>validate\<close>, so only its place, fee and payer matter.
\<close>

datatype operation =
    Transfer transfer_operation
  | Transfer2 transfer2_operation
  | Account_create account_create_operation
  | Account_update account_update_operation
  | Asset_op asset_operation
  | Miner_create miner_create_operation
  | Miner_update miner_update_operation
  | Update_parameters asset chain_parameters
  | Proposal_create proposal_create_operation "operation list"
  | Proposal_update proposal_update_operation
  | Proposal_delete proposal_delete_operation
  | Permission_create withdraw_permission_create_operation
  | Permission_update nat withdraw_permission_create_operation
  | Permission_claim withdraw_permission_claim_operation
  | Permission_delete asset nat nat nat
  | Vesting_create vesting_balance_create_operation
  | Vesting_withdraw vesting_balance_withdraw_operation
  | Custom custom_operation
  | Assert assert_operation
  | Content content_operation
  | Subscribe subscribe_operation
  | Subscribe_by_author asset nat nat
  | Automatic_renewal asset nat nat bool
  | Virtual nat asset nat

fun content_which :: "content_operation \<Rightarrow> nat" where
  "content_which (Content_submit _) = 20"
| "content_which (Request_to_buy _) = 21"
| "content_which (Leave_rating _) = 22"
| "content_which (Ready_to_publish _) = 23"
| "content_which (Proof_of_custody _) = 24"
| "content_which (Deliver_keys _) = 25"
| "content_which (Report_stats _ _ _) = 29"
| "content_which (Set_publishing_manager _) = 30"
| "content_which (Set_publishing_right _) = 31"
| "content_which (Content_cancellation _ _ _) = 32"
| "content_which (Ready_to_publish2 _ _) = 38"

fun asset_which :: "asset_operation \<Rightarrow> nat" where
  "asset_which (Asset_create _) = 3"
| "asset_which (Asset_issue _) = 4"
| "asset_which (Publish_feed _) = 5"
| "asset_which (Fund_pools _) = 33"
| "asset_which (Asset_reserve _) = 34"
| "asset_which (Claim_fees _) = 35"
| "asset_which (Update_uia _) = 36"
| "asset_which (Update_monitored _) = 37"
| "asset_which (Update_advanced _) = 40"

fun which :: "operation \<Rightarrow> nat" where
  "which (Transfer _) = 0"
| "which (Account_create _) = 1"
| "which (Account_update _) = 2"
| "which (Asset_op op) = asset_which op"
| "which (Miner_create _) = 6"
| "which (Miner_update _) = 7"
| "which (Update_parameters _ _) = 8"
| "which (Proposal_create _ _) = 9"
| "which (Proposal_update _) = 10"
| "which (Proposal_delete _) = 11"
| "which (Permission_create _) = 12"
| "which (Permission_update _ _) = 13"
| "which (Permission_claim _) = 14"
| "which (Permission_delete _ _ _ _) = 15"
| "which (Vesting_create _) = 16"
| "which (Vesting_withdraw _) = 17"
| "which (Custom _) = 18"
| "which (Assert _) = 19"
| "which (Content op) = content_which op"
| "which (Subscribe _) = 26"
| "which (Subscribe_by_author _ _ _) = 27"
| "which (Automatic_renewal _ _ _ _) = 28"
| "which (Transfer2 _) = 39"
| "which (Virtual n _ _) = 41 + n"

fun fee_payer :: "operation \<Rightarrow> nat" where
  "fee_payer (Transfer op) = tr_from op"
| "fee_payer (Transfer2 op) = tr2_from op"
| "fee_payer (Account_create op) = acr_registrar op"
| "fee_payer (Account_update op) = aup_account op"
| "fee_payer (Asset_op op) = asset_payer op"
| "fee_payer (Miner_create op) = mcr_account op"
| "fee_payer (Miner_update op) = mup_account op"
| "fee_payer (Update_parameters _ _) = 0"
| "fee_payer (Proposal_create op _) = pcr_payer op"
| "fee_payer (Proposal_update op) = pup_payer op"
| "fee_payer (Proposal_delete op) = pdl_payer op"
| "fee_payer (Permission_create op) = wpr_from op"
| "fee_payer (Permission_update _ op) = wpr_from op"
| "fee_payer (Permission_claim op) = wpc_to op"
| "fee_payer (Permission_delete _ from _ _) = from"
| "fee_payer (Vesting_create op) = vbc_creator op"
| "fee_payer (Vesting_withdraw op) = vbw_owner op"
| "fee_payer (Custom op) = cus_payer op"
| "fee_payer (Assert op) = ast_payer op"
| "fee_payer (Content op) = fst (content_fee op)"
| "fee_payer (Subscribe op) = sb_from op"
| "fee_payer (Subscribe_by_author _ from _) = from"
| "fee_payer (Automatic_renewal _ cons _ _) = cons"
| "fee_payer (Virtual _ _ payer) = payer"

fun op_fee :: "operation \<Rightarrow> asset" where
  "op_fee (Transfer op) = tr_fee op"
| "op_fee (Transfer2 op) = tr2_fee op"
| "op_fee (Account_create op) = acr_fee op"
| "op_fee (Account_update op) = aup_fee op"
| "op_fee (Asset_op op) = asset_fee op"
| "op_fee (Miner_create op) = mcr_fee op"
| "op_fee (Miner_update op) = mup_fee op"
| "op_fee (Update_parameters fee _) = fee"
| "op_fee (Proposal_create op _) = pcr_fee op"
| "op_fee (Proposal_update op) = pup_fee op"
| "op_fee (Proposal_delete op) = pdl_fee op"
| "op_fee (Permission_create op) = wpr_fee op"
| "op_fee (Permission_update _ op) = wpr_fee op"
| "op_fee (Permission_claim op) = wpc_fee op"
| "op_fee (Permission_delete fee _ _ _) = fee"
| "op_fee (Vesting_create op) = vbc_fee op"
| "op_fee (Vesting_withdraw op) = vbw_fee op"
| "op_fee (Custom op) = cus_fee op"
| "op_fee (Assert op) = ast_fee op"
| "op_fee (Content op) = snd (content_fee op)"
| "op_fee (Subscribe op) = sb_fee op"
| "op_fee (Subscribe_by_author fee _ _) = fee"
| "op_fee (Automatic_renewal fee _ _ _) = fee"
| "op_fee (Virtual _ fee _) = fee"

section \<open>Required authorities\<close>

definition account_update_owner :: "account_update_operation \<Rightarrow> bool" where
  "account_update_owner op = (aup_owner op \<noteq> None)"

text \<open>The keys of a proposal update become an authority that needs all of them; it is added even when there are none.\<close>

definition key_authority :: "proposal_update_operation \<Rightarrow> authority" where
  "key_authority op =
     (let ks = fold (\<lambda>k. map_assign k 1) (key_approvals_to_add op @ key_approvals_to_remove op) [] in
      \<lparr>weight_threshold = int (length ks), account_auths = [], key_auths = ks\<rparr>)"

fun required_active_of :: "operation \<Rightarrow> nat list" where
  "required_active_of (Account_create op) = [acr_registrar op]"
| "required_active_of (Account_update op) = (if account_update_owner op then [] else [aup_account op])"
| "required_active_of (Proposal_update op) = active_approvals_to_add op @ active_approvals_to_remove op"
| "required_active_of (Content (Set_publishing_manager op)) = [15]"
| "required_active_of _ = []"

fun required_owner_of :: "operation \<Rightarrow> nat list" where
  "required_owner_of (Account_update op) = (if account_update_owner op then [aup_account op] else [])"
| "required_owner_of (Proposal_update op) = owner_approvals_to_add op @ owner_approvals_to_remove op"
| "required_owner_of _ = []"

fun required_other_of :: "operation \<Rightarrow> authority list" where
  "required_other_of (Proposal_update op) = [key_authority op]"
| "required_other_of _ = []"

definition operation_get_required_authorities :: "operation \<Rightarrow> required \<Rightarrow> required" where
  "operation_get_required_authorities op r =
     r\<lparr>required_active := fold insort_insert (fee_payer op # required_active_of op) (required_active r),
       required_owner := fold insort_insert (required_owner_of op) (required_owner r),
       required_other := required_other r @ required_other_of op\<rparr>"

section \<open>Validation\<close>

definition vesting_create_validate :: "vesting_balance_create_operation \<Rightarrow> unit result" where
  "vesting_create_validate op = fc_assert (amount (vbc_fee op) \<ge> 0) (fc_assert (amount (vbc_amount op) > 0) (Inr ()))"

definition vesting_withdraw_validate :: "vesting_balance_withdraw_operation \<Rightarrow> unit result" where
  "vesting_withdraw_validate op = fc_assert (amount (vbw_fee op) \<ge> 0) (fc_assert (amount (vbw_amount op) > 0) (Inr ()))"

definition permission_update_validate :: "withdraw_permission_create_operation \<Rightarrow> unit result" where
  "permission_update_validate op =
     fc_assert (amount (wpr_limit op) > 0)
    (fc_assert (amount (wpr_fee op) \<ge> 0)
    (fc_assert (wpr_period_sec op > 0)
    (fc_assert (wpr_from op \<noteq> wpr_authorized op)
    (fc_assert (wpr_periods_until_expiration op > 0) (Inr ())))))"

definition permission_claim_validate :: "withdraw_permission_claim_operation \<Rightarrow> unit result" where
  "permission_claim_validate op =
     fc_assert (wpc_to op \<noteq> wpc_from op)
    (fc_assert (amount (amount_to_withdraw op) > 0)
    (fc_assert (amount (wpc_fee op) \<ge> 0) (Inr ())))"

definition permission_create_validate :: "withdraw_permission_create_operation \<Rightarrow> unit result" where
  "permission_create_validate op =
     fc_assert (amount (wpr_fee op) \<ge> 0)
    (fc_assert (wpr_from op \<noteq> wpr_authorized op)
    (fc_assert (amount (wpr_limit op) > 0)
    (fc_assert (wpr_period_sec op > 0)
    (fc_assert (wpr_periods_until_expiration op > 0) (Inr ())))))"

definition permission_delete_validate :: "asset \<Rightarrow> nat \<Rightarrow> nat \<Rightarrow> unit result" where
  "permission_delete_validate fee from authorized =
     fc_assert (amount fee \<ge> 0) (fc_assert (from \<noteq> authorized) (Inr ()))"

fun content_validate :: "(string \<Rightarrow> string result) \<Rightarrow> content_operation \<Rightarrow> unit result" where
  "content_validate proto (Set_publishing_manager op) = spm_validate op"
| "content_validate proto (Set_publishing_right op) = spr_validate op"
| "content_validate proto (Content_submit op) = content_submit_validate proto op"
| "content_validate proto (Content_cancellation fee x u) = fc_assert (u \<noteq> []) (Inr ())"
| "content_validate proto (Request_to_buy op) = request_to_buy_validate op"
| "content_validate proto (Deliver_keys op) = fc_assert (amount (dk_fee op) \<ge> 0) (Inr ())"
| "content_validate proto (Leave_rating op) = leave_rating_validate op"
| "content_validate proto (Ready_to_publish op) = ready_to_publish_validate op"
| "content_validate proto (Ready_to_publish2 op r) = ready_to_publish_validate op"
| "content_validate proto (Proof_of_custody op) = fc_assert (amount (poc_fee op) \<ge> 0) (Inr ())"
| "content_validate proto (Report_stats fee x items) = report_stats_validate fee items"

definition proposal_update_validate :: "proposal_update_operation \<Rightarrow> unit result" where
  "proposal_update_validate op =
     fc_assert (amount (pup_fee op) \<ge> 0)
    (fc_assert (\<not> (active_approvals_to_add op = [] \<and> active_approvals_to_remove op = [] \<and>
                   owner_approvals_to_add op = [] \<and> owner_approvals_to_remove op = [] \<and>
                   key_approvals_to_add op = [] \<and> key_approvals_to_remove op = []))
    (fc_assert (list_all (\<lambda>a. a \<notin> set (active_approvals_to_remove op)) (active_approvals_to_add op))
    (fc_assert (list_all (\<lambda>a. a \<notin> set (owner_approvals_to_remove op)) (owner_approvals_to_add op))
    (fc_assert (list_all (\<lambda>a. a \<notin> set (key_approvals_to_remove op)) (key_approvals_to_add op)) (Inr ())))))"

definition proposal_delete_validate :: "proposal_delete_operation \<Rightarrow> unit result" where
  "proposal_delete_validate op = fc_assert (amount (pdl_fee op) \<ge> 0) (Inr ())"

lemma fold_res_cong [fundef_cong]:
  "xs = ys \<Longrightarrow> s = t \<Longrightarrow> (\<And>x u. x \<in> set ys \<Longrightarrow> f x u = g x u) \<Longrightarrow> fold_res f xs s = fold_res g ys t"
  by (induction ys arbitrary: xs s t) (auto simp: rbind_def split: sum.splits)

text \<open>The protocol of a URL is found by the URL parser of the library, a parameter.\<close>

fun operation_validate :: "(string \<Rightarrow> string result) \<Rightarrow> operation \<Rightarrow> unit result" where
  "operation_validate proto (Transfer op) = transfer_validate op"
| "operation_validate proto (Transfer2 op) = transfer2_validate op"
| "operation_validate proto (Account_create op) = account_create_validate op"
| "operation_validate proto (Account_update op) = account_update_validate op"
| "operation_validate proto (Asset_op op) = asset_validate op"
| "operation_validate proto (Miner_create op) = miner_create_validate op"
| "operation_validate proto (Miner_update op) = miner_update_validate op"
| "operation_validate proto (Update_parameters fee p) = update_parameters_validate fee p"
| "operation_validate proto (Proposal_create op ops) =
     fc_assert (ops \<noteq> []) (fold_res (\<lambda>x _. operation_validate proto x) ops ())"
| "operation_validate proto (Proposal_update op) = proposal_update_validate op"
| "operation_validate proto (Proposal_delete op) = proposal_delete_validate op"
| "operation_validate proto (Permission_create op) = permission_create_validate op"
| "operation_validate proto (Permission_update i op) = permission_update_validate op"
| "operation_validate proto (Permission_claim op) = permission_claim_validate op"
| "operation_validate proto (Permission_delete fee from authorized i) = permission_delete_validate fee from authorized"
| "operation_validate proto (Vesting_create op) = vesting_create_validate op"
| "operation_validate proto (Vesting_withdraw op) = vesting_withdraw_validate op"
| "operation_validate proto (Custom op) = custom_validate op"
| "operation_validate proto (Assert op) = assert_validate op"
| "operation_validate proto (Content op) = content_validate proto op"
| "operation_validate proto (Subscribe op) = subscribe_validate op"
| "operation_validate proto (Subscribe_by_author fee from to) = fc_assert (amount fee \<ge> 0) (Inr ())"
| "operation_validate proto (Automatic_renewal fee x sid r) = Inr ()"
| "operation_validate proto (Virtual n fee x) = Inl assert_exception"

section \<open>Fees\<close>

definition GRAPHENE_BLOCKCHAIN_PRECISION :: int where "GRAPHENE_BLOCKCHAIN_PRECISION = 100000000"

definition fee_of :: "int \<Rightarrow> int \<Rightarrow> fee_parameters" where
  "fee_of f k = \<lparr>par_fee = f, par_kbyte = k\<rparr>"

text \<open>The default parameters of each kind of operation, by its place in the variant.\<close>

definition default_fees :: "(nat \<times> fee_parameters) list" where
  "default_fees =
     (let P = GRAPHENE_BLOCKCHAIN_PRECISION; z = (\<lambda>i. (i, fee_of 0 0)) in
      [(0, fee_of (P div 1000) 0), (1, fee_of (P div 1000) 0), (2, fee_of (P div 1000) 0), (3, fee_of (P div 1000) 0),
       (4, fee_of (5 * P div 1000) 0), (5, fee_of (P div 10000000) 0), (6, fee_of (50 * P div 100) 0), (7, fee_of (P div 1000) 0),
       (8, fee_of 10 0), (9, fee_of (P div 1000) 10), (10, fee_of (P div 1000) 10), (11, fee_of (P div 1000) 0),
       (12, fee_of (P div 1000) 0), (13, fee_of (P div 1000) 0), (14, fee_of (P div 1000) 10), z 15,
       (16, fee_of (P div 1000) 0), (17, fee_of (P div 1000) 0), (18, fee_of (P div 1000) 10), (19, fee_of (P div 100) 0),
       (20, fee_of (P div 100) 0)] @ map z [21..<33] @
      [(33, fee_of (5 * P div 1000) 0), (34, fee_of (5 * P div 1000) 0), (35, fee_of (5 * P div 1000) 0),
       (36, fee_of (5 * P div 1000) 0), (37, fee_of (5 * P div 1000) 0), z 38, (39, fee_of (P div 1000) 0),
       (40, fee_of (5 * P div 1000) 0)] @ map z [41..<47])"

text \<open>
  \<open>data_size\<close> is the packed size, in bytes, of what \<open>calculate_fee\<close> charges for: the operation for custom operations and
  proposals, the memo for issuing and, if there is one, for a claim. Multiplication wraps in 64 bits.
\<close>

definition with_data :: "int \<Rightarrow> int \<Rightarrow> int \<Rightarrow> int result" where
  "with_data fee bytes price = rbind (calculate_data_fee bytes price) (\<lambda>d. Inr (u64 (fee + d)))"

fun base_fee :: "(operation \<Rightarrow> int) \<Rightarrow> fee_parameters \<Rightarrow> operation \<Rightarrow> int result" where
  "base_fee data_size k (Asset_op (Asset_create op)) = Inr (asset_create_calculate_fee k op)"
| "base_fee data_size k (Asset_op (Asset_issue op)) = with_data (par_fee k) (data_size (Asset_op (Asset_issue op))) (par_fee k)"
| "base_fee data_size k (Proposal_create op ops) = with_data (par_fee k) (data_size (Proposal_create op ops)) (par_kbyte k)"
| "base_fee data_size k (Proposal_update op) = with_data (par_fee k) (data_size (Proposal_update op)) (par_kbyte k)"
| "base_fee data_size k (Permission_claim op) = with_data (par_fee k) (data_size (Permission_claim op)) (par_kbyte k)"
| "base_fee data_size k (Custom op) = with_data (par_fee k) (data_size (Custom op)) (par_kbyte k)"
| "base_fee data_size k (Assert op) = Inr (u64 (par_fee k * int (length (ast_predicates op))))"
| "base_fee data_size k (Content (Content_submit op)) = Inr (if cs_seeders op \<noteq> [] then 0 else par_fee k)"
| "base_fee data_size k _ = Inr (par_fee k)"

definition calculate_fee :: "safe \<Rightarrow> (operation \<Rightarrow> int) \<Rightarrow> fee_schedule \<Rightarrow> operation \<Rightarrow> price \<Rightarrow> asset result option" where
  "calculate_fee S data_size s op cer =
     (case rbind (base_fee data_size (parameters_for default_fees (which op) s) op) (scaled_fee s) of
        Inl e \<Rightarrow> Some (Inl e)
      | Inr scaled \<Rightarrow> fee_in S cer scaled)"

text \<open>
  The fee the evaluator asks for, in the core asset. The loop of \<open>calculate_fee\<close> ends at the first test, since the price is one
  to one; the case that it does not end is there for the type.
\<close>

definition required_fee :: "safe \<Rightarrow> (operation \<Rightarrow> int) \<Rightarrow> operation \<Rightarrow> database \<Rightarrow> int result" where
  "required_fee S data_size op db =
     (case calculate_fee S data_size (current_fees (parameters (gpo db))) op (unit_price 0) of
        None \<Rightarrow> Inl out_of_fuel
      | Some r \<Rightarrow> rbind r (\<lambda>a. Inr (amount a)))"

lemma fee_in_core:
  assumes "0 \<le> scaled" "scaled \<le> GRAPHENE_MAX_SHARE_SUPPLY"
  shows "fee_in S (unit_price 0) scaled = Some (Inr (mk_asset scaled 0))"
proof -
  have "in_int64 scaled" using assms by (simp add: in_int64_def GRAPHENE_MAX_SHARE_SUPPLY_def)
  then have "asset_times_price (mk_asset scaled 0) (unit_price 0) = Inr (mk_asset scaled 0)"
    using scale_amount_exact [of scaled 1 1 0] assms by (simp add: asset_times_price_def unit_price_def mk_asset_def in_int64_def)
  then show ?thesis using assms by (simp add: fee_in_def raise_fee.simps asset_less_def Let_def mk_asset_def)
qed

lemma required_fee_ends: "calculate_fee S data_size s op (unit_price 0) \<noteq> None"
proof -
  have "0 \<le> scaled \<and> scaled \<le> GRAPHENE_MAX_SHARE_SUPPLY" if "scaled_fee s b = Inr scaled" for b scaled
    using that by (auto simp: scaled_fee_def Let_def res_simps GRAPHENE_100_PERCENT_def pos_imp_zdiv_nonneg_iff)
  then show ?thesis
    by (auto simp: calculate_fee_def fee_in_core res_simps split: sum.splits)
qed

section \<open>Skip flags\<close>

text \<open>The flags of \<open>validation_steps\<close> (\<open>database.hpp\<close>) that turn checks off, as bits of a 32 bit word.\<close>

definition skip_nothing :: "32 word" where "skip_nothing = 0"
definition skip_miner_signature :: "32 word" where "skip_miner_signature = 1"
definition skip_transaction_signatures :: "32 word" where "skip_transaction_signatures = 2"
definition skip_transaction_dupe_check :: "32 word" where "skip_transaction_dupe_check = 4"
definition skip_fork_db :: "32 word" where "skip_fork_db = 8"
definition skip_block_size_check :: "32 word" where "skip_block_size_check = 16"
definition skip_tapos_check :: "32 word" where "skip_tapos_check = 32"
definition skip_authority_check :: "32 word" where "skip_authority_check = 64"
definition skip_merkle_check :: "32 word" where "skip_merkle_check = 128"
definition skip_assert_evaluation :: "32 word" where "skip_assert_evaluation = 256"
definition skip_undo_history_check :: "32 word" where "skip_undo_history_check = 512"
definition skip_miner_schedule_check :: "32 word" where "skip_miner_schedule_check = 1024"
definition skip_validate :: "32 word" where "skip_validate = 2048"

definition skips :: "32 word \<Rightarrow> 32 word \<Rightarrow> bool" where
  "skips skip step \<longleftrightarrow> skip AND step \<noteq> 0"

section \<open>Evaluation on the database\<close>

text \<open>
  What the evaluators use of other code: the parameters of the content evaluators, the URL parser, the registered
  interpreters of custom operations and the packed sizes.
\<close>

record op_env =
  env_content :: content_env
  env_proto :: "string \<Rightarrow> string result"
  env_register :: "nat \<Rightarrow> interpreter option"
  env_data_size :: "operation \<Rightarrow> int"

definition content_env_of :: "op_env \<Rightarrow> 32 word \<Rightarrow> content_env" where
  "content_env_of E skip =
     (env_content E)\<lparr>env_skip_undo := skips skip skip_undo_history_check, env_skip_validate := skips skip skip_validate\<rparr>"

text \<open>
  The generic evaluator around one operation: the fee of the schedule is computed after the fee offered has been
  prepared and before the operation's own check.
\<close>

definition evaluate_with ::
  "safe \<Rightarrow> op_env \<Rightarrow> operation \<Rightarrow> (fee_state \<Rightarrow> database \<Rightarrow> ('e \<times> fee_state) result) \<Rightarrow>
   ('e \<Rightarrow> fee_state \<Rightarrow> database \<Rightarrow> database result) \<Rightarrow> database \<Rightarrow> database result" where
  "evaluate_with S E op check change db =
     rbind (prepare_fee (fee_payer op) (op_fee op) db) (\<lambda>_.
     rbind (required_fee S (env_data_size E) op db) (\<lambda>r.
     start_evaluate S False (Some r) (fee_payer op) (op_fee op) check change db))"

definition evaluate_plain ::
  "safe \<Rightarrow> op_env \<Rightarrow> operation \<Rightarrow> (database \<Rightarrow> unit result) \<Rightarrow> (database \<Rightarrow> database result) \<Rightarrow> database \<Rightarrow> database result" where
  "evaluate_plain S E op c f db = evaluate_with S E op (plain_check c) (plain_change f) db"

definition no_check :: "database \<Rightarrow> unit result" where
  "no_check db = Inr ()"

text \<open>The operations on proposals are not evaluated here, and the evaluators of the virtual operations do nothing.\<close>

fun run_operation :: "safe \<Rightarrow> op_env \<Rightarrow> 32 word \<Rightarrow> bool \<Rightarrow> operation \<Rightarrow> database \<Rightarrow> database result" where
  "run_operation S E skip proposed (Transfer op) db =
     evaluate_plain S E (Transfer op) (transfer_do_evaluate op) (transfer_do_apply S op) db"
| "run_operation S E skip proposed (Transfer2 op) db =
     evaluate_plain S E (Transfer2 op) (transfer2_do_evaluate op) (transfer2_do_apply S op) db"
| "run_operation S E skip proposed (Account_create op) db =
     evaluate_plain S E (Account_create op) (account_create_do_evaluate op) (account_create_do_apply op) db"
| "run_operation S E skip proposed (Account_update op) db =
     evaluate_plain S E (Account_update op) (account_update_do_evaluate op) (account_update_do_apply op) db"
| "run_operation S E skip proposed (Asset_op op) db =
     evaluate_with S E (Asset_op op) (asset_check S op) (asset_change S op) db"
| "run_operation S E skip proposed (Miner_create op) db =
     evaluate_plain S E (Miner_create op) no_check (miner_create_do_apply op) db"
| "run_operation S E skip proposed (Miner_update op) db =
     evaluate_plain S E (Miner_update op) (miner_update_do_evaluate op) (miner_update_do_apply op) db"
| "run_operation S E skip proposed (Update_parameters fee p) db =
     evaluate_plain S E (Update_parameters fee p) (\<lambda>_. update_parameters_do_evaluate proposed) (update_parameters_do_apply p) db"
| "run_operation S E skip proposed (Permission_create op) db =
     evaluate_plain S E (Permission_create op) (permission_create_do_evaluate op) (permission_create_do_apply op) db"
| "run_operation S E skip proposed (Permission_update i op) db =
     evaluate_plain S E (Permission_update i op) (permission_update_do_evaluate i op) (permission_update_do_apply i op) db"
| "run_operation S E skip proposed (Permission_claim op) db =
     evaluate_plain S E (Permission_claim op) (claim_do_evaluate S op) (claim_do_apply S op) db"
| "run_operation S E skip proposed (Permission_delete fee from authorized i) db =
     evaluate_plain S E (Permission_delete fee from authorized i) (permission_delete_do_evaluate i from authorized) (permission_delete_do_apply i) db"
| "run_operation S E skip proposed (Vesting_create op) db =
     evaluate_plain S E (Vesting_create op) (vesting_create_do_evaluate op) (vesting_create_do_apply S op) db"
| "run_operation S E skip proposed (Vesting_withdraw op) db =
     evaluate_plain S E (Vesting_withdraw op) (vesting_withdraw_do_evaluate S op) (vesting_withdraw_do_apply S op) db"
| "run_operation S E skip proposed (Custom op) db =
     evaluate_plain S E (Custom op) (custom_do_evaluate (env_register E) op) (custom_do_apply (env_register E) op) db"
| "run_operation S E skip proposed (Assert op) db =
     evaluate_plain S E (Assert op) (assert_do_evaluate (skips skip skip_assert_evaluation) op) (\<lambda>db. Inr db) db"
| "run_operation S E skip proposed (Content op) db =
     evaluate_with S E (Content op) (content_check S (content_env_of E skip) op) (content_change S (content_env_of E skip) op) db"
| "run_operation S E skip proposed (Subscribe op) db =
     evaluate_plain S E (Subscribe op) (subscribe_do_evaluate op) (subscribe_do_apply S op) db"
| "run_operation S E skip proposed (Subscribe_by_author fee from to) db =
     evaluate_plain S E (Subscribe_by_author fee from to) (subscribe_by_author_do_evaluate from to) (subscribe_by_author_do_apply from to fee) db"
| "run_operation S E skip proposed (Automatic_renewal fee x sid r) db =
     evaluate_plain S E (Automatic_renewal fee x sid r) (automatic_renewal_do_evaluate x sid r) (automatic_renewal_do_apply sid r) db"
| "run_operation S E skip proposed (Virtual n fee x) db =
     (if n = 3 \<or> n = 4 then Inl undefined_behaviour
      else evaluate_plain S E (Virtual n fee x) no_check (\<lambda>db. Inr db) db)"
| "run_operation S E skip proposed (Proposal_create op ops) db = Inl undefined_behaviour"
| "run_operation S E skip proposed (Proposal_update op) db = Inl undefined_behaviour"
| "run_operation S E skip proposed (Proposal_delete op) db = Inl undefined_behaviour"

end
