(* ===== verification/Asset_Books.thy ===== *)
theory Asset_Books
  imports Asset_Operations Observers
begin

text \<open>
  The books under the asset operations. \<open>unbacked\<close> is what is held of an asset beyond its recorded
  supply; every operation but the creation of an asset leaves it alone, and the creation
  adds the amount given here. Supplies stay under their maximum, and a maximum declared fixed is final.
\<close>

section \<open>Recorded supply\<close>

definition recorded_in :: "asset_object option \<Rightarrow> (nat \<Rightarrow> int option) \<Rightarrow> int" where
  "recorded_in a s = (case Option.bind a (\<lambda>ao. s (dynamic_asset_data_id ao)) of None \<Rightarrow> 0 | Some x \<Rightarrow> x)"

definition recorded_supply :: "nat \<Rightarrow> database \<Rightarrow> int" where
  "recorded_supply a db = recorded_in (idx_find (assets db) a) (supplies db)"

definition unbacked :: "nat \<Rightarrow> database \<Rightarrow> int" where
  "unbacked a db = holdings a db - recorded_supply a db"

lemma recorded_supply_frame:
  "assets db' = assets db \<Longrightarrow> supplies db' = supplies db \<Longrightarrow> recorded_supply a db' = recorded_supply a db"
  by (simp add: recorded_supply_def)

lemma modify_dynamic_data_Inr:
  assumes "modify_dynamic_data i f db = Inr db'"
  obtains d d' t where "idx_find (dynamic_data db) i = Some d" "f d = Inr d'" "db' = db\<lparr>dynamic_data := t\<rparr>"
    "idx_find t = (idx_find (dynamic_data db))(i \<mapsto> d')"
proof -
  from assms obtain t where t: "idx_update no_clash (dynamic_data db) i f = Inr t" "db' = db\<lparr>dynamic_data := t\<rparr>"
    by (auto simp: modify_dynamic_data_def res_simps)
  with idx_update_Inr [OF t(1)] that show ?thesis by blast
qed

text \<open>An update of the dynamic data of asset \<open>i\<close>: \<open>da\<close> and \<open>dc\<close> into its pools, \<open>ds\<close> to its supply.\<close>

lemma modify_dynamic_data_books:
  assumes b: "books db" and ao: "idx_find (assets db) i = Some ao"
    and m: "modify_dynamic_data (dynamic_asset_data_id ao) f db = Inr db'"
    and f: "\<And>d d'. f d = Inr d' \<Longrightarrow> asset_pool d' = asset_pool d + da \<and> core_pool d' = core_pool d + dc \<and> current_supply d' = current_supply d + ds"
  shows "books db'" "holdings a db' = holdings a db + (if a = i then da else 0) + (if a = 0 then dc else 0)"
    "recorded_supply a db' = recorded_supply a db + (if a = i then ds else 0)" "\<exists>t. db' = db\<lparr>dynamic_data := t\<rparr>"
proof -
  have f': "f d = Inr d' \<Longrightarrow> asset_pool d' = asset_pool d + da \<and> core_pool d' = core_pool d + dc" for d d' using f by blast
  show "books db'" "holdings a db' = holdings a db + (if a = i then da else 0) + (if a = 0 then dc else 0)"
    by (rule modify_pools_holdings [OF b m ao f'], assumption)+
  from m obtain d d' t where d: "idx_find (dynamic_data db) (dynamic_asset_data_id ao) = Some d" "f d = Inr d'" "db' = db\<lparr>dynamic_data := t\<rparr>"
    "idx_find t = (idx_find (dynamic_data db))(dynamic_asset_data_id ao \<mapsto> d')" by (rule modify_dynamic_data_Inr)
  show "\<exists>t. db' = db\<lparr>dynamic_data := t\<rparr>" using d(3) by blast
  show "recorded_supply a db' = recorded_supply a db + (if a = i then ds else 0)"
  proof (cases "a = i")
    case True
    with ao d f [OF d(2)] show ?thesis by (simp add: recorded_supply_def recorded_in_def supplies_def)
  next
    case False
    then have "dynamic_asset_data_id x \<noteq> dynamic_asset_data_id ao" if "idx_find (assets db) a = Some x" for x
      using asset_data_unique [OF b that ao] by auto
    with False d show ?thesis by (cases "idx_find (assets db) a") (simp_all add: recorded_supply_def recorded_in_def supplies_def)
  qed
qed

lemma pool_updates_exact:
  assumes S: "safe_exact S"
  shows "add_asset_pool S x d = Inr d' \<Longrightarrow> asset_pool d' = asset_pool d + x \<and> core_pool d' = core_pool d + 0 \<and> current_supply d' = current_supply d + 0"
    and "add_core_pool S x d = Inr d' \<Longrightarrow> asset_pool d' = asset_pool d + 0 \<and> core_pool d' = core_pool d + x \<and> current_supply d' = current_supply d + 0"
    and "add_supply S x d = Inr d' \<Longrightarrow> asset_pool d' = asset_pool d + 0 \<and> core_pool d' = core_pool d + 0 \<and> current_supply d' = current_supply d + x"
  by (auto simp: add_asset_pool_def add_core_pool_def add_supply_def res_simps dest!: safe_exactD [OF S])

lemma adjust_balance_unbacked:
  assumes S: "safe_exact S" and b: "books db" and a: "adjust_balance S x d db = Inr db'"
  shows "books db'" "unbacked a db' = unbacked a db + held a d" "\<exists>t. db' = db\<lparr>balances := t\<rparr>"
proof -
  have s: "solvent db" using b by (simp add: books_def)
  show "\<exists>t. db' = db\<lparr>balances := t\<rparr>" using adjust_balance_Inr(1) [OF S s a] .
  then show "books db'" "unbacked a db' = unbacked a db + held a d"
    using adjust_balance_holdings [OF S b a] recorded_supply_frame [of db' db a]
    by (auto simp: unbacked_def supplies_def fun_eq_iff)
qed

section \<open>The evaluators\<close>

text \<open>An asset that changes its options keeps its dynamic data, its kind and a rate against the core asset.\<close>

definition same_books :: "nat \<Rightarrow> asset_object \<Rightarrow> asset_object \<Rightarrow> bool" where
  "same_books i a a' \<longleftrightarrow> dynamic_asset_data_id a' = dynamic_asset_data_id a \<and> (is_monitored_asset a' \<longrightarrow> is_monitored_asset a) \<and>
     (rate_ok i a \<longrightarrow> rate_ok i a')"

lemma upd_row_dyn:
  assumes "map_of rs i = Some a" "distinct (map fst rs)" "dynamic_asset_data_id a' = dynamic_asset_data_id a"
  shows "map (\<lambda>r. dynamic_asset_data_id (snd r)) (upd_row i a' rs) = map (\<lambda>r. dynamic_asset_data_id (snd r)) rs"
proof -
  have "snd r = a" if "r \<in> set rs" "fst r = i" for r
    using that assms(1,2) by (metis map_of_is_SomeI option.inject prod.collapse)
  with assms(3) show ?thesis by (auto simp: upd_row_def)
qed

lemma modify_asset_good:
  assumes g: "good U db" and m: "modify_asset i f db = Inr db'" and f: "\<And>a a'. idx_find (assets db) i = Some a \<Longrightarrow> f a = Inr a' \<Longrightarrow> same_books i a a'"
  shows "good U db'" "unbacked x db' = unbacked x db"
proof -
  from m obtain t where t: "idx_update asset_clash (assets db) i f = Inr t" "db' = db\<lparr>assets := t\<rparr>"
    by (auto simp: modify_asset_def res_simps)
  from t(1) obtain a a' where a: "idx_find (assets db) i = Some a" "f a = Inr a'" "t = (assets db)\<lparr>rows := upd_row i a' (rows (assets db))\<rparr>"
    by (auto simp: idx_update_def idx_modify_def res_simps split: option.splits if_splits)
  note s = f [OF a(1,2)]
  have w: "wf_index (assets db)" using g by (simp add: good_def books_def)
  have find: "idx_find t = (idx_find (assets db))(i \<mapsto> a')" using idx_update_Inr [OF t(1)] a(1,2) by auto
  have dist: "distinct (map fst (rows (assets db)))" using w by (simp add: wf_index_def sorted_imp_distinct_rows)
  have dyn: "map (\<lambda>r. dynamic_asset_data_id (snd r)) (rows t) = map (\<lambda>r. dynamic_asset_data_id (snd r)) (rows (assets db))"
    using upd_row_dyn [OF _ dist] a s by (simp add: idx_find_def same_books_def)
  have "wf_index t" using w a(3) by (simp add: wf_index_def)
  with g dyn t(2) have "books db'" by (simp add: good_def books_def solvent_def)
  moreover have "market_inv U db'" using g s find t(2) a(1) by (auto simp: good_def market_inv_def same_books_def)
  ultimately show "good U db'" by (simp add: good_def)
  have "pool_of x db' = pool_of x db" using find t(2) a(1) s by (auto simp: pool_of_def pool_in_def same_books_def)
  moreover have "recorded_supply x db' = recorded_supply x db" using find t(2) a(1) s by (simp add: recorded_supply_def recorded_in_def supplies_def same_books_def)
  ultimately show "unbacked x db' = unbacked x db" using t(2) by (simp add: unbacked_def holdings_def balance_supply_def)
qed

lemma good_frame_dyn: "good U db \<Longrightarrow> books (db\<lparr>dynamic_data := t\<rparr>) \<Longrightarrow> good U (db\<lparr>dynamic_data := t\<rparr>)"
  using market_inv_frame [of "db\<lparr>dynamic_data := t\<rparr>" db U] by (simp add: good_def)

lemma good_frame_bal: "good U db \<Longrightarrow> books (db\<lparr>balances := t\<rparr>) \<Longrightarrow> good U (db\<lparr>balances := t\<rparr>)"
  using market_inv_frame [of "db\<lparr>balances := t\<rparr>" db U] by (simp add: good_def)

text \<open>An account exchanges \<open>d\<close> with the dynamic data of asset \<open>i\<close>.\<close>

lemma exchange_good:
  assumes S: "safe_exact S" and g: "good U db" and ao: "idx_find (assets db) i = Some ao"
    and a: "adjust_balance S x d db = Inr db1" and m: "modify_dynamic_data (dynamic_asset_data_id ao) f db1 = Inr db2"
    and f: "\<And>d d'. f d = Inr d' \<Longrightarrow> asset_pool d' = asset_pool d + da \<and> core_pool d' = core_pool d + dc \<and> current_supply d' = current_supply d + ds"
    and z: "\<And>a. held a d + (if a = i then da - ds else 0) + (if a = 0 then dc else 0) = 0"
  shows "good U db2 \<and> (\<forall>a. unbacked a db2 = unbacked a db) \<and> assets db2 = assets db"
proof -
  have b: "books db" using g by (simp add: good_def)
  note h = adjust_balance_unbacked [OF S b a]
  obtain t where t: "db1 = db\<lparr>balances := t\<rparr>" using h(3) by blast
  have g1: "good U db1" using good_frame_bal [OF g] h(1) t by simp
  have ao1: "idx_find (assets db1) i = Some ao" using ao t by simp
  note k = modify_dynamic_data_books [OF h(1) ao1 m f]
  have k4: "\<exists>u. db2 = db1\<lparr>dynamic_data := u\<rparr>" by (rule k(4)) assumption
  then obtain u where u: "db2 = db1\<lparr>dynamic_data := u\<rparr>" ..
  have "books db2" by (rule k(1)) assumption
  with good_frame_dyn [OF g1] u have "good U db2" by simp
  moreover have "unbacked a db2 = unbacked a db" for a
  proof -
    have "holdings a db2 = holdings a db1 + (if a = i then da else 0) + (if a = 0 then dc else 0)" by (rule k(2)) assumption
    moreover have "recorded_supply a db2 = recorded_supply a db1 + (if a = i then ds else 0)" by (rule k(3)) assumption
    ultimately show ?thesis using h(2) [of a] z [of a] by (simp add: unbacked_def split: if_splits)
  qed
  ultimately show ?thesis using t u by simp
qed

lemma issue_good:
  assumes S: "safe_exact S" and g: "good U db" and c: "asset_issue_do_apply S op db = Inr db'"
  shows "good U db' \<and> (\<forall>a. unbacked a db' = unbacked a db)"
proof -
  from c obtain ao db1 where ao: "idx_find (assets db) (asset_id (asset_to_issue op)) = Some ao"
    and a: "adjust_balance S (issue_to_account op) (asset_to_issue op) db = Inr db1"
    and m: "modify_dynamic_data (dynamic_asset_data_id ao) (add_supply S (amount (asset_to_issue op))) db1 = Inr db'"
    by (auto simp: asset_issue_do_apply_def idx_get_def res_simps)
  from exchange_good [OF S g ao a m pool_updates_exact(3) [OF S]] show ?thesis by (auto simp: held_def)
qed

lemma reserve_good:
  assumes S: "safe_exact S" and g: "good U db" and c: "asset_reserve_do_apply S op db = Inr db'"
  shows "good U db' \<and> (\<forall>a. unbacked a db' = unbacked a db)"
proof -
  from c obtain ao n db1 where ao: "idx_find (assets db) (asset_id (amount_to_reserve op)) = Some ao"
    and n: "asset_neg S (amount_to_reserve op) = Inr n" and a: "adjust_balance S (ar_payer op) n db = Inr db1"
    and m: "modify_dynamic_data (dynamic_asset_data_id ao) (add_supply S (- amount (amount_to_reserve op))) db1 = Inr db'"
    by (auto simp: asset_reserve_do_apply_def idx_get_def res_simps)
  from exchange_good [OF S g ao a m pool_updates_exact(3) [OF S]] asset_neg_exact [OF S n] show ?thesis by (auto simp: held_def)
qed

lemma fund_pools_good:
  assumes S: "safe_exact S" and g: "good U db" and v: "fund_pools_validate op = Inr ()" and c: "fund_pools_do_apply S op db = Inr db'"
  shows "good U db' \<and> (\<forall>a. unbacked a db' = unbacked a db)"
proof -
  from c obtain ao db1 where ao: "idx_find (assets db) (asset_id (fp_uia op)) = Some ao"
    and 1: "(if amount (fp_uia op) > 0 then
              rbind (asset_neg S (fp_uia op)) (\<lambda>n. rbind (adjust_balance S (fp_from op) n db) (\<lambda>db'.
              modify_dynamic_data (dynamic_asset_data_id ao) (add_asset_pool S (amount (fp_uia op))) db'))
            else Inr db) = Inr db1"
    and 2: "(if amount (fp_dct op) > 0 then
       rbind (asset_neg S (fp_dct op)) (\<lambda>n. rbind (adjust_balance S (fp_from op) n db1) (\<lambda>db'.
       modify_dynamic_data (dynamic_asset_data_id ao) (add_core_pool S (amount (fp_dct op))) db'))
     else Inr db1) = Inr db'"
    by (auto simp: fund_pools_do_apply_def idx_get_def res_simps)
  have g1: "good U db1 \<and> (\<forall>a. unbacked a db1 = unbacked a db) \<and> assets db1 = assets db"
  proof (cases "amount (fp_uia op) > 0")
    case True
    with 1 obtain n s where n: "asset_neg S (fp_uia op) = Inr n" "adjust_balance S (fp_from op) n db = Inr s"
      "modify_dynamic_data (dynamic_asset_data_id ao) (add_asset_pool S (amount (fp_uia op))) s = Inr db1" by (auto simp: res_simps)
    from exchange_good [OF S g ao n(2,3) pool_updates_exact(1) [OF S]] asset_neg_exact [OF S n(1)] show ?thesis by (auto simp: held_def)
  qed (use 1 g in simp)
  show ?thesis
  proof (cases "amount (fp_dct op) > 0")
    case True
    with 2 obtain n s where n: "asset_neg S (fp_dct op) = Inr n" "adjust_balance S (fp_from op) n db1 = Inr s"
      "modify_dynamic_data (dynamic_asset_data_id ao) (add_core_pool S (amount (fp_dct op))) s = Inr db'" by (auto simp: res_simps)
    have "asset_id (fp_dct op) = 0" using v by (auto simp: fund_pools_validate_def res_simps)
    with exchange_good [OF S conjunct1 [OF g1] _ n(2,3) pool_updates_exact(2) [OF S]] ao g1 asset_neg_exact [OF S n(1)]
    show ?thesis by (auto simp: held_def)
  qed (use 2 g1 in simp)
qed

lemma claim_fees_good:
  assumes S: "safe_exact S" and g: "good U db" and v: "claim_fees_validate op = Inr ()" and c: "claim_fees_do_apply S op db = Inr db'"
  shows "good U db' \<and> (\<forall>a. unbacked a db' = unbacked a db)"
proof -
  from c obtain ao db1 where ao: "idx_find (assets db) (asset_id (cf_uia op)) = Some ao"
    and 1: "(if amount (cf_uia op) > 0 then
              rbind (adjust_balance S (cf_issuer op) (cf_uia op) db) (\<lambda>db'.
              modify_dynamic_data (dynamic_asset_data_id ao) (add_asset_pool S (- amount (cf_uia op))) db')
            else Inr db) = Inr db1"
    and 2: "(if amount (cf_dct op) > 0 then
       rbind (adjust_balance S (cf_issuer op) (cf_dct op) db1) (\<lambda>db'.
       modify_dynamic_data (dynamic_asset_data_id ao) (add_core_pool S (- amount (cf_dct op))) db')
     else Inr db1) = Inr db'"
    by (auto simp: claim_fees_do_apply_def idx_get_def res_simps)
  have g1: "good U db1 \<and> (\<forall>a. unbacked a db1 = unbacked a db) \<and> assets db1 = assets db"
  proof (cases "amount (cf_uia op) > 0")
    case True
    with 1 obtain s where n: "adjust_balance S (cf_issuer op) (cf_uia op) db = Inr s"
      "modify_dynamic_data (dynamic_asset_data_id ao) (add_asset_pool S (- amount (cf_uia op))) s = Inr db1" by (auto simp: res_simps)
    from exchange_good [OF S g ao n pool_updates_exact(1) [OF S]] show ?thesis by (auto simp: held_def)
  qed (use 1 g in simp)
  show ?thesis
  proof (cases "amount (cf_dct op) > 0")
    case True
    with 2 obtain s where n: "adjust_balance S (cf_issuer op) (cf_dct op) db1 = Inr s"
      "modify_dynamic_data (dynamic_asset_data_id ao) (add_core_pool S (- amount (cf_dct op))) s = Inr db'" by (auto simp: res_simps)
    have "asset_id (cf_dct op) = 0" using v by (auto simp: claim_fees_validate_def res_simps)
    with exchange_good [OF S conjunct1 [OF g1] _ n pool_updates_exact(2) [OF S]] ao g1 show ?thesis by (auto simp: held_def)
  qed (use 2 g1 in simp)
qed

lemma modify_asset_kept:
  assumes "good U db" "modify_asset i f db = Inr db'" "\<forall>a a'. idx_find (assets db) i = Some a \<longrightarrow> f a = Inr a' \<longrightarrow> same_books i a a'"
  shows "good U db' \<and> (\<forall>x. unbacked x db' = unbacked x db)"
  using modify_asset_good [OF assms(1,2)] assms(3) by blast

lemma rate_ok_opts: "asset_opts a' = asset_opts a \<Longrightarrow> is_monitored_asset a' = is_monitored_asset a \<Longrightarrow> rate_ok i a' = rate_ok i a"
  by (simp add: rate_ok_def)

lemma update_monitored_keeps: "update_monitored op a = Inr a' \<Longrightarrow> is_monitored_asset a \<Longrightarrow> same_books i a a'"
  by (auto simp: update_monitored_def same_books_def is_monitored_asset_def rate_ok_def Let_def res_simps split: if_splits)

lemma publish_feed_keeps: "publish_feed op t a = Inr a' \<Longrightarrow> same_books i a a'"
  by (auto simp: publish_feed_def same_books_def is_monitored_asset_def rate_ok_def res_simps)

lemma update_advanced_keeps: "same_books i a (update_advanced op e a)"
  by (simp add: update_advanced_def same_books_def rate_ok_def is_monitored_asset_def)

lemma update_uia_keeps:
  assumes v: "update_uia_validate op = Inr ()" and n: "uu_asset op \<noteq> 0"
  shows "same_books (uu_asset op) a (update_uia op a)"
proof -
  let ?p = "uu_exchange_rate op"
  from v obtain d where d: "asset_times_price (mk_asset 1 (uu_asset op)) ?p = Inr d" "asset_id d = 0" by (auto simp: update_uia_validate_def res_simps)
  then have "{asset_id (base ?p), asset_id (quote ?p)} = {0, uu_asset op}"
    by (auto simp: asset_times_price_def scale_amount_def mk_asset_def Let_def res_simps split: if_splits)
  then show ?thesis by (simp add: same_books_def update_uia_def rate_ok_def is_monitored_asset_def)
qed

lemma asset_change_good:
  assumes S: "safe_exact S" and g: "good U db" and v: "asset_validate op = Inr ()" and c: "asset_check S op fs db0 = Inr (e, fs')"
    and d: "assets db = assets db0" and ch: "asset_change S op e fs' db = Inr db'" and n: "\<forall>o'. op \<noteq> Asset_create o'"
  shows "good U db' \<and> (\<forall>a. unbacked a db' = unbacked a db)"
proof (cases op)
  case (Publish_feed x)
  with ch have "modify_asset (pf_asset x) (publish_feed x (head_block_time db)) db = Inr db'" by (simp add: publish_feed_do_apply_def)
  from modify_asset_kept [OF g this] publish_feed_keeps show ?thesis by blast
next
  case (Update_uia x)
  with c v have u: "update_uia_validate x = Inr ()" "uu_asset x \<noteq> 0" by (auto simp: checked_def update_uia_do_evaluate_def res_simps)
  from ch Update_uia have "modify_asset (uu_asset x) (\<lambda>a. Inr (update_uia x a)) db = Inr db'" by (simp add: update_uia_do_apply_def)
  from modify_asset_kept [OF g this] update_uia_keeps [OF u] show ?thesis by blast
next
  case (Update_monitored x)
  with c d have "\<forall>a. idx_find (assets db) (um_asset x) = Some a \<longrightarrow> is_monitored_asset a"
    by (auto simp: checked_def update_monitored_do_evaluate_def idx_get_def res_simps)
  moreover from ch Update_monitored have "modify_asset (um_asset x) (update_monitored x) db = Inr db'" by (simp add: update_monitored_do_apply_def)
  ultimately show ?thesis using modify_asset_kept [OF g] update_monitored_keeps by blast
next
  case (Update_advanced x)
  with ch have "modify_asset (ua_asset x) (\<lambda>a. Inr (update_advanced x e a)) db = Inr db'" by (simp add: update_advanced_do_apply_def)
  from modify_asset_kept [OF g this] update_advanced_keeps show ?thesis by blast
qed (use n ch v issue_good [OF S g] reserve_good [OF S g] fund_pools_good [OF S g] claim_fees_good [OF S g] in auto)

section \<open>With the fee\<close>

lemma fee_steps:
  assumes S: "safe_exact S" and g: "good U db" and c: "convert_fee S False fs db = Inr db1" and p: "pay_fee S False fs db1 = Inr db2"
  shows "good U db2" "assets db2 = assets db" "supplies db2 = supplies db"
    "unbacked a db2 = unbacked a db + (if asset_id (fee_from_account fs) = 0 then if a = 0 then core_fee_paid fs else 0
       else held a (fee_from_account fs))"
proof -
  have b: "books db" using g by (simp add: good_def)
  note h1 = convert_fee_holdings [OF S b c]
  note h2 = pay_fee_holdings [OF S h1(1) p]
  obtain t where t: "db2 = db\<lparr>dynamic_data := t\<rparr>" using fee_frame [OF c p] ..
  show "good U db2" using good_frame_dyn [OF g] h2(1) t by simp
  show a: "assets db2 = assets db" using t by simp
  have ap: "add_to_pools S da dc d = Inr d' \<Longrightarrow> current_supply d' = current_supply d" for da dc d d'
    by (auto simp: add_to_pools_def res_simps)
  have "supplies db1 = supplies db" using c ap by (auto simp: convert_fee_def res_simps split: if_splits dest!: recorded.pools)
  moreover have "supplies db2 = supplies db1" using p by (auto simp: pay_fee_def res_simps dest!: recorded.pools)
  ultimately show s: "supplies db2 = supplies db" by simp
  show "unbacked a db2 = unbacked a db + (if asset_id (fee_from_account fs) = 0 then if a = 0 then core_fee_paid fs else 0
       else held a (fee_from_account fs))"
    using h1(2) [of a] h2(2) [of a] recorded_supply_frame [OF a s, of a] by (simp add: unbacked_def)
qed

text \<open>An evaluator with any effect \<open>n\<close> on what is unbacked, run with the fee \<open>paid\<close> its check leaves.\<close>

lemma start_evaluate_unbacked:
  assumes S: "safe_exact S" and g: "good U db" and e: "start_evaluate S False required x fee check change db = Inr db'"
    and ch: "\<And>fs v fs' db2 db3. prepare_fee x fee db = Inr fs \<Longrightarrow> check fs db = Inr (v, fs') \<Longrightarrow> good U db2 \<Longrightarrow> assets db2 = assets db \<Longrightarrow>
      supplies db2 = supplies db \<Longrightarrow> change v fs' db2 = Inr db3 \<Longrightarrow>
      fee_from_account fs' = fee \<and> good U db3 \<and> (\<forall>a. unbacked a db3 = unbacked a db2 + (if a = 0 then n fs fs' else 0))"
  shows "\<exists>fs v fs'. prepare_fee x fee db = Inr fs \<and> check fs db = Inr (v, fs') \<and> good U db' \<and>
    (\<forall>a. unbacked a db' = unbacked a db + (if a = 0 then n fs fs' + (if asset_id fee = 0 then core_fee_paid fs' - amount fee else 0) else 0))"
proof -
  from e obtain fs v fs' db1 db2 db3 m where p: "prepare_fee x fee db = Inr fs" and v: "check fs db = Inr (v, fs')"
    and c: "convert_fee S False fs' db = Inr db1" and f: "pay_fee S False fs' db1 = Inr db2"
    and d: "change v fs' db2 = Inr db3" and m: "asset_neg S (fee_from_account fs') = Inr m"
    and adj: "adjust_balance S x m db3 = Inr db'"
    by (auto simp: start_evaluate_def res_simps split: if_splits option.splits)
  have g2: "good U db2" "assets db2 = assets db" "supplies db2 = supplies db" using fee_steps(1,2,3) [OF S g c f] by simp_all
  note h = ch [OF p v g2 d]
  have b3: "books db3" using h by (simp add: good_def)
  note k = adjust_balance_unbacked [OF S b3 adj]
  obtain t where t: "db' = db3\<lparr>balances := t\<rparr>" using k(3) by blast
  have gg: "good U db'" using good_frame_bal [of U db3 t] k(1) t h by simp
  have "unbacked a db' = unbacked a db + (if a = 0 then n fs fs' + (if asset_id fee = 0 then core_fee_paid fs' - amount fee else 0) else 0)" for a
    using k(2) [of a] h fee_steps(4) [OF S g c f, of a] asset_neg_held [OF S m, of a] by (auto simp: held_def)
  with gg p v show ?thesis by blast
qed

lemma run_asset_good:
  assumes S: "safe_exact S" and g: "good U db" and v: "asset_validate op = Inr ()" and n: "\<forall>o'. op \<noteq> Asset_create o'"
    and r: "run_asset S required op db = Inr db'"
  shows "good U db' \<and> (\<forall>a. unbacked a db' = unbacked a db)"
proof -
  have fs: "fs' = fs" if "asset_check S op fs db = Inr (e, fs')" for fs e fs'
    using that n by (cases op) (auto simp: checked_def res_simps)
  have "\<exists>fs e fs'. prepare_fee (asset_payer op) (asset_fee op) db = Inr fs \<and> asset_check S op fs db = Inr (e, fs') \<and> good U db' \<and>
    (\<forall>a. unbacked a db' = unbacked a db + (if a = 0 then 0 + (if asset_id (asset_fee op) = 0 then core_fee_paid fs' - amount (asset_fee op) else 0) else 0))"
  proof (rule start_evaluate_unbacked [OF S g r [unfolded run_asset_def]])
    fix fs e fs' db2 db3
    assume p: "prepare_fee (asset_payer op) (asset_fee op) db = Inr fs" and c: "asset_check S op fs db = Inr (e, fs')" and h: "good U db2" "assets db2 = assets db"
      and d: "asset_change S op e fs' db2 = Inr db3"
    from asset_change_good [OF S h(1) v c h(2) d n] fs [OF c] prepare_fee_Inr [OF p]
    show "fee_from_account fs' = asset_fee op \<and> good U db3 \<and> (\<forall>a. unbacked a db3 = unbacked a db2 + (if a = 0 then 0 else 0))" by simp
  qed
  then obtain x e y where p: "prepare_fee (asset_payer op) (asset_fee op) db = Inr x" and c: "asset_check S op x db = Inr (e, y)"
    and u: "good U db'" "\<forall>a. unbacked a db' = unbacked a db + (if a = 0 then 0 + (if asset_id (asset_fee op) = 0 then core_fee_paid y - amount (asset_fee op) else 0) else 0)"
    by blast
  from u fs [OF c] prepare_fee_Inr [OF p] show ?thesis by auto
qed

text \<open>
  Issuing, reserving, funding and claiming pools, updates and price feeds keep the account of every asset. With
  its fee, in whatever asset it is paid, an operation on assets other than a creation changes what is held of an asset by
  exactly as much as its recorded supply, and keeps the books and the market invariant.
\<close>

theorem asset_operations_accounted:
  assumes S: "safe_exact S" and g: "good U db" and v: "asset_validate op = Inr ()" and n: "\<forall>o'. op \<noteq> Asset_create o'"
    and r: "run_asset S required op db = Inr db'"
  shows "good U db' \<and> (\<forall>a. unbacked a db' = unbacked a db)"
  by (rule run_asset_good [OF S g v n r])

section \<open>Creation\<close>

text \<open>Every asset has its dynamic data.\<close>

definition data_present :: "database \<Rightarrow> bool" where
  "data_present db \<longleftrightarrow> list_all (\<lambda>r. idx_find (dynamic_data db) (dynamic_asset_data_id (snd r)) \<noteq> None) (rows (assets db))"

lemma data_present_frame: "assets db' = assets db \<Longrightarrow> supplies db' = supplies db \<Longrightarrow> data_present db' = data_present db"
proof -
  assume e: "assets db' = assets db" "supplies db' = supplies db"
  have "data_present db = list_all (\<lambda>r. supplies db (dynamic_asset_data_id (snd r)) \<noteq> None) (rows (assets db))" for db
    by (simp add: data_present_def supplies_def)
  with e show ?thesis by simp
qed

lemma create_fresh:
  assumes "wf_index t" "idx_create clash t (\<lambda>_. x) = Inr (i, t')"
  shows "i = next_id t" "idx_find t i = None" "idx_find t' = (idx_find t)(i \<mapsto> x)" "set (rows t') = insert (i, x) (set (rows t))" "wf_index t'"
proof -
  show "i = next_id t" "idx_find t i = None" "idx_find t' = (idx_find t)(i \<mapsto> x)" "wf_index t'"
    using idx_create_Inr [OF assms(2,1)] by simp_all
  from assms(2) have "t' = t\<lparr>rows := ins_row i x (rows t), next_id := Suc i\<rparr>" by (auto simp: idx_create_def Let_def res_simps)
  then show "set (rows t') = insert (i, x) (set (rows t))" by simp
qed

lemma ins_row_dyn:
  assumes "distinct (map (\<lambda>r. dynamic_asset_data_id (snd r)) rs)" "dynamic_asset_data_id x \<notin> (\<lambda>r. dynamic_asset_data_id (snd r)) ` set rs"
  shows "distinct (map (\<lambda>r. dynamic_asset_data_id (snd r)) (ins_row i x rs))"
  using assms by (induction i x rs rule: ins_row.induct) auto

text \<open>A new asset with new dynamic data adds to the pools and to the recorded supplies what the data say.\<close>

lemma new_asset_books:
  assumes g: "good U db" and pr: "data_present db" and 1: "idx_create no_clash (dynamic_data db) (\<lambda>_. d) = Inr (dyn, t)"
    and 2: "idx_create asset_clash (assets db) (\<lambda>_. ao) = Inr (i, u)" and d': "db' = db\<lparr>dynamic_data := t, assets := u\<rparr>"
    and ao: "dynamic_asset_data_id ao = dyn" "rate_ok i ao" "is_monitored_asset ao \<longrightarrow> i \<notin> U" and p: "asset_pool d = 0"
  shows "good U db'" "data_present db'" "holdings a db' = holdings a db + (if a = 0 then core_pool d else 0)"
    "recorded_supply a db' = recorded_supply a db + (if a = i then current_supply d else 0)"
    "supplies db' = (supplies db)(dyn \<mapsto> current_supply d)" "i = next_id (assets db)" "idx_find (assets db') = (idx_find (assets db))(i \<mapsto> ao)"
proof -
  have b: "books db" using g by (simp add: good_def)
  have w: "wf_index (dynamic_data db)" "wf_index (assets db)" using b by (simp_all add: books_def)
  note f1 = create_fresh [OF w(1) 1] and f2 = create_fresh [OF w(2) 2]
  show "i = next_id (assets db)" "idx_find (assets db') = (idx_find (assets db))(i \<mapsto> ao)" "supplies db' = (supplies db)(dyn \<mapsto> current_supply d)"
    using f1(3) f2(1,3) by (simp_all add: d' supplies_def fun_eq_iff)
  have nin: "dyn \<notin> (\<lambda>r. dynamic_asset_data_id (snd r)) ` set (rows (assets db))" using pr f1(2) by (auto simp: data_present_def list_all_iff)
  have other: "dynamic_asset_data_id x \<noteq> dyn" if "idx_find (assets db) a = Some x" for a x
    using nin that by (force simp: idx_find_def dest: map_of_SomeD)
  have dist: "distinct (map (\<lambda>r. dynamic_asset_data_id (snd r)) (rows u))"
    using ins_row_dyn [of "rows (assets db)" ao] b nin ao(1) 2 by (auto simp: books_def idx_create_def Let_def res_simps)
  have "books db'" using b f1(5) f2(5) dist by (simp add: d' books_def solvent_def)
  moreover have "market_inv U db'" using g ao(2,3) f2 by (auto simp: good_def market_inv_def d')
  ultimately show "good U db'" by (simp add: good_def)
  show "data_present db'" using pr f1(3) f2(4) ao(1) by (auto simp: data_present_def list_all_iff d')
  have pool: "pool_of a db' = pool_of a db"
    using f1(3) f2(2,3) other ao(1) p by (cases "a = i") (auto simp: d' pool_of_def pool_in_def split: option.splits)
  show "recorded_supply a db' = recorded_supply a db + (if a = i then current_supply d else 0)"
  proof (cases "a = i")
    case True
    with f1(3) f2(2,3) ao(1) show ?thesis by (simp add: d' recorded_supply_def recorded_in_def supplies_def)
  next
    case False
    with f1(3) f2(3) other show ?thesis by (cases "idx_find (assets db) a") (simp_all add: d' recorded_supply_def recorded_in_def supplies_def)
  qed
  show "holdings a db' = holdings a db + (if a = 0 then core_pool d else 0)"
    using idx_total_create(1) [OF w(1) 1, where w = core_pool] pool by (simp add: holdings_def d' balance_supply_def)
qed

lemma create_apply_unbacked:
  assumes g: "good U db" and pr: "data_present db" and c: "asset_create_do_apply op () fs db = Inr db'"
    and rate: "0 \<in> {asset_id (base (opt_exchange_rate (ac_options op))), asset_id (quote (opt_exchange_rate (ac_options op)))}"
    and mon: "ac_monitored op \<noteq> None \<longrightarrow> next_id (assets db) \<notin> U"
  shows "good U db' \<and> (\<forall>a. unbacked a db' = unbacked a db + (if a = 0 then core_fee_paid fs else 0))"
proof -
  let ?d = "\<lparr>current_supply = 0, asset_pool = 0, core_pool = core_fee_paid fs\<rparr>"
  from c obtain dyn t u i ao where 1: "idx_create no_clash (dynamic_data db) (\<lambda>_. ?d) = Inr (dyn, t)"
    and 2: "idx_create asset_clash (assets db) (\<lambda>_. ao) = Inr (i, u)" and d': "db' = db\<lparr>dynamic_data := t, assets := u\<rparr>"
    and ao: "dynamic_asset_data_id ao = dyn" "monitored_asset_opts ao = ac_monitored op"
      "opt_exchange_rate (asset_opts ao) = paired_rate (next_id (assets db)) (opt_exchange_rate (ac_options op))"
    by (fastforce simp: asset_create_do_apply_def create_dynamic_data_def create_asset_def Let_def res_simps)
  have i: "i = next_id (assets db)" using create_fresh [OF _ 2] g by (simp add: good_def books_def)
  have "rate_ok i ao" using rate i by (auto simp: rate_ok_def ao(3) paired_rate_def)
  moreover have "is_monitored_asset ao \<longrightarrow> i \<notin> U" using mon by (simp add: is_monitored_asset_def ao(2) i)
  ultimately show ?thesis using new_asset_books [OF g pr 1 2 d' ao(1)] by (auto simp: unbacked_def)
qed

lemma scale_amount_nonneg: "scale_amount x n d i = Inr y \<Longrightarrow> 0 \<le> amount y"
proof -
  assume "scale_amount x n d i = Inr y"
  then have d: "0 < d" and r: "u128 (u128 x * u128 n) div d \<le> GRAPHENE_MAX_SHARE_SUPPLY" and y: "y = mk_asset (to_int64 (u128 (u128 x * u128 n) div d)) i"
    by (auto simp: scale_amount_def Let_def res_simps)
  have "0 \<le> u128 (u128 x * u128 n) div d" using d by (simp add: pos_imp_zdiv_nonneg_iff)
  with max_supply_range [OF this r] show ?thesis by (simp add: y mk_asset_def to_int64_id)
qed

lemma prepare_fee_nonneg: "prepare_fee x fee db = Inr fs \<Longrightarrow> 0 \<le> core_fee_paid fs"
  by (auto simp: prepare_fee_def asset_times_price_def res_simps split: if_splits dest: scale_amount_nonneg)

text \<open>
  C39: Creating an asset creates money. Half of the fee, rounded up, goes both to the pool of the new asset and to the
  collected fees, so an odd fee in the core asset adds one unit to what is held; and when the fee is paid in another
  asset, only that half leaves the pool that pays it, so half of the fee appears from nowhere.
\<close>

theorem asset_creation_mints:
  assumes S: "safe_exact S" and g: "good U db" and pr: "data_present db" and r: "run_asset S required (Asset_create op) db = Inr db'"
    and rate: "0 \<in> {asset_id (base (opt_exchange_rate (ac_options op))), asset_id (quote (opt_exchange_rate (ac_options op)))}"
    and mon: "ac_monitored op \<noteq> None \<longrightarrow> next_id (assets db) \<notin> U"
  shows "\<exists>fs. prepare_fee (asset_create_fee_payer op) (ac_fee op) db = Inr fs \<and> good U db' \<and>
    (\<forall>a. unbacked a db' = unbacked a db + (if a \<noteq> 0 then 0 else if asset_id (ac_fee op) = 0 then core_fee_paid fs mod 2
       else core_fee_paid fs - core_fee_paid fs div 2))"
proof -
  have fs: "core_fee_paid fs' = core_fee_paid fs - trunc_div (core_fee_paid fs) 2 \<and> fee_from_account fs' = fee_from_account fs"
    if "asset_check S (Asset_create op) fs db = Inr (e, fs')" for fs e fs'
    using that by (auto simp: asset_create_do_evaluate_def Let_def res_simps dest!: safe_exactD [OF S])
  have "\<exists>fs e fs'. prepare_fee (asset_payer (Asset_create op)) (asset_fee (Asset_create op)) db = Inr fs \<and>
    asset_check S (Asset_create op) fs db = Inr (e, fs') \<and> good U db' \<and>
    (\<forall>a. unbacked a db' = unbacked a db + (if a = 0 then core_fee_paid fs' +
       (if asset_id (asset_fee (Asset_create op)) = 0 then core_fee_paid fs' - amount (asset_fee (Asset_create op)) else 0) else 0))"
  proof (rule start_evaluate_unbacked [OF S g r [unfolded run_asset_def], where n = "\<lambda>fs fs'. core_fee_paid fs'"])
    fix fs e fs' db2 db3
    assume p: "prepare_fee (asset_payer (Asset_create op)) (asset_fee (Asset_create op)) db = Inr fs"
      and c: "asset_check S (Asset_create op) fs db = Inr (e, fs')" and h: "good U db2" "assets db2 = assets db" "supplies db2 = supplies db"
      and d: "asset_change S (Asset_create op) e fs' db2 = Inr db3"
    have "data_present db2" using pr data_present_frame h(2,3) by blast
    from create_apply_unbacked [OF h(1) this d [simplified] rate] mon h(2) fs [OF c] prepare_fee_Inr [OF p]
    show "fee_from_account fs' = asset_fee (Asset_create op) \<and> good U db3 \<and> (\<forall>a. unbacked a db3 = unbacked a db2 + (if a = 0 then core_fee_paid fs' else 0))"
      by simp
  qed
  then obtain x e y where p: "prepare_fee (asset_create_fee_payer op) (ac_fee op) db = Inr x" and c: "asset_check S (Asset_create op) x db = Inr (e, y)"
    and u: "good U db'" "\<forall>a. unbacked a db' = unbacked a db + (if a = 0 then core_fee_paid y + (if asset_id (ac_fee op) = 0 then core_fee_paid y - amount (ac_fee op) else 0) else 0)"
    by auto
  have nn: "0 \<le> core_fee_paid x" using prepare_fee_nonneg [OF p] .
  then have half: "core_fee_paid y = core_fee_paid x - core_fee_paid x div 2" using fs [OF c] by simp
  have "2 * (core_fee_paid x - core_fee_paid x div 2) - core_fee_paid x = core_fee_paid x mod 2" by (simp add: minus_mult_div_eq_mod [symmetric])
  with half u prepare_fee_Inr [OF p] p show ?thesis by auto
qed

section \<open>The maximal supply\<close>

text \<open>Asset \<open>i\<close> has a fixed maximal supply \<open>m\<close> and has not exceeded it.\<close>

definition capped :: "nat \<Rightarrow> int \<Rightarrow> database \<Rightarrow> bool" where
  "capped i m db \<longleftrightarrow> (\<exists>ao. idx_find (assets db) i = Some ao \<and> is_fixed_max_supply ao \<and> max_supply (asset_opts ao) = m) \<and> recorded_supply i db \<le> m"

lemma capped_frame: "assets db' = assets db \<Longrightarrow> supplies db' = supplies db \<Longrightarrow> capped i m db' = capped i m db"
  using recorded_supply_frame [of db' db i] by (simp add: capped_def)

lemma capped_supply:
  assumes b: "books db" and c: "capped i m db" and ao: "idx_find (assets db) j = Some ao"
    and md: "modify_dynamic_data (dynamic_asset_data_id ao) f db = Inr db'"
    and f: "\<And>d d'. f d = Inr d' \<Longrightarrow> asset_pool d' = asset_pool d + da \<and> core_pool d' = core_pool d + dc \<and> current_supply d' = current_supply d + ds"
    and le: "i = j \<Longrightarrow> recorded_supply i db + ds \<le> m"
  shows "capped i m db'"
proof -
  have "recorded_supply i db' = recorded_supply i db + (if i = j then ds else 0)" by (rule modify_dynamic_data_books(3) [OF b ao md f])
  moreover have "assets db' = assets db" using md by (auto simp: modify_dynamic_data_def res_simps)
  ultimately show ?thesis using c le by (simp add: capped_def split: if_splits)
qed

lemma capped_modify_asset:
  assumes c: "capped i m db" and md: "modify_asset j f db = Inr db'"
    and f: "\<And>a a'. j = i \<Longrightarrow> idx_find (assets db) i = Some a \<Longrightarrow> is_fixed_max_supply a \<Longrightarrow> f a = Inr a' \<Longrightarrow>
      is_fixed_max_supply a' \<and> max_supply (asset_opts a') = max_supply (asset_opts a) \<and> dynamic_asset_data_id a' = dynamic_asset_data_id a"
  shows "capped i m db'"
proof -
  from md obtain t where t: "idx_update asset_clash (assets db) j f = Inr t" "db' = db\<lparr>assets := t\<rparr>"
    by (auto simp: modify_asset_def res_simps)
  then obtain a a' where a: "idx_find (assets db) j = Some a" "f a = Inr a'" "idx_find t = (idx_find (assets db))(j \<mapsto> a')"
    using idx_update_Inr(1) [OF t(1)] by blast
  from c obtain ao where ao: "idx_find (assets db) i = Some ao" "is_fixed_max_supply ao" "max_supply (asset_opts ao) = m" "recorded_supply i db \<le> m"
    by (auto simp: capped_def)
  show ?thesis
  proof (cases "j = i")
    case True
    with ao a f [OF True ao(1,2)] t(2) show ?thesis by (simp add: capped_def recorded_supply_def recorded_in_def supplies_def)
  next
    case False
    with ao a(3) t(2) show ?thesis by (simp add: capped_def recorded_supply_def recorded_in_def supplies_def)
  qed
qed

lemma capped_adjust:
  assumes "safe_exact S" "books db" "capped i m db" "adjust_balance S x d db = Inr db'"
  shows "capped i m db' \<and> books db' \<and> assets db' = assets db \<and> (\<forall>a. recorded_supply a db' = recorded_supply a db)"
proof -
  obtain t where t: "db' = db\<lparr>balances := t\<rparr>" using adjust_balance_unbacked(3) [OF assms(1,2,4)] by blast
  then have e: "assets db' = assets db" "supplies db' = supplies db" by (simp_all add: supplies_def fun_eq_iff)
  with adjust_balance_unbacked(1) [OF assms(1,2,4)] capped_frame [OF e] recorded_supply_frame [OF e] assms(3) show ?thesis by simp
qed

lemma asset_pool_change_capped:
  assumes S: "safe_exact S" and b: "books db" and c: "capped i m db" and ao: "idx_find (assets db) j = Some ao"
    and p: "f = add_asset_pool S x \<or> f = add_core_pool S x" and md: "modify_dynamic_data (dynamic_asset_data_id ao) f db = Inr db'"
  shows "capped i m db' \<and> books db' \<and> assets db' = assets db"
proof -
  have le: "recorded_supply i db + 0 \<le> m" using c by (simp add: capped_def)
  have "capped i m db' \<and> books db'" using p
  proof
    assume f: "f = add_asset_pool S x"
    from capped_supply [OF b c ao md [unfolded f] pool_updates_exact(1) [OF S] le] modify_dynamic_data_books(1) [OF b ao md [unfolded f] pool_updates_exact(1) [OF S]]
    show ?thesis by simp
  next
    assume f: "f = add_core_pool S x"
    from capped_supply [OF b c ao md [unfolded f] pool_updates_exact(2) [OF S] le] modify_dynamic_data_books(1) [OF b ao md [unfolded f] pool_updates_exact(2) [OF S]]
    show ?thesis by simp
  qed
  then show ?thesis using md by (auto simp: modify_dynamic_data_def res_simps)
qed

lemma pool_half_capped:
  assumes S: "safe_exact S" and b: "books db" and c: "capped i m db" and ao: "idx_find (assets db) j = Some ao"
    and p: "f = add_asset_pool S x \<or> f = add_core_pool S x"
    and r: "rbind (adjust_balance S y d db) (modify_dynamic_data (dynamic_asset_data_id ao) f) = Inr db'"
  shows "capped i m db' \<and> books db' \<and> assets db' = assets db"
proof -
  from r obtain s where s: "adjust_balance S y d db = Inr s" "modify_dynamic_data (dynamic_asset_data_id ao) f s = Inr db'" by (auto simp: res_simps)
  have k: "books s" "capped i m s" "idx_find (assets s) j = Some ao" "assets s = assets db" using capped_adjust [OF S b c s(1)] ao by simp_all
  from asset_pool_change_capped [OF S k(1-3) p s(2)] k(4) show ?thesis by simp
qed

lemma fund_claim_capped:
  assumes S: "safe_exact S" and b: "books db" and c: "capped i m db"
  shows "fund_pools_do_apply S op db = Inr db' \<Longrightarrow> capped i m db'" "claim_fees_do_apply S op' db = Inr db' \<Longrightarrow> capped i m db'"
proof -
  assume "fund_pools_do_apply S op db = Inr db'"
  then obtain ao db1 where ao: "idx_find (assets db) (asset_id (fp_uia op)) = Some ao"
    and 1: "(if amount (fp_uia op) > 0 then rbind (asset_neg S (fp_uia op)) (\<lambda>n. rbind (adjust_balance S (fp_from op) n db)
       (modify_dynamic_data (dynamic_asset_data_id ao) (add_asset_pool S (amount (fp_uia op))))) else Inr db) = Inr db1"
    and 2: "(if amount (fp_dct op) > 0 then rbind (asset_neg S (fp_dct op)) (\<lambda>n. rbind (adjust_balance S (fp_from op) n db1)
       (modify_dynamic_data (dynamic_asset_data_id ao) (add_core_pool S (amount (fp_dct op))))) else Inr db1) = Inr db'"
    by (auto simp: fund_pools_do_apply_def idx_get_def res_simps)
  have "capped i m db1 \<and> books db1 \<and> assets db1 = assets db"
    using 1 b c pool_half_capped [OF S b c ao disjI1 [OF refl]] by (auto simp: rbind_eq_Inr [where m = "asset_neg a b" for a b] split: if_splits)
  with 2 ao show "capped i m db'" using pool_half_capped [OF S _ _ _ disjI2 [OF refl], of db1 i m "asset_id (fp_uia op)" ao]
    by (auto simp: rbind_eq_Inr [where m = "asset_neg a b" for a b] split: if_splits)
next
  assume "claim_fees_do_apply S op' db = Inr db'"
  then obtain ao db1 where ao: "idx_find (assets db) (asset_id (cf_uia op')) = Some ao"
    and 1: "(if amount (cf_uia op') > 0 then rbind (adjust_balance S (cf_issuer op') (cf_uia op') db)
       (modify_dynamic_data (dynamic_asset_data_id ao) (add_asset_pool S (- amount (cf_uia op')))) else Inr db) = Inr db1"
    and 2: "(if amount (cf_dct op') > 0 then rbind (adjust_balance S (cf_issuer op') (cf_dct op') db1)
       (modify_dynamic_data (dynamic_asset_data_id ao) (add_core_pool S (- amount (cf_dct op')))) else Inr db1) = Inr db'"
    by (auto simp: claim_fees_do_apply_def idx_get_def res_simps)
  have "capped i m db1 \<and> books db1 \<and> assets db1 = assets db"
    using 1 b c pool_half_capped [OF S b c ao disjI1 [OF refl]] by (auto split: if_splits)
  with 2 ao show "capped i m db'" using pool_half_capped [OF S _ _ _ disjI2 [OF refl], of db1 i m "asset_id (cf_uia op')" ao]
    by (auto split: if_splits)
qed

lemma recorded_supply_of:
  "idx_find (assets db) i = Some ao \<Longrightarrow> idx_find (dynamic_data db) (dynamic_asset_data_id ao) = Some d \<Longrightarrow> recorded_supply i db = current_supply d"
  by (simp add: recorded_supply_def recorded_in_def supplies_def)

lemma asset_change_capped:
  assumes S: "safe_exact S" and b: "books db" and cp: "capped i m db" and v: "asset_validate op = Inr ()"
    and c: "asset_check S op fs db0 = Inr (e, fs')" and d: "assets db = assets db0" "supplies db = supplies db0"
    and ch: "asset_change S op e fs' db = Inr db'"
  shows "capped i m db'"
proof (cases op)
  case (Asset_create x)
  with ch obtain dd dyn t ao k u where 1: "idx_create no_clash (dynamic_data db) (\<lambda>_. dd) = Inr (dyn, t)" "current_supply dd = 0"
    and 2: "idx_create asset_clash (assets db) (\<lambda>_. ao) = Inr (k, u)" and d': "db' = db\<lparr>dynamic_data := t, assets := u\<rparr>"
    by (fastforce simp: asset_create_do_apply_def create_dynamic_data_def create_asset_def Let_def res_simps)
  have w: "wf_index (dynamic_data db)" "wf_index (assets db)" using b by (simp_all add: books_def)
  note f1 = create_fresh [OF w(1) 1(1)] and f2 = create_fresh [OF w(2) 2]
  from cp obtain a where a: "idx_find (assets db) i = Some a" by (auto simp: capped_def)
  then have "i \<noteq> k" using f2(2) by auto
  moreover have "recorded_supply i db' = recorded_supply i db"
  proof (cases "dynamic_asset_data_id a = dyn")
    case True
    with a f1 f2 1(2) \<open>i \<noteq> k\<close> show ?thesis by (simp add: d' recorded_supply_def recorded_in_def supplies_def)
  next
    case False
    with a f1 f2 \<open>i \<noteq> k\<close> show ?thesis by (simp add: d' recorded_supply_def recorded_in_def supplies_def)
  qed
  ultimately show ?thesis using cp f2(3) by (simp add: capped_def d')
next
  case (Asset_issue x)
  with ch obtain ao db1 where ao: "idx_find (assets db) (asset_id (asset_to_issue x)) = Some ao"
    and a: "adjust_balance S (issue_to_account x) (asset_to_issue x) db = Inr db1"
    and md: "modify_dynamic_data (dynamic_asset_data_id ao) (add_supply S (amount (asset_to_issue x))) db1 = Inr db'"
    by (auto simp: asset_issue_do_apply_def idx_get_def res_simps)
  note k = capped_adjust [OF S b cp a]
  from c Asset_issue ao d obtain dd where dd: "idx_find (dynamic_data db0) (dynamic_asset_data_id ao) = Some dd"
    and le: "current_supply dd + amount (asset_to_issue x) \<le> max_supply (asset_opts ao)"
    by (auto simp: checked_def asset_issue_do_evaluate_def idx_get_def res_simps dest!: safe_exactD [OF S])
  have "recorded_supply (asset_id (asset_to_issue x)) db = current_supply dd"
    using recorded_supply_frame [OF d] recorded_supply_of [OF _ dd] ao d by simp
  with le k cp ao have "i = asset_id (asset_to_issue x) \<Longrightarrow> recorded_supply i db1 + amount (asset_to_issue x) \<le> m" by (auto simp: capped_def)
  from capped_supply [OF _ _ _ md pool_updates_exact(3) [OF S] this] k ao show ?thesis by simp
next
  case (Asset_reserve x)
  with ch obtain ao n db1 where ao: "idx_find (assets db) (asset_id (amount_to_reserve x)) = Some ao"
    and a: "adjust_balance S (ar_payer x) n db = Inr db1"
    and md: "modify_dynamic_data (dynamic_asset_data_id ao) (add_supply S (- amount (amount_to_reserve x))) db1 = Inr db'"
    by (auto simp: asset_reserve_do_apply_def idx_get_def res_simps)
  note k = capped_adjust [OF S b cp a]
  have "0 < amount (amount_to_reserve x)" using v Asset_reserve by (auto simp: asset_reserve_validate_def res_simps)
  moreover have "recorded_supply i db1 \<le> m" using k cp by (simp add: capped_def)
  ultimately have "recorded_supply i db1 + - amount (amount_to_reserve x) \<le> m" by linarith
  from capped_supply [OF _ _ _ md pool_updates_exact(3) [OF S] this] k ao show ?thesis by simp
next
  case (Publish_feed x)
  with ch have md: "modify_asset (pf_asset x) (publish_feed x (head_block_time db)) db = Inr db'" by (simp add: publish_feed_do_apply_def)
  show ?thesis by (rule capped_modify_asset [OF cp md]) (auto simp: publish_feed_def res_simps is_fixed_max_supply_def)
next
  case (Update_monitored x)
  with ch have md: "modify_asset (um_asset x) (update_monitored x) db = Inr db'" by (simp add: update_monitored_do_apply_def)
  show ?thesis by (rule capped_modify_asset [OF cp md]) (auto simp: update_monitored_def res_simps is_fixed_max_supply_def)
next
  case (Update_uia x)
  with ch have md: "modify_asset (uu_asset x) (\<lambda>a. Inr (update_uia x a)) db = Inr db'" by (simp add: update_uia_do_apply_def)
  from c Update_uia d(1) have "\<forall>a. idx_find (assets db) (uu_asset x) = Some a \<longrightarrow> is_fixed_max_supply a \<longrightarrow> to_int64 (uu_max_supply x) = max_supply (asset_opts a)"
    by (auto simp: checked_def update_uia_do_evaluate_def idx_get_def res_simps)
  then show ?thesis by (intro capped_modify_asset [OF cp md]) (auto simp: update_uia_def is_fixed_max_supply_def)
next
  case (Update_advanced x)
  with ch have md: "modify_asset (ua_asset x) (\<lambda>a. Inr (update_advanced x e a)) db = Inr db'" by (simp add: update_advanced_do_apply_def)
  from c Update_advanced d(1) have "\<forall>a. idx_find (assets db) (ua_asset x) = Some a \<longrightarrow> snd e = (fixed_max_supply_ext (asset_opts a) \<noteq> None)"
    by (auto simp: update_advanced_do_evaluate_def idx_get_def Let_def res_simps)
  then show ?thesis by (intro capped_modify_asset [OF cp md]) (auto simp: update_advanced_def is_fixed_max_supply_def)
qed (use ch fund_claim_capped [OF S b cp] in auto)

text \<open>
  C20: A maximal supply declared fixed is final. Whatever operations on assets follow, the asset stays fixed at the
  same maximum, and its supply never exceeds it.
\<close>

theorem fixed_supply_is_final:
  assumes S: "safe_exact S" and g: "good U db" and v: "asset_validate op = Inr ()" and c: "capped i m db" and r: "run_asset S required op db = Inr db'"
  shows "capped i m db'"
proof -
  from r obtain fs e fs' db1 db2 db3 n where k: "asset_check S op fs db = Inr (e, fs')" and cf: "convert_fee S False fs' db = Inr db1"
    and pf: "pay_fee S False fs' db1 = Inr db2" and d: "asset_change S op e fs' db2 = Inr db3" and a: "adjust_balance S (asset_payer op) n db3 = Inr db'"
    by (auto simp: run_asset_def start_evaluate_def res_simps split: if_splits option.splits)
  note f = fee_steps [OF S g cf pf]
  have b2: "books db2" using f(1) by (simp add: good_def)
  have c2: "capped i m db2" using capped_frame [OF f(2,3)] c by simp
  have c3: "capped i m db3" by (rule asset_change_capped [OF S b2 c2 v k f(2,3) d])
  obtain t where "db' = db3\<lparr>balances := t\<rparr>" using a by (auto simp: adjust_balance_def create_balance_def modify_balance_def res_simps split: if_splits option.splits intro: that [of "balances db3"])
  then show ?thesis using capped_frame [of db' db3] c3 by (simp add: supplies_def fun_eq_iff)
qed

section \<open>A chain with a user-issued asset\<close>

definition uia_asset_example :: asset_object where
  "uia_asset_example = \<lparr>symbol = ''UIA'', precision = 2, issuer = 4, description = [], monitored_asset_opts = None,
     asset_opts = \<lparr>max_supply = 1000, opt_exchange_rate = \<lparr>base = mk_asset 2 1, quote = mk_asset 3 0\<rparr>,
       is_exchangeable = True, fixed_max_supply_ext = Some True\<rparr>, dynamic_asset_data_id = 1\<rparr>"

definition asset_chain_example :: database where
  "asset_chain_example = chain_example\<lparr>
     balances := \<lparr>next_id = 2, rows = [(0, \<lparr>bal_owner = 4, asset_type = 0, bal_amount = 40\<rparr>), (1, \<lparr>bal_owner = 4, asset_type = 1, bal_amount = 460\<rparr>)]\<rparr>,
     assets := \<lparr>next_id = 2, rows = [(0, core_asset_example), (1, uia_asset_example)]\<rparr>,
     dynamic_data := \<lparr>next_id = 2, rows = [(0, \<lparr>current_supply = 100, asset_pool = 0, core_pool = 0\<rparr>),
       (1, \<lparr>current_supply = 500, asset_pool = 40, core_pool = 60\<rparr>)]\<rparr>\<rparr>"

lemma asset_chain_example_ok: "good {0} asset_chain_example" "data_present asset_chain_example" "capped 1 1000 asset_chain_example"
proof -
  have a: "idx_find (assets asset_chain_example) i = (if i = 0 then Some core_asset_example else if i = 1 then Some uia_asset_example else None)" for i
    by (simp add: asset_chain_example_def idx_find_def)
  have c: "idx_find (contents asset_chain_example) i = None" "idx_find (buyings asset_chain_example) i = None" for i
    by (simp_all add: asset_chain_example_def chain_example_def empty_db_def empty_index_def idx_find_def)
  have "books asset_chain_example"
    by (simp add: books_def solvent_def wf_index_def asset_chain_example_def chain_example_def empty_db_def empty_index_def balance_key_def
        core_asset_example_def uia_asset_example_def)
  then show "good {0} asset_chain_example"
    by (auto simp: good_def market_inv_def a c rate_ok_def uia_asset_example_def core_asset_example_def is_monitored_asset_def mk_asset_def split: if_splits)
  show "data_present asset_chain_example" by code_simp
  have "recorded_supply 1 asset_chain_example = 500" by code_simp
  then show "capped 1 1000 asset_chain_example" by (simp add: capped_def a uia_asset_example_def is_fixed_max_supply_def)
qed

definition issue_example :: asset_operation where
  "issue_example = Asset_issue \<lparr>ai_fee = mk_asset 4 1, ai_issuer = 4, asset_to_issue = mk_asset 500 1, issue_to_account = 5\<rparr>"

theorem asset_operations_accounted_witness:
  "\<exists>db'. run_asset safe_int64 None issue_example asset_chain_example = Inr db' \<and> good {0} db' \<and> unbacked 1 db' = unbacked 1 asset_chain_example"
proof -
  have "succeeds (run_asset safe_int64 None issue_example asset_chain_example)" by code_simp
  then obtain db' where r: "run_asset safe_int64 None issue_example asset_chain_example = Inr db'" unfolding succeeds_iff ..
  have v: "asset_validate issue_example = Inr ()" by code_simp
  have "\<forall>o'. issue_example \<noteq> Asset_create o'" by (simp add: issue_example_def)
  from asset_operations_accounted [OF safe_int64_exact asset_chain_example_ok(1) v this r] r show ?thesis by simp
qed

theorem fixed_supply_is_final_witness:
  "\<exists>db'. run_asset safe_int64 None issue_example asset_chain_example = Inr db' \<and> capped 1 1000 db'"
proof -
  have "succeeds (run_asset safe_int64 None issue_example asset_chain_example)" by code_simp
  then obtain db' where r: "run_asset safe_int64 None issue_example asset_chain_example = Inr db'" unfolding succeeds_iff ..
  have v: "asset_validate issue_example = Inr ()" by code_simp
  from fixed_supply_is_final [OF safe_int64_exact asset_chain_example_ok(1) v asset_chain_example_ok(3) r] r show ?thesis by simp
qed

definition creation_example :: asset_create_operation where
  "creation_example = \<lparr>ac_fee = mk_asset 5 0, ac_issuer = 4, ac_symbol = ''NEW'', ac_precision = 0, ac_description = [],
     ac_options = \<lparr>max_supply = 10, opt_exchange_rate = \<lparr>base = mk_asset 1 0, quote = mk_asset 1 1\<rparr>, is_exchangeable = True, fixed_max_supply_ext = None\<rparr>,
     ac_monitored = None\<rparr>"

theorem asset_creation_mints_witness:
  "\<exists>db'. run_asset safe_int64 None (Asset_create creation_example) asset_chain_example = Inr db' \<and> unbacked 0 db' = unbacked 0 asset_chain_example + 1"
proof -
  have "succeeds (run_asset safe_int64 None (Asset_create creation_example) asset_chain_example)" by code_simp
  then obtain db' where r: "run_asset safe_int64 None (Asset_create creation_example) asset_chain_example = Inr db'" unfolding succeeds_iff ..
  have z: "0 \<in> {asset_id (base (opt_exchange_rate (ac_options creation_example))), asset_id (quote (opt_exchange_rate (ac_options creation_example)))}"
    and m: "ac_monitored creation_example \<noteq> None \<longrightarrow> next_id (assets asset_chain_example) \<notin> {0}"
    by (simp_all add: creation_example_def mk_asset_def)
  from asset_creation_mints [OF safe_int64_exact asset_chain_example_ok(1,2) r z m] obtain fs
    where p: "prepare_fee (asset_create_fee_payer creation_example) (ac_fee creation_example) asset_chain_example = Inr fs"
    and u: "\<forall>a. unbacked a db' = unbacked a asset_chain_example + (if a \<noteq> 0 then 0 else if asset_id (ac_fee creation_example) = 0 then core_fee_paid fs mod 2
       else core_fee_paid fs - core_fee_paid fs div 2)" by blast
  have "asset_id (ac_fee creation_example) = 0" "amount (ac_fee creation_example) = 5" by (simp_all add: creation_example_def mk_asset_def)
  with prepare_fee_Inr [OF p] u [rule_format, of 0] r show ?thesis by simp
qed

text \<open>
  Claiming the fees of an asset can leave its pool in debt. The check compares the claim with the pool before the
  fee of the claim itself is paid out of the same pool.
\<close>

theorem claim_overdraws_pool:
  "\<exists>db' d. run_asset safe_int64 None (Claim_fees \<lparr>cf_fee = mk_asset 4 1, cf_issuer = 4, cf_uia = mk_asset 0 1, cf_dct = mk_asset 60 0\<rparr>) asset_chain_example = Inr db' \<and>
     idx_find (dynamic_data db') 1 = Some d \<and> core_pool d = - 6"
proof -
  let ?r = "run_asset safe_int64 None (Claim_fees \<lparr>cf_fee = mk_asset 4 1, cf_issuer = 4, cf_uia = mk_asset 0 1, cf_dct = mk_asset 60 0\<rparr>) asset_chain_example"
  have "(case ?r of Inl _ \<Rightarrow> None | Inr db \<Rightarrow> map_option core_pool (idx_find (dynamic_data db) 1)) = Some (- 6)" by code_simp
  then show ?thesis by (cases ?r) auto
qed

end
