(* ===== verification/Operation_Books.thy ===== *)
theory Operation_Books
  imports Operations Asset_Books
begin

text \<open>
  The books under every operation. \<open>keeps\<close> relates two states with well-kept books that hold of every asset
  equally much beyond its recorded supply. Apart from the creation of an asset, which mints, and from
  custom operations, whose effect is up to the interpreters, every operation keeps the books.
\<close>

section \<open>Steps that keep the books\<close>

definition keeps :: "nat set \<Rightarrow> database \<Rightarrow> database \<Rightarrow> bool" where
  "keeps U db db' \<longleftrightarrow> good U db' \<and> (\<forall>a. unbacked a db' = unbacked a db)"

lemma keeps_refl: "good U db \<Longrightarrow> keeps U db db"
  by (simp add: keeps_def)

lemma keeps_trans: "keeps U a b \<Longrightarrow> keeps U b c \<Longrightarrow> keeps U a c"
  by (simp add: keeps_def)

lemma keepsI:
  assumes "good U db'" "\<forall>a. holdings a db' = holdings a db" "assets db' = assets db" "supplies db' = supplies db"
  shows "keeps U db db'"
  using assms recorded_supply_frame [OF assms(3,4)] by (simp add: keeps_def unbacked_def)

lemma money_keeps:
  assumes "good U db" "money db' = money db"
  shows "keeps U db db'"
proof (rule keepsI)
  show "assets db' = assets db" "supplies db' = supplies db" using money_cong [OF assms(2)] by (auto simp: supplies_def)
qed (use money_good [OF assms] in simp_all)

lemma move_keeps:
  assumes S: "safe_exact S" and g: "good U db" and n: "asset_neg S x = Inr n"
    and a: "adjust_balance S y n db = Inr db1" "adjust_balance S z x db1 = Inr db2"
  shows "keeps U db db2"
proof (rule keepsI)
  note h1 = adjust_balance_good [OF S g a(1)]
  note h2 = adjust_balance_good [OF S h1(1) a(2)]
  show "good U db2" "\<forall>a. holdings a db2 = holdings a db" using h1(2) h2(1,2) asset_neg_held [OF S n] by simp_all
  show "assets db2 = assets db" "supplies db2 = supplies db"
    using h1(5) h2(5) recorded.adjust [OF a(1)] recorded.adjust [OF a(2)] by simp_all
qed

lemma move_reversed_keeps:
  assumes S: "safe_exact S" and g: "good U db" and n: "asset_neg S x = Inr n"
    and a: "adjust_balance S z x db = Inr db1" "adjust_balance S y n db1 = Inr db2"
  shows "keeps U db db2"
proof (rule keepsI)
  note h1 = adjust_balance_good [OF S g a(1)]
  note h2 = adjust_balance_good [OF S h1(1) a(2)]
  show "good U db2" "\<forall>a. holdings a db2 = holdings a db" using h1(2) h2(1,2) asset_neg_held [OF S n] by simp_all
  show "assets db2 = assets db" "supplies db2 = supplies db"
    using h1(5) h2(5) recorded.adjust [OF a(1)] recorded.adjust [OF a(2)] by simp_all
qed

section \<open>The evaluators\<close>

lemma then_money: "keeps U db db1 \<Longrightarrow> money db' = money db1 \<Longrightarrow> keeps U db db'"
  using money_keeps keeps_trans by (metis keeps_def)

lemma money_then: "good U db \<Longrightarrow> money db1 = money db \<Longrightarrow> (good U db1 \<Longrightarrow> keeps U db1 db') \<Longrightarrow> keeps U db db'"
  using money_keeps keeps_trans by (metis keeps_def)

lemma transfer_keeps:
  assumes S: "safe_exact S" and g: "good U db" and t: "transfer_do_apply S op db = Inr db'"
  shows "keeps U db db'"
proof -
  from t obtain n db1 db2 d where n: "asset_neg S (tr_amount op) = Inr n"
    and a: "adjust_balance S (tr_from op) n db = Inr db1" "adjust_balance S (tr_to op) (tr_amount op) db1 = Inr db2"
    and c: "create_detail d db2 = Inr db'"
    by (auto simp: transfer_do_apply_def res_simps)
  from then_money [OF move_keeps [OF S g n a] create_detail_money [OF c]] show ?thesis .
qed

lemma transfer2_to_content_payout:
  assumes "transfer2_to_content S amt c db = Inr db'"
  shows "content_payout S amt c db = Inr db'"
proof (cases "co_authors c = []")
  case True
  have "mk_asset (amount amt) (asset_id amt) = amt" by (simp add: mk_asset_def)
  with True assms show ?thesis
    by (auto simp: transfer2_to_content_def content_payout_def adjust_balance_def res_simps split: if_splits)
next
  case False
  with assms show ?thesis by (simp add: transfer2_to_content_def content_payout_def)
qed

lemma transfer2_keeps:
  assumes S: "safe_exact S" and g: "good U db" and t: "transfer2_do_apply S op db = Inr db'"
  shows "keeps U db db'"
proof -
  from t obtain n db1 x y db2 d where n: "asset_neg S (tr2_amount op) = Inr n" and a: "adjust_balance S (tr2_from op) n db = Inr db1"
    and b: "(case tr2_to op of
              To_account x \<Rightarrow> rbind (adjust_balance S x (tr2_amount op) db1) (\<lambda>db2. Inr (x, [], db2))
            | To_content i \<Rightarrow>
                rbind (deref (idx_find (contents db1) i)) (\<lambda>c.
                rbind (transfer2_to_content S (tr2_amount op) c db1) (\<lambda>db2.
                  Inr (author c, '' to content 2.13.'' @ decimal (int i), db2)))
            | To_other _ _ \<Rightarrow> Inl undefined_behaviour) = Inr (x, y, db2)"
    and c: "create_detail d db2 = Inr db'"
    by (auto simp: transfer2_do_apply_def res_simps)
  note h = adjust_balance_good [OF S g a]
  have "keeps U db db2"
  proof (cases "tr2_to op")
    case (To_account z)
    with b have "adjust_balance S z (tr2_amount op) db1 = Inr db2" by (auto simp: res_simps)
    then show ?thesis by (rule move_keeps [OF S g n a])
  next
    case (To_content i)
    with b obtain co where p: "content_payout S (tr2_amount op) co db1 = Inr db2" by (auto simp: res_simps dest: transfer2_to_content_payout)
    have "assets db2 = assets db1" "supplies db2 = supplies db1"
      using consensus.payout [OF p] recorded.payout [OF p] by (simp_all add: consensus_state_def)
    with content_payout_good [OF S h(1) p] h recorded.adjust [OF a] asset_neg_held [OF S n]
    show ?thesis by (intro keepsI) simp_all
  qed (use b in simp)
  then show ?thesis by (rule then_money) (rule create_detail_money [OF c])
qed

lemma vesting_keeps:
  assumes S: "safe_exact S" and g: "good U db"
  shows "vesting_create_do_apply S cop db = Inr db' \<Longrightarrow> keeps U db db'" "vesting_withdraw_do_apply S wop db = Inr db' \<Longrightarrow> keeps U db db'"
proof -
  have b: "books db" and m: "market_inv U db" using g by (simp_all add: good_def)
  assume c: "vesting_create_do_apply S cop db = Inr db'"
  then obtain n db1 v i where a: "adjust_balance S (vbc_creator cop) n db = Inr db1" and v: "create_vesting v db1 = Inr (i, db')"
    by (auto simp: vesting_create_do_apply_def res_simps)
  from v obtain t where t: "db' = db1\<lparr>vestings := t\<rparr>" by (auto simp: create_vesting_def res_simps)
  have "\<forall>a. books db' \<and> holdings a db' = holdings a db" using vesting_apply_holdings [OF S b] c by blast
  with t adjust_balance_good [OF S g a] market_inv_frame [of db' db1 U] recorded.adjust [OF a]
  show "keeps U db db'" by (intro keepsI) (auto simp: good_def supplies_def fun_eq_iff)
next
  have b: "books db" and m: "market_inv U db" using g by (simp_all add: good_def)
  assume c: "vesting_withdraw_do_apply S wop db = Inr db'"
  then obtain db1 where v: "modify_vesting (vesting_balance_id wop) (withdraw S (head_block_time db) (vbw_amount wop)) db = Inr db1"
    and a: "adjust_balance S (vbw_owner wop) (vbw_amount wop) db1 = Inr db'"
    by (auto simp: vesting_withdraw_do_apply_def res_simps)
  have h: "\<forall>a. books db' \<and> holdings a db' = holdings a db" using vesting_apply_holdings [OF S b] c by blast
  from v obtain t where t: "db1 = db\<lparr>vestings := t\<rparr>" by (auto simp: modify_vesting_def res_simps)
  have "solvent db1" using b t by (simp add: books_def solvent_def)
  from adjust_balance_Inr(1) [OF S this a] obtain u where u: "db' = db1\<lparr>balances := u\<rparr>" ..
  from h t u m market_inv_frame [of db' db U] show "keeps U db db'" by (intro keepsI) (auto simp: good_def supplies_def fun_eq_iff)
qed

lemma permission_keeps:
  assumes S: "safe_exact S" and g: "good U db"
  shows "claim_do_apply S op db = Inr db' \<Longrightarrow> keeps U db db'" "permission_create_do_apply cop db = Inr db' \<Longrightarrow> keeps U db db'"
    "permission_update_do_apply i cop db = Inr db' \<Longrightarrow> keeps U db db'" "permission_delete_do_apply i db = Inr db' \<Longrightarrow> keeps U db db'"
proof -
  assume "claim_do_apply S op db = Inr db'"
  then obtain f db1 n db2 where m: "modify_permission (wpc_permission op) f db = Inr db1" and n: "asset_neg S (amount_to_withdraw op) = Inr n"
    and a: "adjust_balance S (wpc_from op) n db1 = Inr db2" "adjust_balance S (wpc_to op) (amount_to_withdraw op) db2 = Inr db'"
    by (auto simp: claim_do_apply_def res_simps)
  show "keeps U db db'" by (rule money_then [OF g modify_permission_money [OF m]]) (rule move_keeps [OF S _ n a])
next
  assume "permission_update_do_apply i cop db = Inr db'"
  then show "keeps U db db'"
    by (intro money_keeps [OF g]) (auto simp: permission_update_do_apply_def res_simps dest: modify_permission_money)
qed (auto intro!: money_keeps [OF g] simp: permission_create_do_apply_def permission_delete_do_apply_def res_simps money_def)

lemma start_or_extend_money: "start_or_extend x y n db = Inr db' \<Longrightarrow> money db' = money db"
  by (auto simp: start_or_extend_def res_simps split: option.splits prod.splits dest: frame)

lemma subscription_keeps:
  assumes S: "safe_exact S" and g: "good U db"
  shows "subscribe_do_apply S op db = Inr db' \<Longrightarrow> keeps U db db'" "subscribe_by_author_do_apply x y fee db = Inr db' \<Longrightarrow> keeps U db db'"
    "automatic_renewal_do_apply sid r db = Inr db' \<Longrightarrow> keeps U db db'"
proof -
  assume "subscribe_do_apply S op db = Inr db'"
  then obtain k db1 n db2 db3 d where m: "start_or_extend (sb_from op) (sb_to op) k db = Inr db1" and n: "asset_neg S (sb_price op) = Inr n"
    and a: "adjust_balance S (sb_from op) n db1 = Inr db2" "adjust_balance S (sb_to op) (sb_price op) db2 = Inr db3"
    and c: "create_detail d db3 = Inr db'"
    by (auto simp: subscribe_do_apply_def subscription_detail_def Let_def res_simps)
  show "keeps U db db'"
    by (rule money_then [OF g start_or_extend_money [OF m]]) (rule then_money [OF move_keeps [OF S _ n a] create_detail_money [OF c]])
qed (auto intro!: money_keeps [OF g] simp: subscribe_by_author_do_apply_def automatic_renewal_do_apply_def subscription_detail_def Let_def res_simps
    dest!: create_detail_money start_or_extend_money modify_subscription_money)

lemma account_money:
  "account_create_do_apply cop db = Inr db' \<Longrightarrow> money db' = money db"
  "account_update_do_apply uop db = Inr db' \<Longrightarrow> money db' = money db"
proof -
  show "account_create_do_apply cop db = Inr db' \<Longrightarrow> money db' = money db"
    by (auto simp: account_create_do_apply_def create_account_def create_account_stats_def create_detail_def Let_def res_simps money_def)
  have "money s' = money s" if "disallow_renewal sid x s = Inr s'" for sid x s s'
    using that by (auto simp: disallow_renewal_def res_simps dest!: frame)
  then have "money s' = money s" if "fold_res (\<lambda>(sid, s). disallow_renewal sid s) xs s = Inr s'" for xs s s'
    by (intro fold_res_money [OF that]) auto
  then show "account_update_do_apply uop db = Inr db' \<Longrightarrow> money db' = money db"
    by (auto simp: account_update_do_apply_def res_simps split: option.splits if_splits dest!: modify_account_money)
qed

lemma miner_money:
  "miner_create_do_apply cop db = Inr db' \<Longrightarrow> money db' = money db"
  "miner_update_do_apply uop db = Inr db' \<Longrightarrow> money db' = money db"
  "update_parameters_do_apply p db = Inr db' \<Longrightarrow> money db' = money db"
  by (auto simp: miner_create_do_apply_def create_miner_def miner_update_do_apply_def update_parameters_do_apply_def res_simps money_def
      split: prod.splits dest: modify_miner_money)

section \<open>Every operation\<close>

text \<open>
  The operations the theorem is about: no creation of assets, prices of content in \<open>U\<close>, and custom operations only if they are
  not interpreted or their interpreter changes nothing but what it keeps for itself.
\<close>

definition leaves_chain :: "interpreter \<Rightarrow> bool" where
  "leaves_chain f \<longleftrightarrow> (\<forall>op db db'. snd f op db = Inr db' \<longrightarrow> db' = db)"

fun accountable :: "op_env \<Rightarrow> nat set \<Rightarrow> operation \<Rightarrow> bool" where
  "accountable E U (Asset_op op) = (\<forall>o'. op \<noteq> Asset_create o')"
| "accountable E U (Custom op) = (case env_register E (cus_id op) of None \<Rightarrow> True | Some f \<Rightarrow> leaves_chain f)"
| "accountable E U (Content op) = prices_in U op"
| "accountable E U _ = True"

lemma custom_leaves:
  assumes "accountable E U (Custom op)" "custom_do_apply (env_register E) op db = Inr db'"
  shows "db' = db"
proof (cases "env_register E (cus_id op)")
  case (Some f)
  with assms show ?thesis by (cases f) (simp add: custom_do_apply_def leaves_chain_def)
qed (use assms in \<open>simp add: custom_do_apply_def\<close>)

lemma start_evaluate_required:
  "start_evaluate S b (Some r) x fee check change db = Inr db' \<Longrightarrow> start_evaluate S b None x fee check change db = Inr db'"
  by (auto simp: start_evaluate_def res_simps split: if_splits)

lemma evaluate_plain_keeps:
  assumes S: "safe_exact S" and g: "good U db" and f: "\<forall>x y. good U x \<longrightarrow> f x = Inr y \<longrightarrow> keeps U x y"
    and e: "evaluate_plain S E op c f db = Inr db'"
  shows "keeps U db db'"
proof -
  from e obtain r where st: "start_evaluate S False (Some r) (fee_payer op) (op_fee op) (plain_check c) (plain_change f) db = Inr db'"
    by (auto simp: evaluate_plain_def evaluate_with_def res_simps)
  have "\<exists>fs v fs'. prepare_fee (fee_payer op) (op_fee op) db = Inr fs \<and> plain_check c fs db = Inr (v, fs') \<and> good U db' \<and>
    (\<forall>a. unbacked a db' = unbacked a db + (if a = 0 then 0 + (if asset_id (op_fee op) = 0 then core_fee_paid fs' - amount (op_fee op) else 0) else 0))"
  proof (rule start_evaluate_unbacked [OF S g st])
    fix fs v fs' x y
    assume "prepare_fee (fee_payer op) (op_fee op) db = Inr fs" "plain_check c fs db = Inr (v, fs')" "good U x" "plain_change f v fs' x = Inr y"
    then show "fee_from_account fs' = op_fee op \<and> good U y \<and> (\<forall>a. unbacked a y = unbacked a x + (if a = 0 then 0 else 0))"
      using f by (auto simp: plain_check_def plain_change_def keeps_def res_simps dest: prepare_fee_Inr)
  qed
  then show ?thesis by (auto simp: keeps_def plain_check_def res_simps dest: prepare_fee_Inr)
qed

lemma run_operation_keeps:
  assumes S: "safe_exact S" and z: "0 \<in> U" and g: "good U db" and v: "operation_validate proto op = Inr ()" and a: "accountable E U op"
    and r: "run_operation S E skip proposed op db = Inr db'"
  shows "keeps U db db'"
proof (cases op)
  case (Asset_op x)
  with r obtain q where "run_asset S (Some q) x db = Inr db'" by (auto simp: evaluate_with_def run_asset_def res_simps)
  with run_asset_good [OF S g] v a Asset_op show ?thesis by (auto simp: keeps_def)
next
  case (Content x)
  with r obtain q where "start_evaluate S False (Some q) (fst (content_fee x)) (snd (content_fee x)) (content_check S (content_env_of E skip) x)
    (content_change S (content_env_of E skip) x) db = Inr db'" by (auto simp: evaluate_with_def res_simps)
  then have c: "run_content S (content_env_of E skip) x db = Inr db'" unfolding run_content_def by (rule start_evaluate_required)
  from run_content_good [OF S z _ g c] a Content consensus.operation [OF c] recorded.operation [OF c]
  show ?thesis by (intro keepsI) (simp_all add: consensus_state_def)
next
  case (Custom x)
  with r a have "evaluate_plain S E op (custom_do_evaluate (env_register E) x) (custom_do_apply (env_register E) x) db = Inr db'" by simp
  then show ?thesis
    by (rule evaluate_plain_keeps [OF S g, rotated]) (use Custom in \<open>auto dest!: custom_leaves [OF a [unfolded Custom]] intro: keeps_refl\<close>)
qed (use r in \<open>auto split: if_splits elim!: evaluate_plain_keeps [OF S g, rotated]
    intro: transfer_keeps [OF S] transfer2_keeps [OF S] vesting_keeps [OF S] permission_keeps [OF S]
    subscription_keeps [OF S] money_keeps account_money miner_money keeps_refl\<close>)


definition op_env_example :: op_env where
  "op_env_example = \<lparr>env_content = env_example, env_proto = \<lambda>_. Inr ''ipfs'', env_register = \<lambda>_. None, env_data_size = \<lambda>_. 0\<rparr>"

lemma chain_example_good: "good {0} chain_example"
  using chain_example_books
  by (simp add: good_def market_inv_def chain_example_def empty_db_def empty_index_def idx_find_def rate_ok_def
      core_asset_example_def is_monitored_asset_def mk_asset_def)


text \<open>
  A subscription can be had for nothing. The operation meant for authors is paid for and signed by the subscriber: the
  authority it requires is the subscriber's alone, its fee is zero, and it opens a subscription to any author who
  sells them, whose price it does not ask for; the purchase at that price moves the money.
\<close>

theorem subscription_without_payment:
  "operation_get_required_authorities (Subscribe_by_author (mk_asset 0 0) 4 5) no_requirements =
     \<lparr>required_active = [4], required_owner = [], required_other = []\<rparr> \<and>
   price_per_subscribe (acc_options account_example) = mk_asset 10 0 \<and>
   (case run_operation safe_int64 op_env_example 0 False (Subscribe_by_author (mk_asset 0 0) 4 5) chain_example of
      Inl _ \<Rightarrow> None
    | Inr db \<Rightarrow> Some (is_subscribed 4 5 db, amount (get_balance 4 0 db), amount (get_balance 5 0 db))) = Some (True, 100, 0) \<and>
   (case run_operation safe_int64 op_env_example 0 False
      (Subscribe \<lparr>sb_fee = mk_asset 0 0, sb_from = 4, sb_to = 5, sb_price = mk_asset 10 0\<rparr>) chain_example of
      Inl _ \<Rightarrow> None
    | Inr db \<Rightarrow> Some (is_subscribed 4 5 db, amount (get_balance 4 0 db), amount (get_balance 5 0 db))) = Some (True, 90, 10)"
proof (intro conjI)
  show "operation_get_required_authorities (Subscribe_by_author (mk_asset 0 0) 4 5) no_requirements =
     \<lparr>required_active = [4], required_owner = [], required_other = []\<rparr>"
    by (simp add: operation_get_required_authorities_def no_requirements_def insort_insert_key_def)
  show "price_per_subscribe (acc_options account_example) = mk_asset 10 0" by (simp add: account_example_def)
qed code_simp+

end
