(* ===== verification/Proposals.thy ===== *)
theory Proposals
  imports Operation_Books
begin

text \<open>
  Proposed transactions (\<open>proposal_evaluator.cpp\<close>, \<open>proposal_object.cpp\<close>, \<open>protocol/proposal.cpp\<close>), \<open>push_proposal\<close> and
  \<open>apply_operation\<close> of \<open>db_block.cpp\<close> and \<open>clear_expired_proposals\<close> of \<open>db_update.cpp\<close>. Approving a proposal may execute it,
  which applies its operations; the depth of this recursion is an argument of \<open>apply_operation\<close>, and two levels
  suffice because no proposal can hold an approval. An undo session around the execution restores
  the state when it fails, so a failed execution is the state before it.
\<close>

section \<open>State\<close>

record proposal_object =
  prop_expiration :: int
  review_period_time :: "int option"
  proposed_operations :: "operation list"
  prop_approvals :: approvals

record chain =
  chain_db :: database
  proposals :: "proposal_object index"

definition get_active_authority :: "database \<Rightarrow> authority_source" where
  "get_active_authority db i = rbind (idx_get (accounts db) i) (\<lambda>a. Inr (Some (acc_active a)))"

definition get_owner_authority :: "database \<Rightarrow> authority_source" where
  "get_owner_authority db i = rbind (idx_get (accounts db) i) (\<lambda>a. Inr (Some (acc_owner a)))"

definition is_authorized_to_execute :: "proposal_object \<Rightarrow> database \<Rightarrow> bool" where
  "is_authorized_to_execute p db =
     succeeds (verify_authority operation_get_required_authorities (proposed_operations p) (available_key_approvals (prop_approvals p))
       (get_active_authority db) (get_owner_authority db) (max_authority_depth (parameters (gpo db))) True
       (available_active_approvals (prop_approvals p)) (available_owner_approvals (prop_approvals p)))"

section \<open>Creation\<close>

definition transaction_validate :: "(string \<Rightarrow> string result) \<Rightarrow> operation list \<Rightarrow> unit result" where
  "transaction_validate proto ops = fc_assert (length ops > 0) (fold_res (\<lambda>op _. operation_validate proto op) ops ())"

definition proposal_create_do_evaluate ::
  "(string \<Rightarrow> string result) \<Rightarrow> proposal_create_operation \<Rightarrow> operation list \<Rightarrow> chain \<Rightarrow> unit result" where
  "proposal_create_do_evaluate proto op ops c =
     (let t = head_block_time (chain_db c); params = parameters (gpo (chain_db c)) in
      fc_assert (pcr_expiration op > t)
     (fc_assert (pcr_expiration op \<le> u32 (t + maximum_proposal_lifetime params))
     (fc_assert (case pcr_review op of None \<Rightarrow> True | Some r \<Rightarrow> r < pcr_expiration op - t)
     (let req = fold operation_get_required_authorities ops no_requirements;
          auths = required_active req @ required_owner req
      in fc_assert (required_other req = [])
        (rbind (if GRAPHENE_MINER_ACCOUNT \<in> set auths then
                  (case pcr_review op of
                     None \<Rightarrow> Inl other_exception
                   | Some r \<Rightarrow> if r \<ge> miner_proposal_review_period params then Inr () else Inl other_exception)
                else Inr ()) (\<lambda>_.
         transaction_validate proto ops))))))"

definition new_proposal :: "proposal_create_operation \<Rightarrow> operation list \<Rightarrow> proposal_object" where
  "new_proposal op ops =
     (let req = fold operation_get_required_authorities ops no_requirements in
      \<lparr>prop_expiration = pcr_expiration op,
       review_period_time = map_option (\<lambda>r. u32 (pcr_expiration op - r)) (pcr_review op),
       proposed_operations = ops,
       prop_approvals =
         \<lparr>required_active_approvals = filter (\<lambda>a. a \<notin> set (required_owner req)) (required_active req), available_active_approvals = [],
          required_owner_approvals = required_owner req, available_owner_approvals = [], available_key_approvals = []\<rparr>\<rparr>)"

definition proposal_create_do_apply :: "proposal_create_operation \<Rightarrow> operation list \<Rightarrow> chain \<Rightarrow> chain result" where
  "proposal_create_do_apply op ops c =
     rbind (idx_create no_clash (proposals c) (\<lambda>_. new_proposal op ops)) (\<lambda>(_, t). Inr (c\<lparr>proposals := t\<rparr>))"

section \<open>Approval\<close>

definition proposal_update_do_evaluate :: "proposal_update_operation \<Rightarrow> chain \<Rightarrow> unit result" where
  "proposal_update_do_evaluate op c =
     rbind (idx_get (proposals c) (pup_proposal op)) (\<lambda>p.
     rbind (case review_period_time p of
              None \<Rightarrow> Inr ()
            | Some r \<Rightarrow>
                if head_block_time (chain_db c) \<ge> r
                then fc_assert (active_approvals_to_add op = [] \<and> owner_approvals_to_add op = []) (Inr ())
                else Inr ()) (\<lambda>_.
     fc_assert (list_all (\<lambda>i. i \<in> set (available_active_approvals (prop_approvals p))) (active_approvals_to_remove op))
    (fc_assert (list_all (\<lambda>i. i \<in> set (available_owner_approvals (prop_approvals p))) (owner_approvals_to_remove op))
      (Inr ()))))"

definition change_approvals :: "nat list \<Rightarrow> nat list \<Rightarrow> nat list \<Rightarrow> nat list" where
  "change_approvals add remove xs = fold removeAll remove (fold insort_insert add xs)"

definition update_approvals :: "proposal_update_operation \<Rightarrow> proposal_object \<Rightarrow> proposal_object" where
  "update_approvals op p =
     (let a = prop_approvals p in
      p\<lparr>prop_approvals := a\<lparr>
          available_active_approvals := change_approvals (active_approvals_to_add op) (active_approvals_to_remove op) (available_active_approvals a),
          available_owner_approvals := change_approvals (owner_approvals_to_add op) (owner_approvals_to_remove op) (available_owner_approvals a),
          available_key_approvals := change_approvals (key_approvals_to_add op) (key_approvals_to_remove op) (available_key_approvals a)\<rparr>\<rparr>)"

text \<open>
  The proposal is a reference that the loop keeps reading and removes at the end; when an operation has
  removed it already, the reference dangles.
\<close>

definition push_proposal :: "(operation \<Rightarrow> chain \<Rightarrow> chain result) \<Rightarrow> nat \<Rightarrow> proposal_object \<Rightarrow> chain \<Rightarrow> chain result" where
  "push_proposal apply_op i p c =
     rbind (fold_res apply_op (proposed_operations p) c) (\<lambda>c1.
     case idx_find (proposals c1) i of
       None \<Rightarrow> Inl undefined_behaviour
     | Some _ \<Rightarrow> rbind (idx_remove (proposals c1) i) (\<lambda>t. Inr (c1\<lparr>proposals := t\<rparr>)))"

text \<open>What \<open>catch\<close> of an exception resumes with; undefined behaviour and a recursion without end cannot be caught.\<close>

definition catching :: "chain result \<Rightarrow> chain \<Rightarrow> chain result" where
  "catching r c =
     (case r of
        Inr c' \<Rightarrow> Inr c'
      | Inl e \<Rightarrow> if e = undefined_behaviour \<or> e = out_of_fuel then Inl e else Inr c)"

definition proposal_update_do_apply ::
  "(operation \<Rightarrow> chain \<Rightarrow> chain result) \<Rightarrow> proposal_update_operation \<Rightarrow> chain \<Rightarrow> chain result" where
  "proposal_update_do_apply apply_op op c =
     rbind (idx_update no_clash (proposals c) (pup_proposal op) (\<lambda>p. Inr (update_approvals op p))) (\<lambda>t.
     let c1 = c\<lparr>proposals := t\<rparr> in
     rbind (idx_get (proposals c1) (pup_proposal op)) (\<lambda>p.
     if review_period_time p \<noteq> None then Inr c1
     else if is_authorized_to_execute p (chain_db c1) then catching (push_proposal apply_op (pup_proposal op) p c1) c1
     else Inr c1))"

section \<open>Deletion\<close>

definition proposal_delete_do_evaluate :: "proposal_delete_operation \<Rightarrow> chain \<Rightarrow> unit result" where
  "proposal_delete_do_evaluate op c =
     rbind (idx_get (proposals c) (pdl_proposal op)) (\<lambda>p.
     let req = (if pdl_using_owner op then required_owner_approvals (prop_approvals p) else required_active_approvals (prop_approvals p))
     in fc_assert (pdl_payer op \<in> set req) (Inr ()))"

definition proposal_delete_do_apply :: "proposal_delete_operation \<Rightarrow> chain \<Rightarrow> chain result" where
  "proposal_delete_do_apply op c =
     rbind (idx_remove (proposals c) (pdl_proposal op)) (\<lambda>t. Inr (c\<lparr>proposals := t\<rparr>))"

section \<open>Applying operations\<close>

definition evaluate_chain ::
  "safe \<Rightarrow> op_env \<Rightarrow> operation \<Rightarrow> (chain \<Rightarrow> unit result) \<Rightarrow> (chain \<Rightarrow> chain result) \<Rightarrow> chain \<Rightarrow> chain result" where
  "evaluate_chain S E op check change c =
     rbind (prepare_fee (fee_payer op) (op_fee op) (chain_db c)) (\<lambda>fs.
     rbind (required_fee S (env_data_size E) op (chain_db c)) (\<lambda>r.
     if core_fee_paid fs < r then Inl other_exception
     else
       rbind (check c) (\<lambda>_.
       rbind (convert_fee S False fs (chain_db c)) (\<lambda>d1.
       rbind (pay_fee S False fs d1) (\<lambda>d2.
       rbind (change (c\<lparr>chain_db := d2\<rparr>)) (\<lambda>c3.
       rbind (asset_neg S (fee_from_account fs)) (\<lambda>n.
       rbind (adjust_balance S (fee_payer op) n (chain_db c3)) (\<lambda>d.
         Inr (c3\<lparr>chain_db := d\<rparr>)))))))))"

definition lift_db :: "(database \<Rightarrow> database result) \<Rightarrow> chain \<Rightarrow> chain result" where
  "lift_db f c = rbind (f (chain_db c)) (\<lambda>d. Inr (c\<lparr>chain_db := d\<rparr>))"

primrec apply_operation :: "nat \<Rightarrow> safe \<Rightarrow> op_env \<Rightarrow> 32 word \<Rightarrow> bool \<Rightarrow> operation \<Rightarrow> chain \<Rightarrow> chain result" where
  "apply_operation 0 S E skip proposed op c = Inl out_of_fuel"
| "apply_operation (Suc depth) S E skip proposed op c =
     (case op of
        Proposal_create o' ops \<Rightarrow>
          evaluate_chain S E op (proposal_create_do_evaluate (env_proto E) o' ops) (proposal_create_do_apply o' ops) c
      | Proposal_update o' \<Rightarrow>
          evaluate_chain S E op (proposal_update_do_evaluate o') (proposal_update_do_apply (apply_operation depth S E skip True) o') c
      | Proposal_delete o' \<Rightarrow>
          evaluate_chain S E op (proposal_delete_do_evaluate o') (proposal_delete_do_apply o') c
      | _ \<Rightarrow> lift_db (run_operation S E skip proposed op) c)"

definition push_depth :: nat where "push_depth = 2"

section \<open>Expiry\<close>

definition expired_proposals :: "chain \<Rightarrow> (nat \<times> proposal_object) list" where
  "expired_proposals c = filter (\<lambda>r. prop_expiration (snd r) \<le> head_block_time (chain_db c)) (rows (proposals c))"

definition next_expired :: "chain \<Rightarrow> (nat \<times> proposal_object) option" where
  "next_expired c =
     (case sort_key (\<lambda>r. prop_expiration (snd r)) (rows (proposals c)) of
        [] \<Rightarrow> None
      | r # _ \<Rightarrow> if prop_expiration (snd r) \<le> head_block_time (chain_db c) then Some r else None)"

definition expire_proposal :: "safe \<Rightarrow> op_env \<Rightarrow> 32 word \<Rightarrow> nat \<times> proposal_object \<Rightarrow> chain \<Rightarrow> chain result" where
  "expire_proposal S E skip r c =
     (let remove = rbind (idx_remove (proposals c) (fst r)) (\<lambda>t. Inr (c\<lparr>proposals := t\<rparr>)) in
      if is_authorized_to_execute (snd r) (chain_db c) then
        (case push_proposal (apply_operation push_depth S E skip True) (fst r) (snd r) c of
           Inr c' \<Rightarrow> Inr c'
         | Inl e \<Rightarrow> if e = undefined_behaviour \<or> e = out_of_fuel then Inl e else remove)
      else remove)"

primrec expire_loop :: "nat \<Rightarrow> safe \<Rightarrow> op_env \<Rightarrow> 32 word \<Rightarrow> chain \<Rightarrow> chain result" where
  "expire_loop 0 S E skip c = Inl out_of_fuel"
| "expire_loop (Suc fuel) S E skip c =
     (case next_expired c of None \<Rightarrow> Inr c | Some r \<Rightarrow> rbind (expire_proposal S E skip r c) (expire_loop fuel S E skip))"

definition clear_expired_proposals :: "safe \<Rightarrow> op_env \<Rightarrow> 32 word \<Rightarrow> chain \<Rightarrow> chain result" where
  "clear_expired_proposals S E skip c = expire_loop (Suc (length (expired_proposals c))) S E skip c"

end
