(* ===== verification/Operation_Observers.thy ===== *)
theory Operation_Observers
  imports Operation_Books
begin

text \<open>
  What no operation can touch. A view of the database that does not depend on the objects operations create and change is the same
  after every operation; the one operation that changes the parameters is left out. The interpretations are the policy of the
  chain, that is its clock and its parameters, and the record of recent blocks and transactions.
\<close>

section \<open>The interface\<close>

definition is_parameter_update :: "operation \<Rightarrow> bool" where
  "is_parameter_update op \<longleftrightarrow> (case op of Update_parameters _ _ \<Rightarrow> True | _ \<Rightarrow> False)"

lemma is_parameter_update_iff: "is_parameter_update op \<longleftrightarrow> (\<exists>fee q. op = Update_parameters fee q)"
  by (cases op) (simp_all add: is_parameter_update_def)

text \<open>The interpreters of custom operations are expected to leave the view alone.\<close>

definition interpreters_respect :: "(database \<Rightarrow> 'v) \<Rightarrow> op_env \<Rightarrow> bool" where
  "interpreters_respect view E \<longleftrightarrow>
     (\<forall>k f g op s s'. env_register E k = Some (f, g) \<longrightarrow> g op s = Inr s' \<longrightarrow> view s' = view s)"

locale operation_observer = observer view for view :: "database \<Rightarrow> 'v" +
  assumes view_assets: "view (db\<lparr>assets := y1\<rparr>) = view db"
    and view_account_stats: "view (db\<lparr>account_stats := y2\<rparr>) = view db"
    and view_dynamic_data: "view (db\<lparr>dynamic_data := y3\<rparr>) = view db"
    and view_miners: "view (db\<lparr>miners := y4\<rparr>) = view db"
    and view_permissions: "view (db\<lparr>permissions := y5\<rparr>) = view db"
    and view_vote_id: "view (db\<lparr>gpo := (gpo db)\<lparr>next_available_vote_id := y6\<rparr>\<rparr>) = view db"
    and view_registered: "view (db\<lparr>dpo := (dpo db)\<lparr>accounts_registered_this_interval := y7\<rparr>\<rparr>) = view db"
begin

lemma object_frames:
  "modify_asset i f1 db = Inr db' \<Longrightarrow> view db' = view db"
  "create_asset a db = Inr (k, db') \<Longrightarrow> view db' = view db"
  "create_account ac db = Inr (k, db') \<Longrightarrow> view db' = view db"
  "create_account_stats acs db = Inr (k, db') \<Longrightarrow> view db' = view db"
  "create_dynamic_data dd db = Inr (k, db') \<Longrightarrow> view db' = view db"
  "modify_dynamic_data i f2 db = Inr db' \<Longrightarrow> view db' = view db"
  "create_miner m db = Inr (k, db') \<Longrightarrow> view db' = view db"
  "modify_miner i f3 db = Inr db' \<Longrightarrow> view db' = view db"
  "modify_permission i f4 db = Inr db' \<Longrightarrow> view db' = view db"
  by (auto simp: modify_asset_def create_asset_def create_account_def create_account_stats_def
      create_dynamic_data_def modify_dynamic_data_def create_miner_def modify_miner_def modify_permission_def res_simps
      view_accounts view_assets view_account_stats view_dynamic_data view_miners view_permissions)

lemmas view_steps = frames object_frames

lemma fee_view:
  "convert_fee S b fs db = Inr db' \<Longrightarrow> view db' = view db"
  "pay_fee S b fs db = Inr db' \<Longrightarrow> view db' = view db"
  by (auto simp: convert_fee_def pay_fee_def res_simps split: if_splits dest!: view_steps)

lemma evaluate_with_view:
  assumes "evaluate_with S E op check change db = Inr db'"
    and "\<And>e fs s s'. change e fs s = Inr s' \<Longrightarrow> view s' = view s"
  shows "view db' = view db"
  using assms by (auto simp: evaluate_with_def start_evaluate_def res_simps split: if_splits dest!: fee_view adjust)

lemma evaluate_plain_view:
  assumes "evaluate_plain S E op c f db = Inr db'" "\<forall>s s'. f s = Inr s' \<longrightarrow> view s' = view s"
  shows "view db' = view db"
  using assms(1) unfolding evaluate_plain_def by (rule evaluate_with_view) (use assms(2) in \<open>simp add: plain_change_def\<close>)

lemma asset_view: "asset_change S op e fs db = Inr db' \<Longrightarrow> view db' = view db"
  by (cases op) (auto simp: asset_create_do_apply_def asset_issue_do_apply_def asset_reserve_do_apply_def update_monitored_do_apply_def
      update_uia_do_apply_def update_advanced_do_apply_def fund_pools_do_apply_def claim_fees_do_apply_def publish_feed_do_apply_def
      Let_def res_simps split: if_splits dest!: view_steps)

lemma account_view:
  "account_create_do_apply cop db = Inr db' \<Longrightarrow> view db' = view db"
  "account_update_do_apply uop db = Inr db' \<Longrightarrow> view db' = view db"
proof -
  show "account_create_do_apply cop db = Inr db' \<Longrightarrow> view db' = view db"
    by (auto simp: account_create_do_apply_def Let_def res_simps dest!: view_steps) (simp add: view_registered)
  have "view s' = view s" if "fold_res (\<lambda>(sid, s). disallow_renewal sid s) xs s = Inr s'" for xs s s'
    using that by (rule loop) (auto dest: disallowing)
  then show "account_update_do_apply uop db = Inr db' \<Longrightarrow> view db' = view db"
    by (auto simp: account_update_do_apply_def res_simps split: option.splits if_splits dest!: view_steps)
qed

lemma miner_view:
  "miner_create_do_apply cop db = Inr db' \<Longrightarrow> view db' = view db"
  "miner_update_do_apply uop db = Inr db' \<Longrightarrow> view db' = view db"
  by (auto simp: miner_create_do_apply_def miner_update_do_apply_def get_next_vote_id_def Let_def
      create_miner_def modify_miner_def res_simps view_miners view_vote_id)

lemma transfer2_content_view: "transfer2_to_content S a c db = Inr db' \<Longrightarrow> view db' = view db"
  by (drule transfer2_to_content_payout) (rule payout)

lemma transfer2_view: "transfer2_do_apply S op db = Inr db' \<Longrightarrow> view db' = view db"
proof (cases "tr2_to op")
  case (To_account x)
  then show "transfer2_do_apply S op db = Inr db' \<Longrightarrow> view db' = view db"
    by (auto simp: transfer2_do_apply_def res_simps dest!: view_steps)
next
  case (To_content i)
  then show "transfer2_do_apply S op db = Inr db' \<Longrightarrow> view db' = view db"
    by (auto simp: transfer2_do_apply_def res_simps dest!: view_steps transfer2_content_view)
next
  case (To_other t i)
  then show "transfer2_do_apply S op db = Inr db' \<Longrightarrow> view db' = view db"
    by (auto simp: transfer2_do_apply_def res_simps)
qed

lemma payment_view:
  "transfer_do_apply S t1 db = Inr db' \<Longrightarrow> view db' = view db"
  "vesting_create_do_apply S vop db = Inr db' \<Longrightarrow> view db' = view db"
  "vesting_withdraw_do_apply S wop db = Inr db' \<Longrightarrow> view db' = view db"
  "claim_do_apply S clop db = Inr db' \<Longrightarrow> view db' = view db"
  "permission_update_do_apply i pop db = Inr db' \<Longrightarrow> view db' = view db"
  by (auto simp: transfer_do_apply_def vesting_create_do_apply_def vesting_withdraw_do_apply_def claim_do_apply_def
      permission_update_do_apply_def res_simps dest!: view_steps)

lemma permission_view:
  "permission_create_do_apply pop db = Inr db' \<Longrightarrow> view db' = view db"
  "permission_delete_do_apply i db = Inr db' \<Longrightarrow> view db' = view db"
  by (auto simp: permission_create_do_apply_def permission_delete_do_apply_def res_simps view_permissions)

lemma subscription_view:
  "subscribe_do_apply S sop db = Inr db' \<Longrightarrow> view db' = view db"
  "subscribe_by_author_do_apply x y fee db = Inr db' \<Longrightarrow> view db' = view db"
  "automatic_renewal_do_apply sid r db = Inr db' \<Longrightarrow> view db' = view db"
proof -
  have se: "view s' = view s" if "start_or_extend x y n s = Inr s'" for x y n s s'
    using that by (auto simp: start_or_extend_def res_simps split: option.splits prod.splits dest: view_steps)
  show "subscribe_do_apply S sop db = Inr db' \<Longrightarrow> view db' = view db"
    "subscribe_by_author_do_apply x y fee db = Inr db' \<Longrightarrow> view db' = view db"
    "automatic_renewal_do_apply sid r db = Inr db' \<Longrightarrow> view db' = view db"
    by (auto simp: subscribe_do_apply_def subscribe_by_author_do_apply_def automatic_renewal_do_apply_def subscription_detail_def Let_def
        res_simps dest!: view_steps se)
qed

lemma custom_view: "interpreters_respect view E \<Longrightarrow> custom_do_apply (env_register E) op db = Inr db' \<Longrightarrow> view db' = view db"
  by (auto simp: custom_do_apply_def interpreters_respect_def split: option.splits)

lemma run_operation_view:
  assumes i: "interpreters_respect view E" and n: "\<not> is_parameter_update op" and r: "run_operation S E skip proposed op db = Inr db'"
  shows "view db' = view db"
proof (cases op)
  case (Content x)
  with r obtain q where "start_evaluate S False (Some q) (fst (content_fee x)) (snd (content_fee x)) (content_check S (content_env_of E skip) x)
    (content_change S (content_env_of E skip) x) db = Inr db'" by (auto simp: evaluate_with_def res_simps)
  then have "run_content S (content_env_of E skip) x db = Inr db'" unfolding run_content_def by (rule start_evaluate_required)
  then show ?thesis by (rule operation)
next
  case (Asset_op x)
  with r show ?thesis by (auto elim!: evaluate_with_view intro: asset_view)
qed (use r n in \<open>auto simp: is_parameter_update_def split: if_splits elim!: evaluate_plain_view
    intro: transfer2_view payment_view permission_view subscription_view account_view miner_view custom_view [OF i]\<close>)

end

section \<open>Two views\<close>

definition policy :: "database \<Rightarrow> int \<times> chain_parameters \<times> chain_parameters option" where
  "policy db = (head_block_time db, parameters (gpo db), pending_parameters (gpo db))"

interpretation governed: operation_observer policy
  by unfold_locales (simp_all add: policy_def head_block_time_def)

text \<open>What blocks and transactions leave behind.\<close>

definition past ::
  "database \<Rightarrow> int \<times> block_id \<times> int \<times> transaction_object index \<times> block_summary_object index" where
  "past db = (head_block_num db, head_block_id db, head_block_time db, transaction_ids db, block_summaries db)"

interpretation settled: operation_observer past
  by unfold_locales (simp_all add: past_def head_block_num_def head_block_id_def head_block_time_def)

end
