(* ===== verification/Proposal_Rules.thy ===== *)
theory Proposal_Rules
  imports Proposals Operation_Observers
begin

text \<open>
  What proposals guarantee. An operation changes neither the clock nor the parameters of the chain, so proposals cannot
  keep the expiry loop going; no proposal holds an approval, so executions nest at most once; a change of
  the parameters is only ever scheduled by the expiry of a proposal that had a review period.
\<close>

section \<open>No proposal holds an approval\<close>

definition is_approval :: "operation \<Rightarrow> bool" where
  "is_approval op \<longleftrightarrow> (case op of Proposal_update _ \<Rightarrow> True | _ \<Rightarrow> False)"

lemma is_approval_iff: "is_approval op \<longleftrightarrow> (\<exists>o'. op = Proposal_update o')"
  by (cases op) (simp_all add: is_approval_def)

definition reviewed :: "proposal_object \<Rightarrow> bool" where
  "reviewed p \<longleftrightarrow> list_ex is_parameter_update (proposed_operations p) \<longrightarrow> review_period_time p \<noteq> None"

text \<open>
  What holds of every stored proposal: it holds no approval, and if it changes the parameters, it has a review period.
\<close>

definition proposals_ok :: "chain \<Rightarrow> bool" where
  "proposals_ok c \<longleftrightarrow> wf_index (proposals c) \<and>
     (\<forall>i p. idx_find (proposals c) i = Some p \<longrightarrow> \<not> list_ex is_approval (proposed_operations p) \<and> reviewed p)"

lemma required_other_fold:
  "required_other (fold operation_get_required_authorities ops r) = required_other r @ concat (map required_other_of ops)"
  by (induction ops arbitrary: r) (simp_all add: operation_get_required_authorities_def)

lemma set_fold_insort: "set (fold insort_insert xs ys) = set ys \<union> set xs" for xs ys :: "nat list"
  by (induction xs arbitrary: ys) (auto simp: set_insort_insert)

lemma required_active_fold:
  "set (required_active (fold operation_get_required_authorities ops r)) =
     set (required_active r) \<union> (\<Union>op \<in> set ops. insert (fee_payer op) (set (required_active_of op)))"
proof (induction ops arbitrary: r)
  case (Cons op ops)
  have "set (required_active (operation_get_required_authorities op r)) = insert (fee_payer op) (set (required_active_of op)) \<union> set (required_active r)"
    unfolding operation_get_required_authorities_def by (auto simp: set_fold_insort set_insort_insert)
  then show ?case by (auto simp: Cons.IH)
qed simp

lemma created_proposal_ok:
  assumes "proposal_create_do_evaluate proto op ops c = Inr ()"
  shows "\<not> list_ex is_approval ops" "reviewed (new_proposal op ops)" "pcr_expiration op > head_block_time (chain_db c)"
proof -
  let ?req = "fold operation_get_required_authorities ops no_requirements"
  from assms have t: "pcr_expiration op > head_block_time (chain_db c)" and other: "required_other ?req = []"
    and rv: "GRAPHENE_MINER_ACCOUNT \<in> set (required_active ?req @ required_owner ?req) \<Longrightarrow> pcr_review op \<noteq> None"
    by (auto simp: proposal_create_do_evaluate_def Let_def res_simps split: if_splits option.splits)
  show "pcr_expiration op > head_block_time (chain_db c)" by (rule t)
  show "\<not> list_ex is_approval ops"
    using other by (auto simp: required_other_fold list_ex_iff is_approval_iff)
  have "GRAPHENE_MINER_ACCOUNT \<in> set (required_active ?req)" if u: "list_ex is_parameter_update ops"
  proof -
    from u obtain fee q where "Update_parameters fee q \<in> set ops"
      by (auto simp: list_ex_iff is_parameter_update_iff)
    moreover have "fee_payer (Update_parameters fee q) = GRAPHENE_MINER_ACCOUNT" by (simp add: GRAPHENE_MINER_ACCOUNT_def)
    ultimately show ?thesis unfolding required_active_fold by (metis UN_I UnI2 insertI1)
  qed
  with rv show "reviewed (new_proposal op ops)" by (auto simp: reviewed_def new_proposal_def Let_def)
qed

lemma evaluate_chain_Inr:
  assumes "evaluate_chain S E op check change c = Inr c'"
  shows "\<exists>d d2 c3. check c = Inr () \<and> policy d2 = policy (chain_db c) \<and> change (c\<lparr>chain_db := d2\<rparr>) = Inr c3 \<and>
    policy d = policy (chain_db c3) \<and> c' = c3\<lparr>chain_db := d\<rparr>"
proof -
  from assms obtain fs d1 d2 c3 n d where "check c = Inr ()" "convert_fee S False fs (chain_db c) = Inr d1" "pay_fee S False fs d1 = Inr d2"
    and "change (c\<lparr>chain_db := d2\<rparr>) = Inr c3" "adjust_balance S (fee_payer op) n (chain_db c3) = Inr d" "c' = c3\<lparr>chain_db := d\<rparr>"
    by (auto simp: evaluate_chain_def res_simps split: if_splits)
  then show ?thesis using governed.fee_view governed.adjust by metis
qed

lemma proposals_ok_frame: "proposals c' = proposals c \<Longrightarrow> proposals_ok c' = proposals_ok c"
  by (simp add: proposals_ok_def)

lemma remove_ok:
  assumes "proposals_ok c" "idx_remove (proposals c) i = Inr t" "proposals c' = t"
  shows "proposals_ok c'"
  using assms idx_remove_Inr [OF assms(2)] by (auto simp: proposals_ok_def)

lemma approval_ok: "\<not> list_ex is_approval (proposed_operations p) \<and> reviewed p \<Longrightarrow>
  \<not> list_ex is_approval (proposed_operations (update_approvals op p)) \<and> reviewed (update_approvals op p)"
  by (simp add: update_approvals_def Let_def reviewed_def)

lemma approve_ok:
  assumes "proposals_ok c" "idx_update no_clash (proposals c) i (\<lambda>p. Inr (update_approvals op p)) = Inr t" "proposals c' = t"
  shows "proposals_ok c'"
  using assms(1,3) idx_update_Inr [OF assms(2)] approval_ok [of _ op] by (auto simp: proposals_ok_def split: if_splits)

lemma create_ok:
  assumes "proposals_ok c" "proposal_create_do_evaluate proto op ops c = Inr ()" "proposal_create_do_apply op ops (c\<lparr>chain_db := d\<rparr>) = Inr c3"
  shows "proposals_ok c3" "chain_db c3 = d"
    "idx_find (proposals c3) = (idx_find (proposals c))(next_id (proposals c) \<mapsto> new_proposal op ops)"
proof -
  from assms(3) obtain i t where t: "idx_create no_clash (proposals c) (\<lambda>_. new_proposal op ops) = Inr (i, t)" "c3 = c\<lparr>chain_db := d, proposals := t\<rparr>"
    by (auto simp: proposal_create_do_apply_def res_simps)
  from assms(1) have "wf_index (proposals c)" by (simp add: proposals_ok_def)
  from idx_create_Inr [OF t(1) this] t(2) assms(1) created_proposal_ok [OF assms(2)]
  show "proposals_ok c3" "chain_db c3 = d" "idx_find (proposals c3) = (idx_find (proposals c))(next_id (proposals c) \<mapsto> new_proposal op ops)"
    by (auto simp: proposals_ok_def new_proposal_def Let_def)
qed

section \<open>Executions nest at most once\<close>

lemma apply_not_approval:
  "\<not> is_approval op \<Longrightarrow> apply_operation (Suc n) S E skip proposed op = apply_operation (Suc m) S E skip proposed op"
  by (cases op) (simp_all add: fun_eq_iff is_approval_def)

lemma push_proposal_cong:
  "(\<And>op. op \<in> set (proposed_operations p) \<Longrightarrow> f op = g op) \<Longrightarrow> push_proposal f i p c = push_proposal g i p c"
  unfolding push_proposal_def by (simp cong: fold_res_cong)

lemma evaluate_chain_cong:
  "(\<And>d. f (c\<lparr>chain_db := d\<rparr>) = g (c\<lparr>chain_db := d\<rparr>)) \<Longrightarrow> evaluate_chain S E op check f c = evaluate_chain S E op check g c"
  by (auto simp: evaluate_chain_def intro!: rbind_cong)

lemma approval_cong:
  assumes ok: "proposals_ok c" and fg: "\<And>op. \<not> is_approval op \<Longrightarrow> f op = g op"
  shows "proposal_update_do_apply f op c = proposal_update_do_apply g op c"
proof -
  have "push_proposal f (pup_proposal op) p (c\<lparr>proposals := t\<rparr>) = push_proposal g (pup_proposal op) p (c\<lparr>proposals := t\<rparr>)"
    if u: "idx_update no_clash (proposals c) (pup_proposal op) (\<lambda>p. Inr (update_approvals op p)) = Inr t"
      and p: "idx_get t (pup_proposal op) = Inr p" for t p
  proof (rule push_proposal_cong)
    fix o' assume "o' \<in> set (proposed_operations p)"
    moreover have "proposals_ok (c\<lparr>proposals := t\<rparr>)" by (rule approve_ok [OF ok u]) simp
    with p have "\<not> list_ex is_approval (proposed_operations p)" by (auto simp: proposals_ok_def idx_get_def res_simps)
    ultimately show "f o' = g o'" by (intro fg) (auto simp: list_ex_iff)
  qed
  then show ?thesis by (auto simp: proposal_update_do_apply_def Let_def intro!: rbind_cong)
qed

lemma depth_irrelevant:
  assumes ok: "proposals_ok c"
  shows "apply_operation (Suc (Suc n)) S E skip proposed op c = apply_operation push_depth S E skip proposed op c"
proof (cases "is_approval op")
  case True
  then obtain o' where "op = Proposal_update o'" by (auto simp: is_approval_iff)
  moreover have "proposal_update_do_apply (apply_operation (Suc n) S E skip True) o' (c\<lparr>chain_db := d\<rparr>) =
    proposal_update_do_apply (apply_operation (Suc 0) S E skip True) o' (c\<lparr>chain_db := d\<rparr>)" for d
    by (rule approval_cong) (use ok in \<open>simp add: proposals_ok_def\<close>, rule apply_not_approval)
  ultimately show ?thesis
    unfolding push_depth_def numeral_2_eq_2 apply_operation.simps by (auto intro: evaluate_chain_cong)
next
  case False
  from apply_not_approval [OF this, of "Suc n" S E skip proposed 1] show ?thesis by (simp add: push_depth_def numeral_2_eq_2)
qed

section \<open>One step\<close>

definition lapsed :: "chain \<Rightarrow> nat \<rightharpoonup> proposal_object" where
  "lapsed c i =
     (case idx_find (proposals c) i of
        None \<Rightarrow> None
      | Some p \<Rightarrow> if prop_expiration p \<le> head_block_time (chain_db c) then Some p else None)"

definition chain_time :: "chain \<Rightarrow> int \<times> chain_parameters" where
  "chain_time c = (head_block_time (chain_db c), parameters (gpo (chain_db c)))"

definition pending :: "chain \<Rightarrow> chain_parameters option" where
  "pending c = pending_parameters (gpo (chain_db c))"

text \<open>A step that keeps the proposals in order, the clock and the parameters, and lets no further proposal lapse.\<close>

definition advances :: "chain \<Rightarrow> chain \<Rightarrow> bool" where
  "advances c c' \<longleftrightarrow> proposals_ok c' \<and> chain_time c' = chain_time c \<and> lapsed c' \<subseteq>\<^sub>m lapsed c"

lemma advances_refl: "proposals_ok c \<Longrightarrow> advances c c"
  by (simp add: advances_def)

lemma advances_trans: "advances a b \<Longrightarrow> advances b c \<Longrightarrow> advances a c"
  by (auto simp: advances_def intro: map_le_trans)

lemma policy_eq: "policy (chain_db c') = policy (chain_db c) \<longleftrightarrow> chain_time c' = chain_time c \<and> pending c' = pending c"
  by (auto simp: policy_def chain_time_def pending_def)

lemma lapsed_mono:
  assumes "chain_time c' = chain_time c" "idx_find (proposals c') \<subseteq>\<^sub>m idx_find (proposals c)"
  shows "lapsed c' \<subseteq>\<^sub>m lapsed c"
  using assms by (fastforce simp: map_le_def lapsed_def chain_time_def dom_def split: option.splits if_splits)

lemma advances_frame:
  assumes "proposals_ok c" "chain_time c' = chain_time c" "proposals c' = proposals c"
  shows "advances c c'"
  using assms lapsed_mono [OF assms(2)] by (simp add: advances_def proposals_ok_def)

lemma remove_advances:
  assumes "proposals_ok c" "idx_remove (proposals c) i = Inr t" "proposals c' = t" "chain_time c' = chain_time c"
  shows "advances c c'" "lapsed c' i = None"
proof -
  note r = idx_remove_Inr [OF assms(2)]
  have "idx_find (proposals c') \<subseteq>\<^sub>m idx_find (proposals c)" using r(4) assms(3) by (auto simp: map_le_def)
  with remove_ok [OF assms(1-3)] lapsed_mono [OF assms(4)] assms(4) show "advances c c'" by (simp add: advances_def)
  show "lapsed c' i = None" using r(4) assms(3) by (simp add: lapsed_def)
qed

lemma create_advances:
  assumes ok: "proposals_ok c" and e: "proposal_create_do_evaluate proto op ops c = Inr ()" and d: "policy d = policy (chain_db c)"
    and a: "proposal_create_do_apply op ops (c\<lparr>chain_db := d\<rparr>) = Inr c3"
  shows "advances c c3" "policy (chain_db c3) = policy (chain_db c)"
proof -
  note k = create_ok [OF ok e a]
  show p: "policy (chain_db c3) = policy (chain_db c)" using k(2) d by simp
  then have t: "chain_time c3 = chain_time c" by (simp add: policy_eq)
  then have h: "head_block_time (chain_db c3) = head_block_time (chain_db c)" by (simp add: chain_time_def)
  have "prop_expiration (new_proposal op ops) > head_block_time (chain_db c)"
    using created_proposal_ok(3) [OF e] by (simp add: new_proposal_def Let_def)
  with k(3) h have "lapsed c3 i = Some p \<Longrightarrow> lapsed c i = Some p" for i p
    by (auto simp: lapsed_def split: if_splits option.splits)
  then have "lapsed c3 \<subseteq>\<^sub>m lapsed c" by (auto simp: map_le_def)
  with k(1) t show "advances c c3" by (simp add: advances_def)
qed

lemma other_operation_step:
  assumes ok: "proposals_ok c" and i: "interpreters_respect policy E" and n: "\<not> is_approval op"
    and a: "apply_operation (Suc n) S E skip proposed op c = Inr c'"
  shows "advances c c' \<and> (pending c' = pending c \<or> proposed \<and> (\<exists>fee q. op = Update_parameters fee q \<and> pending c' = Some q))"
proof -
  have run: ?thesis if r: "lift_db (run_operation S E skip proposed op) c = Inr c'"
  proof -
    from r obtain d where d: "run_operation S E skip proposed op (chain_db c) = Inr d" "c' = c\<lparr>chain_db := d\<rparr>"
      by (auto simp: lift_db_def res_simps)
    show ?thesis
    proof (cases "is_parameter_update op")
      case True
      then obtain fee q where u: "op = Update_parameters fee q" by (auto simp: is_parameter_update_iff)
      with d obtain d2 s n where "proposed" "policy d2 = policy (chain_db c)" "update_parameters_do_apply q d2 = Inr s"
        "adjust_balance S 0 n s = Inr d"
        by (auto simp: evaluate_plain_def evaluate_with_def start_evaluate_def plain_check_def plain_change_def update_parameters_do_evaluate_def
            res_simps split: if_splits dest!: governed.fee_view)
      then have "chain_time c' = chain_time c" "pending c' = Some q"
        using governed.adjust [of S 0 n s d] d(2) by (auto simp: update_parameters_do_apply_def policy_def chain_time_def pending_def head_block_time_def)
      with advances_frame [OF ok, of c'] d(2) u \<open>proposed\<close> show ?thesis by simp
    next
      case False
      with governed.run_operation_view [OF i _ d(1)] have "policy (chain_db c') = policy (chain_db c)" by (simp add: d(2))
      with advances_frame [OF ok, of c'] d(2) policy_eq [of c' c] show ?thesis by simp
    qed
  qed
  show ?thesis
  proof (cases op)
    case (Proposal_create o' ops)
    with a obtain d d2 c3 where e: "proposal_create_do_evaluate (env_proto E) o' ops c = Inr ()" "policy d2 = policy (chain_db c)"
      "proposal_create_do_apply o' ops (c\<lparr>chain_db := d2\<rparr>) = Inr c3" "policy d = policy (chain_db c3)" "c' = c3\<lparr>chain_db := d\<rparr>"
      by (auto dest: evaluate_chain_Inr)
    note k = create_advances [OF ok e(1-3)]
    have "advances c3 c'" using advances_frame [of c3 c'] k(1) e(4,5) policy_eq [of c' c3] by (simp add: advances_def)
    with advances_trans [OF k(1)] k(2) e(4,5) policy_eq [of c' c] show ?thesis by simp
  next
    case (Proposal_delete o')
    with a obtain d d2 c3 where e: "policy d2 = policy (chain_db c)"
      "proposal_delete_do_apply o' (c\<lparr>chain_db := d2\<rparr>) = Inr c3" "policy d = policy (chain_db c3)" "c' = c3\<lparr>chain_db := d\<rparr>"
      by (auto dest: evaluate_chain_Inr)
    from e(2) obtain t where t: "idx_remove (proposals c) (pdl_proposal o') = Inr t" "c3 = c\<lparr>chain_db := d2, proposals := t\<rparr>"
      by (auto simp: proposal_delete_do_apply_def res_simps)
    have "policy (chain_db c') = policy (chain_db c)" using e t by simp
    with remove_advances(1) [OF ok t(1), of c'] e(4) t(2) policy_eq [of c' c] show ?thesis by simp
  qed (use n a run in \<open>simp_all add: is_approval_def\<close>)
qed

section \<open>Executing a proposal\<close>

lemma execution_step:
  assumes ok: "proposals_ok c" and i: "interpreters_respect policy E" and n: "\<not> list_ex is_approval (proposed_operations p)"
    and r: "push_proposal (apply_operation (Suc n) S E skip True) k p c = Inr c'"
  shows "advances c c' \<and> lapsed c' k = None \<and>
    (pending c' = pending c \<or> (\<exists>fee q. Update_parameters fee q \<in> set (proposed_operations p) \<and> pending c' = Some q))"
proof -
  from r obtain c1 t where f: "fold_res (apply_operation (Suc n) S E skip True) (proposed_operations p) c = Inr c1"
    and t: "idx_remove (proposals c1) k = Inr t" and c': "c' = c1\<lparr>proposals := t\<rparr>"
    by (auto simp: push_proposal_def res_simps split: option.splits)
  have 1: "advances c c1 \<and>
    (pending c1 = pending c \<or> (\<exists>fee q. Update_parameters fee q \<in> set (proposed_operations p) \<and> pending c1 = Some q))"
  proof (rule fold_res_invariant [OF f])
    fix op s s' assume op: "op \<in> set (proposed_operations p)" and a: "apply_operation (Suc n) S E skip True op s = Inr s'"
      and s: "advances c s \<and> (pending s = pending c \<or> (\<exists>fee q. Update_parameters fee q \<in> set (proposed_operations p) \<and> pending s = Some q))"
    have "\<not> is_approval op" using n op by (auto simp: list_ex_iff)
    from other_operation_step [OF _ i this a] s op advances_trans [of c s s']
    show "advances c s' \<and> (pending s' = pending c \<or> (\<exists>fee q. Update_parameters fee q \<in> set (proposed_operations p) \<and> pending s' = Some q))"
      by (auto simp: advances_def)
  qed (use ok advances_refl in simp)
  then have "proposals_ok c1" by (simp add: advances_def)
  from remove_advances [OF this t, of c'] c' 1 advances_trans [of c c1 c']
  show ?thesis by (auto simp: chain_time_def pending_def)
qed

lemma catching_Inr: "catching r c = Inr c' \<Longrightarrow> r = Inr c' \<or> c' = c"
  by (auto simp: catching_def split: sum.splits if_splits)

lemma approval_step:
  assumes ok: "proposals_ok c" and i: "interpreters_respect policy E"
    and a: "proposal_update_do_apply (apply_operation (Suc n) S E skip True) op c = Inr c'"
  shows "proposals_ok c' \<and> policy (chain_db c') = policy (chain_db c)"
proof -
  from a obtain t p where u: "idx_update no_clash (proposals c) (pup_proposal op) (\<lambda>p. Inr (update_approvals op p)) = Inr t"
    and p: "idx_find t (pup_proposal op) = Some p"
    and r: "c' = c\<lparr>proposals := t\<rparr> \<or> review_period_time p = None \<and>
      push_proposal (apply_operation (Suc n) S E skip True) (pup_proposal op) p (c\<lparr>proposals := t\<rparr>) = Inr c'"
    by (auto simp: proposal_update_do_apply_def Let_def idx_get_def res_simps split: if_splits dest: catching_Inr)
  have ok1: "proposals_ok (c\<lparr>proposals := t\<rparr>)" by (rule approve_ok [OF ok u]) simp
  with p have n: "\<not> list_ex is_approval (proposed_operations p)" and rv: "reviewed p" by (auto simp: proposals_ok_def)
  from r show ?thesis
  proof
    assume "review_period_time p = None \<and> push_proposal (apply_operation (Suc n) S E skip True) (pup_proposal op) p (c\<lparr>proposals := t\<rparr>) = Inr c'"
    moreover from this rv have "Update_parameters fee q \<notin> set (proposed_operations p)" for fee q
      by (auto simp: reviewed_def list_ex_iff is_parameter_update_iff)
    ultimately have "advances (c\<lparr>proposals := t\<rparr>) c' \<and> pending c' = pending (c\<lparr>proposals := t\<rparr>)"
      using execution_step [OF ok1 i n] by blast
    then show ?thesis using policy_eq [of c' "c\<lparr>proposals := t\<rparr>"] by (simp add: advances_def)
  qed (use ok1 in simp)
qed

lemma operation_keeps_policy:
  assumes ok: "proposals_ok c" and i: "interpreters_respect policy E"
    and a: "apply_operation push_depth S E skip False op c = Inr c'"
  shows "proposals_ok c' \<and> policy (chain_db c') = policy (chain_db c)"
proof (cases "is_approval op")
  case True
  then obtain o' where op: "op = Proposal_update o'" by (auto simp: is_approval_iff)
  have "evaluate_chain S E op (proposal_update_do_evaluate o') (proposal_update_do_apply (apply_operation (Suc 0) S E skip True) o') c = Inr c'"
    using a unfolding push_depth_def numeral_2_eq_2 op apply_operation.simps operation.case .
  from evaluate_chain_Inr [OF this] obtain d d2 c3 where e: "policy d2 = policy (chain_db c)" "policy d = policy (chain_db c3)" "c' = c3\<lparr>chain_db := d\<rparr>"
    "proposal_update_do_apply (apply_operation (Suc 0) S E skip True) o' (c\<lparr>chain_db := d2\<rparr>) = Inr c3" by blast
  have "proposals_ok (c\<lparr>chain_db := d2\<rparr>)" using ok proposals_ok_frame [of "c\<lparr>chain_db := d2\<rparr>" c] by simp
  from approval_step [OF this i e(4)] e(1,2) have "proposals_ok c3" "policy d = policy (chain_db c)" by simp_all
  then show ?thesis using proposals_ok_frame [of c' c3] by (simp add: e(3))
next
  case False
  from other_operation_step [OF ok i this a [unfolded push_depth_def numeral_2_eq_2]] policy_eq [of c' c]
  show ?thesis by (simp add: advances_def)
qed

text \<open>
  C9: The parameters of the chain cannot be changed by a transaction. Applying an operation a transaction carries,
  approvals that execute a proposal included, changes neither the clock nor the parameters nor the parameters that wait for the next
  maintenance, and keeps every stored proposal free of approvals and every proposal that changes the parameters
  under review.
\<close>

theorem parameters_need_review:
  assumes ok: "proposals_ok c" and i: "interpreters_respect policy E"
    and a: "apply_operation push_depth S E skip False op c = Inr c'"
  shows "proposals_ok c' \<and> policy (chain_db c') = policy (chain_db c)"
  by (rule operation_keeps_policy [OF ok i a])

section \<open>Expiry\<close>

lemma finite_lapsed: "finite (dom (lapsed c))"
  by (rule finite_subset [of _ "dom (idx_find (proposals c))"])
    (auto simp: lapsed_def idx_find_eq finite_dom_map_of split: option.splits)

lemma next_expired_Some:
  assumes "proposals_ok c" "next_expired c = Some (i, p)"
  shows "idx_find (proposals c) i = Some p" "lapsed c i = Some p"
proof -
  from assms(2) have "(i, p) \<in> set (rows (proposals c))" and t: "prop_expiration p \<le> head_block_time (chain_db c)"
    by (auto simp: next_expired_def split: list.splits if_splits)
      (metis (no_types, lifting) list.set_intros(1) set_sort)
  with assms(1) show "idx_find (proposals c) i = Some p"
    by (simp add: proposals_ok_def wf_index_def idx_find_eq sorted_imp_distinct_rows)
  with t show "lapsed c i = Some p" by (simp add: lapsed_def)
qed

lemma next_expired_None:
  assumes "next_expired c = None"
  shows "expired_proposals c = []" "lapsed c = Map.empty"
proof -
  have "prop_expiration (snd r) > head_block_time (chain_db c)" if r: "r \<in> set (rows (proposals c))" for r
  proof (cases "sort_key (\<lambda>r. prop_expiration (snd r)) (rows (proposals c))")
    case Nil
    then have "set (rows (proposals c)) = {}" by (metis list.set(1) set_sort)
    with r show ?thesis by simp
  next
    case (Cons h rest)
    then have "sorted (map (\<lambda>r. prop_expiration (snd r)) (h # rest))" by (metis sorted_sort_key)
    then have "\<forall>x \<in> set (h # rest). prop_expiration (snd h) \<le> prop_expiration (snd x)" by auto
    moreover have "set (h # rest) = set (rows (proposals c))" using Cons by (metis set_sort)
    moreover from assms Cons have "prop_expiration (snd h) > head_block_time (chain_db c)"
      by (simp add: next_expired_def split: if_splits)
    ultimately show ?thesis using r by fastforce
  qed
  then show "expired_proposals c = []" "lapsed c = Map.empty"
    by (auto simp: expired_proposals_def lapsed_def filter_empty_conv idx_find_eq fun_eq_iff not_le split: option.splits dest!: map_of_SomeD) force+
qed

lemma expire_step:
  assumes ok: "proposals_ok c" and i: "interpreters_respect policy E" and r: "next_expired c = Some (k, p)"
  shows "case expire_proposal S E skip (k, p) c of
      Inl e \<Rightarrow> e = undefined_behaviour \<or> e = out_of_fuel
    | Inr c' \<Rightarrow> advances c c' \<and> lapsed c' k = None \<and>
        (pending c' = pending c \<or> is_authorized_to_execute p (chain_db c) \<and>
          (\<exists>fee q. Update_parameters fee q \<in> set (proposed_operations p) \<and> pending c' = Some q))"
proof -
  note p = next_expired_Some [OF ok r]
  have n: "\<not> list_ex is_approval (proposed_operations p)" using ok p(1) by (auto simp: proposals_ok_def)
  obtain t where t: "idx_remove (proposals c) k = Inr t" using p(1) by (simp add: idx_remove_def)
  have rm: "advances c (c\<lparr>proposals := t\<rparr>) \<and> lapsed (c\<lparr>proposals := t\<rparr>) k = None \<and> pending (c\<lparr>proposals := t\<rparr>) = pending c"
    using remove_advances [OF ok t] by (simp add: chain_time_def pending_def)
  note ex = execution_step [OF ok i n, of 1 S skip k]
  show ?thesis
    using rm ex unfolding expire_proposal_def push_depth_def
    by (auto simp: t Let_def numeral_2_eq_2 split: sum.splits)
qed

lemma advances_fewer:
  assumes "advances c c'" "lapsed c k = Some p" "lapsed c' k = None"
  shows "card (dom (lapsed c')) < card (dom (lapsed c))"
proof (rule psubset_card_mono [OF finite_lapsed])
  have "dom (lapsed c') \<subseteq> dom (lapsed c)" using assms(1) by (auto simp: advances_def dest: map_le_implies_dom_le)
  moreover have "k \<in> dom (lapsed c)" "k \<notin> dom (lapsed c')" using assms(2,3) by auto
  ultimately show "dom (lapsed c') \<subset> dom (lapsed c)" by blast
qed

lemma expire_loop_ends:
  assumes "proposals_ok c" "interpreters_respect policy E" "card (dom (lapsed c)) < fuel"
  shows "expire_loop (fuel + k) S E skip c = expire_loop fuel S E skip c \<and>
   (case expire_loop fuel S E skip c of
      Inl e \<Rightarrow> e = undefined_behaviour \<or> e = out_of_fuel
    | Inr c' \<Rightarrow> advances c c' \<and> expired_proposals c' = [] \<and>
        (pending c' = pending c \<or> (\<exists>i p fee q. lapsed c i = Some p \<and> Update_parameters fee q \<in> set (proposed_operations p) \<and> pending c' = Some q)))"
  using assms
proof (induction fuel arbitrary: c)
  case (Suc fuel)
  show ?case
  proof (cases "next_expired c")
    case None
    with next_expired_None(1) [OF this] advances_refl [OF Suc.prems(1)] show ?thesis by simp
  next
    case (Some r)
    obtain j p where r: "r = (j, p)" by (cases r)
    with Some have nx: "next_expired c = Some (j, p)" by simp
    note st = expire_step [OF Suc.prems(1,2) nx, of S skip]
    show ?thesis
    proof (cases "expire_proposal S E skip (j, p) c")
      case (Inl e)
      with st nx show ?thesis by simp
    next
      case (Inr c1)
      with st have a: "advances c c1" "lapsed c1 j = None"
        and pd: "pending c1 = pending c \<or> (\<exists>fee q. Update_parameters fee q \<in> set (proposed_operations p) \<and> pending c1 = Some q)" by auto
      from advances_fewer [OF a(1) next_expired_Some(2) [OF Suc.prems(1) nx] a(2)] Suc.prems(3) have "card (dom (lapsed c1)) < fuel" by simp
      note IH = Suc.IH [OF _ Suc.prems(2) this]
      have up: "lapsed c i = Some q" if "lapsed c1 i = Some q" for i q
        using a(1) that by (auto simp: advances_def map_le_def dom_def)
      from a(1) have "proposals_ok c1" by (simp add: advances_def)
      from IH [OF this] nx Inr a(1) pd up next_expired_Some(2) [OF Suc.prems(1) nx] show ?thesis
        by (auto split: sum.splits intro: advances_trans) metis+
    qed
  qed
qed simp

lemma card_lapsed:
  assumes "proposals_ok c"
  shows "card (dom (lapsed c)) = length (expired_proposals c)"
proof -
  have d: "distinct (map fst (rows (proposals c)))" using assms by (simp add: proposals_ok_def wf_index_def sorted_imp_distinct_rows)
  then have m: "(i, p) \<in> set (rows (proposals c)) \<longleftrightarrow> idx_find (proposals c) i = Some p" for i p by (simp add: idx_find_eq)
  have "dom (lapsed c) = fst ` set (expired_proposals c)"
  proof (rule set_eqI)
    fix i show "i \<in> dom (lapsed c) \<longleftrightarrow> i \<in> fst ` set (expired_proposals c)"
      by (auto simp: lapsed_def expired_proposals_def image_iff m Bex_def split: option.splits if_splits)
  qed
  moreover have "distinct (map fst (expired_proposals c))" unfolding expired_proposals_def using d by (simp add: distinct_map_filter)
  ultimately show ?thesis by (metis distinct_card length_map list.set_map)
qed

text \<open>
  A round of the loop that succeeds. The loop is a sequence of them, so how it can stop is said of the rounds themselves and not of the fuel.
\<close>

inductive expiry_round :: "safe \<Rightarrow> op_env \<Rightarrow> 32 word \<Rightarrow> chain \<Rightarrow> chain \<Rightarrow> bool" for S E skip where
  "next_expired c = Some r \<Longrightarrow> expire_proposal S E skip r c = Inr c' \<Longrightarrow> expiry_round S E skip c c'"

inductive_cases expiry_roundE: "expiry_round S E skip c c'"

lemma expiry_round_fewer:
  assumes ok: "proposals_ok c" and i: "interpreters_respect policy E" and r: "expiry_round S E skip c c'"
  shows "proposals_ok c' \<and> length (expired_proposals c') < length (expired_proposals c)"
proof -
  from r obtain k p where k: "next_expired c = Some (k, p)" "expire_proposal S E skip (k, p) c = Inr c'"
    by (elim expiry_roundE) (metis surj_pair)
  with expire_step [OF ok i k(1), of S skip] have a: "advances c c'" "lapsed c' k = None" by simp_all
  then have "proposals_ok c'" by (simp add: advances_def)
  with advances_fewer [OF a(1) next_expired_Some(2) [OF ok k(1)] a(2)] card_lapsed [OF ok] show ?thesis
    by (simp add: card_lapsed)
qed

lemma expiry_rounds_ok:
  "(expiry_round S E skip)\<^sup>*\<^sup>* c c' \<Longrightarrow> proposals_ok c \<Longrightarrow> interpreters_respect policy E \<Longrightarrow> proposals_ok c'"
  by (induction rule: rtranclp_induct) (use expiry_round_fewer in blast)+

lemma expire_proposal_fails:
  assumes "proposals_ok c" "next_expired c = Some (k, p)" "expire_proposal S E skip (k, p) c = Inl e"
  shows "is_authorized_to_execute p (chain_db c) \<and> push_proposal (apply_operation push_depth S E skip True) k p c = Inl e \<and>
    (e = undefined_behaviour \<or> e = out_of_fuel)"
proof -
  obtain t where "idx_remove (proposals c) k = Inr t" using next_expired_Some(1) [OF assms(1,2)] by (simp add: idx_remove_def)
  with assms(3) show ?thesis by (auto simp: expire_proposal_def Let_def split: sum.splits if_splits)
qed

lemma expire_loop_rounds:
  assumes "proposals_ok c" "interpreters_respect policy E" "length (expired_proposals c) < fuel"
  shows "\<exists>c1. (expiry_round S E skip)\<^sup>*\<^sup>* c c1 \<and>
    (case expire_loop fuel S E skip c of
       Inr c' \<Rightarrow> c' = c1
     | Inl e \<Rightarrow> \<exists>k p. next_expired c1 = Some (k, p) \<and> expire_proposal S E skip (k, p) c1 = Inl e)"
  using assms
proof (induction fuel arbitrary: c)
  case (Suc fuel)
  show ?case
  proof (cases "next_expired c")
    case None
    then show ?thesis by (intro exI [of _ c]) simp
  next
    case (Some r)
    obtain k p where r: "r = (k, p)" by (cases r)
    show ?thesis
    proof (cases "expire_proposal S E skip r c")
      case (Inl e)
      then show ?thesis using Some r by (intro exI [of _ c]) auto
    next
      case (Inr c2)
      have step: "expiry_round S E skip c c2" by (rule expiry_round.intros [OF Some Inr])
      from expiry_round_fewer [OF Suc.prems(1,2) step] Suc.prems(3)
      have "proposals_ok c2" "length (expired_proposals c2) < fuel" by simp_all
      from Suc.IH [OF this(1) Suc.prems(2) this(2)] obtain c1 where "(expiry_round S E skip)\<^sup>*\<^sup>* c2 c1"
        and l: "case expire_loop fuel S E skip c2 of Inr c' \<Rightarrow> c' = c1
          | Inl e \<Rightarrow> \<exists>k p. next_expired c1 = Some (k, p) \<and> expire_proposal S E skip (k, p) c1 = Inl e" by blast
      with step have "(expiry_round S E skip)\<^sup>*\<^sup>* c c1" by (simp add: converse_rtranclp_into_rtranclp)
      with l Some Inr show ?thesis by (intro exI [of _ c1]) simp
    qed
  qed
qed simp

lemma expired_update_reviewed:
  assumes ok: "proposals_ok c" and l: "lapsed c j = Some p" and u: "Update_parameters fee q \<in> set (proposed_operations p)"
  shows "idx_find (proposals c) j = Some p \<and> prop_expiration p \<le> head_block_time (chain_db c) \<and> review_period_time p \<noteq> None"
proof -
  from l have f: "idx_find (proposals c) j = Some p" "prop_expiration p \<le> head_block_time (chain_db c)"
    by (auto simp: lapsed_def split: option.splits if_splits)
  from ok f(1) have "reviewed p" by (auto simp: proposals_ok_def)
  with u f show ?thesis by (auto simp: reviewed_def list_ex_iff is_parameter_update_iff)
qed

lemma expiry_outcome:
  assumes ok: "proposals_ok c" and i: "interpreters_respect policy E" and r: "clear_expired_proposals S E skip c = Inr c'"
  shows "proposals_ok c' \<and> expired_proposals c' = [] \<and> chain_time c' = chain_time c \<and>
    (pending c' = pending c \<or>
     (\<exists>i p fee q. idx_find (proposals c) i = Some p \<and> prop_expiration p \<le> head_block_time (chain_db c) \<and> review_period_time p \<noteq> None \<and>
        Update_parameters fee q \<in> set (proposed_operations p) \<and> pending c' = Some q))"
proof -
  have "card (dom (lapsed c)) < Suc (length (expired_proposals c))" using card_lapsed [OF ok] by simp
  from expire_loop_ends [OF ok i this, of 0 S skip, folded clear_expired_proposals_def] r
  have a: "advances c c'" "expired_proposals c' = []"
    and q: "pending c' = pending c \<or> (\<exists>i p fee q. lapsed c i = Some p \<and> Update_parameters fee q \<in> set (proposed_operations p) \<and> pending c' = Some q)"
    by simp_all
  from q have "pending c' = pending c \<or> (\<exists>i p fee q. idx_find (proposals c) i = Some p \<and> prop_expiration p \<le> head_block_time (chain_db c) \<and>
    review_period_time p \<noteq> None \<and> Update_parameters fee q \<in> set (proposed_operations p) \<and> pending c' = Some q)"
    using expired_update_reviewed [OF ok] by blast
  with a show ?thesis by (simp add: advances_def)
qed

text \<open>
  C22: Clearing expired proposals ends and is thorough. Every round that succeeds leaves fewer expired proposals, so the loop does at
  most as many rounds as there are expired proposals and more fuel gives the same result. It stops early only if it reaches
  an authorised proposal whose own execution has undefined behaviour or does not return; an exception of a proposed operation
  does not stop it. When it is done no stored proposal is expired, the clock and the parameters are as before, and parameters are
  scheduled for the next maintenance only if an expired proposal with a review period held that change.
\<close>

theorem expiry_ends:
  assumes ok: "proposals_ok c" and i: "interpreters_respect policy E"
  shows "(\<forall>c1 c2. (expiry_round S E skip)\<^sup>*\<^sup>* c c1 \<and> expiry_round S E skip c1 c2 \<longrightarrow>
      length (expired_proposals c2) < length (expired_proposals c1)) \<and>
    expire_loop (Suc (length (expired_proposals c)) + k) S E skip c = clear_expired_proposals S E skip c \<and>
    (case clear_expired_proposals S E skip c of
       Inl e \<Rightarrow> (e = undefined_behaviour \<or> e = out_of_fuel) \<and>
         (\<exists>c1 j p. (expiry_round S E skip)\<^sup>*\<^sup>* c c1 \<and> next_expired c1 = Some (j, p) \<and> is_authorized_to_execute p (chain_db c1) \<and>
            push_proposal (apply_operation push_depth S E skip True) j p c1 = Inl e)
     | Inr c' \<Rightarrow> (expiry_round S E skip)\<^sup>*\<^sup>* c c' \<and> proposals_ok c' \<and> expired_proposals c' = [] \<and> chain_time c' = chain_time c \<and>
         (pending c' = pending c \<or>
          (\<exists>i p fee q. idx_find (proposals c) i = Some p \<and> prop_expiration p \<le> head_block_time (chain_db c) \<and> review_period_time p \<noteq> None \<and>
             Update_parameters fee q \<in> set (proposed_operations p) \<and> pending c' = Some q)))"
proof (intro conjI)
  show "\<forall>c1 c2. (expiry_round S E skip)\<^sup>*\<^sup>* c c1 \<and> expiry_round S E skip c1 c2 \<longrightarrow>
      length (expired_proposals c2) < length (expired_proposals c1)"
    using expiry_rounds_ok [OF _ ok i] expiry_round_fewer [OF _ i] by blast
  have "card (dom (lapsed c)) < Suc (length (expired_proposals c))" using card_lapsed [OF ok] by simp
  from expire_loop_ends [OF ok i this, of k S skip, folded clear_expired_proposals_def]
  show "expire_loop (Suc (length (expired_proposals c)) + k) S E skip c = clear_expired_proposals S E skip c" by (rule conjunct1)
next
  from expire_loop_rounds [OF ok i lessI, of S skip, folded clear_expired_proposals_def] obtain c1
    where rd: "(expiry_round S E skip)\<^sup>*\<^sup>* c c1"
      and l: "case clear_expired_proposals S E skip c of Inr c' \<Rightarrow> c' = c1
        | Inl e \<Rightarrow> \<exists>k p. next_expired c1 = Some (k, p) \<and> expire_proposal S E skip (k, p) c1 = Inl e" by blast
  note f = expire_proposal_fails [OF expiry_rounds_ok [OF rd ok i], of _ _ S E skip]
  show "case clear_expired_proposals S E skip c of
       Inl e \<Rightarrow> (e = undefined_behaviour \<or> e = out_of_fuel) \<and>
         (\<exists>c1 j p. (expiry_round S E skip)\<^sup>*\<^sup>* c c1 \<and> next_expired c1 = Some (j, p) \<and> is_authorized_to_execute p (chain_db c1) \<and>
            push_proposal (apply_operation push_depth S E skip True) j p c1 = Inl e)
     | Inr c' \<Rightarrow> (expiry_round S E skip)\<^sup>*\<^sup>* c c' \<and> proposals_ok c' \<and> expired_proposals c' = [] \<and> chain_time c' = chain_time c \<and>
         (pending c' = pending c \<or>
          (\<exists>i p fee q. idx_find (proposals c) i = Some p \<and> prop_expiration p \<le> head_block_time (chain_db c) \<and> review_period_time p \<noteq> None \<and>
             Update_parameters fee q \<in> set (proposed_operations p) \<and> pending c' = Some q))"
  proof (cases "clear_expired_proposals S E skip c")
    case (Inl e)
    with l f rd show ?thesis by simp blast
  next
    case (Inr c')
    with l rd expiry_outcome [OF ok i Inr] show ?thesis by simp
  qed
qed

section \<open>No proposal ever holds an approval\<close>

text \<open>
  How proposals come and go: an operation of a transaction is applied, however deep the recursion through approvals may go, expired
  proposals are cleared, or the node does something else that leaves the proposals alone, such as beginning or finishing a block.
\<close>

inductive proposal_step :: "chain \<Rightarrow> chain \<Rightarrow> bool" where
  applied: "interpreters_respect policy E \<Longrightarrow> apply_operation (Suc (Suc n)) S E skip False op c = Inr c' \<Longrightarrow> proposal_step c c'"
| expired: "interpreters_respect policy E \<Longrightarrow> expire_loop n S E skip c = Inr c' \<Longrightarrow> proposal_step c c'"
| unrelated: "proposals c' = proposals c \<Longrightarrow> proposal_step c c'"

lemma expire_loop_ok:
  "expire_loop n S E skip c = Inr c' \<Longrightarrow> proposals_ok c \<Longrightarrow> interpreters_respect policy E \<Longrightarrow> proposals_ok c'"
proof (induction n arbitrary: c)
  case (Suc n)
  show ?case
  proof (cases "next_expired c")
    case (Some r)
    with Suc.prems(1) obtain c2 where "expire_proposal S E skip r c = Inr c2" and l: "expire_loop n S E skip c2 = Inr c'"
      by (auto simp: res_simps)
    then have "proposals_ok c2" using expiry_round_fewer [OF Suc.prems(2,3)] expiry_round.intros [OF Some] by blast
    from Suc.IH [OF l this Suc.prems(3)] show ?thesis .
  qed (use Suc.prems in simp)
qed simp

lemma proposal_step_ok: "proposal_step c c' \<Longrightarrow> proposals_ok c \<Longrightarrow> proposals_ok c'"
proof (induction rule: proposal_step.induct)
  case (applied E n S skip op c c')
  then have "apply_operation push_depth S E skip False op c = Inr c'" using depth_irrelevant [of c] by metis
  with operation_keeps_policy applied show ?case by blast
next
  case (expired E n S skip c c')
  then show ?case by (blast intro: expire_loop_ok)
next
  case (unrelated c' c)
  then show ?case by (simp add: proposals_ok_def)
qed

lemma proposal_steps_ok: "proposal_step\<^sup>*\<^sup>* c c' \<Longrightarrow> proposals_ok c \<Longrightarrow> proposals_ok c'"
  by (induction rule: rtranclp_induct) (auto dest: proposal_step_ok)

lemma no_proposals_ok: "proposals c = empty_index \<Longrightarrow> proposals_ok c"
  by (simp add: proposals_ok_def empty_index_def wf_index_def idx_find_def)

text \<open>
  C24: No proposal ever holds an approval. From a chain without proposals, whatever operations transactions apply, whichever proposals
  they execute or let expire and whatever else happens to the objects, no stored proposal contains a \<open>proposal_update\<close>: an
  approval needs explicit authorities and the creation of a proposal refuses operations that need any. So
  executions nest at most once: however deep the recursion of \<open>apply_operation\<close> through approvals may go, the
  result is that of two levels.
\<close>

theorem no_proposal_holds_approval:
  assumes "proposals c0 = empty_index" "proposal_step\<^sup>*\<^sup>* c0 c"
  shows "(\<forall>i p a. idx_find (proposals c) i = Some p \<longrightarrow> Proposal_update a \<notin> set (proposed_operations p)) \<and>
    (\<forall>proto o' ops a. Proposal_update a \<in> set ops \<longrightarrow> \<not> succeeds (proposal_create_do_evaluate proto o' ops c)) \<and>
    (\<forall>n S E skip proposed op. apply_operation (Suc (Suc n)) S E skip proposed op c = apply_operation 2 S E skip proposed op c)"
proof (intro conjI allI impI)
  have ok: "proposals_ok c" by (rule proposal_steps_ok [OF assms(2) no_proposals_ok [OF assms(1)]])
  show "Proposal_update a \<notin> set (proposed_operations p)" if "idx_find (proposals c) i = Some p" for i p a
  proof -
    from ok that have "\<not> list_ex is_approval (proposed_operations p)" by (auto simp: proposals_ok_def)
    then show ?thesis by (auto simp: list_ex_iff is_approval_iff)
  qed
  show "apply_operation (Suc (Suc n)) S E skip proposed op c = apply_operation 2 S E skip proposed op c" for n S E skip proposed op
    using depth_irrelevant [OF ok] by (simp add: push_depth_def)
  show "\<not> succeeds (proposal_create_do_evaluate proto o' ops c)" if "Proposal_update a \<in> set ops" for proto o' ops a
  proof
    assume "succeeds (proposal_create_do_evaluate proto o' ops c)"
    then have "proposal_create_do_evaluate proto o' ops c = Inr ()" by (auto simp: succeeds_iff)
    from created_proposal_ok(1) [OF this] that show False by (auto simp: list_ex_iff is_approval_iff)
  qed
qed

section \<open>Examples\<close>

definition governed_parameters :: chain_parameters where
  "governed_parameters = empty_parameters\<lparr>current_fees := \<lparr>fee_table = map (\<lambda>i. (i, fee_of 0 0)) [0..<47], fee_scale = 10000\<rparr>,
     maximum_proposal_lifetime := 2419200, miner_proposal_review_period := 1209600\<rparr>"

definition governed_db :: database where
  "governed_db = chain_example\<lparr>
     accounts := \<lparr>next_id = 9, rows = [(0, account_example), (4, account_example), (5, account_example\<lparr>acc_name := ''bob''\<rparr>)]\<rparr>,
     gpo := (gpo chain_example)\<lparr>parameters := governed_parameters\<rparr>\<rparr>"

definition proposal_of :: "operation list \<Rightarrow> int \<Rightarrow> int option \<Rightarrow> nat list \<Rightarrow> nat list \<Rightarrow> proposal_object" where
  "proposal_of ops e r required available =
     \<lparr>prop_expiration = e, review_period_time = r, proposed_operations = ops,
      prop_approvals = \<lparr>required_active_approvals = required, available_active_approvals = available,
        required_owner_approvals = [], available_owner_approvals = [], available_key_approvals = []\<rparr>\<rparr>"

definition transfer_proposed :: chain where
  "transfer_proposed = \<lparr>chain_db = governed_db, proposals = \<lparr>next_id = 1, rows = [(0, proposal_of
     [Transfer \<lparr>tr_fee = mk_asset 0 0, tr_from = 4, tr_to = 5, tr_amount = mk_asset 10 0\<rparr>] 2000 None [4] [])]\<rparr>\<rparr>"

definition parameters_proposed :: chain where
  "parameters_proposed = \<lparr>chain_db = governed_db, proposals = \<lparr>next_id = 1, rows = [(0, proposal_of
     [Update_parameters (mk_asset 0 0) (governed_parameters\<lparr>maximum_block_size := 9\<rparr>)] 900 (Some 800) [0] [0])]\<rparr>\<rparr>"

definition approval :: "nat \<Rightarrow> nat \<Rightarrow> operation" where
  "approval i x = Proposal_update \<lparr>pup_fee = mk_asset 0 0, pup_payer = x, pup_proposal = i, active_approvals_to_add = [x], active_approvals_to_remove = [],
     owner_approvals_to_add = [], owner_approvals_to_remove = [], key_approvals_to_add = [], key_approvals_to_remove = []\<rparr>"

lemma examples_ok: "proposals_ok transfer_proposed" "proposals_ok parameters_proposed" "interpreters_respect policy op_env_example"
  by (auto simp: proposals_ok_def transfer_proposed_def parameters_proposed_def proposal_of_def wf_index_def idx_find_def reviewed_def
      is_approval_def is_parameter_update_def interpreters_respect_def op_env_example_def split: if_splits)

theorem parameters_need_review_witness:
  "\<exists>c'. apply_operation push_depth safe_int64 op_env_example 0 False (approval 0 4) transfer_proposed = Inr c' \<and>
     amount (get_balance 5 0 (chain_db c')) = 10 \<and> proposals_ok c' \<and> policy (chain_db c') = policy governed_db"
proof -
  have "(case apply_operation push_depth safe_int64 op_env_example 0 False (approval 0 4) transfer_proposed of
     Inl _ \<Rightarrow> None | Inr c \<Rightarrow> Some (amount (get_balance 5 0 (chain_db c)))) = Some 10" by code_simp
  then obtain c' where c: "apply_operation push_depth safe_int64 op_env_example 0 False (approval 0 4) transfer_proposed = Inr c'"
    "amount (get_balance 5 0 (chain_db c')) = 10" by (auto split: sum.splits)
  from parameters_need_review [OF examples_ok(1,3) c(1)] c show ?thesis by (simp add: transfer_proposed_def)
qed

definition proposing :: operation where
  "proposing = Proposal_create \<lparr>pcr_fee = mk_asset 0 0, pcr_payer = 4, pcr_expiration = 2000, pcr_review = None\<rparr>
     [Transfer \<lparr>tr_fee = mk_asset 0 0, tr_from = 4, tr_to = 5, tr_amount = mk_asset 10 0\<rparr>]"

theorem no_proposal_holds_approval_witness:
  "\<exists>c p. apply_operation 2 safe_int64 op_env_example 0 False proposing \<lparr>chain_db = governed_db, proposals = empty_index\<rparr> = Inr c \<and>
     idx_find (proposals c) 0 = Some p \<and> proposed_operations p \<noteq> [] \<and> (\<forall>a. Proposal_update a \<notin> set (proposed_operations p)) \<and>
     apply_operation 7 safe_int64 op_env_example 0 False (approval 0 4) c = apply_operation 2 safe_int64 op_env_example 0 False (approval 0 4) c"
proof -
  let ?c = "\<lparr>chain_db = governed_db, proposals = empty_index\<rparr>"
  have "(case apply_operation 2 safe_int64 op_env_example 0 False proposing ?c of
     Inl _ \<Rightarrow> None | Inr c \<Rightarrow> map_option (\<lambda>p. proposed_operations p = []) (idx_find (proposals c) 0)) = Some False" by code_simp
  then obtain c p where c: "apply_operation 2 safe_int64 op_env_example 0 False proposing ?c = Inr c"
    "idx_find (proposals c) 0 = Some p" "proposed_operations p \<noteq> []" by (auto split: sum.splits)
  from proposal_step.applied [OF examples_ok(3) c(1) [unfolded numeral_2_eq_2]] have "proposal_step\<^sup>*\<^sup>* ?c c" by simp
  note t = no_proposal_holds_approval [OF _ this, simplified chain.simps, OF refl]
  from t have "\<forall>a. Proposal_update a \<notin> set (proposed_operations p)" using c(2) by blast
  moreover from t have "apply_operation (Suc (Suc 5)) safe_int64 op_env_example 0 False (approval 0 4) c =
    apply_operation 2 safe_int64 op_env_example 0 False (approval 0 4) c" by blast
  ultimately show ?thesis using c by (auto simp: numeral_eq_Suc)
qed

theorem expiry_ends_witness:
  "\<exists>c'. clear_expired_proposals safe_int64 op_env_example 0 parameters_proposed = Inr c' \<and> expired_proposals c' = [] \<and>
     pending c' = Some (governed_parameters\<lparr>maximum_block_size := 9\<rparr>)"
proof -
  have "case clear_expired_proposals safe_int64 op_env_example 0 parameters_proposed of Inl _ \<Rightarrow> False | Inr c \<Rightarrow> pending c \<noteq> None" by code_simp
  then obtain c' where c: "clear_expired_proposals safe_int64 op_env_example 0 parameters_proposed = Inr c'" "pending c' \<noteq> None"
    by (auto split: sum.splits)
  have "pending parameters_proposed = None"
    by (simp add: pending_def parameters_proposed_def governed_db_def chain_example_def empty_db_def)
  with expiry_ends [OF examples_ok(2,3), of safe_int64 0 0, THEN conjunct2, THEN conjunct2] c show ?thesis
    by (auto simp: parameters_proposed_def idx_find_def proposal_of_def split: if_splits)
qed

section \<open>Where the rules fail\<close>

definition locking_parameters :: chain_parameters where
  "locking_parameters = governed_parameters\<lparr>block_interval := 5, maintenance_interval := 86400, maximum_transaction_size := 98304,
     maximum_block_size := 2097152, maximum_time_until_expiration := 86400, maximum_proposal_lifetime := 600, miner_proposal_review_period := 1209600\<rparr>"

text \<open>
  The parameters can lock themselves. The check of new parameters subtracts the review period from the lifetime of proposals
  in unsigned arithmetic, so it accepts a review period longer than the lifetime; under such parameters no proposal that changes
  the parameters can be created any more, whatever its expiration and review period.
\<close>

theorem governance_can_lock:
  "chain_parameters_validate locking_parameters = Inr () \<and>
   (\<forall>c proto op ops fee q.
      parameters (gpo (chain_db c)) = locking_parameters \<and> 0 \<le> head_block_time (chain_db c) \<and> Update_parameters fee q \<in> set ops \<longrightarrow>
      \<not> succeeds (proposal_create_do_evaluate proto op ops c))"
proof (intro conjI allI impI notI)
  show "chain_parameters_validate locking_parameters = Inr ()" by code_simp
next
  fix c proto op ops fee q
  assume h: "parameters (gpo (chain_db c)) = locking_parameters \<and> 0 \<le> head_block_time (chain_db c) \<and> Update_parameters fee q \<in> set ops"
    and "succeeds (proposal_create_do_evaluate proto op ops c)"
  then have e: "proposal_create_do_evaluate proto op ops c = Inr ()" by (auto simp: succeeds_iff)
  let ?t = "head_block_time (chain_db c)"
  have "list_ex is_parameter_update ops" using h by (auto simp: list_ex_iff is_parameter_update_iff)
  with created_proposal_ok(2) [OF e] obtain r where r: "pcr_review op = Some r"
    by (auto simp: reviewed_def new_proposal_def Let_def)
  have "fee_payer (Update_parameters fee q) = GRAPHENE_MINER_ACCOUNT" by (simp add: GRAPHENE_MINER_ACCOUNT_def)
  with h have m: "GRAPHENE_MINER_ACCOUNT \<in> set (required_active (fold operation_get_required_authorities ops no_requirements))"
    unfolding required_active_fold by (metis UN_I UnI2 insertI1)
  from e r m have "r \<ge> miner_proposal_review_period (parameters (gpo (chain_db c)))"
    "pcr_expiration op \<le> u32 (?t + maximum_proposal_lifetime (parameters (gpo (chain_db c))))" "r < pcr_expiration op - ?t"
    by (auto simp: proposal_create_do_evaluate_def Let_def res_simps split: if_splits)
  with h have "1209600 \<le> r" "pcr_expiration op \<le> u32 (?t + 600)" "r < pcr_expiration op - ?t" by (simp_all add: locking_parameters_def)
  moreover have "u32 (?t + 600) \<le> ?t + 600" using h by (simp add: u32_def zmod_le_nonneg_dividend)
  ultimately show False by simp
qed

theorem governance_can_lock_witness:
  "\<not> succeeds (proposal_create_do_evaluate (\<lambda>_. Inr []) \<lparr>pcr_fee = mk_asset 0 0, pcr_payer = 4, pcr_expiration = 1500, pcr_review = Some 300\<rparr>
     [Update_parameters (mk_asset 0 0) governed_parameters]
     (transfer_proposed\<lparr>chain_db := governed_db\<lparr>gpo := (gpo governed_db)\<lparr>parameters := locking_parameters\<rparr>\<rparr>\<rparr>))"
proof -
  have "0 \<le> head_block_time governed_db" by code_simp
  then show ?thesis by (intro governance_can_lock [THEN conjunct2, rule_format, where fee = "mk_asset 0 0" and q = governed_parameters])
    (simp add: head_block_time_def)
qed

definition self_deletion :: "operation list" where
  "self_deletion =
     [Proposal_create \<lparr>pcr_fee = mk_asset 0 0, pcr_payer = 4, pcr_expiration = 2000, pcr_review = None\<rparr>
        [Proposal_delete \<lparr>pdl_fee = mk_asset 0 0, pdl_payer = 4, pdl_using_owner = False, pdl_proposal = 0\<rparr>],
      approval 0 4]"

text \<open>
  A proposal can pull the ground from under its own execution. A proposal may hold the deletion of the proposal it will become;
  it is created like any other, and its approval deletes the object the execution goes on to use, which is undefined.
\<close>

theorem proposal_deletes_itself:
  "transaction_validate (env_proto op_env_example) self_deletion = Inr () \<and>
   fold_res (apply_operation push_depth safe_int64 op_env_example 0 False) self_deletion \<lparr>chain_db = governed_db, proposals = empty_index\<rparr> =
     Inl undefined_behaviour"
proof
  show "transaction_validate (env_proto op_env_example) self_deletion = Inr ()" by code_simp
  have "(case fold_res (apply_operation push_depth safe_int64 op_env_example 0 False) self_deletion \<lparr>chain_db = governed_db, proposals = empty_index\<rparr> of
    Inl e \<Rightarrow> e = undefined_behaviour | Inr _ \<Rightarrow> False)" by code_simp
  then show "fold_res (apply_operation push_depth safe_int64 op_env_example 0 False) self_deletion \<lparr>chain_db = governed_db, proposals = empty_index\<rparr> =
     Inl undefined_behaviour" by (auto split: sum.splits)
qed

end
