(* ===== verification/Fork_Database.thy ===== *)
theory Fork_Database
  imports Block
begin

text \<open>
  \<open>fork_database\<close> of \<open>libraries/chain\<close>: the tree of recent blocks. An item is a heap
  object shared by the index, the head pointer and the weak links of its children, so
  it carries the address it was allocated at; a weak link is an address, and locking it
  finds the item while some owner still holds it. The hash of a block is a parameter \<open>H\<close>.
\<close>

section \<open>State\<close>

record 't fork_item =
  addr :: nat
  prev :: "nat option"
  num :: nat
  invalid :: bool
  item_id :: block_id
  data :: "'t signed_block"

record 't fork_database =
  next_addr :: nat
  max_size :: nat
  unlinked_index :: "'t fork_item list"
  index_items :: "'t fork_item list"
  head :: "'t fork_item option"

definition previous_id :: "'t fork_item \<Rightarrow> block_id" where
  "previous_id it = previous (data it)"

definition make_item :: "('t signed_block \<Rightarrow> nat) \<Rightarrow> nat \<Rightarrow> 't signed_block \<Rightarrow> 't fork_item" where
  "make_item H a b =
     \<lparr>addr = a, prev = None, num = block_num b, invalid = False, item_id = id_of H b, data = b\<rparr>"

definition find_id :: "block_id \<Rightarrow> 't fork_item list \<Rightarrow> 't fork_item option" where
  "find_id i its = List.find (\<lambda>it. item_id it = i) its"

definition insert_item :: "'t fork_item \<Rightarrow> 't fork_item list \<Rightarrow> 't fork_item list" where
  "insert_item it its = (if find_id (item_id it) its = None then its @ [it] else its)"

text \<open>Locking a weak link: some container or the head still owns the item.\<close>

definition owners :: "'t fork_database \<Rightarrow> 't fork_item list" where
  "owners db = index_items db @ unlinked_index db @ (case head db of None \<Rightarrow> [] | Some h \<Rightarrow> [h])"

definition lock :: "'t fork_database \<Rightarrow> nat option \<Rightarrow> 't fork_item option" where
  "lock db w = (case w of None \<Rightarrow> None | Some a \<Rightarrow> List.find (\<lambda>it. addr it = a) (owners db))"

section \<open>Operations\<close>

definition fork_init :: "'t fork_database" where
  "fork_init = \<lparr>next_addr = 0, max_size = 1024, unlinked_index = [], index_items = [], head = None\<rparr>"

definition reset :: "'t fork_database \<Rightarrow> 't fork_database" where
  "reset db = db\<lparr>head := None, index_items := []\<rparr>"

definition pop_block :: "'t fork_database \<Rightarrow> 't fork_database result" where
  "pop_block db =
     (case head db of
        None \<Rightarrow> Inl assert_exception
      | Some h \<Rightarrow>
          (case lock db (prev h) of
             None \<Rightarrow> Inl assert_exception
           | Some p \<Rightarrow> Inr (db\<lparr>head := Some p\<rparr>)))"

definition start_block :: "('t signed_block \<Rightarrow> nat) \<Rightarrow> 't signed_block \<Rightarrow> 't fork_database \<Rightarrow> 't fork_database" where
  "start_block H b db =
     (let it = make_item H (next_addr db) b in
      db\<lparr>next_addr := Suc (next_addr db), index_items := insert_item it (index_items db), head := Some it\<rparr>)"

definition oldest_allowed :: "'t fork_item \<Rightarrow> nat \<Rightarrow> int" where
  "oldest_allowed h m = max 0 (int (num h) - int m)"

definition link_item :: "'t fork_item \<Rightarrow> 't fork_database \<Rightarrow> 't fork_item result" where
  "link_item it db =
     (if head db \<noteq> None \<and> previous_id it \<noteq> null_block_id then
        (case find_id (previous_id it) (index_items db) of
           None \<Rightarrow> Inl unlinkable_block_exception
         | Some p \<Rightarrow> fc_assert (\<not> invalid p) (Inr (it\<lparr>prev := Some (addr p)\<rparr>)))
      else Inr it)"

definition adopt_head :: "'t fork_item \<Rightarrow> 't fork_database \<Rightarrow> 't fork_database" where
  "adopt_head it db =
     (case head db of
        None \<Rightarrow> db\<lparr>head := Some it\<rparr>
      | Some h \<Rightarrow>
          if num it > num h then
            let min_num = num it - min (max_size db) (num it) in
            db\<lparr>head := Some it,
               index_items := filter (\<lambda>x. \<not> num x < min_num) (index_items db),
               unlinked_index :=
                 filter (\<lambda>x. int (num x) \<noteq> u32 (int (num it) - int (max_size db))) (unlinked_index db)\<rparr>
          else db)"

definition push_item :: "'t fork_item \<Rightarrow> 't fork_database \<Rightarrow> 't fork_database result" where
  "push_item it db =
     fc_assert (case head db of None \<Rightarrow> True | Some h \<Rightarrow> int (num it) > oldest_allowed h (max_size db))
       (rbind (link_item it db) (\<lambda>it.
          Inr (adopt_head it (db\<lparr>index_items := insert_item it (index_items db)\<rparr>))))"

definition push_block ::
  "('t signed_block \<Rightarrow> nat) \<Rightarrow> 't signed_block \<Rightarrow> 't fork_database \<Rightarrow> ('t fork_item \<times> 't fork_database) result" where
  "push_block H b db =
     (let it = make_item H (next_addr db) b in
      rbind (push_item it (db\<lparr>next_addr := Suc (next_addr db)\<rparr>)) (\<lambda>db'.
      rbind (deref (head db')) (\<lambda>h. Inr (h, db'))))"

fun push_next :: "nat \<Rightarrow> 't fork_item \<Rightarrow> 't fork_database \<Rightarrow> 't fork_database result" where
  "push_next 0 new_item db = Inl out_of_fuel"
| "push_next (Suc fuel) new_item db =
     (case List.find (\<lambda>it. previous_id it = item_id new_item) (unlinked_index db) of
        None \<Rightarrow> Inr db
      | Some it \<Rightarrow>
          rbind (push_item it (db\<lparr>unlinked_index := filter (\<lambda>x. addr x \<noteq> addr it) (unlinked_index db)\<rparr>))
            (push_next fuel new_item))"

definition set_max_size :: "nat \<Rightarrow> 't fork_database \<Rightarrow> 't fork_database" where
  "set_max_size s db =
     (let db1 = db\<lparr>max_size := s\<rparr> in
      case head db of
        None \<Rightarrow> db1
      | Some h \<Rightarrow>
          let keep = filter (\<lambda>x. \<not> int (num x) < oldest_allowed h s) in
          db1\<lparr>index_items := keep (index_items db), unlinked_index := keep (unlinked_index db)\<rparr>)"

definition is_known_block :: "block_id \<Rightarrow> 't fork_database \<Rightarrow> bool" where
  "is_known_block i db = (find_id i (index_items db) \<noteq> None \<or> find_id i (unlinked_index db) \<noteq> None)"

definition fetch_block :: "block_id \<Rightarrow> 't fork_database \<Rightarrow> 't fork_item option" where
  "fetch_block i db =
     (case find_id i (index_items db) of Some it \<Rightarrow> Some it | None \<Rightarrow> find_id i (unlinked_index db))"

definition fetch_block_by_number :: "nat \<Rightarrow> 't fork_database \<Rightarrow> 't fork_item list" where
  "fetch_block_by_number n db = filter (\<lambda>it. num it = n) (index_items db)"

text \<open>The first two loops of \<open>fetch_branch_from\<close>: walk one branch down to a block number.\<close>

fun walk_to :: "nat \<Rightarrow> 't fork_database \<Rightarrow> nat \<Rightarrow> 't fork_item \<Rightarrow> ('t fork_item list \<times> 't fork_item) result" where
  "walk_to 0 db n it = Inl out_of_fuel"
| "walk_to (Suc fuel) db n it =
     (if block_num (data it) > n then
        (case lock db (prev it) of
           None \<Rightarrow> Inl assert_exception
         | Some p \<Rightarrow> rbind (walk_to fuel db n p) (\<lambda>(xs, q). Inr (it # xs, q)))
      else Inr ([], it))"

text \<open>The third loop: walk both branches until their previous blocks agree.\<close>

fun walk_both ::
  "nat \<Rightarrow> 't fork_database \<Rightarrow> 't fork_item \<Rightarrow> 't fork_item \<Rightarrow> ('t fork_item list \<times> 't fork_item list) result" where
  "walk_both 0 db a b = Inl out_of_fuel"
| "walk_both (Suc fuel) db a b =
     (if previous (data a) \<noteq> previous (data b) then
        (case lock db (prev a) of
           None \<Rightarrow> Inl assert_exception
         | Some a' \<Rightarrow>
             (case lock db (prev b) of
                None \<Rightarrow> Inl assert_exception
              | Some b' \<Rightarrow> rbind (walk_both fuel db a' b') (\<lambda>(xs, ys). Inr (a # xs, b # ys))))
      else Inr ([a], [b]))"

definition fetch_branch_from ::
  "block_id \<Rightarrow> block_id \<Rightarrow> 't fork_database \<Rightarrow> ('t fork_item list \<times> 't fork_item list) result" where
  "fetch_branch_from first second db =
     rbind (get_or_throw (find_id first (index_items db))) (\<lambda>a0.
     rbind (get_or_throw (find_id second (index_items db))) (\<lambda>b0.
     let fuel = Suc (block_num (data a0) + block_num (data b0)) in
     rbind (walk_to fuel db (block_num (data b0)) a0) (\<lambda>(xs1, a1).
     rbind (walk_to fuel db (block_num (data a1)) b0) (\<lambda>(ys1, b1).
     rbind (walk_both fuel db a1 b1) (\<lambda>(xs2, ys2).
       Inr (xs1 @ xs2, ys1 @ ys2))))))"

definition set_head :: "'t fork_item option \<Rightarrow> 't fork_database \<Rightarrow> 't fork_database" where
  "set_head h db = db\<lparr>head := h\<rparr>"

definition remove_block :: "block_id \<Rightarrow> 't fork_database \<Rightarrow> 't fork_database" where
  "remove_block i db = db\<lparr>index_items := filter (\<lambda>it. item_id it \<noteq> i) (index_items db)\<rparr>"

section \<open>Well-formed trees\<close>

text \<open>
  What the operations keep true of all items that have an owner: the number an item
  caches is its block's, one more than the number in the previous id; an address names
  one item; and a weak link that can be locked leads to the block the item names as its
  predecessor.
\<close>

definition wf_item :: "'t fork_item \<Rightarrow> bool" where
  "wf_item it \<longleftrightarrow> num it = block_num (data it) \<and> fst (item_id it) = num it \<and> num it = Suc (fst (previous_id it))"

definition wf_owners :: "nat \<Rightarrow> 't fork_item set \<Rightarrow> bool" where
  "wf_owners n X \<longleftrightarrow>
     (\<forall>it \<in> X. wf_item it \<and> addr it < n) \<and>
     (\<forall>it \<in> X. \<forall>a. prev it = Some a \<longrightarrow> a < n \<and> (\<forall>p \<in> X. addr p = a \<longrightarrow> item_id p = previous_id it)) \<and>
     (\<forall>x \<in> X. \<forall>y \<in> X. addr x = addr y \<longrightarrow> x = y)"

definition wf_fork :: "'t fork_database \<Rightarrow> bool" where
  "wf_fork db \<longleftrightarrow> wf_owners (next_addr db) (set (owners db)) \<and> distinct (map item_id (index_items db))"

lemma wf_owners_subset: "wf_owners n X \<Longrightarrow> Y \<subseteq> X \<Longrightarrow> wf_owners n Y"
  unfolding wf_owners_def by blast

lemma wf_owners_Suc: "wf_owners n X \<Longrightarrow> wf_owners (Suc n) X"
  unfolding wf_owners_def by (meson less_SucI)

lemma wf_owners_insert:
  assumes X: "wf_owners n X" and it: "wf_item it" "addr it = n"
    and p: "prev it = None \<or> (\<exists>p \<in> X. prev it = Some (addr p) \<and> item_id p = previous_id it)"
  shows "wf_owners (Suc n) (insert it X)"
proof -
  have a: "addr x < n" "prev x = Some a \<Longrightarrow> a < n" if "x \<in> X" for x a
    using X that unfolding wf_owners_def by blast+
  have link: "item_id y = previous_id x" if "x \<in> insert it X" "y \<in> insert it X" "prev x = Some (addr y)" for x y
  proof (cases "x = it")
    case True
    with p that(3) obtain q where q: "q \<in> X" "addr y = addr q" "item_id q = previous_id it" by auto
    with a(1) [OF q(1)] that(2) it(2) have "y \<in> X" by auto
    with q X have "y = q" unfolding wf_owners_def by blast
    with q True show ?thesis by simp
  next
    case False
    with that(1) have x: "x \<in> X" by simp
    with a(2) [OF x that(3)] that(2) it(2) have "y \<in> X" by auto
    with x that(3) X show ?thesis unfolding wf_owners_def by blast
  qed
  have small: "b < Suc n" if "x \<in> insert it X" "prev x = Some b" for x b
    using that a p by (cases "x = it") (auto simp: less_SucI)
  show ?thesis
    unfolding wf_owners_def
  proof (intro conjI ballI allI impI)
    fix x assume "x \<in> insert it X"
    then show "wf_item x" "addr x < Suc n" using X it unfolding wf_owners_def by auto
  next
    fix x b assume "x \<in> insert it X" "prev x = Some b"
    then show "b < Suc n" by (rule small)
  next
    fix x b y assume "x \<in> insert it X" "prev x = Some b" "y \<in> insert it X" "addr y = b"
    then show "item_id y = previous_id x" using link by blast
  next
    fix x y assume "x \<in> insert it X" "y \<in> insert it X" "addr x = addr y"
    then show "x = y" using X it(2) a(1) [of x] a(1) [of y] unfolding wf_owners_def by auto
  qed
qed

lemma find_id_Some: "find_id i its = Some it \<Longrightarrow> it \<in> set its \<and> item_id it = i"
  by (auto simp: find_id_def find_Some_iff)

lemma find_id_None: "find_id i its = None \<longleftrightarrow> i \<notin> item_id ` set its"
  by (auto simp: find_id_def find_None_iff)

lemma set_insert_item: "set (insert_item it its) \<subseteq> insert it (set its)"
  by (simp add: insert_item_def) blast

lemma distinct_insert_item:
  "distinct (map item_id its) \<Longrightarrow> distinct (map item_id (insert_item it its))"
  by (simp add: insert_item_def find_id_None)

lemma distinct_map_filter_item: "distinct (map item_id its) \<Longrightarrow> distinct (map item_id (filter P its))"
  by (rule distinct_map_filter)

lemma lock_Some: "lock db w = Some p \<Longrightarrow> p \<in> set (owners db) \<and> w = Some (addr p)"
  by (auto simp: lock_def find_Some_iff split: option.splits)

lemma lock_step:
  assumes wf: "wf_fork db" and it: "it \<in> set (owners db)" and l: "lock db (prev it) = Some p"
  shows "p \<in> set (owners db)" "item_id p = previous_id it" "num it = Suc (num p)"
    "block_num (data it) = num it" "block_num (data p) = num p"
proof -
  from lock_Some [OF l] have p: "p \<in> set (owners db)" "prev it = Some (addr p)" by simp_all
  show "p \<in> set (owners db)" by (rule p(1))
  show i: "item_id p = previous_id it"
    using wf it p unfolding wf_fork_def wf_owners_def by blast
  have "wf_item it" "wf_item p"
    using wf it p(1) unfolding wf_fork_def wf_owners_def by blast+
  with i show "num it = Suc (num p)" "block_num (data it) = num it" "block_num (data p) = num p"
    by (simp_all add: wf_item_def)
qed

lemma owners_mem:
  "x \<in> set (owners db) \<longleftrightarrow> x \<in> set (index_items db) \<or> x \<in> set (unlinked_index db) \<or> head db = Some x"
  by (auto simp: owners_def split: option.splits)

section \<open>Preservation\<close>

lemma wf_fork_init: "wf_fork fork_init"
  by (simp add: wf_fork_def fork_init_def owners_def wf_owners_def)

lemma wf_fork_shrink:
  assumes "wf_fork db" "next_addr db' = next_addr db" "set (owners db') \<subseteq> set (owners db)"
    "distinct (map item_id (index_items db'))"
  shows "wf_fork db'"
  using assms wf_owners_subset unfolding wf_fork_def by metis

lemma wf_pop_block: "wf_fork db \<Longrightarrow> pop_block db = Inr db' \<Longrightarrow> wf_fork db'"
  by (rule wf_fork_shrink [of db])
    (auto simp: pop_block_def owners_mem wf_fork_def split: option.splits dest!: lock_Some)

lemma wf_set_max_size: "wf_fork db \<Longrightarrow> wf_fork (set_max_size s db)"
  by (rule wf_fork_shrink [of db])
    (auto simp: set_max_size_def Let_def owners_mem wf_fork_def distinct_map_filter_item split: option.splits)

lemma wf_remove_block: "wf_fork db \<Longrightarrow> wf_fork (remove_block i db)"
  by (rule wf_fork_shrink [of db])
    (auto simp: remove_block_def owners_mem wf_fork_def distinct_map_filter_item)

lemma wf_set_head: "wf_fork db \<Longrightarrow> set_option h \<subseteq> set (owners db) \<Longrightarrow> wf_fork (set_head h db)"
  by (rule wf_fork_shrink [of db]) (auto simp: set_head_def owners_mem wf_fork_def)

lemma wf_reset: "wf_fork db \<Longrightarrow> wf_fork (reset db)"
  by (rule wf_fork_shrink [of db]) (auto simp: reset_def owners_mem wf_fork_def)

lemma wf_make_item:
  "fst (previous b) < 2 ^ 32 - 1 \<Longrightarrow> wf_item (make_item H a b)"
  by (simp add: wf_item_def make_item_def id_of_def previous_id_def block_num_def num_from_id_def)

lemma adopt_head_fields:
  shows "set (owners (adopt_head it db)) \<subseteq> insert it (set (owners db))"
    "next_addr (adopt_head it db) = next_addr db"
    "distinct (map item_id (index_items db)) \<Longrightarrow> distinct (map item_id (index_items (adopt_head it db)))"
  by (auto simp: adopt_head_def Let_def owners_mem distinct_map_filter_item split: option.splits)

lemma push_item_wf:
  assumes wf: "wf_fork db" and it: "wf_item it" "addr it = next_addr db" "prev it = None"
    and push: "push_item it (db\<lparr>next_addr := Suc (next_addr db)\<rparr>) = Inr db'"
  shows "wf_fork db'"
proof -
  let ?db1 = "db\<lparr>next_addr := Suc (next_addr db)\<rparr>"
  from push obtain it' where it': "link_item it ?db1 = Inr it'"
    "db' = adopt_head it' (?db1\<lparr>index_items := insert_item it' (index_items db)\<rparr>)"
    by (auto simp: push_item_def res_simps)
  let ?db2 = "?db1\<lparr>index_items := insert_item it' (index_items db)\<rparr>"
  have l: "wf_item it'" "addr it' = next_addr db"
    "prev it' = None \<or> (\<exists>p \<in> set (owners db). prev it' = Some (addr p) \<and> item_id p = previous_id it')"
    using it'(1) it
    by (auto simp: link_item_def res_simps wf_item_def previous_id_def owners_mem
        split: if_splits option.splits dest!: find_id_Some)
  have "wf_owners (Suc (next_addr db)) (insert it' (set (owners db)))"
    using wf_owners_insert [of "next_addr db" "set (owners db)" it'] wf l by (simp add: wf_fork_def)
  moreover have "set (owners db') \<subseteq> insert it' (set (owners db))"
  proof -
    have "set (owners ?db2) \<subseteq> insert it' (set (owners db))"
      using set_insert_item [of it' "index_items db"] by (auto simp: owners_mem)
    with adopt_head_fields(1) [of it' ?db2] show ?thesis unfolding it'(2) by blast
  qed
  ultimately have "wf_owners (next_addr db') (set (owners db'))"
    using wf_owners_subset by (metis it'(2) adopt_head_fields(2) fork_database.select_convs(1)
        fork_database.surjective fork_database.update_convs(1,4))
  moreover have "distinct (map item_id (index_items db'))"
    using wf unfolding it'(2) wf_fork_def
    by (intro adopt_head_fields(3)) (simp add: distinct_insert_item)
  ultimately show ?thesis by (simp add: wf_fork_def)
qed

lemma wf_push_block:
  assumes "wf_fork db" "fst (previous b) < 2 ^ 32 - 1" "push_block H b db = Inr (h, db')"
  shows "wf_fork db'"
  using assms push_item_wf [OF assms(1) wf_make_item [OF assms(2), of H "next_addr db"], of db']
  by (auto simp: push_block_def Let_def res_simps make_item_def)

section \<open>Branches\<close>

fun linked :: "'t fork_item list \<Rightarrow> bool" where
  "linked [] \<longleftrightarrow> True"
| "linked [x] \<longleftrightarrow> True"
| "linked (x # y # zs) \<longleftrightarrow> item_id y = previous_id x \<and> linked (y # zs)"

lemma linked_Cons: "linked (x # ys) \<longleftrightarrow> (ys \<noteq> [] \<longrightarrow> item_id (hd ys) = previous_id x) \<and> linked ys"
  by (cases ys) auto

lemma walk_to_fuel:
  assumes wf: "wf_fork db"
  shows "it \<in> set (owners db) \<Longrightarrow> num it < fuel \<Longrightarrow> walk_to fuel db n it \<noteq> Inl e \<or> e = assert_exception"
proof (induction fuel arbitrary: it)
  case (Suc fuel)
  show ?case
  proof (cases "block_num (data it) > n \<and> (\<exists>p. lock db (prev it) = Some p)")
    case True
    then obtain p where p: "lock db (prev it) = Some p" by blast
    from lock_step [OF wf Suc.prems(1) p] Suc.prems(2) have "p \<in> set (owners db)" "num p < fuel" by simp_all
    from Suc.IH [OF this] True p show ?thesis by (auto simp: res_simps split: prod.splits)
  next
    case False
    then show ?thesis by (auto split: option.splits)
  qed
qed simp

lemma walk_both_fuel:
  assumes wf: "wf_fork db"
  shows "a \<in> set (owners db) \<Longrightarrow> b \<in> set (owners db) \<Longrightarrow> num a < fuel \<Longrightarrow>
    walk_both fuel db a b \<noteq> Inl e \<or> e = assert_exception"
proof (induction fuel arbitrary: a b)
  case (Suc fuel)
  show ?case
  proof (cases "previous (data a) \<noteq> previous (data b) \<and> (\<exists>p. lock db (prev a) = Some p) \<and> (\<exists>q. lock db (prev b) = Some q)")
    case True
    then obtain p q where p: "lock db (prev a) = Some p" and q: "lock db (prev b) = Some q" by blast
    from lock_step [OF wf Suc.prems(1) p] lock_step [OF wf Suc.prems(2) q] Suc.prems(3)
    have "p \<in> set (owners db)" "q \<in> set (owners db)" "num p < fuel" by simp_all
    from Suc.IH [OF this] True p q show ?thesis by (auto simp: res_simps split: prod.splits)
  next
    case False
    then show ?thesis by (auto split: option.splits)
  qed
qed simp

lemma walk_to_Inr:
  assumes wf: "wf_fork db"
  shows "it \<in> set (owners db) \<Longrightarrow> walk_to fuel db n it = Inr (xs, q) \<Longrightarrow>
    q \<in> set (owners db) \<and> linked (xs @ [q]) \<and> hd (xs @ [q]) = it \<and> num q = min (num it) n \<and>
    (\<forall>x \<in> set xs. x \<in> set (owners db) \<and> n < num x)"
proof (induction fuel arbitrary: it xs)
  case (Suc fuel)
  have num: "block_num (data it) = num it"
    using wf Suc.prems(1) unfolding wf_fork_def wf_owners_def wf_item_def by metis
  show ?case
  proof (cases "num it > n")
    case True
    with Suc.prems(2) num obtain p ys where p: "lock db (prev it) = Some p"
      "walk_to fuel db n p = Inr (ys, q)" "xs = it # ys"
      by (auto simp: res_simps split: option.splits prod.splits)
    note l = lock_step [OF wf Suc.prems(1) p(1)]
    from Suc.IH [OF l(1) p(2)] l p(3) True Suc.prems(1) show ?thesis
      by (auto simp: linked_Cons min_def)
  next
    case False
    with Suc.prems num show ?thesis by auto
  qed
qed simp

lemma walk_both_Inr:
  assumes wf: "wf_fork db"
  shows "a \<in> set (owners db) \<Longrightarrow> b \<in> set (owners db) \<Longrightarrow> num a = num b \<Longrightarrow>
    walk_both fuel db a b = Inr (xs, ys) \<Longrightarrow>
    xs \<noteq> [] \<and> ys \<noteq> [] \<and> hd xs = a \<and> hd ys = b \<and> linked xs \<and> linked ys \<and>
    previous_id (last xs) = previous_id (last ys) \<and>
    (\<forall>x \<in> set xs. wf_item x \<and> num x \<le> num a) \<and> (\<forall>y \<in> set ys. wf_item y \<and> num y \<le> num b) \<and>
    (\<forall>x \<in> set (butlast xs). \<forall>y \<in> set (butlast ys). previous_id x \<noteq> previous_id y)"
proof (induction fuel arbitrary: a b xs ys)
  case (Suc fuel)
  have w: "wf_item a" "wf_item b"
    using wf Suc.prems(1,2) unfolding wf_fork_def wf_owners_def by blast+
  show ?case
  proof (cases "previous (data a) = previous (data b)")
    case True
    with Suc.prems w show ?thesis by (auto simp: previous_id_def)
  next
    case False
    with Suc.prems(4) obtain p q us vs where p: "lock db (prev a) = Some p" "lock db (prev b) = Some q"
      "walk_both fuel db p q = Inr (us, vs)" "xs = a # us" "ys = b # vs"
      by (auto simp: res_simps split: option.splits prod.splits)
    note la = lock_step [OF wf Suc.prems(1) p(1)] and lb = lock_step [OF wf Suc.prems(2) p(2)]
    from Suc.IH [OF la(1) lb(1) _ p(3)] la(3) lb(3) Suc.prems(3)
    have IH: "us \<noteq> []" "vs \<noteq> []" "hd us = p" "hd vs = q" "linked us" "linked vs"
      "previous_id (last us) = previous_id (last vs)"
      "\<And>x. x \<in> set us \<Longrightarrow> wf_item x \<and> num x \<le> num p" "\<And>y. y \<in> set vs \<Longrightarrow> wf_item y \<and> num y \<le> num q"
      "\<And>x y. x \<in> set (butlast us) \<Longrightarrow> y \<in> set (butlast vs) \<Longrightarrow> previous_id x \<noteq> previous_id y"
      by auto
    have lower: "previous_id x \<noteq> previous_id b" if "x \<in> set us" for x
      using IH(8) [OF that] w(2) la(3) Suc.prems(3) by (auto simp: wf_item_def)
    have lower': "previous_id a \<noteq> previous_id y" if "y \<in> set vs" for y
      using IH(9) [OF that] w(1) lb(3) Suc.prems(3) by (auto simp: wf_item_def)
    have "previous_id x \<noteq> previous_id y" if "x \<in> set (butlast xs)" "y \<in> set (butlast ys)" for x y
      using that p(4,5) IH(1,2,10) lower lower' False in_set_butlastD [of x us] in_set_butlastD [of y vs]
      by (auto simp: previous_id_def)
    moreover have "num x \<le> num a \<and> wf_item x" if "x \<in> set xs" for x
      using that p(4) IH(8) la(3) w(1) by force
    moreover have "num y \<le> num b \<and> wf_item y" if "y \<in> set ys" for y
      using that p(5) IH(9) lb(3) w(2) by force
    ultimately show ?thesis
      using p(4,5) IH(1-7) la(2) lb(2) by (simp add: linked_Cons)
  qed
qed simp

section \<open>Properties\<close>

lemma wf_start_block:
  assumes "wf_fork db" "fst (previous b) < 2 ^ 32 - 1"
  shows "wf_fork (start_block H b db)"
proof -
  let ?it = "make_item H (next_addr db) b"
  have "wf_owners (Suc (next_addr db)) (insert ?it (set (owners db)))"
    using wf_owners_insert [of "next_addr db" "set (owners db)" ?it] assms wf_make_item [OF assms(2)]
    by (simp add: wf_fork_def make_item_def)
  moreover have "set (owners (start_block H b db)) \<subseteq> insert ?it (set (owners db))"
    using set_insert_item [of ?it "index_items db"] by (auto simp: owners_mem start_block_def Let_def)
  ultimately show ?thesis
    using wf_owners_subset assms(1) distinct_insert_item
    by (auto simp: wf_fork_def start_block_def Let_def)
qed

lemma wf_fork_index:
  assumes "wf_fork db" "find_id i (index_items db) = Some it"
  shows "it \<in> set (owners db)" "item_id it = i" "wf_item it" "block_num (data it) = num it"
proof -
  from find_id_Some [OF assms(2)] show o: "it \<in> set (owners db)" and "item_id it = i"
    by (simp_all add: owners_mem)
  from o assms(1) show "wf_item it" unfolding wf_fork_def wf_owners_def by blast
  then show "block_num (data it) = num it" by (simp add: wf_item_def)
qed

lemma link_item_keeps:
  "link_item it db = Inr it' \<Longrightarrow> num it' = num it \<and> item_id it' = item_id it"
  by (auto simp: link_item_def res_simps split: if_splits option.splits)

lemma insert_item_known: "find_id (item_id it) (insert_item it its) \<noteq> None"
  by (auto simp: insert_item_def find_id_None)

lemma adopt_head_head:
  "\<exists>h. head (adopt_head it db) = Some h \<and>
     num h = (case head db of None \<Rightarrow> num it | Some g \<Rightarrow> max (num g) (num it))"
  by (auto simp: adopt_head_def Let_def max_def split: option.splits)

lemma adopt_head_window:
  "head db = Some g \<Longrightarrow> num g < num it \<Longrightarrow> x \<in> set (index_items (adopt_head it db)) \<Longrightarrow>
    num it \<le> num x + max_size db"
  by (auto simp: adopt_head_def Let_def)

lemma adopt_head_keeps:
  "y \<in> set (index_items db) \<Longrightarrow> num it \<le> num y \<Longrightarrow> y \<in> set (index_items (adopt_head it db))"
  by (auto simp: adopt_head_def Let_def split: option.splits)

lemma push_item_known:
  assumes wf: "wf_fork db" and "num it = fst (item_id it)" and "push_item it db = Inr db'"
  shows "find_id (item_id it) (index_items db') \<noteq> None"
proof -
  from assms(3) obtain it' where l: "link_item it db = Inr it'"
    and db': "db' = adopt_head it' (db\<lparr>index_items := insert_item it' (index_items db)\<rparr>)"
    by (auto simp: push_item_def res_simps)
  note k = link_item_keeps [OF l]
  obtain y where y: "y \<in> set (insert_item it' (index_items db))" "item_id y = item_id it'"
    using insert_item_known [of it' "index_items db"] by (auto simp: find_id_None)
  have "num y = num it'"
  proof (cases "y = it'")
    case False
    with y(1) set_insert_item [of it' "index_items db"] have "y \<in> set (owners db)" by (auto simp: owners_mem)
    with wf have "wf_item y" unfolding wf_fork_def wf_owners_def by blast
    with y(2) k assms(2) show ?thesis by (simp add: wf_item_def)
  qed simp
  with adopt_head_keeps [of y "db\<lparr>index_items := insert_item it' (index_items db)\<rparr>" it'] y k
  have "y \<in> set (index_items db')" unfolding db' by simp
  with y(2) k show ?thesis unfolding find_id_None by (metis imageI)
qed

text \<open>
  C10: A block pushed into the fork database keeps the tree well formed and is known
  afterwards; a new one is stored with a link to its parent, which was in the tree and valid, unless the tree was empty or the
  block names no parent; the returned head is the new head, its number is the largest of the old
  head's and the block's, and when the head advances no cached block is older than the
  configured window.
\<close>

theorem fork_push_block:
  assumes "wf_fork db" and "fst (previous b) < 2 ^ 32 - 1" and "push_block H b db = Inr (h, db')"
  shows "wf_fork db' \<and> head db' = Some h \<and>
    num h = (case head db of None \<Rightarrow> block_num b | Some g \<Rightarrow> max (num g) (block_num b)) \<and>
    is_known_block (id_of H b) db' \<and>
    (find_id (id_of H b) (index_items db) = None \<longrightarrow>
      (\<exists>it \<in> set (index_items db'). item_id it = id_of H b \<and> data it = b \<and>
        (if head db \<noteq> None \<and> previous b \<noteq> null_block_id
         then \<exists>p. find_id (previous b) (index_items db) = Some p \<and> \<not> invalid p \<and> prev it = Some (addr p)
         else prev it = None))) \<and>
    (case head db of None \<Rightarrow> True
     | Some g \<Rightarrow> num g < block_num b \<longrightarrow> list_all (\<lambda>x. num h \<le> num x + max_size db) (index_items db'))"
proof -
  let ?it = "make_item H (next_addr db) b" and ?db = "db\<lparr>next_addr := Suc (next_addr db)\<rparr>"
  from assms(3) have p: "push_item ?it ?db = Inr db'" and h: "head db' = Some h"
    by (auto simp: push_block_def Let_def res_simps)
  then obtain it' where l: "link_item ?it ?db = Inr it'"
    and db': "db' = adopt_head it' (?db\<lparr>index_items := insert_item it' (index_items db)\<rparr>)"
    by (auto simp: push_item_def res_simps)
  have n: "num it' = block_num b" using link_item_keeps [OF l] by (simp add: make_item_def)
  have hn: "num h = (case head db of None \<Rightarrow> block_num b | Some g \<Rightarrow> max (num g) (block_num b))"
    using adopt_head_head [of it' "?db\<lparr>index_items := insert_item it' (index_items db)\<rparr>"] h n
    by (auto simp: db' split: option.splits)
  have wf: "wf_fork ?db"
    using assms(1) wf_owners_Suc by (auto simp: wf_fork_def owners_def)
  have "find_id (item_id ?it) (index_items db') \<noteq> None"
    by (rule push_item_known [OF wf _ p]) (simp add: make_item_def id_of_def)
  then have "is_known_block (id_of H b) db'" by (simp add: is_known_block_def make_item_def)
  moreover have "\<exists>it \<in> set (index_items db'). item_id it = id_of H b \<and> data it = b \<and>
        (if head db \<noteq> None \<and> previous b \<noteq> null_block_id
         then \<exists>p. find_id (previous b) (index_items db) = Some p \<and> \<not> invalid p \<and> prev it = Some (addr p)
         else prev it = None)" if "find_id (id_of H b) (index_items db) = None"
  proof -
    have i: "item_id it' = id_of H b" using link_item_keeps [OF l] by (simp add: make_item_def)
    with that have "it' \<in> set (insert_item it' (index_items db))" by (auto simp: insert_item_def find_id_None)
    then have "it' \<in> set (index_items db')" unfolding db' by (intro adopt_head_keeps) simp_all
    moreover have "data it' = b \<and> (if head db \<noteq> None \<and> previous b \<noteq> null_block_id
         then \<exists>p. find_id (previous b) (index_items db) = Some p \<and> \<not> invalid p \<and> prev it' = Some (addr p) else prev it' = None)"
      using l by (auto simp: link_item_def make_item_def previous_id_def res_simps split: if_splits option.splits)
    ultimately show ?thesis using i by blast
  qed
  moreover have "num h \<le> num x + max_size db"
    if "head db = Some g" "num g < block_num b" "x \<in> set (index_items db')" for g x
    using adopt_head_window [of "?db\<lparr>index_items := insert_item it' (index_items db)\<rparr>" g it' x] that hn n
    by (simp add: db' max_def)
  ultimately show ?thesis
    using wf_push_block [OF assms] h hn by (auto simp: list_all_iff split: option.splits)
qed

definition hash_example :: "nat signed_block \<Rightarrow> nat" where
  "hash_example b = 10 * timestamp b + miner b"

definition block_example :: "block_id \<Rightarrow> nat \<Rightarrow> nat signed_block" where
  "block_example p t = \<lparr>previous = p, timestamp = t, miner = 1, transaction_merkle_root = 0,
     miner_signature = 0, transactions = []\<rparr>"

definition fork_example :: "nat fork_database result" where
  "fork_example = fold_res (\<lambda>b db. rbind (push_block hash_example b db) (\<lambda>(h, db'). Inr db'))
     [block_example (0, 0) 1, block_example (1, 11) 2, block_example (1, 11) 3, block_example (2, 31) 4] fork_init"

lemmas fork_eval = fork_example_def fork_init_def push_block_def push_item_def link_item_def adopt_head_def
  Let_def make_item_def id_of_def hash_example_def block_example_def block_num_def num_from_id_def
  previous_id_def null_block_id_def find_id_def insert_item_def oldest_allowed_def

lemmas walk_numeral = walk_to.simps(2) [of "pred_numeral k" for k, folded numeral_eq_Suc]
  walk_both.simps(2) [of "pred_numeral k" for k, folded numeral_eq_Suc]

lemma fork_example_wf: "fork_example = Inr db \<Longrightarrow> wf_fork db"
  unfolding fork_example_def
  by (erule fold_res_invariant [where P = wf_fork], rule wf_fork_init)
    (auto simp: res_simps block_example_def split: prod.splits dest!: wf_push_block [rotated 2])

theorem fork_push_block_witness:
  "\<exists>db h db'. fork_example = Inr db \<and> push_block hash_example (block_example (3, 41) 5) db = Inr (h, db') \<and>
     wf_fork db' \<and> num h = 4"
proof -
  have "succeeds fork_example" by (simp add: fork_eval succeeds_def)
  then obtain db where db: "fork_example = Inr db" unfolding succeeds_iff ..
  have "succeeds (rbind fork_example (push_block hash_example (block_example (3, 41) 5)))"
    by (simp add: fork_eval succeeds_def)
  then obtain h db' where p: "push_block hash_example (block_example (3, 41) 5) db = Inr (h, db')"
    unfolding db rbind_Inr succeeds_iff by fastforce
  have "head db \<noteq> None \<and> num (the (head db)) = 3"
    using db by (auto simp: fork_eval)
  with fork_push_block [OF fork_example_wf [OF db] _ p] db p show ?thesis
    by (auto simp: block_example_def block_num_def num_from_id_def)
qed

lemma fetch_branch_from_Inr:
  assumes "fetch_branch_from x y db = Inr (xs, ys)"
  obtains a0 b0 xs1 a1 ys1 b1 xs2 ys2 fuel where
    "find_id x (index_items db) = Some a0" "find_id y (index_items db) = Some b0"
    "walk_to fuel db (block_num (data b0)) a0 = Inr (xs1, a1)"
    "walk_to fuel db (block_num (data a1)) b0 = Inr (ys1, b1)"
    "walk_both fuel db a1 b1 = Inr (xs2, ys2)" "xs = xs1 @ xs2" "ys = ys1 @ ys2"
  using assms that
  by (auto simp: fetch_branch_from_def Let_def res_simps simp del: walk_to.simps walk_both.simps split: prod.splits)

lemma linked_append: "linked (xs @ [q]) \<Longrightarrow> linked (q # zs) \<Longrightarrow> linked (xs @ q # zs)"
  by (induction xs rule: linked.induct) (auto simp: linked_Cons)

text \<open>
  C17: \<open>fetch_branch_from\<close> returns the two branches from the given blocks down to, and not
  including, their most recent common ancestor: each branch starts at its block, every
  block is followed by its predecessor, the last blocks name the same predecessor, and no
  earlier pair of blocks on the two branches does.
\<close>

theorem fetch_branch_common_ancestor:
  assumes wf: "wf_fork db" and f: "fetch_branch_from x y db = Inr (xs, ys)"
  shows "xs \<noteq> [] \<and> ys \<noteq> [] \<and> item_id (hd xs) = x \<and> item_id (hd ys) = y \<and> linked xs \<and> linked ys \<and>
    previous_id (last xs) = previous_id (last ys) \<and>
    (\<forall>u \<in> set (butlast xs). \<forall>v \<in> set (butlast ys). previous_id u \<noteq> previous_id v)"
proof -
  from f obtain a0 b0 xs1 a1 ys1 b1 xs2 ys2 fuel where
    s: "find_id x (index_items db) = Some a0" "find_id y (index_items db) = Some b0"
    and w: "walk_to fuel db (block_num (data b0)) a0 = Inr (xs1, a1)"
      "walk_to fuel db (block_num (data a1)) b0 = Inr (ys1, b1)" "walk_both fuel db a1 b1 = Inr (xs2, ys2)"
    and xy: "xs = xs1 @ xs2" "ys = ys1 @ ys2"
    by (rule fetch_branch_from_Inr)
  note a = wf_fork_index [OF wf s(1)] and b = wf_fork_index [OF wf s(2)]
  note wa = walk_to_Inr [OF wf a(1) w(1)]
  have a1n: "block_num (data a1) = num a1"
    using wa wf unfolding wf_fork_def wf_owners_def wf_item_def by metis
  note wb = walk_to_Inr [OF wf b(1) w(2)]
  have eq: "num a1 = num b1" using wa wb b(4) a1n by (simp add: min_def split: if_splits)
  have "a1 \<in> set (owners db)" "b1 \<in> set (owners db)" using wa wb by simp_all
  note both = walk_both_Inr [OF wf this eq w(3)]
  have own: "wf_item u" if "u \<in> set xs1 \<or> u \<in> set ys1" for u
    using that wa wb wf unfolding wf_fork_def wf_owners_def by blast
  have above: "previous_id u \<noteq> previous_id v"
    if "wf_item u" "wf_item v" "num v < num u" for u v
    using that by (auto simp: wf_item_def)
  have cut: "num a1 = min (num a0) (num b0)" "num b1 = min (num b0) (num a1)"
    using wa wb b(4) a1n by simp_all
  have xs1: "num b0 < num u" if "u \<in> set xs1" for u using that wa b(4) by simp
  have ys1: "num a1 < num v" if "v \<in> set ys1" for v using that wb a1n by simp
  have empty: "xs1 = [] \<or> ys1 = []"
  proof (rule ccontr)
    assume c: "\<not> (xs1 = [] \<or> ys1 = [])"
    then have "num b0 < num (hd xs1)" "num a1 < num (hd ys1)" using xs1 ys1 by simp_all
    moreover have "hd xs1 = a0" "hd ys1 = b0" using c wa wb by simp_all
    ultimately show False using cut by simp
  qed
  have xs2: "xs2 \<noteq> []" "hd xs2 = a1" "ys2 \<noteq> []" "hd ys2 = b1" using both by simp_all
  have "linked xs" "linked ys"
    using wa wb both xs2 linked_append [of xs1 a1 "tl xs2"] linked_append [of ys1 b1 "tl ys2"]
    by (simp_all add: xy) (metis list.collapse)+
  moreover have "hd xs = a0" "hd ys = b0"
    using wa wb xs2 by (auto simp: xy hd_append split: if_splits)
  moreover have "previous_id u \<noteq> previous_id v" if "u \<in> set (butlast xs)" "v \<in> set (butlast ys)" for u v
  proof -
    have u: "u \<in> set xs1 \<or> u \<in> set (butlast xs2)" and v: "v \<in> set ys1 \<or> v \<in> set (butlast ys2)"
      using that xs2 by (auto simp: xy butlast_append)
    have u2: "wf_item u \<and> num u \<le> num a1" if "u \<in> set (butlast xs2)"
      using that both in_set_butlastD by fast
    have v2: "wf_item v \<and> num v \<le> num a1" if "v \<in> set (butlast ys2)"
      using that both in_set_butlastD eq by fastforce
    consider "u \<in> set (butlast xs2)" "v \<in> set (butlast ys2)" | "u \<in> set xs1" "v \<in> set (butlast ys2)"
      | "u \<in> set (butlast xs2)" "v \<in> set ys1"
      using u v empty by auto
    then show ?thesis
    proof cases
      case 1
      with both show ?thesis by blast
    next
      case 2
      then have "num v < num u" using v2 xs1 cut by fastforce
      with above own v2 2 show ?thesis by blast
    next
      case 3
      then have "num u < num v" using u2 ys1 by fastforce
      with above own u2 3 show ?thesis by metis
    qed
  qed
  ultimately show ?thesis using a(2) b(2) both xs2 by (auto simp: xy)
qed

theorem fetch_branch_common_ancestor_witness:
  "\<exists>db xs ys. fork_example = Inr db \<and> fetch_branch_from (3, 41) (2, 21) db = Inr (xs, ys) \<and>
     linked xs \<and> previous_id (last xs) = previous_id (last ys)"
proof -
  have "succeeds fork_example" by (simp add: fork_eval succeeds_def)
  then obtain db where db: "fork_example = Inr db" unfolding succeeds_iff ..
  have "succeeds (rbind fork_example (fetch_branch_from (3, 41) (2, 21)))"
    by (simp add: fork_eval succeeds_def fetch_branch_from_def lock_def owners_def walk_numeral)
  then obtain xs ys where p: "fetch_branch_from (3, 41) (2, 21) db = Inr (xs, ys)"
    unfolding db rbind_Inr succeeds_iff by fastforce
  from fetch_branch_common_ancestor [OF fork_example_wf [OF db] p] db p show ?thesis by blast
qed

text \<open>
  On a well-formed tree the three loops of \<open>fetch_branch_from\<close> end and never follow an
  expired link: the call returns or reports an assertion failure, nothing else.
\<close>

theorem fetch_branch_terminates:
  assumes wf: "wf_fork db" and f: "fetch_branch_from x y db = Inl e"
  shows "e = assert_exception"
proof (rule ccontr)
  assume e: "e \<noteq> assert_exception"
  from f e obtain a0 b0 where s: "find_id x (index_items db) = Some a0" "find_id y (index_items db) = Some b0"
    by (auto simp: fetch_branch_from_def res_simps get_or_throw_def split: option.splits)
  note a = wf_fork_index [OF wf s(1)] and b = wf_fork_index [OF wf s(2)]
  let ?n = "Suc (num a0 + num b0)"
  from f s e a(4) b(4) have "walk_to ?n db (num b0) a0 = Inl e \<or>
    (\<exists>xs1 a1. walk_to ?n db (num b0) a0 = Inr (xs1, a1) \<and>
      (walk_to ?n db (block_num (data a1)) b0 = Inl e \<or>
       (\<exists>ys1 b1. walk_to ?n db (block_num (data a1)) b0 = Inr (ys1, b1) \<and> walk_both ?n db a1 b1 = Inl e)))"
    by (auto simp: fetch_branch_from_def Let_def res_simps simp del: walk_to.simps walk_both.simps split: prod.splits)
  with walk_to_fuel [OF wf a(1), of ?n] walk_to_fuel [OF wf b(1), of ?n] e
  obtain xs1 a1 ys1 b1 where w: "walk_to ?n db (num b0) a0 = Inr (xs1, a1)"
    "walk_to ?n db (block_num (data a1)) b0 = Inr (ys1, b1)" "walk_both ?n db a1 b1 = Inl e"
    by fastforce
  have "a1 \<in> set (owners db)" "num a1 < ?n" using walk_to_Inr [OF wf a(1) w(1)] by auto
  moreover have "b1 \<in> set (owners db)" using walk_to_Inr [OF wf b(1) w(2)] by auto
  ultimately show False using walk_both_fuel [OF wf, of a1 b1 ?n e] w(3) e by blast
qed

theorem fetch_branch_terminates_witness:
  "fetch_branch_from (3, 41) (2, 21) (fork_init :: nat fork_database) = Inl assert_exception"
proof -
  have "\<exists>e. fetch_branch_from (3, 41) (2, 21) (fork_init :: nat fork_database) = Inl e"
    by (simp add: fetch_branch_from_def find_id_def fork_init_def)
  with fetch_branch_terminates [OF wf_fork_init] show ?thesis by blast
qed

section \<open>Pushing what waits\<close>

text \<open>Every round of \<open>_push_next\<close>, which nothing calls at present, takes an item out of the unlinked ones, so as many rounds as there are suffice.\<close>

lemma push_item_unlinked:
  "case push_item it db of Inl e \<Rightarrow> e \<noteq> out_of_fuel | Inr db' \<Rightarrow> length (unlinked_index db') \<le> length (unlinked_index db)"
proof -
  have "link_item it db \<noteq> Inl out_of_fuel" by (auto simp: link_item_def fc_assert_def Let_def split: option.splits if_splits)
  moreover have "length (unlinked_index (adopt_head it' (db\<lparr>index_items := xs\<rparr>))) \<le> length (unlinked_index db)" for it' xs
    by (auto simp: adopt_head_def Let_def split: option.splits)
  ultimately show ?thesis by (auto simp: push_item_def fc_assert_def rbind_def split: sum.splits)
qed

lemma push_next_enough:
  "length (unlinked_index db) < fuel \<Longrightarrow> push_next (fuel + k) x db = push_next fuel x db \<and> push_next fuel x db \<noteq> Inl out_of_fuel"
proof (induction fuel arbitrary: db)
  case (Suc fuel)
  show ?case
  proof (cases "List.find (\<lambda>it. previous_id it = item_id x) (unlinked_index db)")
    case (Some it)
    let ?u = "filter (\<lambda>y. addr y \<noteq> addr it) (unlinked_index db)"
    from Some have "it \<in> set (unlinked_index db)" by (auto simp: find_Some_iff)
    then have "length ?u < length (unlinked_index db)" by (intro length_filter_less) auto
    with push_item_unlinked [where it = it and db = "db\<lparr>unlinked_index := ?u\<rparr>"] Some Suc show ?thesis
      by (cases "push_item it (db\<lparr>unlinked_index := ?u\<rparr>)") auto
  qed simp
qed simp

end
