(* ===== verification/Block_Database.thy ===== *)
theory Block_Database
  imports Block
begin

text \<open>
  \<open>block_database\<close> of \<open>libraries/chain\<close>: the blocks on disk. One file holds packed blocks, appended and never
  removed; the other holds for each block number an entry with the position, the size and the id of its block.
  All accesses to the second file are of whole entries at multiples of their size, so it is a list of entries; writing past
  its end fills the gap with zeros, which are empty entries. Packing, unpacking and the hash of a block are parameters.
\<close>

section \<open>State\<close>

type_synonym byte = "8 word"

record index_entry =
  block_pos :: int
  block_size :: int
  entry_id :: block_id

record block_database =
  blocks_file :: "byte list"
  index_file :: "index_entry list"

record 't codec =
  pack :: "'t signed_block \<Rightarrow> byte list"
  unpack :: "byte list \<Rightarrow> 't signed_block result"
  block_hash :: "'t signed_block \<Rightarrow> nat"

definition empty_entry :: index_entry where
  "empty_entry = \<lparr>block_pos = 0, block_size = 0, entry_id = null_block_id\<rparr>"

definition block_database_init :: block_database where
  "block_database_init = \<lparr>blocks_file = [], index_file = []\<rparr>"

abbreviation block_id_of :: "'t codec \<Rightarrow> 't signed_block \<Rightarrow> block_id" where
  "block_id_of K b \<equiv> id_of (block_hash K) b"

section \<open>Operations\<close>

definition write_entry :: "nat \<Rightarrow> index_entry \<Rightarrow> index_entry list \<Rightarrow> index_entry list" where
  "write_entry n e es = (if n < length es then es[n := e] else es @ replicate (n - length es) empty_entry @ [e])"

definition store :: "'t codec \<Rightarrow> block_id \<Rightarrow> 't signed_block \<Rightarrow> block_database \<Rightarrow> block_database" where
  "store K i b db =
     (let bid = (if i = null_block_id then block_id_of K b else i);
          vec = pack K b;
          e = \<lparr>block_pos = int (length (blocks_file db)), block_size = u32 (int (length vec)), entry_id = bid\<rparr>
      in \<lparr>blocks_file = blocks_file db @ vec, index_file = write_entry (num_from_id bid) e (index_file db)\<rparr>)"

definition remove_stored :: "block_id \<Rightarrow> block_database \<Rightarrow> block_database result" where
  "remove_stored i db =
     (let n = num_from_id i in
      if length (index_file db) \<le> n then Inl key_not_found_exception
      else
        let e = index_file db ! n in
        Inr (if entry_id e = i then db\<lparr>index_file := (index_file db)[n := e\<lparr>block_size := 0\<rparr>]\<rparr> else db))"

definition contains :: "block_id \<Rightarrow> block_database \<Rightarrow> bool" where
  "contains i db =
     (if i = null_block_id then False
      else
        let n = num_from_id i in
        if length (index_file db) \<le> n then False
        else entry_id (index_file db ! n) = i \<and> block_size (index_file db ! n) > 0)"

definition fetch_block_id :: "nat \<Rightarrow> block_database \<Rightarrow> block_id result" where
  "fetch_block_id n db =
     (if length (index_file db) \<le> n then Inl key_not_found_exception
      else fc_assert (entry_id (index_file db ! n) \<noteq> null_block_id) (Inr (entry_id (index_file db ! n))))"

text \<open>
  Reading past the end of the file of blocks makes the stream throw. The stream also stays in its failed state, which nothing clears, so that
  later reads fail as well; the model does not keep this state. On well-kept files no read goes past the end.
\<close>

definition read_block :: "'t codec \<Rightarrow> index_entry \<Rightarrow> block_database \<Rightarrow> 't signed_block result" where
  "read_block K e db =
     (if block_pos e + block_size e \<le> int (length (blocks_file db))
      then unpack K (take (nat (block_size e)) (drop (nat (block_pos e)) (blocks_file db)))
      else Inl other_exception)"

definition read_checked :: "'t codec \<Rightarrow> index_entry \<Rightarrow> block_database \<Rightarrow> 't signed_block option" where
  "read_checked K e db =
     (case rbind (read_block K e db) (\<lambda>b. fc_assert (block_id_of K b = entry_id e) (Inr b)) of
        Inl _ \<Rightarrow> None
      | Inr b \<Rightarrow> Some b)"

definition fetch_optional :: "'t codec \<Rightarrow> block_id \<Rightarrow> block_database \<Rightarrow> 't signed_block option" where
  "fetch_optional K i db =
     (let n = num_from_id i in
      if length (index_file db) \<le> n then None
      else
        let e = index_file db ! n in
        if entry_id e \<noteq> i then None else read_checked K e db)"

definition fetch_by_number :: "'t codec \<Rightarrow> nat \<Rightarrow> block_database \<Rightarrow> 't signed_block option" where
  "fetch_by_number K n db = (if length (index_file db) \<le> n then None else read_checked K (index_file db ! n) db)"

text \<open>The loop of \<open>last\<close> and \<open>last_id\<close>: from the last entry towards the front until one is not empty.\<close>

fun last_entry :: "index_entry \<Rightarrow> nat \<Rightarrow> index_entry list \<Rightarrow> index_entry" where
  "last_entry e 0 es = e"
| "last_entry e (Suc pos) es = (if block_size e = 0 then last_entry (es ! pos) pos es else e)"

definition find_last_entry :: "block_database \<Rightarrow> index_entry option" where
  "find_last_entry db =
     (let es = index_file db in
      if es = [] then None
      else
        let e = last_entry (List.last es) (length es) es in
        if block_size e = 0 then None else Some e)"

definition last_block :: "'t codec \<Rightarrow> block_database \<Rightarrow> 't signed_block option" where
  "last_block K db =
     (case find_last_entry db of
        None \<Rightarrow> None
      | Some e \<Rightarrow> (case read_block K e db of Inl _ \<Rightarrow> None | Inr b \<Rightarrow> Some b))"

definition last_id :: "block_database \<Rightarrow> block_id option" where
  "last_id db = map_option entry_id (find_last_entry db)"

section \<open>Well-kept files\<close>

text \<open>What the code relies on: packing can be undone, and nothing is packed as no bytes.\<close>

definition codec_ok :: "'t codec \<Rightarrow> bool" where
  "codec_ok K \<longleftrightarrow> (\<forall>b. unpack K (pack K b) = Inr b) \<and> \<not> succeeds (unpack K [])"

definition entry_ok :: "'t codec \<Rightarrow> byte list \<Rightarrow> nat \<Rightarrow> index_entry \<Rightarrow> bool" where
  "entry_ok K f n e \<longleftrightarrow> 0 \<le> block_pos e \<and> 0 \<le> block_size e \<and>
     (block_size e > 0 \<longrightarrow> (\<exists>b. take (nat (block_size e)) (drop (nat (block_pos e)) f) = pack K b \<and>
        block_pos e + block_size e \<le> int (length f) \<and> block_id_of K b = entry_id e \<and> block_num b = n))"

definition files_ok :: "'t codec \<Rightarrow> block_database \<Rightarrow> bool" where
  "files_ok K db \<longleftrightarrow> (\<forall>n < length (index_file db). entry_ok K (blocks_file db) n (index_file db ! n))"

lemma files_ok_init: "files_ok K block_database_init"
  by (simp add: files_ok_def block_database_init_def)

lemma write_entry_nth:
  "m < length (write_entry n e es) \<Longrightarrow>
   write_entry n e es ! m = (if m = n then e else if m < length es then es ! m else empty_entry)"
  by (auto simp: write_entry_def nth_append nth_append_left split: if_splits)

lemma length_write_entry: "length (write_entry n e es) = max (length es) (Suc n)"
  by (simp add: write_entry_def)

lemma entry_ok_append: "entry_ok K f n e \<Longrightarrow> entry_ok K (f @ g) n e"
  by (fastforce simp: entry_ok_def take_append nat_le_iff)

lemma entry_ok_empty: "entry_ok K f n empty_entry"
  by (simp add: entry_ok_def empty_entry_def)

lemma read_checked_ok:
  assumes K: "codec_ok K" and e: "entry_ok K (blocks_file db) n e"
  shows "block_size e = 0 \<Longrightarrow> read_checked K e db = None"
    "block_size e > 0 \<Longrightarrow> \<exists>b. read_checked K e db = Some b \<and> read_block K e db = Inr b \<and> block_id_of K b = entry_id e \<and> block_num b = n"
proof -
  show "read_checked K e db = None" if "block_size e = 0"
    using K that by (auto simp: read_checked_def read_block_def codec_ok_def succeeds_iff split: sum.splits) (simp add: rbind_def split: sum.splits)
  show "\<exists>b. read_checked K e db = Some b \<and> read_block K e db = Inr b \<and> block_id_of K b = entry_id e \<and> block_num b = n" if "block_size e > 0"
    using K e that by (auto simp: read_checked_def read_block_def codec_ok_def entry_ok_def)
qed

lemma read_checked_append:
  assumes K: "codec_ok K" and e: "entry_ok K (blocks_file db) n e" and f: "blocks_file db' = blocks_file db @ g"
  shows "read_checked K e db' = read_checked K e db"
proof (cases "block_size e = 0")
  case True
  from f e have "entry_ok K (blocks_file db') n e" by (simp add: entry_ok_append)
  with read_checked_ok(1) [OF K e True] read_checked_ok(1) [OF K _ True] show ?thesis by simp
next
  case False
  with e have "block_pos e + block_size e \<le> int (length (blocks_file db))" "0 \<le> block_pos e" "0 \<le> block_size e" by (auto simp: entry_ok_def)
  then have "read_block K e db' = read_block K e db" by (simp add: read_block_def f take_append)
  then show ?thesis by (simp add: read_checked_def)
qed

section \<open>Storing and removing\<close>

lemma store_ok:
  assumes K: "codec_ok K" and ok: "files_ok K db" and i: "i = block_id_of K b" and l: "length (pack K b) < 2 ^ 32"
  shows "files_ok K (store K i b db)"
    "fetch_by_number K n (store K i b db) = (if n = block_num b then Some b else fetch_by_number K n db)"
proof -
  let ?e = "\<lparr>block_pos = int (length (blocks_file db)), block_size = u32 (int (length (pack K b))), entry_id = i\<rparr>"
  have s: "store K i b db = \<lparr>blocks_file = blocks_file db @ pack K b, index_file = write_entry (block_num b) ?e (index_file db)\<rparr>"
    by (auto simp: store_def Let_def i id_of_def num_from_id_def prod_eq_iff)
  have "pack K b \<noteq> []" using K by (auto simp: codec_ok_def succeeds_iff) (metis)
  then have z: "0 < int (length (pack K b))" by simp
  have u: "u32 (int (length (pack K b))) = int (length (pack K b))" using l by simp
  have e: "entry_ok K (blocks_file (store K i b db)) (block_num b) ?e" unfolding s entry_ok_def by (auto simp: u i intro!: exI [of _ b])
  have o: "entry_ok K (blocks_file (store K i b db)) m (index_file db ! m)" if "m < length (index_file db)" for m
    using ok that unfolding files_ok_def s by (simp add: entry_ok_append)
  show "files_ok K (store K i b db)"
    unfolding files_ok_def
  proof (intro allI impI)
    fix m assume "m < length (index_file (store K i b db))"
    then show "entry_ok K (blocks_file (store K i b db)) m (index_file (store K i b db) ! m)"
      using e o [of m] entry_ok_empty by (auto simp: s write_entry_nth)
  qed
  have at_b: "read_checked K ?e (store K i b db) = Some b"
  proof -
    have "read_block K ?e (store K i b db) = Inr b" using K by (simp add: read_block_def s u codec_ok_def)
    then show ?thesis by (simp add: read_checked_def i)
  qed
  have old: "read_checked K (index_file db ! n) (store K i b db) = read_checked K (index_file db ! n) db" if "n < length (index_file db)"
    using ok that read_checked_append [OF K, of db n "index_file db ! n" "store K i b db" "pack K b"] by (simp add: files_ok_def s)
  have gap: "read_checked K empty_entry d = None" for d
    by (rule read_checked_ok(1) [OF K entry_ok_empty]) (simp add: empty_entry_def)
  show "fetch_by_number K n (store K i b db) = (if n = block_num b then Some b else fetch_by_number K n db)"
  proof (cases "n < length (index_file (store K i b db))")
    case True
    then show ?thesis using at_b old gap by (auto simp: fetch_by_number_def s write_entry_nth not_le)
  next
    case False
    then show ?thesis by (auto simp: fetch_by_number_def s length_write_entry)
  qed
qed

lemma fetch_number_id:
  assumes K: "codec_ok K" and ok: "files_ok K db" and f: "fetch_by_number K n db = Some b"
  shows "block_num b = n" "n < length (index_file db)" "entry_id (index_file db ! n) = block_id_of K b" "block_size (index_file db ! n) > 0"
proof -
  from f show n: "n < length (index_file db)" by (auto simp: fetch_by_number_def split: if_splits)
  with ok have e: "entry_ok K (blocks_file db) n (index_file db ! n)" by (simp add: files_ok_def)
  from f n read_checked_ok(1) [OF K e] have "block_size (index_file db ! n) \<noteq> 0" by (auto simp: fetch_by_number_def)
  moreover from e have "0 \<le> block_size (index_file db ! n)" by (simp add: entry_ok_def)
  ultimately show z: "block_size (index_file db ! n) > 0" by simp
  from read_checked_ok(2) [OF K e z] f n show "block_num b = n" "entry_id (index_file db ! n) = block_id_of K b"
    by (auto simp: fetch_by_number_def)
qed

lemma fetch_optional_number:
  assumes K: "codec_ok K" and ok: "files_ok K db"
  shows "fetch_optional K i db = Some b \<longleftrightarrow> fetch_by_number K (num_from_id i) db = Some b \<and> i = block_id_of K b"
proof
  assume "fetch_optional K i db = Some b"
  then have "fetch_by_number K (num_from_id i) db = Some b" "entry_id (index_file db ! num_from_id i) = i"
    by (auto simp: fetch_optional_def fetch_by_number_def Let_def split: if_splits)
  with fetch_number_id [OF K ok] show "fetch_by_number K (num_from_id i) db = Some b \<and> i = block_id_of K b" by metis
next
  assume f: "fetch_by_number K (num_from_id i) db = Some b \<and> i = block_id_of K b"
  with fetch_number_id [OF K ok] have "entry_id (index_file db ! num_from_id i) = i" "num_from_id i < length (index_file db)" by metis+
  with f show "fetch_optional K i db = Some b" unfolding fetch_optional_def fetch_by_number_def Let_def by (auto split: if_splits)
qed

lemma option_eqI: "x = y" if "\<And>b. x = Some b \<longleftrightarrow> y = Some b"
  using that [of "the x"] that [of "the y"] by (cases x; cases y) simp_all

lemma fetch_optional_iff:
  assumes K: "codec_ok K" and ok: "files_ok K db"
  shows "fetch_optional K i db =
    (case fetch_by_number K (num_from_id i) db of None \<Rightarrow> None | Some b \<Rightarrow> if i = block_id_of K b then Some b else None)"
proof -
  have some: "fetch_optional K i db = Some b \<longleftrightarrow> (case fetch_by_number K (num_from_id i) db of None \<Rightarrow> None
      | Some b \<Rightarrow> if i = block_id_of K b then Some b else None) = Some b" for b
    using fetch_optional_number [OF K ok, of i b] by (auto simp del: split_paired_All split: option.splits)
  show ?thesis by (rule option_eqI [OF some])
qed

lemma num_of_block_id: "num_from_id (block_id_of K b) = block_num b"
  by (simp add: id_of_def num_from_id_def)

text \<open>
  C25: Blocks on disk are a map from numbers to blocks. On well-kept files storing a block makes it the block of its number
  and leaves all other numbers alone; removing a block that is stored makes its number empty. The lookup by id finds
  the block stored under the number in the id if that block has the id, and nothing otherwise: before, after
  storing, when no other id of the number finds a block, and after removing, when the id finds nothing. The files stay well kept.
\<close>

theorem block_files_round_trip:
  assumes "codec_ok K" "files_ok K db" "length (pack K b) < 2 ^ 32"
  shows "files_ok K (store K (block_id_of K b) b db) \<and>
    (\<lambda>n. fetch_by_number K n (store K (block_id_of K b) b db)) = (\<lambda>n. fetch_by_number K n db)(block_num b \<mapsto> b) \<and>
    (\<forall>i. fetch_optional K i (store K (block_id_of K b) b db) =
      (if i = block_id_of K b then Some b else if num_from_id i = block_num b then None else fetch_optional K i db)) \<and>
    (\<forall>i. fetch_optional K i db =
      (case fetch_by_number K (num_from_id i) db of None \<Rightarrow> None | Some c \<Rightarrow> if i = block_id_of K c then Some c else None)) \<and>
    (\<forall>c. fetch_by_number K n db = Some c \<longrightarrow>
      (\<exists>db'. remove_stored (block_id_of K c) db = Inr db' \<and> files_ok K db' \<and>
        (\<lambda>m. fetch_by_number K m db') = (\<lambda>m. fetch_by_number K m db)(n := None) \<and>
        (\<lambda>i. fetch_optional K i db') = (\<lambda>i. fetch_optional K i db)(block_id_of K c := None)))"
proof (intro conjI allI impI)
  note st = store_ok [OF assms(1,2) refl assms(3)]
  show "files_ok K (store K (block_id_of K b) b db)"
    "(\<lambda>n. fetch_by_number K n (store K (block_id_of K b) b db)) = (\<lambda>n. fetch_by_number K n db)(block_num b \<mapsto> b)"
    using st by (simp_all add: fun_eq_iff)
  show "fetch_optional K i (store K (block_id_of K b) b db) =
      (if i = block_id_of K b then Some b else if num_from_id i = block_num b then None else fetch_optional K i db)" for i
    unfolding fetch_optional_iff [OF assms(1) st(1)] fetch_optional_iff [OF assms(1,2)] st(2)
    using num_of_block_id [of K b] by (cases "num_from_id i = block_num b") auto
  show "fetch_optional K i db =
      (case fetch_by_number K (num_from_id i) db of None \<Rightarrow> None | Some c \<Rightarrow> if i = block_id_of K c then Some c else None)" for i
    by (rule fetch_optional_iff [OF assms(1,2)])
  fix c assume c: "fetch_by_number K n db = Some c"
  note f = fetch_number_id [OF assms(1,2) c]
  let ?e = "(index_file db ! n)\<lparr>block_size := 0\<rparr>"
  let ?db = "db\<lparr>index_file := (index_file db)[n := ?e]\<rparr>"
  have r: "remove_stored (block_id_of K c) db = Inr ?db"
    using f by (simp add: remove_stored_def Let_def id_of_def num_from_id_def)
  have "entry_ok K (blocks_file db) n (index_file db ! n)" using assms(2) f(2) by (simp add: files_ok_def)
  then have e: "entry_ok K (blocks_file db) n ?e" by (simp add: entry_ok_def)
  have ok: "files_ok K ?db"
    unfolding files_ok_def
  proof (intro allI impI)
    fix m assume "m < length (index_file ?db)"
    then show "entry_ok K (blocks_file ?db) m (index_file ?db ! m)"
      using e assms(2) by (cases "m = n") (simp_all add: files_ok_def)
  qed
  have rd: "read_checked K x ?db = read_checked K x db" for x by (simp add: read_checked_def read_block_def)
  have "read_checked K ?e db = None" by (rule read_checked_ok(1) [OF assms(1) e]) simp
  then have "(\<lambda>m. fetch_by_number K m ?db) = (\<lambda>m. fetch_by_number K m db)(n := None)"
    by (simp add: fetch_by_number_def rd fun_eq_iff nth_list_update)
  moreover from this have "(\<lambda>i. fetch_optional K i ?db) = (\<lambda>i. fetch_optional K i db)(block_id_of K c := None)"
    using f(1) c by (auto simp: fun_eq_iff fetch_optional_iff [OF assms(1) ok] fetch_optional_iff [OF assms(1,2)] num_of_block_id split: option.splits)
  ultimately show "\<exists>db'. remove_stored (block_id_of K c) db = Inr db' \<and> files_ok K db' \<and>
        (\<lambda>m. fetch_by_number K m db') = (\<lambda>m. fetch_by_number K m db)(n := None) \<and>
        (\<lambda>i. fetch_optional K i db') = (\<lambda>i. fetch_optional K i db)(block_id_of K c := None)" using r ok by blast
qed

section \<open>The last block\<close>

lemma last_entry_spec:
  "block_size e \<noteq> 0 \<Longrightarrow> last_entry e pos es = e"
  "block_size e = 0 \<Longrightarrow> block_size (last_entry e pos es) = 0 \<Longrightarrow> m < pos \<Longrightarrow> block_size (es ! m) = 0"
  "block_size e = 0 \<Longrightarrow> block_size (last_entry e pos es) \<noteq> 0 \<Longrightarrow>
     \<exists>n < pos. last_entry e pos es = es ! n \<and> (\<forall>m < pos. m > n \<longrightarrow> block_size (es ! m) = 0)"
proof -
  show same: "block_size e \<noteq> 0 \<Longrightarrow> last_entry e pos es = e" for e pos by (cases pos) simp_all
  show "block_size e = 0 \<Longrightarrow> block_size (last_entry e pos es) = 0 \<Longrightarrow> m < pos \<Longrightarrow> block_size (es ! m) = 0"
  proof (induction pos arbitrary: e)
    case (Suc pos)
    then show ?case using same [of "es ! pos" pos] by (cases "m = pos"; cases "block_size (es ! pos) = 0") auto
  qed simp
  show "block_size e = 0 \<Longrightarrow> block_size (last_entry e pos es) \<noteq> 0 \<Longrightarrow>
     \<exists>n < pos. last_entry e pos es = es ! n \<and> (\<forall>m < pos. m > n \<longrightarrow> block_size (es ! m) = 0)"
  proof (induction pos arbitrary: e)
    case (Suc pos)
    show ?case
    proof (cases "block_size (es ! pos) = 0")
      case True
      with Suc obtain n where "n < pos" "last_entry (es ! pos) pos es = es ! n" "\<forall>m < pos. m > n \<longrightarrow> block_size (es ! m) = 0" by auto
      with True Suc.prems(1) show ?thesis by (intro exI [of _ n]) (auto simp: less_Suc_eq)
    next
      case False
      with same [OF False, of pos] Suc.prems(1) show ?thesis by (intro exI [of _ pos]) simp
    qed
  qed simp
qed

lemma find_last_entry_spec:
  "find_last_entry db = Some e \<Longrightarrow>
     \<exists>n < length (index_file db). e = index_file db ! n \<and> block_size e \<noteq> 0 \<and> (\<forall>m < length (index_file db). m > n \<longrightarrow> block_size (index_file db ! m) = 0)"
  "find_last_entry db = None \<Longrightarrow> m < length (index_file db) \<Longrightarrow> block_size (index_file db ! m) = 0"
proof -
  let ?es = "index_file db"
  let ?l = "length ?es - 1"
  have l: "List.last ?es = ?es ! ?l" "?l < length ?es" if "?es \<noteq> []" using that by (simp_all add: last_conv_nth)
  show "find_last_entry db = Some e \<Longrightarrow>
     \<exists>n < length ?es. e = ?es ! n \<and> block_size e \<noteq> 0 \<and> (\<forall>m < length ?es. m > n \<longrightarrow> block_size (?es ! m) = 0)"
  proof -
    assume f: "find_last_entry db = Some e"
    then have ne: "?es \<noteq> []" and e: "e = last_entry (List.last ?es) (length ?es) ?es" "block_size e \<noteq> 0"
      by (auto simp: find_last_entry_def Let_def split: if_splits)
    show ?thesis
    proof (cases "block_size (List.last ?es) = 0")
      case True
      with last_entry_spec(3) [OF True, of "length ?es" ?es] e show ?thesis by auto
    next
      case False
      with last_entry_spec(1) [OF False] e(1) l [OF ne] show ?thesis by (intro exI [of _ ?l]) auto
    qed
  qed
  show "block_size (?es ! m) = 0" if n: "find_last_entry db = None" and m: "m < length ?es"
  proof -
    from m have ne: "?es \<noteq> []" by auto
    with n have z: "block_size (last_entry (List.last ?es) (length ?es) ?es) = 0"
      by (auto simp: find_last_entry_def Let_def split: if_splits)
    then have "block_size (List.last ?es) = 0" using last_entry_spec(1) by metis
    from last_entry_spec(2) [OF this z m] show ?thesis .
  qed
qed

text \<open>
  The last block is the highest. On well-kept files \<open>last\<close> and \<open>last_id\<close> find the stored block with the greatest number, and
  find none only when there is none.
\<close>

theorem last_block_highest:
  assumes K: "codec_ok K" and ok: "files_ok K db"
  shows "case last_block K db of
      None \<Rightarrow> last_id db = None \<and> (\<forall>n. fetch_by_number K n db = None)
    | Some b \<Rightarrow> fetch_by_number K (block_num b) db = Some b \<and> last_id db = Some (block_id_of K b) \<and>
        (\<forall>n > block_num b. fetch_by_number K n db = None)"
proof (cases "find_last_entry db")
  case None
  have "fetch_by_number K n db = None" for n
    using find_last_entry_spec(2) [OF None, of n] fetch_number_id(2,4) [OF K ok, of n] by (cases "fetch_by_number K n db") fastforce+
  with None show ?thesis by (simp add: last_block_def last_id_def)
next
  case (Some e)
  from find_last_entry_spec(1) [OF Some] obtain n where n: "n < length (index_file db)" "e = index_file db ! n" "block_size e \<noteq> 0"
    "\<forall>m < length (index_file db). m > n \<longrightarrow> block_size (index_file db ! m) = 0" by blast
  with ok have e: "entry_ok K (blocks_file db) n e" by (simp add: files_ok_def)
  with n(3) have "block_size e > 0" by (simp add: entry_ok_def)
  from read_checked_ok(2) [OF K e this] obtain b where b: "read_checked K e db = Some b" "read_block K e db = Inr b"
    "block_id_of K b = entry_id e" "block_num b = n" by blast
  have "fetch_by_number K m db = None" if "m > n" for m
    using n(4) that fetch_number_id(2,4) [OF K ok, of m] by (cases "fetch_by_number K m db") fastforce+
  with b n Some show ?thesis by (simp add: last_block_def last_id_def fetch_by_number_def)
qed

section \<open>Examples\<close>

text \<open>Numbers in unary, each followed by a zero.\<close>

fun numbers :: "nat \<Rightarrow> byte list \<Rightarrow> nat list" where
  "numbers n [] = []"
| "numbers n (x # xs) = (if x = 0 then n # numbers 0 xs else numbers (Suc n) xs)"

definition unary :: "nat list \<Rightarrow> byte list" where
  "unary ns = concat (map (\<lambda>n. replicate n 1 @ [0]) ns)"

lemma numbers_unary: "numbers 0 (unary ns) = ns"
proof -
  have "numbers k (replicate n 1 @ 0 # xs) = (k + n) # numbers 0 xs" for k n xs by (induction n arbitrary: k) simp_all
  then show ?thesis by (induction ns) (simp_all add: unary_def)
qed

definition codec_example :: "nat codec" where
  "codec_example =
     \<lparr>pack = \<lambda>b. unary ([fst (previous b), snd (previous b), timestamp b, miner b, transaction_merkle_root b, miner_signature b] @ transactions b),
      unpack = \<lambda>bs. (case numbers 0 bs of
          p # q # t # m # x # s # ts \<Rightarrow>
            Inr \<lparr>previous = (p, q), timestamp = t, miner = m, transaction_merkle_root = x, miner_signature = s, transactions = ts\<rparr>
        | _ \<Rightarrow> Inl other_exception),
      block_hash = \<lambda>b. timestamp b\<rparr>"

lemma codec_example_ok: "codec_ok codec_example"
  by (simp add: codec_ok_def codec_example_def succeeds_iff numbers_unary)

definition small_block :: "nat \<Rightarrow> nat \<Rightarrow> nat signed_block" where
  "small_block n t = \<lparr>previous = (n, n), timestamp = t, miner = 1, transaction_merkle_root = 0, miner_signature = 0, transactions = [5]\<rparr>"

definition files_example :: block_database where
  "files_example = store codec_example (block_id_of codec_example (small_block 2 3)) (small_block 2 3)
     (store codec_example (block_id_of codec_example (small_block 0 1)) (small_block 0 1) block_database_init)"

lemma small_block_facts: "block_num (small_block 2 3) = 3" "block_num (small_block 0 1) = 1" "block_num (small_block 1 2) = 2"
  by (simp_all add: small_block_def block_num_def num_from_id_def)

lemma small_block_size: "n < 9 \<Longrightarrow> t < 9 \<Longrightarrow> length (pack codec_example (small_block n t)) < 2 ^ 32"
  by (simp add: codec_example_def small_block_def unary_def)

lemma files_example_ok:
  "files_ok codec_example files_example"
  "fetch_by_number codec_example n files_example = (if n = 3 then Some (small_block 2 3) else if n = 1 then Some (small_block 0 1) else None)"
proof -
  note s1 = store_ok [OF codec_example_ok files_ok_init refl, of "small_block 0 1", OF small_block_size]
  note s2 = store_ok [OF codec_example_ok s1(1) refl, of "small_block 2 3", OF _ _ small_block_size, folded files_example_def]
  show "files_ok codec_example files_example" using s2(1) by simp
  have "fetch_by_number codec_example n block_database_init = None" by (simp add: fetch_by_number_def block_database_init_def)
  then show "fetch_by_number codec_example n files_example = (if n = 3 then Some (small_block 2 3) else if n = 1 then Some (small_block 0 1) else None)"
    using s2(2) [of n] s1(2) [of n] by (simp add: small_block_facts del: One_nat_def)
qed

theorem block_files_round_trip_witness:
  "fetch_by_number codec_example 2 (store codec_example (block_id_of codec_example (small_block 1 2)) (small_block 1 2) files_example) = Some (small_block 1 2) \<and>
   fetch_optional codec_example (block_id_of codec_example (small_block 1 4)) (store codec_example (block_id_of codec_example (small_block 1 2)) (small_block 1 2) files_example) = None \<and>
   (\<exists>db'. remove_stored (block_id_of codec_example (small_block 2 3)) files_example = Inr db' \<and> fetch_by_number codec_example 3 db' = None \<and>
     fetch_optional codec_example (block_id_of codec_example (small_block 2 3)) db' = None)"
proof -
  let ?b = "small_block 1 2" and ?c = "small_block 2 3"
  have l: "length (pack codec_example ?b) < 2 ^ 32" by (rule small_block_size) simp_all
  note rt = block_files_round_trip [OF codec_example_ok files_example_ok(1) l, of 3]
  have "fetch_by_number codec_example 3 files_example = Some ?c" by (simp add: files_example_ok(2))
  with rt obtain db' where r: "remove_stored (block_id_of codec_example ?c) files_example = Inr db'"
    "(\<lambda>m. fetch_by_number codec_example m db') = (\<lambda>m. fetch_by_number codec_example m files_example)(3 := None)"
    "(\<lambda>i. fetch_optional codec_example i db') = (\<lambda>i. fetch_optional codec_example i files_example)(block_id_of codec_example ?c := None)" by blast
  from rt have s: "(\<lambda>n. fetch_by_number codec_example n (store codec_example (block_id_of codec_example ?b) ?b files_example)) =
      (\<lambda>n. fetch_by_number codec_example n files_example)(block_num ?b \<mapsto> ?b)" by blast
  have "block_id_of codec_example (small_block 1 4) \<noteq> block_id_of codec_example ?b" "num_from_id (block_id_of codec_example (small_block 1 4)) = block_num ?b"
    by (simp_all add: id_of_def num_from_id_def block_num_def small_block_def codec_example_def)
  with rt [THEN conjunct2, THEN conjunct2, THEN conjunct1, THEN spec, of "block_id_of codec_example (small_block 1 4)"]
  have "fetch_optional codec_example (block_id_of codec_example (small_block 1 4)) (store codec_example (block_id_of codec_example ?b) ?b files_example) = None"
    by (simp del: One_nat_def)
  moreover have "fetch_by_number codec_example 2 (store codec_example (block_id_of codec_example ?b) ?b files_example) = Some ?b"
    using fun_cong [OF s, of 2] by (simp add: small_block_facts del: One_nat_def)
  moreover have "fetch_by_number codec_example 3 db' = None" "fetch_optional codec_example (block_id_of codec_example ?c) db' = None"
    using fun_cong [OF r(2), of 3] fun_cong [OF r(3), of "block_id_of codec_example ?c"] by simp_all
  ultimately show ?thesis using r(1) by blast
qed

theorem last_block_highest_witness:
  "last_block codec_example files_example = Some (small_block 2 3) \<and> last_id files_example = Some (block_id_of codec_example (small_block 2 3)) \<and>
   fetch_by_number codec_example 4 files_example = None"
proof -
  note h = last_block_highest [OF codec_example_ok files_example_ok(1)]
  have "last_block codec_example files_example = Some (small_block 2 3)"
  proof (cases "last_block codec_example files_example")
    case None
    with h files_example_ok(2) [of 3] show ?thesis by simp
  next
    case (Some b)
    with h have "fetch_by_number codec_example (block_num b) files_example = Some b" "\<not> 3 > block_num b"
      using files_example_ok(2) [of 3] by auto
    with Some show ?thesis by (auto simp: files_example_ok(2) split: if_splits)
  qed
  with h show ?thesis by (simp add: small_block_facts)
qed

end
