(* ===== verification/Block_Processing.thy ===== *)
theory Block_Processing
  imports Proposals Fork_Database Block_Database
begin

text \<open>
  How blocks and transactions change a node (\<open>db_block.cpp\<close>, \<open>db_with.hpp\<close>, \<open>db_management.cpp\<close>). Applying a transaction or a
  block is a function on the objects of the chain that may fail; what a node keeps around them, the undo history as a
  stack of snapshots, the tree of recent blocks, the blocks on disk and the pending transactions, survives an exception
  and so is returned with it. The skip flags, which the code keeps in the node while a call lasts, are an argument. The
  results of operations, which are stored in transactions and never read, and the listeners that observe blocks
  and operations are left out; the size of a transaction is taken without those results. The updates a debugging plugin
  attaches to blocks are left out, too. Hashes, signatures and packing are parameters.
\<close>

unbundle bit_operations_syntax

section \<open>Transactions\<close>

record signed_transaction =
  ref_block_num :: nat
  ref_block_prefix :: nat
  tx_expiration :: int
  tx_operations :: "operation list"
  tx_signatures :: "nat list"

type_synonym chain_block = "signed_transaction signed_block"

record block_env =
  blk_ops :: op_env
  blk_codec :: "signed_transaction codec"
  trx_hash :: "signed_transaction \<Rightarrow> nat"
  recover_keys :: "signed_transaction \<Rightarrow> nat list"
  trx_size :: "signed_transaction \<Rightarrow> nat"
  merkle_digest :: "signed_transaction \<Rightarrow> nat"
  pair_hash :: "nat \<Rightarrow> nat \<Rightarrow> nat"
  root_checksum :: "nat \<Rightarrow> nat"
  signee :: "chain_block \<Rightarrow> nat result"
  block_signature :: "nat \<Rightarrow> chain_block \<Rightarrow> nat"
  public_key :: "nat \<Rightarrow> nat"
  empty_header_size :: nat

abbreviation bid_of :: "block_env \<Rightarrow> chain_block \<Rightarrow> block_id" where
  "bid_of B b \<equiv> block_id_of (blk_codec B) b"

definition is_known_transaction :: "nat \<Rightarrow> database \<Rightarrow> bool" where
  "is_known_transaction h db = (idx_find_by (\<lambda>t. trx_id t = h) (transaction_ids db) \<noteq> None)"

definition check_signatures :: "block_env \<Rightarrow> 32 word \<Rightarrow> signed_transaction \<Rightarrow> database \<Rightarrow> unit result" where
  "check_signatures B skip trx db =
     (if skips skip (skip_transaction_signatures OR skip_authority_check) then Inr ()
      else transaction_verify_authority operation_get_required_authorities (tx_operations trx) (recover_keys B trx)
        (get_active_authority db) (get_owner_authority db) (max_authority_depth (parameters (gpo db))))"

text \<open>The part of a block id after the number is kept with its first word lowest.\<close>

definition id_prefix :: "block_id \<Rightarrow> nat" where
  "id_prefix i = snd i mod 2 ^ 32"

definition check_tapos :: "32 word \<Rightarrow> signed_transaction \<Rightarrow> database \<Rightarrow> unit result" where
  "check_tapos skip trx db =
     (if head_block_num db > 0 then
        rbind (if skips skip skip_tapos_check then Inr ()
               else rbind (idx_get (block_summaries db) (ref_block_num trx)) (\<lambda>s.
                 fc_assert (ref_block_prefix trx = id_prefix (summary_block_id s)) (Inr ()))) (\<lambda>_.
          let t = head_block_time db in
          fc_assert (tx_expiration trx \<le> u32 (t + maximum_time_until_expiration (parameters (gpo db))))
         (fc_assert (t \<le> tx_expiration trx) (Inr ())))
      else Inr ())"

definition record_transaction :: "block_env \<Rightarrow> 32 word \<Rightarrow> signed_transaction \<Rightarrow> database \<Rightarrow> database result" where
  "record_transaction B skip trx db =
     (if skips skip skip_transaction_dupe_check then Inr db
      else create_transaction \<lparr>trx_id = trx_hash B trx, trx_expiration = tx_expiration trx\<rparr> db)"

definition temp_account_empty :: "database \<Rightarrow> bool" where
  "temp_account_empty db = list_all (\<lambda>b. bal_owner b = GRAPHENE_TEMP_ACCOUNT \<longrightarrow> bal_amount b = 0) (idx_objects (balances db))"

definition apply_transaction :: "safe \<Rightarrow> block_env \<Rightarrow> 32 word \<Rightarrow> signed_transaction \<Rightarrow> chain \<Rightarrow> chain result" where
  "apply_transaction S B skip trx c =
     rbind (transaction_validate (env_proto (blk_ops B)) (tx_operations trx)) (\<lambda>_.
     fc_assert (skips skip skip_transaction_dupe_check \<or> \<not> is_known_transaction (trx_hash B trx) (chain_db c))
    (rbind (check_signatures B skip trx (chain_db c)) (\<lambda>_.
     rbind (check_tapos skip trx (chain_db c)) (\<lambda>_.
     rbind (record_transaction B skip trx (chain_db c)) (\<lambda>d.
     rbind (fold_res (apply_operation push_depth S (blk_ops B) skip False) (tx_operations trx) (c\<lparr>chain_db := d\<rparr>)) (\<lambda>c1.
     fc_assert (temp_account_empty (chain_db c1)) (Inr c1)))))))"

section \<open>Applying a block\<close>

definition validate_block_header :: "block_env \<Rightarrow> 32 word \<Rightarrow> chain_block \<Rightarrow> database \<Rightarrow> unit result" where
  "validate_block_header B skip b db =
     fc_assert (head_block_id db = previous b)
    (fc_assert (head_block_time db < int (timestamp b))
    (rbind (idx_get (miners db) (miner b)) (\<lambda>m.
     rbind (if skips skip skip_miner_signature then Inr ()
            else rbind (signee B b) (\<lambda>k. fc_assert (k = signing_key m) (Inr ()))) (\<lambda>_.
     if skips skip skip_miner_schedule_check then Inr ()
     else
       rbind (get_slot_at_time (int (timestamp b)) db) (\<lambda>slot_num.
       fc_assert (slot_num > 0)
      (rbind (get_scheduled_miner slot_num db) (\<lambda>scheduled_miner.
       fc_assert (miner b = scheduled_miner) (Inr ()))))))))"

definition merkle_root_of :: "block_env \<Rightarrow> chain_block \<Rightarrow> nat" where
  "merkle_root_of B b = calculate_merkle_root (merkle_digest B) (pair_hash B) (root_checksum B) b"

text \<open>The first half of \<open>_apply_block\<close>, up to the point where the limits of the node are adjusted; the flag says whether maintenance is due.\<close>

definition begin_block :: "safe \<Rightarrow> block_env \<Rightarrow> int option \<Rightarrow> 32 word \<Rightarrow> chain_block \<Rightarrow> chain \<Rightarrow> (bool \<times> chain) result" where
  "begin_block S B last_checkpoint skip b c =
     (let c0 = c\<lparr>chain_db := (chain_db c)\<lparr>applied_ops := []\<rparr>\<rparr> in
      fc_assert (skips skip skip_merkle_check \<or> transaction_merkle_root b = merkle_root_of B b)
     (rbind (validate_block_header B skip b (chain_db c0)) (\<lambda>_.
      let maint_needed = next_maintenance_time (dpo (chain_db c0)) \<le> int (timestamp b) in
      rbind (fold_res (apply_transaction S B (skip OR skip_transaction_signatures)) (transactions b) c0) (\<lambda>c1.
      rbind (update_global_dynamic_data (skips skip skip_undo_history_check) last_checkpoint (int (block_num b)) (bid_of B b)
              (int (timestamp b)) (miner b) (chain_db c1)) (\<lambda>d.
        Inr (maint_needed, c1\<lparr>chain_db := d\<rparr>))))))"

definition create_block_summary :: "block_env \<Rightarrow> chain_block \<Rightarrow> database \<Rightarrow> database result" where
  "create_block_summary B b db =
     rbind (idx_get (block_summaries db) (block_num b mod 2 ^ 16)) (\<lambda>_.
       modify_summary (block_num b mod 2 ^ 16) (\<lambda>p. p\<lparr>summary_block_id := bid_of B b\<rparr>) db)"

text \<open>The second half.\<close>

definition finish_block :: "safe \<Rightarrow> block_env \<Rightarrow> 32 word \<Rightarrow> bool \<Rightarrow> chain_block \<Rightarrow> chain \<Rightarrow> chain result" where
  "finish_block S B skip maint_needed b c =
     (let num = int (block_num b); time = int (timestamp b) in
      fold_res (\<lambda>f. f)
        [lift_db (update_signing_miner S (miner b) num time),
         lift_db (update_last_irreversible_block (skips skip skip_undo_history_check)),
         lift_db (\<lambda>db. if maint_needed then perform_chain_maintenance S num time db else Inr db),
         lift_db (create_block_summary B b),
         lift_db clear_expired_transactions,
         clear_expired_proposals S (blk_ops B) skip,
         lift_db update_expired_feeds,
         lift_db update_withdraw_permissions,
         lift_db (\<lambda>db. Inr (update_maintenance_flag maint_needed db)),
         lift_db update_miner_schedule,
         lift_db (\<lambda>db. Inr (db\<lparr>applied_ops := []\<rparr>))] c)"

type_synonym checkpoint_map = "(nat \<times> block_id) list"

definition last_checkpoint :: "checkpoint_map \<Rightarrow> int option" where
  "last_checkpoint cps = (if cps = [] then None else Some (int (fst (List.last cps))))"

text \<open>Below the last checkpoint every check is skipped, provided the checkpoints met on the way agree.\<close>

definition checkpoint_skip :: "block_env \<Rightarrow> checkpoint_map \<Rightarrow> chain_block \<Rightarrow> 32 word \<Rightarrow> 32 word result" where
  "checkpoint_skip B cps b skip =
     (if cps \<noteq> [] \<and> snd (List.last cps) \<noteq> null_block_id then
        fc_assert (case map_of cps (block_num b) of None \<Rightarrow> True | Some i \<Rightarrow> bid_of B b = i)
          (Inr (if fst (List.last cps) \<ge> block_num b then NOT 0 else skip))
      else Inr skip)"

definition apply_block :: "safe \<Rightarrow> block_env \<Rightarrow> checkpoint_map \<Rightarrow> 32 word \<Rightarrow> chain_block \<Rightarrow> chain \<Rightarrow> chain result" where
  "apply_block S B cps skip0 b c =
     rbind (checkpoint_skip B cps b skip0) (\<lambda>skip.
     rbind (begin_block S B (last_checkpoint cps) skip b c) (\<lambda>(maint_needed, c1).
       finish_block S B skip maint_needed b c1))"

definition add_checkpoints :: "checkpoint_map \<Rightarrow> checkpoint_map \<Rightarrow> checkpoint_map" where
  "add_checkpoints checkpts cps = fold (\<lambda>(n, i). map_assign n i) checkpts cps"

definition before_last_checkpoint :: "checkpoint_map \<Rightarrow> database \<Rightarrow> bool" where
  "before_last_checkpoint cps db = (cps \<noteq> [] \<and> int (fst (List.last cps)) \<ge> head_block_num db)"

section \<open>The node\<close>

record node =
  node_chain :: chain
  snapshots :: "chain list"
  undo_limit :: nat
  fork_db :: "signed_transaction fork_database"
  block_files :: block_database
  checkpoints :: checkpoint_map
  pending_tx :: "signed_transaction list"
  pending_session :: bool
  popped_tx :: "signed_transaction list"

abbreviation node_db :: "node \<Rightarrow> database" where
  "node_db n \<equiv> chain_db (node_chain n)"

type_synonym 'a action = "node \<Rightarrow> 'a result \<times> node"

definition caught :: "fc_exception \<Rightarrow> bool" where
  "caught e = (e \<noteq> undefined_behaviour \<and> e \<noteq> out_of_fuel)"

subsection \<open>Undo sessions\<close>

definition start_session :: "node \<Rightarrow> node" where
  "start_session n = n\<lparr>snapshots := node_chain n # take (undo_limit n) (snapshots n)\<rparr>"

definition undo_session :: "node \<Rightarrow> node" where
  "undo_session n =
     (case snapshots n of
        [] \<Rightarrow> n
      | s # ss \<Rightarrow> n\<lparr>node_chain := s, snapshots := if ss = [] then [s] else ss\<rparr>)"

definition merge_session :: "unit action" where
  "merge_session n =
     (case snapshots n of
        s # t # ss \<Rightarrow> (Inr (), n\<lparr>snapshots := t # ss\<rparr>)
      | _ \<Rightarrow> (Inl assert_exception, n))"

definition pop_undo :: "unit action" where
  "pop_undo n =
     (case snapshots n of
        [] \<Rightarrow> (Inl assert_exception, n)
      | s # ss \<Rightarrow> (Inr (), n\<lparr>node_chain := s, snapshots := ss\<rparr>))"

text \<open>What happens inside a session that is committed at the end; an exception undoes it.\<close>

definition committed :: "unit action \<Rightarrow> unit action" where
  "committed f n =
     (case f (start_session n) of
        (Inr _, n') \<Rightarrow> (Inr (), n')
      | (Inl e, n') \<Rightarrow> (Inl e, undo_session n'))"

definition reset_pending :: "node \<Rightarrow> node" where
  "reset_pending n = (if pending_session n then (undo_session n)\<lparr>pending_session := False\<rparr> else n)"

definition clear_pending :: "node \<Rightarrow> node" where
  "clear_pending n = reset_pending (n\<lparr>pending_tx := []\<rparr>)"

subsection \<open>Blocks\<close>

definition resize :: "database \<Rightarrow> node \<Rightarrow> node" where
  "resize d n =
     (let k = nat (u32 (head_block_number (dpo d) - last_irreversible_block_num (dpo d) + 1)) in
      n\<lparr>undo_limit := k, fork_db := set_max_size k (fork_db n)\<rparr>)"

definition run_block :: "safe \<Rightarrow> block_env \<Rightarrow> 32 word \<Rightarrow> chain_block \<Rightarrow> unit action" where
  "run_block S B skip0 b n =
     (case checkpoint_skip B (checkpoints n) b skip0 of
        Inl e \<Rightarrow> (Inl e, n)
      | Inr skip \<Rightarrow>
          (case begin_block S B (last_checkpoint (checkpoints n)) skip b (node_chain n) of
             Inl e \<Rightarrow> (Inl e, n)
           | Inr (maint_needed, c1) \<Rightarrow>
               let n1 = resize (chain_db c1) n in
               (case finish_block S B skip maint_needed b c1 of
                  Inl e \<Rightarrow> (Inl e, n1)
                | Inr c2 \<Rightarrow> (Inr (), n1\<lparr>node_chain := c2\<rparr>))))"

definition apply_and_store :: "safe \<Rightarrow> block_env \<Rightarrow> 32 word \<Rightarrow> block_id \<Rightarrow> chain_block \<Rightarrow> unit action" where
  "apply_and_store S B skip i b =
     committed (\<lambda>n. case run_block S B skip b n of
        (Inl e, n') \<Rightarrow> (Inl e, n')
      | (Inr _, n') \<Rightarrow> (Inr (), n'\<lparr>block_files := store (blk_codec B) i b (block_files n')\<rparr>))"

definition fetch_block_by_id :: "block_env \<Rightarrow> block_id \<Rightarrow> node \<Rightarrow> chain_block option" where
  "fetch_block_by_id B i n =
     (case fetch_block i (fork_db n) of
        None \<Rightarrow> fetch_optional (blk_codec B) i (block_files n)
      | Some it \<Rightarrow> Some (data it))"

definition database_is_known_block :: "block_id \<Rightarrow> node \<Rightarrow> bool" where
  "database_is_known_block i n = (is_known_block i (fork_db n) \<or> contains i (block_files n))"

definition database_fetch_block_by_number :: "block_env \<Rightarrow> nat \<Rightarrow> node \<Rightarrow> chain_block option" where
  "database_fetch_block_by_number B k n =
     (let results = fetch_block_by_number k (fork_db n) in
      if length results = 1 then Some (data (results ! 0)) else fetch_by_number (blk_codec B) k (block_files n))"

definition get_block_id_for_num :: "nat \<Rightarrow> node \<Rightarrow> block_id result" where
  "get_block_id_for_num k n = fetch_block_id k (block_files n)"

definition get_block_ids_on_fork :: "block_id \<Rightarrow> node \<Rightarrow> block_id list result" where
  "get_block_ids_on_fork head_of_fork n =
     rbind (fetch_branch_from (head_block_id (node_db n)) head_of_fork (fork_db n)) (\<lambda>(first, second).
     if first = [] then Inl undefined_behaviour
     else Inr (map item_id second @ [previous_id (List.last first)]))"

definition database_pop_block :: "block_env \<Rightarrow> unit action" where
  "database_pop_block B n0 =
     (let n = reset_pending n0; head_id = head_block_id (node_db n) in
      case fetch_block_by_id B head_id n of
        None \<Rightarrow> (Inl pop_empty_chain, n)
      | Some head_block \<Rightarrow>
          (case pop_block (fork_db n) of
             Inl e \<Rightarrow> (Inl e, n)
           | Inr f \<Rightarrow>
               let n1 = n\<lparr>fork_db := f\<rparr> in
               (case remove_stored head_id (block_files n1) of
                  Inl e \<Rightarrow> (Inl e, n1)
                | Inr bf \<Rightarrow>
                    (case pop_undo (n1\<lparr>block_files := bf\<rparr>) of
                       (Inl e, n2) \<Rightarrow> (Inl e, n2)
                     | (Inr _, n2) \<Rightarrow> (Inr (), n2\<lparr>popped_tx := transactions head_block @ popped_tx n2\<rparr>)))))"

text \<open>Every round removes a snapshot or throws, so as many rounds as there are snapshots suffice.\<close>

primrec pop_until :: "nat \<Rightarrow> block_env \<Rightarrow> block_id \<Rightarrow> unit action" where
  "pop_until 0 B i n = (Inl out_of_fuel, n)"
| "pop_until (Suc fuel) B i n =
     (if head_block_id (node_db n) = i then (Inr (), n)
      else case database_pop_block B n of
        (Inl e, n') \<Rightarrow> (Inl e, n')
      | (Inr _, n') \<Rightarrow> pop_until fuel B i n')"

definition pop_to :: "block_env \<Rightarrow> block_id \<Rightarrow> unit action" where
  "pop_to B i n = pop_until (Suc (Suc (length (snapshots n)))) B i n"

subsection \<open>Switching forks\<close>

text \<open>Back to the old branch; its blocks are stored under the id of the block that was to be pushed.\<close>

fun restore_branch :: "safe \<Rightarrow> block_env \<Rightarrow> 32 word \<Rightarrow> block_id \<Rightarrow> chain_block list \<Rightarrow> unit action" where
  "restore_branch S B skip i [] n = (Inr (), n)"
| "restore_branch S B skip i (b # bs) n =
     (case apply_and_store S B skip i b n of
        (Inl e, n') \<Rightarrow> (Inl e, n')
      | (Inr _, n') \<Rightarrow> restore_branch S B skip i bs n')"

definition abandon_branch ::
  "safe \<Rightarrow> block_env \<Rightarrow> 32 word \<Rightarrow> chain_block \<Rightarrow> block_id list \<Rightarrow> signed_transaction fork_item list \<Rightarrow> fc_exception \<Rightarrow> bool action" where
  "abandon_branch S B skip new_block bad second e n =
     (let n1 = n\<lparr>fork_db := set_head (Some (hd second)) (fold remove_block bad (fork_db n))\<rparr> in
      case pop_to B (previous (data (List.last second))) n1 of
        (Inl e', n2) \<Rightarrow> (Inl e', n2)
      | (Inr _, n2) \<Rightarrow>
          (case restore_branch S B skip (bid_of B new_block) (map data (rev second)) n2 of
             (Inl e', n3) \<Rightarrow> (Inl e', n3)
           | (Inr _, n3) \<Rightarrow> (Inl e, n3)))"

fun push_branch ::
  "safe \<Rightarrow> block_env \<Rightarrow> 32 word \<Rightarrow> chain_block \<Rightarrow> signed_transaction fork_item list \<Rightarrow> signed_transaction fork_item list \<Rightarrow> bool action" where
  "push_branch S B skip new_block second [] n = (Inr True, n)"
| "push_branch S B skip new_block second (it # its) n =
     (case apply_and_store S B skip (item_id it) (data it) n of
        (Inr _, n') \<Rightarrow> push_branch S B skip new_block second its n'
      | (Inl e, n') \<Rightarrow>
          if caught e then abandon_branch S B skip new_block (map (\<lambda>x. bid_of B (data x)) (it # its)) second e n'
          else (Inl e, n'))"

definition switch_forks :: "safe \<Rightarrow> block_env \<Rightarrow> 32 word \<Rightarrow> chain_block \<Rightarrow> signed_transaction fork_item \<Rightarrow> bool action" where
  "switch_forks S B skip new_block new_head n =
     (case fetch_branch_from (bid_of B (data new_head)) (head_block_id (node_db n)) (fork_db n) of
        Inl e \<Rightarrow> (Inl e, n)
      | Inr (first, second) \<Rightarrow>
          if second = [] then (Inl undefined_behaviour, n)
          else
            (case pop_to B (previous (data (List.last second))) n of
               (Inl e, n1) \<Rightarrow> (Inl e, n1)
             | (Inr _, n1) \<Rightarrow> push_branch S B skip new_block second (rev first) n1))"

text \<open>The session around the notification of listeners holds no change of the chain itself.\<close>

definition notify_session :: "bool action" where
  "notify_session n =
     (case merge_session (start_session n) of
        (Inl e, n') \<Rightarrow> (Inl e, undo_session n')
      | (Inr _, n') \<Rightarrow> (Inr False, n'))"

definition extend_chain :: "safe \<Rightarrow> block_env \<Rightarrow> 32 word \<Rightarrow> chain_block \<Rightarrow> bool action" where
  "extend_chain S B skip b n =
     (case apply_and_store S B skip (bid_of B b) b n of
        (Inl e, n') \<Rightarrow> (Inl e, n'\<lparr>fork_db := if caught e then remove_block (bid_of B b) (fork_db n') else fork_db n'\<rparr>)
      | (Inr _, n') \<Rightarrow> notify_session n')"

definition push_block_inner :: "safe \<Rightarrow> block_env \<Rightarrow> 32 word \<Rightarrow> chain_block \<Rightarrow> bool action" where
  "push_block_inner S B skip b n =
     (if skips skip skip_fork_db then extend_chain S B skip b n
      else
        (case push_block (block_hash (blk_codec B)) b (fork_db n) of
           Inl e \<Rightarrow> (Inl e, n)
         | Inr (new_head, f) \<Rightarrow>
             let n1 = n\<lparr>fork_db := f\<rparr> in
             if previous (data new_head) \<noteq> head_block_id (node_db n1) then
               if int (block_num (data new_head)) > head_block_num (node_db n1) then switch_forks S B skip b new_head n1
               else (Inr False, n1)
             else extend_chain S B skip b n1))"

section \<open>Pending transactions\<close>

definition push_transaction_inner :: "safe \<Rightarrow> block_env \<Rightarrow> 32 word \<Rightarrow> signed_transaction \<Rightarrow> unit action" where
  "push_transaction_inner S B skip trx n0 =
     (let n = (if pending_session n0 then n0 else (start_session n0)\<lparr>pending_session := True\<rparr>);
          n1 = start_session n
      in case apply_transaction S B skip trx (node_chain n1) of
           Inl e \<Rightarrow> (Inl e, undo_session n1)
         | Inr c \<Rightarrow>
             (case merge_session (n1\<lparr>node_chain := c, pending_tx := pending_tx n1 @ [trx]\<rparr>) of
                (Inl e, n2) \<Rightarrow> (Inl e, undo_session n2)
              | (Inr _, n2) \<Rightarrow> (Inr (), n2)))"

definition push_transaction :: "safe \<Rightarrow> block_env \<Rightarrow> 32 word \<Rightarrow> signed_transaction \<Rightarrow> unit action" where
  "push_transaction S B skip trx n =
     (if int (trx_size B trx) \<le> maximum_transaction_size (parameters (gpo (node_db n)))
      then push_transaction_inner S B skip trx n
      else (Inl assert_exception, n))"

definition validate_transaction :: "safe \<Rightarrow> block_env \<Rightarrow> 32 word \<Rightarrow> signed_transaction \<Rightarrow> unit action" where
  "validate_transaction S B skip trx n =
     (let n1 = start_session n in
      case apply_transaction S B skip trx (node_chain n1) of
        Inl e \<Rightarrow> (Inl e, undo_session n1)
      | Inr c \<Rightarrow> (Inr (), undo_session (n1\<lparr>node_chain := c\<rparr>)))"

text \<open>Every transaction that is not in the chain by now is tried again; one that fails is dropped.\<close>

definition retry_transaction :: "safe \<Rightarrow> block_env \<Rightarrow> 32 word \<Rightarrow> signed_transaction \<Rightarrow> node \<Rightarrow> node" where
  "retry_transaction S B skip trx n =
     (if is_known_transaction (trx_hash B trx) (node_db n) then n
      else snd (push_transaction_inner S B skip trx n))"

definition restore_pending :: "safe \<Rightarrow> block_env \<Rightarrow> 32 word \<Rightarrow> signed_transaction list \<Rightarrow> node \<Rightarrow> node" where
  "restore_pending S B skip pend n =
     (let n1 = fold (retry_transaction S B skip) (popped_tx n) n in
      fold (retry_transaction S B skip) pend (n1\<lparr>popped_tx := []\<rparr>))"

definition database_push_block :: "safe \<Rightarrow> block_env \<Rightarrow> 32 word \<Rightarrow> chain_block \<Rightarrow> bool action" where
  "database_push_block S B skip b n =
     (case push_block_inner S B skip b (clear_pending n) of
        (r, n') \<Rightarrow> (r, restore_pending S B skip (pending_tx n) n'))"

section \<open>Producing a block\<close>

record block_draft =
  draft_size :: nat
  draft_transactions :: "signed_transaction list"

definition draft_transaction ::
  "safe \<Rightarrow> block_env \<Rightarrow> 32 word \<Rightarrow> int \<Rightarrow> signed_transaction \<Rightarrow> block_draft \<times> node \<Rightarrow> block_draft \<times> node" where
  "draft_transaction S B skip limit trx st =
     (let (w, n) = st in
      if int (draft_size w + trx_size B trx) \<ge> limit then (w, n)
      else
        let n1 = start_session n in
        case apply_transaction S B skip trx (node_chain n1) of
          Inl e \<Rightarrow> (w, undo_session n1)
        | Inr c \<Rightarrow>
            (case merge_session (n1\<lparr>node_chain := c\<rparr>) of
               (Inl e, n2) \<Rightarrow> (w, undo_session n2)
             | (Inr _, n2) \<Rightarrow>
                 (\<lparr>draft_size = draft_size w + trx_size B trx, draft_transactions = draft_transactions w @ [trx]\<rparr>, n2)))"

definition sign_block :: "block_env \<Rightarrow> nat \<Rightarrow> chain_block \<Rightarrow> chain_block" where
  "sign_block B private_key b = b\<lparr>miner_signature := block_signature B private_key b\<rparr>"

definition draft_block :: "safe \<Rightarrow> block_env \<Rightarrow> 32 word \<Rightarrow> nat \<Rightarrow> nat \<Rightarrow> nat \<Rightarrow> node \<Rightarrow> chain_block \<times> node" where
  "draft_block S B skip at_time miner_id private_key n =
     (let n1 = (start_session (reset_pending n))\<lparr>pending_session := True\<rparr>;
          limit = maximum_block_size (parameters (gpo (node_db n)));
          (w, n2) = fold (draft_transaction S B skip limit) (pending_tx n) (\<lparr>draft_size = empty_header_size B + 4, draft_transactions = []\<rparr>, n1);
          n3 = reset_pending n2;
          b = \<lparr>previous = head_block_id (node_db n3), timestamp = at_time, miner = miner_id, transaction_merkle_root = 0, miner_signature = 0,
               transactions = draft_transactions w\<rparr>;
          b1 = b\<lparr>transaction_merkle_root := merkle_root_of B b\<rparr>
      in (if skips skip skip_miner_signature then b1 else sign_block B private_key b1, n3))"

definition check_turn :: "block_env \<Rightarrow> 32 word \<Rightarrow> nat \<Rightarrow> nat \<Rightarrow> nat \<Rightarrow> database \<Rightarrow> unit result" where
  "check_turn B skip at_time miner_id private_key db =
     rbind (get_slot_at_time (int at_time) db) (\<lambda>slot_num.
     fc_assert (slot_num > 0)
    (rbind (get_scheduled_miner slot_num db) (\<lambda>scheduled_miner.
     fc_assert (scheduled_miner = miner_id)
    (rbind (idx_get (miners db) miner_id) (\<lambda>m.
     fc_assert (skips skip skip_miner_signature \<or> signing_key m = public_key B private_key) (Inr ()))))))"

definition generate_block :: "safe \<Rightarrow> block_env \<Rightarrow> 32 word \<Rightarrow> nat \<Rightarrow> nat \<Rightarrow> nat \<Rightarrow> chain_block action" where
  "generate_block S B skip at_time miner_id private_key n =
     (case check_turn B skip at_time miner_id private_key (node_db n) of
        Inl e \<Rightarrow> (Inl e, n)
      | Inr _ \<Rightarrow>
          let (b, n1) = draft_block S B skip at_time miner_id private_key n in
          if skips skip skip_block_size_check \<or>
             int (length (pack (blk_codec B) b)) \<le> maximum_block_size (parameters (gpo (node_db n1)))
          then (case database_push_block S B skip b n1 of (Inl e, n2) \<Rightarrow> (Inl e, n2) | (Inr _, n2) \<Rightarrow> (Inr b, n2))
          else (Inl assert_exception, n1))"

section \<open>Opening, closing and replaying\<close>

text \<open>\<open>open\<close> after the objects and the files are loaded: the tree starts from the last block on disk.\<close>

definition open_chain :: "block_env \<Rightarrow> unit action" where
  "open_chain B n =
     (case last_block (blk_codec B) (block_files n) of
        None \<Rightarrow> (Inr (), n)
      | Some b \<Rightarrow>
          let n1 = n\<lparr>fork_db := start_block (block_hash (blk_codec B)) b (fork_db n)\<rparr> in
          if bid_of B b \<noteq> head_block_id (node_db n1) then (fc_assert (head_block_num (node_db n1) = 0) (Inr ()), n1)
          else (Inr (), n1))"

definition close_block :: "block_env \<Rightarrow> unit action" where
  "close_block B n =
     (let i = head_block_id (node_db n) in
      case database_pop_block B n of
        (Inl e, n') \<Rightarrow> (Inl e, n')
      | (Inr _, n') \<Rightarrow>
          let n1 = n'\<lparr>fork_db := remove_block i (fork_db n')\<rparr> in
          (case remove_stored i (block_files n1) of
             Inl e \<Rightarrow> (if e = key_not_found_exception then Inr () else Inl e, n1)
           | Inr bf \<Rightarrow> (Inr (), n1\<lparr>block_files := bf\<rparr>)))"

text \<open>
  The loop of \<open>close\<close>; the exception it may end with is its result, and \<open>close_chain\<close> drops it as the code does.
\<close>

primrec rewind_loop :: "nat \<Rightarrow> block_env \<Rightarrow> int \<Rightarrow> unit action" where
  "rewind_loop 0 B cutoff n = (Inl out_of_fuel, n)"
| "rewind_loop (Suc fuel) B cutoff n =
     (if head_block_num (node_db n) > cutoff
      then (case close_block B n of (Inl e, n') \<Rightarrow> (Inl e, n') | (Inr _, n') \<Rightarrow> rewind_loop fuel B cutoff n')
      else (Inr (), n))"

definition close_chain :: "block_env \<Rightarrow> bool \<Rightarrow> node \<Rightarrow> node" where
  "close_chain B rewind n =
     (let n0 = clear_pending n;
          n1 = (if rewind then snd (rewind_loop (Suc (length (snapshots n0))) B (last_irreversible_block_num (dpo (node_db n0))) n0) else n0);
          n2 = clear_pending n1
      in n2\<lparr>fork_db := reset (fork_db n2)\<rparr>)"

definition reindex_flags :: "32 word" where
  "reindex_flags = skip_miner_signature OR skip_transaction_signatures OR skip_transaction_dupe_check OR skip_tapos_check OR
     skip_miner_schedule_check OR skip_authority_check"

text \<open>Dropping the blocks behind a gap; every round empties an entry, so the number of entries bounds the rounds.\<close>

primrec drop_after_gap :: "nat \<Rightarrow> nat \<Rightarrow> block_database \<Rightarrow> block_database result" where
  "drop_after_gap 0 i db = Inl out_of_fuel"
| "drop_after_gap (Suc fuel) i db =
     (case last_id db of
        None \<Rightarrow> Inr db
      | Some l \<Rightarrow> if num_from_id l \<le> i then Inr db else rbind (remove_stored l db) (drop_after_gap fuel i))"

fun reindex_loop :: "safe \<Rightarrow> block_env \<Rightarrow> nat list \<Rightarrow> unit action" where
  "reindex_loop S B [] n = (Inr (), n)"
| "reindex_loop S B (i # is) n =
     (case fetch_by_number (blk_codec B) i (block_files n) of
        None \<Rightarrow>
          (case drop_after_gap (Suc (length (index_file (block_files n)))) i (block_files n) of
             Inl e \<Rightarrow> (Inl e, n)
           | Inr bf \<Rightarrow> (Inr (), n\<lparr>block_files := bf\<rparr>))
      | Some b \<Rightarrow>
          (case run_block S B reindex_flags b n of
             (Inl e, n') \<Rightarrow> (Inl e, n')
           | (Inr _, n') \<Rightarrow> reindex_loop S B is n'))"

text \<open>\<open>reindex\<close> starts from the objects of the genesis and replays the blocks on disk with the undo history disabled.\<close>

definition reindex :: "safe \<Rightarrow> block_env \<Rightarrow> chain \<Rightarrow> unit action" where
  "reindex S B genesis n =
     (let n0 = (close_chain B True n)\<lparr>node_chain := genesis\<rparr> in
      case open_chain B n0 of
        (Inl e, n1) \<Rightarrow> (Inl e, n1)
      | (Inr _, n1) \<Rightarrow>
          (case last_block (blk_codec B) (block_files n1) of
             None \<Rightarrow> (Inr (), n1)
           | Some b \<Rightarrow> reindex_loop S B [1..<Suc (block_num b)] n1))"

end
