(* ===== verification/Block_Frames.thy ===== *)
theory Block_Frames
  imports Block_Processing Proposal_Rules
begin

text \<open>
  What each step of applying a block leaves alone. The head block, its time, the recent transactions and the block summaries, the
  view called past, are the same after every operation, proposals that are executed included, and after every step that
  follows the transactions of a block except the two that are there to change them.
\<close>

section \<open>Operations\<close>

lemma parameters_past:
  assumes "run_operation S E skip proposed (Update_parameters fee q) db = Inr db'"
  shows "past db' = past db"
proof -
  have "past s' = past s" if "update_parameters_do_apply q s = Inr s'" for s s'
    using that by (auto simp: update_parameters_do_apply_def past_def head_block_num_def head_block_id_def head_block_time_def)
  with assms show ?thesis by (auto elim!: settled.evaluate_plain_view)
qed

lemma run_operation_past:
  assumes "interpreters_respect past E" "run_operation S E skip proposed op db = Inr db'"
  shows "past db' = past db"
  using settled.run_operation_view [OF assms(1) _ assms(2)] parameters_past assms(2) is_parameter_update_iff by metis

lemma evaluate_chain_past:
  assumes "evaluate_chain S E op check change c = Inr c'" "\<And>s s'. change s = Inr s' \<Longrightarrow> past (chain_db s') = past (chain_db s)"
  shows "past (chain_db c') = past (chain_db c)"
proof -
  from assms(1) obtain fs d1 d2 c3 n d where e: "convert_fee S False fs (chain_db c) = Inr d1" "pay_fee S False fs d1 = Inr d2"
    "change (c\<lparr>chain_db := d2\<rparr>) = Inr c3" "adjust_balance S (fee_payer op) n (chain_db c3) = Inr d" "c' = c3\<lparr>chain_db := d\<rparr>"
    by (auto simp: evaluate_chain_def res_simps split: if_splits)
  then show ?thesis using settled.fee_view(1) [OF e(1)] settled.fee_view(2) [OF e(2)] settled.adjust [OF e(4)] assms(2) [OF e(3)] by simp
qed

lemma chain_loop:
  assumes "fold_res f xs c = Inr c'" "\<And>x s s'. f x s = Inr s' \<Longrightarrow> past (chain_db s') = past (chain_db s)"
  shows "past (chain_db c') = past (chain_db c)"
  by (rule fold_res_invariant [OF assms(1), where P = "\<lambda>s. past (chain_db s) = past (chain_db c)"]) (use assms(2) in auto)

lemma push_proposal_past:
  assumes "push_proposal f i p c = Inr c'" "\<And>x s s'. f x s = Inr s' \<Longrightarrow> past (chain_db s') = past (chain_db s)"
  shows "past (chain_db c') = past (chain_db c)"
  using assms(1) chain_loop [of f, OF _ assms(2)] by (auto simp: push_proposal_def res_simps split: option.splits)

lemma lift_db_past:
  "lift_db f c = Inr c' \<Longrightarrow> (\<And>s s'. f s = Inr s' \<Longrightarrow> past s' = past s) \<Longrightarrow> past (chain_db c') = past (chain_db c)"
  by (auto simp: lift_db_def res_simps)

lemma apply_operation_past:
  assumes i: "interpreters_respect past E"
  shows "apply_operation n S E skip proposed op c = Inr c' \<Longrightarrow> past (chain_db c') = past (chain_db c)"
proof (induction n arbitrary: proposed op c c')
  case (Suc n)
  have create: "past (chain_db s') = past (chain_db s)" if "proposal_create_do_apply o' ops s = Inr s'" for o' ops s s'
    using that by (auto simp: proposal_create_do_apply_def Let_def res_simps)
  have delete: "past (chain_db s') = past (chain_db s)" if "proposal_delete_do_apply o' s = Inr s'" for o' s s'
    using that by (auto simp: proposal_delete_do_apply_def res_simps)
  have update: "past (chain_db s') = past (chain_db s)"
    if "proposal_update_do_apply (apply_operation n S E skip True) o' s = Inr s'" for o' s s'
    using that push_proposal_past [of "apply_operation n S E skip True", OF _ Suc.IH]
    by (fastforce simp: proposal_update_do_apply_def Let_def res_simps split: if_splits dest!: catching_Inr)
  have run: "past (chain_db c') = past (chain_db c)" if "lift_db (run_operation S E skip proposed op) c = Inr c'"
    using that by (rule lift_db_past) (rule run_operation_past [OF i])
  show ?case
  proof (cases op)
    case (Proposal_create o' ops)
    with Suc.prems show ?thesis by (auto elim!: evaluate_chain_past intro: create)
  next
    case (Proposal_update o')
    with Suc.prems show ?thesis by (auto elim!: evaluate_chain_past intro: update)
  next
    case (Proposal_delete o')
    with Suc.prems show ?thesis by (auto elim!: evaluate_chain_past intro: delete)
  qed (use Suc.prems run in simp_all)
qed simp

lemma expiry_past:
  assumes i: "interpreters_respect past E"
  shows "clear_expired_proposals S E skip c = Inr c' \<Longrightarrow> past (chain_db c') = past (chain_db c)"
proof -
  have one: "past (chain_db s') = past (chain_db s)" if "expire_proposal S E skip r s = Inr s'" for r s s'
    using that push_proposal_past [of "apply_operation push_depth S E skip True", OF _ apply_operation_past [OF i]]
    by (auto simp: expire_proposal_def Let_def res_simps split: if_splits sum.splits)
  have "expire_loop n S E skip s = Inr s' \<Longrightarrow> past (chain_db s') = past (chain_db s)" for n s s'
    by (induction n arbitrary: s) (auto simp: res_simps split: option.splits dest!: one)
  then show "clear_expired_proposals S E skip c = Inr c' \<Longrightarrow> past (chain_db c') = past (chain_db c)"
    by (simp add: clear_expired_proposals_def del: expire_loop.simps)
qed

section \<open>The end of a block\<close>

lemmas past_defs = past_def head_block_num_def head_block_id_def head_block_time_def

lemma miner_pay_past: "deposit_miner_pay S w a db = Inr db' \<Longrightarrow> past db' = past db"
  by (auto simp: deposit_miner_pay_def deposit_lazy_vesting_def Let_def res_simps split: option.splits if_splits dest!: settled.view_steps)

lemma signing_miner_past: "update_signing_miner S w k t db = Inr db' \<Longrightarrow> past db' = past db"
  by (auto simp: update_signing_miner_def Let_def res_simps dest!: settled.view_steps miner_pay_past)
    (simp_all add: past_defs)

lemma irreversible_past: "update_last_irreversible_block u db = Inr db' \<Longrightarrow> past db' = past db"
  by (auto simp: update_last_irreversible_block_def Let_def res_simps past_defs split: if_splits)

lemma active_miners_past: "update_active_miners S t db = Inr db' \<Longrightarrow> past db' = past db"
proof -
  have "past s' = past s" if "fold_res (\<lambda>r. modify_miner (fst r) (f r)) rs s = Inr s'" for f rs s s'
    using that by (rule settled.loop) (rule settled.view_steps)
  then show "update_active_miners S t db = Inr db' \<Longrightarrow> past db' = past db"
    by (auto simp: update_active_miners_def Let_def res_simps dest!: settled.view_steps)
      (simp_all add: past_defs)
qed

lemma budget_past: "process_budget S db = Inr db' \<Longrightarrow> past db' = past db"
proof -
  have "past (restart_budget r m t d) = past d" for r m t d by (simp add: restart_budget_def past_defs)
  moreover have "past s' = past s" if "create_budget_record r s = Inr s'" for r s s'
    using that by (auto simp: create_budget_record_def res_simps past_defs)
  ultimately show "process_budget S db = Inr db' \<Longrightarrow> past db' = past db"
    by (auto simp: process_budget_def process_budget_from_def res_simps dest!: settled.view_steps)
qed

lemma maintenance_past: "perform_chain_maintenance S k t db = Inr db' \<Longrightarrow> past db' = past db"
proof -
  have "past (adopt_parameters d) = past d" for d by (simp add: adopt_parameters_def past_defs split: option.splits)
  moreover have "past s' = past s" if "schedule_maintenance k t s = Inr s'" for s s'
    using that by (auto simp: schedule_maintenance_def Let_def res_simps past_defs)
  ultimately show "perform_chain_maintenance S k t db = Inr db' \<Longrightarrow> past db' = past db"
    by (auto simp: perform_chain_maintenance_def res_simps dest!: active_miners_past settled.housekeeping budget_past)
qed

lemma feeds_past: "update_expired_feeds db = Inr db' \<Longrightarrow> past db' = past db"
  unfolding update_expired_feeds_def
  by (erule settled.loop) (auto split: option.splits if_splits dest: settled.view_steps)

lemma permissions_past: "update_withdraw_permissions db = Inr db' \<Longrightarrow> past db' = past db"
  by (auto simp: update_withdraw_permissions_def res_simps past_defs)

lemma late_steps_past [simp]:
  "past (update_maintenance_flag f db) = past db" "past (db\<lparr>applied_ops := x\<rparr>) = past db"
  by (simp_all add: update_maintenance_flag_def past_defs)

lemma schedule_past: "update_miner_schedule db = Inr db' \<Longrightarrow> past db' = past db"
  by (auto simp: update_miner_schedule_def Let_def past_defs split: if_splits)

text \<open>The second half of a block, with its two changes of the past in the middle.\<close>

lemma finish_block_past:
  assumes i: "interpreters_respect past (blk_ops B)" and f: "finish_block S B skip m b c = Inr c'"
  shows "\<exists>d1 d2 d3. past d1 = past (chain_db c) \<and> create_block_summary B b d1 = Inr d2 \<and> clear_expired_transactions d2 = Inr d3 \<and>
    past (chain_db c') = past d3"
proof -
  from f obtain d0 d d1 d2 d3 c4 d5 d6 d7 where
    s: "update_signing_miner S (miner b) (int (block_num b)) (int (timestamp b)) (chain_db c) = Inr d0"
      "update_last_irreversible_block (skips skip skip_undo_history_check) d0 = Inr d"
      "(if m then perform_chain_maintenance S (int (block_num b)) (int (timestamp b)) d else Inr d) = Inr d1"
      "create_block_summary B b d1 = Inr d2" "clear_expired_transactions d2 = Inr d3"
      "clear_expired_proposals S (blk_ops B) skip (c\<lparr>chain_db := d3\<rparr>) = Inr c4"
      "update_expired_feeds (chain_db c4) = Inr d5" "update_withdraw_permissions d5 = Inr d6"
      "update_miner_schedule (update_maintenance_flag m d6) = Inr d7" "chain_db c' = d7\<lparr>applied_ops := []\<rparr>"
    by (auto simp: finish_block_def Let_def lift_db_def res_simps cong: if_cong)
  have "past d1 = past (chain_db c)"
    using signing_miner_past [OF s(1)] irreversible_past [OF s(2)] maintenance_past s(3) by (auto split: if_splits)
  moreover have "past (chain_db c') = past d3"
    using expiry_past [OF i s(6)] feeds_past [OF s(7)] permissions_past [OF s(8)] schedule_past [OF s(9)] s(10) by simp
  ultimately show ?thesis using s(4,5) by blast
qed

end
