(* ===== verification/Block_Rules.thy ===== *)
theory Block_Rules
  imports Block_Frames
begin

text \<open>
  What holds of blocks and of the node that applies them: an applied block is the new head, no transaction is applied twice along a
  chain of blocks, pushing a block is atomic and popping undoes it; and what does not hold: the signatures of the
  transactions of a block are never looked at, replaying the chain from disk forgets the recent transactions, and a switch of
  forks that fails loses the blocks of the old branch on disk.
\<close>

unbundle bit_operations_syntax

section \<open>The head\<close>

lemma global_data_past:
  assumes "update_global_dynamic_data u cp k i t w db = Inr db'"
  shows "past db' = (k, i, t, transaction_ids db, block_summaries db)"
proof -
  have "past s' = past s" if "fold_res (note_missed w) xs s = Inr s'" for xs s s'
    using that by (rule settled.loop) (auto simp: note_missed_def Let_def res_simps split: if_splits dest: settled.view_steps)
  moreover from assms obtain xs s where "fold_res (note_missed w) xs db = Inr s" "past db' = (k, i, t, transaction_ids s, block_summaries s)"
    by (auto simp: update_global_dynamic_data_def Let_def past_defs res_simps)
  ultimately have "past s = past db" "past db' = (k, i, t, transaction_ids s, block_summaries s)" by blast+
  then show ?thesis by (simp add: past_def)
qed

lemma transactions_past:
  assumes i: "interpreters_respect past (blk_ops B)" and a: "apply_transaction S B skip t c = Inr c'"
  shows "\<exists>d. check_tapos skip t (chain_db c) = Inr () \<and> record_transaction B skip t (chain_db c) = Inr d \<and> past (chain_db c') = past d \<and>
    (skips skip skip_transaction_dupe_check \<or> \<not> is_known_transaction (trx_hash B t) (chain_db c))"
proof -
  from a obtain d where d: "check_tapos skip t (chain_db c) = Inr ()" "record_transaction B skip t (chain_db c) = Inr d"
    "fold_res (apply_operation push_depth S (blk_ops B) skip False) (tx_operations t) (c\<lparr>chain_db := d\<rparr>) = Inr c'"
    "skips skip skip_transaction_dupe_check \<or> \<not> is_known_transaction (trx_hash B t) (chain_db c)"
    by (auto simp: apply_transaction_def res_simps)
  from chain_loop [OF d(3) apply_operation_past [OF i]] d show ?thesis by auto
qed

lemma begin_block_Inr:
  assumes "begin_block S B cp skip b c = Inr (m, c1)"
  obtains c2 d where "skips skip skip_merkle_check \<or> transaction_merkle_root b = merkle_root_of B b"
    "validate_block_header B skip b ((chain_db c)\<lparr>applied_ops := []\<rparr>) = Inr ()"
    "fold_res (apply_transaction S B (skip OR skip_transaction_signatures)) (transactions b) (c\<lparr>chain_db := (chain_db c)\<lparr>applied_ops := []\<rparr>\<rparr>) = Inr c2"
    "update_global_dynamic_data (skips skip skip_undo_history_check) cp (int (block_num b)) (bid_of B b) (int (timestamp b)) (miner b) (chain_db c2) = Inr d"
    "c1 = c2\<lparr>chain_db := d\<rparr>"
  using assms by (auto simp: begin_block_def Let_def res_simps)

lemma header_past:
  assumes "validate_block_header B skip b db = Inr ()"
  shows "previous b = head_block_id db" "head_block_time db < int (timestamp b)"
  using assms by (auto simp: validate_block_header_def res_simps)

lemma block_transactions_past:
  assumes i: "interpreters_respect past (blk_ops B)" and f: "fold_res (apply_transaction S B skip) ts c = Inr c'"
  shows "block_summaries (chain_db c') = block_summaries (chain_db c)" "head_block_time (chain_db c') = head_block_time (chain_db c)"
    "head_block_num (chain_db c') = head_block_num (chain_db c)" "head_block_id (chain_db c') = head_block_id (chain_db c)"
proof -
  let ?h = "\<lambda>c. (head_block_num (chain_db c), head_block_id (chain_db c), head_block_time (chain_db c), block_summaries (chain_db c))"
  have "?h s' = ?h s" if a: "apply_transaction S B skip t s = Inr s'" for t s s'
  proof -
    from transactions_past [OF i a] obtain d where d: "record_transaction B skip t (chain_db s) = Inr d" "past (chain_db s') = past d" by blast
    from d(1) have "?h (s\<lparr>chain_db := d\<rparr>) = ?h s"
      by (auto simp: record_transaction_def create_transaction_def head_block_num_def head_block_id_def head_block_time_def res_simps split: if_splits)
    with d(2) show ?thesis by (auto simp: past_def)
  qed
  then have "?h c' = ?h c" by (intro fold_res_invariant [OF f, where P = "\<lambda>s. ?h s = ?h c"]) auto
  then show "block_summaries (chain_db c') = block_summaries (chain_db c)" "head_block_time (chain_db c') = head_block_time (chain_db c)"
    "head_block_num (chain_db c') = head_block_num (chain_db c)" "head_block_id (chain_db c') = head_block_id (chain_db c)" by simp_all
qed

lemma summary_Inr:
  assumes "create_block_summary B b db = Inr db'"
  shows "idx_find (block_summaries db') = (idx_find (block_summaries db))(block_num b mod 2 ^ 16 \<mapsto> \<lparr>summary_block_id = bid_of B b\<rparr>)"
    "transaction_ids db' = transaction_ids db" "head_block_num db' = head_block_num db" "head_block_id db' = head_block_id db"
    "head_block_time db' = head_block_time db"
proof -
  from assms obtain t where "idx_update no_clash (block_summaries db) (block_num b mod 2 ^ 16) (\<lambda>p. Inr (p\<lparr>summary_block_id := bid_of B b\<rparr>)) = Inr t"
    and d: "db' = db\<lparr>block_summaries := t\<rparr>"
    by (auto simp: create_block_summary_def modify_summary_def res_simps)
  from idx_update_Inr(1) [OF this(1)] d
  show "idx_find (block_summaries db') = (idx_find (block_summaries db))(block_num b mod 2 ^ 16 \<mapsto> \<lparr>summary_block_id = bid_of B b\<rparr>)"
    by (auto simp: fun_eq_iff)
  show "transaction_ids db' = transaction_ids db" "head_block_num db' = head_block_num db" "head_block_id db' = head_block_id db"
    "head_block_time db' = head_block_time db" using d by (simp_all add: head_block_num_def head_block_id_def head_block_time_def)
qed

lemma cleared_past:
  assumes "clear_expired_transactions db = Inr db'"
  shows "block_summaries db' = block_summaries db" "head_block_num db' = head_block_num db" "head_block_id db' = head_block_id db"
    "head_block_time db' = head_block_time db"
  using assms by (auto simp: clear_expired_transactions_def head_block_num_def head_block_id_def head_block_time_def res_simps)

lemma applied_ops_clock [simp]:
  "head_block_time (db\<lparr>applied_ops := x\<rparr>) = head_block_time db" "head_block_id (db\<lparr>applied_ops := x\<rparr>) = head_block_id db"
  "head_block_num (db\<lparr>applied_ops := x\<rparr>) = head_block_num db"
  by (simp_all add: head_block_num_def head_block_id_def head_block_time_def)

text \<open>
  C11: An applied block is the new head. It named the old head as its predecessor and is later than it, and afterwards the chain
  has its id, number and time, and the block summary that transactions refer to is the only one that changed. If nothing
  is skipped, its merkle root is that of its transactions, and it was signed by the key of the miner who is scheduled for the slot of
  its time.
\<close>

theorem applied_block_is_head:
  assumes i: "interpreters_respect past (blk_ops B)" and a: "apply_block S B cps skip b c = Inr c'"
  shows "previous b = head_block_id (chain_db c) \<and> head_block_time (chain_db c) < int (timestamp b) \<and>
    head_block_id (chain_db c') = bid_of B b \<and> head_block_num (chain_db c') = int (block_num b) \<and> head_block_time (chain_db c') = int (timestamp b) \<and>
    idx_find (block_summaries (chain_db c')) =
      (idx_find (block_summaries (chain_db c)))(block_num b mod 2 ^ 16 \<mapsto> \<lparr>summary_block_id = bid_of B b\<rparr>) \<and>
    (cps = [] \<and> skip = skip_nothing \<longrightarrow> transaction_merkle_root b = merkle_root_of B b \<and>
      (\<exists>m slot. idx_find (miners (chain_db c)) (miner b) = Some m \<and> signee B b = Inr (signing_key m) \<and> 0 < slot \<and>
         get_slot_at_time (int (timestamp b)) ((chain_db c)\<lparr>applied_ops := []\<rparr>) = Inr slot \<and>
         get_scheduled_miner slot ((chain_db c)\<lparr>applied_ops := []\<rparr>) = Inr (miner b)))"
proof -
  from a obtain skip' m c1 where k: "checkpoint_skip B cps b skip = Inr skip'" "begin_block S B (last_checkpoint cps) skip' b c = Inr (m, c1)"
    "finish_block S B skip' m b c1 = Inr c'" by (auto simp: apply_block_def res_simps)
  from begin_block_Inr [OF k(2)] obtain c2 d where g: "skips skip' skip_merkle_check \<or> transaction_merkle_root b = merkle_root_of B b"
    "validate_block_header B skip' b ((chain_db c)\<lparr>applied_ops := []\<rparr>) = Inr ()"
    "fold_res (apply_transaction S B (skip' OR skip_transaction_signatures)) (transactions b) (c\<lparr>chain_db := (chain_db c)\<lparr>applied_ops := []\<rparr>\<rparr>) = Inr c2"
    "update_global_dynamic_data (skips skip' skip_undo_history_check) (last_checkpoint cps) (int (block_num b)) (bid_of B b) (int (timestamp b)) (miner b)
       (chain_db c2) = Inr d" "c1 = c2\<lparr>chain_db := d\<rparr>" .
  from finish_block_past [OF i k(3)] obtain d1 d2 d3 where e: "past d1 = past d" "create_block_summary B b d1 = Inr d2"
    "clear_expired_transactions d2 = Inr d3" "past (chain_db c') = past d3" by (auto simp: g(5))
  note h = header_past [OF g(2)] global_data_past [OF g(4)] block_transactions_past [OF i g(3)] summary_Inr [OF e(2)] cleared_past [OF e(3)] e(1,4)
  have "cps = [] \<and> skip = skip_nothing \<Longrightarrow> skip' = 0" using k(1) by (simp add: checkpoint_skip_def skip_nothing_def)
  then have "cps = [] \<and> skip = skip_nothing \<longrightarrow> transaction_merkle_root b = merkle_root_of B b \<and>
      (\<exists>m slot. idx_find (miners (chain_db c)) (miner b) = Some m \<and> signee B b = Inr (signing_key m) \<and> 0 < slot \<and>
         get_slot_at_time (int (timestamp b)) ((chain_db c)\<lparr>applied_ops := []\<rparr>) = Inr slot \<and>
         get_scheduled_miner slot ((chain_db c)\<lparr>applied_ops := []\<rparr>) = Inr (miner b))"
    using g(1,2) by (auto simp: skips_def validate_block_header_def idx_get_def res_simps)
  with h show ?thesis by (simp add: past_def)
qed

section \<open>No transaction twice\<close>

text \<open>
  What the index of recent transactions is good for: of the transactions applied so far every one is still in it, or its
  expiration has passed. The pairs are the ids and expirations of the transactions applied so far.
\<close>

definition stored_transaction :: "nat \<times> int \<Rightarrow> transaction_object index \<Rightarrow> bool" where
  "stored_transaction x t \<longleftrightarrow> (\<exists>i. idx_find t i = Some \<lparr>trx_id = fst x, trx_expiration = snd x\<rparr>)"

definition remembers :: "(nat \<times> int) set \<Rightarrow> database \<Rightarrow> bool" where
  "remembers X db \<longleftrightarrow> wf_index (transaction_ids db) \<and>
     (\<forall>x \<in> X. stored_transaction x (transaction_ids db) \<or> 0 < head_block_num db \<and> snd x < head_block_time db)"

abbreviation trx_key :: "block_env \<Rightarrow> signed_transaction \<Rightarrow> nat \<times> int" where
  "trx_key B t \<equiv> (trx_hash B t, tx_expiration t)"

lemma remembers_cong:
  "transaction_ids db' = transaction_ids db \<Longrightarrow> head_block_num db' = head_block_num db \<Longrightarrow> head_block_time db' = head_block_time db \<Longrightarrow>
   remembers X db' = remembers X db"
  by (simp add: remembers_def)

lemma remembers_past: "past db' = past db \<Longrightarrow> remembers X db' = remembers X db"
  by (rule remembers_cong) (simp_all add: past_def)

lemma stored_known:
  assumes "stored_transaction x (transaction_ids db)"
  shows "is_known_transaction (fst x) db"
proof -
  from assms obtain i where "(i, \<lparr>trx_id = fst x, trx_expiration = snd x\<rparr>) \<in> set (rows (transaction_ids db))"
    by (auto simp: stored_transaction_def idx_find_def dest: map_of_SomeD)
  then have "\<exists>r \<in> set (rows (transaction_ids db)). trx_id (snd r) = fst x" by (rule bexI [rotated]) simp
  then show ?thesis unfolding is_known_transaction_def idx_find_by_def find_None_iff by blast
qed

lemma transaction_remembered:
  assumes i: "interpreters_respect past (blk_ops B)" and k: "\<not> skips skip skip_transaction_dupe_check"
    and r: "remembers X (chain_db c)" and a: "apply_transaction S B skip t c = Inr c'"
  shows "remembers (insert (trx_key B t) X) (chain_db c')" "trx_key B t \<notin> X"
proof -
  from transactions_past [OF i a] k obtain d where d: "check_tapos skip t (chain_db c) = Inr ()"
    "create_transaction \<lparr>trx_id = trx_hash B t, trx_expiration = tx_expiration t\<rparr> (chain_db c) = Inr d" "past (chain_db c') = past d"
    and new: "\<not> is_known_transaction (trx_hash B t) (chain_db c)" by (auto simp: record_transaction_def)
  from d(2) obtain j ix where ix: "idx_create transaction_clash (transaction_ids (chain_db c)) (\<lambda>_. \<lparr>trx_id = trx_hash B t, trx_expiration = tx_expiration t\<rparr>) = Inr (j, ix)"
    "d = (chain_db c)\<lparr>transaction_ids := ix\<rparr>" by (auto simp: create_transaction_def res_simps)
  have w: "wf_index (transaction_ids (chain_db c))" using r by (simp add: remembers_def)
  note cr = idx_create_Inr [OF ix(1) w]
  have up: "stored_transaction x ix" if st: "stored_transaction x (transaction_ids (chain_db c))" for x
  proof -
    from st obtain k where "idx_find (transaction_ids (chain_db c)) k = Some \<lparr>trx_id = fst x, trx_expiration = snd x\<rparr>"
      by (auto simp: stored_transaction_def)
    moreover from this cr(4) have "k \<noteq> j" by auto
    ultimately show ?thesis using cr(5) by (auto simp: stored_transaction_def)
  qed
  have "stored_transaction (trx_key B t) ix" using cr(5) by (auto simp: stored_transaction_def)
  with up cr(1) r have "remembers (insert (trx_key B t) X) d"
    by (auto simp: remembers_def ix(2) head_block_num_def head_block_time_def)
  with remembers_past [OF d(3)] show "remembers (insert (trx_key B t) X) (chain_db c')" by blast
  show "trx_key B t \<notin> X"
  proof
    assume "trx_key B t \<in> X"
    with r new stored_known [of "trx_key B t" "chain_db c"] have "0 < head_block_num (chain_db c)" "tx_expiration t < head_block_time (chain_db c)"
      by (auto simp: remembers_def)
    with d(1) show False by (auto simp: check_tapos_def Let_def res_simps)
  qed
qed

lemma transactions_remembered:
  assumes i: "interpreters_respect past (blk_ops B)" and k: "\<not> skips skip skip_transaction_dupe_check"
  shows "remembers X (chain_db c) \<Longrightarrow> fold_res (apply_transaction S B skip) ts c = Inr c' \<Longrightarrow>
    remembers (set (map (trx_key B) ts) \<union> X) (chain_db c') \<and> distinct (map (trx_key B) ts) \<and> set (map (trx_key B) ts) \<inter> X = {}"
proof (induction ts arbitrary: X c)
  case (Cons t ts)
  then obtain c1 where c1: "apply_transaction S B skip t c = Inr c1" "fold_res (apply_transaction S B skip) ts c1 = Inr c'"
    by (auto simp: res_simps)
  note t = transaction_remembered [OF i k Cons.prems(1) c1(1)]
  from Cons.IH [OF t(1) c1(2)] t(2) show ?case by auto
qed simp

lemma drop_expired_Inr:
  assumes "drop_expired u rs ix = Inr ix'" "\<forall>r \<in> set rs. \<forall>x. idx_find ix (fst r) = Some x \<longrightarrow> x = snd r"
  shows "(wf_index ix \<longrightarrow> wf_index ix') \<and> (\<forall>i x. idx_find ix i = Some x \<longrightarrow> idx_find ix' i = Some x \<or> trx_expiration x < u)"
  using assms
proof (induction u rs ix rule: drop_expired.induct)
  case (2 u r rs ix)
  show ?case
  proof (cases "u > trx_expiration (snd r)")
    case True
    with 2 obtain ix1 where ix1: "idx_remove ix (fst r) = Inr ix1" "drop_expired u rs ix1 = Inr ix'" by (auto simp: res_simps)
    note rm = idx_remove_Inr [OF ix1(1)]
    have "\<forall>r' \<in> set rs. \<forall>x. idx_find ix1 (fst r') = Some x \<longrightarrow> x = snd r'" using 2(3) rm(4) by auto
    note IH = 2(1) [OF True ix1(1,2) this]
    have "idx_find ix' i = Some x \<or> trx_expiration x < u" if x: "idx_find ix i = Some x" for i x
    proof (cases "i = fst r")
      case t: True
      with x 2(3) have "x = snd r" by auto
      with True show ?thesis by simp
    next
      case False
      with x rm(4) have "idx_find ix1 i = Some x" by simp
      with IH show ?thesis by blast
    qed
    with IH rm(2) show ?thesis by blast
  qed (use 2 in simp)
qed simp

lemma cleared_remembered:
  assumes r: "remembers X db" and h: "0 < head_block_num db" and c: "clear_expired_transactions db = Inr db'"
  shows "remembers X db'"
proof -
  from c obtain ix where ix: "drop_expired (head_block_time db) (rev (sort_key (\<lambda>r. trx_expiration (snd r)) (rows (transaction_ids db)))) (transaction_ids db) = Inr ix"
    "db' = db\<lparr>transaction_ids := ix\<rparr>" by (auto simp: clear_expired_transactions_def res_simps)
  have w: "wf_index (transaction_ids db)" using r by (simp add: remembers_def)
  then have "idx_find (transaction_ids db) (fst r) = Some (snd r)" if "r \<in> set (rows (transaction_ids db))" for r
    using that by (cases r) (simp add: idx_find_eq wf_index_def sorted_imp_distinct_rows)
  then have "\<forall>r \<in> set (rows (transaction_ids db)). \<forall>x. idx_find (transaction_ids db) (fst r) = Some x \<longrightarrow> x = snd r" by simp
  with drop_expired_Inr [OF ix(1)] w have d: "wf_index ix"
    "\<And>i x. idx_find (transaction_ids db) i = Some x \<Longrightarrow> idx_find ix i = Some x \<or> trx_expiration x < head_block_time db" by auto
  have "stored_transaction x ix \<or> snd x < head_block_time db" if "stored_transaction x (transaction_ids db)" for x
    using that d(2) by (fastforce simp: stored_transaction_def)
  with r h d(1) show ?thesis by (auto simp: remembers_def ix(2) head_block_num_def head_block_time_def)
qed

lemma block_remembered:
  assumes i: "interpreters_respect past (blk_ops B)" and k: "\<not> skips skip skip_transaction_dupe_check" and n: "block_num b \<noteq> 0"
    and r: "remembers X (chain_db c)" and a: "apply_block S B [] skip b c = Inr c'"
  shows "remembers (set (map (trx_key B) (transactions b)) \<union> X) (chain_db c') \<and> distinct (map (trx_key B) (transactions b)) \<and>
    set (map (trx_key B) (transactions b)) \<inter> X = {}"
proof -
  from a obtain m c1 where g0: "begin_block S B None skip b c = Inr (m, c1)" and fb: "finish_block S B skip m b c1 = Inr c'"
    by (auto simp: apply_block_def checkpoint_skip_def last_checkpoint_def res_simps)
  from begin_block_Inr [OF g0] obtain c2 d where g: "validate_block_header B skip b ((chain_db c)\<lparr>applied_ops := []\<rparr>) = Inr ()"
    "fold_res (apply_transaction S B (skip OR skip_transaction_signatures)) (transactions b) (c\<lparr>chain_db := (chain_db c)\<lparr>applied_ops := []\<rparr>\<rparr>) = Inr c2"
    "update_global_dynamic_data (skips skip skip_undo_history_check) None (int (block_num b)) (bid_of B b) (int (timestamp b)) (miner b) (chain_db c2) = Inr d"
    "c1 = c2\<lparr>chain_db := d\<rparr>" by blast
  from finish_block_past [OF i fb] obtain d1 d2 d3 where e: "past d1 = past d" "create_block_summary B b d1 = Inr d2"
    "clear_expired_transactions d2 = Inr d3" "past (chain_db c') = past d3" by (auto simp: g(4))
  have k': "\<not> skips (skip OR skip_transaction_signatures) skip_transaction_dupe_check"
    using k by (simp add: skips_def skip_transaction_signatures_def skip_transaction_dupe_check_def and.left_commute bit.conj_disj_distrib2)
  have "remembers X (chain_db (c\<lparr>chain_db := (chain_db c)\<lparr>applied_ops := []\<rparr>\<rparr>))" using r by (simp add: remembers_past [OF late_steps_past(2)])
  note t = transactions_remembered [OF i k' this g(2)]
  let ?X = "set (map (trx_key B) (transactions b)) \<union> X"
  have "head_block_time (chain_db c2) < int (timestamp b)"
    using header_past(2) [OF g(1)] block_transactions_past(2) [OF i g(2)] by simp
  then have "remembers ?X d" using t global_data_past [OF g(3)] n by (auto simp: remembers_def past_def)
  moreover have p: "transaction_ids d2 = transaction_ids d" "head_block_num d2 = head_block_num d" "head_block_time d2 = head_block_time d"
    using e(1) summary_Inr(2-) [OF e(2)] by (simp_all add: past_def)
  ultimately have "remembers ?X d2" using remembers_cong by blast
  moreover have "0 < head_block_num d2" using p(2) global_data_past [OF g(3)] n by (simp add: past_def)
  ultimately have "remembers ?X d3" by (rule cleared_remembered [OF _ _ e(3)])
  with t remembers_past [OF e(4)] show ?thesis by blast
qed

lemma blocks_remembered:
  assumes i: "interpreters_respect past (blk_ops B)" and k: "\<not> skips skip skip_transaction_dupe_check"
  shows "\<forall>b \<in> set bs. block_num b \<noteq> 0 \<Longrightarrow> remembers X (chain_db c) \<Longrightarrow> fold_res (apply_block S B [] skip) bs c = Inr c' \<Longrightarrow>
    distinct (map (trx_key B) (concat (map transactions bs))) \<and> set (map (trx_key B) (concat (map transactions bs))) \<inter> X = {}"
proof (induction bs arbitrary: X c)
  case (Cons b bs)
  then obtain c1 where c1: "apply_block S B [] skip b c = Inr c1" "fold_res (apply_block S B [] skip) bs c1 = Inr c'" by (auto simp: res_simps)
  from Cons.prems(1) have "block_num b \<noteq> 0" by simp
  note b = block_remembered [OF i k this Cons.prems(2) c1(1)]
  from Cons.IH [OF _ conjunct1 [OF b] c1(2)] Cons.prems(1) b show ?case by auto
qed simp

text \<open>
  C5: No transaction is applied twice. Along any chain of blocks that are applied with the check for duplicates, from a state whose index
  of recent transactions is well formed, the ids of the transactions are pairwise different, although the index forgets
  transactions that have expired. The id of a transaction is expected to determine its expiration, and the
  32 bit block number not to come around to zero.
\<close>

theorem transactions_apply_once:
  assumes i: "interpreters_respect past (blk_ops B)" and k: "\<not> skips skip skip_transaction_dupe_check"
    and w: "wf_index (transaction_ids (chain_db c))" and n: "\<forall>b \<in> set bs. block_num b \<noteq> 0"
    and h: "\<forall>t \<in> set (concat (map transactions bs)). \<forall>u \<in> set (concat (map transactions bs)). trx_hash B t = trx_hash B u \<longrightarrow> tx_expiration t = tx_expiration u"
    and a: "fold_res (apply_block S B [] skip) bs c = Inr c'"
  shows "distinct (map (trx_hash B) (concat (map transactions bs)))"
proof -
  have "remembers {} (chain_db c)" using w by (simp add: remembers_def)
  from blocks_remembered [OF i k n this a] have d: "distinct (map (trx_key B) (concat (map transactions bs)))" by blast
  then have "inj_on (trx_hash B) (set (concat (map transactions bs)))" using h unfolding distinct_map inj_on_def by (metis prod.inject)
  with d show ?thesis by (simp add: distinct_map)
qed

section \<open>The signatures of the transactions in a block\<close>

lemma block_skips_signatures: "skips (skip OR skip_transaction_signatures) (skip_transaction_signatures OR skip_authority_check)"
proof -
  have "bit ((skip OR skip_transaction_signatures) AND (skip_transaction_signatures OR skip_authority_check)) 1"
    by (simp add: bit_simps skip_transaction_signatures_def skip_authority_check_def)
  then show ?thesis unfolding skips_def by (metis bit_0_eq bot_apply bot_bool_def)
qed

text \<open>
  C38: The signatures of the transactions in a block are not looked at. Whatever keys the signatures recover to, a block is accepted or refused
  as before and with the same result, because its transactions are applied with the flag that skips signatures,
  whatever flags the block is pushed with.
\<close>

theorem block_ignores_signatures:
  "apply_block S (B\<lparr>recover_keys := r\<rparr>) cps skip b c = apply_block S B cps skip b c"
proof -
  have "apply_transaction S (B\<lparr>recover_keys := r\<rparr>) (k OR skip_transaction_signatures) = apply_transaction S B (k OR skip_transaction_signatures)" for k
    by (simp add: fun_eq_iff apply_transaction_def check_signatures_def block_skips_signatures record_transaction_def)
  moreover have "validate_block_header (B\<lparr>recover_keys := r\<rparr>) k b db = validate_block_header B k b db" for k db
    by (simp add: validate_block_header_def cong: if_cong)
  moreover have "merkle_root_of (B\<lparr>recover_keys := r\<rparr>) b = merkle_root_of B b" by (simp add: merkle_root_of_def)
  ultimately have "begin_block S (B\<lparr>recover_keys := r\<rparr>) cp k b c = begin_block S B cp k b c" for cp k
    by (simp add: begin_block_def Let_def)
  moreover have "create_block_summary (B\<lparr>recover_keys := r\<rparr>) b = create_block_summary B b" by (simp add: fun_eq_iff create_block_summary_def)
  then have "finish_block S (B\<lparr>recover_keys := r\<rparr>) k m b c' = finish_block S B k m b c'" for k m c' by (simp add: finish_block_def)
  moreover have "checkpoint_skip (B\<lparr>recover_keys := r\<rparr>) cps b skip = checkpoint_skip B cps b skip" by (simp add: checkpoint_skip_def cong: option.case_cong)
  ultimately show ?thesis by (simp add: apply_block_def)
qed

section \<open>Pushing and popping\<close>

lemma resize_frame [simp]:
  "node_chain (resize d n) = node_chain n" "snapshots (resize d n) = snapshots n" "block_files (resize d n) = block_files n"
  "checkpoints (resize d n) = checkpoints n" "popped_tx (resize d n) = popped_tx n" "pending_session (resize d n) = pending_session n"
  "pending_tx (resize d n) = pending_tx n"
  by (simp_all add: resize_def Let_def)

lemma run_block_spec:
  assumes "run_block S B skip b n = (r, n')"
  shows "snapshots n' = snapshots n" "block_files n' = block_files n" "checkpoints n' = checkpoints n" "popped_tx n' = popped_tx n"
    "pending_session n' = pending_session n"
    "case r of Inl e \<Rightarrow> node_chain n' = node_chain n \<and> apply_block S B (checkpoints n) skip b (node_chain n) = Inl e
     | Inr _ \<Rightarrow> apply_block S B (checkpoints n) skip b (node_chain n) = Inr (node_chain n')"
  using assms by (auto simp: run_block_def apply_block_def Let_def split: sum.splits prod.splits)

text \<open>A block takes effect and is stored, or nothing happened; in the first case the chain before it is on top of the undo history.\<close>

lemma apply_and_store_spec:
  assumes "apply_and_store S B skip i b n = (r, n')"
  shows "checkpoints n' = checkpoints n" "popped_tx n' = popped_tx n" "pending_session n' = pending_session n"
    "case r of Inl e \<Rightarrow> node_chain n' = node_chain n \<and> block_files n' = block_files n
     | Inr _ \<Rightarrow> apply_block S B (checkpoints n) skip b (node_chain n) = Inr (node_chain n') \<and>
         block_files n' = store (blk_codec B) i b (block_files n) \<and> snapshots n' = node_chain n # take (undo_limit n) (snapshots n)"
proof -
  obtain q n1 where q: "run_block S B skip b (start_session n) = (q, n1)" by (cases "run_block S B skip b (start_session n)")
  note rs = run_block_spec [OF q]
  from assms q have "r = Inr () \<and> (\<exists>u. q = Inr u) \<and> n' = n1\<lparr>block_files := store (blk_codec B) i b (block_files n1)\<rparr> \<or> (\<exists>e. r = Inl e \<and> q = Inl e \<and> n' = undo_session n1)"
    by (auto simp: apply_and_store_def committed_def split: sum.splits)
  with rs show "checkpoints n' = checkpoints n" "popped_tx n' = popped_tx n" "pending_session n' = pending_session n"
    "case r of Inl e \<Rightarrow> node_chain n' = node_chain n \<and> block_files n' = block_files n
     | Inr _ \<Rightarrow> apply_block S B (checkpoints n) skip b (node_chain n) = Inr (node_chain n') \<and>
         block_files n' = store (blk_codec B) i b (block_files n) \<and> snapshots n' = node_chain n # take (undo_limit n) (snapshots n)"
    by (auto simp: start_session_def undo_session_def)
qed

lemma notify_session_spec:
  assumes "notify_session n = (r, n')"
  shows "node_chain n' = node_chain n" "block_files n' = block_files n" "popped_tx n' = popped_tx n" "pending_session n' = pending_session n"
    "\<forall>x. r = Inr x \<longrightarrow> snapshots n' = take (undo_limit n) (snapshots n) \<and> snapshots n' \<noteq> []"
  using assms by (auto simp: notify_session_def merge_session_def start_session_def undo_session_def take_Cons' split: list.splits if_splits)

lemma extend_chain_spec:
  assumes "extend_chain S B skip b n = (r, n')"
  shows "popped_tx n' = popped_tx n" "pending_session n' = pending_session n"
    "node_chain n' = node_chain n \<and> block_files n' = block_files n \<and> (\<exists>e. r = Inl e) \<or>
     apply_block S B (checkpoints n) skip b (node_chain n) = Inr (node_chain n') \<and> block_files n' = store (blk_codec B) (bid_of B b) b (block_files n) \<and>
     (\<forall>x. r = Inr x \<longrightarrow> (\<exists>ss. snapshots n' = node_chain n # ss))"
proof -
  obtain q n1 where q: "apply_and_store S B skip (bid_of B b) b n = (q, n1)" by (cases "apply_and_store S B skip (bid_of B b) b n")
  note as = apply_and_store_spec [OF q]
  have "popped_tx n' = popped_tx n \<and> pending_session n' = pending_session n \<and>
    (node_chain n' = node_chain n \<and> block_files n' = block_files n \<and> (\<exists>e. r = Inl e) \<or>
     apply_block S B (checkpoints n) skip b (node_chain n) = Inr (node_chain n') \<and> block_files n' = store (blk_codec B) (bid_of B b) b (block_files n) \<and>
     (\<forall>x. r = Inr x \<longrightarrow> (\<exists>ss. snapshots n' = node_chain n # ss)))"
  proof (cases q)
    case (Inl e)
    with assms q as show ?thesis by (auto simp: extend_chain_def)
  next
    case (Inr u)
    with assms q have "notify_session n1 = (r, n')" by (simp add: extend_chain_def)
    note ns = notify_session_spec [OF this]
    have "\<exists>ss. snapshots n' = node_chain n # ss" if "r = Inr x" for x
      using that ns(5) as(4) Inr by (auto simp: take_Cons' split: if_splits)
    with ns as Inr show ?thesis by auto
  qed
  then show "popped_tx n' = popped_tx n" "pending_session n' = pending_session n"
    "node_chain n' = node_chain n \<and> block_files n' = block_files n \<and> (\<exists>e. r = Inl e) \<or>
     apply_block S B (checkpoints n) skip b (node_chain n) = Inr (node_chain n') \<and> block_files n' = store (blk_codec B) (bid_of B b) b (block_files n) \<and>
     (\<forall>x. r = Inr x \<longrightarrow> (\<exists>ss. snapshots n' = node_chain n # ss))" by blast+
qed

text \<open>The highest block known after a push extends the head or is not higher than it, so that there is no reason to switch.\<close>

definition stays_on_branch :: "block_env \<Rightarrow> 32 word \<Rightarrow> chain_block \<Rightarrow> node \<Rightarrow> bool" where
  "stays_on_branch B skip b n \<longleftrightarrow> skips skip skip_fork_db \<or>
     (case push_block (block_hash (blk_codec B)) b (fork_db n) of
        Inl _ \<Rightarrow> True
      | Inr (new_head, _) \<Rightarrow> previous (data new_head) = head_block_id (node_db n) \<or> int (block_num (data new_head)) \<le> head_block_num (node_db n))"

lemma push_block_inner_spec:
  assumes p: "push_block_inner S B skip b n = (r, n')" and s: "stays_on_branch B skip b n"
  shows "popped_tx n' = popped_tx n \<and> pending_session n' = pending_session n \<and>
    (node_chain n' = node_chain n \<and> block_files n' = block_files n \<or>
     apply_block S B (checkpoints n) skip b (node_chain n) = Inr (node_chain n') \<and> block_files n' = store (blk_codec B) (bid_of B b) b (block_files n) \<and>
     (\<forall>x. r = Inr x \<longrightarrow> (\<exists>ss. snapshots n' = node_chain n # ss)))"
proof (cases "skips skip skip_fork_db")
  case True
  with p have "extend_chain S B skip b n = (r, n')" by (simp add: push_block_inner_def)
  from extend_chain_spec [OF this] show ?thesis by blast
next
  case False
  show ?thesis
  proof (cases "push_block (block_hash (blk_codec B)) b (fork_db n)")
    case (Inl e)
    with p False show ?thesis by (auto simp: push_block_inner_def)
  next
    case (Inr hf)
    obtain new_head f where hf: "hf = (new_head, f)" by (cases hf)
    from p s False Inr hf have "n' = n\<lparr>fork_db := f\<rparr> \<or> extend_chain S B skip b (n\<lparr>fork_db := f\<rparr>) = (r, n')"
      by (auto simp: push_block_inner_def stays_on_branch_def Let_def split: if_splits)
    then show ?thesis
    proof
      assume "extend_chain S B skip b (n\<lparr>fork_db := f\<rparr>) = (r, n')"
      from extend_chain_spec [OF this] show ?thesis by auto
    qed simp
  qed
qed

text \<open>
  C6: Pushing a block is atomic, and popping it undoes it. On a node without pending transactions, a pending session and popped transactions, when no
  switch of forks is called for, \<open>push_block\<close> leaves the objects and the files of blocks as they were, or the objects are the outcome of applying the block and the block is stored under
  its own id; if it reports success after applying the block, a later \<open>pop_block\<close> that succeeds brings the old objects back.
\<close>

theorem push_is_atomic:
  assumes "stays_on_branch B skip b n" "pending_tx n = []" "pending_session n = False" "popped_tx n = []"
    and "database_push_block S B skip b n = (r, n')"
  shows "node_chain n' = node_chain n \<and> block_files n' = block_files n \<or>
     apply_block S B (checkpoints n) skip b (node_chain n) = Inr (node_chain n') \<and> block_files n' = store (blk_codec B) (bid_of B b) b (block_files n) \<and>
     (\<forall>x n''. r = Inr x \<and> database_pop_block B n' = (Inr (), n'') \<longrightarrow> node_chain n'' = node_chain n)"
proof -
  have n: "clear_pending n = n" using assms(2,3) by (simp add: clear_pending_def reset_pending_def)
  obtain q n1 where q: "push_block_inner S B skip b n = (q, n1)" by (cases "push_block_inner S B skip b n")
  note ps = push_block_inner_spec [OF q assms(1)]
  have n': "r = q" "n' = n1\<lparr>popped_tx := []\<rparr>"
    using assms(2,4,5) q ps by (simp_all add: database_push_block_def n restore_pending_def Let_def)
  have "node_chain n'' = node_chain n" if "snapshots n' = node_chain n # ss" "pending_session n' = False" "database_pop_block B n' = (Inr (), n'')" for ss n''
    using that by (auto simp: database_pop_block_def reset_pending_def pop_undo_def Let_def split: option.splits sum.splits)
  with ps assms(3) n' show ?thesis by fastforce
qed

section \<open>After a failed switch\<close>

lemma contains_store:
  assumes "num_from_id j \<noteq> num_from_id i" "i \<noteq> null_block_id"
  shows "contains j (store K i b db) = contains j db"
proof -
  have "entry_id empty_entry = null_block_id" by (simp add: empty_entry_def)
  with assms show ?thesis by (auto simp: contains_def store_def Let_def length_write_entry write_entry_nth)
qed

lemma contains_remove: "remove_stored i db = Inr db' \<Longrightarrow> contains j db' \<Longrightarrow> contains j db"
  by (auto simp: remove_stored_def contains_def Let_def nth_list_update split: if_splits)

lemma pop_files:
  assumes "database_pop_block B n = (r, n')"
  shows "contains j (block_files n') \<Longrightarrow> contains j (block_files n)"
proof -
  have u: "block_files (reset_pending n) = block_files n"
    by (auto simp: reset_pending_def undo_session_def split: list.splits)
  show "contains j (block_files n') \<Longrightarrow> contains j (block_files n)"
    using assms by (auto simp: database_pop_block_def Let_def u pop_undo_def split: option.splits sum.splits list.splits dest: contains_remove)
qed

lemma pop_until_files: "pop_until k B i n = (r, n') \<Longrightarrow> contains j (block_files n') \<Longrightarrow> contains j (block_files n)"
proof (induction k arbitrary: n)
  case (Suc k)
  obtain q n1 where q: "database_pop_block B n = (q, n1)" by (cases "database_pop_block B n")
  from Suc.prems q show ?case by (auto split: if_splits sum.splits intro: pop_files [OF q] dest: Suc.IH)
qed simp

lemma pop_to_files: "pop_to B i n = (r, n') \<Longrightarrow> contains j (block_files n') \<longrightarrow> contains j (block_files n)"
  unfolding pop_to_def by (blast dest: pop_until_files)

lemma restore_branch_files:
  assumes "num_from_id j \<noteq> num_from_id i" "i \<noteq> null_block_id"
  shows "restore_branch S B skip i bs n = (r, n') \<Longrightarrow> contains j (block_files n') = contains j (block_files n)"
proof (induction bs arbitrary: n)
  case (Cons b bs)
  obtain q n1 where q: "apply_and_store S B skip i b n = (q, n1)" by (cases "apply_and_store S B skip i b n")
  have "contains j (block_files n1) = contains j (block_files n)"
    using apply_and_store_spec(4) [OF q] contains_store [OF assms] by (auto split: sum.splits)
  with Cons q show ?case by (auto split: sum.splits)
qed simp

text \<open>
  A switch of forks that fails loses the old branch on disk. When a block of the new branch cannot be applied, the blocks of
  the old branch are applied again but all stored under the id of the block that was pushed: no block whose number is another one is in
  the files afterwards that was not there before, although the blocks of the old branch had been removed from them.
\<close>

theorem failed_switch_stores_nothing:
  assumes "abandon_branch S B skip new_block bad second e n = (r, n')" "bid_of B new_block \<noteq> null_block_id"
    and "num_from_id j \<noteq> num_from_id (bid_of B new_block)" "\<not> contains j (block_files n)"
  shows "\<not> contains j (block_files n')"
  using assms restore_branch_files [OF assms(3,2)]
  by (auto simp: abandon_branch_def Let_def split: sum.splits prod.splits dest!: pop_to_files)

section \<open>Replaying the chain\<close>

lemma dropped_rows: "drop_expired u rs ix = Inr ix' \<Longrightarrow> set (rows ix') \<subseteq> set (rows ix)"
proof (induction u rs ix rule: drop_expired.induct)
  case (2 u r rs ix)
  then show ?case by (fastforce simp: idx_remove_def del_row_def res_simps split: if_splits option.splits)
qed simp

lemma unchecked_block_records_nothing:
  assumes i: "interpreters_respect past (blk_ops B)" and a: "apply_block S B cps skip b c = Inr c'" and k: "skips skip skip_transaction_dupe_check"
  shows "set (rows (transaction_ids (chain_db c'))) \<subseteq> set (rows (transaction_ids (chain_db c)))"
proof -
  from a obtain skip' m c1 where s: "checkpoint_skip B cps b skip = Inr skip'" "begin_block S B (last_checkpoint cps) skip' b c = Inr (m, c1)"
    "finish_block S B skip' m b c1 = Inr c'" by (auto simp: apply_block_def res_simps)
  from begin_block_Inr [OF s(2)] obtain c2 d where
    g: "fold_res (apply_transaction S B (skip' OR skip_transaction_signatures)) (transactions b) (c\<lparr>chain_db := (chain_db c)\<lparr>applied_ops := []\<rparr>\<rparr>) = Inr c2"
    "update_global_dynamic_data (skips skip' skip_undo_history_check) (last_checkpoint cps) (int (block_num b)) (bid_of B b) (int (timestamp b)) (miner b)
       (chain_db c2) = Inr d" "c1 = c2\<lparr>chain_db := d\<rparr>" by blast
  from finish_block_past [OF i s(3)] obtain d1 d2 d3 where e: "past d1 = past d" "create_block_summary B b d1 = Inr d2"
    "clear_expired_transactions d2 = Inr d3" "past (chain_db c') = past d3" by (auto simp: g(3))
  have "skip' = skip \<or> skip' = NOT 0" using s(1) by (auto simp: checkpoint_skip_def res_simps split: if_splits)
  with k have k': "skips (skip' OR skip_transaction_signatures) skip_transaction_dupe_check"
    by (auto simp: skips_def skip_transaction_dupe_check_def skip_transaction_signatures_def bit.conj_disj_distrib2)
  have t: "transaction_ids (chain_db c2) = transaction_ids (chain_db c)"
    using transactions_past [OF i, of S "skip' OR skip_transaction_signatures"] k'
    by (intro fold_res_invariant [OF g(1), where P = "\<lambda>s. transaction_ids (chain_db s) = transaction_ids (chain_db c)"])
      (fastforce simp: record_transaction_def past_def)+
  have "set (rows (transaction_ids d3)) \<subseteq> set (rows (transaction_ids d2))"
    using e(3) by (auto simp: clear_expired_transactions_def res_simps dest!: dropped_rows)
  then show ?thesis using t e(1,4) global_data_past [OF g(2)] summary_Inr(2) [OF e(2)] by (simp add: past_def)
qed

text \<open>
  C40: Replaying the chain from disk forgets the recent transactions. From the objects of a genesis without transactions, \<open>reindex\<close> leaves a
  node that knows no transaction, whatever the blocks hold: they are applied with the flag that skips the check for duplicates, which
  also keeps them from being recorded, so a transaction of the last blocks that has not expired is accepted a second time.
\<close>

theorem reindex_forgets_transactions:
  assumes i: "interpreters_respect past (blk_ops B)" and g: "rows (transaction_ids (chain_db genesis)) = []"
    and r: "reindex S B genesis n = (r, n')"
  shows "\<not> is_known_transaction h (node_db n')"
proof -
  have k: "skips reindex_flags skip_transaction_dupe_check"
    unfolding skips_def reindex_flags_def skip_miner_signature_def skip_transaction_signatures_def skip_transaction_dupe_check_def
      skip_tapos_check_def skip_miner_schedule_check_def skip_authority_check_def by simp
  have loop: "reindex_loop S B is s = (q, s') \<Longrightarrow> rows (transaction_ids (node_db s)) = [] \<Longrightarrow> rows (transaction_ids (node_db s')) = []" for "is" s q s'
  proof (induction "is" arbitrary: s)
    case (Cons j js)
    show ?case
    proof (cases "fetch_by_number (blk_codec B) j (block_files s)")
      case None
      with Cons.prems show ?thesis by (auto split: sum.splits)
    next
      case (Some b)
      obtain q1 s1 where q1: "run_block S B reindex_flags b s = (q1, s1)" by (cases "run_block S B reindex_flags b s")
      have "rows (transaction_ids (node_db s1)) = []"
        using run_block_spec(6) [OF q1] unchecked_block_records_nothing [OF i _ k] Cons.prems(2) by (fastforce split: sum.splits)
      with Cons Some q1 show ?thesis by (auto split: sum.splits)
    qed
  qed simp
  from r g have "rows (transaction_ids (node_db n')) = []"
    by (auto simp: reindex_def Let_def open_chain_def split: option.splits sum.splits prod.splits if_splits intro: loop)
  then show ?thesis by (simp add: is_known_transaction_def idx_find_by_def)
qed

section \<open>Examples\<close>

lemma block_num_code [code]: "block_num b = nat ((int (num_from_id (previous b)) + 1) mod 4294967296)"
proof -
  have "(int (num_from_id (previous b)) + 1) mod 4294967296 = int (block_num b)" by (simp add: block_num_def zmod_int add.commute)
  then show ?thesis by simp
qed

lemma id_prefix_code [code]: "id_prefix i = nat (int (snd i) mod 4294967296)"
  by (simp add: id_prefix_def) (metis nat_int of_nat_mod of_nat_numeral)

lemma create_block_summary_code [code]:
  "create_block_summary B b db =
     (let k = nat (int (block_num b) mod 65536) in rbind (idx_get (block_summaries db) k) (\<lambda>_.
       modify_summary k (\<lambda>p. p\<lparr>summary_block_id := bid_of B b\<rparr>) db))"
proof -
  have "nat (int (block_num b) mod 65536) = block_num b mod 65536" by (metis nat_int of_nat_mod of_nat_numeral)
  then show ?thesis by (simp add: create_block_summary_def Let_def)
qed

definition miner_example :: "nat \<Rightarrow> miner_object" where
  "miner_example k = \<lparr>miner_account = k, last_aslot = 0, signing_key = k, pay_vb = None, vote_id = k, total_votes = 0, url = [], total_missed = 0,
     last_confirmed_block_num = 0\<rparr>"

definition mined_chain :: chain where
  "mined_chain = \<lparr>chain_db = governed_db\<lparr>miners := \<lparr>next_id = 3, rows = map (\<lambda>i. (i, miner_example (4 + i))) [0..<3]\<rparr>,
     miner_schedule := \<lparr>current_shuffled_miners = [0, 1, 2]\<rparr>,
     gpo := (gpo governed_db)\<lparr>parameters := governed_parameters\<lparr>block_interval := 5, maximum_time_until_expiration := 100, maximum_transaction_size := 1000\<rparr>,
       active_miners := [0, 1, 2]\<rparr>,
     dpo := (dpo governed_db)\<lparr>dyn_time := 10\<rparr>,
     block_summaries := \<lparr>next_id = 4, rows = map (\<lambda>i. (i, \<lparr>summary_block_id = null_block_id\<rparr>)) [0..<4]\<rparr>\<rparr>, proposals = empty_index\<rparr>"

definition payment :: "nat \<Rightarrow> int \<Rightarrow> int \<Rightarrow> signed_transaction" where
  "payment ref e a = \<lparr>ref_block_num = ref, ref_block_prefix = 15, tx_expiration = e,
     tx_operations = [Transfer \<lparr>tr_fee = mk_asset 0 0, tr_from = 4, tr_to = 5, tr_amount = mk_asset a 0\<rparr>], tx_signatures = []\<rparr>"

definition first_block :: chain_block where
  "first_block = \<lparr>previous = (0, 0), timestamp = 15, miner = 1, transaction_merkle_root = 30, miner_signature = 5, transactions = [payment 1 30 3]\<rparr>"

definition block_env_example :: block_env where
  "block_env_example = \<lparr>blk_ops = op_env_example,
     blk_codec = \<lparr>pack = \<lambda>b. if timestamp b = 15 then [1] else [2], unpack = \<lambda>xs. if xs = [1] then Inr first_block else Inl other_exception, block_hash = timestamp\<rparr>,
     trx_hash = \<lambda>t. nat (tx_expiration t), recover_keys = tx_signatures, trx_size = \<lambda>_. 10, merkle_digest = \<lambda>t. nat (tx_expiration t),
     pair_hash = (+), root_checksum = \<lambda>x. x, signee = \<lambda>b. Inr (miner_signature b), block_signature = \<lambda>k b. k, public_key = \<lambda>k. k,
     empty_header_size = 50\<rparr>"

definition second_block :: chain_block where
  "second_block = \<lparr>previous = (1, 15), timestamp = 20, miner = 2, transaction_merkle_root = 40, miner_signature = 6, transactions = [payment 1 40 4]\<rparr>"



definition node_example :: node where
  "node_example = \<lparr>node_chain = mined_chain, snapshots = [], undo_limit = 5, fork_db = fork_init\<lparr>max_size := 5\<rparr>, block_files = block_database_init,
     checkpoints = [], pending_tx = [], pending_session = False, popped_tx = []\<rparr>"
definition after_first :: node where
  "after_first = snd (database_push_block safe_int64 block_env_example 0 first_block node_example)"


lemma interpreters_example: "interpreters_respect past (blk_ops block_env_example)"
  by (simp add: interpreters_respect_def block_env_example_def op_env_example_def)

theorem applied_block_is_head_witness:
  "\<exists>c'. apply_block safe_int64 block_env_example [] skip_nothing first_block mined_chain = Inr c' \<and> head_block_id (chain_db c') = (1, 15) \<and>
     signee block_env_example first_block = Inr (signing_key (miner_example 5)) \<and>
     idx_find (block_summaries (chain_db c')) 1 = Some \<lparr>summary_block_id = (1, 15)\<rparr>"
proof -
  have "succeeds (apply_block safe_int64 block_env_example [] skip_nothing first_block mined_chain)" by code_simp
  then obtain c' where c': "apply_block safe_int64 block_env_example [] skip_nothing first_block mined_chain = Inr c'" unfolding succeeds_iff ..
  have "bid_of block_env_example first_block = (1, 15)" "block_num first_block mod 2 ^ 16 = 1"
    by (simp_all add: block_env_example_def first_block_def id_of_def block_num_def num_from_id_def)
  with applied_block_is_head [OF interpreters_example c'] c' show ?thesis
    by (auto simp: first_block_def block_env_example_def miner_example_def)
qed

theorem transactions_apply_once_witness:
  "(\<exists>c'. fold_res (apply_block safe_int64 block_env_example [] 0) [first_block, second_block] mined_chain = Inr c') \<and>
   distinct (map (trx_hash block_env_example) (concat (map transactions [first_block, second_block])))"
proof -
  let ?bs = "[first_block, second_block]"
  have "succeeds (fold_res (apply_block safe_int64 block_env_example [] 0) ?bs mined_chain)" by code_simp
  then obtain c' where c': "fold_res (apply_block safe_int64 block_env_example [] 0) ?bs mined_chain = Inr c'" unfolding succeeds_iff ..
  have n: "\<forall>b \<in> set ?bs. block_num b \<noteq> 0" by (simp add: first_block_def second_block_def block_num_def num_from_id_def)
  have w: "wf_index (transaction_ids (chain_db mined_chain))" by (simp add: mined_chain_def governed_db_def chain_example_def empty_db_def)
  have h: "\<forall>t \<in> set (concat (map transactions ?bs)). \<forall>u \<in> set (concat (map transactions ?bs)).
     trx_hash block_env_example t = trx_hash block_env_example u \<longrightarrow> tx_expiration t = tx_expiration u"
    by (simp add: first_block_def second_block_def block_env_example_def payment_def)
  from transactions_apply_once [OF interpreters_example _ w n h c'] c' show ?thesis by (simp add: skips_def)
qed

theorem push_is_atomic_witness:
  "\<exists>n1 n2. database_push_block safe_int64 block_env_example 0 second_block after_first = (Inr False, n1) \<and> head_block_num (node_db n1) = 2 \<and>
     database_pop_block block_env_example n1 = (Inr (), n2) \<and> node_chain n2 = node_chain after_first"
proof -
  let ?p = "database_push_block safe_int64 block_env_example 0 second_block after_first"
  obtain r n1 where p: "?p = (r, n1)" by (rule prod.exhaust)
  obtain q n2 where q: "database_pop_block block_env_example n1 = (q, n2)" by (rule prod.exhaust)
  have "case ?p of (r, n) \<Rightarrow> r = Inr False \<and> head_block_num (node_db n) = 2 \<and> fst (database_pop_block block_env_example n) = Inr ()" by code_simp
  with p q have n: "?p = (Inr False, n1)" "head_block_num (node_db n1) = 2" "database_pop_block block_env_example n1 = (Inr (), n2)" by simp_all
  have "stays_on_branch block_env_example 0 second_block after_first" "pending_tx after_first = [] \<and> \<not> pending_session after_first \<and> popped_tx after_first = []"
    "head_block_num (node_db after_first) = 1" by code_simp+
  with push_is_atomic [OF _ _ _ _ n(1)] n show ?thesis by auto
qed

text \<open>The first block belongs to the old branch; its number is one, that of the block that was pushed is two.\<close>

definition old_branch :: "signed_transaction fork_item list" where
  "old_branch = [\<lparr>addr = 0, prev = None, num = 1, invalid = False, item_id = (1, 15), data = first_block\<rparr>]"

theorem failed_switch_stores_nothing_witness:
  "\<not> contains (1, 15) (block_files (snd (abandon_branch safe_int64 block_env_example 0 second_block [] old_branch assert_exception node_example))) \<and>
   head_block_id (node_db (snd (abandon_branch safe_int64 block_env_example 0 second_block [] old_branch assert_exception node_example))) = (1, 15)"
proof -
  let ?a = "abandon_branch safe_int64 block_env_example 0 second_block [] old_branch assert_exception node_example"
  obtain r n' where a: "?a = (r, n')" by (rule prod.exhaust)
  have "bid_of block_env_example second_block = (2, 20)"
    by (simp add: block_env_example_def second_block_def id_of_def block_num_def num_from_id_def)
  then have "bid_of block_env_example second_block \<noteq> null_block_id" "num_from_id (1, 15) \<noteq> num_from_id (bid_of block_env_example second_block)"
    by (simp_all add: num_from_id_def null_block_id_def)
  moreover have "\<not> contains (1, 15) (block_files node_example)" by (simp add: node_example_def contains_def block_database_init_def)
  ultimately have "\<not> contains (1, 15) (block_files n')" by (rule failed_switch_stores_nothing [OF a])
  moreover have "head_block_id (node_db (snd ?a)) = (1, 15)" by code_simp
  ultimately show ?thesis using a by simp
qed

definition node_on_disk :: node where
  "node_on_disk = node_example\<lparr>block_files := store (blk_codec block_env_example) (1, 15) first_block block_database_init\<rparr>"

theorem reindex_forgets_transactions_witness:
  "\<exists>n'. reindex safe_int64 block_env_example mined_chain node_on_disk = (Inr (), n') \<and> head_block_num (node_db n') = 1 \<and>
     \<not> is_known_transaction (trx_hash block_env_example (payment 1 30 3)) (node_db n') \<and>
     succeeds (apply_transaction safe_int64 block_env_example skip_authority_check (payment 1 30 3) (node_chain n'))"
proof -
  let ?r = "reindex safe_int64 block_env_example mined_chain node_on_disk"
  obtain r n' where r: "?r = (r, n')" by (rule prod.exhaust)
  have "case ?r of (r, n) \<Rightarrow> r = Inr () \<and> head_block_num (node_db n) = 1 \<and>
     succeeds (apply_transaction safe_int64 block_env_example skip_authority_check (payment 1 30 3) (node_chain n))" by code_simp
  with r have n': "?r = (Inr (), n')" "head_block_num (node_db n') = 1"
    "succeeds (apply_transaction safe_int64 block_env_example skip_authority_check (payment 1 30 3) (node_chain n'))" by simp_all
  have "rows (transaction_ids (chain_db mined_chain)) = []" by (simp add: mined_chain_def governed_db_def chain_example_def empty_db_def empty_index_def)
  from reindex_forgets_transactions [OF interpreters_example this n'(1)] n' show ?thesis by simp
qed

end
