(* ===== verification/Node_Loops.thy ===== *)
theory Node_Loops
  imports Block_Rules
begin

text \<open>
  The fuel of the loops of the node is enough: every round of the loops that pop blocks takes a snapshot off the undo history, and
  every round of the loop that drops blocks behind a gap empties an entry of the index file.
\<close>

section \<open>Popping and rewinding\<close>

lemma reset_pending_shortens: "length (snapshots (reset_pending n)) \<le> length (snapshots n)"
  by (auto simp: reset_pending_def undo_session_def split: list.splits)

lemma pop_shortens:
  assumes "database_pop_block B n = (r, n')"
  shows "case r of Inl e \<Rightarrow> e \<noteq> out_of_fuel | Inr _ \<Rightarrow> length (snapshots n') < length (snapshots n)"
  using assms reset_pending_shortens [of n]
  by (auto simp: database_pop_block_def Let_def pop_block_def remove_stored_def pop_undo_def split: option.splits sum.splits list.splits if_splits)

lemma pop_until_enough:
  "length (snapshots n) < fuel \<Longrightarrow> pop_until (fuel + k) B i n = pop_until fuel B i n \<and> fst (pop_until fuel B i n) \<noteq> Inl out_of_fuel"
proof (induction fuel arbitrary: n)
  case (Suc fuel)
  obtain r n' where r: "database_pop_block B n = (r, n')" by (rule prod.exhaust)
  from pop_shortens [OF r] Suc r show ?case by (auto split: sum.splits)
qed simp

lemma close_shortens: "close_block B n = (Inr u, n') \<Longrightarrow> length (snapshots n') < length (snapshots n)"
proof -
  obtain r n1 where r: "database_pop_block B n = (r, n1)" by (rule prod.exhaust)
  from pop_shortens [OF r] r show "close_block B n = (Inr u, n') \<Longrightarrow> length (snapshots n') < length (snapshots n)"
    by (auto simp: close_block_def Let_def split: sum.splits if_splits)
qed

lemma close_needs_no_fuel: "close_block B n = (r, n') \<Longrightarrow> r \<noteq> Inl out_of_fuel"
proof -
  obtain q n1 where q: "database_pop_block B n = (q, n1)" by (rule prod.exhaust)
  from pop_shortens [OF q] q show "close_block B n = (r, n') \<Longrightarrow> r \<noteq> Inl out_of_fuel"
    by (auto simp: close_block_def Let_def remove_stored_def split: sum.splits if_splits)
qed

lemma rewind_enough:
  "length (snapshots n) < fuel \<Longrightarrow> rewind_loop (fuel + k) B cutoff n = rewind_loop fuel B cutoff n \<and> fst (rewind_loop fuel B cutoff n) \<noteq> Inl out_of_fuel"
proof (induction fuel arbitrary: n)
  case (Suc fuel)
  obtain r n' where r: "close_block B n = (r, n')" by (rule prod.exhaust)
  show ?case
  proof (cases r)
    case (Inr u)
    with r close_shortens [of B n u n'] Suc.prems have "length (snapshots n') < fuel" by simp
    from Suc.IH [OF this] r Inr show ?thesis by simp
  qed (use r close_needs_no_fuel [OF r] in simp)
qed simp

section \<open>Dropping blocks\<close>

text \<open>Every entry in use is at the number of its block, which is where \<open>store\<close> writes it.\<close>

definition entries_placed :: "block_database \<Rightarrow> bool" where
  "entries_placed db \<longleftrightarrow> (\<forall>n < length (index_file db). block_size (index_file db ! n) \<noteq> 0 \<longrightarrow> num_from_id (entry_id (index_file db ! n)) = n)"

definition entries_used :: "block_database \<Rightarrow> nat set" where
  "entries_used db = {n. n < length (index_file db) \<and> block_size (index_file db ! n) \<noteq> 0}"

lemma finite_entries_used [simp]: "finite (entries_used db)"
  by (simp add: entries_used_def)

lemma remove_last:
  assumes p: "entries_placed db" and l: "last_id db = Some l"
  obtains db' where "remove_stored l db = Inr db'" "entries_placed db'" "card (entries_used db') < card (entries_used db)"
proof -
  from l obtain e where "find_last_entry db = Some e" "l = entry_id e" by (auto simp: last_id_def)
  with find_last_entry_spec(1) obtain n where n: "n < length (index_file db)" "l = entry_id (index_file db ! n)" "block_size (index_file db ! n) \<noteq> 0" by blast
  with p have num: "num_from_id l = n" by (simp add: entries_placed_def)
  let ?db = "db\<lparr>index_file := (index_file db)[n := (index_file db ! n)\<lparr>block_size := 0\<rparr>]\<rparr>"
  have "remove_stored l db = Inr ?db" using n num by (simp add: remove_stored_def Let_def)
  moreover have "entries_placed ?db" using p n(1) by (auto simp: entries_placed_def nth_list_update split: if_splits)
  moreover have "entries_used ?db = entries_used db - {n}" using n(1) by (auto simp: entries_used_def nth_list_update split: if_splits)
  then have "card (entries_used ?db) < card (entries_used db)"
    using n card_Diff1_less [of "entries_used db" n] by (simp add: entries_used_def)
  ultimately show ?thesis by (rule that)
qed

lemma gap_enough:
  "entries_placed db \<Longrightarrow> card (entries_used db) < fuel \<Longrightarrow> drop_after_gap (fuel + k) i db = drop_after_gap fuel i db \<and> succeeds (drop_after_gap fuel i db)"
proof (induction fuel arbitrary: db)
  case (Suc fuel)
  show ?case
  proof (cases "last_id db")
    case (Some l)
    from remove_last [OF Suc.prems(1) Some] obtain db' where d: "remove_stored l db = Inr db'" "entries_placed db'"
      "card (entries_used db') < card (entries_used db)" .
    from d(3) Suc.prems(2) have "card (entries_used db') < fuel" by simp
    from Suc.IH [OF d(2) this] Some d(1) show ?thesis by (simp add: succeeds_def)
  qed (simp add: succeeds_def)
qed simp

lemma entries_used_bound: "card (entries_used db) < Suc (length (index_file db))"
proof -
  have "card (entries_used db) \<le> card {..<length (index_file db)}" by (rule card_mono) (auto simp: entries_used_def)
  then show ?thesis by simp
qed

section \<open>The loops end\<close>

text \<open>
  C23: The loops of the node end. Popping blocks down to a fork and rewinding when the node is closed take no more rounds than there
  are snapshots in the undo history, and dropping the blocks behind a gap no more than the index file has entries, provided every
  entry in use is at the number of its block, where \<open>store\<close> writes it: more fuel gives the same result, and none of the
  loops runs out of it.
\<close>

theorem node_loops_end:
  assumes "entries_placed files"
  shows "pop_until (Suc (Suc (length (snapshots n))) + k) B i n = pop_to B i n \<and> fst (pop_to B i n) \<noteq> Inl out_of_fuel \<and>
    rewind_loop (Suc (length (snapshots n)) + k) B cutoff n = rewind_loop (Suc (length (snapshots n))) B cutoff n \<and>
    fst (rewind_loop (Suc (length (snapshots n))) B cutoff n) \<noteq> Inl out_of_fuel \<and>
    drop_after_gap (Suc (length (index_file files)) + k) j files = drop_after_gap (Suc (length (index_file files))) j files \<and>
    succeeds (drop_after_gap (Suc (length (index_file files))) j files)"
  using pop_until_enough [of n "Suc (Suc (length (snapshots n)))" k B i] rewind_enough [of n "Suc (length (snapshots n))" k B cutoff]
    gap_enough [OF assms entries_used_bound, of k j] unfolding pop_to_def by (simp del: pop_until.simps rewind_loop.simps drop_after_gap.simps)

theorem node_loops_end_witness:
  "\<exists>files. drop_after_gap 9 0 (block_files node_on_disk) = Inr files"
proof -
  have "entries_placed (block_files node_on_disk)"
    by (simp add: entries_placed_def node_on_disk_def store_def block_env_example_def first_block_def block_database_init_def num_from_id_def null_block_id_def
        write_entry_def empty_entry_def less_Suc_eq numeral_2_eq_2)
  moreover have "length (index_file (block_files node_on_disk)) = 2"
    by (simp add: node_on_disk_def store_def block_env_example_def block_database_init_def num_from_id_def null_block_id_def write_entry_def)
  ultimately show ?thesis using node_loops_end [of "block_files node_on_disk" node_example 6 block_env_example "(0, 0)" 0 0]
    by (simp add: succeeds_iff numeral_eq_Suc del: pop_until.simps rewind_loop.simps drop_after_gap.simps)
qed
end
