(* ===== verification/Messaging.thy ===== *)
theory Messaging
  imports Operation_Books Operation_Observers Member_Indexes
begin

text \<open>
  The interpreter of custom operations that the messaging plugin registers (\<open>plugins/messaging/messaging.cpp\<close>). Messages are objects of an index of the
  plugin, which no other operation reads, so the index is a state of its own beside the chain; on the chain the interpreter only throws or not.
  Reading the payload, which is JSON, is a parameter.
\<close>

record message_payload =
  pl_from :: nat
  pl_receivers :: "nat list"

record message_store =
  messages :: "message_object index"
  receiver_memberships :: "nat memberships"

definition get_messaging_payload :: "(string \<Rightarrow> message_payload result) \<Rightarrow> custom_operation \<Rightarrow> message_payload result" where
  "get_messaging_payload parse op = fc_assert (cus_data op \<noteq> []) (parse (cus_data op))"

definition messaging_do_evaluate :: "(string \<Rightarrow> message_payload result) \<Rightarrow> custom_operation \<Rightarrow> database \<Rightarrow> unit result" where
  "messaging_do_evaluate parse op db = rbind (get_messaging_payload parse op) (\<lambda>pl. fc_assert (pl_from pl = cus_payer op) (Inr ()))"

definition messaging_do_apply :: "(string \<Rightarrow> message_payload result) \<Rightarrow> custom_operation \<Rightarrow> database \<Rightarrow> message_store \<Rightarrow> message_store result" where
  "messaging_do_apply parse op db st =
     rbind (get_messaging_payload parse op) (\<lambda>pl.
     let m = \<lparr>msg_created = head_block_time db, msg_sender = pl_from pl, msg_receivers = pl_receivers pl\<rparr> in
     rbind (idx_create no_clash (messages st) (\<lambda>_. m)) (\<lambda>(i, t).
       Inr \<lparr>messages = t, receiver_memberships = message_inserted i m (receiver_memberships st)\<rparr>))"

text \<open>What the chain sees of the interpreter.\<close>

definition messaging_interpreter :: "(string \<Rightarrow> message_payload result) \<Rightarrow> interpreter" where
  "messaging_interpreter parse =
     (messaging_do_evaluate parse, \<lambda>op db. rbind (get_messaging_payload parse op) (\<lambda>_. Inr db))"

lemma messaging_leaves_chain: "leaves_chain (messaging_interpreter parse)"
  by (auto simp: leaves_chain_def messaging_interpreter_def res_simps)

text \<open>So an environment that registers nothing else meets what the theorems ask of interpreters, whatever they observe.\<close>

lemma messaging_respects:
  assumes "\<And>k f. env_register E k = Some f \<Longrightarrow> f = messaging_interpreter parse"
  shows "interpreters_respect view E"
  unfolding interpreters_respect_def
proof (intro allI impI)
  fix k f g op s s'
  assume "env_register E k = Some (f, g)" "g op s = Inr s'"
  moreover from this have "(f, g) = messaging_interpreter parse" using assms by blast
  ultimately show "view s' = view s" using messaging_leaves_chain [of parse] by (metis leaves_chain_def snd_conv)
qed

text \<open>
  A message that was evaluated is stored under the payer as its sender, and it can be found by its receivers: when the
  memberships list exactly the messages of every receiver, they still do so with the new message.
\<close>

definition receivers_exact :: "message_store \<Rightarrow> bool" where
  "receivers_exact st \<longleftrightarrow> (\<forall>r. receiver_memberships st r = {i. \<exists>m. idx_find (messages st) i = Some m \<and> r \<in> set (msg_receivers m)})"

theorem message_delivered:
  assumes w: "wf_index (messages st)" and x: "receivers_exact st" and e: "messaging_do_evaluate parse op db = Inr ()"
    and a: "messaging_do_apply parse op db st = Inr st'"
  shows "receivers_exact st' \<and> (\<exists>m. idx_find (messages st') (next_id (messages st)) = Some m \<and> msg_sender m = cus_payer op \<and>
    msg_created m = head_block_time db)"
proof -
  from a obtain pl i t where g: "get_messaging_payload parse op = Inr pl"
    and t: "idx_create no_clash (messages st) (\<lambda>_. \<lparr>msg_created = head_block_time db, msg_sender = pl_from pl, msg_receivers = pl_receivers pl\<rparr>) = Inr (i, t)"
    and st': "st' = \<lparr>messages = t, receiver_memberships = message_inserted i \<lparr>msg_created = head_block_time db, msg_sender = pl_from pl, msg_receivers = pl_receivers pl\<rparr>
      (receiver_memberships st)\<rparr>"
    by (auto simp: messaging_do_apply_def Let_def res_simps)
  have pl: "pl_from pl = cus_payer op" using e by (simp add: messaging_do_evaluate_def g res_simps split: if_splits)
  note c = idx_create_Inr [OF t w]
  have "idx_find (messages st) i = None" using t by (auto simp: idx_create_def Let_def res_simps)
  then have "receivers_exact st'" using x c
    by (auto simp: receivers_exact_def st' by_receiver.ins get_key_recipients_def set_insort_all split: if_splits)
  with c pl show ?thesis by (auto simp: st')
qed

text \<open>
  The plugin takes part in the consensus although it is optional. A node that runs it refuses a custom operation whose payload
  cannot be read or names another sender than the payer, and with it the block; a node that does not run it accepts both.
\<close>

theorem messaging_splits_nodes:
  assumes "cus_data op = [] \<or> (case parse (cus_data op) of Inl _ \<Rightarrow> True | Inr pl \<Rightarrow> pl_from pl \<noteq> cus_payer op)"
    and "without (cus_id op) = None" and "with_plugin (cus_id op) = Some (messaging_interpreter parse)"
  shows "custom_do_evaluate without op db = Inr () \<and> \<not> succeeds (custom_do_evaluate with_plugin op db)"
  using assms by (auto simp: custom_do_evaluate_def messaging_interpreter_def messaging_do_evaluate_def get_messaging_payload_def succeeds_iff
      res_simps split: sum.splits)

end
