(* ===== verification/Block_Supply.thy ===== *)
theory Block_Supply
  imports Block_Rules Supply
begin

text \<open>
  The supply along a chain of blocks. Operations, proposals they execute included, keep what is held of the core asset beyond its recorded
  supply, and the work around the transactions of a block changes it together with the counters of rewards and fees.
\<close>

section \<open>Balance\<close>

definition counters :: "database \<Rightarrow> int \<times> int \<times> int" where
  "counters db = (mined_rewards (dpo db), miner_budget_from_fees (dpo db), unspent_fee_budget (dpo db))"

interpretation budgeted: operation_observer counters
  by unfold_locales (simp_all add: counters_def)

text \<open>What is held of the core asset beyond its recorded supply was mined or taken from the fees since the last budget.\<close>

definition balanced :: "database \<Rightarrow> bool" where
  "balanced db \<longleftrightarrow> unbacked 0 db = mined_rewards (dpo db) + miner_budget_from_fees (dpo db) - unspent_fee_budget (dpo db)"

lemma balanced_keeps: "keeps U db db' \<Longrightarrow> counters db' = counters db \<Longrightarrow> balanced db' = balanced db"
  by (simp add: keeps_def balanced_def counters_def)

lemma balanced_supply: "balanced db \<Longrightarrow> core_supply db \<noteq> None \<Longrightarrow> supply_identity db"
  by (auto simp: balanced_def supply_identity_def unbacked_def recorded_supply_def recorded_in_def core_supply_def split: option.splits)

lemma supply_balanced: "supply_identity db \<Longrightarrow> balanced db \<and> core_supply db \<noteq> None"
  by (auto simp: balanced_def supply_identity_def unbacked_def recorded_supply_def recorded_in_def core_supply_def split: option.splits)

section \<open>Operations\<close>

lemma parameters_counters:
  assumes "run_operation S E skip proposed (Update_parameters fee q) db = Inr db'"
  shows "counters db' = counters db"
proof -
  have "counters s' = counters s" if "update_parameters_do_apply q s = Inr s'" for s s'
    using that by (auto simp: update_parameters_do_apply_def counters_def)
  with assms show ?thesis by (auto elim!: budgeted.evaluate_plain_view)
qed

lemma run_operation_counters:
  assumes "interpreters_respect counters E" "run_operation S E skip proposed op db = Inr db'"
  shows "counters db' = counters db"
  using budgeted.run_operation_view [OF assms(1) _ assms(2)] parameters_counters assms(2) is_parameter_update_iff by metis

text \<open>The operations of a proposal count as well, and those of the proposals it holds.\<close>

inductive deeply :: "(operation \<Rightarrow> bool) \<Rightarrow> operation \<Rightarrow> bool" for P where
  plain: "P op \<Longrightarrow> (\<And>q ops. op \<noteq> Proposal_create q ops) \<Longrightarrow> deeply P op"
| create: "(\<And>op. op \<in> set ops \<Longrightarrow> deeply P op) \<Longrightarrow> deeply P (Proposal_create q ops)"

inductive_cases deeply_createE: "deeply P (Proposal_create q ops)"

abbreviation fair :: "op_env \<Rightarrow> nat set \<Rightarrow> operation \<Rightarrow> bool" where
  "fair E U \<equiv> deeply (accountable E U)"

definition proposals_fair :: "op_env \<Rightarrow> nat set \<Rightarrow> chain \<Rightarrow> bool" where
  "proposals_fair E U c \<longleftrightarrow> wf_index (proposals c) \<and> (\<forall>i p op. idx_find (proposals c) i = Some p \<longrightarrow> op \<in> set (proposed_operations p) \<longrightarrow>
     fair E U op \<and> operation_validate (env_proto E) op = Inr ())"

text \<open>What a step on the chain keeps.\<close>

definition chain_keeps :: "op_env \<Rightarrow> nat set \<Rightarrow> chain \<Rightarrow> chain \<Rightarrow> bool" where
  "chain_keeps E U c c' \<longleftrightarrow> keeps U (chain_db c) (chain_db c') \<and> counters (chain_db c') = counters (chain_db c) \<and> proposals_fair E U c'"

lemma chain_keeps_refl: "good U (chain_db c) \<Longrightarrow> proposals_fair E U c \<Longrightarrow> chain_keeps E U c c"
  by (simp add: chain_keeps_def keeps_refl)

lemma chain_keeps_trans: "chain_keeps E U c c1 \<Longrightarrow> chain_keeps E U c1 c2 \<Longrightarrow> chain_keeps E U c c2"
  by (auto simp: chain_keeps_def intro: keeps_trans)

lemma chain_keepsD: "chain_keeps E U c c' \<Longrightarrow> good U (chain_db c') \<and> proposals_fair E U c'"
  by (simp add: chain_keeps_def keeps_def)

lemma proposals_fair_frame: "proposals c' = proposals c \<Longrightarrow> proposals_fair E U c' = proposals_fair E U c"
  by (simp add: proposals_fair_def)

lemma chain_loop_keeps:
  assumes "fold_res f xs c = Inr c'" "good U (chain_db c)" "proposals_fair E U c"
    and "\<And>x s s'. x \<in> set xs \<Longrightarrow> good U (chain_db s) \<Longrightarrow> proposals_fair E U s \<Longrightarrow> f x s = Inr s' \<Longrightarrow> chain_keeps E U s s'"
  shows "chain_keeps E U c c'"
proof (rule fold_res_invariant [OF assms(1), where P = "chain_keeps E U c"])
  show "chain_keeps E U c c" using assms(2,3) by (rule chain_keeps_refl)
next
  fix x s s' assume x: "x \<in> set xs" and s: "chain_keeps E U c s" and f: "f x s = Inr s'"
  from assms(4) [OF x _ _ f] chain_keepsD [OF s] chain_keeps_trans [OF s] show "chain_keeps E U c s'" by simp
qed

lemma fees_good:
  assumes S: "safe_exact S" and g: "good U db" and f: "convert_fee S False fs db = Inr d1" "pay_fee S False fs d1 = Inr d2"
  shows "good U d2"
proof -
  have b: "books d2" using g pay_fee_holdings(1) [OF S _ f(2)] convert_fee_holdings(1) [OF S _ f(1)] by (simp add: good_def)
  from f obtain t where "d2 = db\<lparr>dynamic_data := t\<rparr>"
    by (auto simp: convert_fee_def pay_fee_def modify_dynamic_data_def res_simps split: if_splits)
  with b g market_inv_frame [of d2 db U] show ?thesis by (simp add: good_def)
qed

lemma evaluate_chain_keeps:
  assumes S: "safe_exact S" and g: "good U (chain_db c)" and p: "proposals_fair E U c" and e: "evaluate_chain S E op check change c = Inr c'"
    and ch: "\<And>s s'. good U (chain_db s) \<Longrightarrow> proposals_fair E U s \<Longrightarrow> check c = Inr () \<Longrightarrow> change s = Inr s' \<Longrightarrow> chain_keeps E U s s'"
  shows "chain_keeps E U c c'"
proof -
  from e obtain fs r d1 d2 c3 n d where s: "prepare_fee (fee_payer op) (op_fee op) (chain_db c) = Inr fs"
    "required_fee S (env_data_size E) op (chain_db c) = Inr r" "\<not> core_fee_paid fs < r" "check c = Inr ()"
    "convert_fee S False fs (chain_db c) = Inr d1" "pay_fee S False fs d1 = Inr d2" "change (c\<lparr>chain_db := d2\<rparr>) = Inr c3"
    "asset_neg S (fee_from_account fs) = Inr n" "adjust_balance S (fee_payer op) n (chain_db c3) = Inr d" "c' = c3\<lparr>chain_db := d\<rparr>"
    by (auto simp: evaluate_chain_def res_simps split: if_splits)
  define f where "f = (\<lambda>x. if x = d2 then Inr (chain_db c3) else (Inl other_exception :: database result))"
  have "f d2 = Inr (chain_db c3)" by (simp add: f_def)
  then have "evaluate_plain S E op no_check f (chain_db c) = Inr d"
    using s by (auto simp: evaluate_plain_def evaluate_with_def start_evaluate_def plain_check_def plain_change_def no_check_def res_simps)
  have pf: "proposals_fair E U (c\<lparr>chain_db := d2\<rparr>)" using p proposals_fair_frame [of "c\<lparr>chain_db := d2\<rparr>" c] by simp
  have "chain_keeps E U (c\<lparr>chain_db := d2\<rparr>) c3" if "good U d2" using ch [OF _ pf s(4,7)] that by simp
  then have k: "good U d2 \<Longrightarrow> keeps U d2 (chain_db c3) \<and> counters (chain_db c3) = counters d2 \<and> proposals_fair E U c3" by (simp add: chain_keeps_def)
  have kd: "keeps U (chain_db c) d"
    by (rule evaluate_plain_keeps [OF S g _ \<open>evaluate_plain S E op no_check f (chain_db c) = Inr d\<close>]) (use k in \<open>auto simp: f_def split: if_splits\<close>)
  have "good U d2" by (rule fees_good [OF S g s(5,6)])
  with k kd s(10) budgeted.fee_view(1) [OF s(5)] budgeted.fee_view(2) [OF s(6)] budgeted.adjust [OF s(9)] proposals_fair_frame [of c' c3 E U]
  show ?thesis by (simp add: chain_keeps_def)
qed

lemma validated: "transaction_validate proto ops = Inr () \<Longrightarrow> op \<in> set ops \<Longrightarrow> operation_validate proto op = Inr ()"
proof -
  have "fold_res (\<lambda>op _. operation_validate proto op) xs u = Inr v \<Longrightarrow> op \<in> set xs \<Longrightarrow> operation_validate proto op = Inr ()" for xs u v
    by (induction xs arbitrary: u) (auto simp: res_simps)
  then show "transaction_validate proto ops = Inr () \<Longrightarrow> op \<in> set ops \<Longrightarrow> operation_validate proto op = Inr ()"
    by (auto simp: transaction_validate_def res_simps)
qed

lemma proposal_created_fair:
  assumes p: "proposals_fair E U s" and f: "fair E U (Proposal_create o' ops)" and v: "transaction_validate (env_proto E) ops = Inr ()"
    and a: "proposal_create_do_apply o' ops s = Inr s'"
  shows "proposals_fair E U s'" "chain_db s' = chain_db s"
proof -
  from a obtain i t where t: "idx_create no_clash (proposals s) (\<lambda>_. new_proposal o' ops) = Inr (i, t)" "s' = s\<lparr>proposals := t\<rparr>"
    by (auto simp: proposal_create_do_apply_def res_simps)
  from p have "wf_index (proposals s)" by (simp add: proposals_fair_def)
  note c = idx_create_Inr [OF t(1) this]
  have "proposed_operations (new_proposal o' ops) = ops" by (simp add: new_proposal_def Let_def)
  moreover have "fair E U op" if "op \<in> set ops" for op using f that by (auto elim: deeply_createE)
  ultimately show "proposals_fair E U s'" using p c validated [OF v] by (auto simp: proposals_fair_def t(2) split: if_splits)
  show "chain_db s' = chain_db s" by (simp add: t(2))
qed

lemma proposal_removed_fair:
  assumes "proposals_fair E U s" "idx_remove (proposals s) i = Inr t"
  shows "proposals_fair E U (s\<lparr>proposals := t\<rparr>)"
  using assms idx_remove_Inr [OF assms(2)] by (auto simp: proposals_fair_def split: if_splits)

lemma proposal_approved_fair:
  assumes "proposals_fair E U s" "idx_update no_clash (proposals s) i (\<lambda>p. Inr (update_approvals op p)) = Inr t"
  shows "proposals_fair E U (s\<lparr>proposals := t\<rparr>)"
proof -
  have "proposed_operations (update_approvals op p) = proposed_operations p" for p by (simp add: update_approvals_def Let_def)
  with assms idx_update_Inr [OF assms(2)] show ?thesis by (auto simp: proposals_fair_def split: if_splits)
qed

lemma same_db_keeps:
  "good U (chain_db s) \<Longrightarrow> proposals_fair E U s' \<Longrightarrow> chain_db s' = chain_db s \<Longrightarrow> chain_keeps E U s s'"
  by (simp add: chain_keeps_def keeps_refl)

lemma push_proposal_keeps:
  assumes g: "good U (chain_db c)" and p: "proposals_fair E U c" and r: "push_proposal f i p0 c = Inr c'"
    and f: "\<And>op s s'. op \<in> set (proposed_operations p0) \<Longrightarrow> good U (chain_db s) \<Longrightarrow> proposals_fair E U s \<Longrightarrow> f op s = Inr s' \<Longrightarrow> chain_keeps E U s s'"
  shows "chain_keeps E U c c'"
proof -
  from r obtain c1 t where c1: "fold_res f (proposed_operations p0) c = Inr c1" "idx_remove (proposals c1) i = Inr t" "c' = c1\<lparr>proposals := t\<rparr>"
    by (auto simp: push_proposal_def res_simps split: option.splits)
  have k: "chain_keeps E U c c1" using c1(1) g p f by (rule chain_loop_keeps)
  then have "good U (chain_db c1)" "proposals_fair E U c1" using chain_keepsD by blast+
  then have "chain_keeps E U c1 c'" using proposal_removed_fair [OF _ c1(2)] by (intro same_db_keeps) (simp_all add: c1(3))
  with k show ?thesis by (rule chain_keeps_trans)
qed

lemma apply_operation_keeps:
  assumes S: "safe_exact S" and z: "0 \<in> U" and i: "interpreters_respect counters E"
  shows "good U (chain_db c) \<Longrightarrow> proposals_fair E U c \<Longrightarrow> fair E U op \<Longrightarrow> operation_validate (env_proto E) op = Inr () \<Longrightarrow>
    apply_operation n S E skip proposed op c = Inr c' \<Longrightarrow> chain_keeps E U c c'"
proof (induction n arbitrary: proposed op c c')
  case (Suc n)
  have run: ?case if acc: "accountable E U op" and r: "lift_db (run_operation S E skip proposed op) c = Inr c'"
  proof -
    from r obtain d where d: "run_operation S E skip proposed op (chain_db c) = Inr d" "c' = c\<lparr>chain_db := d\<rparr>" by (auto simp: lift_db_def res_simps)
    from run_operation_keeps [OF S z Suc.prems(1,4) acc d(1)] run_operation_counters [OF i d(1)] Suc.prems(2) proposals_fair_frame [of c' c E U] d(2)
    show ?thesis by (simp add: chain_keeps_def)
  qed
  show ?case
  proof (cases op)
    case (Proposal_create o' ops)
    with Suc.prems(5) have e: "evaluate_chain S E op (proposal_create_do_evaluate (env_proto E) o' ops) (proposal_create_do_apply o' ops) c = Inr c'" by simp
    show ?thesis
    proof (rule evaluate_chain_keeps [OF S Suc.prems(1,2) e])
      fix s s' assume g: "good U (chain_db s)" and p: "proposals_fair E U s" and ck: "proposal_create_do_evaluate (env_proto E) o' ops c = Inr ()"
        and a: "proposal_create_do_apply o' ops s = Inr s'"
      have "transaction_validate (env_proto E) ops = Inr ()" using ck by (auto simp: proposal_create_do_evaluate_def Let_def res_simps)
      from proposal_created_fair [OF p _ this a] Suc.prems(3) Proposal_create g show "chain_keeps E U s s'" by (simp add: same_db_keeps)
    qed
  next
    case (Proposal_update o')
    with Suc.prems(5) have e: "evaluate_chain S E op (proposal_update_do_evaluate o') (proposal_update_do_apply (apply_operation n S E skip True) o') c = Inr c'" by simp
    show ?thesis
    proof (rule evaluate_chain_keeps [OF S Suc.prems(1,2) e])
      fix s s' assume g: "good U (chain_db s)" and p: "proposals_fair E U s"
        and a: "proposal_update_do_apply (apply_operation n S E skip True) o' s = Inr s'"
      from a obtain t p0 where u: "idx_update no_clash (proposals s) (pup_proposal o') (\<lambda>p. Inr (update_approvals o' p)) = Inr t"
        and p0: "idx_find t (pup_proposal o') = Some p0"
        and r: "s' = s\<lparr>proposals := t\<rparr> \<or> push_proposal (apply_operation n S E skip True) (pup_proposal o') p0 (s\<lparr>proposals := t\<rparr>) = Inr s'"
        by (auto simp: proposal_update_do_apply_def Let_def idx_get_def res_simps split: if_splits dest: catching_Inr)
      have f1: "proposals_fair E U (s\<lparr>proposals := t\<rparr>)" by (rule proposal_approved_fair [OF p u])
      have k1: "chain_keeps E U s (s\<lparr>proposals := t\<rparr>)" using g f1 by (rule same_db_keeps) simp
      from r show "chain_keeps E U s s'"
      proof
        assume r: "push_proposal (apply_operation n S E skip True) (pup_proposal o') p0 (s\<lparr>proposals := t\<rparr>) = Inr s'"
        have "fair E U x \<and> operation_validate (env_proto E) x = Inr ()" if "x \<in> set (proposed_operations p0)" for x
          using f1 p0 that by (auto simp: proposals_fair_def)
        then have "chain_keeps E U (s\<lparr>proposals := t\<rparr>) s'"
          using g by (intro push_proposal_keeps [OF _ f1 r] Suc.IH) simp_all
        with k1 show ?thesis by (rule chain_keeps_trans)
      qed (use k1 in simp)
    qed
  next
    case (Proposal_delete o')
    with Suc.prems(5) have e: "evaluate_chain S E op (proposal_delete_do_evaluate o') (proposal_delete_do_apply o') c = Inr c'" by simp
    show ?thesis
      by (rule evaluate_chain_keeps [OF S Suc.prems(1,2) e])
        (auto simp: proposal_delete_do_apply_def res_simps intro!: same_db_keeps proposal_removed_fair)
  qed (use Suc.prems run in \<open>auto elim!: deeply.cases\<close>)
qed simp

lemma expiry_keeps:
  assumes S: "safe_exact S" and z: "0 \<in> U" and i: "interpreters_respect counters E" and g: "good U (chain_db c)" and p: "proposals_fair E U c"
    and x: "clear_expired_proposals S E skip c = Inr c'"
  shows "chain_keeps E U c c'"
proof -
  have one: "chain_keeps E U s s'" if g: "good U (chain_db s)" and p: "proposals_fair E U s" and n: "next_expired s = Some r"
    and e: "expire_proposal S E skip r s = Inr s'" for r s s'
  proof -
    have "r \<in> set (rows (proposals s))" using n
      by (auto simp: next_expired_def split: list.splits if_splits) (metis (no_types, lifting) list.set_intros(1) set_sort)
    with p have f: "idx_find (proposals s) (fst r) = Some (snd r)"
      by (cases r) (simp add: proposals_fair_def idx_find_eq wf_index_def sorted_imp_distinct_rows)
    from e consider "push_proposal (apply_operation push_depth S E skip True) (fst r) (snd r) s = Inr s'"
      | t where "idx_remove (proposals s) (fst r) = Inr t" "s' = s\<lparr>proposals := t\<rparr>"
      by (auto simp: expire_proposal_def Let_def res_simps split: if_splits sum.splits)
    then show ?thesis
    proof cases
      case 1
      have "fair E U x \<and> operation_validate (env_proto E) x = Inr ()" if "x \<in> set (proposed_operations (snd r))" for x
        using p f that by (auto simp: proposals_fair_def)
      then show ?thesis by (intro push_proposal_keeps [OF g p 1] apply_operation_keeps [OF S z i]) simp_all
    next
      case 2
      then show ?thesis using g proposal_removed_fair [OF p 2(1)] by (intro same_db_keeps) simp_all
    qed
  qed
  have "good U (chain_db s) \<Longrightarrow> proposals_fair E U s \<Longrightarrow> expire_loop n S E skip s = Inr s' \<Longrightarrow> chain_keeps E U s s'" for n s s'
  proof (induction n arbitrary: s)
    case (Suc n)
    show ?case
    proof (cases "next_expired s")
      case None
      with Suc.prems show ?thesis by (simp add: chain_keeps_refl)
    next
      case (Some r)
      with Suc.prems(3) obtain s1 where s1: "expire_proposal S E skip r s = Inr s1" "expire_loop n S E skip s1 = Inr s'" by (auto simp: res_simps)
      note k = one [OF Suc.prems(1,2) Some s1(1)]
      from Suc.IH [OF _ _ s1(2)] chain_keepsD [OF k] chain_keeps_trans [OF k] show ?thesis by simp
    qed
  qed simp
  from this [OF g p x [unfolded clear_expired_proposals_def]] show ?thesis .
qed

section \<open>Blocks\<close>

lemma lift_money_keeps:
  assumes "good U (chain_db c)" "proposals_fair E U c" "lift_db f c = Inr c'"
    and "\<And>s s'. f s = Inr s' \<Longrightarrow> money s' = money s \<and> counters s' = counters s"
  shows "chain_keeps E U c c'"
proof -
  from assms(3) obtain d where d: "f (chain_db c) = Inr d" "c' = c\<lparr>chain_db := d\<rparr>" by (auto simp: lift_db_def res_simps)
  from assms(4) [OF d(1)] money_keeps [OF assms(1), of d] assms(2) d(2) proposals_fair_frame [of c' c E U] show ?thesis by (simp add: chain_keeps_def)
qed

lemma transaction_keeps:
  assumes S: "safe_exact S" and z: "0 \<in> U" and i: "interpreters_respect counters (blk_ops B)" and g: "good U (chain_db c)" and p: "proposals_fair (blk_ops B) U c"
    and f: "list_all (fair (blk_ops B) U) (tx_operations t)" and a: "apply_transaction S B skip t c = Inr c'"
  shows "chain_keeps (blk_ops B) U c c'"
proof -
  from a obtain d where v: "transaction_validate (env_proto (blk_ops B)) (tx_operations t) = Inr ()" and d: "record_transaction B skip t (chain_db c) = Inr d"
    and r: "fold_res (apply_operation push_depth S (blk_ops B) skip False) (tx_operations t) (c\<lparr>chain_db := d\<rparr>) = Inr c'"
    by (auto simp: apply_transaction_def res_simps)
  have "lift_db (record_transaction B skip t) c = Inr (c\<lparr>chain_db := d\<rparr>)" using d by (simp add: lift_db_def)
  then have k: "chain_keeps (blk_ops B) U c (c\<lparr>chain_db := d\<rparr>)"
    by (rule lift_money_keeps [OF g p]) (auto simp: record_transaction_def create_transaction_def money_def counters_def res_simps split: if_splits)
  have "chain_keeps (blk_ops B) U (c\<lparr>chain_db := d\<rparr>) c'"
    by (rule chain_loop_keeps [OF r]) (use chain_keepsD [OF k] f validated [OF v] apply_operation_keeps [OF S z i] in \<open>auto simp: list_all_iff\<close>)
  with k show ?thesis by (rule chain_keeps_trans)
qed

lemma signing_miner_balanced:
  assumes S: "safe_exact S" and g: "good U db" and i: "balanced db" and u: "update_signing_miner S w k t db = Inr db'"
  shows "good U db' \<and> balanced db'" and "accounts db' = accounts db"
proof -
  from u obtain fees pay mined unspent db1 db2 f where
    m: "S (mined_rewards (dpo db) + get_new_asset_per_block db) = Inr mined"
    "S (unspent_fee_budget (dpo db) - fees) = Inr unspent" "S (fees + get_new_asset_per_block db) = Inr pay"
    and d1: "db1 = db\<lparr>dpo := (dpo db)\<lparr>mined_rewards := mined, unspent_fee_budget := unspent\<rparr>\<rparr>"
    and d2: "deposit_miner_pay S w pay db1 = Inr db2" and d3: "modify_miner w f db2 = Inr db'"
    unfolding update_signing_miner_def Let_def rbind_eq_Inr by blast
  note e = m [THEN safe_exactD [OF S]]
  have mo: "money db1 = money db" by (simp add: d1 money_def)
  have b1: "good U db1" using money_good(1) [OF g mo] .
  then have "books db1" by (simp add: good_def)
  note h = deposit_miner_pay_holdings [OF S this d2]
  from h(3) d3 obtain vs ms where d: "db' = db1\<lparr>vestings := vs, miners := ms\<rparr>" by (auto simp: modify_miner_def res_simps)
  then show "accounts db' = accounts db" by (simp add: d1)
  have mo2: "money db' = money db2" using modify_miner_money [OF d3] .
  have "books db'" using h(1) money_books [OF mo2] by simp
  moreover have "market_inv U db'" using b1 market_inv_frame [of db' db1 U] by (simp add: good_def d)
  moreover have "recorded_supply 0 db' = recorded_supply 0 db" by (rule recorded_supply_frame) (simp_all add: d d1 supplies_def fun_eq_iff)
  then have "balanced db'"
    using i h(2) [of 0] money_holdings [OF mo2, of 0] money_holdings [OF mo, of 0] e
    by (simp add: balanced_def unbacked_def d d1 held_def mk_asset_def)
  ultimately show "good U db' \<and> balanced db'" by (simp add: good_def)
qed

lemma maintenance_core:
  assumes "perform_chain_maintenance S k t db = Inr db'"
  shows "core_supply db \<noteq> None"
proof -
  from assms obtain y db1 db2 db3 where a: "update_active_miners S y db = Inr db1" and h: "decent_housekeeping S db1 = Inr db2"
    and s: "schedule_maintenance k t (adopt_parameters db2) = Inr db3" and b: "process_budget S db3 = Inr db'"
    by (auto simp: perform_chain_maintenance_def res_simps)
  from update_active_miners_frame [OF a] obtain ms ac gp where d1: "db1 = db\<lparr>miners := ms, accounts := ac, gpo := gp\<rparr>" by metis
  have "assets db2 = assets db1" "supplies db2 = supplies db1"
    using consensus.housekeeping [OF h] recorded.housekeeping [OF h] by (simp_all add: consensus_state_def)
  moreover have "assets db3 = assets db2" "supplies db3 = supplies db2"
    using s by (auto simp: schedule_maintenance_def adopt_parameters_def Let_def supplies_def res_simps split: option.splits)
  moreover have "supplies db1 = supplies db" by (simp add: d1 supplies_def fun_eq_iff)
  ultimately have "core_supply db3 = core_supply db" by (simp add: core_supply_def d1)
  moreover from b obtain x where "core_asset db3 = Inr x" by (auto simp: process_budget_def res_simps)
  then have "core_supply db3 \<noteq> None" by (cases x) (auto simp: core_asset_Inr core_supply_def supplies_def)
  ultimately show ?thesis by simp
qed

lemma maintenance_balanced:
  assumes S: "safe_exact S" "safe_total S" "safe_overflow S" and g: "good U db" and p: "prices_nonneg db" and i: "balanced db"
    and m: "perform_chain_maintenance S k t db = Inr db'"
  shows "good U db' \<and> balanced db'"
  using maintenance_supply [OF S g p balanced_supply [OF i maintenance_core [OF m]] m] supply_balanced by blast

lemma opts_keep: "is_monitored_asset a \<Longrightarrow> same_books i a (a\<lparr>monitored_asset_opts := Some m\<rparr>)"
  by (simp add: same_books_def is_monitored_asset_def rate_ok_def)

lemma feeds_keep:
  assumes g: "good U db" and u: "update_expired_feeds db = Inr db'"
  shows "keeps U db db' \<and> counters db' = counters db"
proof -
  let ?mon = "\<lambda>s i. map_option is_monitored_asset (idx_find (assets s) i)"
  let ?P = "\<lambda>s. keeps U db s \<and> counters s = counters db \<and> ?mon s = ?mon db"
  have w: "wf_index (assets db)" using g by (simp add: good_def books_def)
  have "?P db'" using u unfolding update_expired_feeds_def
  proof (rule fold_res_invariant [where P = ?P])
    show "?P db" using g by (simp add: keeps_refl)
  next
    fix r s s' assume r: "r \<in> set (rows (assets db))" and k: "?P s"
      and f: "(case monitored_asset_opts (snd r) of None \<Rightarrow> Inr s | Some m \<Rightarrow> if feed_is_expired (head_block_time s) m
           then modify_asset (fst r) (\<lambda>ao. rbind (update_median_feeds (head_block_time s) m) (\<lambda>m'. Inr (ao\<lparr>monitored_asset_opts := Some m'\<rparr>))) s
           else Inr s) = Inr s'"
    show "?P s'"
    proof (cases "s' = s")
      case False
      with f obtain m where m: "monitored_asset_opts (snd r) = Some m" and md: "modify_asset (fst r)
        (\<lambda>ao. rbind (update_median_feeds (head_block_time s) m) (\<lambda>m'. Inr (ao\<lparr>monitored_asset_opts := Some m'\<rparr>))) s = Inr s'"
        by (auto split: option.splits if_splits)
      have "idx_find (assets db) (fst r) = Some (snd r)" using w r by (cases r) (simp add: idx_find_eq wf_index_def sorted_imp_distinct_rows)
      then have "?mon db (fst r) = Some True" using m by (simp add: is_monitored_asset_def)
      moreover have "?mon s (fst r) = ?mon db (fst r)" using k by (auto dest: fun_cong)
      ultimately have "?mon s (fst r) = Some True" by simp
      then have mon: "idx_find (assets s) (fst r) = Some a \<Longrightarrow> is_monitored_asset a" for a by simp
      have "good U s" using k by (simp add: keeps_def)
      then have "good U s' \<and> (\<forall>x. unbacked x s' = unbacked x s)"
        by (rule modify_asset_kept [OF _ md]) (auto simp: res_simps intro: opts_keep dest: mon)
      moreover from md obtain t where t: "idx_update asset_clash (assets s) (fst r)
          (\<lambda>ao. rbind (update_median_feeds (head_block_time s) m) (\<lambda>m'. Inr (ao\<lparr>monitored_asset_opts := Some m'\<rparr>))) = Inr t" "s' = s\<lparr>assets := t\<rparr>"
        by (auto simp: modify_asset_def res_simps)
      from idx_update_Inr(1) [OF t(1)] mon have "?mon s' = ?mon s" by (auto simp: t(2) fun_eq_iff is_monitored_asset_def res_simps)
      moreover have "counters s' = counters s" by (simp add: t(2) counters_def)
      ultimately show ?thesis using k by (simp add: keeps_def)
    qed (use k in simp)
  qed
  then show ?thesis by simp
qed

lemma global_data_keeps:
  assumes "update_global_dynamic_data u cp k i t w db = Inr db'"
  shows "money db' = money db \<and> counters db' = counters db"
proof -
  have "money s' = money s \<and> counters s' = counters s" if "note_missed w x s = Inr s'" for x s s'
    using that by (auto simp: note_missed_def Let_def res_simps split: if_splits dest: modify_miner_money budgeted.view_steps)
  then have "money s' = money s \<and> counters s' = counters s" if "fold_res (note_missed w) xs s = Inr s'" for xs s s'
    by (intro fold_res_invariant [OF that, where P = "\<lambda>x. money x = money s \<and> counters x = counters s"]) auto
  moreover from assms obtain xs s d where "fold_res (note_missed w) xs db = Inr s" "db' = s\<lparr>dpo := d\<rparr>"
    "mined_rewards d = mined_rewards (dpo s)" "miner_budget_from_fees d = miner_budget_from_fees (dpo s)" "unspent_fee_budget d = unspent_fee_budget (dpo s)"
    by (auto simp: update_global_dynamic_data_def Let_def res_simps)
  ultimately have "money s = money db \<and> counters s = counters db" "money db' = money s" "counters db' = counters s" by (blast, simp_all add: money_def counters_def)
  then show ?thesis by simp
qed

lemma begin_block_keeps:
  assumes S: "safe_exact S" and z: "0 \<in> U" and i: "interpreters_respect counters (blk_ops B)" and g: "good U (chain_db c)" and p: "proposals_fair (blk_ops B) U c"
    and f: "\<forall>t \<in> set (transactions b). list_all (fair (blk_ops B) U) (tx_operations t)" and s: "begin_block S B cp skip b c = Inr (m, c1)"
  shows "chain_keeps (blk_ops B) U c c1"
proof -
  let ?c0 = "c\<lparr>chain_db := (chain_db c)\<lparr>applied_ops := []\<rparr>\<rparr>"
  from s obtain c2 d where t: "fold_res (apply_transaction S B (skip OR skip_transaction_signatures)) (transactions b) ?c0 = Inr c2"
    and d: "update_global_dynamic_data (skips skip skip_undo_history_check) cp (int (block_num b)) (bid_of B b) (int (timestamp b)) (miner b) (chain_db c2) = Inr d"
      "c1 = c2\<lparr>chain_db := d\<rparr>" by (auto simp: begin_block_def Let_def res_simps)
  have k0: "chain_keeps (blk_ops B) U c ?c0"
    by (rule lift_money_keeps [OF g p, of "\<lambda>db. Inr (db\<lparr>applied_ops := []\<rparr>)"]) (auto simp: lift_db_def money_def counters_def)
  have k1: "chain_keeps (blk_ops B) U ?c0 c2"
    by (rule chain_loop_keeps [OF t]) (use chain_keepsD [OF k0] f transaction_keeps [OF S z i] in auto)
  from chain_keepsD [OF k1] have g2: "good U (chain_db c2)" "proposals_fair (blk_ops B) U c2" by simp_all
  from d have "lift_db (update_global_dynamic_data (skips skip skip_undo_history_check) cp (int (block_num b)) (bid_of B b) (int (timestamp b)) (miner b)) c2 = Inr c1"
    by (simp add: lift_db_def)
  then have "chain_keeps (blk_ops B) U c2 c1" by (rule lift_money_keeps [OF g2]) (rule global_data_keeps)
  with k0 k1 show ?thesis by (blast intro: chain_keeps_trans)
qed

text \<open>The invariant: books in order, the supply accounted for, and stored proposals that will keep them so.\<close>

definition accounts_balance :: "op_env \<Rightarrow> nat set \<Rightarrow> chain \<Rightarrow> bool" where
  "accounts_balance E U c \<longleftrightarrow> good U (chain_db c) \<and> balanced (chain_db c) \<and> proposals_fair E U c"

lemma accounts_balance_keeps: "accounts_balance E U c \<Longrightarrow> chain_keeps E U c c' \<Longrightarrow> accounts_balance E U c'"
  using balanced_keeps by (auto simp: accounts_balance_def chain_keeps_def keeps_def)

lemma accounts_balance_db:
  "accounts_balance E U c \<Longrightarrow> good U d \<and> balanced d \<Longrightarrow> accounts_balance E U (c\<lparr>chain_db := d\<rparr>)"
  by (simp add: accounts_balance_def proposals_fair_def)

lemma finish_block_balanced:
  assumes S: "safe_exact S" "safe_total S" "safe_overflow S" and z: "0 \<in> U" and i: "interpreters_respect counters (blk_ops B)"
    and a: "accounts_balance (blk_ops B) U c" and pr: "m \<longrightarrow> prices_nonneg (chain_db c)" and f: "finish_block S B skip m b c = Inr c'"
  shows "accounts_balance (blk_ops B) U c'"
proof -
  from f obtain d0 d d1 d2 d3 c4 d5 d6 d7 where
    s: "update_signing_miner S (miner b) (int (block_num b)) (int (timestamp b)) (chain_db c) = Inr d0"
      "update_last_irreversible_block (skips skip skip_undo_history_check) d0 = Inr d"
      "(if m then perform_chain_maintenance S (int (block_num b)) (int (timestamp b)) d else Inr d) = Inr d1"
      "create_block_summary B b d1 = Inr d2" "clear_expired_transactions d2 = Inr d3"
      "clear_expired_proposals S (blk_ops B) skip (c\<lparr>chain_db := d3\<rparr>) = Inr c4"
      "update_expired_feeds (chain_db c4) = Inr d5" "update_withdraw_permissions d5 = Inr d6"
      "update_miner_schedule (update_maintenance_flag m d6) = Inr d7" "c' = c4\<lparr>chain_db := d7\<lparr>applied_ops := []\<rparr>\<rparr>"
    by (auto simp: finish_block_def Let_def lift_db_def res_simps cong: if_cong)
  have mb: "good U y \<and> balanced y" if "good U x \<and> balanced x" "money y = money x" "counters y = counters x" for x y
    using that money_keeps [of U x y] balanced_keeps [of U x y] by (auto simp: keeps_def)
  have "good U (chain_db c)" "balanced (chain_db c)" using a by (simp_all add: accounts_balance_def)
  note g0 = signing_miner_balanced [OF S(1) this s(1)]
  have g1: "good U d \<and> balanced d"
    by (rule mb [OF g0(1)]) (use s(2) in \<open>auto simp: update_last_irreversible_block_def Let_def res_simps money_def counters_def split: if_splits\<close>)
  have "accounts d = accounts (chain_db c)"
    using g0(2) s(2) by (auto simp: update_last_irreversible_block_def Let_def res_simps split: if_splits)
  then have "m \<longrightarrow> prices_nonneg d" using pr by (simp add: prices_nonneg_def)
  then have g2: "good U d1 \<and> balanced d1" using maintenance_balanced [OF S, of U d] g1 s(3) by (auto split: if_splits)
  have g3: "good U d3 \<and> balanced d3"
    by (rule mb [OF g2]) (use s(4,5) in \<open>auto simp: create_block_summary_def modify_summary_def clear_expired_transactions_def res_simps money_def counters_def\<close>)
  have "accounts_balance (blk_ops B) U (c\<lparr>chain_db := d3\<rparr>)" using a g3 by (rule accounts_balance_db)
  then have a4: "accounts_balance (blk_ops B) U c4"
    by (rule accounts_balance_keeps) (rule expiry_keeps [OF S(1) z i _ _ s(6)], use \<open>accounts_balance (blk_ops B) U (c\<lparr>chain_db := d3\<rparr>)\<close> in \<open>simp_all add: accounts_balance_def\<close>)
  then have "good U d5 \<and> balanced d5" using feeds_keep [OF _ s(7)] balanced_keeps [of U "chain_db c4" d5] by (auto simp: accounts_balance_def keeps_def)
  then have "good U (d7\<lparr>applied_ops := []\<rparr>) \<and> balanced (d7\<lparr>applied_ops := []\<rparr>)"
    by (rule mb) (use s(8,9) in \<open>auto simp: update_withdraw_permissions_def update_miner_schedule_def update_maintenance_flag_def Let_def res_simps money_def counters_def split: if_splits\<close>)
  with a4 show ?thesis unfolding s(10) by (rule accounts_balance_db)
qed

section \<open>Blocks\<close>

text \<open>
  A block is applied. Its operations create no asset, ask prices in the assets of the market and run no custom interpreter that changes the chain; and when
  the chain is maintained at its end no account asks a negative price for subscriptions.
\<close>

inductive block_step :: "safe \<Rightarrow> block_env \<Rightarrow> nat set \<Rightarrow> chain \<Rightarrow> chain \<Rightarrow> bool" for S B U where
  applied: "apply_block S B cps skip b c = Inr c' \<Longrightarrow>
    \<forall>t \<in> set (transactions b). list_all (fair (blk_ops B) U) (tx_operations t) \<Longrightarrow>
    \<forall>k c1. begin_block S B (last_checkpoint cps) k b c = Inr (True, c1) \<longrightarrow> prices_nonneg (chain_db c1) \<Longrightarrow> block_step S B U c c'"

lemma block_step_balanced:
  assumes S: "safe_exact S" "safe_total S" "safe_overflow S" and z: "0 \<in> U" and i: "interpreters_respect counters (blk_ops B)"
    and a: "accounts_balance (blk_ops B) U c" and st: "block_step S B U c c'"
  shows "accounts_balance (blk_ops B) U c'"
  using st
proof cases
  case (applied cps skip b)
  then obtain k m c1 where b: "begin_block S B (last_checkpoint cps) k b c = Inr (m, c1)" and f: "finish_block S B k m b c1 = Inr c'"
    by (auto simp: apply_block_def res_simps)
  have "good U (chain_db c)" "proposals_fair (blk_ops B) U c" using a by (simp_all add: accounts_balance_def)
  from accounts_balance_keeps [OF a begin_block_keeps [OF S(1) z i this applied(2) b]] have "accounts_balance (blk_ops B) U c1" .
  then show ?thesis by (rule finish_block_balanced [OF S z i _ _ f]) (use applied(3) b in auto)
qed

lemma blocks_balanced:
  assumes S: "safe_exact S" "safe_total S" "safe_overflow S" and z: "0 \<in> U" and i: "interpreters_respect counters (blk_ops B)"
    and r: "(block_step S B U)\<^sup>*\<^sup>* c c'" and a: "accounts_balance (blk_ops B) U c"
  shows "accounts_balance (blk_ops B) U c'"
  using r
proof (induction rule: rtranclp_induct)
  case base
  show ?case by (rule a)
next
  case (step d d')
  then show ?case using block_step_balanced [OF S z i] by blast
qed

lemma balanced_holdings:
  assumes "accounts_balance E U c"
  shows "holdings 0 (chain_db c) = recorded_supply 0 (chain_db c) + mined_rewards (dpo (chain_db c)) +
      miner_budget_from_fees (dpo (chain_db c)) - unspent_fee_budget (dpo (chain_db c)) \<and> (\<forall>x a. 0 \<le> ledger_of (chain_db c) x a)"
proof -
  have "balanced (chain_db c)" "books (chain_db c)" using assms by (simp_all add: accounts_balance_def good_def)
  then show ?thesis by (simp add: balanced_def unbacked_def books_def solvent_ledger)
qed

text \<open>
  C2: The supply of the core asset is accounted for along chains of blocks. The blocks hold any operations, proposed ones included, that
  create no asset, offer content only in assets of a set \<open>U\<close> none of which is monitored, and run no interpreter that changes objects of the chain; and
  whenever the chain is maintained no account asks a negative price for subscriptions. From a state in which the supply is accounted
  for, whichever proposals are executed or expire and whenever the chain is maintained, the recorded supply plus the rewards and
  fees paid since the last budget is exactly what balances, vesting balances, escrows and pools hold, and no balance is
  negative. The creation of assets and negative prices do break it (Asset_Books, Housekeeping_Books).
\<close>

theorem supply_along_blocks:
  assumes S: "safe_exact S" "safe_total S" "safe_overflow S" and z: "0 \<in> U" and i: "interpreters_respect counters (blk_ops B)"
    and r: "(block_step S B U)\<^sup>*\<^sup>* c c'" and g: "good U (chain_db c)" and u: "supply_identity (chain_db c)" and p: "proposals_fair (blk_ops B) U c"
  shows "holdings 0 (chain_db c') = recorded_supply 0 (chain_db c') + mined_rewards (dpo (chain_db c')) +
      miner_budget_from_fees (dpo (chain_db c')) - unspent_fee_budget (dpo (chain_db c')) \<and> (\<forall>x a. 0 \<le> ledger_of (chain_db c') x a)"
proof -
  have "accounts_balance (blk_ops B) U c" using g p supply_balanced [OF u] by (simp add: accounts_balance_def)
  then show ?thesis by (rule balanced_holdings [OF blocks_balanced [OF S z i r]])
qed

lemma mined_chain_balanced: "good {0} (chain_db mined_chain)" "supply_identity (chain_db mined_chain)" "proposals_fair E {0} mined_chain"
proof -
  show "good {0} (chain_db mined_chain)"
    using chain_example_good money_good(1) [of "{0}" chain_example "chain_db mined_chain"]
    by (simp add: mined_chain_def governed_db_def money_def)
  have "core_supply (chain_db mined_chain) = Some 100" "mined_rewards (dpo (chain_db mined_chain)) = 0" "holdings 0 (chain_db mined_chain) = 100"
    "miner_budget_from_fees (dpo (chain_db mined_chain)) = 0" "unspent_fee_budget (dpo (chain_db mined_chain)) = 0" by code_simp+
  then show "supply_identity (chain_db mined_chain)" by (simp add: supply_identity_def)
  have "wf_index (proposals mined_chain)" by (simp add: mined_chain_def)
  moreover have "idx_find (proposals mined_chain) i = None" for i by (simp add: mined_chain_def idx_find_def empty_index_def)
  ultimately show "proposals_fair E {0} mined_chain" by (simp add: proposals_fair_def)
qed

theorem supply_along_blocks_witness:
  "\<exists>c'. apply_block safe_int64 block_env_example [] skip_nothing first_block mined_chain = Inr c' \<and> (\<forall>x a. 0 \<le> ledger_of (chain_db c') x a) \<and>
     holdings 0 (chain_db c') = recorded_supply 0 (chain_db c') + mined_rewards (dpo (chain_db c')) +
      miner_budget_from_fees (dpo (chain_db c')) - unspent_fee_budget (dpo (chain_db c'))"
proof -
  have "succeeds (apply_block safe_int64 block_env_example [] skip_nothing first_block mined_chain)" by code_simp
  then obtain c' where c': "apply_block safe_int64 block_env_example [] skip_nothing first_block mined_chain = Inr c'" unfolding succeeds_iff ..
  have "deeply (accountable E {0}) (Transfer q)" for E q by (rule deeply.plain) simp_all
  then have f: "\<forall>t \<in> set (transactions first_block). list_all (fair (blk_ops block_env_example) {0}) (tx_operations t)"
    by (simp add: first_block_def payment_def)
  have m: "\<forall>k c1. begin_block safe_int64 block_env_example (last_checkpoint []) k first_block mined_chain = Inr (True, c1) \<longrightarrow> prices_nonneg (chain_db c1)"
    by (auto simp: begin_block_def Let_def res_simps first_block_def mined_chain_def governed_db_def chain_example_def empty_db_def)
  have i: "interpreters_respect counters (blk_ops block_env_example)" by (simp add: interpreters_respect_def block_env_example_def op_env_example_def)
  have "(block_step safe_int64 block_env_example {0})\<^sup>*\<^sup>* mined_chain c'" using block_step.applied [OF c' f m] by (rule r_into_rtranclp)
  note supply_along_blocks [OF safe_int64_exact safe_int64_total safe_int64_overflow _ i this mined_chain_balanced]
  with c' show ?thesis by simp
qed

end
