(* ===== verification/Genesis.thy ===== *)
theory Genesis
  imports Block_Supply Amount_String
begin

text \<open>
  The genesis (\<open>init_genesis\<close> of \<open>db_init.cpp\<close>, \<open>genesis_state.hpp\<close>): the accounts, assets, balances and miners a chain starts with. The objects
  that every chain has are created directly; initial accounts, balances and miners are operations, applied without their
  \<open>validate\<close> and without fees. The database is empty before. The number of block summaries, \<open>0xffff + 1\<close> in the code, is an argument. Default-constructed
  keys are the number zero. The chain id and the undo database, which is off meanwhile, are left out.
\<close>

unbundle bit_operations_syntax

section \<open>What the genesis file says\<close>

record initial_account_type =
  ini_name :: string
  owner_key :: nat
  owner_key2 :: "nat option"
  owner_key3 :: "nat option"
  owner_threshold :: "int option"
  active_key :: nat
  active_key2 :: "nat option"
  active_key3 :: "nat option"
  active_threshold :: "int option"

record initial_asset_type =
  ini_symbol :: string
  ini_issuer_name :: string
  ini_description :: string
  ini_precision :: nat

record initial_balance_type =
  ini_owner :: string
  ini_asset_symbol :: string
  ini_amount :: int

record initial_miner_type =
  owner_name :: string
  block_signing_key :: nat

record genesis_state_type =
  initial_timestamp :: int
  max_core_supply :: int
  initial_parameters :: chain_parameters
  gen_immutable_parameters :: immutable_chain_parameters
  initial_accounts :: "initial_account_type list"
  initial_assets :: "initial_asset_type list"
  initial_balances :: "initial_balance_type list"
  initial_active_miners :: nat
  initial_miner_candidates :: "initial_miner_type list"

section \<open>Objects of every chain\<close>

definition GRAPHENE_INITIAL_SHARE_SUPPLY :: int where "GRAPHENE_INITIAL_SHARE_SUPPLY = 5130608937456900"
definition GRAPHENE_DEFAULT_BLOCK_INTERVAL :: int where "GRAPHENE_DEFAULT_BLOCK_INTERVAL = 5"
definition GRAPHENE_BLOCKCHAIN_PRECISION_DIGITS :: nat where "GRAPHENE_BLOCKCHAIN_PRECISION_DIGITS = 8"
definition GRAPHENE_SYMBOL :: string where "GRAPHENE_SYMBOL = ''DCT''"
definition GRAPHENE_NULL_MINER :: nat where "GRAPHENE_NULL_MINER = 0"
definition GRAPHENE_DEFAULT_PRICE_FEED_LIFETIME :: int where "GRAPHENE_DEFAULT_PRICE_FEED_LIFETIME = 60 * 60 * 24"

definition default_account_options :: account_options where
  "default_account_options = \<lparr>memo_key = 0, voting_account = Balance.GRAPHENE_PROXY_TO_SELF_ACCOUNT, num_miner = 0, votes = [],
     allow_subscription = False, price_per_subscribe = mk_asset 0 0, subscription_period = 0\<rparr>"

definition default_asset_options :: asset_options where
  "default_asset_options = \<lparr>max_supply = GRAPHENE_MAX_SHARE_SUPPLY, opt_exchange_rate = null_price, is_exchangeable = True, fixed_max_supply_ext = None\<rparr>"

definition default_monitored_options :: monitored_asset_options where
  "default_monitored_options = \<lparr>feeds = [], current_feed = null_feed, current_feed_publication_time = 0,
     feed_lifetime_sec = GRAPHENE_DEFAULT_PRICE_FEED_LIFETIME, minimum_feeds = 1\<rparr>"

definition resize_summaries :: "nat \<Rightarrow> block_summary_object index" where
  "resize_summaries n = \<lparr>next_id = 0, rows = map (\<lambda>i. (i, \<lparr>summary_block_id = null_block_id\<rparr>)) [0..<n]\<rparr>"

definition system_account :: "string \<Rightarrow> int \<Rightarrow> database \<Rightarrow> (nat \<times> database) result" where
  "system_account name threshold db =
     rbind (create_account_stats \<lparr>stat_owner = next_id (accounts db), total_core_in_orders = 0\<rparr> db) (\<lambda>(sid, db1).
     create_account \<lparr>registrar = GRAPHENE_MINER_ACCOUNT, acc_name = name,
       acc_owner = \<lparr>weight_threshold = threshold, account_auths = [], key_auths = []\<rparr>,
       acc_active = \<lparr>weight_threshold = threshold, account_auths = [], key_auths = []\<rparr>,
       acc_options = default_account_options,
       rights_to_publish = \<lparr>is_publishing_manager = False, publishing_rights_received = {}, publishing_rights_forwarded = []\<rparr>,
       acc_statistics = sid, cashback_vb = None, top_n_control_flags = 0\<rparr> db1)"

definition blockchain_accounts :: "database \<Rightarrow> database result" where
  "blockchain_accounts =
     fold_res (\<lambda>(name, threshold, i) db. rbind (system_account name threshold db) (\<lambda>(k, db'). fc_assert (k = i) (Inr db')))
       [(''miner-account'', 1, GRAPHENE_MINER_ACCOUNT), (''null-account'', 1, GRAPHENE_NULL_ACCOUNT),
        (''temp-account'', 0, GRAPHENE_TEMP_ACCOUNT), (''proxy-to-self'', 1, Balance.GRAPHENE_PROXY_TO_SELF_ACCOUNT)]"

text \<open>The ids below the given numbers are used up: every round takes one.\<close>

definition special_accounts :: "nat \<Rightarrow> database \<Rightarrow> database result" where
  "special_accounts n db =
     fold_res (\<lambda>_ db. let i = next_id (accounts db) in
       rbind (system_account (''special-account-'' @ decimal (int i)) 1 db) (\<lambda>(k, db1).
       fc_assert (k = i) (rbind (idx_remove (accounts db1) k) (\<lambda>t. Inr (db1\<lparr>accounts := t\<rparr>))))) [next_id (accounts db)..<n] db"

definition create_core_asset :: "int \<Rightarrow> database \<Rightarrow> database result" where
  "create_core_asset max_core db =
     rbind (create_dynamic_data \<lparr>current_supply = GRAPHENE_INITIAL_SHARE_SUPPLY, asset_pool = 0, core_pool = 0\<rparr> db) (\<lambda>(dyn, db1).
     rbind (create_asset \<lparr>symbol = GRAPHENE_SYMBOL, precision = GRAPHENE_BLOCKCHAIN_PRECISION_DIGITS, issuer = GRAPHENE_NULL_ACCOUNT, description = [],
       monitored_asset_opts = None,
       asset_opts = default_asset_options\<lparr>max_supply := max_core, opt_exchange_rate := \<lparr>base = mk_asset 1 0, quote = mk_asset 1 0\<rparr>\<rparr>,
       dynamic_asset_data_id = dyn\<rparr> db1) (\<lambda>(_, db2). Inr db2))"

definition special_assets :: "nat \<Rightarrow> database \<Rightarrow> database result" where
  "special_assets n db =
     fold_res (\<lambda>_ db. let i = next_id (assets db) in
       rbind (create_dynamic_data \<lparr>current_supply = 0, asset_pool = 0, core_pool = 0\<rparr> db) (\<lambda>(dyn, db1).
       rbind (create_asset \<lparr>symbol = ''SPECIAL'' @ decimal (int i), precision = GRAPHENE_BLOCKCHAIN_PRECISION_DIGITS, issuer = GRAPHENE_NULL_ACCOUNT,
         description = [], monitored_asset_opts = None, asset_opts = default_asset_options\<lparr>max_supply := 0\<rparr>, dynamic_asset_data_id = dyn\<rparr> db1) (\<lambda>(k, db2).
       fc_assert (k = i) (rbind (idx_remove (assets db2) k) (\<lambda>t. Inr (db2\<lparr>assets := t\<rparr>)))))) [next_id (assets db)..<n] db"

definition initial_gpo :: "chain_parameters \<Rightarrow> global_property_object" where
  "initial_gpo p = \<lparr>parameters = p\<lparr>current_fees := zero_all_fees default_fees\<rparr>, pending_parameters = None, next_available_vote_id = 0, active_miners = []\<rparr>"

definition initial_dpo :: "int \<Rightarrow> dynamic_global_property_object" where
  "initial_dpo t = \<lparr>head_block_number = 0, dyn_head_block_id = null_block_id, dyn_time = t, current_miner = 0, next_maintenance_time = 0,
     last_budget_time = 0, miner_budget_from_fees = 0, unspent_fee_budget = 0, mined_rewards = 0, miner_budget_from_rewards = 0,
     accounts_registered_this_interval = 0, recently_missed_count = 0, current_aslot = 0, recent_slots_filled = 2 ^ 128 - 1, dynamic_flags = 0,
     last_irreversible_block_num = 0\<rparr>"

definition create_summary :: "database \<Rightarrow> database" where
  "create_summary db =
     (let t = block_summaries db; i = next_id t in
      db\<lparr>block_summaries := \<lparr>next_id = Suc i, rows = rows t @ map (\<lambda>j. (j, \<lparr>summary_block_id = null_block_id\<rparr>)) [length (rows t)..<Suc i]\<rparr>\<rparr>)"

section \<open>Initial accounts, balances, assets and miners\<close>

definition key_authority :: "int \<Rightarrow> nat list \<Rightarrow> authority" where
  "key_authority threshold ks = \<lparr>weight_threshold = threshold, account_auths = [], key_auths = fold (\<lambda>k. map_assign k 1) ks []\<rparr>"

definition initial_authority :: "nat \<Rightarrow> nat option \<Rightarrow> nat option \<Rightarrow> int option \<Rightarrow> authority result" where
  "initial_authority k k2 k3 t =
     (let threshold = (case t of None \<Rightarrow> 1 | Some x \<Rightarrow> x) in
      case (k2, k3) of
        (Some a, Some b) \<Rightarrow> fc_assert (threshold \<le> 3) (Inr (key_authority threshold [k, a, b]))
      | (Some a, None) \<Rightarrow> fc_assert (threshold \<le> 2) (Inr (key_authority threshold [k, a]))
      | (None, _) \<Rightarrow> Inr (key_authority 1 [k]))"

definition initial_account_operation :: "initial_account_type \<Rightarrow> account_create_operation result" where
  "initial_account_operation a =
     rbind (initial_authority (owner_key a) (owner_key2 a) (owner_key3 a) (owner_threshold a)) (\<lambda>own.
     rbind (if active_key a = 0 then Inr (own, owner_key a)
            else rbind (initial_authority (active_key a) (active_key2 a) (active_key3 a) (active_threshold a)) (\<lambda>act. Inr (act, active_key a))) (\<lambda>(act, memo).
       Inr \<lparr>acr_fee = mk_asset 0 0, acr_registrar = GRAPHENE_TEMP_ACCOUNT, acr_name = ini_name a, acr_owner = own, acr_active = act,
         acr_options = default_account_options\<lparr>memo_key := memo\<rparr>, acr_votes = []\<rparr>))"

definition get_account_id :: "string \<Rightarrow> database \<Rightarrow> nat result" where
  "get_account_id name db = (case find_account name db of None \<Rightarrow> Inl assert_exception | Some (i, _) \<Rightarrow> Inr i)"

definition get_asset_id :: "string \<Rightarrow> database \<Rightarrow> nat result" where
  "get_asset_id s db = (case find_symbol (if s = ''DCT'' then GRAPHENE_SYMBOL else s) db of None \<Rightarrow> Inl assert_exception | Some (i, _) \<Rightarrow> Inr i)"

definition create_initial_accounts :: "safe \<Rightarrow> op_env \<Rightarrow> 32 word \<Rightarrow> initial_account_type list \<Rightarrow> database \<Rightarrow> database result" where
  "create_initial_accounts S E skip =
     fold_res (\<lambda>a db. rbind (initial_account_operation a) (\<lambda>cop. run_operation S E skip False (Account_create cop) db))"

definition create_initial_balances :: "safe \<Rightarrow> op_env \<Rightarrow> 32 word \<Rightarrow> initial_balance_type list \<Rightarrow> database \<Rightarrow> database result" where
  "create_initial_balances S E skip =
     fold_res (\<lambda>b db. rbind (get_account_id (ini_owner b) db) (\<lambda>to. rbind (get_asset_id (ini_asset_symbol b) db) (\<lambda>a.
       run_operation S E skip False (Transfer \<lparr>tr_fee = mk_asset 0 0, tr_from = GRAPHENE_MINER_ACCOUNT, tr_to = to, tr_amount = mk_asset (ini_amount b) a\<rparr>) db)))"

definition create_initial_assets :: "initial_asset_type list \<Rightarrow> database \<Rightarrow> ((nat \<times> int) list \<times> database) result" where
  "create_initial_assets as db =
     fold_res (\<lambda>a (totals, db).
       let totals' = map_assign (next_id (assets db)) 0 totals in
       rbind (create_dynamic_data \<lparr>current_supply = 0, asset_pool = 0, core_pool = 0\<rparr> db) (\<lambda>(dyn, db1).
       rbind (get_account_id (ini_issuer_name a) db1) (\<lambda>who.
       rbind (create_asset \<lparr>symbol = ini_symbol a, precision = ini_precision a, issuer = who, description = ini_description a,
         monitored_asset_opts = Some default_monitored_options, asset_opts = default_asset_options\<lparr>max_supply := 0\<rparr>, dynamic_asset_data_id = dyn\<rparr> db1) (\<lambda>(_, db2).
         Inr (totals', db2))))) as ([], db)"

definition save_supply :: "nat \<times> int \<Rightarrow> database \<Rightarrow> database result" where
  "save_supply item db =
     rbind (idx_get (assets db) (fst item)) (\<lambda>ao.
     rbind (idx_get (dynamic_data db) (dynamic_asset_data_id ao)) (\<lambda>_.
     modify_dynamic_data (dynamic_asset_data_id ao) (\<lambda>d. Inr (d\<lparr>current_supply := snd item\<rparr>)) db))"

definition save_supplies :: "safe \<Rightarrow> (nat \<times> int) list \<Rightarrow> database \<Rightarrow> database result" where
  "save_supplies S totals db =
     rbind (if (case map_of totals 0 of None \<Rightarrow> 0 | Some x \<Rightarrow> x) > 0 then
              rbind (asset_neg S (get_balance GRAPHENE_MINER_ACCOUNT 0 db)) (\<lambda>n.
              rbind (adjust_balance S GRAPHENE_MINER_ACCOUNT n db) (\<lambda>db'. Inr (totals, db')))
            else Inr (map_assign 0 GRAPHENE_INITIAL_SHARE_SUPPLY totals, db)) (\<lambda>(totals', db').
       fold_res save_supply totals' db')"

definition create_initial_miners :: "safe \<Rightarrow> op_env \<Rightarrow> 32 word \<Rightarrow> initial_miner_type list \<Rightarrow> database \<Rightarrow> database result" where
  "create_initial_miners S E skip candidates db =
     rbind (create_miner \<lparr>miner_account = 0, last_aslot = 0, signing_key = 0, pay_vb = None, vote_id = 0, total_votes = 0, url = [], total_missed = 0,
              last_confirmed_block_num = 0\<rparr> db) (\<lambda>(i, db1).
     fc_assert (i = GRAPHENE_NULL_MINER) (rbind (idx_remove (miners db1) i) (\<lambda>t.
     fold_res (\<lambda>m db. rbind (get_account_id (owner_name m) db) (\<lambda>who.
       run_operation S E skip False (Miner_create \<lparr>mcr_fee = mk_asset 0 0, mcr_account = who, mcr_url = [], mcr_signing_key = block_signing_key m\<rparr>) db))
       candidates (db1\<lparr>miners := t\<rparr>))))"

section \<open>The genesis\<close>

definition genesis_objects :: "nat \<Rightarrow> genesis_state_type \<Rightarrow> database \<Rightarrow> database result" where
  "genesis_objects summaries G db =
     (let P = gen_immutable_parameters G in
      rbind (create_balance \<lparr>bal_owner = 0, asset_type = 0, bal_amount = GRAPHENE_INITIAL_SHARE_SUPPLY\<rparr>
               (db\<lparr>block_summaries := resize_summaries summaries\<rparr>)) (\<lambda>db1.
      rbind (blockchain_accounts db1) (\<lambda>db2.
      rbind (special_accounts (num_special_accounts P) db2) (\<lambda>db3.
      rbind (create_core_asset (max_core_supply G) db3) (\<lambda>db4.
      rbind (special_assets (num_special_assets P) db4) (\<lambda>db5.
      fc_assert (odd (min_miner_count P))
        (Inr (create_summary (db5\<lparr>gpo := initial_gpo (initial_parameters G), dpo := initial_dpo (initial_timestamp G), immutable_parameters := P\<rparr>)))))))))"

definition genesis_contents :: "safe \<Rightarrow> op_env \<Rightarrow> 32 word \<Rightarrow> genesis_state_type \<Rightarrow> database \<Rightarrow> database result" where
  "genesis_contents S E skip G db =
     rbind (create_initial_accounts S E skip (initial_accounts G) db) (\<lambda>db1.
     rbind (create_initial_balances S E skip (initial_balances G) db1) (\<lambda>db2.
     rbind (create_initial_assets (initial_assets G) db2) (\<lambda>(totals, db3).
     rbind (save_supplies S totals db3) (\<lambda>db4.
     create_initial_miners S E skip (initial_miner_candidates G) db4))))"

definition genesis_miners :: "genesis_state_type \<Rightarrow> database \<Rightarrow> database" where
  "genesis_miners G db =
     (let active = active_miners (gpo db) @ [1..<Suc (initial_active_miners G)];
          gp = (gpo db)\<lparr>active_miners := active, parameters := (parameters (gpo db))\<lparr>current_fees := current_fees (initial_parameters G)\<rparr>\<rparr>
      in db\<lparr>gpo := gp, miner_schedule := \<lparr>current_shuffled_miners = active\<rparr>\<rparr>)"

definition init_genesis :: "nat \<Rightarrow> safe \<Rightarrow> op_env \<Rightarrow> 32 word \<Rightarrow> genesis_state_type \<Rightarrow> chain \<Rightarrow> chain result" where
  "init_genesis summaries S E skip G c =
     fc_assert (initial_timestamp G \<noteq> 0)
    (fc_assert (initial_timestamp G mod GRAPHENE_DEFAULT_BLOCK_INTERVAL = 0)
    (fc_assert (initial_miner_candidates G \<noteq> [])
    (fc_assert (initial_active_miners G \<le> length (initial_miner_candidates G))
    (rbind (genesis_objects summaries G (chain_db c)) (\<lambda>db1.
     rbind (genesis_contents S E (skip OR skip_authority_check) G db1) (\<lambda>db2.
       Inr (c\<lparr>chain_db := genesis_miners G db2\<rparr>)))))))"

text \<open>The counter of vote ids in binary, for evaluation.\<close>

lemma get_next_vote_id_code [code]: "get_next_vote_id gp type =
     (mk_vote_id type (of_nat (next_available_vote_id gp)), gp\<lparr>next_available_vote_id := nat ((int (next_available_vote_id gp) + 1) mod 2 ^ 32)\<rparr>)"
  by (simp add: get_next_vote_id_def nat_mod_distrib nat_add_distrib)

section \<open>The books of a new chain\<close>

text \<open>The whole initial supply is held and nothing else is.\<close>

definition opening_books :: "database \<Rightarrow> bool" where
  "opening_books db \<longleftrightarrow> good {0} db \<and> data_present db \<and> (\<forall>a. holdings a db = (if a = 0 then GRAPHENE_INITIAL_SHARE_SUPPLY else 0))"

lemma opening_money: "opening_books db \<Longrightarrow> money db' = money db \<Longrightarrow> opening_books db' \<and> core_supply db' = core_supply db"
  using money_good [of "{0}" db db'] money_cong [of db' db] by (simp add: opening_books_def core_supply_def supplies_def data_present_def)

lemma system_account_money: "system_account n k db = Inr (i, db') \<Longrightarrow> money db' = money db"
  by (auto simp: system_account_def create_account_stats_def create_account_def money_def res_simps)

lemma money_accounts: "money (db\<lparr>accounts := t\<rparr>) = money db"
  by (simp add: money_def)

lemma blockchain_accounts_money:
  assumes "blockchain_accounts db = Inr db'"
  shows "money db' = money db"
  using assms unfolding blockchain_accounts_def
  by (rule fold_res_invariant [where P = "\<lambda>x. money x = money db"]) (auto simp: res_simps dest!: system_account_money)

lemma special_accounts_money:
  assumes "special_accounts n db = Inr db'"
  shows "money db' = money db"
  using assms unfolding special_accounts_def
  by (rule fold_res_invariant [where P = "\<lambda>x. money x = money db"]) (auto simp: Let_def res_simps money_accounts dest!: system_account_money)

lemma core_asset_opening:
  assumes o: "opening_books db" and e: "assets db = empty_index" and c: "create_core_asset m db = Inr db'"
  shows "opening_books db' \<and> core_supply db' = Some GRAPHENE_INITIAL_SHARE_SUPPLY"
proof -
  from c obtain dyn t ao i u where 1: "idx_create no_clash (dynamic_data db) (\<lambda>_. \<lparr>current_supply = GRAPHENE_INITIAL_SHARE_SUPPLY, asset_pool = 0, core_pool = 0\<rparr>) = Inr (dyn, t)"
    and 2: "idx_create asset_clash (assets db) (\<lambda>_. ao) = Inr (i, u)" and d: "db' = db\<lparr>dynamic_data := t, assets := u\<rparr>"
    and ao: "dynamic_asset_data_id ao = dyn" "monitored_asset_opts ao = None"
    by (fastforce simp: create_core_asset_def create_dynamic_data_def create_asset_def res_simps)
  have i: "i = 0" using 2 by (auto simp: e idx_create_def empty_index_def Let_def res_simps)
  have g: "good {0} db" "data_present db" using o by (simp_all add: opening_books_def)
  have "rate_ok i ao" "is_monitored_asset ao \<longrightarrow> i \<notin> {0}" by (simp_all add: rate_ok_def is_monitored_asset_def ao(2) i)
  note n = new_asset_books [OF g 1 2 d ao(1) this]
  show ?thesis using n o ao(1) by (simp add: opening_books_def core_supply_def i)
qed

text \<open>An asset that is created and removed again leaves its dynamic data behind, which are those of no asset.\<close>

lemma del_ins_row: "i \<notin> fst ` set rs \<Longrightarrow> del_row i (ins_row i x rs) = rs"
  by (induction i x rs rule: ins_row.induct) (auto simp: del_row_def intro: filter_True)

lemma discarded_asset:
  assumes o: "opening_books db" and s: "core_supply db = Some s"
    and 1: "create_dynamic_data \<lparr>current_supply = 0, asset_pool = 0, core_pool = 0\<rparr> db = Inr (dyn, db1)"
    and 2: "create_asset ao db1 = Inr (i, db2)" and 3: "idx_remove (assets db2) i = Inr v" and d: "db' = db2\<lparr>assets := v\<rparr>"
  shows "opening_books db' \<and> core_supply db' = Some s"
proof -
  from 1 obtain t where t: "idx_create no_clash (dynamic_data db) (\<lambda>_. \<lparr>current_supply = 0, asset_pool = 0, core_pool = 0\<rparr>) = Inr (dyn, t)"
    "db1 = db\<lparr>dynamic_data := t\<rparr>" by (auto simp: create_dynamic_data_def res_simps)
  from 2 obtain u where u: "idx_create asset_clash (assets db) (\<lambda>_. ao) = Inr (i, u)" "db2 = db1\<lparr>assets := u\<rparr>"
    by (auto simp: create_asset_def t(2) res_simps)
  have b: "books db" "data_present db" using o by (simp_all add: opening_books_def good_def)
  have w: "wf_index (dynamic_data db)" "wf_index (assets db)" using b by (simp_all add: books_def)
  note f = create_fresh [OF w(1) t(1)]
  have "i \<notin> fst ` set (rows (assets db))" using create_fresh(2) [OF w(2) u(1)] by (simp add: idx_find_def map_of_eq_None_iff)
  then have v: "v = (assets db)\<lparr>next_id := Suc (next_id (assets db))\<rparr>"
    using 3 u by (auto simp: idx_create_def idx_remove_def Let_def res_simps del_ins_row split: option.splits)
  then have db': "db' = db\<lparr>dynamic_data := t, assets := (assets db)\<lparr>next_id := Suc (next_id (assets db))\<rparr>\<rparr>" by (simp add: d u(2) t(2))
  then have a: "idx_find (assets db') = idx_find (assets db)" "rows (assets db') = rows (assets db)" by (simp_all add: idx_find_def fun_eq_iff)
  have other: "dynamic_asset_data_id x \<noteq> dyn" if "idx_find (assets db) k = Some x" for k x
    using b(2) f(2) that by (force simp: data_present_def list_all_iff idx_find_def dest: map_of_SomeD)
  have "wf_index (assets db')" using w(2) by (auto simp: db' wf_index_def list_all_iff)
  then have "books db'" using b(1) f(5) by (simp add: books_def solvent_def db')
  moreover have "market_inv {0} db'" using o a(1) by (simp add: opening_books_def good_def market_inv_def db')
  moreover have "data_present db'" using b(2) f(3) by (auto simp: data_present_def list_all_iff db')
  moreover have "pool_of k db' = pool_of k db" for k
    using f(3) other a(1) by (auto simp: pool_of_def pool_in_def db' idx_find_def split: option.splits)
  then have "holdings k db' = holdings k db" for k
    using idx_total_create(1) [OF w(1) t(1), where w = core_pool] by (simp add: holdings_def balance_supply_def db')
  moreover have "core_supply db' = core_supply db"
    using f(3) other a(1) s by (auto simp: core_supply_def supplies_def db' idx_find_def split: bind_splits)
  ultimately show ?thesis using o s by (simp add: opening_books_def good_def)
qed

lemma special_assets_opening:
  assumes "opening_books db" "core_supply db = Some s" "special_assets n db = Inr db'"
  shows "opening_books db' \<and> core_supply db' = Some s"
  using assms(3) unfolding special_assets_def
  by (rule fold_res_invariant [where P = "\<lambda>x. opening_books x \<and> core_supply x = Some s"])
    (use assms(1,2) in \<open>auto simp: Let_def res_simps intro: discarded_asset [THEN conjunct1] discarded_asset [THEN conjunct2]\<close>)

section \<open>Operations of the genesis\<close>

lemma evaluate_plain_frame:
  assumes S: "safe_exact S" and g: "good U db" and f: "\<forall>x y. good U x \<longrightarrow> f x = Inr y \<longrightarrow> keeps U x y \<and> assets y = assets x \<and> supplies y = supplies x"
    and e: "evaluate_plain S E op c f db = Inr db'"
  shows "keeps U db db'" "assets db' = assets db" "supplies db' = supplies db"
proof -
  show "keeps U db db'" by (rule evaluate_plain_keeps [OF S g _ e]) (use f in blast)
  from e obtain fs db1 db2 db3 m where
    c: "convert_fee S False fs db = Inr db1" "pay_fee S False fs db1 = Inr db2" "f db2 = Inr db3" "adjust_balance S (fee_payer op) m db3 = Inr db'"
    by (auto simp: evaluate_plain_def evaluate_with_def start_evaluate_def plain_check_def plain_change_def res_simps split: if_splits)
  note h = fee_steps(1-3) [OF S g c(1,2)]
  with f c(3) have k: "keeps U db2 db3" "assets db3 = assets db2" "supplies db3 = supplies db2" by blast+
  then have "books db3" by (simp add: keeps_def good_def)
  from adjust_balance_unbacked(3) [OF S this c(4)] obtain t where "db' = db3\<lparr>balances := t\<rparr>" ..
  then have "assets db' = assets db3" "supplies db' = supplies db3" by (simp_all add: supplies_def fun_eq_iff)
  with h k show "assets db' = assets db" "supplies db' = supplies db" by simp_all
qed

lemma opening_step:
  assumes o: "opening_books db" and k: "keeps {0} db db'" "assets db' = assets db" "supplies db' = supplies db"
  shows "opening_books db' \<and> core_supply db' = core_supply db"
proof -
  have "holdings a db' = holdings a db" for a using k recorded_supply_frame [OF k(2,3)] by (simp add: keeps_def unbacked_def)
  then show ?thesis using o k data_present_frame [OF k(2,3)] by (simp add: opening_books_def keeps_def core_supply_def)
qed

lemma money_frame: "good U x \<Longrightarrow> money y = money x \<Longrightarrow> keeps U x y \<and> assets y = assets x \<and> supplies y = supplies x"
  using money_keeps money_cong [of y x] by (auto simp: supplies_def)

text \<open>Neither the counters nor the clock, the parameters and the active miners are touched before the end.\<close>

definition founding :: "database \<Rightarrow> (int \<times> int \<times> int) \<times> int \<times> chain_parameters \<times> nat list" where
  "founding db = (counters db, head_block_time db, parameters (gpo db), active_miners (gpo db))"

interpretation founded: operation_observer founding
  by unfold_locales (simp_all add: founding_def counters_def head_block_time_def)

text \<open>What the genesis has established once the properties are there; its operations keep it.\<close>

definition established :: "genesis_state_type \<Rightarrow> database \<Rightarrow> bool" where
  "established G db \<longleftrightarrow> opening_books db \<and> core_supply db = Some GRAPHENE_INITIAL_SHARE_SUPPLY \<and>
     founding db = ((0, 0, 0), initial_timestamp G, (initial_parameters G)\<lparr>current_fees := zero_all_fees default_fees\<rparr>, [])"

lemma evaluate_plain_established:
  assumes S: "safe_exact S" and o: "established G db" and e: "evaluate_plain S E op check f db = Inr db'"
    and f: "\<forall>x y. good {0} x \<longrightarrow> f x = Inr y \<longrightarrow> keeps {0} x y \<and> assets y = assets x \<and> supplies y = supplies x"
    and v: "\<forall>x y. f x = Inr y \<longrightarrow> founding y = founding x"
  shows "established G db'"
proof -
  have b: "opening_books db" "good {0} db" using o by (simp_all add: established_def opening_books_def)
  from opening_step [OF b(1) evaluate_plain_frame [OF S b(2) f e]] founded.evaluate_plain_view [OF e v] o
  show ?thesis by (simp add: established_def)
qed

lemma genesis_operations_step:
  assumes S: "safe_exact S" and o: "established G db"
  shows "run_operation S E skip False (Account_create q1) db = Inr db' \<Longrightarrow> established G db'"
    "run_operation S E skip False (Transfer q2) db = Inr db' \<Longrightarrow> established G db'"
    "run_operation S E skip False (Miner_create q3) db = Inr db' \<Longrightarrow> established G db'"
proof -
  have t: "keeps {0} x y \<and> assets y = assets x \<and> supplies y = supplies x" if "good {0} x" "transfer_do_apply S q x = Inr y" for q x y
  proof -
    from that(2) obtain n z w d where "adjust_balance S (tr_from q) n x = Inr z" "adjust_balance S (tr_to q) (tr_amount q) z = Inr w" "create_detail d w = Inr y"
      by (auto simp: transfer_do_apply_def res_simps)
    then have "consensus_state y = consensus_state x" "supplies y = supplies x"
      using recorded.adjust consensus.adjust recorded.frames consensus.frames by metis+
    then show ?thesis using transfer_keeps [OF S that] by (simp add: consensus_state_def)
  qed
  show "run_operation S E skip False (Account_create q1) db = Inr db' \<Longrightarrow> established G db'"
    by (simp, erule evaluate_plain_established [OF S o]) (use account_money(1) money_frame founded.account_view(1) in blast)+
  show "run_operation S E skip False (Transfer q2) db = Inr db' \<Longrightarrow> established G db'"
    by (simp, erule evaluate_plain_established [OF S o]) (use t founded.payment_view(1) in blast)+
  show "run_operation S E skip False (Miner_create q3) db = Inr db' \<Longrightarrow> established G db'"
    by (simp, erule evaluate_plain_established [OF S o]) (use miner_money(1) money_frame founded.miner_view(1) in blast)+
qed

lemma initial_accounts_step:
  assumes S: "safe_exact S" and o: "established G db" and r: "create_initial_accounts S E skip as db = Inr db'"
  shows "established G db'"
  using r unfolding create_initial_accounts_def
  by (rule fold_res_invariant [where P = "established G"])
    (use o in \<open>auto simp: res_simps simp del: run_operation.simps dest: genesis_operations_step [OF S]\<close>)

lemma initial_balances_step:
  assumes S: "safe_exact S" and o: "established G db" and r: "create_initial_balances S E skip bs db = Inr db'"
  shows "established G db'"
  using r unfolding create_initial_balances_def
  by (rule fold_res_invariant [where P = "established G"])
    (use o in \<open>auto simp: res_simps simp del: run_operation.simps dest: genesis_operations_step [OF S]\<close>)

lemma established_frame:
  "established G db \<Longrightarrow> opening_books db' \<Longrightarrow> core_supply db' = core_supply db \<Longrightarrow> founding db' = founding db \<Longrightarrow> established G db'"
  by (simp add: established_def)

lemma initial_assets_step:
  assumes o: "established G db" and r: "create_initial_assets as db = Inr (totals, db')"
  shows "established G db' \<and> (\<forall>p \<in> set totals. snd p = 0)"
proof -
  let ?P = "\<lambda>(totals, db). established G db \<and> (\<forall>p \<in> set totals. snd p = 0)"
  have "?P (totals, db')"
    using r unfolding create_initial_assets_def
  proof (rule fold_res_invariant [where P = ?P])
    show "?P ([], db)" using o by simp
  next
    fix x :: initial_asset_type and s s' :: "(nat \<times> int) list \<times> database"
    assume k: "?P s" and f: "(case s of (totals, db) \<Rightarrow> let totals' = map_assign (next_id (assets db)) 0 totals in
       rbind (create_dynamic_data \<lparr>current_supply = 0, asset_pool = 0, core_pool = 0\<rparr> db) (\<lambda>(dyn, db1).
       rbind (get_account_id (ini_issuer_name x) db1) (\<lambda>who.
       rbind (create_asset \<lparr>symbol = ini_symbol x, precision = ini_precision x, issuer = who, description = ini_description x,
         monitored_asset_opts = Some default_monitored_options, asset_opts = default_asset_options\<lparr>max_supply := 0\<rparr>, dynamic_asset_data_id = dyn\<rparr> db1) (\<lambda>(_, db2).
         Inr (totals', db2))))) = Inr s'"
    obtain ts d where s: "s = (ts, d)" by (cases s)
    from f obtain dyn t ao i u where 1: "idx_create no_clash (dynamic_data d) (\<lambda>_. \<lparr>current_supply = 0, asset_pool = 0, core_pool = 0\<rparr>) = Inr (dyn, t)"
      and 2: "idx_create asset_clash (assets d) (\<lambda>_. ao) = Inr (i, u)" and s': "s' = (map_assign (next_id (assets d)) 0 ts, d\<lparr>dynamic_data := t, assets := u\<rparr>)"
      and ao: "dynamic_asset_data_id ao = dyn" "is_monitored_asset ao"
      by (fastforce simp: s create_dynamic_data_def create_asset_def is_monitored_asset_def Let_def res_simps)
    have e: "established G d" "\<forall>p \<in> set ts. snd p = 0" using k by (simp_all add: s)
    then have g: "good {0} d" "data_present d" "core_supply d \<noteq> None" by (simp_all add: established_def opening_books_def)
    then have w: "wf_index (dynamic_data d)" "wf_index (assets d)" by (simp_all add: good_def books_def)
    from create_fresh(2) [OF w(1) 1] create_fresh(2) [OF w(2) 2] have fr: "supplies d dyn = None" "i \<noteq> 0"
      using g(3) by (auto simp: supplies_def core_supply_def intro: ccontr)
    have "rate_ok i ao" "is_monitored_asset ao \<longrightarrow> i \<notin> {0}" using ao(2) fr(2) by (simp_all add: rate_ok_def)
    note n = new_asset_books [OF g(1,2) 1 2 refl ao(1) this]
    have "core_supply (d\<lparr>dynamic_data := t, assets := u\<rparr>) = core_supply d"
      using n(5,7) fr g(3) by (auto simp: core_supply_def split: bind_splits)
    moreover have "opening_books (d\<lparr>dynamic_data := t, assets := u\<rparr>)" using n(1-3) e(1) by (simp add: established_def opening_books_def)
    moreover have "founding (d\<lparr>dynamic_data := t, assets := u\<rparr>) = founding d" by (simp add: founding_def counters_def head_block_time_def)
    ultimately have "established G (d\<lparr>dynamic_data := t, assets := u\<rparr>)" by (intro established_frame [OF e(1)])
    moreover have "\<forall>p \<in> set (map_assign k 0 ts). snd p = 0" for k using e(2) by (auto simp: map_assign_def upd_row_def)
    ultimately show "?P s'" by (simp add: s')
  qed
  then show ?thesis by simp
qed

text \<open>The tallied supplies are what the assets have already.\<close>

lemma core_recorded: "core_supply db \<noteq> None \<Longrightarrow> core_supply db = Some (recorded_supply 0 db)"
  by (auto simp: core_supply_def recorded_supply_def recorded_in_def split: bind_splits option.splits)

lemma core_present: "data_present db \<Longrightarrow> core_supply db \<noteq> None \<longleftrightarrow> idx_find (assets db) 0 \<noteq> None"
proof -
  assume p: "data_present db"
  have "idx_find (dynamic_data db) (dynamic_asset_data_id ao) \<noteq> None" if "idx_find (assets db) 0 = Some ao" for ao
    using p map_of_SomeD [of "rows (assets db)" 0 ao] that by (auto simp: data_present_def list_all_iff idx_find_def simp del: not_None_eq)
  then show ?thesis by (cases "idx_find (assets db) 0") (auto simp: core_supply_def supplies_def)
qed

lemma save_supply_step:
  assumes e: "established G db" and z: "fst item = 0 \<longrightarrow> snd item = GRAPHENE_INITIAL_SHARE_SUPPLY" and r: "save_supply item db = Inr db'"
  shows "established G db'"
proof -
  from r obtain ao d where ao: "idx_find (assets db) (fst item) = Some ao" and d: "idx_find (dynamic_data db) (dynamic_asset_data_id ao) = Some d"
    and m0: "modify_dynamic_data (dynamic_asset_data_id ao) (\<lambda>d. Inr (d\<lparr>current_supply := snd item\<rparr>)) db = Inr db'"
    by (auto simp: save_supply_def idx_get_def get_or_throw_def res_simps split: option.splits)
  define ds where "ds = snd item - current_supply d"
  have m: "modify_dynamic_data (dynamic_asset_data_id ao) (\<lambda>x. Inr (x\<lparr>current_supply := current_supply x + ds\<rparr>)) db = Inr db'"
    using m0 d by (simp add: modify_dynamic_data_def idx_update_def ds_def)
  have b: "good {0} db" "books db" "data_present db" "core_supply db = Some GRAPHENE_INITIAL_SHARE_SUPPLY"
    using e by (simp_all add: established_def opening_books_def good_def)
  note h = modify_dynamic_data_books [OF b(2) ao m, where da = 0 and dc = 0 and ds = ds, simplified]
  obtain t where t: "db' = db\<lparr>dynamic_data := t\<rparr>" using h(4) ..
  obtain d1 where "idx_find (dynamic_data db') = (idx_find (dynamic_data db))(dynamic_asset_data_id ao \<mapsto> d1)"
    using m by (auto elim!: modify_dynamic_data_Inr)
  then have p: "data_present db'" using b(3) by (auto simp: data_present_def list_all_iff t)
  have "market_inv {0} db'" using b(1) market_inv_frame [of db' db] by (simp add: good_def t)
  with h(1,2) p e have o: "opening_books db'" by (simp add: established_def opening_books_def good_def)
  have "core_supply db' \<noteq> None" using core_present [OF p] core_present [OF b(3)] b(4) by (simp add: t)
  then have "core_supply db' = Some (recorded_supply 0 db')" by (rule core_recorded)
  moreover have "recorded_supply 0 db = GRAPHENE_INITIAL_SHARE_SUPPLY" using core_recorded [of db] b(4) by simp
  moreover have "recorded_supply 0 db = current_supply d" if "fst item = 0" using that ao d by (simp add: recorded_supply_def recorded_in_def supplies_def)
  ultimately have "core_supply db' = core_supply db" using h(3) [of 0] z b(4) by (auto simp: ds_def)
  with e o show ?thesis by (rule established_frame) (simp add: t founding_def counters_def head_block_time_def)
qed

lemma save_supplies_step:
  assumes e: "established G db" and z: "\<forall>p \<in> set totals. snd p = 0" and r: "save_supplies S totals db = Inr db'"
  shows "established G db'"
proof -
  let ?m = "map_assign 0 GRAPHENE_INITIAL_SHARE_SUPPLY totals"
  have "\<not> (case map_of totals 0 of None \<Rightarrow> 0 | Some x \<Rightarrow> x) > (0::int)"
    using z map_of_SomeD [of totals 0] by (cases "map_of totals 0") fastforce+
  with r have f: "fold_res save_supply ?m db = Inr db'" by (simp add: save_supplies_def)
  have "x = GRAPHENE_INITIAL_SHARE_SUPPLY" if "(0, x) \<in> set ?m" for x
    using that by (auto simp: map_assign_def upd_row_def map_of_eq_None_iff rev_image_eqI split: if_splits)
  then have m: "fst p = 0 \<longrightarrow> snd p = GRAPHENE_INITIAL_SHARE_SUPPLY" if "p \<in> set ?m" for p using that by (metis prod.collapse)
  from f show ?thesis
    by (rule fold_res_invariant [where P = "established G"]) (use e m save_supply_step in blast)+
qed

text \<open>The miners are numbered from one.\<close>

definition miners_numbered :: "nat \<Rightarrow> database \<Rightarrow> bool" where
  "miners_numbered k db \<longleftrightarrow> next_id (miners db) = Suc k \<and> (\<forall>i \<in> {1..k}. idx_find (miners db) i \<noteq> None)"

lemma miner_created:
  assumes r: "run_operation S E skip False (Miner_create q) db = Inr db'" and n: "miners_numbered k db"
  shows "miners_numbered (Suc k) db'"
proof -
  from r obtain fs db1 db2 db3 m where
    c: "convert_fee S False fs db = Inr db1" "pay_fee S False fs db1 = Inr db2" "miner_create_do_apply q db2 = Inr db3" "adjust_balance S (mcr_account q) m db3 = Inr db'"
    by (auto simp: evaluate_plain_def evaluate_with_def start_evaluate_def plain_check_def plain_change_def res_simps split: if_splits)
  have "miners db2 = miners db"
    using c(1,2) by (auto simp: convert_fee_def pay_fee_def modify_dynamic_data_def res_simps split: if_splits)
  moreover from c(3) obtain x i where "idx_create miner_clash (miners db2) (\<lambda>_. x) = Inr (i, miners db3)"
    by (auto simp: miner_create_do_apply_def create_miner_def res_simps split: prod.splits)
  moreover have "miners db' = miners db3" using consensus.adjust [OF c(4)] by (simp add: consensus_state_def)
  ultimately have "miners db' = (miners db)\<lparr>rows := ins_row (next_id (miners db)) x (rows (miners db)), next_id := Suc (next_id (miners db))\<rparr>"
    by (auto simp: idx_create_def Let_def res_simps)
  with n show ?thesis by (auto simp: miners_numbered_def idx_find_def map_of_eq_None_iff le_Suc_eq)
qed

lemma initial_miners_step:
  assumes S: "safe_exact S" and e: "established G db" and r: "create_initial_miners S E skip ms db = Inr db'"
  shows "established G db' \<and> miners_numbered (length ms) db'"
proof -
  have loop: "established G y \<and> miners_numbered (k + length ms) y" if "fold_res (\<lambda>m db. rbind (get_account_id (owner_name m) db) (\<lambda>who.
      run_operation S E skip False (Miner_create \<lparr>mcr_fee = mk_asset 0 0, mcr_account = who, mcr_url = [], mcr_signing_key = block_signing_key m\<rparr>) db))
      ms x = Inr y" "established G x" "miners_numbered k x" for k ms x y
    using that
  proof (induction ms arbitrary: k x)
    case (Cons m ms)
    from Cons.prems(1) obtain who z where z: "run_operation S E skip False (Miner_create \<lparr>mcr_fee = mk_asset 0 0, mcr_account = who, mcr_url = [],
      mcr_signing_key = block_signing_key m\<rparr>) x = Inr z" and y: "fold_res (\<lambda>m db. rbind (get_account_id (owner_name m) db) (\<lambda>who.
      run_operation S E skip False (Miner_create \<lparr>mcr_fee = mk_asset 0 0, mcr_account = who, mcr_url = [], mcr_signing_key = block_signing_key m\<rparr>) db))
      ms z = Inr y" by (auto simp: res_simps simp del: run_operation.simps)
    from Cons.IH [OF y genesis_operations_step(3) [OF S Cons.prems(2) z] miner_created [OF z Cons.prems(3)]] show ?case by simp
  qed simp
  from r obtain x t v where x: "create_miner x db = Inr (0, v)" "idx_remove (miners v) 0 = Inr t" and f: "fold_res (\<lambda>m db. rbind (get_account_id (owner_name m) db) (\<lambda>who.
      run_operation S E skip False (Miner_create \<lparr>mcr_fee = mk_asset 0 0, mcr_account = who, mcr_url = [], mcr_signing_key = block_signing_key m\<rparr>) db))
      ms (v\<lparr>miners := t\<rparr>) = Inr db'"
    by (auto simp: create_initial_miners_def GRAPHENE_NULL_MINER_def res_simps simp del: run_operation.simps)
  then obtain u where v: "idx_create miner_clash (miners db) (\<lambda>_. x) = Inr (0, u)" "v = db\<lparr>miners := u\<rparr>" by (auto simp: create_miner_def res_simps)
  then have "miners_numbered 0 (v\<lparr>miners := t\<rparr>)"
    using x(2) by (auto simp: miners_numbered_def idx_create_def idx_remove_def Let_def res_simps split: option.splits)
  moreover have "money (v\<lparr>miners := t\<rparr>) = money db" "founding (v\<lparr>miners := t\<rparr>) = founding db"
    by (simp_all add: v(2) money_def founding_def counters_def head_block_time_def)
  with e have "established G (v\<lparr>miners := t\<rparr>)" using opening_money [of db] by (auto simp: established_def)
  ultimately show ?thesis using loop [OF f] by fastforce
qed

section \<open>From the genesis on\<close>

text \<open>A chain before its genesis.\<close>

definition unopened :: "chain \<Rightarrow> bool" where
  "unopened c \<longleftrightarrow> balances (chain_db c) = empty_index \<and> assets (chain_db c) = empty_index \<and> dynamic_data (chain_db c) = empty_index \<and>
     vestings (chain_db c) = empty_index \<and> contents (chain_db c) = empty_index \<and> buyings (chain_db c) = empty_index \<and> proposals c = empty_index"

lemma first_balance:
  assumes u: "unopened c" and r: "create_balance \<lparr>bal_owner = 0, asset_type = 0, bal_amount = GRAPHENE_INITIAL_SHARE_SUPPLY\<rparr>
      ((chain_db c)\<lparr>block_summaries := t\<rparr>) = Inr db"
  shows "opening_books db \<and> assets db = empty_index"
proof -
  have db: "db = (chain_db c)\<lparr>block_summaries := t, balances := \<lparr>next_id = 1, rows = [(0, \<lparr>bal_owner = 0, asset_type = 0, bal_amount = GRAPHENE_INITIAL_SHARE_SUPPLY\<rparr>)]\<rparr>\<rparr>"
    using u r by (auto simp: unopened_def create_balance_def idx_create_def empty_index_def Let_def res_simps)
  show ?thesis using u
    by (simp add: opening_books_def good_def books_def solvent_def wf_index_def market_inv_def data_present_def holdings_def balance_supply_def pool_of_def pool_in_def
        db unopened_def empty_index_def idx_find_def idx_total_def balance_key_def supply_weight_def GRAPHENE_INITIAL_SHARE_SUPPLY_def)
qed

lemma objects_established:
  assumes u: "unopened c" and r: "genesis_objects summaries G (chain_db c) = Inr db"
  shows "established G db"
proof -
  let ?P = "gen_immutable_parameters G"
  from r obtain db1 db2 db3 db4 db5 where 1: "create_balance \<lparr>bal_owner = 0, asset_type = 0, bal_amount = GRAPHENE_INITIAL_SHARE_SUPPLY\<rparr>
      ((chain_db c)\<lparr>block_summaries := resize_summaries summaries\<rparr>) = Inr db1"
    "blockchain_accounts db1 = Inr db2" "special_accounts (num_special_accounts ?P) db2 = Inr db3"
    "create_core_asset (max_core_supply G) db3 = Inr db4" "special_assets (num_special_assets ?P) db4 = Inr db5"
    and db: "db = create_summary (db5\<lparr>gpo := initial_gpo (initial_parameters G), dpo := initial_dpo (initial_timestamp G), immutable_parameters := ?P\<rparr>)"
    by (auto simp: genesis_objects_def Let_def res_simps)
  have "money db3 = money db1" using blockchain_accounts_money [OF 1(2)] special_accounts_money [OF 1(3)] by simp
  with first_balance [OF u 1(1)] have "opening_books db3" "assets db3 = empty_index" using opening_money [of db1 db3] money_cong(2) [of db3 db1] by simp_all
  note o4 = core_asset_opening [OF this 1(4)]
  note o5 = special_assets_opening [OF conjunct1 [OF o4] conjunct2 [OF o4] 1(5)]
  have "money db = money db5" by (simp add: db create_summary_def Let_def money_def)
  moreover have "founding db = ((0, 0, 0), initial_timestamp G, (initial_parameters G)\<lparr>current_fees := zero_all_fees default_fees\<rparr>, [])"
    by (simp add: db create_summary_def Let_def founding_def counters_def head_block_time_def initial_gpo_def initial_dpo_def)
  ultimately show ?thesis using o5 opening_money [of db5 db] by (simp add: established_def)
qed

lemma contents_established:
  assumes S: "safe_exact S" and e: "established G db" and r: "genesis_contents S E skip G db = Inr db'"
  shows "established G db' \<and> miners_numbered (length (initial_miner_candidates G)) db'"
proof -
  from r obtain db1 db2 db3 db4 totals where 1: "create_initial_accounts S E skip (initial_accounts G) db = Inr db1"
    "create_initial_balances S E skip (initial_balances G) db1 = Inr db2" "create_initial_assets (initial_assets G) db2 = Inr (totals, db3)"
    "save_supplies S totals db3 = Inr db4" "create_initial_miners S E skip (initial_miner_candidates G) db4 = Inr db'"
    by (auto simp: genesis_contents_def res_simps)
  from initial_assets_step [OF initial_balances_step [OF S initial_accounts_step [OF S e 1(1)] 1(2)] 1(3)]
  have "established G db3" "\<forall>p \<in> set totals. snd p = 0" by simp_all
  from initial_miners_step [OF S save_supplies_step [OF this 1(4)] 1(5)] show ?thesis .
qed

lemma genesis_opens:
  assumes S: "safe_exact S" and u: "unopened c" and r: "init_genesis summaries S E skip G c = Inr c'"
  obtains db where "established G db" "miners_numbered (length (initial_miner_candidates G)) db"
    "initial_active_miners G \<le> length (initial_miner_candidates G)" "c' = c\<lparr>chain_db := genesis_miners G db\<rparr>"
proof -
  from r obtain db1 db where 1: "genesis_objects summaries G (chain_db c) = Inr db1" "genesis_contents S E (skip OR skip_authority_check) G db1 = Inr db"
    and n: "initial_active_miners G \<le> length (initial_miner_candidates G)" "c' = c\<lparr>chain_db := genesis_miners G db\<rparr>"
    by (auto simp: init_genesis_def res_simps)
  from contents_established [OF S objects_established [OF u 1(1)] 1(2)] n show ?thesis by (intro that) simp_all
qed

text \<open>The genesis leaves the books, the counters and the clock as established, with the miners and the parameters in force.\<close>

lemma genesis_miners_opening:
  assumes "established G db"
  shows "good {0} (genesis_miners G db)" "supply_identity (genesis_miners G db)" "holdings a (genesis_miners G db) = (if a = 0 then GRAPHENE_INITIAL_SHARE_SUPPLY else 0)"
    "active_miners (gpo (genesis_miners G db)) = [1..<Suc (initial_active_miners G)]" "parameters (gpo (genesis_miners G db)) = initial_parameters G"
    "head_block_time (genesis_miners G db) = initial_timestamp G"
proof -
  have "money (genesis_miners G db) = money db" by (simp add: genesis_miners_def Let_def money_def)
  with assms have o: "opening_books (genesis_miners G db)" "core_supply (genesis_miners G db) = Some GRAPHENE_INITIAL_SHARE_SUPPLY"
    using opening_money [of db "genesis_miners G db"] by (simp_all add: established_def)
  then show "good {0} (genesis_miners G db)" "holdings a (genesis_miners G db) = (if a = 0 then GRAPHENE_INITIAL_SHARE_SUPPLY else 0)"
    by (simp_all add: opening_books_def)
  have d: "counters db = (0, 0, 0)" "head_block_time db = initial_timestamp G" "active_miners (gpo db) = []"
    "parameters (gpo db) = (initial_parameters G)\<lparr>current_fees := zero_all_fees default_fees\<rparr>" using assms by (simp_all add: established_def founding_def)
  then show "active_miners (gpo (genesis_miners G db)) = [1..<Suc (initial_active_miners G)]" "parameters (gpo (genesis_miners G db)) = initial_parameters G"
    "head_block_time (genesis_miners G db) = initial_timestamp G" by (simp_all add: genesis_miners_def Let_def head_block_time_def)
  have "counters (genesis_miners G db) = (0, 0, 0)" using d(1) by (simp add: genesis_miners_def Let_def counters_def)
  with o show "supply_identity (genesis_miners G db)" by (simp add: supply_identity_def opening_books_def counters_def)
qed

lemma genesis_fair: "unopened c \<Longrightarrow> c' = c\<lparr>chain_db := d\<rparr> \<Longrightarrow> proposals_fair E U c'"
  by (simp add: unopened_def proposals_fair_def idx_find_def) (simp add: empty_index_def)

text \<open>
  C12: The genesis opens a chain in order. Whatever it says, if it is accepted then the whole initial supply of the core asset is held and
  recorded as its supply, nothing is held of any other asset, the invariants of the books hold, the active miners are
  the ids from one on, as many as the genesis asks for, and all are registered, the schedule is made of them, and the parameters, fees included, and the time are those of the genesis.
\<close>

theorem genesis_opens_chain:
  assumes S: "safe_exact S" and u: "unopened c" and r: "init_genesis summaries S E skip G c = Inr c'"
  shows "good {0} (chain_db c') \<and> supply_identity (chain_db c') \<and> proposals_fair E {0} c' \<and>
    (\<forall>a. holdings a (chain_db c') = (if a = 0 then GRAPHENE_INITIAL_SHARE_SUPPLY else 0)) \<and>
    active_miners (gpo (chain_db c')) = [1..<Suc (initial_active_miners G)] \<and>
    current_shuffled_miners (miner_schedule (chain_db c')) = active_miners (gpo (chain_db c')) \<and>
    (\<forall>i \<in> set (active_miners (gpo (chain_db c'))). idx_find (miners (chain_db c')) i \<noteq> None) \<and>
    parameters (gpo (chain_db c')) = initial_parameters G \<and> head_block_time (chain_db c') = initial_timestamp G"
proof -
  from genesis_opens [OF S u r] obtain db where e: "established G db" and m: "miners_numbered (length (initial_miner_candidates G)) db"
    and n: "initial_active_miners G \<le> length (initial_miner_candidates G)" and c: "c' = c\<lparr>chain_db := genesis_miners G db\<rparr>" .
  note o = genesis_miners_opening [OF e]
  have "\<forall>i \<in> {1..initial_active_miners G}. idx_find (miners (genesis_miners G db)) i \<noteq> None"
    using m n by (simp add: miners_numbered_def genesis_miners_def Let_def)
  then have "\<forall>i \<in> set (active_miners (gpo (chain_db c'))). idx_find (miners (chain_db c')) i \<noteq> None"
    using o(4) by (auto simp: c)
  moreover have "current_shuffled_miners (miner_schedule (chain_db c')) = active_miners (gpo (chain_db c'))"
    by (simp add: c genesis_miners_def Let_def)
  ultimately show ?thesis using o genesis_fair [OF u c] by (simp add: c)
qed

text \<open>
  C3: From the genesis on the supply is accounted for. On a chain of blocks that starts at an accepted genesis and whose operations, proposed ones
  included, create no asset, offer content only in the core asset and run no interpreter that changes objects of the chain, and as long as no account asks
  a negative price for subscriptions when the chain is maintained, the recorded supply of the core asset plus the rewards and
  fees paid since the last budget is exactly what is held, and no balance is negative.
\<close>

theorem supply_from_genesis:
  assumes S: "safe_exact S" "safe_total S" "safe_overflow S" and i: "interpreters_respect counters (blk_ops B)"
    and u: "unopened c0" and g: "init_genesis summaries S (blk_ops B) skip G c0 = Inr c" and r: "(block_step S B {0})\<^sup>*\<^sup>* c c'"
  shows "holdings 0 (chain_db c') = recorded_supply 0 (chain_db c') + mined_rewards (dpo (chain_db c')) +
      miner_budget_from_fees (dpo (chain_db c')) - unspent_fee_budget (dpo (chain_db c')) \<and> (\<forall>x a. 0 \<le> ledger_of (chain_db c') x a)"
proof -
  from genesis_opens [OF S(1) u g] obtain db where e: "established G db" and c: "c = c0\<lparr>chain_db := genesis_miners G db\<rparr>" .
  have "accounts_balance (blk_ops B) {0} c"
    using genesis_miners_opening(1,2) [OF e] supply_balanced genesis_fair [OF u c] by (simp add: accounts_balance_def c)
  then have "accounts_balance (blk_ops B) {0} c'" by (rule blocks_balanced [OF S _ i r, rotated]) simp
  then show ?thesis by (rule balanced_holdings)
qed

definition account_line :: "string \<Rightarrow> nat \<Rightarrow> initial_account_type" where
  "account_line n k = \<lparr>ini_name = n, owner_key = k, owner_key2 = None, owner_key3 = None, owner_threshold = None, active_key = 0,
     active_key2 = None, active_key3 = None, active_threshold = None\<rparr>"

definition genesis_example :: genesis_state_type where
  "genesis_example = \<lparr>initial_timestamp = 1000, max_core_supply = GRAPHENE_MAX_SHARE_SUPPLY, initial_parameters = empty_parameters\<lparr>maximum_miner_count := 3\<rparr>,
     gen_immutable_parameters = \<lparr>min_miner_count = 3, num_special_accounts = 5, num_special_assets = 2\<rparr>,
     initial_accounts = [account_line ''init0'' 7, account_line ''init1'' 8, account_line ''decent1'' 9],
     initial_assets = [\<lparr>ini_symbol = ''USD'', ini_issuer_name = ''decent1'', ini_description = [], ini_precision = 4\<rparr>],
     initial_balances = [\<lparr>ini_owner = ''decent1'', ini_asset_symbol = ''DCT'', ini_amount = GRAPHENE_INITIAL_SHARE_SUPPLY\<rparr>],
     initial_active_miners = 3, initial_miner_candidates = [\<lparr>owner_name = ''init0'', block_signing_key = 7\<rparr>,
       \<lparr>owner_name = ''init1'', block_signing_key = 8\<rparr>, \<lparr>owner_name = ''decent1'', block_signing_key = 9\<rparr>]\<rparr>"

abbreviation unopened_chain :: chain where
  "unopened_chain \<equiv> \<lparr>chain_db = empty_db, proposals = empty_index\<rparr>"

lemma unopened_chain_ok: "unopened unopened_chain"
  by (simp add: unopened_def empty_db_def)

theorem genesis_opens_chain_witness:
  "\<exists>c'. init_genesis 4 safe_int64 op_env_example 0 genesis_example unopened_chain = Inr c' \<and>
     holdings 0 (chain_db c') = GRAPHENE_INITIAL_SHARE_SUPPLY \<and> active_miners (gpo (chain_db c')) = [1, 2, 3] \<and> idx_find (miners (chain_db c')) 3 \<noteq> None"
proof -
  have "succeeds (init_genesis 4 safe_int64 op_env_example 0 genesis_example unopened_chain)" by code_simp
  then obtain c' where r: "init_genesis 4 safe_int64 op_env_example 0 genesis_example unopened_chain = Inr c'" unfolding succeeds_iff ..
  have "[1..<Suc (initial_active_miners genesis_example)] = [1, 2, 3]" by (simp add: genesis_example_def upt_rec)
  with genesis_opens_chain [OF safe_int64_exact unopened_chain_ok r] r show ?thesis by simp
qed

definition genesis_block :: chain_block where
  "genesis_block = \<lparr>previous = null_block_id, timestamp = 1005, miner = 2, transaction_merkle_root = 0, miner_signature = 8, transactions = []\<rparr>"

text \<open>The first block has no transactions, so accounts are as the genesis left them when the chain is maintained at its end.\<close>

lemma empty_block_accounts:
  assumes "begin_block S B cp k b c = Inr (m, c1)" "transactions b = []"
  shows "accounts (chain_db c1) = accounts (chain_db c)"
proof -
  have "accounts s' = accounts s" if "note_missed w x s = Inr s'" for w x s s'
    using that by (auto simp: note_missed_def modify_miner_def Let_def res_simps split: if_splits)
  then have "accounts s' = accounts s" if "fold_res (note_missed w) xs s = Inr s'" for w xs s s'
    by (intro fold_res_invariant [OF that, where P = "\<lambda>x. accounts x = accounts s"]) auto
  with assms show ?thesis by (auto simp: begin_block_def update_global_dynamic_data_def Let_def res_simps)
qed

theorem supply_from_genesis_witness:
  "\<exists>c c'. init_genesis 4 safe_int64 op_env_example 0 genesis_example unopened_chain = Inr c \<and>
     apply_block safe_int64 block_env_example [] skip_nothing genesis_block c = Inr c' \<and>
     holdings 0 (chain_db c') = recorded_supply 0 (chain_db c') + mined_rewards (dpo (chain_db c')) +
       miner_budget_from_fees (dpo (chain_db c')) - unspent_fee_budget (dpo (chain_db c')) \<and> (\<forall>x a. 0 \<le> ledger_of (chain_db c') x a)"
proof -
  let ?g = "init_genesis 4 safe_int64 op_env_example 0 genesis_example unopened_chain"
  have "succeeds (rbind ?g (apply_block safe_int64 block_env_example [] skip_nothing genesis_block))" by code_simp
  then obtain c c' where c: "?g = Inr c" "apply_block safe_int64 block_env_example [] skip_nothing genesis_block c = Inr c'"
    by (auto simp: succeeds_iff res_simps)
  have "case ?g of Inl e \<Rightarrow> False | Inr c \<Rightarrow> list_all (\<lambda>r. price_per_subscribe (acc_options (snd r)) = mk_asset 0 0) (rows (accounts (chain_db c)))" by code_simp
  then have "price_per_subscribe (acc_options a) = mk_asset 0 0" if "idx_find (accounts (chain_db c)) i = Some a" for i a
    using that c(1) map_of_SomeD [of "rows (accounts (chain_db c))" i a] by (auto simp: list_all_iff idx_find_def)
  then have "prices_nonneg (chain_db c1)" if "begin_block safe_int64 block_env_example (last_checkpoint []) k genesis_block c = Inr (True, c1)" for k c1
    using empty_block_accounts [OF that] by (simp add: genesis_block_def prices_nonneg_def mk_asset_def in_int64_def)
  then have "block_step safe_int64 block_env_example {0} c c'" by (intro block_step.applied [OF c(2)]) (simp_all add: genesis_block_def)
  then have r: "(block_step safe_int64 block_env_example {0})\<^sup>*\<^sup>* c c'" by (rule r_into_rtranclp)
  have i: "interpreters_respect counters (blk_ops block_env_example)" by (simp add: interpreters_respect_def block_env_example_def op_env_example_def)
  have "init_genesis 4 safe_int64 (blk_ops block_env_example) 0 genesis_example unopened_chain = Inr c" using c(1) by (simp add: block_env_example_def)
  from supply_from_genesis [OF safe_int64_exact safe_int64_total safe_int64_overflow i unopened_chain_ok this r] c show ?thesis by blast
qed

end
