(* ===== verification/Spec2Isabelle.thy ===== *)
theory Spec2Isabelle
  imports Undo_Sessions Content_Rules Election Supply Authorities Accounts Vote_Ids Proposal_Rules Node_Loops Messaging Genesis
begin

text \<open>
  A model of the consensus core of the DECENT network node: the object database of \<open>libraries/db\<close> and the chain of \<open>libraries/chain\<close>, from the
  undo history up to the processing of blocks.

  \<^bold>\<open>The program.\<close> A node keeps the state of the chain as objects in multi-index containers. Every change to them passes through an object
  database that can undo it. A block carries transactions, a transaction carries operations, and an operation is checked and carried out by
  its evaluator. Around the transactions of a block the chain does its own work: it notes the head block and missed slots, pays
  the miner, moves the last irreversible block, runs the maintenance (tally, election, housekeeping, parameters, budget), and clears what
  has expired. Recent blocks form a tree, the fork database; all blocks are on disk; a push may extend the head, wait on a side branch,
  or make the node undo blocks and switch branches. Transactions that are not in a block yet are applied on top of the head in a session of their own.

  \<^bold>\<open>Conventions.\<close> Prelude has the vocabulary. An operation that may throw returns a value of the sum type result; \<open>rbind\<close> sequences, \<open>fc_assert\<close> is
  \<open>FC_ASSERT\<close>, \<open>fold_res\<close> is a loop over a container. Dereferencing an end iterator or a freed object is the value \<open>undefined_behaviour\<close>, which no
  handler catches. Amounts are integers; \<open>u32\<close>, \<open>u64\<close>, \<open>u128\<close> and \<open>to_int64\<close> write the wrap-around out where the code computes at
  these widths, flags and the state of the shuffle are words. The arithmetic of \<open>fc::safe\<close> is a parameter of type safe: \<open>safe_exact\<close> and \<open>safe_total\<close>
  say what the library documents, and \<open>safe_int64\<close> has both properties. Objects are records, one index per type of object. A reference to an object is its id.

  \<^bold>\<open>Theories and sources.\<close>

  \<^item> Object_Index: \<open>db/generic_index.hpp\<close>. Tables with unique keys; the locale object_table is their contract.
  \<^item> Undo_Database, Undo_Correctness, Undo_Sessions: \<open>db/undo_database.cpp\<close>, \<open>db/object_database.cpp\<close>. Recording of changes, undo, merge, commit and pop;
    the inverse invariant of a recorded state; the refinement of a stack of snapshots.
  \<^item> Block, Fork_Database, Block_Database: \<open>protocol/block.cpp\<close>, \<open>fork_database.cpp\<close>, \<open>block_database.cpp\<close>. Ids and merkle roots, the tree of blocks with its weak links, the two files.
  \<^item> Asset, Asset_Conversion, Amount_String, Vesting: \<open>protocol/asset.cpp\<close>, \<open>asset_object.cpp\<close>, \<open>vesting_balance_object.cpp\<close>. Prices in 128 bits, conversion through pools and
    feeds, amounts as text, vesting policies (locale vesting_contract).
  \<^item> Chain_State: the records of the objects in the headers of \<open>include/graphene/chain\<close>, their unique keys and the database they make up.
  \<^item> Balance, Holdings: \<open>db_balance.cpp\<close>, \<open>get_real_supply\<close> of \<open>db_decent.cpp\<close>. Balances as a ledger (locale ledger) and the account of what is held of an asset.
  \<^item> Transfers: \<open>evaluator.cpp\<close>, \<open>transfer_evaluator.cpp\<close>, \<open>vesting_balance_evaluator.cpp\<close>, \<open>withdraw_permission_evaluator.cpp\<close>, with the handling of fees (locale fee_evaluator).
  \<^item> Content, Content_Books, Content_Rules: \<open>decent_evaluator.cpp\<close>, \<open>protocol/decent.cpp\<close>, \<open>content_object.cpp\<close>.
  \<^item> Housekeeping, Housekeeping_Books, Observers: \<open>db_decent.cpp\<close>, \<open>subscription_evaluator.cpp\<close>. The locale observer says what content operations and housekeeping cannot change.
  \<^item> Miner_Schedule, Maintenance, Election, Supply: \<open>db_miner_schedule.cpp\<close>, \<open>db_update.cpp\<close>, \<open>db_maint.cpp\<close>, \<open>vote_count.hpp\<close>.
  \<^item> Authorities: \<open>protocol/authority.cpp\<close>, \<open>protocol/transaction.cpp\<close>. Both checks of signatures are instances of the locale signature_book.
  \<^item> Accounts, Member_Indexes, Vote_Ids, Miners, Fees: \<open>account_evaluator.cpp\<close>, \<open>protocol/account.cpp\<close>, \<open>account_object.cpp\<close>, \<open>message_object.cpp\<close>, \<open>protocol/vote.hpp\<close>, \<open>miner_evaluator.cpp\<close>,
    \<open>assert_evaluator.cpp\<close>, \<open>custom_evaluator.cpp\<close>, \<open>protocol/fee_schedule.cpp\<close>. The locale secondary_index is the contract of the reverse indexes.
  \<^item> Asset_Operations, Asset_Books: \<open>asset_evaluator.cpp\<close>, \<open>protocol/asset_ops.cpp\<close>.
  \<^item> Operations, Operation_Books, Operation_Observers: \<open>protocol/operations.hpp\<close>, \<open>evaluator.hpp\<close>. All operations as one variant; what every operation keeps and (locale operation_observer)
    what none can touch.
  \<^item> Proposals, Proposal_Rules: \<open>proposal_evaluator.cpp\<close>, \<open>proposal_object.cpp\<close>, \<open>push_proposal\<close> and \<open>apply_operation\<close> of \<open>db_block.cpp\<close>, \<open>clear_expired_proposals\<close>.
  \<^item> Block_Processing, Block_Frames, Block_Rules, Block_Supply, Node_Loops: \<open>db_block.cpp\<close>, \<open>db_with.hpp\<close>, \<open>db_management.cpp\<close>.
  \<^item> Messaging: \<open>plugins/messaging/messaging.cpp\<close>, the interpreter of custom operations that the repository has.
  \<^item> Genesis: \<open>init_genesis\<close> of \<open>db_init.cpp\<close>, \<open>genesis_state.hpp\<close>.

  A definition has the name of the function it translates, with the class in front where names repeat: \<open>transfer_do_apply\<close> is \<open>transfer_evaluator::do_apply\<close>.

  \<^bold>\<open>What is shown.\<close> The undo database implements snapshots (Undo_Sessions), and, below, so does the history a node keeps. The books: a transfer,
  every operation, the housekeeping and the maintenance change what is held of an asset by exactly what they add to its recorded supply, so that the supply
  the budget restates is real, and blocks, with all they hold and all that is done around them, keep it accounted for (Block_Supply), from
  the genesis on (Genesis), as long as nobody creates an asset, offers content in a monitored asset or asks a negative price for subscriptions,
  which do break it. The fork database stays a tree with the highest block as its head. Elections follow the votes, every active miner is scheduled, and
  the last irreversible block is confirmed by the share of miners the code asks for. Accepted signatures authorise; parameters change only by a proposal that was
  under review. A block that is applied is the new head, no transaction is applied twice, and pushing a block is atomic. Optimised routines compute what their
  specifications say: merkle roots, reduced sets of signatures, converted fees, the median feed, reverse indexes. Texts and packed values can be read back.
  The theorems on errors show on concrete states where the code does not do what it means to.

  \<^bold>\<open>Parameters.\<close> Code outside the repository is an argument: hashes, recovery of keys and packing of blocks (block_env, codec), checks of delivery
  and custody proofs, JSON and URLs (content_env), interpreters of custom operations that plugins register (op_env; \<open>messaging_respects\<close> shows
  that the one of the repository meets what is asked of them), conversion of integers to
  text. Their hypotheses are that packing can be undone, that a hash determines the expiration of a transaction where no transaction is to be applied
  twice, that pairs of digests do not collide where a root is to bind, and that interpreters leave alone what the theorem is about.

  \<^bold>\<open>Fuel.\<close> Loops over containers are structural. The walks of the fork database have as many rounds as there are blocks below the two heads (\<open>fetch_branch_terminates\<close>); \<open>push_next\<close> as many as there are unlinked blocks (\<open>push_next_enough\<close>); the
  recursion through proposals needs two levels, since no proposal ever holds an approval (Proposal_Rules), the loop over expired proposals one round for each,
  since every round leaves fewer, popping and
  rewinding as many as there are snapshots, dropping blocks as many as there are entries (Node_Loops). The loop that raises a fee is a partial function, which Fees
  shows to return.

  \<^bold>\<open>Orders and states left open.\<close> Containers whose order the code leaves to the library are walked in the order of insertion or of ids: the hash tables of an undo state
  and the subscriptions to renew. An exception carries no state, so what a failed modification or a failed read leaves behind in an
  index or a stream is not followed (Object_Index, Block_Database).

  \<^bold>\<open>Not modelled.\<close> Reading and writing of the index files, logging, listeners and the history of operations they see, results of operations, which nothing
  reads, and payloads of messages: none of them affects the chain. Elliptic curves and hashes, the custody and encryption libraries, archives and torrents are third-party code or wrappers of
  it. The network, the remote interfaces, the wallets and the programs are I/O around the chain. The chain id and the registration of evaluators and indexes are static here.
\<close>

section \<open>The history of the node\<close>

text \<open>
  The history agrees with an undo database when the snapshots are those its recorded changes lead back to, as seen
  through any view of the chain as the indexes of that database.
\<close>

definition history_agrees :: "(Proposals.chain \<Rightarrow> 'o indexes) \<Rightarrow> 'o object_database \<Rightarrow> node \<Rightarrow> bool" where
  "history_agrees view db n \<longleftrightarrow> undo_refines db (map view (snapshots n)) \<and> indexes db = view (node_chain n) \<and>
     object_database.max_size db = undo_limit n"

inductive_cases snap_stepE:
  "snap_step Start_session s s'" "snap_step Undo s s'" "snap_step Merge s s'" "snap_step Commit s s'" "snap_step Pop_commit s s'"

text \<open>
  C7: The undo history of the node is implemented by the undo database. Starting, undoing, merging and committing a session and popping a committed one
  on the recorded changes of \<open>undo_database.cpp\<close> does to the objects and to the history what the node's operations on
  whole snapshots do; whenever the database can merge or pop, the node can.
\<close>

theorem node_history_refined:
  assumes a: "history_agrees view db n" and e: "\<not> is_edit op" and x: "exec_op clash op db = Inr db'"
  shows "case op of
      Start_session \<Rightarrow> history_agrees view db' (start_session n)
    | Undo \<Rightarrow> history_agrees view db' (undo_session n)
    | Merge \<Rightarrow> \<exists>n'. merge_session n = (Inr (), n') \<and> history_agrees view db' n'
    | Pop_commit \<Rightarrow> \<exists>n'. pop_undo n = (Inr (), n') \<and> history_agrees view db' n'
    | _ \<Rightarrow> history_agrees view db' n"
proof -
  let ?s = "map view (snapshots n)"
  from a have r: "undo_refines db ?s" "indexes db = view (node_chain n)" "object_database.max_size db = undo_limit n"
    by (simp_all add: history_agrees_def)
  from exec_session_refines [OF e r(1) x] obtain s' where s: "snap_step op (indexes db, ?s) (indexes db', s')" "undo_refines db' s'"
    "object_database.max_size db' = undo_limit n" "op = Start_session \<longrightarrow> s' = view (node_chain n) # take (undo_limit n) ?s" by (auto simp: r(2,3))
  show ?thesis
  proof (cases op)
    case Start_session
    with s r(2) show ?thesis by (auto simp: history_agrees_def start_session_def take_map elim!: snap_stepE)
  next
    case Undo
    with s(1) obtain b bs where b: "?s = b # bs" "indexes db' = b" "s' = (if bs = [] then [b] else bs)" by (auto elim!: snap_stepE)
    then obtain c cs where "snapshots n = c # cs" "b = view c" "bs = map view cs" by auto
    with b s(2,3) Undo show ?thesis by (auto simp: history_agrees_def undo_session_def)
  next
    case Merge
    with s(1) obtain b b' bs where b: "?s = b # b' # bs" "indexes db' = indexes db" "s' = b' # bs" by (auto elim!: snap_stepE)
    then obtain c c' cs where "snapshots n = c # c' # cs" "b' = view c'" "bs = map view cs" by auto
    with b s(2,3) r(2) Merge show ?thesis by (auto simp: history_agrees_def merge_session_def)
  next
    case Commit
    with s r(2) show ?thesis by (auto simp: history_agrees_def elim!: snap_stepE)
  next
    case Pop_commit
    with s(1) obtain b bs where b: "?s = b # bs" "indexes db' = b" "s' = bs" by (auto elim!: snap_stepE)
    then obtain c cs where "snapshots n = c # cs" "b = view c" "bs = map view cs" by auto
    with b s(2,3) Pop_commit show ?thesis by (auto simp: history_agrees_def pop_undo_def)
  qed (use e in simp_all)
qed

theorem node_history_refined_witness:
  "history_agrees (\<lambda>_. indexes example_db) (snd (start_undo_session False example_db)) (start_session (node_example\<lparr>undo_limit := 256\<rparr>))"
proof -
  have "history_agrees (\<lambda>_. indexes example_db) example_db (node_example\<lparr>undo_limit := 256\<rparr>)"
    using example_db_refines by (simp add: history_agrees_def node_example_def) (simp add: example_db_def)
  from node_history_refined [OF this, of Start_session "\<lambda>_ _ _. False"] show ?thesis by simp
qed
end
